(* ===== verification/Prelude.thy ===== *)
theory Prelude
  imports Main "HOL-Library.Word" "HOL-Library.Monad_Syntax"
begin

text \<open>
  Shared vocabulary of the development: the machine integer types the library uses, the
  collections of rewrite rules the component theories extend, and the generic facts about
  lists, options and functions that their proofs share.

  A partial result \<^typ>\<open>'a option\<close> stands for a C computation: \<^term>\<open>None\<close> is a run that does
  not come back in a defined state (\<open>omx__abort\<close>, which is \<open>assert(0)\<close>, or an access outside an
  array), and \<^term>\<open>Some x\<close> is a run that returns \<^term>\<open>x\<close>.
\<close>

unbundle bit_operations_syntax

type_synonym u8 = "8 word"
type_synonym u16 = "16 word"
type_synonym u32 = "32 word"
type_synonym u64 = "64 word"

text \<open>Pointers into process memory and request handles are numbers; see theory \<open>Types\<close>.\<close>

type_synonym address = nat
type_synonym memory = "nat \<Rightarrow> u8"
type_synonym bytes = "u8 list"

named_theorems lib_defs "definitions of the small accessors that proofs always unfold"
named_theorems frame_simps "which parts of the state an operation leaves alone"
named_theorems queue_simps "effect of the queue operations on the queues"

subsection \<open>Runs that may abort\<close>

definition c_assert :: "bool \<Rightarrow> unit option" where
  "c_assert b = (if b then Some () else None)"

lemma c_assert_eq_Some [simp]: "c_assert b = Some u \<longleftrightarrow> b"
  by (simp add: c_assert_def)

lemma c_assert_eq_None [simp]: "c_assert b = None \<longleftrightarrow> \<not> b"
  by (simp add: c_assert_def)

lemma c_assert_simps [simp]: "c_assert True = Some ()" "c_assert False = None"
  by (simp_all add: c_assert_def)

lemma bind_None_case: "Option.bind x f = None \<longleftrightarrow> x = None \<or> (\<exists>y. x = Some y \<and> f y = None)"
  by (cases x) auto

text \<open>Running one partial step for each element of a list, left to right.\<close>

fun foreach :: "('a \<Rightarrow> 's \<Rightarrow> 's option) \<Rightarrow> 'a list \<Rightarrow> 's \<Rightarrow> 's option" where
  "foreach f [] s = Some s"
| "foreach f (x # xs) s = Option.bind (f x s) (foreach f xs)"

lemma foreach_append:
  "foreach f (xs @ ys) s = Option.bind (foreach f xs s) (foreach f ys)"
  by (induction xs arbitrary: s) (auto split: Option.bind_split)

lemma foreach_invariant:
  assumes "foreach f xs s = Some t" and "P s"
    and "\<And>x a b. x \<in> set xs \<Longrightarrow> P a \<Longrightarrow> f x a = Some b \<Longrightarrow> P b"
  shows "P t"
  using assms
proof (induction xs arbitrary: s)
  case Nil
  then show ?case by simp
next
  case (Cons x xs)
  from Cons.prems(1) obtain u where u: "f x s = Some u" "foreach f xs u = Some t"
    by (auto simp: bind_eq_Some_conv)
  have "P u" using Cons.prems(2,3) u(1) by auto
  with u(2) show ?case using Cons.IH Cons.prems(3) by auto
qed

lemma foreach_frame:
  assumes "foreach f xs s = Some t"
    and "\<And>x a b. f x a = Some b \<Longrightarrow> g b = g a"
  shows "g t = g s"
  by (rule foreach_invariant [OF assms(1), where P = "\<lambda>a. g a = g s"]) (auto simp: assms(2))

subsection \<open>Lists used as queues\<close>

lemma removeAll_notin [simp]: "x \<notin> set xs \<Longrightarrow> removeAll x xs = xs"
  by (induction xs) auto

lemma removeAll_hd_distinct [simp]: "distinct (x # xs) \<Longrightarrow> removeAll x (x # xs) = xs"
  by simp

lemma distinct_snoc [simp]: "distinct (xs @ [x]) \<longleftrightarrow> distinct xs \<and> x \<notin> set xs"
  by auto

lemma removeAll_snoc: "removeAll y (xs @ [x]) = removeAll y xs @ (if x = y then [] else [x])"
  by simp

text \<open>\<open>list_add_after (new, elt)\<close>: a new element behind an element of the list.\<close>

fun insert_after :: "'a \<Rightarrow> 'a \<Rightarrow> 'a list \<Rightarrow> 'a list" where
  "insert_after x y [] = []"
| "insert_after x y (z # zs) = (if z = y then z # x # zs else z # insert_after x y zs)"

lemma takeWhile_dropWhile_nth:
  "length (takeWhile P xs) < length xs \<Longrightarrow> \<not> P (xs ! length (takeWhile P xs))"
  by (rule nth_length_takeWhile)

subsection \<open>Byte memory\<close>

definition read_mem :: "memory \<Rightarrow> address \<Rightarrow> nat \<Rightarrow> bytes" where
  "read_mem m a n = map (\<lambda>i. m (a + i)) [0..<n]"

definition write_mem :: "address \<Rightarrow> bytes \<Rightarrow> memory \<Rightarrow> memory" where
  "write_mem a bs m = (\<lambda>i. if a \<le> i \<and> i < a + length bs then bs ! (i - a) else m i)"

lemma length_read_mem [simp]: "length (read_mem m a n) = n"
  by (simp add: read_mem_def)

lemma nth_read_mem [simp]: "i < n \<Longrightarrow> read_mem m a n ! i = m (a + i)"
  by (simp add: read_mem_def)

lemma read_mem_0 [simp]: "read_mem m a 0 = []"
  by (simp add: read_mem_def)

lemma read_mem_add: "read_mem m a (n + k) = read_mem m a n @ read_mem m (a + n) k"
  by (rule nth_equalityI) (auto simp: nth_append add.assoc)

lemma take_read_mem: "take k (read_mem m a n) = read_mem m a (min k n)"
  by (rule nth_equalityI) auto

lemma write_mem_Nil [simp]: "write_mem a [] m = m"
  by (rule ext) (auto simp: write_mem_def)

lemma read_write_same [simp]: "read_mem (write_mem a bs m) a (length bs) = bs"
  by (rule nth_equalityI) (auto simp: write_mem_def)

lemma read_write_disjoint:
  "a + length bs \<le> b \<or> b + n \<le> a \<Longrightarrow> read_mem (write_mem a bs m) b n = read_mem m b n"
  by (rule nth_equalityI) (auto simp: write_mem_def)

lemma write_mem_append:
  "write_mem a (xs @ ys) m = write_mem (a + length xs) ys (write_mem a xs m)"
  by (rule ext) (auto simp: write_mem_def nth_append)

lemma write_mem_outside: "i < a \<or> a + length bs \<le> i \<Longrightarrow> write_mem a bs m i = m i"
  by (auto simp: write_mem_def)

end
