(* ===== verification/Free_List.thy ===== *)
theory Free_List
  imports Prelude
begin

text \<open>
  Free lists threaded through an array: the library keeps its send-queue slots and its memory
  regions in arrays whose free entries are linked by index, ended by \<open>-1\<close>. This theory holds the
  list such an array represents, and the interface of a slot allocator, with what follows from the
  interface alone. The two allocators interpret it (theories \<open>Sendq_Map\<close> and \<open>Region_Map\<close>).
\<close>

text \<open>\<open>linked nx i xs\<close>: following the links \<open>nx\<close> from index \<open>i\<close> visits \<open>xs\<close> and ends at \<open>-1\<close>.\<close>

fun linked :: "(nat \<Rightarrow> int) \<Rightarrow> int \<Rightarrow> nat list \<Rightarrow> bool" where
  "linked nx i [] = (i = -1)"
| "linked nx i (x # xs) = (i = int x \<and> linked nx (nx x) xs)"

lemma linked_cong: "(\<And>x. x \<in> set xs \<Longrightarrow> nx x = ny x) \<Longrightarrow> linked nx i xs = linked ny i xs"
  by (induction xs arbitrary: i) auto

lemma linked_upd [simp]: "y \<notin> set xs \<Longrightarrow> linked (nx(y := v)) i xs = linked nx i xs"
  by (rule linked_cong) auto

lemma linked_unique: "linked nx i xs \<Longrightarrow> linked nx i ys \<Longrightarrow> xs = ys"
proof (induction xs arbitrary: i ys)
  case Nil
  then show ?case by (cases ys) auto
next
  case (Cons x xs)
  then show ?case by (cases ys) auto
qed

lemma linked_Nil_iff: "linked nx (-1) xs \<longleftrightarrow> xs = []"
  by (cases xs) auto

lemma linked_nonneg: "linked nx i xs \<Longrightarrow> i \<noteq> -1 \<Longrightarrow> \<exists>ys. xs = nat i # ys \<and> linked nx (nx (nat i)) ys"
  by (cases xs) auto

text \<open>
  A chain that never leaves a finite array and returns the length it should have is bounded by the
  array: \<open>distinct\<close> turns a list of indices into a number of slots.
\<close>

lemma distinct_bounded_length:
  assumes "distinct xs" and "\<forall>x \<in> set xs. x < n"
  shows "length xs \<le> n"
proof -
  have "card (set xs) \<le> card {..<n}"
    using assms(2) by (intro card_mono) auto
  then show ?thesis using distinct_card [OF assms(1)] by simp
qed

lemma linked_upt: "linked (\<lambda>x. if Suc x = n then -1 else int (Suc x)) (if i < n then int i else -1) [i..<n]"
  if "i \<le> n"
  using that
proof (induction "n - i" arbitrary: i)
  case 0
  then show ?case by simp
next
  case (Suc k)
  then have i: "i < n" and IH: "linked (\<lambda>x. if Suc x = n then -1 else int (Suc x))
      (if Suc i < n then int (Suc i) else -1) [Suc i..<n]"
    by auto
  have "(if Suc i < n then int (Suc i) else -1) = (if Suc i = n then -1 else int (Suc i))"
    using i by auto
  with IH show ?case
    by (simp only: upt_conv_Cons [OF i] linked.simps if_P [OF i] simp_thms)
qed

subsection \<open>The interface of a slot allocator\<close>

locale slot_pool =
  fixes valid :: "'s \<Rightarrow> bool"
    and free_set :: "'s \<Rightarrow> nat set"
    and slots :: "'s \<Rightarrow> nat set"
    and alloc :: "'s \<Rightarrow> (nat \<times> 's) option"
    and release :: "nat \<Rightarrow> 's \<Rightarrow> 's"
  assumes finite_slots: "valid s \<Longrightarrow> finite (slots s)"
    and free_slots: "valid s \<Longrightarrow> free_set s \<subseteq> slots s"
    and alloc_None: "valid s \<Longrightarrow> alloc s = None \<longleftrightarrow> free_set s = {}"
    and alloc_Some: "valid s \<Longrightarrow> alloc s = Some (x, t) \<Longrightarrow>
          valid t \<and> slots t = slots s \<and> x \<in> free_set s \<and> free_set t = free_set s - {x}"
    and release_ok: "valid s \<Longrightarrow> x \<in> slots s \<Longrightarrow> x \<notin> free_set s \<Longrightarrow>
          valid (release x s) \<and> slots (release x s) = slots s
          \<and> free_set (release x s) = insert x (free_set s)"
begin

text \<open>Taking slots one after another.\<close>

fun alloc_many :: "nat \<Rightarrow> 's \<Rightarrow> (nat list \<times> 's) option" where
  "alloc_many 0 s = Some ([], s)"
| "alloc_many (Suc n) s =
     (case alloc s of None \<Rightarrow> None
      | Some (x, t) \<Rightarrow> (case alloc_many n t of None \<Rightarrow> None | Some (xs, u) \<Rightarrow> Some (x # xs, u)))"

lemma alloc_many_props:
  assumes "valid s" and "alloc_many n s = Some (xs, t)"
  shows "valid t \<and> slots t = slots s \<and> length xs = n \<and> distinct xs \<and> set xs \<subseteq> free_set s
    \<and> free_set t = free_set s - set xs"
  using assms
proof (induction n arbitrary: s xs t)
  case 0
  then show ?case by simp
next
  case (Suc n)
  then obtain x u ys where a: "alloc s = Some (x, u)" and b: "alloc_many n u = Some (ys, t)"
    and xs: "xs = x # ys"
    by (auto split: option.splits prod.splits)
  have u: "valid u \<and> slots u = slots s \<and> x \<in> free_set s \<and> free_set u = free_set s - {x}"
    using alloc_Some [OF Suc.prems(1) a] .
  from Suc.IH [OF _ b] u xs show ?case by auto
qed

lemma alloc_many_enough:
  assumes "valid s" and "n \<le> card (free_set s)"
  shows "\<exists>xs t. alloc_many n s = Some (xs, t)"
  using assms
proof (induction n arbitrary: s)
  case 0
  then show ?case by simp
next
  case (Suc n)
  then have "free_set s \<noteq> {}" by auto
  then obtain x t where a: "alloc s = Some (x, t)"
    using alloc_None [OF Suc.prems(1)] by (cases "alloc s") auto
  have t: "valid t \<and> x \<in> free_set s \<and> free_set t = free_set s - {x}"
    using alloc_Some [OF Suc.prems(1) a] by auto
  have "finite (free_set s)"
    using finite_slots free_slots Suc.prems(1) finite_subset by blast
  then have "n \<le> card (free_set t)"
    using t Suc.prems(2) by simp
  with Suc.IH [of t] t a show ?case by fastforce
qed

text \<open>A slot that was taken and given back is free again, and nothing else changed.\<close>

lemma alloc_release_free:
  assumes "valid s" and "alloc s = Some (x, t)"
  shows "valid (release x t) \<and> free_set (release x t) = free_set s"
proof -
  have t: "valid t \<and> slots t = slots s \<and> x \<in> free_set s \<and> free_set t = free_set s - {x}"
    using alloc_Some [OF assms] .
  then have "x \<in> slots t" "x \<notin> free_set t"
    using free_slots [OF assms(1)] by auto
  then show ?thesis using release_ok [of t x] t by auto
qed

text \<open>Two slots held at the same time are different.\<close>

lemma alloc_twice_distinct:
  assumes "valid s" and "alloc s = Some (x, t)" and "alloc t = Some (y, u)"
  shows "x \<noteq> y"
  using alloc_Some [OF assms(1,2)] alloc_Some [of t y u] assms(3) by auto

end

end
