(* ===== verification/Sendq_Map.thy ===== *)
theory Sendq_Map
  imports Free_List
begin

text \<open>
  The allocator of send-queue slots (\<open>omx__endpoint_sendq_map_get\<close>, \<open>_put\<close>, \<open>_user\<close> of
  \<open>libxen2mx/omx_lib.h\<close>, \<open>omx__endpoint_sendq_map_init\<close> of \<open>libxen2mx/omx_endpoint.c\<close>). A medium
  message takes one slot per fragment and remembers in the slot the request that uses it. The
  map keeps its free entries in a list linked through \<open>next_free\<close>; \<^term>\<open>None\<close> is an access outside
  the arrays.
\<close>

record omx__sendq_entry =
  next_free :: int
  user :: "nat option"

record omx__sendq_map =
  first_free :: int
  nr_free :: int
  array :: "omx__sendq_entry list"

definition omx__endpoint_sendq_map_init :: "nat \<Rightarrow> omx__sendq_map" where
  "omx__endpoint_sendq_map_init nr =
     \<lparr>first_free = 0, nr_free = int nr,
      array = map (\<lambda>i. \<lparr>next_free = (if Suc i = nr then -1 else int (Suc i)), user = None\<rparr>) [0..<nr]\<rparr>"

text \<open>The loop of \<open>omx__endpoint_sendq_map_get\<close>: \<open>index\<close> walks the free list.\<close>

fun sendq_map_take ::
  "nat \<Rightarrow> nat \<Rightarrow> int \<Rightarrow> omx__sendq_entry list \<Rightarrow> (nat list \<times> int \<times> omx__sendq_entry list) option"
where
  "sendq_map_take 0 u index arr = Some ([], index, arr)"
| "sendq_map_take (Suc n) u index arr =
     (if 0 \<le> index \<and> nat index < length arr then
        let nf = next_free (arr ! nat index);
            arr' = arr[nat index := (arr ! nat index)\<lparr>user := Some u\<rparr>]
        in (case sendq_map_take n u nf arr' of None \<Rightarrow> None
            | Some (founds, index', arr'') \<Rightarrow> Some (nat index # founds, index', arr''))
      else None)"

text \<open>The outer option is the run, the inner one the \<open>-1\<close> (no slots) against \<open>0\<close> (slots found).\<close>

definition omx__endpoint_sendq_map_get ::
  "nat \<Rightarrow> nat \<Rightarrow> omx__sendq_map \<Rightarrow> (nat list option \<times> omx__sendq_map) option"
where
  "omx__endpoint_sendq_map_get nr u m =
     (if nr_free m < int nr then Some (None, m)
      else (case sendq_map_take nr u (first_free m) (array m) of None \<Rightarrow> None
            | Some (founds, index, arr) \<Rightarrow>
                Some (Some founds, m\<lparr>array := arr, first_free := index, nr_free := nr_free m - int nr\<rparr>)))"

text \<open>The loop of \<open>omx__endpoint_sendq_map_put\<close>: each slot is linked to the one before it.\<close>

fun sendq_map_give ::
  "int \<Rightarrow> nat list \<Rightarrow> omx__sendq_entry list \<Rightarrow> (int \<times> omx__sendq_entry list) option"
where
  "sendq_map_give prev [] arr = Some (prev, arr)"
| "sendq_map_give prev (x # xs) arr =
     (if x < length arr
      then sendq_map_give (int x) xs (arr[x := (arr ! x)\<lparr>user := None, next_free := prev\<rparr>])
      else None)"

text \<open>With no slot to give back, the code reads \<open>indexes[-1]\<close>, before the start of the array.\<close>

definition omx__endpoint_sendq_map_put :: "nat list \<Rightarrow> omx__sendq_map \<Rightarrow> omx__sendq_map option" where
  "omx__endpoint_sendq_map_put indexes m =
     (if indexes = [] then None
      else (case sendq_map_give (first_free m) indexes (array m) of None \<Rightarrow> None
            | Some (last_index, arr) \<Rightarrow>
                Some (m\<lparr>array := arr, first_free := last_index,
                        nr_free := nr_free m + int (length indexes)\<rparr>)))"

definition omx__endpoint_sendq_map_user :: "nat \<Rightarrow> omx__sendq_map \<Rightarrow> nat option" where
  "omx__endpoint_sendq_map_user index m = user (array m ! index)"

subsection \<open>Well-formed maps\<close>

definition sendq_free_list :: "nat list \<Rightarrow> omx__sendq_map \<Rightarrow> bool" where
  "sendq_free_list xs m \<longleftrightarrow>
     linked (\<lambda>x. next_free (array m ! x)) (first_free m) xs \<and> distinct xs
     \<and> set xs = {x. x < length (array m) \<and> user (array m ! x) = None}
     \<and> nr_free m = int (length xs)"

definition sendq_map_inv :: "omx__sendq_map \<Rightarrow> bool" where
  "sendq_map_inv m \<longleftrightarrow> (\<exists>xs. sendq_free_list xs m)"

definition sendq_free_set :: "omx__sendq_map \<Rightarrow> nat set" where
  "sendq_free_set m = {x. x < length (array m) \<and> user (array m ! x) = None}"

definition sendq_used_by :: "nat \<Rightarrow> omx__sendq_map \<Rightarrow> nat set" where
  "sendq_used_by u m = {x. x < length (array m) \<and> user (array m ! x) = Some u}"

lemma sendq_free_listD:
  assumes "sendq_free_list xs m"
  shows "set xs = sendq_free_set m" "distinct xs" "nr_free m = int (length xs)"
    "length xs = card (sendq_free_set m)"
proof -
  show a: "set xs = sendq_free_set m" "distinct xs" "nr_free m = int (length xs)"
    using assms by (auto simp: sendq_free_list_def sendq_free_set_def)
  show "length xs = card (sendq_free_set m)"
    using distinct_card [OF a(2)] a(1) by simp
qed

lemma nr_free_card: "sendq_map_inv m \<Longrightarrow> nr_free m = int (card (sendq_free_set m))"
  by (metis sendq_map_inv_def sendq_free_listD(3,4))

lemma sendq_map_init_free: "nr \<noteq> 0 \<Longrightarrow> sendq_free_list [0..<nr] (omx__endpoint_sendq_map_init nr)"
proof -
  assume nr: "nr \<noteq> 0"
  let ?m = "omx__endpoint_sendq_map_init nr"
  have "linked (\<lambda>x. next_free (array ?m ! x)) (first_free ?m) [0..<nr]
      = linked (\<lambda>x. if Suc x = nr then -1 else int (Suc x)) (first_free ?m) [0..<nr]"
    by (rule linked_cong) (auto simp: omx__endpoint_sendq_map_init_def)
  then show ?thesis
    using linked_upt [of 0 nr] nr
    by (auto simp: sendq_free_list_def omx__endpoint_sendq_map_init_def)
qed

subsection \<open>Getting slots\<close>

lemma sendq_map_take_spec:
  assumes "linked (\<lambda>x. next_free (arr ! x)) i xs" "distinct xs" "\<forall>x \<in> set xs. x < length arr"
    and "n \<le> length xs"
  shows "\<exists>i'. sendq_map_take n u i arr =
      Some (take n xs, i', map (\<lambda>x. if x \<in> set (take n xs) then (arr ! x)\<lparr>user := Some u\<rparr> else arr ! x)
                              [0..<length arr])
    \<and> linked (\<lambda>x. next_free (arr ! x)) i' (drop n xs)"
  using assms
proof (induction n arbitrary: i xs arr)
  case 0
  then show ?case by (simp add: map_nth)
next
  case (Suc n)
  then obtain x ys where xs: "xs = x # ys" by (cases xs) auto
  with Suc.prems have i: "i = int x" and x: "x < length arr" "x \<notin> set ys"
    and ys: "distinct ys" "linked (\<lambda>x. next_free (arr ! x)) (next_free (arr ! x)) ys"
    by auto
  let ?arr = "arr[x := (arr ! x)\<lparr>user := Some u\<rparr>]"
  have nf: "next_free (?arr ! y) = next_free (arr ! y)" for y
    using x by (cases "y = x") auto
  have "\<exists>i'. sendq_map_take n u (next_free (arr ! x)) ?arr =
      Some (take n ys, i', map (\<lambda>y. if y \<in> set (take n ys) then (?arr ! y)\<lparr>user := Some u\<rparr> else ?arr ! y)
                              [0..<length ?arr])
    \<and> linked (\<lambda>x. next_free (?arr ! x)) i' (drop n ys)"
    by (rule Suc.IH) (use Suc.prems ys x xs in \<open>auto simp: nf\<close>)
  moreover have "map (\<lambda>y. if y \<in> set (take n ys) then (?arr ! y)\<lparr>user := Some u\<rparr> else ?arr ! y) [0..<length ?arr]
      = map (\<lambda>y. if y \<in> set (take (Suc n) xs) then (arr ! y)\<lparr>user := Some u\<rparr> else arr ! y) [0..<length arr]"
    using x xs by (auto simp: nth_list_update dest: in_set_takeD)
  ultimately show ?case
    using x i xs by (auto simp: nf Let_def)
qed

lemma sendq_map_get_spec:
  assumes m: "sendq_free_list xs m" and n: "n \<le> length xs"
  obtains m' where "omx__endpoint_sendq_map_get n u m = Some (Some (take n xs), m')"
    and "sendq_free_list (drop n xs) m'" and "length (array m') = length (array m)"
    and "\<And>x. x < length (array m) \<Longrightarrow> user (array m' ! x) =
           (if x \<in> set (take n xs) then Some u else user (array m ! x))"
proof -
  let ?mark = "\<lambda>x. if x \<in> set (take n xs) then (array m ! x)\<lparr>user := Some u\<rparr> else array m ! x"
  from m have lk: "linked (\<lambda>x. next_free (array m ! x)) (first_free m) xs" and d: "distinct xs"
    and s: "set xs = {x. x < length (array m) \<and> user (array m ! x) = None}"
    and nr: "nr_free m = int (length xs)"
    by (auto simp: sendq_free_list_def)
  have "\<forall>x \<in> set xs. x < length (array m)" using s by auto
  from sendq_map_take_spec [OF lk d this n, of u] obtain i' where
    t: "sendq_map_take n u (first_free m) (array m) = Some (take n xs, i', map ?mark [0..<length (array m)])"
    and l: "linked (\<lambda>x. next_free (array m ! x)) i' (drop n xs)"
    by auto
  define arr' where "arr' = map ?mark [0..<length (array m)]"
  let ?m' = "m\<lparr>array := arr', first_free := i', nr_free := nr_free m - int n\<rparr>"
  have split: "set xs = set (take n xs) \<union> set (drop n xs)" "set (take n xs) \<inter> set (drop n xs) = {}"
    using d by (metis append_take_drop_id set_append, metis append_take_drop_id distinct_append)
  have len: "length arr' = length (array m)" by (simp add: arr'_def)
  have usr: "user (arr' ! x) = (if x \<in> set (take n xs) then Some u else user (array m ! x))"
    and nf: "next_free (arr' ! x) = next_free (array m ! x)" if "x < length (array m)" for x
    using that by (simp_all add: arr'_def)
  have bnd: "x < length (array m)" if "x \<in> set (drop n xs)" for x
    using that s split(1) by blast
  have "linked (\<lambda>x. next_free (arr' ! x)) i' (drop n xs)
      = linked (\<lambda>x. next_free (array m ! x)) i' (drop n xs)"
    by (rule linked_cong) (use bnd nf in simp)
  then have l': "linked (\<lambda>x. next_free (arr' ! x)) i' (drop n xs)"
    using l by simp
  have iff: "x \<in> set (drop n xs) \<longleftrightarrow> x < length arr' \<and> user (arr' ! x) = None" for x
  proof (cases "x < length (array m)")
    case True
    then have "x \<in> set xs \<longleftrightarrow> user (array m ! x) = None" using s by blast
    moreover have "x \<in> set (drop n xs) \<longleftrightarrow> x \<in> set xs \<and> x \<notin> set (take n xs)" using split by blast
    ultimately show ?thesis using True len usr [OF True] by simp
  next
    case False
    then show ?thesis using bnd len by auto
  qed
  then have "set (drop n xs) = {x. x < length (array ?m') \<and> user (array ?m' ! x) = None}"
    by (intro set_eqI) simp
  moreover have "nr_free ?m' = int (length (drop n xs))"
    using nr n by (simp add: of_nat_diff)
  ultimately have "sendq_free_list (drop n xs) ?m'"
    unfolding sendq_free_list_def using l' d by simp
  moreover have "omx__endpoint_sendq_map_get n u m = Some (Some (take n xs), ?m')"
    using t nr n by (simp add: omx__endpoint_sendq_map_get_def arr'_def)
  ultimately show ?thesis using that [of ?m'] len usr by simp
qed

lemma sendq_map_get_fail:
  "sendq_map_inv m \<Longrightarrow> card (sendq_free_set m) < n \<Longrightarrow>
     omx__endpoint_sendq_map_get n u m = Some (None, m)"
  by (simp add: omx__endpoint_sendq_map_get_def nr_free_card)

subsection \<open>Giving slots back\<close>

lemma sendq_map_give_spec:
  assumes "linked (\<lambda>x. next_free (arr ! x)) prev xs" "distinct (ys @ xs)"
    and "\<forall>y \<in> set ys. y < length arr" "\<forall>x \<in> set xs. x < length arr"
  shows "\<exists>i' arr'. sendq_map_give prev ys arr = Some (i', arr')
    \<and> linked (\<lambda>x. next_free (arr' ! x)) i' (rev ys @ xs) \<and> length arr' = length arr
    \<and> (\<forall>x < length arr. user (arr' ! x) = (if x \<in> set ys then None else user (arr ! x)))"
  using assms
proof (induction ys arbitrary: prev xs arr)
  case Nil
  then show ?case by simp
next
  case (Cons y ys)
  let ?arr = "arr[y := (arr ! y)\<lparr>user := None, next_free := prev\<rparr>]"
  have y: "y < length arr" "y \<notin> set xs" "y \<notin> set ys" using Cons.prems by auto
  have "linked (\<lambda>x. next_free (?arr ! x)) prev xs = linked (\<lambda>x. next_free (arr ! x)) prev xs"
    by (rule linked_cong) (use y in \<open>auto simp: nth_list_update\<close>)
  then have "linked (\<lambda>x. next_free (?arr ! x)) (int y) (y # xs)"
    using Cons.prems(1) y by simp
  then have "\<exists>i' arr'. sendq_map_give (int y) ys ?arr = Some (i', arr')
    \<and> linked (\<lambda>x. next_free (arr' ! x)) i' (rev ys @ (y # xs)) \<and> length arr' = length ?arr
    \<and> (\<forall>x < length ?arr. user (arr' ! x) = (if x \<in> set ys then None else user (?arr ! x)))"
    by (rule Cons.IH) (use Cons.prems y in auto)
  then show ?case using y by (auto simp: nth_list_update)
qed

lemma sendq_map_put_spec:
  assumes m: "sendq_free_list xs m" and ys: "ys \<noteq> []" "distinct ys"
    and held: "\<forall>y \<in> set ys. y < length (array m) \<and> user (array m ! y) \<noteq> None"
  obtains m' where "omx__endpoint_sendq_map_put ys m = Some m'"
    and "sendq_free_list (rev ys @ xs) m'" and "length (array m') = length (array m)"
    and "\<And>x. x < length (array m) \<Longrightarrow> user (array m' ! x) =
           (if x \<in> set ys then None else user (array m ! x))"
proof -
  from m have lk: "linked (\<lambda>x. next_free (array m ! x)) (first_free m) xs" and d: "distinct xs"
    and s: "set xs = {x. x < length (array m) \<and> user (array m ! x) = None}"
    and nr: "nr_free m = int (length xs)"
    by (auto simp: sendq_free_list_def)
  have "distinct (ys @ xs)" using d ys(2) s held by auto
  moreover have "\<forall>y \<in> set ys. y < length (array m)" "\<forall>x \<in> set xs. x < length (array m)"
    using held s by auto
  ultimately obtain i' arr' where
    g: "sendq_map_give (first_free m) ys (array m) = Some (i', arr')"
    and l: "linked (\<lambda>x. next_free (arr' ! x)) i' (rev ys @ xs)"
    and len: "length arr' = length (array m)"
    and usr: "\<forall>x < length (array m). user (arr' ! x) = (if x \<in> set ys then None else user (array m ! x))"
    using sendq_map_give_spec [OF lk] by blast
  let ?m' = "m\<lparr>array := arr', first_free := i', nr_free := nr_free m + int (length ys)\<rparr>"
  have "set (rev ys @ xs) = {x. x < length arr' \<and> user (arr' ! x) = None}"
    using s usr len held by auto
  then have "sendq_free_list (rev ys @ xs) ?m'"
    unfolding sendq_free_list_def using l \<open>distinct (ys @ xs)\<close> nr by auto
  moreover have "omx__endpoint_sendq_map_put ys m = Some ?m'"
    using g ys(1) by (simp add: omx__endpoint_sendq_map_put_def)
  ultimately show ?thesis using that [of ?m'] len usr by simp
qed

subsection \<open>The map as a slot allocator\<close>

text \<open>One slot for a request; the request is a placeholder of the interface.\<close>

definition sendq_alloc1 :: "nat \<Rightarrow> omx__sendq_map \<Rightarrow> (nat \<times> omx__sendq_map) option" where
  "sendq_alloc1 u m = (case omx__endpoint_sendq_map_get 1 u m of
     Some (Some [x], m') \<Rightarrow> Some (x, m') | _ \<Rightarrow> None)"

definition sendq_release1 :: "nat \<Rightarrow> omx__sendq_map \<Rightarrow> omx__sendq_map" where
  "sendq_release1 x m = (case omx__endpoint_sendq_map_put [x] m of Some m' \<Rightarrow> m' | None \<Rightarrow> m)"

lemma sendq_free_set_get:
  assumes "sendq_map_inv m" and "omx__endpoint_sendq_map_get n u m = Some (Some ys, m')"
  shows "sendq_map_inv m' \<and> length (array m') = length (array m) \<and> length ys = n \<and> distinct ys
    \<and> set ys \<subseteq> sendq_free_set m \<and> sendq_free_set m' = sendq_free_set m - set ys
    \<and> (\<forall>x < length (array m). user (array m' ! x) =
          (if x \<in> set ys then Some u else user (array m ! x)))"
proof -
  from assms(1) obtain xs where xs: "sendq_free_list xs m" by (auto simp: sendq_map_inv_def)
  have "n \<le> length xs"
    using assms(2) sendq_free_listD(3) [OF xs]
    by (auto simp: omx__endpoint_sendq_map_get_def split: if_splits)
  from sendq_map_get_spec [OF xs this, of u] obtain m'' where
    g: "omx__endpoint_sendq_map_get n u m = Some (Some (take n xs), m'')"
    and f: "sendq_free_list (drop n xs) m''" "length (array m'') = length (array m)"
    and usr: "\<And>x. x < length (array m) \<Longrightarrow> user (array m'' ! x) =
           (if x \<in> set (take n xs) then Some u else user (array m ! x))"
    by blast
  have e: "ys = take n xs" "m' = m''" using g assms(2) by auto
  have "set (drop n xs) = set xs - set (take n xs)"
    using sendq_free_listD(2) [OF xs] set_append [of "take n xs" "drop n xs"]
      distinct_append [of "take n xs" "drop n xs"] by auto
  moreover have "set (take n xs) \<subseteq> set xs" by (rule set_take_subset)
  ultimately show ?thesis
    using e f usr \<open>n \<le> length xs\<close> sendq_free_listD(1,2) [OF xs] sendq_free_listD(1) [OF f(1)]
    by (auto simp: sendq_map_inv_def distinct_take)
qed

lemma sendq_free_set_put:
  assumes "sendq_map_inv m" and "ys \<noteq> []" and "distinct ys"
    and "\<forall>y \<in> set ys. y < length (array m) \<and> user (array m ! y) \<noteq> None"
  shows "\<exists>m'. omx__endpoint_sendq_map_put ys m = Some m' \<and> sendq_map_inv m'
    \<and> length (array m') = length (array m) \<and> sendq_free_set m' = sendq_free_set m \<union> set ys
    \<and> (\<forall>x < length (array m). user (array m' ! x) =
          (if x \<in> set ys then None else user (array m ! x)))"
proof -
  from assms(1) obtain xs where xs: "sendq_free_list xs m" by (auto simp: sendq_map_inv_def)
  from sendq_map_put_spec [OF xs assms(2-4)] obtain m' where
    g: "omx__endpoint_sendq_map_put ys m = Some m'"
    and f: "sendq_free_list (rev ys @ xs) m'" "length (array m') = length (array m)"
    and usr: "\<And>x. x < length (array m) \<Longrightarrow> user (array m' ! x) =
           (if x \<in> set ys then None else user (array m ! x))"
    by blast
  have "sendq_free_set m' = sendq_free_set m \<union> set ys"
    using sendq_free_listD(1) [OF f(1)] sendq_free_listD(1) [OF xs] by auto
  then show ?thesis using g f usr by (auto simp: sendq_map_inv_def)
qed

lemma sendq_alloc1_None: "sendq_map_inv m \<Longrightarrow> sendq_alloc1 u m = None \<longleftrightarrow> sendq_free_set m = {}"
proof -
  assume m: "sendq_map_inv m"
  then obtain xs where xs: "sendq_free_list xs m" by (auto simp: sendq_map_inv_def)
  show ?thesis
  proof (cases xs)
    case Nil
    then have "sendq_free_set m = {}" using sendq_free_listD(1) [OF xs] by simp
    moreover have "omx__endpoint_sendq_map_get 1 u m = Some (None, m)"
      using sendq_free_listD(3) [OF xs] Nil by (simp add: omx__endpoint_sendq_map_get_def)
    ultimately show ?thesis by (simp add: sendq_alloc1_def)
  next
    case (Cons y ys)
    then have "sendq_free_set m \<noteq> {}" using sendq_free_listD(1) [OF xs] by auto
    moreover obtain m' where "omx__endpoint_sendq_map_get 1 u m = Some (Some [y], m')"
      using sendq_map_get_spec [OF xs, of 1 u] Cons by auto
    ultimately show ?thesis by (simp add: sendq_alloc1_def)
  qed
qed

interpretation sendq: slot_pool sendq_map_inv sendq_free_set "\<lambda>m. {..<length (array m)}"
  "sendq_alloc1 u" sendq_release1 for u
proof (unfold_locales, goal_cases)
  case (1 s)
  then show ?case by simp
next
  case (2 s)
  then show ?case by (auto simp: sendq_free_set_def)
next
  case (3 s)
  then show ?case by (rule sendq_alloc1_None)
next
  case (4 s x t)
  then have "omx__endpoint_sendq_map_get 1 u s = Some (Some [x], t)"
    by (auto simp: sendq_alloc1_def split: option.splits prod.splits list.splits)
  from sendq_free_set_get [OF 4(1) this] show ?case by auto
next
  case (5 s x)
  then have "\<forall>y \<in> set [x]. y < length (array s) \<and> user (array s ! y) \<noteq> None"
    by (auto simp: sendq_free_set_def)
  from sendq_free_set_put [OF 5(1) _ _ this] show ?case
    by (auto simp: sendq_release1_def)
qed

subsection \<open>Properties\<close>

text \<open>
  C21: taking slots for a fragmented message is all or nothing. With enough free slots the call
  returns the number asked for, all different and all free before, marks exactly these with the
  request and leaves a well-formed map; with too few it reports failure and changes nothing.
\<close>

theorem sendq_map_get_correct:
  assumes "sendq_map_inv m"
  shows "(card (sendq_free_set m) < n \<longrightarrow> omx__endpoint_sendq_map_get n u m = Some (None, m))
    \<and> (n \<le> card (sendq_free_set m) \<longrightarrow>
        (\<exists>founds m'. omx__endpoint_sendq_map_get n u m = Some (Some founds, m') \<and> sendq_map_inv m'
          \<and> length founds = n \<and> distinct founds \<and> set founds \<subseteq> sendq_free_set m
          \<and> sendq_free_set m' = sendq_free_set m - set founds
          \<and> (\<forall>x < length (array m). omx__endpoint_sendq_map_user x m'
                = (if x \<in> set founds then Some u else omx__endpoint_sendq_map_user x m))))"
proof (intro conjI impI)
  assume "card (sendq_free_set m) < n"
  with assms show "omx__endpoint_sendq_map_get n u m = Some (None, m)"
    by (rule sendq_map_get_fail)
next
  assume n: "n \<le> card (sendq_free_set m)"
  obtain xs where xs: "sendq_free_list xs m" using assms by (auto simp: sendq_map_inv_def)
  with n have "n \<le> length xs" by (simp add: sendq_free_listD(4))
  from sendq_map_get_spec [OF xs this, of u] obtain m' where
    "omx__endpoint_sendq_map_get n u m = Some (Some (take n xs), m')" by blast
  with sendq_free_set_get [OF assms this]
  show "\<exists>founds m'. omx__endpoint_sendq_map_get n u m = Some (Some founds, m') \<and> sendq_map_inv m'
          \<and> length founds = n \<and> distinct founds \<and> set founds \<subseteq> sendq_free_set m
          \<and> sendq_free_set m' = sendq_free_set m - set founds
          \<and> (\<forall>x < length (array m). omx__endpoint_sendq_map_user x m'
                = (if x \<in> set founds then Some u else omx__endpoint_sendq_map_user x m))"
    by (auto simp: omx__endpoint_sendq_map_user_def)
qed

lemma sendq_map_init_inv: "0 < nr \<Longrightarrow> sendq_map_inv (omx__endpoint_sendq_map_init nr)"
  using sendq_map_init_free [of nr] by (auto simp: sendq_map_inv_def)

lemma sendq_map_init_free_set: "sendq_free_set (omx__endpoint_sendq_map_init nr) = {..<nr}"
  by (auto simp: sendq_free_set_def omx__endpoint_sendq_map_init_def)

theorem sendq_map_get_correct_witness:
  "omx__endpoint_sendq_map_get 5 7 (omx__endpoint_sendq_map_init 4)
     = Some (None, omx__endpoint_sendq_map_init 4)
   \<and> (\<exists>founds m'. omx__endpoint_sendq_map_get 3 7 (omx__endpoint_sendq_map_init 4) = Some (Some founds, m')
        \<and> length founds = 3 \<and> distinct founds \<and> sendq_map_inv m')"
  using sendq_map_get_correct [OF sendq_map_init_inv, of 4 5 7]
    sendq_map_get_correct [OF sendq_map_init_inv, of 4 3 7]
  by (auto simp: sendq_map_init_free_set)

text \<open>
  C22: giving back the slots of a message right after taking them restores the map: the same slots
  are free and every slot has the user it had. The order of the free list may differ.
\<close>

theorem sendq_map_get_put:
  assumes "sendq_map_inv m" and "0 < n" and "omx__endpoint_sendq_map_get n u m = Some (Some founds, m')"
  shows "\<exists>m''. omx__endpoint_sendq_map_put founds m' = Some m'' \<and> sendq_map_inv m''
    \<and> sendq_free_set m'' = sendq_free_set m \<and> length (array m'') = length (array m)
    \<and> (\<forall>x < length (array m). omx__endpoint_sendq_map_user x m'' = omx__endpoint_sendq_map_user x m)"
proof -
  note g = sendq_free_set_get [OF assms(1,3)]
  have ne: "founds \<noteq> []" using g assms(2) by auto
  have "\<forall>y \<in> set founds. y < length (array m') \<and> user (array m' ! y) \<noteq> None"
    using g by (auto simp: sendq_free_set_def)
  from sendq_free_set_put [OF _ ne _ this] g obtain m'' where
    p: "omx__endpoint_sendq_map_put founds m' = Some m''" "sendq_map_inv m''"
      "length (array m'') = length (array m')" "sendq_free_set m'' = sendq_free_set m' \<union> set founds"
      "\<forall>x < length (array m'). user (array m'' ! x) = (if x \<in> set founds then None else user (array m' ! x))"
    by blast
  have "user (array m'' ! x) = user (array m ! x)" if "x < length (array m)" for x
    using p(5) g that by (auto simp: sendq_free_set_def)
  with p g show ?thesis by (auto simp: omx__endpoint_sendq_map_user_def)
qed

theorem sendq_map_get_put_witness:
  "\<exists>founds m' m''. omx__endpoint_sendq_map_get 2 7 (omx__endpoint_sendq_map_init 4) = Some (Some founds, m')
     \<and> omx__endpoint_sendq_map_put founds m' = Some m'' \<and> sendq_free_set m'' = {..<4}"
proof -
  have "\<exists>m'. omx__endpoint_sendq_map_get 2 7 (omx__endpoint_sendq_map_init 4) = Some (Some [0, 1], m')"
    by (simp add: omx__endpoint_sendq_map_get_def omx__endpoint_sendq_map_init_def numeral_2_eq_2)
  then obtain m' where m': "omx__endpoint_sendq_map_get 2 7 (omx__endpoint_sendq_map_init 4) = Some (Some [0, 1], m')"
    by blast
  from sendq_map_get_put [OF sendq_map_init_inv _ m'] m' show ?thesis
    by (auto simp: sendq_map_init_free_set)
qed

text \<open>
  C23: a fresh map has all slots free, and as long as slots are taken one at a time none is handed
  out twice: any number up to the size of the map can be taken and they are all different.
\<close>

theorem sendq_map_init_serves_all:
  assumes "0 < nr" and "n \<le> nr"
  shows "\<exists>xs m'. sendq.alloc_many u n (omx__endpoint_sendq_map_init nr) = Some (xs, m')
    \<and> length xs = n \<and> distinct xs \<and> set xs \<subseteq> {..<nr} \<and> sendq_map_inv m'"
proof -
  let ?m = "omx__endpoint_sendq_map_init nr"
  have inv: "sendq_map_inv ?m" using assms(1) by (rule sendq_map_init_inv)
  obtain xs m' where *: "sendq.alloc_many u n ?m = Some (xs, m')"
    using sendq.alloc_many_enough [OF inv, of n u] assms(2) by (auto simp: sendq_map_init_free_set)
  from sendq.alloc_many_props [OF inv this] * show ?thesis
    by (auto simp: sendq_map_init_free_set)
qed

theorem sendq_map_init_serves_all_witness:
  "\<exists>xs m'. sendq.alloc_many 9 3 (omx__endpoint_sendq_map_init 3) = Some (xs, m') \<and> distinct xs"
  using sendq_map_init_serves_all [of 3 3 9] by auto

text \<open>
  Giving back an empty list of slots reads the index before the start of the array; the caller
  must not do it.
\<close>

theorem sendq_map_put_none: "omx__endpoint_sendq_map_put [] m = None"
  by (simp add: omx__endpoint_sendq_map_put_def)

end
