(* ===== verification/Segments.thy ===== *)
theory Segments
  imports Prelude
begin

text \<open>
  Vectorial buffers (\<open>libxen2mx/omx_segments.h\<close>): a request describes the user's memory as an
  array of segments. The operations build such an array from the user's arguments, copy between
  segments and contiguous buffers, copy fragment by fragment with a saved position, and compute a
  checksum. Memory is a function from addresses to bytes and a loop that walks off the segment
  array is \<^term>\<open>None\<close>.

  The lemmas describe every copy by the flat list of addresses the segments denote
  (\<open>seg_addrs\<close>).
\<close>

record omx_cmd_user_segment =
  vaddr :: address
  seg_len :: nat

record omx_seg_t =
  seg_ptr :: address
  seg_length :: nat

record omx__req_segs =
  single :: omx_cmd_user_segment
  nseg :: nat
  segs :: "omx_cmd_user_segment list"
  total_length :: nat

record omx_segscan_state =
  scan_seg :: nat
  scan_off :: nat

datatype cache_result = CACHE_SUCCESS omx__req_segs | CACHE_BAD_COUNT | CACHE_NO_RESOURCES

definition OMX_MAX_SEGMENTS :: nat where
  "OMX_MAX_SEGMENTS = 256"

definition omx_cache_single_segment :: "address \<Rightarrow> nat \<Rightarrow> omx__req_segs" where
  "omx_cache_single_segment buffer len =
     (let s = \<lparr>vaddr = buffer, seg_len = len\<rparr>
      in \<lparr>single = s, nseg = 1, segs = [s], total_length = len mod 2 ^ 32\<rparr>)"

text \<open>
  The user's array is copied, so that the request owns its segments; \<open>alloc\<close> tells whether
  \<open>malloc\<close> succeeds. The length of the whole is kept in 32 bits.
\<close>

definition omx_cache_segments :: "bool \<Rightarrow> omx_seg_t list \<Rightarrow> cache_result" where
  "omx_cache_segments alloc usegs =
     (if length usegs = 0 then CACHE_SUCCESS (omx_cache_single_segment 0 0)
      else if length usegs = 1
        then CACHE_SUCCESS (omx_cache_single_segment (seg_ptr (usegs ! 0)) (seg_length (usegs ! 0)))
      else if length usegs > OMX_MAX_SEGMENTS then CACHE_BAD_COUNT
      else if \<not> alloc then CACHE_NO_RESOURCES
      else CACHE_SUCCESS
        \<lparr>single = \<lparr>vaddr = 0, seg_len = 0\<rparr>, nseg = length usegs,
         segs = map (\<lambda>s. \<lparr>vaddr = seg_ptr s, seg_len = seg_length s\<rparr>) usegs,
         total_length = foldl (\<lambda>t s. (t + seg_length s) mod 2 ^ 32) 0 usegs\<rparr>)"

text \<open>Releasing the array: whether \<open>omx_free_segments\<close> has something to free.\<close>

definition omx_free_segments_frees :: "omx__req_segs \<Rightarrow> bool" where
  "omx_free_segments_frees reqsegs \<longleftrightarrow> nseg reqsegs > 1"

definition omx_clone_segments :: "omx__req_segs \<Rightarrow> omx__req_segs" where
  "omx_clone_segments src = (if nseg src = 1 then src\<lparr>segs := [single src]\<rparr> else src)"

subsection \<open>Copying from and to contiguous memory\<close>

fun copy_from_loop :: "omx_cmd_user_segment list \<Rightarrow> address \<Rightarrow> nat \<Rightarrow> memory \<Rightarrow> memory option" where
  "copy_from_loop cs dst 0 m = Some m"
| "copy_from_loop [] dst (Suc n) m = None"
| "copy_from_loop (c # cs) dst (Suc n) m =
     (let chunk = min (seg_len c) (Suc n)
      in copy_from_loop cs (dst + chunk) (Suc n - chunk) (write_mem dst (read_mem m (vaddr c) chunk) m))"

definition omx_copy_from_segments :: "address \<Rightarrow> omx__req_segs \<Rightarrow> nat \<Rightarrow> memory \<Rightarrow> memory option" where
  "omx_copy_from_segments dst srcsegs len m =
     (if nseg srcsegs = 1
      then Some (write_mem dst (read_mem m (vaddr (single srcsegs)) len) m)
      else copy_from_loop (segs srcsegs) dst len m)"

text \<open>The same loop with a destination that is a buffer of the library, outside the user's memory.\<close>

fun gather_loop :: "omx_cmd_user_segment list \<Rightarrow> nat \<Rightarrow> memory \<Rightarrow> bytes option" where
  "gather_loop cs 0 m = Some []"
| "gather_loop [] (Suc n) m = None"
| "gather_loop (c # cs) (Suc n) m =
     (let chunk = min (seg_len c) (Suc n)
      in map_option ((@) (read_mem m (vaddr c) chunk)) (gather_loop cs (Suc n - chunk) m))"

definition gather_segments :: "omx__req_segs \<Rightarrow> nat \<Rightarrow> memory \<Rightarrow> bytes option" where
  "gather_segments srcsegs len m =
     (if nseg srcsegs = 1 then Some (read_mem m (vaddr (single srcsegs)) len)
      else gather_loop (segs srcsegs) len m)"

fun copy_to_loop :: "omx_cmd_user_segment list \<Rightarrow> bytes \<Rightarrow> memory \<Rightarrow> memory option" where
  "copy_to_loop cs [] m = Some m"
| "copy_to_loop [] (b # src) m = None"
| "copy_to_loop (c # cs) (b # src) m =
     copy_to_loop cs (drop (seg_len c) (b # src)) (write_mem (vaddr c) (take (seg_len c) (b # src)) m)"

definition omx_copy_to_segments :: "omx__req_segs \<Rightarrow> bytes \<Rightarrow> nat \<Rightarrow> memory \<Rightarrow> memory option" where
  "omx_copy_to_segments dstsegs src len m =
     (if length src < len then None
      else if nseg dstsegs = 1 then Some (write_mem (vaddr (single dstsegs)) (take len src) m)
      else copy_to_loop (segs dstsegs) (take len src) m)"

text \<open>
  Both sides vectorial: the chunk is what remains of both current segments. A step may consume
  nothing (an empty segment), but then it leaves that segment.
\<close>

function copy_from_to_loop ::
  "omx_cmd_user_segment list \<Rightarrow> nat \<Rightarrow> omx_cmd_user_segment list \<Rightarrow> nat \<Rightarrow> nat \<Rightarrow> memory \<Rightarrow> memory option"
where
  "copy_from_to_loop ss soff ds doff n m =
     (if n = 0 then Some m
      else case (ss, ds) of
        (s # ss', d # ds') \<Rightarrow>
          (let chunk = min (min n (seg_len s)) (seg_len d);
               m' = write_mem (vaddr d + doff) (read_mem m (vaddr s + soff) chunk) m;
               sdone = (soff + chunk \<ge> seg_len s);
               ddone = (doff + chunk \<ge> seg_len d)
           in copy_from_to_loop (if sdone then ss' else ss) (if sdone then 0 else soff + chunk)
                (if ddone then ds' else ds) (if ddone then 0 else doff + chunk) (n - chunk) m')
      | _ \<Rightarrow> None)"
  by pat_completeness auto
termination
  by (relation "measure (\<lambda>(ss, soff, ds, doff, n, m). n + length ss + length ds)")
    (auto simp: Let_def)

definition omx_copy_from_to_segments ::
  "omx__req_segs \<Rightarrow> omx__req_segs \<Rightarrow> nat \<Rightarrow> memory \<Rightarrow> memory option"
where
  "omx_copy_from_to_segments dstsegs srcsegs len m =
     (if nseg srcsegs = 1
        then omx_copy_to_segments dstsegs (read_mem m (vaddr (single srcsegs)) len) len m
      else if nseg dstsegs = 1
        then omx_copy_from_segments (vaddr (single dstsegs)) srcsegs len m
      else copy_from_to_loop (segs srcsegs) 0 (segs dstsegs) 0 len m)"

subsection \<open>Copying fragment by fragment\<close>

text \<open>
  The state is the current segment and the offset in it. What remains of the current segment is
  computed in 32 bits. A copy always looks at the current segment, even when it has nothing to copy.
\<close>

definition curchunk :: "omx_cmd_user_segment \<Rightarrow> nat \<Rightarrow> nat" where
  "curchunk c off = nat ((int (seg_len c) - int off) mod 2 ^ 32)"

fun continue_from_loop ::
  "omx_cmd_user_segment list \<Rightarrow> nat \<Rightarrow> nat \<Rightarrow> nat \<Rightarrow> memory \<Rightarrow> (bytes \<times> omx_segscan_state) option"
where
  "continue_from_loop [] idx off n m = None"
| "continue_from_loop (c # cs) idx off n m =
     (let cur = curchunk c off;
          chunk = min cur n;
          got = read_mem m (vaddr c + off) chunk
      in if cur \<noteq> chunk then Some (got, \<lparr>scan_seg = idx, scan_off = off + chunk\<rparr>)
         else if n - chunk = 0 then Some (got, \<lparr>scan_seg = Suc idx, scan_off = 0\<rparr>)
         else map_option (apfst ((@) got)) (continue_from_loop cs (Suc idx) 0 (n - chunk) m))"

definition omx_continue_partial_copy_from_segments ::
  "omx__req_segs \<Rightarrow> nat \<Rightarrow> omx_segscan_state \<Rightarrow> memory \<Rightarrow> (bytes \<times> omx_segscan_state) option"
where
  "omx_continue_partial_copy_from_segments srcsegs len state m =
     continue_from_loop (drop (scan_seg state) (segs srcsegs)) (scan_seg state) (scan_off state) len m"

fun continue_to_loop ::
  "omx_cmd_user_segment list \<Rightarrow> nat \<Rightarrow> nat \<Rightarrow> bytes \<Rightarrow> memory \<Rightarrow> (memory \<times> omx_segscan_state) option"
where
  "continue_to_loop [] idx off src m = None"
| "continue_to_loop (c # cs) idx off src m =
     (let cur = curchunk c off;
          chunk = min cur (length src);
          m' = write_mem (vaddr c + off) (take chunk src) m
      in if cur \<noteq> chunk then Some (m', \<lparr>scan_seg = idx, scan_off = off + chunk\<rparr>)
         else if drop chunk src = [] then Some (m', \<lparr>scan_seg = Suc idx, scan_off = 0\<rparr>)
         else continue_to_loop cs (Suc idx) 0 (drop chunk src) m')"

definition omx_continue_partial_copy_to_segments ::
  "omx__req_segs \<Rightarrow> bytes \<Rightarrow> omx_segscan_state \<Rightarrow> memory \<Rightarrow> (memory \<times> omx_segscan_state) option"
where
  "omx_continue_partial_copy_to_segments dstsegs src state m =
     continue_to_loop (drop (scan_seg state) (segs dstsegs)) (scan_seg state) (scan_off state) src m"

text \<open>Looking for an offset: a position at the end of a segment stays in that segment.\<close>

fun scan_seek :: "omx_cmd_user_segment list \<Rightarrow> nat \<Rightarrow> nat \<Rightarrow> nat \<Rightarrow> omx_segscan_state option" where
  "scan_seek [] idx curoffset offset = None"
| "scan_seek (c # cs) idx curoffset offset =
     (if offset > curoffset + seg_len c
      then scan_seek cs (Suc idx) ((curoffset + seg_len c) mod 2 ^ 32) offset
      else Some \<lparr>scan_seg = idx, scan_off = offset - curoffset\<rparr>)"

text \<open>Returns the memory, the state and the offset the state stands for.\<close>

definition omx_partial_copy_to_segments ::
  "omx__req_segs \<Rightarrow> bytes \<Rightarrow> nat \<Rightarrow> omx_segscan_state \<Rightarrow> nat \<Rightarrow> memory
    \<Rightarrow> (memory \<times> omx_segscan_state \<times> nat) option"
where
  "omx_partial_copy_to_segments dstsegs src offset scan_state scan_offset m = do {
     st \<leftarrow> (if offset \<noteq> scan_offset then scan_seek (segs dstsegs) 0 0 offset else Some scan_state);
     (m', st') \<leftarrow> omx_continue_partial_copy_to_segments dstsegs src st m;
     Some (m', st', (offset + length src) mod 2 ^ 32)
   }"

subsection \<open>Checksum\<close>

definition crc_bit :: "u16 \<Rightarrow> u16" where
  "crc_bit crc = (if crc AND 0x8000 \<noteq> 0 then push_bit 1 crc XOR 0x1021 else push_bit 1 crc)"

definition crc_byte :: "u8 \<Rightarrow> u16 \<Rightarrow> u16" where
  "crc_byte b crc = (crc_bit ^^ 8) (crc XOR push_bit 8 (ucast b))"

fun checksum_loop :: "omx_cmd_user_segment list \<Rightarrow> nat \<Rightarrow> u16 \<Rightarrow> memory \<Rightarrow> u16" where
  "checksum_loop [] n crc m = crc"
| "checksum_loop (c # cs) n crc m =
     (if n = 0 then crc
      else let chunk = min (seg_len c) n
           in checksum_loop cs (n - chunk) (fold crc_byte (read_mem m (vaddr c) chunk) crc) m)"

definition omx_checksum_segments :: "omx__req_segs \<Rightarrow> nat \<Rightarrow> memory \<Rightarrow> u16" where
  "omx_checksum_segments reqsegs len m =
     checksum_loop (if nseg reqsegs = 1 then [single reqsegs] else segs reqsegs) len 0 m"

subsection \<open>The flat view\<close>

definition seg_addrs :: "omx_cmd_user_segment list \<Rightarrow> address list" where
  "seg_addrs cs = concat (map (\<lambda>c. [vaddr c..<vaddr c + seg_len c]) cs)"

definition segs_wf :: "omx__req_segs \<Rightarrow> bool" where
  "segs_wf r \<longleftrightarrow> nseg r = length (segs r) \<and> 0 < nseg r \<and> (nseg r = 1 \<longrightarrow> segs r = [single r])
     \<and> (\<forall>c \<in> set (segs r). seg_len c < 2 ^ 32)
     \<and> total_length r = sum_list (map seg_len (segs r)) mod 2 ^ 32"

lemma segs_wf_single: "segs_wf r \<Longrightarrow> nseg r = 1 \<Longrightarrow> segs r = [single r]"
  unfolding segs_wf_def by blast

definition flat :: "omx__req_segs \<Rightarrow> address list" where
  "flat r = seg_addrs (segs r)"

fun put_bytes :: "'a list \<Rightarrow> 'b list \<Rightarrow> ('a \<Rightarrow> 'b) \<Rightarrow> 'a \<Rightarrow> 'b" where
  "put_bytes (a # as) (b # bs) m = put_bytes as bs (m(a := b))"
| "put_bytes _ _ m = m"

lemma seg_addrs_simps [simp]:
  "seg_addrs [] = []"
  "seg_addrs (c # cs) = [vaddr c..<vaddr c + seg_len c] @ seg_addrs cs"
  by (simp_all add: seg_addrs_def)

lemma length_seg_addrs: "length (seg_addrs cs) = sum_list (map seg_len cs)"
  by (induction cs) auto

lemma put_bytes_Nil [simp]: "put_bytes as [] m = m" "put_bytes [] bs m = m"
  by (cases as; simp)+

lemma put_bytes_append:
  "length as = length bs \<Longrightarrow> put_bytes (as @ as') (bs @ bs') m = put_bytes as' bs' (put_bytes as bs m)"
  by (induction as bs arbitrary: m rule: list_induct2) auto

lemma write_mem_Cons: "write_mem a (b # bs) m = write_mem (Suc a) bs (m(a := b))"
  by (rule ext) (auto simp: write_mem_def nth_Cons')

lemma write_mem_put_bytes: "write_mem a bs m = put_bytes [a..<a + length bs] bs m"
proof (induction bs arbitrary: a m)
  case Nil
  then show ?case by simp
next
  case (Cons b bs)
  have "[a..<a + length (b # bs)] = a # [Suc a..<Suc a + length bs]"
    using upt_conv_Cons [of a "a + length (b # bs)"] by simp
  then show ?case
    by (simp only: write_mem_Cons Cons.IH put_bytes.simps)
qed

lemma put_bytes_notin: "a \<notin> set as \<Longrightarrow> put_bytes as bs m a = m a"
  by (induction as bs m rule: put_bytes.induct) auto

lemma put_bytes_nth:
  "distinct as \<Longrightarrow> i < length as \<Longrightarrow> i < length bs \<Longrightarrow> put_bytes as bs m (as ! i) = bs ! i"
proof (induction as bs m arbitrary: i rule: put_bytes.induct)
  case (1 a as b bs m)
  show ?case
  proof (cases i)
    case 0
    with 1 show ?thesis by (simp add: put_bytes_notin)
  next
    case (Suc k)
    have "distinct as" "k < length as" "k < length bs" using 1(2-4) Suc by auto
    from "1.IH" [OF this] show ?thesis by (simp only: Suc put_bytes.simps nth_Cons_Suc)
  qed
qed auto

lemma read_mem_map: "read_mem m a n = map m [a..<a + n]"
  by (rule nth_equalityI) auto

text \<open>What a loop takes when it takes the rest of a segment or the rest of the copy, whichever is less.\<close>

lemma take_chunk_append:
  "take n ([v..<v + l] @ ys) = [v..<v + min l n] @ take (n - min l n) ys"
  by (cases "n \<le> l") (auto simp: take_upt min_def)

subsection \<open>What the copies do\<close>

lemma gather_loop_flat:
  "n \<le> sum_list (map seg_len cs) \<Longrightarrow> gather_loop cs n m = Some (map m (take n (seg_addrs cs)))"
proof (induction cs n m rule: gather_loop.induct)
  case (3 c cs n m)
  have "Suc n - min (seg_len c) (Suc n) \<le> sum_list (map seg_len cs)"
    using "3.prems" by auto
  from "3.IH" [OF refl this] show ?case
    by (simp add: take_chunk_append read_mem_map Let_def del: take_Suc take_append)
qed auto

lemma gather_loop_overrun:
  "sum_list (map seg_len cs) < n \<Longrightarrow> gather_loop cs n m = None"
  by (induction cs n m rule: gather_loop.induct) (auto simp: Let_def)

lemma put_bytes_short: "length src \<le> l \<Longrightarrow> put_bytes ([a..<a + l] @ ys) src m = write_mem a src m"
proof -
  assume l: "length src \<le> l"
  have "[a..<a + l] = [a..<a + length src] @ [a + length src..<a + l]"
    using upt_add_eq_append [of a "a + length src" "l - length src"] l by simp
  moreover have "put_bytes ([a..<a + length src] @ zs) (src @ []) m = put_bytes [a..<a + length src] src m" for zs
    by (subst put_bytes_append) simp_all
  ultimately show ?thesis by (simp only: append_assoc write_mem_put_bytes append_Nil2)
qed

lemma put_bytes_long:
  "l \<le> length src \<Longrightarrow>
     put_bytes ([a..<a + l] @ ys) src m = put_bytes ys (drop l src) (write_mem a (take l src) m)"
proof -
  assume l: "l \<le> length src"
  then have "put_bytes ([a..<a + l] @ ys) (take l src @ drop l src) m
      = put_bytes ys (drop l src) (put_bytes [a..<a + l] (take l src) m)"
    by (intro put_bytes_append) simp
  with l show ?thesis by (simp only: append_take_drop_id write_mem_put_bytes length_take min_absorb2)
qed

lemma copy_to_loop_flat:
  "length src \<le> sum_list (map seg_len cs) \<Longrightarrow> copy_to_loop cs src m = Some (put_bytes (seg_addrs cs) src m)"
proof (induction cs src m rule: copy_to_loop.induct)
  case (3 c cs b src m)
  let ?s = "b # src"
  have IH: "copy_to_loop cs (drop (seg_len c) ?s) (write_mem (vaddr c) (take (seg_len c) ?s) m)
      = Some (put_bytes (seg_addrs cs) (drop (seg_len c) ?s) (write_mem (vaddr c) (take (seg_len c) ?s) m))"
    by (rule "3.IH") (use "3.prems" in simp)
  show ?case
  proof (cases "seg_len c \<le> length ?s")
    case True
    from IH put_bytes_long [OF this] show ?thesis
      by (simp only: copy_to_loop.simps seg_addrs_simps)
  next
    case False
    then have "length ?s \<le> seg_len c" by simp
    from IH put_bytes_short [OF this] False show ?thesis
      by (simp only: copy_to_loop.simps seg_addrs_simps) simp
  qed
qed auto

lemma copy_from_loop_gather:
  assumes "gather_loop cs n m = Some bs"
    and "set (seg_addrs cs) \<inter> {dst..<dst + n} = {}"
  shows "copy_from_loop cs dst n m = Some (write_mem dst bs m)"
  using assms
proof (induction cs dst n m arbitrary: bs rule: copy_from_loop.induct)
  case (3 c cs dst n m)
  let ?k = "min (seg_len c) (Suc n)"
  let ?m = "write_mem dst (read_mem m (vaddr c) ?k) m"
  obtain xs where xs: "gather_loop cs (Suc n - ?k) m = Some xs" and bs: "bs = read_mem m (vaddr c) ?k @ xs"
    using "3.prems"(1) by (auto simp: Let_def)
  have le: "Suc n - ?k \<le> sum_list (map seg_len cs)"
    using xs gather_loop_overrun [of cs "Suc n - ?k" m] by (metis linorder_not_less option.simps(3))
  have "map ?m (take (Suc n - ?k) (seg_addrs cs)) = map m (take (Suc n - ?k) (seg_addrs cs))"
    using "3.prems"(2) by (auto simp: write_mem_def dest!: in_set_takeD)
  then have "gather_loop cs (Suc n - ?k) ?m = Some xs"
    using xs le by (simp only: gather_loop_flat)
  moreover have "set (seg_addrs cs) \<inter> {dst + ?k..<dst + ?k + (Suc n - ?k)} = {}"
    using "3.prems"(2) by fastforce
  ultimately have "copy_from_loop cs (dst + ?k) (Suc n - ?k) ?m = Some (write_mem (dst + ?k) xs ?m)"
    by (rule "3.IH" [OF refl])
  then show ?case using bs by (simp add: Let_def write_mem_append)
qed auto

subsection \<open>Copying by fragments: the saved position\<close>

definition scan_at :: "omx_cmd_user_segment list \<Rightarrow> omx_segscan_state \<Rightarrow> nat \<Rightarrow> bool" where
  "scan_at cs st pos \<longleftrightarrow>
     sum_list (map seg_len (take (scan_seg st) cs)) + scan_off st = pos
     \<and> (scan_seg st < length cs \<and> scan_off st \<le> seg_len (cs ! scan_seg st)
        \<or> scan_seg st = length cs \<and> scan_off st = 0)"

lemma curchunk_eq: "off \<le> seg_len c \<Longrightarrow> seg_len c < 2 ^ 32 \<Longrightarrow> curchunk c off = seg_len c - off"
proof -
  assume "off \<le> seg_len c" "seg_len c < 2 ^ 32"
  then have "int (seg_len c) - int off = int (seg_len c - off)" "seg_len c - off < 2 ^ 32"
    by auto
  then show ?thesis
    unfolding curchunk_def by (metis mod_less nat_int of_nat_mod of_nat_numeral of_nat_power)
qed

lemma continue_to_loop_flat:
  assumes "cs \<noteq> []" and "off \<le> seg_len (hd cs)" and "\<forall>c \<in> set cs. seg_len c < 2 ^ 32"
    and "off + length src \<le> sum_list (map seg_len cs)"
  shows "\<exists>k off'. continue_to_loop cs idx off src m
            = Some (put_bytes (drop off (seg_addrs cs)) src m, \<lparr>scan_seg = idx + k, scan_off = off'\<rparr>)
          \<and> scan_at cs \<lparr>scan_seg = k, scan_off = off'\<rparr> (off + length src)"
  using assms
proof (induction cs arbitrary: idx off src m)
  case Nil
  then show ?case by simp
next
  case (Cons c cs)
  let ?r = "seg_len c - off"
  have cur: "curchunk c off = ?r" using Cons.prems by (intro curchunk_eq) auto
  have d: "drop off (seg_addrs (c # cs)) = [vaddr c + off..<vaddr c + off + ?r] @ seg_addrs cs"
    using Cons.prems(2) by simp
  show ?case
  proof (cases "length src < ?r")
    case True
    then have "continue_to_loop (c # cs) idx off src m
        = Some (write_mem (vaddr c + off) src m, \<lparr>scan_seg = idx, scan_off = off + length src\<rparr>)"
      by (simp add: cur Let_def)
    moreover have "scan_at (c # cs) \<lparr>scan_seg = 0, scan_off = off + length src\<rparr> (off + length src)"
      using True by (simp add: scan_at_def)
    moreover have "put_bytes (drop off (seg_addrs (c # cs))) src m = write_mem (vaddr c + off) src m"
      using True by (simp only: d) (rule put_bytes_short, simp)
    ultimately show ?thesis
      by (intro exI [of _ 0] exI [of _ "off + length src"]) (simp only: add_0_right simp_thms)
  next
    case False
    then have *: "put_bytes (drop off (seg_addrs (c # cs))) src m
        = put_bytes (seg_addrs cs) (drop ?r src) (write_mem (vaddr c + off) (take ?r src) m)"
      by (simp only: d) (rule put_bytes_long, simp)
    show ?thesis
    proof (cases "length src = ?r")
      case True
      then have "continue_to_loop (c # cs) idx off src m
          = Some (write_mem (vaddr c + off) src m, \<lparr>scan_seg = Suc idx, scan_off = 0\<rparr>)"
        by (simp add: cur Let_def)
      moreover have "scan_at (c # cs) \<lparr>scan_seg = 1, scan_off = 0\<rparr> (off + length src)"
        using True Cons.prems(2) by (cases cs) (auto simp: scan_at_def)
      ultimately show ?thesis using True
        by (intro exI [of _ 1] exI [of _ 0]) (simp add: * del: seg_addrs_simps)
    next
      case neq: False
      have len: "0 + length (drop ?r src) \<le> sum_list (map seg_len cs)" using Cons.prems(2,4) by simp
      then have "cs \<noteq> []" using neq False by auto
      from Cons.IH [OF this _ _ len, of "Suc idx" "write_mem (vaddr c + off) (take ?r src) m"] Cons.prems(3)
      obtain k off' where
        k: "continue_to_loop cs (Suc idx) 0 (drop ?r src) (write_mem (vaddr c + off) (take ?r src) m)
            = Some (put_bytes (seg_addrs cs) (drop ?r src) (write_mem (vaddr c + off) (take ?r src) m),
                    \<lparr>scan_seg = Suc idx + k, scan_off = off'\<rparr>)"
        and st: "scan_at cs \<lparr>scan_seg = k, scan_off = off'\<rparr> (length (drop ?r src))"
        by auto
      have "continue_to_loop (c # cs) idx off src m
          = continue_to_loop cs (Suc idx) 0 (drop ?r src) (write_mem (vaddr c + off) (take ?r src) m)"
        using neq False by (simp add: cur Let_def)
      moreover have "scan_at (c # cs) \<lparr>scan_seg = Suc k, scan_off = off'\<rparr> (off + length src)"
        using st False Cons.prems(2) by (auto simp: scan_at_def)
      ultimately show ?thesis using k
        by (intro exI [of _ "Suc k"] exI [of _ off']) (simp add: * del: seg_addrs_simps)
    qed
  qed
qed

lemma scan_seek_spec:
  assumes "cs \<noteq> []" and "cur \<le> offset" and "offset \<le> cur + sum_list (map seg_len cs)"
    and "cur + sum_list (map seg_len cs) < 2 ^ 32"
  shows "\<exists>k off. scan_seek cs idx cur offset = Some \<lparr>scan_seg = idx + k, scan_off = off\<rparr>
          \<and> k < length cs \<and> off \<le> seg_len (cs ! k)
          \<and> cur + sum_list (map seg_len (take k cs)) + off = offset"
  using assms
proof (induction cs arbitrary: idx cur)
  case Nil
  then show ?case by simp
next
  case (Cons c cs)
  show ?case
  proof (cases "offset > cur + seg_len c")
    case False
    then show ?thesis using Cons.prems by (intro exI [of _ 0] exI [of _ "offset - cur"]) auto
  next
    case True
    then have "cs \<noteq> []" using Cons.prems by auto
    moreover have m: "(cur + seg_len c) mod 2 ^ 32 = cur + seg_len c"
      using Cons.prems by (intro mod_less) auto
    ultimately obtain k off where
      "scan_seek cs (Suc idx) (cur + seg_len c) offset = Some \<lparr>scan_seg = Suc idx + k, scan_off = off\<rparr>"
      "k < length cs" "off \<le> seg_len (cs ! k)"
      "cur + seg_len c + sum_list (map seg_len (take k cs)) + off = offset"
      using Cons.IH [of "cur + seg_len c" "Suc idx"] True Cons.prems by auto
    with True m show ?thesis by (intro exI [of _ "Suc k"] exI [of _ off]) auto
  qed
qed

lemma drop_seg_addrs:
  "drop off (seg_addrs (drop k cs)) = drop (sum_list (map seg_len (take k cs)) + off) (seg_addrs cs)"
proof -
  have "seg_addrs (take k cs @ drop k cs) = seg_addrs (take k cs) @ seg_addrs (drop k cs)"
    by (simp only: seg_addrs_def map_append concat_append)
  then have "seg_addrs cs = seg_addrs (take k cs) @ seg_addrs (drop k cs)"
    by (simp only: append_take_drop_id)
  then have "drop (sum_list (map seg_len (take k cs)) + off) (seg_addrs cs)
      = drop (length (seg_addrs (take k cs)) + off) (seg_addrs (take k cs) @ seg_addrs (drop k cs))"
    by (simp only: length_seg_addrs)
  then show ?thesis by (simp only: drop_append) simp
qed

lemma sum_take_le: "sum_list (map f (take k xs)) \<le> sum_list (map f (xs :: 'a list) :: nat list)"
proof -
  have "sum_list (map f xs) = sum_list (map f (take k xs)) + sum_list (map f (drop k xs))"
    by (metis append_take_drop_id map_append sum_list_append)
  then show ?thesis by simp
qed

lemma sum_drop: "sum_list (map f (drop k xs)) = sum_list (map f (xs :: 'a list) :: nat list) - sum_list (map f (take k xs))"
  by (metis append_take_drop_id map_append sum_list_append add_diff_cancel_left')

lemma partial_copy_flat:
  assumes wf: "segs_wf r" and small: "sum_list (map seg_len (segs r)) < 2 ^ 32"
    and st: "scan_at (segs r) st so" and src: "src \<noteq> []"
    and bound: "offset + length src \<le> sum_list (map seg_len (segs r))"
  shows "\<exists>st'. omx_partial_copy_to_segments r src offset st so m
           = Some (put_bytes (drop offset (flat r)) src m, st', offset + length src)
         \<and> scan_at (segs r) st' (offset + length src)"
proof -
  let ?cs = "segs r"
  have cs: "?cs \<noteq> []" "\<forall>c \<in> set ?cs. seg_len c < 2 ^ 32" using wf by (auto simp: segs_wf_def)
  obtain st1 where st1: "(if offset \<noteq> so then scan_seek ?cs 0 0 offset else Some st) = Some st1"
    and at: "scan_at ?cs st1 offset"
  proof (cases "offset = so")
    case True
    with that st show ?thesis by simp
  next
    case False
    have "\<exists>k off. scan_seek ?cs 0 0 offset = Some \<lparr>scan_seg = 0 + k, scan_off = off\<rparr>
        \<and> k < length ?cs \<and> off \<le> seg_len (?cs ! k)
        \<and> 0 + sum_list (map seg_len (take k ?cs)) + off = offset"
      by (rule scan_seek_spec) (use cs(1) bound small in auto)
    then show ?thesis using that False by (auto simp: scan_at_def)
  qed
  let ?k = "scan_seg st1"
  have "offset < sum_list (map seg_len ?cs)" using bound src by (cases src) auto
  then have k: "?k < length ?cs" "scan_off st1 \<le> seg_len (?cs ! ?k)"
    and off: "sum_list (map seg_len (take ?k ?cs)) + scan_off st1 = offset"
    using at by (auto simp: scan_at_def)
  have dr: "drop ?k ?cs \<noteq> []" "scan_off st1 \<le> seg_len (hd (drop ?k ?cs))"
    using k by (auto simp: hd_drop_conv_nth)
  have "scan_off st1 + length src \<le> sum_list (map seg_len (drop ?k ?cs))"
    using bound off by (simp add: sum_drop)
  from continue_to_loop_flat [OF dr _ this, of ?k m] cs(2)
  obtain j off' where
    c: "continue_to_loop (drop ?k ?cs) ?k (scan_off st1) src m
      = Some (put_bytes (drop (scan_off st1) (seg_addrs (drop ?k ?cs))) src m,
              \<lparr>scan_seg = ?k + j, scan_off = off'\<rparr>)"
    and j: "scan_at (drop ?k ?cs) \<lparr>scan_seg = j, scan_off = off'\<rparr> (scan_off st1 + length src)"
    by (auto dest: in_set_dropD)
  have "take (?k + j) ?cs = take ?k ?cs @ take j (drop ?k ?cs)"
    by (rule take_add)
  then have "scan_at ?cs \<lparr>scan_seg = ?k + j, scan_off = off'\<rparr> (offset + length src)"
    using j k(1) off by (auto simp: scan_at_def)
  moreover have "(offset + length src) mod 2 ^ 32 = offset + length src"
    using bound small by simp
  ultimately show ?thesis
    using st1 c off
    by (simp add: omx_partial_copy_to_segments_def omx_continue_partial_copy_to_segments_def
        drop_seg_addrs flat_def)
qed

text \<open>A message of which the fragments \<open>(offset, length)\<close> arrive one by one.\<close>

fun copy_fragments ::
  "omx__req_segs \<Rightarrow> bytes \<Rightarrow> (nat \<times> nat) list \<Rightarrow> omx_segscan_state \<Rightarrow> nat \<Rightarrow> memory \<Rightarrow> memory option"
where
  "copy_fragments r msg [] st so m = Some m"
| "copy_fragments r msg ((off, len) # frs) st so m =
     Option.bind (omx_partial_copy_to_segments r (take len (drop off msg)) off st so m)
       (\<lambda>(m', st', so'). copy_fragments r msg frs st' so' m')"

definition covers :: "(nat \<times> nat) list \<Rightarrow> nat \<Rightarrow> bool" where
  "covers frs i \<longleftrightarrow> (\<exists>(off, len) \<in> set frs. off \<le> i \<and> i < off + len)"

lemma put_bytes_drop_nth:
  assumes "distinct as" and "off + length src \<le> length as" and "i < length as"
  shows "put_bytes (drop off as) src m (as ! i)
    = (if off \<le> i \<and> i < off + length src then src ! (i - off) else m (as ! i))"
proof -
  let ?a = "take (length src) (drop off as)" and ?b = "drop (length src) (drop off as)"
  have "put_bytes (?a @ ?b) (src @ []) m = put_bytes ?a src m"
    using assms(2) by (subst put_bytes_append) simp_all
  then have eq: "put_bytes (drop off as) src m = put_bytes ?a src m"
    by (simp only: append_take_drop_id append_Nil2)
  show ?thesis
  proof (cases "off \<le> i \<and> i < off + length src")
    case True
    then have i: "drop off as ! (i - off) = as ! i" "i - off < length src" "i - off < length (drop off as)"
      using assms by auto
    have "put_bytes (drop off as) src m (drop off as ! (i - off)) = src ! (i - off)"
      by (rule put_bytes_nth) (use i assms(1) in auto)
    then show ?thesis using True i(1) by simp
  next
    case False
    have "as ! i \<notin> set (take (length src) (drop off as))"
    proof
      assume "as ! i \<in> set (take (length src) (drop off as))"
      then obtain j where "j < length src" "j < length (drop off as)" "drop off as ! j = as ! i"
        by (auto simp: in_set_conv_nth)
      then have "off + j = i" using assms by (simp add: nth_eq_iff_index_eq)
      then show False using False \<open>j < length src\<close> by auto
    qed
    then have "put_bytes ?a src m (as ! i) = m (as ! i)" by (rule put_bytes_notin)
    then show ?thesis unfolding eq using False by auto
  qed
qed

lemma copy_fragments_spec:
  assumes wf: "segs_wf r" and small: "sum_list (map seg_len (segs r)) < 2 ^ 32"
    and d: "distinct (flat r)" and len: "length msg \<le> sum_list (map seg_len (segs r))"
    and st: "scan_at (segs r) st so"
    and frs: "\<forall>(off, l) \<in> set frs. 0 < l \<and> off + l \<le> length msg"
  shows "\<exists>m'. copy_fragments r msg frs st so m = Some m'
    \<and> (\<forall>i < length (flat r). m' (flat r ! i) = (if covers frs i then msg ! i else m (flat r ! i)))
    \<and> (\<forall>a. a \<notin> set (flat r) \<longrightarrow> m' a = m a)"
  using st frs
proof (induction frs arbitrary: st so m)
  case Nil
  then show ?case by (simp add: covers_def)
next
  case (Cons f frs)
  obtain off l where f: "f = (off, l)" by (cases f)
  let ?src = "take l (drop off msg)"
  let ?m = "put_bytes (drop off (flat r)) ?src m"
  have b: "0 < l" "off + l \<le> length msg" using Cons.prems(2) f by auto
  then have src: "?src \<noteq> []" "length ?src = l" by auto
  then have "off + length ?src \<le> sum_list (map seg_len (segs r))" using b len by simp
  from partial_copy_flat [OF wf small Cons.prems(1) src(1) this, of m] obtain st' where
    p: "omx_partial_copy_to_segments r ?src off st so m = Some (?m, st', off + l)"
    and st': "scan_at (segs r) st' (off + l)"
    unfolding src(2) by blast
  from Cons.IH [OF st', of ?m] Cons.prems(2) obtain m' where
    m': "copy_fragments r msg frs st' (off + l) ?m = Some m'"
    and nth: "\<forall>i < length (flat r). m' (flat r ! i) = (if covers frs i then msg ! i else ?m (flat r ! i))"
    and out: "\<forall>a. a \<notin> set (flat r) \<longrightarrow> m' a = ?m a"
    by auto
  have fl: "off + length ?src \<le> length (flat r)"
    using b len src by (simp add: flat_def length_seg_addrs)
  have "m' (flat r ! i) = (if covers (f # frs) i then msg ! i else m (flat r ! i))"
    if "i < length (flat r)" for i
    using nth that put_bytes_drop_nth [OF d fl that, of m] b src
    by (auto simp: covers_def f nth_append)
  moreover have "m' a = m a" if "a \<notin> set (flat r)" for a
  proof -
    have "a \<notin> set (drop off (flat r))" using that by (auto dest: in_set_dropD)
    then show ?thesis using out that by (simp add: put_bytes_notin)
  qed
  ultimately show ?case using p m' by (auto simp: f)
qed

subsection \<open>Properties\<close>

lemma copy_from_segments_eq:
  assumes "segs_wf r" and "len \<le> sum_list (map seg_len (segs r))"
    and "set (flat r) \<inter> {dst..<dst + len} = {}"
  shows "omx_copy_from_segments dst r len m = Some (write_mem dst (map m (take len (flat r))) m)"
proof (cases "nseg r = 1")
  case True
  then have "segs r = [single r]" using segs_wf_single [OF assms(1)] by blast
  then show ?thesis using True assms(2)
    by (simp add: omx_copy_from_segments_def flat_def read_mem_map take_upt)
next
  case False
  have "gather_loop (segs r) len m = Some (map m (take len (flat r)))"
    using gather_loop_flat [OF assms(2)] by (simp add: flat_def)
  from copy_from_loop_gather [OF this] assms(3) False show ?thesis
    by (simp add: omx_copy_from_segments_def flat_def)
qed

text \<open>
  C24: copying a vectorial buffer into contiguous memory that it does not overlap copies exactly the
  first \<open>len\<close> bytes of its flat view, whatever the segment boundaries (empty segments included).
\<close>

theorem copy_from_segments_flat:
  assumes "segs_wf r" and "len \<le> sum_list (map seg_len (segs r))"
    and "set (flat r) \<inter> {dst..<dst + len} = {}"
  shows "omx_copy_from_segments dst r len m = Some (write_mem dst (map m (take len (flat r))) m)"
  using copy_from_segments_eq [OF assms] .

definition two_segs :: "address \<Rightarrow> nat \<Rightarrow> address \<Rightarrow> nat \<Rightarrow> omx__req_segs" where
  "two_segs a n b k = \<lparr>single = \<lparr>vaddr = 0, seg_len = 0\<rparr>, nseg = 2,
     segs = [\<lparr>vaddr = a, seg_len = n\<rparr>, \<lparr>vaddr = b, seg_len = k\<rparr>], total_length = n + k\<rparr>"

lemma two_segs_wf: "n + k < 2 ^ 32 \<Longrightarrow> segs_wf (two_segs a n b k)"
  by (simp add: two_segs_def segs_wf_def)

theorem copy_from_segments_flat_witness:
  "omx_copy_from_segments 100 (two_segs 10 3 20 2) 4 (\<lambda>a. of_nat a)
     = Some (write_mem 100 [10, 11, 12, 20] (\<lambda>a. of_nat a))"
proof -
  have fl: "flat (two_segs 10 3 20 2) = [10, 11, 12, 20, 21]" by (simp add: two_segs_def flat_def)
  have "omx_copy_from_segments 100 (two_segs 10 3 20 2) 4 (\<lambda>a. of_nat a)
      = Some (write_mem 100 (map of_nat (take 4 (flat (two_segs 10 3 20 2)))) (\<lambda>a. of_nat a))"
    by (rule copy_from_segments_flat) (simp_all add: two_segs_wf fl, simp add: two_segs_def)
  then show ?thesis by (simp add: fl)
qed

text \<open>
  C20: the fragments of a message may reach a vectorial buffer in any order, with gaps and with
  repetitions: each copy starts from the saved position or looks for its own, and in the end every
  byte covered by a fragment is the byte of the message and no other byte of memory has changed.
\<close>

theorem copy_fragments_any_order:
  assumes "segs_wf r" and "sum_list (map seg_len (segs r)) < 2 ^ 32" and "distinct (flat r)"
    and "length msg \<le> sum_list (map seg_len (segs r))"
    and "\<forall>(off, l) \<in> set frs. 0 < l \<and> off + l \<le> length msg"
  shows "\<exists>m'. copy_fragments r msg frs \<lparr>scan_seg = 0, scan_off = 0\<rparr> 0 m = Some m'
    \<and> (\<forall>i < length (flat r). m' (flat r ! i) = (if covers frs i then msg ! i else m (flat r ! i)))
    \<and> (\<forall>a. a \<notin> set (flat r) \<longrightarrow> m' a = m a)"
  by (rule copy_fragments_spec)
    (use assms in \<open>auto simp: scan_at_def segs_wf_def\<close>)

theorem copy_fragments_any_order_witness:
  "\<exists>m'. copy_fragments (two_segs 10 3 20 2) [1, 2, 3, 4, 5] [(2, 3), (0, 2)]
      \<lparr>scan_seg = 0, scan_off = 0\<rparr> 0 (\<lambda>_. 0) = Some m' \<and> m' 12 = 3 \<and> m' 20 = 4 \<and> m' 99 = 0"
proof -
  let ?r = "two_segs 10 3 20 2"
  have fl: "flat ?r = [10, 11, 12, 20, 21]"
    by (simp add: two_segs_def flat_def)
  have "\<exists>m'. copy_fragments ?r [1, 2, 3, 4, 5] [(2, 3), (0, 2)]
      \<lparr>scan_seg = 0, scan_off = 0\<rparr> 0 (\<lambda>_. 0) = Some m'
    \<and> (\<forall>i < length (flat ?r). m' (flat ?r ! i)
        = (if covers [(2, 3), (0, 2)] i then [1, 2, 3, 4, 5] ! i else 0))
    \<and> (\<forall>a. a \<notin> set (flat ?r) \<longrightarrow> m' a = 0)"
    by (rule copy_fragments_any_order) (simp_all add: two_segs_wf fl, simp_all add: two_segs_def)
  then obtain m' where m': "copy_fragments ?r [1, 2, 3, 4, 5] [(2, 3), (0, 2)]
      \<lparr>scan_seg = 0, scan_off = 0\<rparr> 0 (\<lambda>_. 0) = Some m'"
    and nth: "\<And>i. i < 5 \<Longrightarrow> m' (flat ?r ! i)
        = (if covers [(2, 3), (0, 2)] i then [1, 2, 3, 4, 5] ! i else 0)"
    and out: "\<And>a. a \<notin> set (flat ?r) \<Longrightarrow> m' a = 0"
    by (auto simp: fl)
  show ?thesis using m' nth [of 2] nth [of 3] out [of 99] by (auto simp: fl covers_def)
qed

text \<open>
  C26: the checksum of a buffer depends on its bytes only, not on how they are cut into segments.
\<close>

theorem checksum_segments_flat:
  assumes "segs_wf r"
  shows "omx_checksum_segments r len m = fold crc_byte (map m (take len (flat r))) 0"
proof -
  have loop: "checksum_loop cs n crc m = fold crc_byte (map m (take n (seg_addrs cs))) crc" for cs n crc
  proof (induction cs n crc m rule: checksum_loop.induct)
    case (2 c cs n crc m)
    show ?case
    proof (cases "n = 0")
      case False
      from "2.IH" [OF False refl] False show ?thesis
        by (simp add: Let_def take_chunk_append read_mem_map del: take_append)
    qed simp
  qed simp
  have "(if nseg r = 1 then [single r] else segs r) = segs r"
    using segs_wf_single [OF assms] by simp
  then show ?thesis by (simp only: omx_checksum_segments_def loop flat_def)
qed

theorem checksum_segments_flat_witness:
  "omx_checksum_segments (two_segs 10 1 20 1) 2 (\<lambda>a. if a = 10 then 0x31 else 0x32)
     = fold crc_byte [0x31, 0x32] 0"
  using checksum_segments_flat [OF two_segs_wf [of 1 1 10 20], of 2 "\<lambda>a. if a = 10 then 0x31 else 0x32"]
  by (simp add: two_segs_def flat_def)

text \<open>
  C25: copying from segments to segments when only one side is vectorial (or neither): the
  destination gets the first \<open>len\<close> bytes of the source, for sides that do not overlap.
\<close>

theorem copy_from_to_contiguous:
  assumes "segs_wf src" and "segs_wf dst" and "nseg src = 1 \<or> nseg dst = 1"
    and "len \<le> sum_list (map seg_len (segs src))" and "len \<le> sum_list (map seg_len (segs dst))"
    and "set (flat src) \<inter> set (flat dst) = {}"
  shows "omx_copy_from_to_segments dst src len m
    = Some (put_bytes (flat dst) (map m (take len (flat src))) m)"
proof (cases "nseg src = 1")
  case True
  then have s: "segs src = [single src]" using segs_wf_single [OF assms(1)] by blast
  have rd: "read_mem m (vaddr (single src)) len = map m (take len (flat src))"
    using assms(4) by (simp add: s flat_def read_mem_map take_upt)
  show ?thesis
  proof (cases "nseg dst = 1")
    case d: True
    let ?bs = "map m (take len (flat src))" and ?v = "vaddr (single dst)" and ?l = "seg_len (single dst)"
    have sd: "segs dst = [single dst]" using d segs_wf_single [OF assms(2)] by blast
    have len: "length ?bs = len" using assms(4) by (simp add: flat_def length_seg_addrs)
    have "put_bytes ([?v..<?v + ?l] @ []) ?bs m = write_mem ?v ?bs m"
      by (rule put_bytes_short) (use len assms(5) sd in simp)
    moreover have "flat dst = [?v..<?v + ?l]" by (simp add: flat_def sd)
    moreover have "omx_copy_to_segments dst ?bs len m = Some (write_mem ?v ?bs m)"
      using d len by (simp add: omx_copy_to_segments_def)
    ultimately show ?thesis using True rd
      by (simp only: omx_copy_from_to_segments_def if_True append_Nil2) simp
  next
    case False
    let ?bs = "map m (take len (flat src))"
    have len: "length ?bs = len" using assms(4) by (simp add: flat_def length_seg_addrs)
    have "copy_to_loop (segs dst) ?bs m = Some (put_bytes (flat dst) ?bs m)"
      unfolding flat_def [of dst] by (rule copy_to_loop_flat) (use len assms(5) in simp)
    then have "omx_copy_to_segments dst ?bs len m = Some (put_bytes (flat dst) ?bs m)"
      using False len by (simp add: omx_copy_to_segments_def)
    then show ?thesis using True
      by (simp only: omx_copy_from_to_segments_def if_True rd simp_thms)
  qed
next
  case False
  then have d: "nseg dst = 1" "segs dst = [single dst]" using assms(3) segs_wf_single [OF assms(2)] by blast+
  let ?v = "vaddr (single dst)" and ?l = "seg_len (single dst)"
  have fd: "flat dst = [?v..<?v + ?l]" and l: "len \<le> ?l" using d assms(5) by (auto simp: flat_def)
  have "set (flat src) \<inter> {?v..<?v + len} = {}"
    using assms(6) l unfolding fd by auto
  from copy_from_segments_eq [OF assms(1,4) this] False d
  have "omx_copy_from_to_segments dst src len m = Some (write_mem ?v (map m (take len (flat src))) m)"
    by (simp add: omx_copy_from_to_segments_def)
  moreover have "put_bytes ([?v..<?v + ?l] @ []) (map m (take len (flat src))) m
      = write_mem ?v (map m (take len (flat src))) m"
    by (rule put_bytes_short) (use l in simp)
  ultimately show ?thesis by (simp only: fd append_Nil2)
qed

theorem copy_from_to_contiguous_witness:
  "omx_copy_from_to_segments (two_segs 40 1 50 2) (omx_cache_single_segment 10 3) 3 (\<lambda>a. of_nat a)
     = Some (put_bytes [40, 50, 51] [10, 11, 12] (\<lambda>a. of_nat a))"
proof -
  have fl: "flat (two_segs 40 1 50 2) = [40, 50, 51]" "flat (omx_cache_single_segment 10 3) = [10, 11, 12]"
    by (simp_all add: two_segs_def flat_def omx_cache_single_segment_def Let_def)
  have "omx_copy_from_to_segments (two_segs 40 1 50 2) (omx_cache_single_segment 10 3) 3 (\<lambda>a. of_nat a)
      = Some (put_bytes (flat (two_segs 40 1 50 2))
          (map of_nat (take 3 (flat (omx_cache_single_segment 10 3)))) (\<lambda>a. of_nat a))"
    by (rule copy_from_to_contiguous)
      (simp_all add: two_segs_wf fl, simp_all add: two_segs_def omx_cache_single_segment_def Let_def
        segs_wf_def flat_def)
  then show ?thesis unfolding fl by simp
qed

text \<open>
  When both sides are vectorial the loop bounds a chunk by the length of the current segments, not
  by what remains of them. With segments of 4 and 4 bytes copied to segments of 2 and 6, the second
  chunk starts two bytes into the first source segment and still takes four bytes: byte 4 of the
  message is read from behind the segment (address 14), not from the next segment (address 20).
\<close>

theorem copy_from_to_overruns_segment:
  "map_option (\<lambda>m'. m' 52) (omx_copy_from_to_segments (two_segs 40 2 50 6) (two_segs 10 4 20 4) 8 m)
     = Some (m 14)"
  by (simp add: omx_copy_from_to_segments_def two_segs_def copy_from_to_loop.simps [of "_ # _"]
      copy_from_to_loop.simps [of "[]"] write_mem_def read_mem_def Let_def)

text \<open>
  A fragment placed behind the end of a vectorial buffer sends the search for its segment past the
  end of the array, even when nothing is to be copied (a truncated receive).
\<close>

theorem partial_copy_beyond_total:
  "omx_partial_copy_to_segments (two_segs 10 3 20 2) [] 6 \<lparr>scan_seg = 0, scan_off = 0\<rparr> 0 m = None"
  by (simp add: omx_partial_copy_to_segments_def two_segs_def)

text \<open>
  C27: caching the user's segments gives a buffer with exactly the user's addresses in order, and
  fails only for too many segments or a failed allocation.
\<close>

theorem cache_segments_result:
  assumes "\<forall>s \<in> set usegs. seg_length s < 2 ^ 32"
  shows "(length usegs > 256 \<longrightarrow> omx_cache_segments alloc usegs = CACHE_BAD_COUNT)
    \<and> (1 < length usegs \<and> length usegs \<le> 256 \<and> \<not> alloc \<longrightarrow>
         omx_cache_segments alloc usegs = CACHE_NO_RESOURCES)
    \<and> (length usegs \<le> 256 \<and> (alloc \<or> length usegs \<le> 1) \<longrightarrow>
         (\<exists>r. omx_cache_segments alloc usegs = CACHE_SUCCESS r \<and> segs_wf r
            \<and> flat r = concat (map (\<lambda>s. [seg_ptr s..<seg_ptr s + seg_length s]) usegs)
            \<and> total_length r = sum_list (map seg_length usegs) mod 2 ^ 32))"
proof -
  have fold: "foldl (\<lambda>t s. (t + seg_length s) mod 2 ^ 32) t us = (t + sum_list (map seg_length us)) mod 2 ^ 32"
    if "t < 2 ^ 32" for t us
    using that by (induction us arbitrary: t) (auto simp: mod_add_left_eq add.assoc)
  consider "usegs = []" | s where "usegs = [s]" | s1 s2 us where "usegs = s1 # s2 # us"
    by (cases usegs rule: remdups_adj.cases) auto
  then show ?thesis
  proof cases
    case 1
    then show ?thesis
      by (simp add: omx_cache_segments_def omx_cache_single_segment_def Let_def segs_wf_def flat_def)
  next
    case 2
    then show ?thesis using assms
      by (simp add: omx_cache_segments_def omx_cache_single_segment_def Let_def segs_wf_def flat_def)
  next
    case 3
    let ?r = "\<lparr>single = \<lparr>vaddr = 0, seg_len = 0\<rparr>, nseg = length usegs,
         segs = map (\<lambda>s. \<lparr>vaddr = seg_ptr s, seg_len = seg_length s\<rparr>) usegs,
         total_length = foldl (\<lambda>t s. (t + seg_length s) mod 2 ^ 32) 0 usegs\<rparr>"
    have l: "1 < length usegs" using 3 by simp
    have t: "foldl (\<lambda>t s. (t + seg_length s) mod 2 ^ 32) 0 usegs = sum_list (map seg_length usegs) mod 2 ^ 32"
      using fold [of 0 usegs] by simp
    have "omx_cache_segments alloc usegs = (if length usegs > 256 then CACHE_BAD_COUNT
        else if \<not> alloc then CACHE_NO_RESOURCES else CACHE_SUCCESS ?r)"
      using l unfolding omx_cache_segments_def OMX_MAX_SEGMENTS_def by auto
    moreover have "segs_wf ?r"
      unfolding segs_wf_def using l assms t by (auto simp: comp_def)
    moreover have "flat ?r = concat (map (\<lambda>s. [seg_ptr s..<seg_ptr s + seg_length s]) usegs)"
      by (simp add: flat_def seg_addrs_def comp_def)
    ultimately show ?thesis using t l by auto
  qed
qed

theorem cache_segments_result_witness:
  "\<exists>r. omx_cache_segments True [\<lparr>seg_ptr = 7, seg_length = 2\<rparr>, \<lparr>seg_ptr = 20, seg_length = 1\<rparr>]
      = CACHE_SUCCESS r \<and> segs_wf r \<and> flat r = [7, 8, 20] \<and> total_length r = 3"
  using cache_segments_result [of "[\<lparr>seg_ptr = 7, seg_length = 2\<rparr>, \<lparr>seg_ptr = 20, seg_length = 1\<rparr>]" True]
  by simp

end
