(* ===== verification/Seqnum.thy ===== *)
theory Seqnum
  imports Prelude
begin

text \<open>
  Sequence numbers of a partner connection (\<open>libxen2mx/omx_types.h\<close>): sixteen bits, of which the
  low fourteen count messages modulo \<open>2 ^ 14\<close> and the high two number the session. Every
  comparison in the library goes through \<open>OMX__SEQNUM (a - b)\<close>, the distance from \<open>b\<close>
  to \<open>a\<close> on the circle; the lemmas read that distance as a natural number.
\<close>

type_synonym omx__seqnum_t = "16 word"

definition OMX__SEQNUM_BITS :: nat where
  "OMX__SEQNUM_BITS = 14"

definition OMX__SEQNUM_MASK :: omx__seqnum_t where
  "OMX__SEQNUM_MASK = push_bit OMX__SEQNUM_BITS 1 - 1"

definition OMX__SEQNUM :: "omx__seqnum_t \<Rightarrow> omx__seqnum_t" where
  "OMX__SEQNUM x = x AND OMX__SEQNUM_MASK"

definition OMX__SESNUM_BITS :: nat where
  "OMX__SESNUM_BITS = 16 - OMX__SEQNUM_BITS"

definition OMX__SESNUM_ONE :: omx__seqnum_t where
  "OMX__SESNUM_ONE = push_bit OMX__SEQNUM_BITS 1"

definition OMX__SESNUM_MASK :: omx__seqnum_t where
  "OMX__SESNUM_MASK = push_bit OMX__SEQNUM_BITS (push_bit OMX__SESNUM_BITS 1 - 1)"

definition OMX__SESNUM :: "omx__seqnum_t \<Rightarrow> omx__seqnum_t" where
  "OMX__SESNUM x = x AND OMX__SESNUM_MASK"

definition OMX__SESNUM_SHIFTED :: "omx__seqnum_t \<Rightarrow> omx__seqnum_t" where
  "OMX__SESNUM_SHIFTED x = drop_bit OMX__SEQNUM_BITS (OMX__SESNUM x)"

definition OMX__SEQNUM_INCREASE_BY :: "omx__seqnum_t \<Rightarrow> omx__seqnum_t \<Rightarrow> omx__seqnum_t" where
  "OMX__SEQNUM_INCREASE_BY old n = OMX__SESNUM old OR OMX__SEQNUM (old + n)"

definition OMX__SEQNUM_INCREASE :: "omx__seqnum_t \<Rightarrow> omx__seqnum_t" where
  "OMX__SEQNUM_INCREASE x = OMX__SEQNUM_INCREASE_BY x 1"

definition OMX__SEQNUM_RESET :: "omx__seqnum_t \<Rightarrow> omx__seqnum_t" where
  "OMX__SEQNUM_RESET old = OMX__SESNUM old OR OMX__SEQNUM 1"

definition OMX__EARLY_PACKET_OFFSET_MAX :: omx__seqnum_t where
  "OMX__EARLY_PACKET_OFFSET_MAX = 0xff"

definition OMX__THROTTLING_OFFSET_MAX :: omx__seqnum_t where
  "OMX__THROTTLING_OFFSET_MAX = OMX__SEQNUM_MASK div 2"

subsection \<open>Reading the macros\<close>

lemma OMX__SEQNUM_take_bit: "OMX__SEQNUM x = take_bit 14 x"
  by (simp add: OMX__SEQNUM_def OMX__SEQNUM_MASK_def OMX__SEQNUM_BITS_def take_bit_eq_mask
      mask_eq_exp_minus_1 push_bit_eq_mult)

lemma OMX__SESNUM_MASK_eq: "OMX__SESNUM_MASK = NOT (mask 14)"
  by (simp add: OMX__SESNUM_MASK_def OMX__SESNUM_BITS_def OMX__SEQNUM_BITS_def push_bit_eq_mult
      mask_eq_exp_minus_1)

lemma OMX__THROTTLING_OFFSET_MAX_eq: "OMX__THROTTLING_OFFSET_MAX = 8191"
  by (simp add: OMX__THROTTLING_OFFSET_MAX_def OMX__SEQNUM_MASK_def OMX__SEQNUM_BITS_def
      push_bit_eq_mult)

lemma bit_OMX__SEQNUM: "bit (OMX__SEQNUM x) n \<longleftrightarrow> n < 14 \<and> bit x n"
  by (simp add: OMX__SEQNUM_take_bit bit_take_bit_iff)

lemma bit_OMX__SESNUM: "bit (OMX__SESNUM x) n \<longleftrightarrow> 14 \<le> n \<and> bit x n"
  by (auto simp: OMX__SESNUM_def OMX__SESNUM_MASK_eq bit_and_iff bit_not_iff bit_mask_iff
      dest: bit_imp_le_length)

lemma uint_take_bit_14: "uint (take_bit 14 (x :: omx__seqnum_t)) = uint x mod 2 ^ 14"
  by (simp only: unsigned_take_bit_eq take_bit_eq_mod [of 14 "uint x"])

lemma uint_OMX__SEQNUM: "uint (OMX__SEQNUM x) = uint x mod 2 ^ 14"
  by (simp only: OMX__SEQNUM_take_bit uint_take_bit_14)

lemma unat_OMX__SEQNUM: "unat (OMX__SEQNUM x) = unat x mod 2 ^ 14"
  by (simp only: OMX__SEQNUM_take_bit unsigned_take_bit_eq take_bit_eq_mod [of 14 "unat x"])

lemma unat_OMX__SEQNUM_less: "unat (OMX__SEQNUM x) < 2 ^ 14"
  by (simp add: unat_OMX__SEQNUM)

lemma OMX__SEQNUM_idem [simp]: "OMX__SEQNUM (OMX__SEQNUM x) = OMX__SEQNUM x"
  by (simp add: OMX__SEQNUM_take_bit)

subsection \<open>Circular distance\<close>

text \<open>
  \<open>seq_dist a b\<close> is the number of increments from \<open>b\<close> to \<open>a\<close> within the fourteen bits. It is
  the value the C code gets from \<open>OMX__SEQNUM (a - b)\<close>, wrap-around included.
\<close>

definition seq_dist :: "omx__seqnum_t \<Rightarrow> omx__seqnum_t \<Rightarrow> nat" where
  "seq_dist a b = unat (OMX__SEQNUM (a - b))"

lemma mod_16_14: "(x :: int) mod 2 ^ 16 mod 2 ^ 14 = x mod 2 ^ 14"
  by (rule mod_mod_cancel) (simp add: dvd_def)

lemma int_seq_dist: "int (seq_dist a b) = (uint a - uint b) mod 2 ^ 14"
proof -
  have "uint (a - b) = (uint a - uint b) mod 2 ^ 16"
    by (simp add: uint_word_ariths(2))
  then have "uint (OMX__SEQNUM (a - b)) = (uint a - uint b) mod 2 ^ 14"
    by (simp only: uint_OMX__SEQNUM mod_16_14)
  then show ?thesis
    by (simp add: seq_dist_def)
qed

lemma seq_dist_less: "seq_dist a b < 2 ^ 14"
  by (simp add: seq_dist_def unat_OMX__SEQNUM)

lemma seq_dist_self [simp]: "seq_dist a a = 0"
  by (simp add: seq_dist_def OMX__SEQNUM_take_bit)

lemma seq_dist_trans: "seq_dist a c = (seq_dist a b + seq_dist b c) mod 2 ^ 14"
proof -
  have "int (seq_dist a c) = ((uint a - uint b) + (uint b - uint c)) mod 2 ^ 14"
    by (simp add: int_seq_dist)
  also have "\<dots> = (int (seq_dist a b) + int (seq_dist b c)) mod 2 ^ 14"
    by (simp only: int_seq_dist mod_add_eq)
  also have "\<dots> = int ((seq_dist a b + seq_dist b c) mod 2 ^ 14)"
    by (simp add: of_nat_mod)
  finally show ?thesis by (simp only: of_nat_eq_iff)
qed

lemma uint_INCREASE_BY_mod:
  "uint (OMX__SEQNUM_INCREASE_BY a n) mod 2 ^ 14 = (uint a + uint n) mod 2 ^ 14"
proof -
  have "take_bit 14 (OMX__SEQNUM_INCREASE_BY a n) = take_bit 14 (a + n)"
    by (rule bit_word_eqI) (auto simp: OMX__SEQNUM_INCREASE_BY_def bit_take_bit_iff bit_or_iff
        bit_OMX__SEQNUM bit_OMX__SESNUM)
  then have "uint (OMX__SEQNUM_INCREASE_BY a n) mod 2 ^ 14 = uint (a + n) mod 2 ^ 14"
    by (metis uint_take_bit_14)
  moreover have "uint (a + n) = (uint a + uint n) mod 2 ^ 16"
    by (simp add: uint_word_ariths(1))
  ultimately show ?thesis by (simp only: mod_16_14)
qed

lemma seq_dist_INCREASE_BY:
  "seq_dist (OMX__SEQNUM_INCREASE_BY a n) b = (seq_dist a b + unat n) mod 2 ^ 14"
proof -
  have "int (seq_dist (OMX__SEQNUM_INCREASE_BY a n) b)
      = (uint (OMX__SEQNUM_INCREASE_BY a n) - uint b) mod 2 ^ 14"
    by (rule int_seq_dist)
  also have "\<dots> = ((uint a + uint n) - uint b) mod 2 ^ 14"
    by (metis mod_diff_left_eq uint_INCREASE_BY_mod)
  also have "\<dots> = ((uint a - uint b) mod 2 ^ 14 + uint n) mod 2 ^ 14"
    by (simp only: mod_add_left_eq) (simp add: algebra_simps)
  also have "\<dots> = int ((seq_dist a b + unat n) mod 2 ^ 14)"
    by (simp add: int_seq_dist of_nat_mod)
  finally show ?thesis by (simp only: of_nat_eq_iff)
qed

lemma seq_dist_INCREASE:
  "seq_dist (OMX__SEQNUM_INCREASE a) b = (seq_dist a b + 1) mod 2 ^ 14"
  by (simp add: OMX__SEQNUM_INCREASE_def seq_dist_INCREASE_BY)

lemma seq_dist_INCREASE_small:
  "seq_dist a b + 1 < 2 ^ 14 \<Longrightarrow> seq_dist (OMX__SEQNUM_INCREASE a) b = seq_dist a b + 1"
  by (simp add: seq_dist_INCREASE)

lemma seq_dist_INCREASE_right:
  "seq_dist a b \<noteq> 0 \<Longrightarrow> seq_dist a (OMX__SEQNUM_INCREASE b) = seq_dist a b - 1"
proof -
  assume *: "seq_dist a b \<noteq> 0"
  have "seq_dist (OMX__SEQNUM_INCREASE b) b = 1"
    by (simp add: seq_dist_INCREASE)
  then have "seq_dist a b = (seq_dist a (OMX__SEQNUM_INCREASE b) + 1) mod 2 ^ 14"
    using seq_dist_trans [of a b "OMX__SEQNUM_INCREASE b"] by simp
  moreover have "seq_dist a (OMX__SEQNUM_INCREASE b) < 2 ^ 14"
    by (rule seq_dist_less)
  ultimately show ?thesis using * by (auto simp: mod_Suc split: if_splits)
qed

lemma SESNUM_INCREASE_BY [simp]: "OMX__SESNUM (OMX__SEQNUM_INCREASE_BY a n) = OMX__SESNUM a"
  by (rule bit_word_eqI) (auto simp: OMX__SEQNUM_INCREASE_BY_def bit_or_iff bit_OMX__SEQNUM
      bit_OMX__SESNUM)

lemma SESNUM_INCREASE [simp]: "OMX__SESNUM (OMX__SEQNUM_INCREASE a) = OMX__SESNUM a"
  by (simp add: OMX__SEQNUM_INCREASE_def)

lemma SESNUM_RESET [simp]: "OMX__SESNUM (OMX__SEQNUM_RESET a) = OMX__SESNUM a"
  by (rule bit_word_eqI) (auto simp: OMX__SEQNUM_RESET_def bit_or_iff bit_OMX__SEQNUM
      bit_OMX__SESNUM)

lemma SEQNUM_RESET [simp]: "OMX__SEQNUM (OMX__SEQNUM_RESET a) = 1"
proof -
  have "OMX__SEQNUM (OMX__SEQNUM_RESET a) = OMX__SEQNUM 1"
    by (rule bit_word_eqI) (auto simp: OMX__SEQNUM_RESET_def bit_or_iff bit_OMX__SEQNUM
        bit_OMX__SESNUM)
  then show ?thesis by (simp add: OMX__SEQNUM_take_bit)
qed

text \<open>A number is determined by its session and its place in the session.\<close>

lemma SESNUM_OR_SEQNUM: "OMX__SESNUM a OR OMX__SEQNUM a = a"
  by (rule bit_word_eqI) (auto simp: bit_or_iff bit_OMX__SEQNUM bit_OMX__SESNUM
      dest: bit_imp_le_length)

lemma SESNUM_XOR_eq_0: "OMX__SESNUM (a XOR b) = 0 \<longleftrightarrow> OMX__SESNUM a = OMX__SESNUM b"
  by (auto simp: bit_eq_iff bit_OMX__SESNUM bit_xor_iff)

lemma seq_dist_0_iff: "seq_dist a b = 0 \<longleftrightarrow> OMX__SEQNUM a = OMX__SEQNUM b"
proof -
  have "seq_dist a b = 0 \<longleftrightarrow> uint a mod 2 ^ 14 = uint b mod 2 ^ 14"
    using int_seq_dist [of a b] by (metis mod_eq_dvd_iff dvd_imp_mod_0 mod_0_imp_dvd of_nat_0
        of_nat_eq_0_iff)
  also have "\<dots> \<longleftrightarrow> uint (OMX__SEQNUM a) = uint (OMX__SEQNUM b)"
    by (simp only: uint_OMX__SEQNUM)
  finally show ?thesis by (simp only: word_uint_eq_iff)
qed

lemma same_session_dist_0: "OMX__SESNUM a = OMX__SESNUM b \<Longrightarrow> seq_dist a b = 0 \<Longrightarrow> a = b"
  by (metis SESNUM_OR_SEQNUM seq_dist_0_iff)

lemma SEQNUM_diff_less_iff: "OMX__SEQNUM (a - b) < OMX__SEQNUM (c - d) \<longleftrightarrow> seq_dist a b < seq_dist c d"
  by (simp add: seq_dist_def word_less_nat_alt)

lemma SEQNUM_diff_le_iff: "OMX__SEQNUM (a - b) \<le> OMX__SEQNUM (c - d) \<longleftrightarrow> seq_dist a b \<le> seq_dist c d"
  by (simp add: seq_dist_def word_le_nat_alt)

lemma SEQNUM_diff_eq_iff: "OMX__SEQNUM (a - b) = OMX__SEQNUM (c - d) \<longleftrightarrow> seq_dist a b = seq_dist c d"
  by (auto simp: seq_dist_def word_eq_iff_unsigned)

lemma SEQNUM_diff_eq_0_iff: "OMX__SEQNUM (a - b) = 0 \<longleftrightarrow> seq_dist a b = 0"
  by (simp add: seq_dist_def unat_eq_0)

lemma THROTTLING_le_iff:
  "OMX__THROTTLING_OFFSET_MAX \<le> OMX__SEQNUM (a - b) \<longleftrightarrow> 8191 \<le> seq_dist a b"
  by (simp add: OMX__THROTTLING_OFFSET_MAX_eq seq_dist_def word_le_nat_alt)

text \<open>The rewrite rules that turn the code's comparisons into facts on natural numbers.\<close>

lemmas seqnum_cmp = SEQNUM_diff_less_iff SEQNUM_diff_le_iff SEQNUM_diff_eq_iff
  SEQNUM_diff_eq_0_iff THROTTLING_le_iff SESNUM_XOR_eq_0

lemma seq_dist_funpow: "seq_dist ((OMX__SEQNUM_INCREASE ^^ n) x) x = n mod 2 ^ 14"
  by (induction n) (simp_all add: seq_dist_INCREASE mod_Suc_eq)

lemma SESNUM_funpow: "OMX__SESNUM ((OMX__SEQNUM_INCREASE ^^ n) x) = OMX__SESNUM x"
  by (induction n) simp_all

text \<open>
  C30: the number of the message sent \<open>n\<close> messages after number \<open>x\<close> is in the same session, its
  distance from \<open>x\<close>, as the code computes it, is \<open>n\<close> modulo the size of the sequence space, and the
  numbers come back to \<open>x\<close> after exactly the whole space: 2 ^ 14 messages of one session have
  distinct numbers.
\<close>

theorem seqnum_increase_cycle:
  "OMX__SESNUM ((OMX__SEQNUM_INCREASE ^^ n) x) = OMX__SESNUM x
   \<and> unat (OMX__SEQNUM ((OMX__SEQNUM_INCREASE ^^ n) x - x)) = n mod 2 ^ 14
   \<and> ((OMX__SEQNUM_INCREASE ^^ n) x = x \<longleftrightarrow> 2 ^ 14 dvd n)"
proof -
  have "(OMX__SEQNUM_INCREASE ^^ n) x = x \<longleftrightarrow> seq_dist ((OMX__SEQNUM_INCREASE ^^ n) x) x = 0"
    by (metis SESNUM_funpow same_session_dist_0 seq_dist_self)
  then show ?thesis
    using seq_dist_funpow [of n x] by (simp add: SESNUM_funpow mod_eq_0_iff_dvd flip: seq_dist_def)
qed

end
