(* ===== verification/Driver_Interface.thy ===== *)
theory Driver_Interface
  imports Segments Seqnum
begin

text \<open>
  What the library sees of the driver: the return codes (\<open>common/open-mx.h\<close>,
  \<open>libxen2mx/omx_types.h\<close>), the ioctl parameters (\<open>common/omx_io.h\<close>), the translation of
  \<open>errno\<close> (\<open>libxen2mx/omx_misc.c\<close>), and the environment. The driver is not part of the model: the
  outcome of the \<open>n\<close>-th ioctl and of the \<open>n\<close>-th \<open>malloc\<close> and the peer table are functions the
  state carries and no operation changes, and the state records every ioctl issued.
\<close>

datatype omx_return_t =
    OMX_SUCCESS | OMX_BAD_ERROR | OMX_ALREADY_INITIALIZED | OMX_NOT_INITIALIZED
  | OMX_NO_DEVICE_FILE | OMX_NO_DRIVER | OMX_ACCESS_DENIED | OMX_BOARD_NOT_FOUND | OMX_BAD_ENDPOINT
  | OMX_SEGMENTS_BAD_COUNT | OMX_BAD_REQUEST | OMX_BAD_MATCH_MASK | OMX_NO_RESOURCES | OMX_BUSY
  | OMX_BAD_INFO_KEY | OMX_BAD_INFO_ADDRESS | OMX_ENDPOINT_PARAMS_BAD_LIST
  | OMX_ENDPOINT_PARAM_BAD_KEY | OMX_ENDPOINT_PARAM_BAD_VALUE | OMX_PEER_NOT_FOUND | OMX_TIMEOUT
  | OMX_REMOTE_ENDPOINT_BAD_ID | OMX_REMOTE_ENDPOINT_CLOSED | OMX_REMOTE_ENDPOINT_BAD_CONNECTION_KEY
  | OMX_BAD_INFO_LENGTH | OMX_NIC_ID_NOT_FOUND | OMX_BAD_KERNEL_ABI | OMX_BAD_LIB_ABI
  | OMX_BAD_MATCHING_FOR_CONTEXT_ID_MASK | OMX_CANCELLED | OMX_REMOTE_RDMA_WINDOW_BAD_ID
  | OMX_REMOTE_ENDPOINT_UNREACHABLE | OMX_REMOTE_ENDPOINT_BAD_SESSION | OMX_MESSAGE_ABORTED
  | OMX_MESSAGE_TRUNCATED | OMX_NOT_SUPPORTED_IN_HANDLER | OMX_NO_SYSTEM_RESOURCES
  | OMX_NOT_IMPLEMENTED | OMX_RETURN_CODE_MAX

text \<open>The codes above \<open>OMX_INTERNAL_RETURN_CODE_MIN\<close>, which never reach the application.\<close>

datatype omx_internal_return =
    OMX_INTERNAL_MISSING_RESOURCES | OMX_INTERNAL_UNEXPECTED_ERRNO | OMX_INTERNAL_MISC_ENODEV
  | OMX_INTERNAL_MISC_EINVAL | OMX_INTERNAL_MISC_EFAULT

datatype ret = Public omx_return_t | Internal omx_internal_return

datatype errno = EINVAL | EACCES | EPERM | EMFILE | ENFILE | ENOMEM | ENODEV | EBADF | ENOENT
  | EBUSY | EFAULT | EOTHER

fun omx__errno_to_return :: "errno \<Rightarrow> ret" where
  "omx__errno_to_return EINVAL = Internal OMX_INTERNAL_MISC_EINVAL"
| "omx__errno_to_return EACCES = Public OMX_ACCESS_DENIED"
| "omx__errno_to_return EPERM = Public OMX_ACCESS_DENIED"
| "omx__errno_to_return EMFILE = Public OMX_NO_SYSTEM_RESOURCES"
| "omx__errno_to_return ENFILE = Public OMX_NO_SYSTEM_RESOURCES"
| "omx__errno_to_return ENOMEM = Public OMX_NO_SYSTEM_RESOURCES"
| "omx__errno_to_return ENODEV = Internal OMX_INTERNAL_MISC_ENODEV"
| "omx__errno_to_return EBADF = Public OMX_BAD_ENDPOINT"
| "omx__errno_to_return ENOENT = Public OMX_NO_DEVICE_FILE"
| "omx__errno_to_return EBUSY = Public OMX_BUSY"
| "omx__errno_to_return EFAULT = Internal OMX_INTERNAL_MISC_EFAULT"
| "omx__errno_to_return EOTHER = Internal OMX_INTERNAL_UNEXPECTED_ERRNO"

text \<open>\<^term>\<open>None\<close>: the code aborts on an errno that the caller did not list.\<close>

definition omx__ioctl_errno_to_return_checked :: "ret list \<Rightarrow> errno \<Rightarrow> ret option" where
  "omx__ioctl_errno_to_return_checked oks e =
     (let r = omx__errno_to_return e in if r \<in> set oks then Some r else None)"

definition omx__check_driver_pinning_error :: "ret \<Rightarrow> unit option" where
  "omx__check_driver_pinning_error r = c_assert (r \<noteq> Internal OMX_INTERNAL_MISC_EFAULT)"

subsection \<open>Parameters of the ioctls\<close>

text \<open>
  The parameters of the message-sending ioctls share their first members (\<open>peer_index\<close> to
  \<open>piggyack\<close>) and hold a union of members after these; the record has them all. The contents of a
  buffer the parameter points to stand in \<open>cm_data\<close>.
\<close>

record omx_cmd_msg =
  cm_peer_index :: u16
  cm_dest_endpoint :: u8
  cm_shared :: bool
  cm_session_id :: u32
  cm_seqnum :: omx__seqnum_t
  cm_piggyack :: omx__seqnum_t
  cm_match_info :: u64
  cm_length :: nat
  cm_data :: bytes
  cm_segments :: "omx_cmd_user_segment list"
  cm_sendq_offset :: nat
  cm_frag_length :: nat
  cm_frag_seqnum :: nat
  cm_frag_pipeline :: nat
  cm_rdma_id :: nat
  cm_rdma_seqnum :: u8

record omx_cmd_pull =
  pl_peer_index :: u16
  pl_dest_endpoint :: u8
  pl_shared :: bool
  pl_session_id :: u32
  pl_length :: nat
  pl_resend_timeout_jiffies :: nat
  pl_puller_rdma_id :: nat
  pl_pulled_rdma_offset :: nat
  pl_pulled_rdma_id :: nat
  pl_pulled_rdma_seqnum :: u8
  pl_lib_cookie :: nat

record omx_cmd_send_liback =
  la_peer_index :: u16
  la_dest_endpoint :: u8
  la_shared :: bool
  la_session_id :: u32
  la_acknum :: u32
  la_lib_seqnum :: omx__seqnum_t
  la_send_seq :: omx__seqnum_t
  la_resent :: u8

record omx_cmd_send_connect_request =
  cq_peer_index :: u16
  cq_dest_endpoint :: u8
  cq_shared_disabled :: bool
  cq_seqnum :: omx__seqnum_t
  cq_src_session_id :: u32
  cq_app_key :: u32
  cq_target_recv_seqnum_start :: omx__seqnum_t
  cq_connect_seqnum :: u8

record omx_cmd_send_connect_reply =
  cr_peer_index :: u16
  cr_dest_endpoint :: u8
  cr_shared_disabled :: bool
  cr_seqnum :: omx__seqnum_t
  cr_src_session_id :: u32
  cr_target_session_id :: u32
  cr_target_recv_seqnum_start :: omx__seqnum_t
  cr_connect_seqnum :: u8
  cr_connect_status_code :: u8

datatype ioctl_cmd =
    OMX_CMD_XEN_SEND_TINY omx_cmd_msg
  | OMX_CMD_XEN_SEND_SMALL omx_cmd_msg
  | OMX_CMD_XEN_SEND_MEDIUMVA omx_cmd_msg
  | OMX_CMD_XEN_SEND_MEDIUMSQ_FRAG omx_cmd_msg
  | OMX_CMD_XEN_SEND_RNDV omx_cmd_msg
  | OMX_CMD_XEN_SEND_NOTIFY omx_cmd_msg
  | OMX_CMD_XEN_PULL omx_cmd_pull
  | OMX_CMD_XEN_SEND_LIBACK omx_cmd_send_liback
  | OMX_CMD_XEN_SEND_CONNECT_REQUEST omx_cmd_send_connect_request
  | OMX_CMD_XEN_SEND_CONNECT_REPLY omx_cmd_send_connect_reply
  | OMX_CMD_XEN_CREATE_USER_REGION nat "omx_cmd_user_segment list"
  | OMX_CMD_XEN_DESTROY_USER_REGION nat
  | OMX_CMD_RELEASE_EXP_SLOTS
  | OMX_CMD_RELEASE_UNEXP_SLOTS

subsection \<open>The environment\<close>

record driver =
  d_ioctl :: "nat \<Rightarrow> ioctl_cmd \<Rightarrow> errno option"
  d_log :: "ioctl_cmd list"
  d_malloc :: "nat \<Rightarrow> address option"
  d_mallocs :: nat
  d_peer_addr :: "u16 \<Rightarrow> u64 option"
  d_peer_index :: "u64 \<Rightarrow> u16 option"

definition ioctl :: "ioctl_cmd \<Rightarrow> driver \<Rightarrow> errno option \<times> driver" where
  "ioctl c d = (d_ioctl d (length (d_log d)) c, d\<lparr>d_log := d_log d @ [c]\<rparr>)"

text \<open>\<open>malloc\<close> gives the address of a new buffer, or \<open>NULL\<close>.\<close>

definition malloc :: "driver \<Rightarrow> address option \<times> driver" where
  "malloc d = (d_malloc d (d_mallocs d), d\<lparr>d_mallocs := Suc (d_mallocs d)\<rparr>)"

text \<open>A driver that accepts everything, for concrete runs.\<close>

definition good_driver :: driver where
  "good_driver = \<lparr>d_ioctl = (\<lambda>_ _. None), d_log = [], d_malloc = (\<lambda>n. Some (2 ^ 20 * (n + 1))), d_mallocs = 0,
     d_peer_addr = (\<lambda>i. Some (ucast i)), d_peer_index = (\<lambda>a. Some (ucast a))\<rparr>"

lemma ioctl_good [simp]: "d_ioctl d = (\<lambda>_ _. None) \<Longrightarrow> fst (ioctl c d) = None"
  by (simp add: ioctl_def)

lemma checked_Some_iff:
  "omx__ioctl_errno_to_return_checked oks e = Some r \<longleftrightarrow> r = omx__errno_to_return e \<and> r \<in> set oks"
  by (auto simp: omx__ioctl_errno_to_return_checked_def Let_def)

lemma checked_Nil [simp]: "omx__ioctl_errno_to_return_checked [] e = None"
  by (simp add: omx__ioctl_errno_to_return_checked_def Let_def)

end
