(* ===== verification/Region_Map.thy ===== *)
theory Region_Map
  imports Free_List Driver_Interface
begin

text \<open>
  Registered memory regions of large messages (\<open>libxen2mx/omx_large.c\<close>): the array of regions with
  its free list, the registration with the driver, and the registration cache that keeps unused
  contiguous regions for reuse. \<open>reg_list\<close>, \<open>reg_unused_list\<close> and \<open>reg_vect_list\<close> hold region
  numbers; \<open>regcache\<close> and \<open>parallel_regcache\<close> are the settings of the library. A \<open>reserver\<close> is the
  request a region is kept for.
\<close>

record omx__large_region =
  use_count :: int
  rg_id :: nat
  last_seqnum :: u8
  rg_segs :: omx__req_segs
  reserver :: "nat option"

record omx__large_region_slot =
  rs_next_free :: int
  region :: omx__large_region

record omx__large_region_map =
  rm_first_free :: int
  rm_nr_free :: int
  rm_array :: "omx__large_region_slot list"

record large_state =
  large_region_map :: omx__large_region_map
  reg_list :: "nat list"
  reg_unused_list :: "nat list"
  reg_vect_list :: "nat list"
  large_sends_avail_nr :: int

definition OMX_USER_REGION_MAX :: nat where
  "OMX_USER_REGION_MAX = 256"

text \<open>The members the code does not initialise get some value.\<close>

definition region_init_slot :: "nat \<Rightarrow> nat \<Rightarrow> omx__large_region_slot" where
  "region_init_slot nr i =
     \<lparr>rs_next_free = (if Suc i = nr then -1 else int (Suc i)),
      region = \<lparr>use_count = 0, rg_id = i, last_seqnum = 23,
                rg_segs = omx_cache_single_segment 0 0, reserver = None\<rparr>\<rparr>"

definition omx__endpoint_large_region_map_init :: "nat \<Rightarrow> large_state" where
  "omx__endpoint_large_region_map_init nr =
     \<lparr>large_region_map = \<lparr>rm_first_free = 0, rm_nr_free = int nr,
        rm_array = map (region_init_slot nr) [0..<nr]\<rparr>,
      reg_list = [], reg_unused_list = [], reg_vect_list = [],
      large_sends_avail_nr = int (nr div 2)\<rparr>"

definition the_region :: "large_state \<Rightarrow> nat \<Rightarrow> omx__large_region" where
  "the_region s i = region (rm_array (large_region_map s) ! i)"

definition map_upd_region ::
  "nat \<Rightarrow> (omx__large_region \<Rightarrow> omx__large_region) \<Rightarrow> omx__large_region_map \<Rightarrow> omx__large_region_map"
where
  "map_upd_region i f m =
     m\<lparr>rm_array := (rm_array m)[i := (rm_array m ! i)\<lparr>region := f (region (rm_array m ! i))\<rparr>]\<rparr>"

definition upd_region ::
  "nat \<Rightarrow> (omx__large_region \<Rightarrow> omx__large_region) \<Rightarrow> large_state \<Rightarrow> large_state"
where
  "upd_region i f s = s\<lparr>large_region_map := map_upd_region i f (large_region_map s)\<rparr>"

subsection \<open>The free list\<close>

text \<open>\<open>Some None\<close> is the code's \<open>OMX_INTERNAL_MISSING_RESOURCES\<close>.\<close>

definition omx__endpoint_large_region_try_alloc ::
  "omx__large_region_map \<Rightarrow> (nat \<times> omx__large_region_map) option option"
where
  "omx__endpoint_large_region_try_alloc m =
     (let index = rm_first_free m
      in if index = -1 then Some None
         else if index < 0 \<or> length (rm_array m) \<le> nat index then None
         else let i = nat index; nf = rs_next_free (rm_array m ! i)
              in Some (Some (i, (map_upd_region i (\<lambda>r. r\<lparr>use_count := 0\<rparr>) m)
                                  \<lparr>rm_first_free := nf, rm_nr_free := rm_nr_free m - 1\<rparr>)))"

definition omx__endpoint_large_region_free ::
  "nat \<Rightarrow> omx__large_region_map \<Rightarrow> omx__large_region_map"
where
  "omx__endpoint_large_region_free r m =
     (let index = rg_id (region (rm_array m ! r))
      in m\<lparr>rm_array := (rm_array m)[index := (rm_array m ! index)\<lparr>rs_next_free := rm_first_free m\<rparr>],
           rm_first_free := int index, rm_nr_free := rm_nr_free m + 1\<rparr>)"

subsection \<open>Registration with the driver\<close>

definition omx__register_region :: "nat \<Rightarrow> large_state \<Rightarrow> driver \<Rightarrow> (ret \<times> driver) option" where
  "omx__register_region i s d =
     (let rg = the_region s i;
          (err, d') = ioctl (OMX_CMD_XEN_CREATE_USER_REGION (rg_id rg) (segs (rg_segs rg))) d
      in case err of
           None \<Rightarrow> Some (Public OMX_SUCCESS, d')
         | Some e \<Rightarrow> do {
             r \<leftarrow> omx__ioctl_errno_to_return_checked
                   [Public OMX_NO_SYSTEM_RESOURCES, Internal OMX_INTERNAL_MISC_EFAULT] e;
             omx__check_driver_pinning_error r;
             Some (Internal OMX_INTERNAL_MISSING_RESOURCES, d')
           })"

definition omx__deregister_region :: "nat \<Rightarrow> large_state \<Rightarrow> driver \<Rightarrow> driver option" where
  "omx__deregister_region i s d =
     (let (err, d') = ioctl (OMX_CMD_XEN_DESTROY_USER_REGION (rg_id (the_region s i))) d
      in case err of None \<Rightarrow> Some d'
         | Some e \<Rightarrow> do { r \<leftarrow> omx__ioctl_errno_to_return_checked [] e; Some d' })"

text \<open>\<open>list_del (&region->reg_elt)\<close> unlinks the region from the list it is on.\<close>

definition omx__destroy_region :: "nat \<Rightarrow> large_state \<times> driver \<Rightarrow> (large_state \<times> driver) option" where
  "omx__destroy_region i = (\<lambda>(s, d). do {
     d' \<leftarrow> omx__deregister_region i s d;
     let s' = s\<lparr>reg_list := removeAll i (reg_list s), reg_vect_list := removeAll i (reg_vect_list s)\<rparr>;
     Some (s'\<lparr>large_region_map := omx__endpoint_large_region_free i (large_region_map s')\<rparr>, d')
   })"

subsection \<open>The registration cache\<close>

definition omx__endpoint_large_region_alloc ::
  "bool \<Rightarrow> large_state \<times> driver \<Rightarrow> (nat option \<times> large_state \<times> driver) option"
where
  "omx__endpoint_large_region_alloc regcache = (\<lambda>(s, d). do {
     a \<leftarrow> omx__endpoint_large_region_try_alloc (large_region_map s);
     (case a of
        Some (i, m) \<Rightarrow> Some (Some i, s\<lparr>large_region_map := m\<rparr>, d)
      | None \<Rightarrow>
          (if regcache \<and> reg_unused_list s \<noteq> [] then do {
             let i = hd (reg_unused_list s);
             (s2, d2) \<leftarrow> omx__destroy_region i (s\<lparr>reg_unused_list := removeAll i (reg_unused_list s)\<rparr>, d);
             b \<leftarrow> omx__endpoint_large_region_try_alloc (large_region_map s2);
             (case b of
                Some (j, m) \<Rightarrow> Some (Some j, s2\<lparr>large_region_map := m\<rparr>, d2)
              | None \<Rightarrow> Some (None, s2, d2))
           } else Some (None, s, d)))
   })"

definition omx__create_region ::
  "bool \<Rightarrow> omx__req_segs \<Rightarrow> large_state \<times> driver \<Rightarrow> (nat option \<times> large_state \<times> driver) option"
where
  "omx__create_region regcache reqsegs sd = do {
     (a, s, d) \<leftarrow> omx__endpoint_large_region_alloc regcache sd;
     (case a of
        None \<Rightarrow> Some (None, s, d)
      | Some i \<Rightarrow> do {
          let s1 = upd_region i (\<lambda>r. r\<lparr>rg_segs := omx_clone_segments reqsegs\<rparr>) s;
          (r, d1) \<leftarrow> omx__register_region i s1 d;
          (if r \<noteq> Public OMX_SUCCESS
           then Some (None, s1\<lparr>large_region_map := omx__endpoint_large_region_free i (large_region_map s1)\<rparr>, d1)
           else Some (Some i, upd_region i (\<lambda>r. r\<lparr>reserver := None\<rparr>) s1, d1))
        })
   }"

definition reserve :: "nat option \<Rightarrow> nat \<Rightarrow> large_state \<Rightarrow> large_state" where
  "reserve resv i s = (case resv of None \<Rightarrow> s | Some q \<Rightarrow> upd_region i (\<lambda>r. r\<lparr>reserver := Some q\<rparr>) s)"

text \<open>The condition under which a cached region is used again.\<close>

definition regcache_matches :: "bool \<Rightarrow> nat option \<Rightarrow> omx_cmd_user_segment \<Rightarrow> omx__large_region \<Rightarrow> bool" where
  "regcache_matches parallel resv seg r \<longleftrightarrow>
     (resv = None \<or> reserver r = None) \<and> (parallel \<or> use_count r = 0)
     \<and> vaddr (single (rg_segs r)) = vaddr seg \<and> seg_len (single (rg_segs r)) \<ge> seg_len seg"

definition omx__get_contigous_region ::
  "bool \<Rightarrow> bool \<Rightarrow> omx__req_segs \<Rightarrow> nat option \<Rightarrow> large_state \<times> driver
    \<Rightarrow> (nat option \<times> large_state \<times> driver) option"
where
  "omx__get_contigous_region regcache parallel reqsegs resv = (\<lambda>(s, d).
     case (if regcache
           then find (\<lambda>i. regcache_matches parallel resv (single reqsegs) (the_region s i)) (reg_list s)
           else None) of
       Some i \<Rightarrow>
         (let s1 = (if use_count (the_region s i) = 0
                    then s\<lparr>reg_unused_list := removeAll i (reg_unused_list s)\<rparr> else s);
              s2 = upd_region i (\<lambda>r. r\<lparr>use_count := use_count r + 1\<rparr>) s1
          in Some (Some i, reserve resv i s2, d))
     | None \<Rightarrow> do {
         (a, s1, d1) \<leftarrow> omx__create_region regcache reqsegs (s, d);
         (case a of
            None \<Rightarrow> Some (None, s1, d1)
          | Some i \<Rightarrow>
              (let s2 = s1\<lparr>reg_list := reg_list s1 @ [i]\<rparr>;
                   s3 = upd_region i (\<lambda>r. r\<lparr>use_count := use_count r + 1\<rparr>) s2
               in Some (Some i, reserve resv i s3, d1)))
       })"

definition omx__get_vect_region ::
  "bool \<Rightarrow> omx__req_segs \<Rightarrow> nat option \<Rightarrow> large_state \<times> driver
    \<Rightarrow> (nat option \<times> large_state \<times> driver) option"
where
  "omx__get_vect_region regcache reqsegs resv sd = do {
     (a, s1, d1) \<leftarrow> omx__create_region regcache reqsegs sd;
     (case a of
        None \<Rightarrow> Some (None, s1, d1)
      | Some i \<Rightarrow>
          (let s2 = s1\<lparr>reg_vect_list := reg_vect_list s1 @ [i]\<rparr>;
               s3 = upd_region i (\<lambda>r. r\<lparr>use_count := use_count r + 1\<rparr>) s2
           in Some (Some i, reserve resv i s3, d1)))
   }"

text \<open>The region, or \<^term>\<open>None\<close> for missing resources.\<close>

definition omx__get_region ::
  "bool \<Rightarrow> bool \<Rightarrow> omx__req_segs \<Rightarrow> nat option \<Rightarrow> large_state \<times> driver
    \<Rightarrow> (nat option \<times> large_state \<times> driver) option"
where
  "omx__get_region regcache parallel reqsegs resv sd =
     (if nseg reqsegs > 1 then omx__get_vect_region regcache reqsegs resv sd
      else omx__get_contigous_region regcache parallel reqsegs resv sd)"

definition omx__put_region ::
  "bool \<Rightarrow> nat \<Rightarrow> nat option \<Rightarrow> large_state \<times> driver \<Rightarrow> (large_state \<times> driver) option"
where
  "omx__put_region regcache i resv = (\<lambda>(s, d).
     let s1 = upd_region i (\<lambda>r. r\<lparr>use_count := use_count r - 1\<rparr>) s;
         s2 = (if resv = None then s1 else upd_region i (\<lambda>r. r\<lparr>reserver := None\<rparr>) s1)
     in if regcache \<and> nseg (rg_segs (the_region s2 i)) = 1
        then Some (if use_count (the_region s2 i) = 0
                   then s2\<lparr>reg_unused_list := reg_unused_list s2 @ [i]\<rparr> else s2, d)
        else omx__destroy_region i (s2, d))"

subsection \<open>Invalidation\<close>

definition omx__segments_intersect :: "nat \<Rightarrow> nat \<Rightarrow> nat \<Rightarrow> nat \<Rightarrow> bool" where
  "omx__segments_intersect begin1 end1 begin2 end2 =
     (let min_end = (if end1 > end2 then end2 else end1);
          max_begin = (if begin1 > begin2 then begin1 else begin2)
      in min_end > max_begin)"

definition regcache_clean1 ::
  "nat \<Rightarrow> nat \<Rightarrow> nat \<Rightarrow> large_state \<times> driver \<Rightarrow> (large_state \<times> driver) option"
where
  "regcache_clean1 b e i = (\<lambda>(s, d).
     let r = the_region s i;
         reg_begin = vaddr (single (rg_segs r));
         reg_end = reg_begin + seg_len (single (rg_segs r))
     in if omx__segments_intersect b e reg_begin reg_end
        then do {
          c_assert (use_count r = 0);
          omx__destroy_region i (s\<lparr>reg_unused_list := removeAll i (reg_unused_list s)\<rparr>, d)
        }
        else Some (s, d))"

definition omx__endpoint_regcache_clean ::
  "nat \<Rightarrow> nat \<Rightarrow> large_state \<times> driver \<Rightarrow> (large_state \<times> driver) option"
where
  "omx__endpoint_regcache_clean b e sd = foreach (regcache_clean1 b e) (reg_list (fst sd)) sd"

text \<open>The library calls the cleaning for every endpoint; this is its effect on one.\<close>

definition omx__regcache_clean ::
  "bool \<Rightarrow> nat \<Rightarrow> nat \<Rightarrow> large_state \<times> driver \<Rightarrow> (large_state \<times> driver) option"
where
  "omx__regcache_clean regcache ptr sz sd =
     (if \<not> regcache then Some sd else omx__endpoint_regcache_clean ptr (ptr + sz) sd)"

definition omx__endpoint_large_region_map_exit ::
  "large_state \<times> driver \<Rightarrow> (large_state \<times> driver) option"
where
  "omx__endpoint_large_region_map_exit = (\<lambda>(s, d). do {
     (s1, d1) \<leftarrow> foreach (\<lambda>i (s, d).
         omx__destroy_region i
           (if use_count (the_region s i) = 0
            then s\<lparr>reg_unused_list := removeAll i (reg_unused_list s)\<rparr> else s, d)) (reg_list s) (s, d);
     foreach omx__destroy_region (reg_vect_list s1) (s1, d1)
   })"

subsection \<open>Reading the updates\<close>

abbreviation nregions :: "large_state \<Rightarrow> nat" where
  "nregions s \<equiv> length (rm_array (large_region_map s))"

lemma upd_region_frame [simp]:
  "reg_list (upd_region i f s) = reg_list s"
  "reg_unused_list (upd_region i f s) = reg_unused_list s"
  "reg_vect_list (upd_region i f s) = reg_vect_list s"
  "large_sends_avail_nr (upd_region i f s) = large_sends_avail_nr s"
  "nregions (upd_region i f s) = nregions s"
  by (simp_all add: upd_region_def map_upd_region_def)

lemma the_region_upd [simp]:
  "i < nregions s \<Longrightarrow> the_region (upd_region i f s) j = (if j = i then f (the_region s i) else the_region s j)"
  by (simp add: upd_region_def map_upd_region_def the_region_def nth_list_update)

lemma the_region_lists [simp]:
  "the_region (s\<lparr>reg_list := l1\<rparr>) i = the_region s i"
  "the_region (s\<lparr>reg_unused_list := l2\<rparr>) i = the_region s i"
  "the_region (s\<lparr>reg_vect_list := l3\<rparr>) i = the_region s i"
  "the_region (s\<lparr>large_sends_avail_nr := n\<rparr>) i = the_region s i"
  by (simp_all add: the_region_def)

lemma upd_region_lists [simp]:
  "large_region_map (upd_region i f s) = map_upd_region i f (large_region_map s)"
  by (simp add: upd_region_def)

subsection \<open>Well-formed region maps\<close>

definition region_free_list :: "nat list \<Rightarrow> omx__large_region_map \<Rightarrow> bool" where
  "region_free_list xs m \<longleftrightarrow>
     linked (\<lambda>x. rs_next_free (rm_array m ! x)) (rm_first_free m) xs \<and> distinct xs
     \<and> (\<forall>x \<in> set xs. x < length (rm_array m)) \<and> rm_nr_free m = int (length xs)
     \<and> (\<forall>i < length (rm_array m). rg_id (region (rm_array m ! i)) = i)"

lemma region_free_list_upd:
  assumes "\<And>r. rg_id (f r) = rg_id r" and "i < length (rm_array m)"
  shows "region_free_list xs (map_upd_region i f m) = region_free_list xs m"
proof -
  have "linked (\<lambda>x. rs_next_free (rm_array (map_upd_region i f m) ! x)) k xs
      = linked (\<lambda>x. rs_next_free (rm_array m ! x)) k xs" for k
    by (rule linked_cong) (use assms(2) in \<open>auto simp: map_upd_region_def nth_list_update\<close>)
  then show ?thesis using assms
    by (auto simp: region_free_list_def map_upd_region_def nth_list_update)
qed

lemma region_free_list_upd_region:
  "(\<And>r. rg_id (f r) = rg_id r) \<Longrightarrow> i < nregions s \<Longrightarrow>
     region_free_list xs (large_region_map (upd_region i f s)) = region_free_list xs (large_region_map s)"
  by (simp add: region_free_list_upd)

lemma try_alloc_Nil: "region_free_list [] m \<Longrightarrow> omx__endpoint_large_region_try_alloc m = Some None"
  by (simp add: region_free_list_def omx__endpoint_large_region_try_alloc_def)

lemma try_alloc_Cons:
  assumes "region_free_list (x # xs) m"
  shows "\<exists>m'. omx__endpoint_large_region_try_alloc m = Some (Some (x, m')) \<and> region_free_list xs m'
    \<and> length (rm_array m') = length (rm_array m) \<and> x < length (rm_array m)
    \<and> (\<forall>i < length (rm_array m). region (rm_array m' ! i)
         = (if i = x then (region (rm_array m ! i))\<lparr>use_count := 0\<rparr> else region (rm_array m ! i)))"
proof -
  let ?f = "\<lambda>r. r\<lparr>use_count := 0\<rparr>"
  let ?m = "(map_upd_region x ?f m)\<lparr>rm_first_free := rs_next_free (rm_array m ! x), rm_nr_free := rm_nr_free m - 1\<rparr>"
  have x: "x < length (rm_array m)" "rm_first_free m = int x" using assms by (auto simp: region_free_list_def)
  have "linked (\<lambda>y. rs_next_free (rm_array (map_upd_region x ?f m) ! y)) k xs
      = linked (\<lambda>y. rs_next_free (rm_array m ! y)) k xs" for k
    by (rule linked_cong) (use x(1) in \<open>auto simp: map_upd_region_def nth_list_update\<close>)
  then have "region_free_list xs ?m"
    using assms x(1) by (auto simp: region_free_list_def map_upd_region_def nth_list_update)
  moreover have "omx__endpoint_large_region_try_alloc m = Some (Some (x, ?m))"
    using x by (simp add: omx__endpoint_large_region_try_alloc_def Let_def)
  ultimately show ?thesis
    using x(1) by (auto simp: map_upd_region_def nth_list_update)
qed

lemma region_free_spec:
  assumes "region_free_list xs m" and "x < length (rm_array m)" and "x \<notin> set xs"
  shows "region_free_list (x # xs) (omx__endpoint_large_region_free x m)
    \<and> length (rm_array (omx__endpoint_large_region_free x m)) = length (rm_array m)
    \<and> (\<forall>i < length (rm_array m). region (rm_array (omx__endpoint_large_region_free x m) ! i) = region (rm_array m ! i))"
proof -
  have id: "rg_id (region (rm_array m ! x)) = x" using assms by (auto simp: region_free_list_def)
  let ?arr = "(rm_array m)[x := (rm_array m ! x)\<lparr>rs_next_free := rm_first_free m\<rparr>]"
  have "linked (\<lambda>y. rs_next_free (?arr ! y)) k xs = linked (\<lambda>y. rs_next_free (rm_array m ! y)) k xs" for k
    by (rule linked_cong) (use assms(2,3) in \<open>auto simp: nth_list_update\<close>)
  then show ?thesis using assms id
    by (auto simp: omx__endpoint_large_region_free_def Let_def region_free_list_def nth_list_update)
qed

text \<open>The free regions as a set, and the map as a slot allocator.\<close>

definition region_map_inv :: "omx__large_region_map \<Rightarrow> bool" where
  "region_map_inv m \<longleftrightarrow> (\<exists>xs. region_free_list xs m)"

definition region_free_set :: "omx__large_region_map \<Rightarrow> nat set" where
  "region_free_set m = {x. \<exists>xs. region_free_list xs m \<and> x \<in> set xs}"

definition region_alloc1 :: "omx__large_region_map \<Rightarrow> (nat \<times> omx__large_region_map) option" where
  "region_alloc1 m = Option.bind (omx__endpoint_large_region_try_alloc m) id"

lemma region_free_set_eq: "region_free_list xs m \<Longrightarrow> region_free_set m = set xs"
  by (auto simp: region_free_set_def region_free_list_def dest: linked_unique)

interpretation region_pool: slot_pool region_map_inv region_free_set
  "\<lambda>m. {..<length (rm_array m)}" region_alloc1 omx__endpoint_large_region_free
proof (unfold_locales, goal_cases)
  case (1 s)
  then show ?case by simp
next
  case (2 s)
  then show ?case by (auto simp: region_free_set_def region_free_list_def)
next
  case (3 s)
  then obtain xs where xs: "region_free_list xs s" by (auto simp: region_map_inv_def)
  then show ?case
  proof (cases xs)
    case Nil
    with xs show ?thesis using try_alloc_Nil by (simp add: region_alloc1_def region_free_set_eq)
  next
    case (Cons y ys)
    with xs try_alloc_Cons [of y ys s] show ?thesis
      by (auto simp: region_alloc1_def region_free_set_eq [OF xs])
  qed
next
  case (4 s x t)
  then obtain xs where xs: "region_free_list xs s" by (auto simp: region_map_inv_def)
  show ?case
  proof (cases xs)
    case Nil
    with xs 4 try_alloc_Nil show ?thesis by (simp add: region_alloc1_def)
  next
    case (Cons y ys)
    with xs try_alloc_Cons [of y ys s] 4(2) have t: "region_free_list ys t" "x = y"
      "length (rm_array t) = length (rm_array s)"
      by (auto simp: region_alloc1_def)
    moreover have "y \<notin> set ys" using xs Cons by (auto simp: region_free_list_def)
    ultimately show ?thesis
      using region_free_set_eq [OF xs] region_free_set_eq [OF t(1)] Cons
      by (auto simp: region_map_inv_def)
  qed
next
  case (5 s x)
  then obtain xs where xs: "region_free_list xs s" by (auto simp: region_map_inv_def)
  with 5 region_free_spec [OF xs, of x] show ?case
    by (auto simp: region_map_inv_def region_free_set_eq dest: region_free_set_eq)
qed

subsection \<open>The invariant of the cache\<close>

text \<open>
  Every region is free, contiguous and on \<open>reg_list\<close>, vectorial and on \<open>reg_vect_list\<close>, or
  \<open>held\<close> by an operation between taking it and putting it on a list. The unused list holds the
  contiguous regions nobody uses; without the cache there are none.
\<close>

definition region_ok :: "bool \<Rightarrow> nat list \<Rightarrow> nat list \<Rightarrow> large_state \<Rightarrow> bool" where
  "region_ok regcache xs held s \<longleftrightarrow>
     region_free_list xs (large_region_map s)
     \<and> distinct (xs @ reg_list s @ reg_vect_list s @ held)
     \<and> set (xs @ reg_list s @ reg_vect_list s @ held) = {..<nregions s}
     \<and> (\<forall>i \<in> set (reg_list s). nseg (rg_segs (the_region s i)) = 1 \<and> 0 \<le> use_count (the_region s i))
     \<and> (\<forall>i \<in> set (reg_vect_list s). nseg (rg_segs (the_region s i)) \<noteq> 1 \<and> use_count (the_region s i) = 1)
     \<and> distinct (reg_unused_list s)
     \<and> set (reg_unused_list s) = {i \<in> set (reg_list s). use_count (the_region s i) = 0}
     \<and> (\<not> regcache \<longrightarrow> (\<forall>i \<in> set (reg_list s). use_count (the_region s i) = 1))"

definition large_inv :: "bool \<Rightarrow> large_state \<Rightarrow> bool" where
  "large_inv regcache s \<longleftrightarrow> (\<exists>xs. region_ok regcache xs [] s)"

text \<open>The regions in use, by their number: what a region map promises to the requests that hold them.\<close>

definition in_use :: "large_state \<Rightarrow> nat \<Rightarrow> bool" where
  "in_use s i \<longleftrightarrow> i \<in> set (reg_list s) \<union> set (reg_vect_list s) \<and> 0 < use_count (the_region s i)"

lemma in_use_bound: "region_ok rc xs held s \<Longrightarrow> in_use s i \<Longrightarrow> i < nregions s"
  by (auto simp: region_ok_def in_use_def)

lemma map_init_ok:
  assumes "0 < nr"
  shows "region_ok rc [0..<nr] [] (omx__endpoint_large_region_map_init nr)"
proof -
  let ?s = "omx__endpoint_large_region_map_init nr"
  let ?m = "large_region_map ?s"
  have "linked (\<lambda>x. rs_next_free (rm_array ?m ! x)) (rm_first_free ?m) [0..<nr]
      = linked (\<lambda>x. if Suc x = nr then -1 else int (Suc x)) (rm_first_free ?m) [0..<nr]"
    by (rule linked_cong) (auto simp: omx__endpoint_large_region_map_init_def region_init_slot_def)
  then have "region_free_list [0..<nr] ?m"
    using linked_upt [of 0 nr] assms
    by (auto simp: region_free_list_def omx__endpoint_large_region_map_init_def region_init_slot_def)
  then show ?thesis
    by (auto simp: region_ok_def omx__endpoint_large_region_map_init_def)
qed

text \<open>Destroying a cached region nobody uses, or the region of a request that gives it back.\<close>

lemma destroy_spec:
  assumes ok: "region_ok rc xs [] s" and x: "x \<in> set (reg_list s) \<union> set (reg_vect_list s)"
    and run: "omx__destroy_region x (t, d) = Some (s', d')"
    and t: "t = s\<lparr>large_region_map := m\<rparr>\<lparr>reg_unused_list := removeAll x (reg_unused_list s)\<rparr>"
    and m: "region_free_list xs m" "length (rm_array m) = nregions s"
      "\<And>i. i < nregions s \<Longrightarrow> i \<noteq> x \<Longrightarrow> region (rm_array m ! i) = the_region s i"
  shows "region_ok rc (x # xs) [] s' \<and> nregions s' = nregions s
    \<and> (\<forall>i < nregions s. i \<noteq> x \<longrightarrow> the_region s' i = the_region s i)
    \<and> reg_list s' = removeAll x (reg_list s) \<and> reg_vect_list s' = removeAll x (reg_vect_list s)
    \<and> reg_unused_list s' = removeAll x (reg_unused_list s)
    \<and> large_sends_avail_nr s' = large_sends_avail_nr s \<and> (\<forall>n. d_ioctl d' n = d_ioctl d n)"
proof -
  have xb: "x < nregions s" "x \<notin> set xs" using ok x by (auto simp: region_ok_def)
  obtain d1 where d1: "omx__deregister_region x t d = Some d1"
    and s': "s' = t\<lparr>reg_list := removeAll x (reg_list t), reg_vect_list := removeAll x (reg_vect_list t),
        large_region_map := omx__endpoint_large_region_free x m\<rparr>" and d': "d' = d1"
    using run by (auto simp: omx__destroy_region_def bind_eq_Some_conv t)
  have dd: "d_ioctl d1 n = d_ioctl d n" for n
    using d1 by (auto simp: omx__deregister_region_def ioctl_def Let_def split: option.splits)
  note fr = region_free_spec [OF m(1), of x]
  have fr': "region_free_list (x # xs) (omx__endpoint_large_region_free x m)"
    "length (rm_array (omx__endpoint_large_region_free x m)) = nregions s"
    "\<And>i. i < nregions s \<Longrightarrow> region (rm_array (omx__endpoint_large_region_free x m) ! i) = region (rm_array m ! i)"
    using fr xb m(2) by auto
  have reg: "the_region s' i = the_region s i" if "i < nregions s" "i \<noteq> x" for i
    using that fr'(3) m(3) by (simp add: s' the_region_def)
  have lists: "reg_list s' = removeAll x (reg_list s)" "reg_vect_list s' = removeAll x (reg_vect_list s)"
    "reg_unused_list s' = removeAll x (reg_unused_list s)" "large_sends_avail_nr s' = large_sends_avail_nr s"
    "large_region_map s' = omx__endpoint_large_region_free x m"
    by (simp_all add: s' t)
  have bnd: "i < nregions s" if "i \<in> set (reg_list s) \<union> set (reg_vect_list s)" for i
    using ok that by (auto simp: region_ok_def)
  have "region_ok rc (x # xs) [] s'"
    unfolding region_ok_def lists
    using ok fr' reg x bnd xb
    by (auto simp: region_ok_def distinct_removeAll)
  then show ?thesis using reg lists fr'(2) d' dd by auto
qed

text \<open>What an operation guarantees to the holders of other regions.\<close>

definition keeps_used :: "large_state \<Rightarrow> large_state \<Rightarrow> nat set \<Rightarrow> bool" where
  "keeps_used s s' X \<longleftrightarrow> (\<forall>j. in_use s j \<and> j \<notin> X \<longrightarrow> in_use s' j \<and> the_region s' j = the_region s j)"

lemma keeps_used_refl [simp]: "keeps_used s s X"
  by (simp add: keeps_used_def)

lemma keeps_used_trans: "keeps_used s t X \<Longrightarrow> keeps_used t u X \<Longrightarrow> keeps_used s u X"
  by (auto simp: keeps_used_def)

lemma take_free:
  assumes ok: "region_ok rc (x # xs) [] s"
    and m: "region_free_list xs m" "length (rm_array m) = nregions s"
      "\<forall>i < nregions s. region (rm_array m ! i)
         = (if i = x then (the_region s i)\<lparr>use_count := 0\<rparr> else the_region s i)"
  shows "region_ok rc xs [x] (s\<lparr>large_region_map := m\<rparr>) \<and> keeps_used s (s\<lparr>large_region_map := m\<rparr>) {}
    \<and> use_count (the_region (s\<lparr>large_region_map := m\<rparr>) x) = 0 \<and> \<not> in_use s x"
proof -
  let ?s = "s\<lparr>large_region_map := m\<rparr>"
  have x: "x < nregions s" "x \<notin> set (reg_list s)" "x \<notin> set (reg_vect_list s)"
    using ok by (auto simp: region_ok_def)
  have bnd: "i < nregions s \<and> i \<noteq> x" if "i \<in> set (reg_list s) \<union> set (reg_vect_list s)" for i
    using ok that by (auto simp: region_ok_def)
  have reg: "the_region ?s i = the_region s i" if "i \<in> set (reg_list s) \<union> set (reg_vect_list s)" for i
    using bnd [OF that] m(3) by (simp add: the_region_def)
  have "set (reg_unused_list s) = {i \<in> set (reg_list s). use_count (the_region ?s i) = 0}"
    using ok reg by (auto simp: region_ok_def)
  then have "region_ok rc xs [x] ?s"
    using ok m(1,2) reg by (auto simp: region_ok_def)
  moreover have "use_count (the_region ?s x) = 0"
    using m(3) x by (simp add: the_region_def)
  ultimately show ?thesis
    using x reg by (auto simp: keeps_used_def in_use_def)
qed

lemma alloc_spec:
  assumes ok: "region_ok rc xs [] s"
    and run: "omx__endpoint_large_region_alloc rc (s, d) = Some (a, s', d')"
  shows "(\<forall>n. d_ioctl d' n = d_ioctl d n) \<and> nregions s' = nregions s \<and> keeps_used s s' {}
    \<and> (case a of None \<Rightarrow> s' = s
       | Some i \<Rightarrow> (\<exists>ys. region_ok rc ys [i] s') \<and> use_count (the_region s' i) = 0 \<and> \<not> in_use s i)"
proof (cases xs)
  case (Cons x ys)
  have f: "region_free_list (x # ys) (large_region_map s)" using ok Cons by (simp add: region_ok_def)
  from try_alloc_Cons [OF f] obtain m where m:
    "omx__endpoint_large_region_try_alloc (large_region_map s) = Some (Some (x, m))"
    "region_free_list ys m" "length (rm_array m) = nregions s"
    "\<forall>i < nregions s. region (rm_array m ! i)
       = (if i = x then (the_region s i)\<lparr>use_count := 0\<rparr> else the_region s i)"
    by (auto simp: the_region_def)
  have "a = Some x" "s' = s\<lparr>large_region_map := m\<rparr>" "d' = d"
    using run m(1) by (auto simp: omx__endpoint_large_region_alloc_def)
  with take_free [OF ok [unfolded Cons] m(2-4)] m(3) show ?thesis by auto
next
  case Nil
  have f: "region_free_list [] (large_region_map s)" using ok Nil by (simp add: region_ok_def)
  show ?thesis
  proof (cases "rc \<and> reg_unused_list s \<noteq> []")
    case False
    with run try_alloc_Nil [OF f] show ?thesis
      by (auto simp: omx__endpoint_large_region_alloc_def)
  next
    case True
    let ?x = "hd (reg_unused_list s)"
    let ?t = "s\<lparr>reg_unused_list := removeAll ?x (reg_unused_list s)\<rparr>"
    have "?x \<in> set (reg_unused_list s)" using True by simp
    then have x: "?x \<in> set (reg_list s)" "use_count (the_region s ?x) = 0"
      using ok by (auto simp: region_ok_def)
    obtain s2 d2 where dest: "omx__destroy_region ?x (?t, d) = Some (s2, d2)"
      and run2: "Option.bind (omx__endpoint_large_region_try_alloc (large_region_map s2))
        (\<lambda>b. case b of None \<Rightarrow> Some (None, s2, d2)
           | Some (j, m) \<Rightarrow> Some (Some j, s2\<lparr>large_region_map := m\<rparr>, d2)) = Some (a, s', d')"
      using run True try_alloc_Nil [OF f]
      by (auto simp: omx__endpoint_large_region_alloc_def bind_eq_Some_conv Let_def)
    have D: "region_ok rc [?x] [] s2 \<and> nregions s2 = nregions s
      \<and> (\<forall>i < nregions s. i \<noteq> ?x \<longrightarrow> the_region s2 i = the_region s i)
      \<and> reg_list s2 = removeAll ?x (reg_list s) \<and> reg_vect_list s2 = removeAll ?x (reg_vect_list s)
      \<and> reg_unused_list s2 = removeAll ?x (reg_unused_list s)
      \<and> large_sends_avail_nr s2 = large_sends_avail_nr s \<and> (\<forall>n. d_ioctl d2 n = d_ioctl d n)"
      using destroy_spec [OF ok _ dest, of "large_region_map s"] x f Nil by (simp add: the_region_def)
    then have f2: "region_free_list [?x] (large_region_map s2)" by (simp add: region_ok_def)
    from try_alloc_Cons [OF this] obtain m where m:
      "omx__endpoint_large_region_try_alloc (large_region_map s2) = Some (Some (?x, m))"
      "region_free_list [] m" "length (rm_array m) = nregions s2"
      "\<forall>i < nregions s2. region (rm_array m ! i)
         = (if i = ?x then (the_region s2 i)\<lparr>use_count := 0\<rparr> else the_region s2 i)"
      by (auto simp: the_region_def)
    have res: "a = Some ?x" "s' = s2\<lparr>large_region_map := m\<rparr>" "d' = d2"
      using run2 m(1) by auto
    have "keeps_used s s2 {}"
      unfolding keeps_used_def
    proof (intro allI impI, elim conjE)
      fix j
      assume j: "in_use s j"
      then have "j \<noteq> ?x" using x by (auto simp: in_use_def)
      moreover have "j < nregions s" using in_use_bound [OF ok j] .
      ultimately show "in_use s2 j \<and> the_region s2 j = the_region s j"
        using D j by (auto simp: in_use_def)
    qed
    moreover have "region_ok rc [?x] [] s2" using D by blast
    ultimately show ?thesis
      using take_free [OF _ m(2-4)] res D m(3) x by (auto simp: in_use_def intro: keeps_used_trans)
  qed
qed

lemma clone_wf: "segs_wf r \<Longrightarrow> omx_clone_segments r = r"
  using segs_wf_single [of r] by (auto simp: omx_clone_segments_def intro: omx__req_segs.equality)

lemma region_ok_held_upd:
  assumes ok: "region_ok rc xs [i] s" and f: "\<And>r. rg_id (f r) = rg_id r"
  shows "region_ok rc xs [i] (upd_region i f s) \<and> keeps_used s (upd_region i f s) {}"
proof -
  have i: "i < nregions s" "i \<notin> set (reg_list s)" "i \<notin> set (reg_vect_list s)"
    using ok by (auto simp: region_ok_def)
  have "the_region (upd_region i f s) j = the_region s j" if "j \<in> set (reg_list s) \<union> set (reg_vect_list s)" for j
    using that i by auto
  moreover from this have "set (reg_unused_list s)
      = {j \<in> set (reg_list s). use_count (the_region (upd_region i f s) j) = 0}"
    using ok by (auto simp: region_ok_def)
  moreover have "region_free_list xs (map_upd_region i f (large_region_map s))"
    using ok i region_free_list_upd [OF f] by (simp add: region_ok_def)
  ultimately show ?thesis
    using ok i by (auto simp: region_ok_def keeps_used_def in_use_def simp del: the_region_upd)
      (auto simp: map_upd_region_def)
qed

lemma give_back:
  assumes ok: "region_ok rc xs [i] s"
  shows "region_ok rc (i # xs) [] (s\<lparr>large_region_map := omx__endpoint_large_region_free i (large_region_map s)\<rparr>)
    \<and> keeps_used s (s\<lparr>large_region_map := omx__endpoint_large_region_free i (large_region_map s)\<rparr>) {}
    \<and> length (rm_array (omx__endpoint_large_region_free i (large_region_map s))) = nregions s"
proof -
  let ?m = "omx__endpoint_large_region_free i (large_region_map s)"
  have i: "i < nregions s" "i \<notin> set xs" and f: "region_free_list xs (large_region_map s)"
    using ok by (auto simp: region_ok_def)
  note fr = region_free_spec [OF f i]
  have reg: "the_region (s\<lparr>large_region_map := ?m\<rparr>) j = the_region s j" if "j < nregions s" for j
    using fr that by (simp add: the_region_def)
  have bnd: "j < nregions s" if "j \<in> set (reg_list s) \<union> set (reg_vect_list s)" for j
    using ok that by (auto simp: region_ok_def)
  have "set (reg_unused_list s)
      = {j \<in> set (reg_list s). use_count (the_region (s\<lparr>large_region_map := ?m\<rparr>) j) = 0}"
    using ok reg bnd by (auto simp: region_ok_def)
  then show ?thesis
    using ok fr reg bnd by (auto simp: region_ok_def keeps_used_def in_use_def)
qed

lemma register_cases:
  assumes "omx__register_region i s d = Some (r, d')"
  shows "(\<forall>n. d_ioctl d' n = d_ioctl d n)
    \<and> (r = Public OMX_SUCCESS \<or> r = Internal OMX_INTERNAL_MISSING_RESOURCES)"
  using assms
  by (auto simp: omx__register_region_def ioctl_def Let_def bind_eq_Some_conv split: option.splits)

lemma create_spec:
  assumes ok: "region_ok rc xs [] s" and wf: "segs_wf reqsegs"
    and run: "omx__create_region rc reqsegs (s, d) = Some (a, s', d')"
  shows "(\<forall>n. d_ioctl d' n = d_ioctl d n) \<and> nregions s' = nregions s \<and> keeps_used s s' {}
    \<and> (case a of None \<Rightarrow> large_inv rc s'
       | Some i \<Rightarrow> (\<exists>ys. region_ok rc ys [i] s') \<and> use_count (the_region s' i) = 0 \<and> \<not> in_use s i
           \<and> rg_segs (the_region s' i) = reqsegs \<and> reserver (the_region s' i) = None)"
proof -
  obtain a1 s1 d1 where al: "omx__endpoint_large_region_alloc rc (s, d) = Some (a1, s1, d1)"
    using run by (auto simp: omx__create_region_def bind_eq_Some_conv)
  note A = alloc_spec [OF ok al]
  show ?thesis
  proof (cases a1)
    case None
    with run al A ok show ?thesis
      by (auto simp: omx__create_region_def large_inv_def)
  next
    case (Some i)
    let ?s1 = "upd_region i (\<lambda>r. r\<lparr>rg_segs := omx_clone_segments reqsegs\<rparr>) s1"
    obtain ys where ys: "region_ok rc ys [i] s1" using A Some by auto
    from region_ok_held_upd [OF ys, of "\<lambda>r. r\<lparr>rg_segs := omx_clone_segments reqsegs\<rparr>"]
    have s1: "region_ok rc ys [i] ?s1" "keeps_used s1 ?s1 {}" by auto
    have i: "i < nregions s1" using ys by (auto simp: region_ok_def)
    obtain r d2 where reg: "omx__register_region i ?s1 d1 = Some (r, d2)"
      using run al Some by (auto simp: omx__create_region_def bind_eq_Some_conv Let_def)
    note R = register_cases [OF reg]
    show ?thesis
    proof (cases "r = Public OMX_SUCCESS")
      case False
      let ?s2 = "?s1\<lparr>large_region_map := omx__endpoint_large_region_free i (large_region_map ?s1)\<rparr>"
      have "a = None" "s' = ?s2" "d' = d2"
        using run al Some reg False by (auto simp: omx__create_region_def)
      with give_back [OF s1(1)] A R s1(2) show ?thesis
        by (auto simp: large_inv_def simp del: upd_region_lists intro: keeps_used_trans)
    next
      case True
      have e: "a = Some i" "s' = upd_region i (\<lambda>r. r\<lparr>reserver := None\<rparr>) ?s1" "d' = d2"
        using run al Some reg True by (auto simp: omx__create_region_def)
      have "region_ok rc ys [i] s' \<and> keeps_used ?s1 s' {}"
        unfolding e by (rule region_ok_held_upd [OF s1(1)]) simp
      moreover have "keeps_used s ?s1 {}" using A s1(2) keeps_used_trans by blast
      ultimately show ?thesis
        using A R Some i e clone_wf [OF wf] by (auto intro: keeps_used_trans simp del: upd_region_lists)
    qed
  qed
qed

lemma put_on_list:
  assumes ok: "region_ok rc xs [i] s" and u: "use_count (the_region s i) = 0"
    and t: "t = (if nseg (rg_segs (the_region s i)) = 1 then s\<lparr>reg_list := reg_list s @ [i]\<rparr>
                 else s\<lparr>reg_vect_list := reg_vect_list s @ [i]\<rparr>)"
    and s': "s' = reserve resv i (upd_region i (\<lambda>r. r\<lparr>use_count := use_count r + 1\<rparr>) t)"
  shows "region_ok rc xs [] s' \<and> keeps_used s s' {} \<and> in_use s' i \<and> nregions s' = nregions s
    \<and> the_region s' i = (the_region s i)\<lparr>use_count := 1,
        reserver := (if resv = None then reserver (the_region s i) else resv)\<rparr>"
proof -
  have i: "i < nregions s" "i \<notin> set (reg_list s)" "i \<notin> set (reg_vect_list s)" "i \<notin> set xs"
    using ok by (auto simp: region_ok_def)
  have nt: "nregions t = nregions s" "the_region t j = the_region s j" for j by (simp_all add: t)
  have reg: "the_region s' j = (if j = i then (the_region s i)\<lparr>use_count := 1,
        reserver := (if resv = None then reserver (the_region s i) else resv)\<rparr> else the_region s j)" for j
    using i nt u by (cases resv) (simp_all add: s' reserve_def del: upd_region_lists)
  have fl: "region_free_list xs (large_region_map s')"
  proof -
    have "large_region_map t = large_region_map s" by (simp add: t)
    then show ?thesis using ok i nt by (cases resv)
      (simp_all add: s' reserve_def region_free_list_upd_region region_ok_def del: upd_region_lists)
  qed
  have lists: "reg_list s' = reg_list t" "reg_vect_list s' = reg_vect_list t"
    "reg_unused_list s' = reg_unused_list s" "nregions s' = nregions s"
    using nt by (cases resv; simp add: s' reserve_def t del: upd_region_lists)+
  have un: "set (reg_unused_list s) = {j \<in> set (reg_list t). use_count (the_region s' j) = 0}"
    using ok reg i by (auto simp: region_ok_def t)
  have "region_ok rc xs [] s'"
    unfolding region_ok_def lists using ok fl un reg i by (auto simp: region_ok_def t)
  then show ?thesis using reg i lists by (auto simp: keeps_used_def in_use_def t)
qed

text \<open>What a request gets: a region in use that covers its segments.\<close>

definition covers_segs :: "omx__req_segs \<Rightarrow> omx__large_region \<Rightarrow> bool" where
  "covers_segs reqsegs r \<longleftrightarrow>
     (if nseg reqsegs > 1 then rg_segs r = reqsegs
      else nseg (rg_segs r) = 1 \<and> vaddr (single (rg_segs r)) = vaddr (single reqsegs)
         \<and> seg_len (single reqsegs) \<le> seg_len (single (rg_segs r)))"

lemma reuse_spec:
  assumes ok: "region_ok True xs [] s" and i: "i \<in> set (reg_list s)"
    and s1: "s1 = (if use_count (the_region s i) = 0
                   then s\<lparr>reg_unused_list := removeAll i (reg_unused_list s)\<rparr> else s)"
    and s': "s' = reserve resv i (upd_region i (\<lambda>r. r\<lparr>use_count := use_count r + 1\<rparr>) s1)"
  shows "region_ok True xs [] s' \<and> keeps_used s s' {i} \<and> in_use s' i \<and> nregions s' = nregions s
    \<and> the_region s' i = (the_region s i)\<lparr>use_count := use_count (the_region s i) + 1,
        reserver := (if resv = None then reserver (the_region s i) else resv)\<rparr>"
proof -
  have b: "i < nregions s" "i \<notin> set (reg_vect_list s)" "0 \<le> use_count (the_region s i)"
    using ok i by (auto simp: region_ok_def)
  have n1: "nregions s1 = nregions s" "the_region s1 j = the_region s j"
    "large_region_map s1 = large_region_map s" for j by (simp_all add: s1)
  have reg: "the_region s' j = (if j = i then (the_region s i)\<lparr>use_count := use_count (the_region s i) + 1,
        reserver := (if resv = None then reserver (the_region s i) else resv)\<rparr> else the_region s j)" for j
    using b n1 by (cases resv) (simp_all add: s' reserve_def del: upd_region_lists)
  have fl: "region_free_list xs (large_region_map s')"
    using ok b n1 by (cases resv)
      (simp_all add: s' reserve_def region_free_list_upd_region region_ok_def del: upd_region_lists)
  have lists: "reg_list s' = reg_list s" "reg_vect_list s' = reg_vect_list s"
    "reg_unused_list s' = reg_unused_list s1" "nregions s' = nregions s"
    using n1 by (cases resv; simp add: s' reserve_def s1 del: upd_region_lists)+
  have un: "set (reg_unused_list s1) = {j \<in> set (reg_list s). use_count (the_region s' j) = 0}"
    "distinct (reg_unused_list s1)"
    using ok reg i b by (auto simp: region_ok_def s1 distinct_removeAll)
  have "region_ok True xs [] s'"
    unfolding region_ok_def lists using ok fl un reg i b by (auto simp: region_ok_def)
  then show ?thesis using reg i lists b by (auto simp: keeps_used_def in_use_def)
qed

lemma get_spec:
  assumes inv: "large_inv rc s" and wf: "segs_wf reqsegs"
    and run: "omx__get_region rc par reqsegs resv (s, d) = Some (a, s', d')"
  shows "large_inv rc s' \<and> nregions s' = nregions s \<and> (\<forall>n. d_ioctl d' n = d_ioctl d n)
    \<and> (case a of None \<Rightarrow> keeps_used s s' {}
       | Some i \<Rightarrow> keeps_used s s' {i} \<and> in_use s' i \<and> covers_segs reqsegs (the_region s' i)
           \<and> (resv \<noteq> None \<longrightarrow> reserver (the_region s' i) = resv)
           \<and> (in_use s i \<longrightarrow> (resv = None \<or> reserver (the_region s i) = None) \<and> rc \<and> par
               \<and> use_count (the_region s' i) = use_count (the_region s i) + 1
               \<and> rg_segs (the_region s' i) = rg_segs (the_region s i)))"
proof -
  obtain xs where ok: "region_ok rc xs [] s" using inv by (auto simp: large_inv_def)
  define found where "found = (if rc \<and> nseg reqsegs \<le> 1
    then find (\<lambda>i. regcache_matches par resv (single reqsegs) (the_region s i)) (reg_list s) else None)"
  have ns: "nseg reqsegs \<noteq> 0" using wf by (auto simp: segs_wf_def)
  show ?thesis
  proof (cases found)
    case (Some i)
    then have n1: "rc" "nseg reqsegs \<le> 1" by (auto simp: found_def split: if_splits)
    then have i: "i \<in> set (reg_list s)" and m: "regcache_matches par resv (single reqsegs) (the_region s i)"
      using Some by (auto simp: found_def find_Some_iff)
    let ?s1 = "if use_count (the_region s i) = 0
        then s\<lparr>reg_unused_list := removeAll i (reg_unused_list s)\<rparr> else s"
    have res: "a = Some i" "s' = reserve resv i (upd_region i (\<lambda>r. r\<lparr>use_count := use_count r + 1\<rparr>) ?s1)" "d' = d"
      using run Some n1
      by (auto simp: omx__get_region_def omx__get_contigous_region_def found_def Let_def)
    have seg1: "nseg (rg_segs (the_region s i)) = 1" using ok i by (auto simp: region_ok_def)
    from reuse_spec [OF ok [simplified n1(1)] i refl res(2)] res m n1 seg1 show ?thesis
      by (auto simp: large_inv_def covers_segs_def regcache_matches_def in_use_def)
  next
    case None
    obtain b s1 d1 where cr: "omx__create_region rc reqsegs (s, d) = Some (b, s1, d1)"
      using run None ns
      by (auto simp: omx__get_region_def omx__get_contigous_region_def omx__get_vect_region_def
          found_def bind_eq_Some_conv Let_def split: if_splits)
    note C = create_spec [OF ok wf cr]
    show ?thesis
    proof (cases b)
      case b: None
      then have "a = None" "s' = s1" "d' = d1"
        using run None cr by (auto simp: omx__get_region_def omx__get_contigous_region_def
            omx__get_vect_region_def found_def split: if_splits)
      with C b show ?thesis by auto
    next
      case (Some i)
      obtain ys where ys: "region_ok rc ys [i] s1" "use_count (the_region s1 i) = 0" "\<not> in_use s i"
        "rg_segs (the_region s1 i) = reqsegs" "reserver (the_region s1 i) = None"
        using C Some by auto
      let ?t = "if nseg (rg_segs (the_region s1 i)) = 1 then s1\<lparr>reg_list := reg_list s1 @ [i]\<rparr>
                 else s1\<lparr>reg_vect_list := reg_vect_list s1 @ [i]\<rparr>"
      have res: "a = Some i" "d' = d1"
        "s' = reserve resv i (upd_region i (\<lambda>r. r\<lparr>use_count := use_count r + 1\<rparr>) ?t)"
        using run None cr Some ys(4) ns by (auto simp: omx__get_region_def omx__get_contigous_region_def
            omx__get_vect_region_def found_def Let_def split: if_splits)
      from put_on_list [OF ys(1,2) refl res(3)] C ys res wf Some
      show ?thesis
        by (auto simp: large_inv_def covers_segs_def segs_wf_def intro: keeps_used_trans)
          (auto simp: keeps_used_def)
    qed
  qed
qed

lemma put_spec:
  assumes inv: "large_inv rc s" and used: "in_use s i"
    and run: "omx__put_region rc i resv (s, d) = Some (s', d')"
  shows "large_inv rc s' \<and> nregions s' = nregions s \<and> (\<forall>n. d_ioctl d' n = d_ioctl d n)
    \<and> keeps_used s s' {i}
    \<and> (in_use s' i \<longleftrightarrow> 1 < use_count (the_region s i))
    \<and> (in_use s' i \<longrightarrow> the_region s' i = (the_region s i)\<lparr>use_count := use_count (the_region s i) - 1,
         reserver := (if resv = None then reserver (the_region s i) else None)\<rparr>)"
proof -
  obtain xs where ok: "region_ok rc xs [] s" using inv by (auto simp: large_inv_def)
  have b: "i < nregions s" using in_use_bound [OF ok used] .
  have mem: "i \<in> set (reg_list s) \<union> set (reg_vect_list s)" and pos: "0 < use_count (the_region s i)"
    using used by (auto simp: in_use_def)
  define s2 where "s2 = (if resv = None then upd_region i (\<lambda>r. r\<lparr>use_count := use_count r - 1\<rparr>) s
      else upd_region i (\<lambda>r. r\<lparr>reserver := None\<rparr>) (upd_region i (\<lambda>r. r\<lparr>use_count := use_count r - 1\<rparr>) s))"
  have reg: "the_region s2 j = (if j = i then (the_region s i)\<lparr>use_count := use_count (the_region s i) - 1,
         reserver := (if resv = None then reserver (the_region s i) else None)\<rparr> else the_region s j)" for j
    using b by (simp add: s2_def del: upd_region_lists)
  have lists: "reg_list s2 = reg_list s" "reg_vect_list s2 = reg_vect_list s"
    "reg_unused_list s2 = reg_unused_list s" "nregions s2 = nregions s"
    by (simp_all add: s2_def del: upd_region_lists)
  have fl: "region_free_list xs (large_region_map s2)"
    using ok b by (simp add: s2_def region_free_list_upd_region region_ok_def del: upd_region_lists)
  have eq: "omx__put_region rc i resv (s, d) = (if rc \<and> nseg (rg_segs (the_region s2 i)) = 1
        then Some (if use_count (the_region s2 i) = 0
                   then s2\<lparr>reg_unused_list := reg_unused_list s2 @ [i]\<rparr> else s2, d)
        else omx__destroy_region i (s2, d))"
    by (simp only: omx__put_region_def Let_def s2_def prod.case)
  show ?thesis
  proof (cases "rc \<and> nseg (rg_segs (the_region s i)) = 1")
    case True
    then have il: "i \<in> set (reg_list s)" "i \<notin> set (reg_vect_list s)"
      using mem ok by (auto simp: region_ok_def)
    let ?s3 = "if use_count (the_region s2 i) = 0
        then s2\<lparr>reg_unused_list := reg_unused_list s2 @ [i]\<rparr> else s2"
    have res: "s' = ?s3" "d' = d" using run eq True reg by auto
    have reg': "the_region s' j = the_region s2 j" for j by (simp add: res)
    have lists': "reg_list s' = reg_list s" "reg_vect_list s' = reg_vect_list s" "nregions s' = nregions s"
      "large_region_map s' = large_region_map s2"
      using lists by (simp_all add: res)
    have un: "set (reg_unused_list s') = {j \<in> set (reg_list s). use_count (the_region s' j) = 0}"
      "distinct (reg_unused_list s')"
      using ok reg il pos lists by (auto simp: region_ok_def res)
    have "region_ok rc xs [] s'"
      unfolding region_ok_def lists' using ok fl un reg reg' il pos True lists(4)
      by (auto simp: region_ok_def)
    then show ?thesis
      using reg reg' lists' mem pos res by (auto simp: large_inv_def keeps_used_def in_use_def)
  next
    case False
    have u1: "use_count (the_region s i) = 1" using ok mem False by (auto simp: region_ok_def)
    have nun: "removeAll i (reg_unused_list s) = reg_unused_list s"
      using ok pos by (auto simp: region_ok_def)
    have run2: "omx__destroy_region i (s2, d) = Some (s', d')"
      using run eq False reg by auto
    have len: "large_sends_avail_nr s2 = large_sends_avail_nr s" by (simp add: s2_def)
    have t: "s2 = s\<lparr>large_region_map := large_region_map s2\<rparr>\<lparr>reg_unused_list := removeAll i (reg_unused_list s)\<rparr>"
      using lists len nun by (intro large_state.equality) simp_all
    have D: "region_ok rc (i # xs) [] s' \<and> nregions s' = nregions s
      \<and> (\<forall>j < nregions s. j \<noteq> i \<longrightarrow> the_region s' j = the_region s j)
      \<and> reg_list s' = removeAll i (reg_list s) \<and> reg_vect_list s' = removeAll i (reg_vect_list s)
      \<and> reg_unused_list s' = removeAll i (reg_unused_list s)
      \<and> large_sends_avail_nr s' = large_sends_avail_nr s \<and> (\<forall>n. d_ioctl d' n = d_ioctl d n)"
      by (rule destroy_spec [OF ok mem run2 t fl])
        (use lists reg in \<open>auto simp: the_region_def\<close>)
    then show ?thesis
      using u1 in_use_bound [OF ok] by (auto simp: large_inv_def keeps_used_def in_use_def)
  qed
qed

lemma clean_loop_spec:
  assumes "region_ok rc xs [] s" and "set L \<subseteq> set (reg_list s)" and "distinct L"
    and "foreach (regcache_clean1 b e) L (s, d) = Some (s', d')"
  shows "\<exists>ys. region_ok rc ys [] s' \<and> nregions s' = nregions s \<and> keeps_used s s' {}
    \<and> reg_list s' = filter (\<lambda>i. i \<notin> set L \<or> \<not> (let sg = single (rg_segs (the_region s i)) in
          omx__segments_intersect b e (vaddr sg) (vaddr sg + seg_len sg))) (reg_list s)
    \<and> (\<forall>i \<in> set (reg_list s'). the_region s' i = the_region s i)"
  using assms
proof (induction L arbitrary: xs s d)
  case Nil
  then show ?case by auto
next
  case (Cons i L)
  let ?hit = "\<lambda>s i. let sg = single (rg_segs (the_region s i)) in
          omx__segments_intersect b e (vaddr sg) (vaddr sg + seg_len sg)"
  obtain s1 d1 where st: "regcache_clean1 b e i (s, d) = Some (s1, d1)"
    and rest: "foreach (regcache_clean1 b e) L (s1, d1) = Some (s', d')"
    using Cons.prems(4) by (auto simp: bind_eq_Some_conv)
  show ?case
  proof (cases "?hit s i")
    case False
    then have "s1 = s" "d1 = d" using st by (auto simp: regcache_clean1_def Let_def)
    with Cons.IH [OF Cons.prems(1) _ _ rest [unfolded this]] Cons.prems(2,3) False show ?thesis
      by (auto simp: Let_def intro!: filter_cong)
  next
    case True
    let ?t = "s\<lparr>reg_unused_list := removeAll i (reg_unused_list s)\<rparr>"
    have u: "use_count (the_region s i) = 0" and dr: "omx__destroy_region i (?t, d) = Some (s1, d1)"
      using st True by (auto simp: regcache_clean1_def Let_def bind_eq_Some_conv)
    have i: "i \<in> set (reg_list s)" using Cons.prems(2) by simp
    have D: "region_ok rc (i # xs) [] s1 \<and> nregions s1 = nregions s
      \<and> (\<forall>j < nregions s. j \<noteq> i \<longrightarrow> the_region s1 j = the_region s j)
      \<and> reg_list s1 = removeAll i (reg_list s) \<and> reg_vect_list s1 = removeAll i (reg_vect_list s)
      \<and> reg_unused_list s1 = removeAll i (reg_unused_list s)
      \<and> large_sends_avail_nr s1 = large_sends_avail_nr s \<and> (\<forall>n. d_ioctl d1 n = d_ioctl d n)"
      by (rule destroy_spec [OF Cons.prems(1) _ dr, of "large_region_map s"])
        (use i Cons.prems(1) in \<open>auto simp: region_ok_def the_region_def\<close>)
    have bnd: "j < nregions s" if "j \<in> set (reg_list s) \<union> set (reg_vect_list s)" for j
      using Cons.prems(1) that by (auto simp: region_ok_def)
    have L: "set L \<subseteq> set (reg_list s1)" "distinct L" using Cons.prems(2,3) D by auto
    from Cons.IH [OF _ L rest] D obtain ys where I: "region_ok rc ys [] s'" "nregions s' = nregions s1"
      "keeps_used s1 s' {}" "reg_list s' = filter (\<lambda>j. j \<notin> set L \<or> \<not> ?hit s1 j) (reg_list s1)"
      "\<forall>j \<in> set (reg_list s'). the_region s' j = the_region s1 j"
      by blast
    have same: "the_region s1 j = the_region s j" if "j \<in> set (reg_list s) \<union> set (reg_vect_list s)" "j \<noteq> i" for j
      using D bnd [OF that(1)] that(2) by blast
    have "in_use s1 j \<and> the_region s1 j = the_region s j" if "in_use s j" for j
    proof -
      have "j \<in> set (reg_list s) \<union> set (reg_vect_list s)" "j \<noteq> i" using that u by (auto simp: in_use_def)
      then show ?thesis using D that same by (auto simp: in_use_def)
    qed
    then have "keeps_used s s1 {}" by (auto simp: keeps_used_def)
    moreover have "reg_list s' = filter (\<lambda>j. j \<notin> set (i # L) \<or> \<not> ?hit s j) (reg_list s)"
    proof -
      have h: "?hit s1 j = ?hit s j" if "j \<in> set (reg_list s)" "j \<noteq> i" for j
        using same that by simp
      have "reg_list s' = filter (\<lambda>j. (j \<notin> set L \<or> \<not> ?hit s1 j) \<and> i \<noteq> j) (reg_list s)"
        using I(4) D by (simp only: removeAll_filter_not_eq filter_filter)
          (rule filter_cong, auto)
      also have "\<dots> = filter (\<lambda>j. j \<notin> set (i # L) \<or> \<not> ?hit s j) (reg_list s)"
      proof (rule filter_cong [OF refl])
        fix j
        assume j: "j \<in> set (reg_list s)"
        show "((j \<notin> set L \<or> \<not> ?hit s1 j) \<and> i \<noteq> j) = (j \<notin> set (i # L) \<or> \<not> ?hit s j)"
        proof (cases "j = i")
          case eq: True
          have "?hit s j" unfolding eq by (rule True)
          then show ?thesis using eq by auto
        next
          case False
          show ?thesis unfolding h [OF j False] using False by auto
        qed
      qed
      finally show ?thesis .
    qed
    moreover have "\<forall>j \<in> set (reg_list s'). the_region s' j = the_region s j"
      using I(4,5) D bnd by auto
    ultimately show ?thesis using I D by (auto intro: keeps_used_trans)
  qed
qed

subsection \<open>Runs that return\<close>

text \<open>
  A driver that refuses nothing but the registration of a region, and that for lack of resources:
  the case the code is written for.
\<close>

definition resource_errors_only :: "driver \<Rightarrow> bool" where
  "resource_errors_only d \<longleftrightarrow> (\<forall>n c e. d_ioctl d n c = Some e \<longrightarrow>
     (\<exists>i sg. c = OMX_CMD_XEN_CREATE_USER_REGION i sg) \<and> e \<in> {ENOMEM, EMFILE, ENFILE})"

lemma destroy_returns:
  "resource_errors_only d \<Longrightarrow> \<exists>s' d'. omx__destroy_region i (s, d) = Some (s', d') \<and> d_ioctl d' = d_ioctl d"
  by (cases "d_ioctl d (length (d_log d)) (OMX_CMD_XEN_DESTROY_USER_REGION (rg_id (the_region s i)))")
    (auto simp: omx__destroy_region_def omx__deregister_region_def ioctl_def Let_def resource_errors_only_def)

lemma register_returns:
  "resource_errors_only d \<Longrightarrow> \<exists>r d'. omx__register_region i s d = Some (r, d')"
proof -
  assume d: "resource_errors_only d"
  let ?c = "OMX_CMD_XEN_CREATE_USER_REGION (rg_id (the_region s i)) (segs (rg_segs (the_region s i)))"
  show ?thesis
  proof (cases "d_ioctl d (length (d_log d)) ?c")
    case None
    then show ?thesis by (simp add: omx__register_region_def ioctl_def Let_def)
  next
    case (Some e)
    then have "e \<in> {ENOMEM, EMFILE, ENFILE}" using d by (auto simp: resource_errors_only_def)
    with Some show ?thesis
      by (auto simp: omx__register_region_def ioctl_def Let_def omx__check_driver_pinning_error_def
          omx__ioctl_errno_to_return_checked_def)
  qed
qed

lemma try_alloc_returns:
  "region_free_list xs m \<Longrightarrow> \<exists>a. omx__endpoint_large_region_try_alloc m = Some a"
  using try_alloc_Nil try_alloc_Cons by (cases xs) blast+

lemma alloc_returns:
  assumes "region_ok rc xs [] s" and d: "resource_errors_only d"
  shows "\<exists>a s' d'. omx__endpoint_large_region_alloc rc (s, d) = Some (a, s', d') \<and> d_ioctl d' = d_ioctl d"
proof -
  have f: "region_free_list xs (large_region_map s)" using assms by (simp add: region_ok_def)
  obtain a where a: "omx__endpoint_large_region_try_alloc (large_region_map s) = Some a"
    using try_alloc_returns [OF f] by blast
  show ?thesis
  proof (cases "a = None \<and> rc \<and> reg_unused_list s \<noteq> []")
    case False
    with a show ?thesis by (auto simp: omx__endpoint_large_region_alloc_def split: option.splits)
  next
    case True
    let ?x = "hd (reg_unused_list s)"
    let ?t = "s\<lparr>reg_unused_list := removeAll ?x (reg_unused_list s)\<rparr>"
    obtain s2 d2 where ds: "omx__destroy_region ?x (?t, d) = Some (s2, d2)" "d_ioctl d2 = d_ioctl d"
      using destroy_returns [OF d] by blast
    have xs: "xs = []" using a True try_alloc_Cons [of _ _ "large_region_map s"] f by (cases xs) auto
    have x: "?x \<in> set (reg_list s)" using True assms(1) list.set_sel(1) [of "reg_unused_list s"]
      by (auto simp: region_ok_def)
    have D: "region_ok rc (?x # xs) [] s2"
      using destroy_spec [OF assms(1) _ ds(1), of "large_region_map s"] x f
      by (auto simp: the_region_def)
    obtain b where "omx__endpoint_large_region_try_alloc (large_region_map s2) = Some b"
      using try_alloc_returns D by (fastforce simp: region_ok_def)
    with a True ds show ?thesis
      by (auto simp: omx__endpoint_large_region_alloc_def Let_def split: option.splits)
  qed
qed

lemma get_returns:
  assumes "large_inv rc s" and d: "resource_errors_only d"
  shows "\<exists>a s' d'. omx__get_region rc par reqsegs resv (s, d) = Some (a, s', d')"
proof -
  obtain xs where ok: "region_ok rc xs [] s" using assms by (auto simp: large_inv_def)
  obtain a s1 d1 where al: "omx__endpoint_large_region_alloc rc (s, d) = Some (a, s1, d1)"
    and d1: "d_ioctl d1 = d_ioctl d"
    using alloc_returns [OF ok d] by blast
  have rd: "resource_errors_only d1" using d d1 by (simp add: resource_errors_only_def)
  have "\<exists>a s' d'. omx__create_region rc reqsegs (s, d) = Some (a, s', d')"
  proof (cases a)
    case None
    with al show ?thesis by (simp add: omx__create_region_def)
  next
    case (Some i)
    let ?s = "upd_region i (\<lambda>r. r\<lparr>rg_segs := omx_clone_segments reqsegs\<rparr>) s1"
    obtain r d2 where "omx__register_region i ?s d1 = Some (r, d2)"
      using register_returns [OF rd] by blast
    with al Some show ?thesis by (auto simp: omx__create_region_def Let_def)
  qed
  then show ?thesis
    by (auto simp: omx__get_region_def omx__get_vect_region_def omx__get_contigous_region_def Let_def
        split: option.splits)
qed

subsection \<open>Properties\<close>

lemma map_init_inv: "0 < nr \<Longrightarrow> large_inv rc (omx__endpoint_large_region_map_init nr)"
  using map_init_ok [of nr rc] by (auto simp: large_inv_def)

text \<open>
  C19: getting a region for a request. From a well-formed map and with a driver whose only failures
  are resource shortages at registration, the call returns; it keeps the map well formed and leaves
  the regions other requests use as they are. Either it reports missing resources, or the region it
  returns is in use, covers the segments of the request and is reserved for the request that asked
  for it; a region that was already in use is returned only by a parallel cache and only when it is
  not reserved for somebody else.
\<close>

theorem get_region_correct:
  assumes "large_inv rc s" and "segs_wf reqsegs" and "resource_errors_only d"
  shows "\<exists>a s' d'. omx__get_region rc par reqsegs resv (s, d) = Some (a, s', d') \<and> large_inv rc s'
    \<and> (case a of None \<Rightarrow> keeps_used s s' {}
       | Some i \<Rightarrow> keeps_used s s' {i} \<and> in_use s' i \<and> covers_segs reqsegs (the_region s' i)
           \<and> (resv \<noteq> None \<longrightarrow> reserver (the_region s' i) = resv)
           \<and> (in_use s i \<longrightarrow> (resv = None \<or> reserver (the_region s i) = None) \<and> rc \<and> par
               \<and> use_count (the_region s' i) = use_count (the_region s i) + 1
               \<and> rg_segs (the_region s' i) = rg_segs (the_region s i)))"
proof -
  obtain a s' d' where run: "omx__get_region rc par reqsegs resv (s, d) = Some (a, s', d')"
    using get_returns [OF assms(1,3)] by blast
  with get_spec [OF assms(1,2) run] show ?thesis by blast
qed

lemma good_driver_errors: "resource_errors_only good_driver"
  by (simp add: resource_errors_only_def good_driver_def)

lemma single_segment_wf: "n < 2 ^ 32 \<Longrightarrow> segs_wf (omx_cache_single_segment a n)"
  by (simp add: segs_wf_def omx_cache_single_segment_def Let_def)

theorem get_region_correct_witness:
  "\<exists>a s' d'. omx__get_region True False (omx_cache_single_segment 4096 100) (Some 5)
      (omx__endpoint_large_region_map_init OMX_USER_REGION_MAX, good_driver) = Some (a, s', d') \<and> large_inv True s'"
proof -
  have "0 < OMX_USER_REGION_MAX" "(100 :: nat) < 2 ^ 32" by (simp_all add: OMX_USER_REGION_MAX_def)
  then have "large_inv True (omx__endpoint_large_region_map_init OMX_USER_REGION_MAX)"
    "segs_wf (omx_cache_single_segment 4096 100)"
    using map_init_inv single_segment_wf by blast+
  from get_region_correct [OF this good_driver_errors, of False "Some 5"] show ?thesis by blast
qed

text \<open>
  C28: giving a region back keeps the map well formed and all other regions in use as they are. The
  region stays in use exactly when somebody else still uses it, with one user less; else it is
  free or an unused region of the cache, to be handed out again.
\<close>

theorem put_region_correct:
  assumes "large_inv rc s" and "in_use s i" and "omx__put_region rc i resv (s, d) = Some (s', d')"
  shows "large_inv rc s' \<and> keeps_used s s' {i} \<and> (in_use s' i \<longleftrightarrow> 1 < use_count (the_region s i))
    \<and> (in_use s' i \<longrightarrow> use_count (the_region s' i) = use_count (the_region s i) - 1
         \<and> rg_segs (the_region s' i) = rg_segs (the_region s i))"
  using put_spec [OF assms] by auto

theorem put_region_correct_witness:
  "\<exists>i s1 d1 s2 d2. omx__get_region False False (omx_cache_single_segment 4096 100) None
      (omx__endpoint_large_region_map_init 4, good_driver) = Some (Some i, s1, d1)
    \<and> omx__put_region False i None (s1, d1) = Some (s2, d2) \<and> large_inv False s2 \<and> \<not> in_use s2 i"
proof -
  let ?r = "omx_cache_single_segment 4096 100"
  let ?m = "omx__endpoint_large_region_map_init 4"
  have inv: "large_inv False ?m" by (rule map_init_inv) simp
  have arr: "omx__endpoint_large_region_try_alloc (large_region_map ?m)
      = Some (Some (0, (map_upd_region 0 (\<lambda>r. r\<lparr>use_count := 0\<rparr>) (large_region_map ?m))
            \<lparr>rm_first_free := 1, rm_nr_free := 3\<rparr>))"
    by (simp add: omx__endpoint_large_region_try_alloc_def omx__endpoint_large_region_map_init_def
        region_init_slot_def Let_def)
  obtain s1 d1 where g: "omx__get_region False False ?r None (?m, good_driver) = Some (Some 0, s1, d1)"
    and gd: "d_ioctl d1 = (\<lambda>_ _. None)"
    using arr by (simp add: omx__get_region_def omx__get_contigous_region_def omx__create_region_def
        omx__endpoint_large_region_alloc_def omx__register_region_def ioctl_def good_driver_def
        omx_cache_single_segment_def Let_def)
  have sp: "large_inv False s1" "in_use s1 0" "\<not> in_use ?m 0"
    using get_spec [OF inv single_segment_wf g] by (auto simp: in_use_def omx__endpoint_large_region_map_init_def)
  then have u: "use_count (the_region s1 0) = 1"
    by (auto simp: large_inv_def region_ok_def in_use_def)
  obtain s2 d2 where p: "omx__put_region False 0 None (s1, d1) = Some (s2, d2)"
    using gd by (auto simp: omx__put_region_def omx__destroy_region_def omx__deregister_region_def ioctl_def Let_def)
  from put_region_correct [OF sp(1,2) p] g p u show ?thesis by auto
qed

lemma segments_intersect_eq:
  "omx__segments_intersect b1 e1 b2 e2 \<longleftrightarrow> (\<exists>a. b1 \<le> a \<and> a < e1 \<and> b2 \<le> a \<and> a < e2)"
proof -
  have "omx__segments_intersect b1 e1 b2 e2 \<longleftrightarrow> max b1 b2 < min e1 e2"
    by (auto simp: omx__segments_intersect_def Let_def)
  also have "\<dots> \<longleftrightarrow> (\<exists>a. b1 \<le> a \<and> a < e1 \<and> b2 \<le> a \<and> a < e2)"
    by (auto intro: exI [of _ "max b1 b2"])
  finally show ?thesis .
qed

text \<open>
  C29: when the application frees memory, the cache is left with no contiguous region that overlaps
  it: exactly the overlapping regions go, the others keep their place and contents, regions in use
  are untouched (the code aborts rather than drop one of them), and the map stays well formed.
\<close>

theorem regcache_clean_correct:
  assumes "large_inv True s" and "omx__regcache_clean True ptr sz (s, d) = Some (s', d')"
  shows "large_inv True s' \<and> keeps_used s s' {}
    \<and> reg_list s' = filter (\<lambda>i. \<not> (\<exists>a. ptr \<le> a \<and> a < ptr + sz
          \<and> vaddr (single (rg_segs (the_region s i))) \<le> a
          \<and> a < vaddr (single (rg_segs (the_region s i))) + seg_len (single (rg_segs (the_region s i))))) (reg_list s)
    \<and> (\<forall>i \<in> set (reg_list s'). the_region s' i = the_region s i)"
proof -
  obtain xs where ok: "region_ok True xs [] s" using assms(1) by (auto simp: large_inv_def)
  have run: "foreach (regcache_clean1 ptr (ptr + sz)) (reg_list s) (s, d) = Some (s', d')"
    using assms(2) by (simp add: omx__regcache_clean_def omx__endpoint_regcache_clean_def)
  have d: "distinct (reg_list s)" using ok by (auto simp: region_ok_def)
  from clean_loop_spec [OF ok _ d run] obtain ys where C: "region_ok True ys [] s'" "keeps_used s s' {}"
    "reg_list s' = filter (\<lambda>i. i \<notin> set (reg_list s) \<or> \<not> (let sg = single (rg_segs (the_region s i)) in
          omx__segments_intersect ptr (ptr + sz) (vaddr sg) (vaddr sg + seg_len sg))) (reg_list s)"
    "\<forall>i \<in> set (reg_list s'). the_region s' i = the_region s i"
    by blast
  have "reg_list s' = filter (\<lambda>i. \<not> (\<exists>a. ptr \<le> a \<and> a < ptr + sz
          \<and> vaddr (single (rg_segs (the_region s i))) \<le> a
          \<and> a < vaddr (single (rg_segs (the_region s i))) + seg_len (single (rg_segs (the_region s i))))) (reg_list s)"
    unfolding C(3) by (rule filter_cong) (auto simp: segments_intersect_eq Let_def)
  then show ?thesis using C(1,2,4) by (auto simp: large_inv_def)
qed

theorem regcache_clean_correct_witness:
  "\<exists>s1 d1 s2 d2. omx__get_region True False (omx_cache_single_segment 4096 100) None
      (omx__endpoint_large_region_map_init 4, good_driver) = Some (Some 0, s1, d1)
    \<and> omx__regcache_clean True 8192 50 (s1, d1) = Some (s2, d2) \<and> keeps_used s1 s2 {} \<and> in_use s2 0"
proof -
  let ?r = "omx_cache_single_segment 4096 100"
  let ?m = "omx__endpoint_large_region_map_init 4"
  have inv: "large_inv True ?m" by (rule map_init_inv) simp
  have wf: "segs_wf ?r" by (rule single_segment_wf) simp
  obtain s1 d1 where g: "omx__get_region True False ?r None (?m, good_driver) = Some (Some 0, s1, d1)"
    and l: "reg_list s1 = [0]"
    by (simp add: omx__get_region_def omx__get_contigous_region_def omx__create_region_def
        omx__endpoint_large_region_alloc_def omx__register_region_def ioctl_def good_driver_def
        omx_cache_single_segment_def Let_def omx__endpoint_large_region_try_alloc_def
        omx__endpoint_large_region_map_init_def region_init_slot_def reserve_def)
  have sp: "large_inv True s1" "in_use s1 0" "covers_segs ?r (the_region s1 0)"
    "rg_segs (the_region s1 0) = ?r"
    using get_spec [OF inv wf g] g
    by (auto simp: omx__get_region_def omx__get_contigous_region_def omx__create_region_def
        omx__endpoint_large_region_alloc_def omx__register_region_def ioctl_def good_driver_def
        omx_cache_single_segment_def Let_def omx__endpoint_large_region_try_alloc_def
        omx__endpoint_large_region_map_init_def region_init_slot_def reserve_def the_region_def
        upd_region_def map_upd_region_def omx_clone_segments_def)
  have c: "omx__regcache_clean True 8192 50 (s1, d1) = Some (s1, d1)"
    using l sp(4) by (simp add: omx__regcache_clean_def omx__endpoint_regcache_clean_def
        regcache_clean1_def Let_def omx_cache_single_segment_def omx__segments_intersect_def)
  from regcache_clean_correct [OF sp(1) c] g c sp(2) show ?thesis by blast
qed

end
