(* ===== verification/Types.thy ===== *)
theory Types
  imports Sendq_Map Region_Map
begin

text \<open>
  The state of an endpoint (\<open>libxen2mx/omx_types.h\<close>): requests, partners, the endpoint with its
  queues, and the events the driver delivers (\<open>common/omx_io.h\<close>).

  A pointer to a request is a number into the store \<open>reqs\<close>; a pointer to a partner is its index in
  \<open>ep->partners\<close>. A C list linked through a member of its elements is the list of the numbers of
  the elements, kept where the C code keeps the list head; the element's link is implicit. Members
  of a union stand side by side in the record. Bit sets of states and resources are sets. A scan state
  that points to no segment array of the request is \<^term>\<open>None\<close>.
\<close>

subsection \<open>Partners\<close>

datatype omx__partner_localization = LOCALIZATION_LOCAL | LOCALIZATION_REMOTE | LOCALIZATION_UNKNOWN

datatype omx__partner_need_ack = NEED_NO_ACK | NEED_ACK_DELAYED | NEED_ACK_IMMEDIATE

text \<open>A received message, \<open>struct omx_evt_recv_msg\<close>; the union of its specific parts is a datatype.\<close>

datatype evt_specific =
    Ev_tiny (ev_checksum: u16) (ev_length: nat) (ev_tiny_data: bytes)
  | Ev_small (ev_recvq_offset: nat) (ev_length: nat) (ev_checksum: u16)
  | Ev_medium_frag (ev_recvq_offset: nat) (ev_msg_length: nat) (ev_frag_length: nat)
      (ev_frag_seqnum: nat) (ev_frag_pipeline: nat) (ev_checksum: u16)
  | Ev_rndv (ev_msg_length: nat) (ev_rdma_id: nat) (ev_rdma_seqnum: u8) (ev_rdma_offset: nat) (ev_checksum: u16)
  | Ev_notify (ev_length: nat) (ev_rdma_id: nat) (ev_rdma_seqnum: u8)

record omx_evt_recv_msg =
  ev_peer_index :: u16
  ev_src_endpoint :: u8
  ev_seqnum :: omx__seqnum_t
  ev_piggyack :: omx__seqnum_t
  ev_match_info :: u64
  ev_specific :: evt_specific

record omx_evt_recv_liback =
  lb_peer_index :: u16
  lb_src_endpoint :: u8
  lb_acknum :: u32
  lb_lib_seqnum :: omx__seqnum_t

record omx_evt_recv_connect_request =
  eq_peer_index :: u16
  eq_src_endpoint :: u8
  eq_shared :: bool
  eq_src_session_id :: u32
  eq_app_key :: u32
  eq_target_recv_seqnum_start :: omx__seqnum_t
  eq_connect_seqnum :: u8

record omx_evt_recv_connect_reply =
  er_peer_index :: u16
  er_src_endpoint :: u8
  er_shared :: bool
  er_src_session_id :: u32
  er_target_session_id :: u32
  er_target_recv_seqnum_start :: omx__seqnum_t
  er_connect_seqnum :: u8
  er_connect_status_code :: u8

record omx_evt_recv_nack_lib =
  nl_peer_index :: u16
  nl_src_endpoint :: u8
  nl_nack_type :: nat
  nl_seqnum :: omx__seqnum_t

record omx_evt_pull_done =
  pd_lib_cookie :: nat
  pd_puller_rdma_id :: nat
  pd_status :: nat

text \<open>The events of the two queues the driver fills, by their type.\<close>

datatype omx_evt =
    EVT_RECV_CONNECT_REQUEST omx_evt_recv_connect_request
  | EVT_RECV_CONNECT_REPLY omx_evt_recv_connect_reply
  | EVT_RECV_TINY omx_evt_recv_msg
  | EVT_RECV_SMALL omx_evt_recv_msg
  | EVT_RECV_MEDIUM_FRAG omx_evt_recv_msg
  | EVT_RECV_RNDV omx_evt_recv_msg
  | EVT_RECV_NOTIFY omx_evt_recv_msg
  | EVT_SEND_MEDIUMSQ_FRAG_DONE nat
  | EVT_PULL_DONE omx_evt_pull_done
  | EVT_RECV_LIBACK omx_evt_recv_liback
  | EVT_RECV_NACK_LIB omx_evt_recv_nack_lib
  | EVT_IGNORE
  | EVT_UNKNOWN

text \<open>The functions a message may be processed with, \<open>omx__process_recv_func_t\<close>.\<close>

datatype omx__process_recv_func_t =
  RECV_TINY | RECV_SMALL | RECV_MEDIUM_FRAG | RECV_RNDV | RECV_NOTIFY

record omx__early_packet =
  e_msg :: omx_evt_recv_msg
  e_recv_func :: omx__process_recv_func_t
  e_data :: bytes
  e_msg_length :: nat

text \<open>The four lists of requests a partner heads, all linked through \<open>partner_elt\<close>.\<close>

datatype pqid = P_NON_ACKED | P_CONNECT | P_PARTIAL_MEDIUM_RECV | P_NEED_SEQNUM_SEND

record omx__partner =
  p_known :: bool
  p_board_addr :: u64
  p_peer_index :: u16
  p_endpoint_index :: u8
  p_localization :: omx__partner_localization
  p_rndv_threshold :: nat
  true_session_id :: u32
  back_session_id :: u32
  p_connect_seqnum :: u8
  last_send_acknum :: u32
  last_recv_acknum :: u32
  p_queues :: "pqid \<Rightarrow> nat list"
  early_recv_q :: "omx__early_packet list"
  throttling_sends_nr :: u32
  next_send_seq :: omx__seqnum_t
  next_acked_send_seq :: omx__seqnum_t
  next_match_recv_seq :: omx__seqnum_t
  next_frag_recv_seq :: omx__seqnum_t
  last_acked_recv_seq :: omx__seqnum_t
  need_ack :: omx__partner_need_ack
  oldest_recv_time_not_acked :: nat
  user_context :: nat

subsection \<open>Requests\<close>

datatype omx__request_type =
    TYPE_NONE | TYPE_CONNECT | TYPE_SEND_TINY | TYPE_SEND_SMALL | TYPE_SEND_MEDIUMSQ
  | TYPE_SEND_MEDIUMVA | TYPE_SEND_LARGE | TYPE_RECV | TYPE_RECV_LARGE | TYPE_SEND_SELF
  | TYPE_RECV_SELF_UNEXPECTED

datatype omx__request_state =
    STATE_NEED_RESOURCES | STATE_NEED_SEQNUM | STATE_DRIVER_MEDIUMSQ_SENDING | STATE_NEED_ACK
  | STATE_NEED_REPLY | STATE_RECV_NEED_MATCHING | STATE_RECV_PARTIAL | STATE_DRIVER_PULLING
  | STATE_UNEXPECTED_RECV | STATE_UNEXPECTED_SELF_SEND | STATE_DONE | STATE_ZOMBIE | STATE_INTERNAL

datatype omx__request_resource =
    RESOURCE_EXP_EVENT | RESOURCE_SEND_LARGE_REGION | RESOURCE_LARGE_REGION
  | RESOURCE_PULL_HANDLE | RESOURCE_SENDQ_SLOT

definition OMX_REQUEST_SEND_MEDIUMSQ_RESOURCES :: "omx__request_resource set" where
  "OMX_REQUEST_SEND_MEDIUMSQ_RESOURCES = {RESOURCE_EXP_EVENT, RESOURCE_SENDQ_SLOT}"

definition OMX_REQUEST_SEND_LARGE_RESOURCES :: "omx__request_resource set" where
  "OMX_REQUEST_SEND_LARGE_RESOURCES = {RESOURCE_SEND_LARGE_REGION, RESOURCE_LARGE_REGION}"

definition OMX_REQUEST_PULL_RESOURCES :: "omx__request_resource set" where
  "OMX_REQUEST_PULL_RESOURCES = {RESOURCE_EXP_EVENT, RESOURCE_LARGE_REGION, RESOURCE_PULL_HANDLE}"

text \<open>An address as the application holds it: a partner and a session.\<close>

record omx__endpoint_addr =
  a_partner :: nat
  a_session_id :: u32

record omx_status =
  st_code :: omx_return_t
  st_addr :: omx__endpoint_addr
  st_match_info :: u64
  st_msg_length :: nat
  st_xfer_length :: nat
  st_context :: nat

record omx_request =
  r_live :: bool
  r_type :: omx__request_type
  r_state :: "omx__request_state set"
  r_missing_resources :: "omx__request_resource set"
  r_partner :: nat
  r_send_seqnum :: omx__seqnum_t
  r_last_send_jiffies :: nat
  r_resends_max :: u32
  r_resends :: u32
  r_status :: omx_status
  r_segs :: omx__req_segs
  r_param :: omx_cmd_msg
  r_copy :: bytes
  r_frags_nr :: nat
  r_frags_pending_nr :: u32
  r_sendq_map_index :: "nat list"
  r_region :: "nat option"
  r_region_seqnum :: u8
  r_match_info :: u64
  r_match_mask :: u64
  r_checksum :: u16
  r_seqnum :: omx__seqnum_t
  r_frags_received_mask :: u32
  r_accumulated_length :: nat
  r_scan_offset :: nat
  r_scan_state :: "omx_segscan_state option"
  r_local_region :: "nat option"
  r_pulled_rdma_id :: nat
  r_pulled_rdma_seqnum :: u8
  r_pulled_rdma_offset :: nat
  r_sreq :: nat
  r_connect_param :: omx_cmd_send_connect_request
  r_session_id :: u32
  r_connect_seqnum :: u8

subsection \<open>Endpoints\<close>

text \<open>
  What does not change during a call: the globals of the library, the description of the driver
  (with the clock), and the constants of the endpoint. The error handler of the endpoint returns a
  code, or ends the program (\<^term>\<open>None\<close>).
\<close>

record omx__config =
  regcache :: bool
  parallel_regcache :: bool
  medium_sendq :: bool
  selfcomms :: bool
  sharedcomms :: bool
  rndv_threshold :: nat
  shared_rndv_threshold :: nat
  ack_delay_jiffies :: nat
  resend_delay_jiffies :: nat
  not_acked_max :: nat
  endpoint_max :: nat
  hz :: u32
  jiffies :: nat
  medium_frag_length_max :: nat
  sendq_entry_shift :: nat
  ep_board_addr :: u64
  ep_endpoint_index :: u8
  ep_session_id :: u32
  app_key :: u32
  zombie_max :: u32
  ctxid_bits :: nat
  ctxid_max :: nat
  ctxid_shift :: nat
  ctxid_mask :: u64
  check_status_delay_jiffies :: nat
  error_handler :: "omx_return_t \<Rightarrow> omx_return_t option"

text \<open>
  The queues linked through \<open>queue_elt\<close> (the posted receives have one per context id; the last is
  the local \<open>tmp_req_q\<close> of \<open>omx__process_resend_requests\<close>), and those linked through \<open>ctxid_elt\<close>, which exist when the endpoint has context ids.
\<close>

datatype qid =
    UNEXP_REQ_Q | RECV_REQ_Q nat | NEED_RESOURCES_SEND_REQ_Q | DRIVER_MEDIUMSQ_SENDING_REQ_Q
  | LARGE_SEND_NEED_REPLY_REQ_Q | DRIVER_PULLING_REQ_Q | CONNECT_REQ_Q | NON_ACKED_REQ_Q
  | UNEXP_SELF_SEND_REQ_Q | TMP_REQ_Q

datatype progression_disabler = DISABLED_BY_API | DISABLED_IN_HANDLER

datatype desc_status =
    STATUS_EXP_EVENTQ_FULL | STATUS_UNEXP_EVENTQ_FULL | STATUS_IFACE_DOWN | STATUS_IFACE_BAD_MTU
  | STATUS_IFACE_REMOVED | STATUS_IFACE_HIGH_INTRCOAL

datatype cqid = CTXID_UNEXP_REQ_Q nat | CTXID_DONE_REQ_Q nat

text \<open>A slot of an event queue holds the id the driver wrote last, and the event.\<close>

record omx_endpoint =
  cfg :: omx__config
  drv :: driver
  mem :: memory
  sendq :: memory
  recvq :: memory
  reqs :: "nat \<Rightarrow> omx_request"
  next_rid :: nat
  partners :: "nat \<Rightarrow> omx__partner"
  myself :: nat
  progression_disabled :: "progression_disabler set"
  desc_status :: "desc_status set"
  last_check_jiffies :: nat
  unexp_eventq :: "nat \<Rightarrow> nat \<times> omx_evt"
  exp_eventq :: "nat \<Rightarrow> nat \<times> omx_evt"
  next_unexp_event_index :: u32
  next_exp_event_index :: u32
  wakeup_jiffies :: nat
  user_event_index :: u32
  avail_exp_events :: u32
  req_resends_max :: u32
  pull_resend_timeout_jiffies :: nat
  zombies :: u32
  done_req_q :: "nat list"
  queues :: "qid \<Rightarrow> nat list"
  ctxid_queues :: "cqid \<Rightarrow> nat list"
  sendq_map :: omx__sendq_map
  large :: large_state
  last_partners_acking_jiffies :: nat
  partners_to_ack_immediate_list :: "nat list"
  partners_to_ack_delayed_list :: "nat list"
  throttling_partners_list :: "nat list"

definition HAS_CTXIDS :: "omx_endpoint \<Rightarrow> bool" where
  "HAS_CTXIDS ep \<longleftrightarrow> ctxid_bits (cfg ep) > 0"

definition MATCHING_CROSS_CTXIDS :: "omx_endpoint \<Rightarrow> u64 \<Rightarrow> bool" where
  "MATCHING_CROSS_CTXIDS ep match \<longleftrightarrow> match AND ctxid_mask (cfg ep) \<noteq> 0"

definition CTXID_FROM_MATCHING :: "omx_endpoint \<Rightarrow> u64 \<Rightarrow> nat" where
  "CTXID_FROM_MATCHING ep match =
     unat (drop_bit (ctxid_shift (cfg ep)) match AND (word_of_nat (ctxid_max (cfg ep)) - 1))"

definition OMX_TINY_MSG_LENGTH_MAX :: nat where "OMX_TINY_MSG_LENGTH_MAX = 32"
definition OMX_SMALL_MSG_LENGTH_MAX :: nat where "OMX_SMALL_MSG_LENGTH_MAX = 128"
definition OMX_MEDIUM_FRAGS_MAX :: nat where "OMX_MEDIUM_FRAGS_MAX = 32"

subsection \<open>Access to the stores\<close>

abbreviation rq :: "omx_endpoint \<Rightarrow> nat \<Rightarrow> omx_request" where
  "rq ep r \<equiv> reqs ep r"

abbreviation pt :: "omx_endpoint \<Rightarrow> nat \<Rightarrow> omx__partner" where
  "pt ep p \<equiv> partners ep p"

definition upd_req :: "nat \<Rightarrow> (omx_request \<Rightarrow> omx_request) \<Rightarrow> omx_endpoint \<Rightarrow> omx_endpoint" where
  "upd_req r f ep = ep\<lparr>reqs := (reqs ep)(r := f (reqs ep r))\<rparr>"

definition upd_partner :: "nat \<Rightarrow> (omx__partner \<Rightarrow> omx__partner) \<Rightarrow> omx_endpoint \<Rightarrow> omx_endpoint" where
  "upd_partner p f ep = ep\<lparr>partners := (partners ep)(p := f (partners ep p))\<rparr>"

definition set_state :: "omx__request_state \<Rightarrow> nat \<Rightarrow> omx_endpoint \<Rightarrow> omx_endpoint" where
  "set_state f r = upd_req r (\<lambda>q. q\<lparr>r_state := insert f (r_state q)\<rparr>)"

definition clear_state :: "omx__request_state \<Rightarrow> nat \<Rightarrow> omx_endpoint \<Rightarrow> omx_endpoint" where
  "clear_state f r = upd_req r (\<lambda>q. q\<lparr>r_state := r_state q - {f}\<rparr>)"

definition set_code :: "omx_return_t \<Rightarrow> nat \<Rightarrow> omx_endpoint \<Rightarrow> omx_endpoint" where
  "set_code c r = upd_req r (\<lambda>q. q\<lparr>r_status := (r_status q)\<lparr>st_code := c\<rparr>\<rparr>)"

definition ep_ioctl :: "ioctl_cmd \<Rightarrow> omx_endpoint \<Rightarrow> errno option \<times> omx_endpoint" where
  "ep_ioctl c ep = (let (e, d) = ioctl c (drv ep) in (e, ep\<lparr>drv := d\<rparr>))"

definition ep_malloc :: "omx_endpoint \<Rightarrow> address option \<times> omx_endpoint" where
  "ep_malloc ep = (let (b, d) = malloc (drv ep) in (b, ep\<lparr>drv := d\<rparr>))"

text \<open>\<open>omx__error_with_ep\<close> and \<open>omx__error_with_req\<close>: a success passes, an error goes to the handler.\<close>

definition omx__error_with_ep :: "omx_endpoint \<Rightarrow> omx_return_t \<Rightarrow> omx_return_t option" where
  "omx__error_with_ep ep ret = (if ret = OMX_SUCCESS then Some OMX_SUCCESS else error_handler (cfg ep) ret)"

definition omx__error_with_req :: "omx_endpoint \<Rightarrow> nat \<Rightarrow> omx_return_t \<Rightarrow> omx_return_t option" where
  "omx__error_with_req ep r code = (if code = OMX_SUCCESS then Some OMX_SUCCESS else error_handler (cfg ep) code)"

text \<open>The regions with the driver of the endpoint.\<close>

definition with_large ::
  "(large_state \<times> driver \<Rightarrow> (large_state \<times> driver) option) \<Rightarrow> omx_endpoint \<Rightarrow> omx_endpoint option"
where
  "with_large f ep = do {
     (s, d) \<leftarrow> f (large ep, drv ep);
     Some (ep\<lparr>large := s, drv := d\<rparr>)
   }"

definition ep_get_region ::
  "omx__req_segs \<Rightarrow> nat option \<Rightarrow> omx_endpoint \<Rightarrow> (nat option \<times> omx_endpoint) option"
where
  "ep_get_region sg resv ep = do {
     (a, s, d) \<leftarrow> omx__get_region (regcache (cfg ep)) (parallel_regcache (cfg ep)) sg resv (large ep, drv ep);
     Some (a, ep\<lparr>large := s, drv := d\<rparr>)
   }"

definition ep_put_region :: "nat \<Rightarrow> nat option \<Rightarrow> omx_endpoint \<Rightarrow> omx_endpoint option" where
  "ep_put_region i resv ep = with_large (omx__put_region (regcache (cfg ep)) i resv) ep"

lemmas store_defs = upd_req_def upd_partner_def set_state_def clear_state_def set_code_def

end
