(* ===== verification/Request_Queues.thy ===== *)
theory Request_Queues
  imports Types
begin

text \<open>
  Allocation of requests and the queues they are on (\<open>libxen2mx/omx_request.h\<close>), with the state
  machine by which a request becomes done: early, while it still needs an acknowledgement, or for
  real. \<open>list_del\<close> takes a request off whichever list its link is on.
\<close>

subsection \<open>Request allocation\<close>

definition omx__request_alloc :: "omx_endpoint \<Rightarrow> nat option \<times> omx_endpoint" where
  "omx__request_alloc ep =
     (let (p, ep1) = ep_malloc ep in
      if p = None then (None, ep1)
      else let r = next_rid ep1 in
        (Some r, set_code OMX_SUCCESS r
           (upd_req r (\<lambda>q. q\<lparr>r_live := True, r_state := {}\<rparr>) (ep1\<lparr>next_rid := Suc r\<rparr>))))"

definition omx__request_free :: "nat \<Rightarrow> omx_endpoint \<Rightarrow> omx_endpoint" where
  "omx__request_free r = upd_req r (\<lambda>q. q\<lparr>r_live := False\<rparr>)"

subsection \<open>Endpoint queues\<close>

definition omx__enqueue_request :: "qid \<Rightarrow> nat \<Rightarrow> omx_endpoint \<Rightarrow> omx_endpoint" where
  "omx__enqueue_request k r ep = ep\<lparr>queues := (queues ep)(k := queues ep k @ [r])\<rparr>"

definition omx__requeue_request :: "qid \<Rightarrow> nat \<Rightarrow> omx_endpoint \<Rightarrow> omx_endpoint" where
  "omx__requeue_request k r ep = ep\<lparr>queues := (queues ep)(k := r # queues ep k)\<rparr>"

definition omx__dequeue_request :: "nat \<Rightarrow> omx_endpoint \<Rightarrow> omx_endpoint" where
  "omx__dequeue_request r ep = ep\<lparr>queues := (\<lambda>k. removeAll r (queues ep k))\<rparr>"

definition omx__first_request :: "qid \<Rightarrow> omx_endpoint \<Rightarrow> nat" where
  "omx__first_request k ep = hd (queues ep k)"

definition omx__empty_queue :: "qid \<Rightarrow> omx_endpoint \<Rightarrow> bool" where
  "omx__empty_queue k ep \<longleftrightarrow> queues ep k = []"

definition omx__queue_count :: "qid \<Rightarrow> omx_endpoint \<Rightarrow> nat" where
  "omx__queue_count k ep = length (queues ep k)"

definition omx__enqueue_ctxid_request :: "cqid \<Rightarrow> nat \<Rightarrow> omx_endpoint \<Rightarrow> omx_endpoint" where
  "omx__enqueue_ctxid_request k r ep = ep\<lparr>ctxid_queues := (ctxid_queues ep)(k := ctxid_queues ep k @ [r])\<rparr>"

definition omx__dequeue_ctxid_request :: "nat \<Rightarrow> omx_endpoint \<Rightarrow> omx_endpoint" where
  "omx__dequeue_ctxid_request r ep = ep\<lparr>ctxid_queues := (\<lambda>k. removeAll r (ctxid_queues ep k))\<rparr>"

subsection \<open>Done requests\<close>

definition enqueue_done :: "nat \<Rightarrow> nat \<Rightarrow> omx_endpoint \<Rightarrow> omx_endpoint" where
  "enqueue_done ctxid r ep =
     (let ep1 = ep\<lparr>done_req_q := done_req_q ep @ [r]\<rparr> in
      if HAS_CTXIDS ep then omx__enqueue_ctxid_request (CTXID_DONE_REQ_Q ctxid) r ep1 else ep1)"

definition omx__notify_user_event :: "omx_endpoint \<Rightarrow> omx_endpoint" where
  "omx__notify_user_event ep = ep\<lparr>user_event_index := user_event_index ep + 1\<rparr>"

definition omx__notify_request_done_early :: "nat \<Rightarrow> nat \<Rightarrow> omx_endpoint \<Rightarrow> omx_endpoint" where
  "omx__notify_request_done_early ctxid r ep =
     (if zombies ep \<ge> zombie_max (cfg ep) then ep
      else let ep1 = set_state STATE_DONE r ep;
               ep2 = (if STATE_ZOMBIE \<notin> r_state (rq ep r) then enqueue_done ctxid r ep1 else ep1)
           in omx__notify_user_event ep2)"

definition omx__notify_request_done :: "nat \<Rightarrow> nat \<Rightarrow> omx_endpoint \<Rightarrow> omx_endpoint" where
  "omx__notify_request_done ctxid r ep =
     (let st = r_state (rq ep r) in
      if STATE_INTERNAL \<in> st then set_state STATE_DONE r ep
      else if STATE_ZOMBIE \<in> st then (omx__request_free r ep)\<lparr>zombies := zombies ep - 1\<rparr>
      else if STATE_DONE \<notin> st then enqueue_done ctxid r (set_state STATE_DONE r ep)
      else ep)"

definition omx__dequeue_done_request :: "nat \<Rightarrow> omx_endpoint \<Rightarrow> omx_endpoint" where
  "omx__dequeue_done_request r ep =
     (let ep1 = ep\<lparr>done_req_q := removeAll r (done_req_q ep)\<rparr> in
      if HAS_CTXIDS ep then omx__dequeue_ctxid_request r ep1 else ep1)"

definition omx__first_done_anyctxid_request :: "omx_endpoint \<Rightarrow> nat" where
  "omx__first_done_anyctxid_request ep = hd (done_req_q ep)"

definition omx__empty_done_ctxid_queue :: "nat \<Rightarrow> omx_endpoint \<Rightarrow> bool" where
  "omx__empty_done_ctxid_queue ctxid ep \<longleftrightarrow> ctxid_queues ep (CTXID_DONE_REQ_Q ctxid) = []"

definition omx__empty_done_anyctxid_queue :: "omx_endpoint \<Rightarrow> bool" where
  "omx__empty_done_anyctxid_queue ep \<longleftrightarrow> done_req_q ep = []"

subsection \<open>Partner queues\<close>

text \<open>The link of a request is on a list of its partner.\<close>

definition omx__enqueue_partner_request :: "nat \<Rightarrow> pqid \<Rightarrow> nat \<Rightarrow> omx_endpoint \<Rightarrow> omx_endpoint" where
  "omx__enqueue_partner_request p k r =
     upd_partner p (\<lambda>q. q\<lparr>p_queues := (p_queues q)(k := p_queues q k @ [r])\<rparr>)"

definition omx__dequeue_partner_request :: "nat \<Rightarrow> omx_endpoint \<Rightarrow> omx_endpoint" where
  "omx__dequeue_partner_request r ep =
     upd_partner (r_partner (rq ep r)) (\<lambda>q. q\<lparr>p_queues := (\<lambda>k. removeAll r (p_queues q k))\<rparr>) ep"

definition omx__empty_partner_queue :: "nat \<Rightarrow> pqid \<Rightarrow> omx_endpoint \<Rightarrow> bool" where
  "omx__empty_partner_queue p k ep \<longleftrightarrow> p_queues (pt ep p) k = []"

definition omx__first_partner_request :: "nat \<Rightarrow> pqid \<Rightarrow> omx_endpoint \<Rightarrow> nat" where
  "omx__first_partner_request p k ep = hd (p_queues (pt ep p) k)"

definition omx__dequeue_first_partner_request ::
  "nat \<Rightarrow> pqid \<Rightarrow> omx_endpoint \<Rightarrow> nat option \<times> omx_endpoint"
where
  "omx__dequeue_first_partner_request p k ep =
     (case p_queues (pt ep p) k of [] \<Rightarrow> (None, ep)
      | r # _ \<Rightarrow> (Some r, omx__dequeue_partner_request r ep))"

subsection \<open>Early packets of a partner\<close>

definition omx__dequeue_partner_early_packet :: "nat \<Rightarrow> omx__early_packet \<Rightarrow> omx_endpoint \<Rightarrow> omx_endpoint" where
  "omx__dequeue_partner_early_packet p early =
     upd_partner p (\<lambda>q. q\<lparr>early_recv_q := remove1 early (early_recv_q q)\<rparr>)"

definition omx__empty_partner_early_packet_queue :: "nat \<Rightarrow> omx_endpoint \<Rightarrow> bool" where
  "omx__empty_partner_early_packet_queue p ep \<longleftrightarrow> early_recv_q (pt ep p) = []"

definition omx__first_partner_early_packet :: "nat \<Rightarrow> omx_endpoint \<Rightarrow> omx__early_packet" where
  "omx__first_partner_early_packet p ep = hd (early_recv_q (pt ep p))"

definition omx__last_partner_early_packet :: "nat \<Rightarrow> omx_endpoint \<Rightarrow> omx__early_packet" where
  "omx__last_partner_early_packet p ep = last (early_recv_q (pt ep p))"

end
