(* ===== verification/Partner_Acks.thy ===== *)
theory Partner_Acks
  imports Request_Queues
begin

text \<open>
  Helpers on partners (\<open>libxen2mx/omx_lib.h\<close>): timeouts, looking up a partner, remembering that a
  partner must be acknowledged (at once or later) and that it has sends waiting for sequence numbers.
\<close>

subsection \<open>Timeouts\<close>

definition OMX_TIMEOUT_INFINITE :: u32 where "OMX_TIMEOUT_INFINITE = -1"
definition OMX_CMD_WAIT_EVENT_TIMEOUT_INFINITE :: u64 where "OMX_CMD_WAIT_EVENT_TIMEOUT_INFINITE = -1"
definition OMX_NO_WAKEUP_JIFFIES :: nat where "OMX_NO_WAKEUP_JIFFIES = 0"

definition ACK_PER_SECOND :: u32 where "ACK_PER_SECOND = 64"
definition RESEND_PER_SECOND :: u32 where "RESEND_PER_SECOND = 2"

definition omx__ack_delay_jiffies :: "u32 \<Rightarrow> u32" where
  "omx__ack_delay_jiffies h = (h + ACK_PER_SECOND) div ACK_PER_SECOND"

definition omx__resend_delay_jiffies :: "u32 \<Rightarrow> u32" where
  "omx__resend_delay_jiffies h = (h + RESEND_PER_SECOND) div RESEND_PER_SECOND"

definition omx__timeout_ms_to_resends :: "u32 \<Rightarrow> u32" where
  "omx__timeout_ms_to_resends ms = (ms * RESEND_PER_SECOND + 1023) div 1024"

definition omx__timeout_ms_to_relative_jiffies :: "u32 \<Rightarrow> u32 \<Rightarrow> u64" where
  "omx__timeout_ms_to_relative_jiffies h ms =
     (if ms = OMX_TIMEOUT_INFINITE then OMX_CMD_WAIT_EVENT_TIMEOUT_INFINITE
      else ucast ((ms * h + 1023) div 1024))"

definition omx__timeout_ms_to_absolute_jiffies :: "u32 \<Rightarrow> u64 \<Rightarrow> u32 \<Rightarrow> u64" where
  "omx__timeout_ms_to_absolute_jiffies h now ms =
     (if ms = OMX_TIMEOUT_INFINITE then OMX_CMD_WAIT_EVENT_TIMEOUT_INFINITE
      else now + ucast ((ms * h + 1023) div 1024))"

definition omx_set_request_timeout :: "nat option \<Rightarrow> u32 \<Rightarrow> omx_endpoint \<Rightarrow> omx_return_t \<times> omx_endpoint" where
  "omx_set_request_timeout request ms ep =
     (let jiffies = ucast (omx__timeout_ms_to_relative_jiffies (hz (cfg ep)) ms) :: u32;
          resends = omx__timeout_ms_to_resends ms
      in (OMX_SUCCESS,
          case request of
            Some r \<Rightarrow> upd_req r (\<lambda>q. q\<lparr>r_resends_max := resends\<rparr>) ep
          | None \<Rightarrow> ep\<lparr>pull_resend_timeout_jiffies := unat jiffies, req_resends_max := resends\<rparr>))"

subsection \<open>Addresses and partners\<close>

definition omx__partner_from_addr :: "omx__endpoint_addr \<Rightarrow> nat" where
  "omx__partner_from_addr addr = a_partner addr"

definition omx__partner_session_to_addr :: "nat \<Rightarrow> u32 \<Rightarrow> omx__endpoint_addr" where
  "omx__partner_session_to_addr p session_id = \<lparr>a_partner = p, a_session_id = session_id\<rparr>"

definition omx__partner_recv_to_addr :: "omx_endpoint \<Rightarrow> nat \<Rightarrow> omx__endpoint_addr" where
  "omx__partner_recv_to_addr ep p = omx__partner_session_to_addr p (back_session_id (pt ep p))"

definition omx__partner_localization_shared :: "omx__partner \<Rightarrow> bool" where
  "omx__partner_localization_shared partner \<longleftrightarrow> p_localization partner = LOCALIZATION_LOCAL"

definition omx__partner_index :: "omx_endpoint \<Rightarrow> u16 \<Rightarrow> u8 \<Rightarrow> nat" where
  "omx__partner_index ep peer_index endpoint_index =
     unat endpoint_index + unat peer_index * endpoint_max (cfg ep)"

text \<open>\<^term>\<open>None\<close> for the null pointer of an unknown partner.\<close>

definition omx__partner_recv_lookup :: "omx_endpoint \<Rightarrow> u16 \<Rightarrow> u8 \<Rightarrow> nat option" where
  "omx__partner_recv_lookup ep peer_index endpoint_index =
     (let i = omx__partner_index ep peer_index endpoint_index
      in if p_known (pt ep i) then Some i else None)"

subsection \<open>Acknowledgements to send\<close>

definition omx__mark_partner_need_ack_delayed :: "nat \<Rightarrow> omx_endpoint \<Rightarrow> omx_endpoint" where
  "omx__mark_partner_need_ack_delayed p ep =
     (if need_ack (pt ep p) = NEED_NO_ACK
      then (upd_partner p (\<lambda>q. q\<lparr>need_ack := NEED_ACK_DELAYED,
                                 oldest_recv_time_not_acked := jiffies (cfg ep)\<rparr>) ep)
             \<lparr>partners_to_ack_delayed_list := partners_to_ack_delayed_list ep @ [p]\<rparr>
      else ep)"

definition omx__mark_partner_need_ack_immediate :: "nat \<Rightarrow> omx_endpoint \<Rightarrow> omx_endpoint" where
  "omx__mark_partner_need_ack_immediate p ep =
     (if need_ack (pt ep p) \<noteq> NEED_ACK_IMMEDIATE
      then let ep1 =
             (if need_ack (pt ep p) = NEED_ACK_DELAYED
              then ep\<lparr>partners_to_ack_delayed_list := removeAll p (partners_to_ack_delayed_list ep),
                      partners_to_ack_immediate_list := p # partners_to_ack_immediate_list ep\<rparr>
              else ep\<lparr>partners_to_ack_immediate_list := partners_to_ack_immediate_list ep @ [p]\<rparr>)
           in upd_partner p (\<lambda>q. q\<lparr>need_ack := NEED_ACK_IMMEDIATE\<rparr>) ep1
      else ep)"

definition omx__get_partner_needed_ack :: "omx_endpoint \<Rightarrow> nat \<Rightarrow> omx__seqnum_t" where
  "omx__get_partner_needed_ack ep p = next_frag_recv_seq (pt ep p)"

text \<open>\<open>list_del\<close> on \<open>endpoint_partners_to_ack_elt\<close> takes the partner off either list.\<close>

definition omx__mark_partner_ack_sent :: "nat \<Rightarrow> omx_endpoint \<Rightarrow> omx_endpoint" where
  "omx__mark_partner_ack_sent p ep =
     (let ep1 = (if need_ack (pt ep p) \<noteq> NEED_NO_ACK
                 then (upd_partner p (\<lambda>q. q\<lparr>need_ack := NEED_NO_ACK\<rparr>) ep)
                        \<lparr>partners_to_ack_delayed_list := removeAll p (partners_to_ack_delayed_list ep),
                         partners_to_ack_immediate_list := removeAll p (partners_to_ack_immediate_list ep)\<rparr>
                 else ep)
      in upd_partner p (\<lambda>q. q\<lparr>last_acked_recv_seq := next_frag_recv_seq q\<rparr>) ep1)"

subsection \<open>Throttling\<close>

definition omx__mark_partner_throttling :: "nat \<Rightarrow> omx_endpoint \<Rightarrow> omx_endpoint" where
  "omx__mark_partner_throttling p ep =
     (let nr = throttling_sends_nr (pt ep p);
          ep1 = upd_partner p (\<lambda>q. q\<lparr>throttling_sends_nr := nr + 1\<rparr>) ep
      in if nr = 0 then ep1\<lparr>throttling_partners_list := throttling_partners_list ep @ [p]\<rparr> else ep1)"

definition omx__update_partner_throttling :: "nat \<Rightarrow> nat \<Rightarrow> omx_endpoint \<Rightarrow> omx_endpoint" where
  "omx__update_partner_throttling p nr ep =
     (if nr = 0 then ep
      else let left = throttling_sends_nr (pt ep p) - word_of_nat nr;
               ep1 = upd_partner p (\<lambda>q. q\<lparr>throttling_sends_nr := left\<rparr>) ep
           in if left = 0 then ep1\<lparr>throttling_partners_list := removeAll p (throttling_partners_list ep)\<rparr>
              else ep1)"

text \<open>The window of sends a partner has not acknowledged is full.\<close>

definition throttled :: "omx__partner \<Rightarrow> bool" where
  "throttled partner \<longleftrightarrow>
     OMX__SEQNUM (next_send_seq partner - next_acked_send_seq partner) \<ge> OMX__THROTTLING_OFFSET_MAX"

subsection \<open>Board addresses\<close>

text \<open>
  Printing and reading an address as six pairs of hexadecimal digits. Only what
  \<open>sscanf\<close> accepts from the printed form is modelled: a string of that shape.
\<close>

definition hex_digit :: "nat \<Rightarrow> char" where
  "hex_digit n = (''0123456789abcdef'' ! n)"

definition hex_pair :: "u8 \<Rightarrow> string" where
  "hex_pair b = [hex_digit (unat b div 16), hex_digit (unat b mod 16)]"

definition addr_byte :: "u64 \<Rightarrow> nat \<Rightarrow> u8" where
  "addr_byte addr k = ucast (drop_bit (8 * k) addr)"

definition omx__board_addr_sprintf :: "u64 \<Rightarrow> string" where
  "omx__board_addr_sprintf addr =
     hex_pair (addr_byte addr 5) @ '':'' @ hex_pair (addr_byte addr 4) @ '':'' @
     hex_pair (addr_byte addr 3) @ '':'' @ hex_pair (addr_byte addr 2) @ '':'' @
     hex_pair (addr_byte addr 1) @ '':'' @ hex_pair (addr_byte addr 0)"

definition hex_value :: "char \<Rightarrow> nat option" where
  "hex_value c = (let n = of_char c :: nat in
     if 48 \<le> n \<and> n \<le> 57 then Some (n - 48)
     else if 97 \<le> n \<and> n \<le> 102 then Some (n - 87)
     else if 65 \<le> n \<and> n \<le> 70 then Some (n - 55) else None)"

definition hex_byte :: "char \<Rightarrow> char \<Rightarrow> u8 option" where
  "hex_byte a b = (case (hex_value a, hex_value b) of
     (Some x, Some y) \<Rightarrow> Some (word_of_nat (16 * x + y)) | _ \<Rightarrow> None)"

fun scan_bytes :: "string \<Rightarrow> u8 list option" where
  "scan_bytes [a, b] = map_option (\<lambda>x. [x]) (hex_byte a b)"
| "scan_bytes (a # b # c # s) =
     (if c \<noteq> CHR '':'' then None
      else case (hex_byte a b, scan_bytes s) of (Some x, Some xs) \<Rightarrow> Some (x # xs) | _ \<Rightarrow> None)"
| "scan_bytes _ = None"

definition omx__board_addr_sscanf :: "string \<Rightarrow> u64 option" where
  "omx__board_addr_sscanf buffer =
     (case scan_bytes buffer of
        Some [b0, b1, b2, b3, b4, b5] \<Rightarrow>
          Some (push_bit 40 (ucast b0) + push_bit 32 (ucast b1) + push_bit 24 (ucast b2)
                + push_bit 16 (ucast b3) + push_bit 8 (ucast b4) + ucast b5)
      | _ \<Rightarrow> None)"

subsection \<open>Reading the store\<close>

lemma pt_upd [simp]: "partners (upd_partner p f ep) q = (if q = p then f (pt ep p) else pt ep q)"
  by (simp add: upd_partner_def)

lemma rq_upd [simp]: "reqs (upd_req r f ep) q = (if q = r then f (rq ep r) else rq ep q)"
  by (simp add: upd_req_def)

lemma upd_partner_frame [simp]:
  "cfg (upd_partner p f ep) = cfg ep" "drv (upd_partner p f ep) = drv ep" "mem (upd_partner p f ep) = mem ep"
  "reqs (upd_partner p f ep) = reqs ep" "queues (upd_partner p f ep) = queues ep"
  "done_req_q (upd_partner p f ep) = done_req_q ep" "ctxid_queues (upd_partner p f ep) = ctxid_queues ep"
  "zombies (upd_partner p f ep) = zombies ep" "large (upd_partner p f ep) = large ep"
  "sendq_map (upd_partner p f ep) = sendq_map ep" "avail_exp_events (upd_partner p f ep) = avail_exp_events ep"
  "partners_to_ack_immediate_list (upd_partner p f ep) = partners_to_ack_immediate_list ep"
  "partners_to_ack_delayed_list (upd_partner p f ep) = partners_to_ack_delayed_list ep"
  "throttling_partners_list (upd_partner p f ep) = throttling_partners_list ep"
  "next_rid (upd_partner p f ep) = next_rid ep" "myself (upd_partner p f ep) = myself ep"
  "last_partners_acking_jiffies (upd_partner p f ep) = last_partners_acking_jiffies ep"
  "user_event_index (upd_partner p f ep) = user_event_index ep" "sendq (upd_partner p f ep) = sendq ep"
  "req_resends_max (upd_partner p f ep) = req_resends_max ep"
  by (simp_all add: upd_partner_def)

lemma upd_req_frame [simp]:
  "cfg (upd_req p f ep) = cfg ep" "drv (upd_req p f ep) = drv ep" "mem (upd_req p f ep) = mem ep"
  "partners (upd_req p f ep) = partners ep" "queues (upd_req p f ep) = queues ep"
  "done_req_q (upd_req p f ep) = done_req_q ep" "ctxid_queues (upd_req p f ep) = ctxid_queues ep"
  "zombies (upd_req p f ep) = zombies ep" "large (upd_req p f ep) = large ep"
  "sendq_map (upd_req p f ep) = sendq_map ep" "avail_exp_events (upd_req p f ep) = avail_exp_events ep"
  "partners_to_ack_immediate_list (upd_req p f ep) = partners_to_ack_immediate_list ep"
  "partners_to_ack_delayed_list (upd_req p f ep) = partners_to_ack_delayed_list ep"
  "throttling_partners_list (upd_req p f ep) = throttling_partners_list ep"
  "next_rid (upd_req p f ep) = next_rid ep" "myself (upd_req p f ep) = myself ep"
  "last_partners_acking_jiffies (upd_req p f ep) = last_partners_acking_jiffies ep"
  "user_event_index (upd_req p f ep) = user_event_index ep" "sendq (upd_req p f ep) = sendq ep"
  "req_resends_max (upd_req p f ep) = req_resends_max ep"
  by (simp_all add: upd_req_def)

subsection \<open>The lists of partners to acknowledge\<close>

text \<open>
  A partner is on the list its \<open>need_ack\<close> names, once, and on no other; the delayed list is in the
  order of the receptions that have to be acknowledged.
\<close>

definition ack_lists_ok :: "omx_endpoint \<Rightarrow> bool" where
  "ack_lists_ok ep \<longleftrightarrow>
     distinct (partners_to_ack_immediate_list ep) \<and> distinct (partners_to_ack_delayed_list ep)
     \<and> (\<forall>p. p \<in> set (partners_to_ack_immediate_list ep) \<longleftrightarrow> need_ack (pt ep p) = NEED_ACK_IMMEDIATE)
     \<and> (\<forall>p. p \<in> set (partners_to_ack_delayed_list ep) \<longleftrightarrow> need_ack (pt ep p) = NEED_ACK_DELAYED)
     \<and> sorted (map (\<lambda>p. oldest_recv_time_not_acked (pt ep p)) (partners_to_ack_delayed_list ep))
     \<and> (\<forall>p \<in> set (partners_to_ack_delayed_list ep). oldest_recv_time_not_acked (pt ep p) \<le> jiffies (cfg ep))"

lemma sorted_map_removeAll: "sorted (map f xs) \<Longrightarrow> sorted (map f (removeAll x xs))"
  by (induction xs) auto

lemma map_cong_notin: "p \<notin> set xs \<Longrightarrow> (\<And>q. q \<noteq> p \<Longrightarrow> f q = g q) \<Longrightarrow> map f xs = map g xs"
  by (induction xs) auto

lemma ack_ok_delayed: "ack_lists_ok ep \<Longrightarrow> ack_lists_ok (omx__mark_partner_need_ack_delayed p ep)"
proof -
  assume ok: "ack_lists_ok ep"
  show ?thesis
  proof (cases "need_ack (pt ep p) = NEED_NO_ACK")
    case False
    with ok show ?thesis by (simp add: omx__mark_partner_need_ack_delayed_def)
  next
    case True
    then have p: "p \<notin> set (partners_to_ack_delayed_list ep)" "p \<notin> set (partners_to_ack_immediate_list ep)"
      using ok by (auto simp: ack_lists_ok_def)
    let ?ep = "omx__mark_partner_need_ack_delayed p ep"
    have m: "map (\<lambda>q. oldest_recv_time_not_acked (pt ?ep q)) (partners_to_ack_delayed_list ep)
        = map (\<lambda>q. oldest_recv_time_not_acked (pt ep q)) (partners_to_ack_delayed_list ep)"
      by (rule map_cong_notin [OF p(1)]) (use True in \<open>simp add: omx__mark_partner_need_ack_delayed_def\<close>)
    have "sorted (map (\<lambda>q. oldest_recv_time_not_acked (pt ?ep q)) (partners_to_ack_delayed_list ?ep))"
    proof -
      have "partners_to_ack_delayed_list ?ep = partners_to_ack_delayed_list ep @ [p]"
        "oldest_recv_time_not_acked (pt ?ep p) = jiffies (cfg ep)"
        using True by (simp_all add: omx__mark_partner_need_ack_delayed_def)
      moreover have "oldest_recv_time_not_acked (pt ?ep q) \<le> jiffies (cfg ep)"
        if "q \<in> set (partners_to_ack_delayed_list ep)" for q
        using m that ok by (auto simp: ack_lists_ok_def)
      moreover have "sorted (map (\<lambda>q. oldest_recv_time_not_acked (pt ?ep q)) (partners_to_ack_delayed_list ep))"
        using ok unfolding m by (simp add: ack_lists_ok_def)
      ultimately show ?thesis by (simp add: sorted_append)
    qed
    with ok p True show ?thesis
      by (auto simp: ack_lists_ok_def omx__mark_partner_need_ack_delayed_def)
  qed
qed

lemma ack_lists_move:
  assumes ok: "ack_lists_ok ep" and c: "cfg ep' = cfg ep"
    and del: "partners_to_ack_delayed_list ep' = removeAll p (partners_to_ack_delayed_list ep)"
    and imm: "distinct (partners_to_ack_immediate_list ep')"
      "set (partners_to_ack_immediate_list ep') =
         (if st = NEED_ACK_IMMEDIATE then insert p (set (partners_to_ack_immediate_list ep))
          else set (partners_to_ack_immediate_list ep) - {p})"
    and st: "\<And>q. need_ack (pt ep' q) = (if q = p then st else need_ack (pt ep q))" "st \<noteq> NEED_ACK_DELAYED"
    and old: "\<And>q. oldest_recv_time_not_acked (pt ep' q) = oldest_recv_time_not_acked (pt ep q)"
  shows "ack_lists_ok ep'"
  unfolding ack_lists_ok_def del old c
  using ok imm st by (auto simp: ack_lists_ok_def distinct_removeAll sorted_map_removeAll)

lemma ack_ok_immediate: "ack_lists_ok ep \<Longrightarrow> ack_lists_ok (omx__mark_partner_need_ack_immediate p ep)"
proof -
  assume ok: "ack_lists_ok ep"
  show ?thesis
  proof (cases "need_ack (pt ep p) = NEED_ACK_IMMEDIATE")
    case True
    with ok show ?thesis by (simp add: omx__mark_partner_need_ack_immediate_def)
  next
    case False
    then have "p \<notin> set (partners_to_ack_immediate_list ep)"
      "need_ack (pt ep p) \<noteq> NEED_ACK_DELAYED \<Longrightarrow> p \<notin> set (partners_to_ack_delayed_list ep)"
      using ok by (auto simp: ack_lists_ok_def)
    then show ?thesis
      by (intro ack_lists_move [OF ok, where p = p and st = NEED_ACK_IMMEDIATE])
        (use ok False in \<open>auto simp: omx__mark_partner_need_ack_immediate_def Let_def ack_lists_ok_def\<close>)
  qed
qed

lemma ack_ok_sent: "ack_lists_ok ep \<Longrightarrow> ack_lists_ok (omx__mark_partner_ack_sent p ep)"
proof -
  assume ok: "ack_lists_ok ep"
  have "need_ack (pt ep p) = NEED_NO_ACK \<Longrightarrow>
      p \<notin> set (partners_to_ack_immediate_list ep) \<and> p \<notin> set (partners_to_ack_delayed_list ep)"
    using ok by (auto simp: ack_lists_ok_def)
  then show ?thesis
    by (intro ack_lists_move [OF ok, where p = p and st = NEED_NO_ACK])
      (use ok in \<open>auto simp: omx__mark_partner_ack_sent_def Let_def ack_lists_ok_def distinct_removeAll\<close>)
qed

subsection \<open>Printing and reading addresses\<close>

lemma hex_value_digit: "n < 16 \<Longrightarrow> hex_value (hex_digit n) = Some n"
proof -
  assume "n < 16"
  moreover have "list_all (\<lambda>d. hex_value (hex_digit d) = Some d) [0..<16]"
    by (simp add: upt_rec hex_value_def hex_digit_def)
  ultimately show ?thesis by (simp add: list_all_iff)
qed

lemma hex_byte_pair: "hex_byte (hex_digit (unat b div 16)) (hex_digit (unat b mod 16)) = Some (b :: u8)"
proof -
  have "unat b < 256" using unsigned_less [of b] by simp
  then have "hex_value (hex_digit (unat b div 16)) = Some (unat b div 16)"
    "hex_value (hex_digit (unat b mod 16)) = Some (unat b mod 16)"
    by (auto intro!: hex_value_digit)
  moreover have "16 * (unat b div 16) + unat b mod 16 = unat b" by simp
  ultimately show ?thesis by (simp only: hex_byte_def prod.case option.case unsigned_of_nat) simp
qed

lemma take_bit_step: "push_bit n (take_bit 8 (drop_bit n a)) + take_bit n a = take_bit (n + 8) (a :: u64)"
  using bits_ident [of n "take_bit (n + 8) a"] by (simp add: drop_bit_take_bit take_bit_take_bit)

lemma ucast_addr_byte: "ucast (addr_byte a k) = take_bit 8 (drop_bit (8 * k) a)"
  by (rule bit_word_eqI) (auto simp: addr_byte_def bit_take_bit_iff bit_ucast_iff bit_drop_bit_eq ac_simps)

lemma board_addr_roundtrip_eq:
  "omx__board_addr_sscanf (omx__board_addr_sprintf a) = Some (take_bit 48 a)"
proof -
  have "omx__board_addr_sscanf (omx__board_addr_sprintf a) =
      Some (push_bit 40 (take_bit 8 (drop_bit 40 a)) + push_bit 32 (take_bit 8 (drop_bit 32 a))
        + push_bit 24 (take_bit 8 (drop_bit 24 a)) + push_bit 16 (take_bit 8 (drop_bit 16 a))
        + push_bit 8 (take_bit 8 (drop_bit 8 a)) + take_bit 8 a)"
    by (simp add: omx__board_addr_sprintf_def omx__board_addr_sscanf_def hex_pair_def hex_byte_pair ucast_addr_byte)
  also have "\<dots> = Some (take_bit 48 a)"
    using take_bit_step [of 8 a] take_bit_step [of 16 a] take_bit_step [of 24 a] take_bit_step [of 32 a]
      take_bit_step [of 40 a]
    by (simp add: add.assoc)
  finally show ?thesis .
qed

text \<open>
  C32: reading the printed form of a board address gives the address back, all of its 48 bits
  (\<open>omx__board_addr_sprintf\<close> and \<open>omx__board_addr_sscanf\<close> print and read six bytes).
\<close>

theorem board_addr_roundtrip:
  "omx__board_addr_sscanf (omx__board_addr_sprintf a) = Some (take_bit 48 a)
   \<and> length (omx__board_addr_sprintf a) = 17"
  using board_addr_roundtrip_eq [of a] by (simp add: omx__board_addr_sprintf_def hex_pair_def)

subsection \<open>Bounds of the timeouts\<close>

lemma unat_ucast_32_64: "unat (ucast (x :: u32) :: u64) = unat x"
proof -
  have "unat x < 2 ^ 64" using unsigned_less [of x] by (rule less_le_trans) simp
  then show ?thesis by (simp add: unsigned_ucast_eq take_bit_nat_eq_self)
qed

lemma timeout_bound:
  assumes "unat ms * unat h + 1023 < 2 ^ 32"
  shows "unat ((ms * h + 1023) div 1024 :: u32) = (unat ms * unat h + 1023) div 1024"
proof -
  have "unat (ms * h) = unat ms * unat h" using assms by (subst unat_mult_lem [THEN iffD1]) auto
  moreover have "unat (ms * h + 1023) = unat (ms * h) + 1023"
    using assms calculation by (subst unat_add_lem [THEN iffD1]) auto
  ultimately show ?thesis by (simp add: unat_div)
qed




end
