(* ===== verification/Send.thy ===== *)
theory Send
  imports Partner_Acks
begin

text \<open>
  Sending (\<open>libxen2mx/omx_send.c\<close>): for each kind of message, posting it to the driver, giving it a
  sequence number, allocating what it needs or throttling it, and submitting it or queueing it
  behind requests that wait for resources; the completion of requests; and what becomes of delayed
  and throttled requests. The retransmission of requests is in theory \<open>Resend\<close>.
\<close>

subsection \<open>Completion\<close>

text \<open>The status code a request gets on completion, shared by sends and receives.\<close>

definition complete_code :: "nat \<Rightarrow> omx_return_t \<Rightarrow> omx_endpoint \<Rightarrow> omx_endpoint option" where
  "complete_code r status ep =
     (if st_code (r_status (rq ep r)) = OMX_SUCCESS then
        if status = OMX_SUCCESS then
          if st_xfer_length (r_status (rq ep r)) < st_msg_length (r_status (rq ep r)) then do {
            c \<leftarrow> omx__error_with_req ep r OMX_MESSAGE_TRUNCATED;
            Some (set_code c r ep)
          } else Some ep
        else do {
          c \<leftarrow> omx__error_with_req ep r status;
          Some (set_code c r ep)
        }
      else Some ep)"

definition put_sendq_slots :: "nat \<Rightarrow> omx_endpoint \<Rightarrow> omx_endpoint option" where
  "put_sendq_slots r ep = do {
     m \<leftarrow> omx__endpoint_sendq_map_put (take (r_frags_nr (rq ep r)) (r_sendq_map_index (rq ep r))) (sendq_map ep);
     Some (ep\<lparr>sendq_map := m\<rparr>)
   }"

definition omx__send_complete :: "nat \<Rightarrow> omx_return_t \<Rightarrow> omx_endpoint \<Rightarrow> omx_endpoint option" where
  "omx__send_complete r status ep = do {
     let ctxid = CTXID_FROM_MATCHING ep (st_match_info (r_status (rq ep r)));
     ep1 \<leftarrow> complete_code r status ep;
     ep2 \<leftarrow> (if STATE_NEED_SEQNUM \<notin> r_state (rq ep1 r) \<and> r_type (rq ep1 r) = TYPE_SEND_MEDIUMSQ
            then put_sendq_slots r ep1 else Some ep1);
     Some (omx__notify_request_done ctxid r ep2)
   }"

definition omx__recv_complete :: "nat \<Rightarrow> omx_return_t \<Rightarrow> omx_endpoint \<Rightarrow> omx_endpoint option" where
  "omx__recv_complete r status ep = do {
     let ctxid = CTXID_FROM_MATCHING ep (st_match_info (r_status (rq ep r)));
     ep1 \<leftarrow> complete_code r status ep;
     Some (omx__notify_request_done ctxid r ep1)
   }"

subsection \<open>What the kinds of messages share\<close>

abbreviation upd_param :: "nat \<Rightarrow> (omx_cmd_msg \<Rightarrow> omx_cmd_msg) \<Rightarrow> omx_endpoint \<Rightarrow> omx_endpoint" where
  "upd_param r f \<equiv> upd_req r (\<lambda>q. q\<lparr>r_param := f (r_param q)\<rparr>)"

text \<open>
  Posting a message that goes out in one ioctl: the acknowledgement rides along, a shortage of
  resources in the driver leaves the message to the retransmission, and only a message that went
  out counts as an acknowledgement sent.
\<close>

definition post_isend ::
  "(omx_cmd_msg \<Rightarrow> ioctl_cmd) \<Rightarrow> bool \<Rightarrow> nat \<Rightarrow> nat \<Rightarrow> omx_endpoint \<Rightarrow> omx_endpoint option"
where
  "post_isend cmd pins p r ep = do {
     let ep1 = upd_param r (\<lambda>m. m\<lparr>cm_piggyack := omx__get_partner_needed_ack ep p\<rparr>) ep;
     let (err, ep2) = ep_ioctl (cmd (r_param (rq ep1 r))) ep1;
     (case err of None \<Rightarrow> Some ()
      | Some e \<Rightarrow> do {
          ret \<leftarrow> omx__ioctl_errno_to_return_checked
            (Public OMX_NO_SYSTEM_RESOURCES # (if pins then [Internal OMX_INTERNAL_MISC_EFAULT] else [])) e;
          if pins then omx__check_driver_pinning_error ret else Some ()
        });
     let ep3 = upd_req r (\<lambda>q. q\<lparr>r_resends := r_resends q + 1, r_last_send_jiffies := jiffies (cfg ep)\<rparr>) ep2;
     Some (if err = None then omx__mark_partner_ack_sent p ep3 else ep3)
   }"

definition take_seqnum :: "nat \<Rightarrow> nat \<Rightarrow> omx_endpoint \<Rightarrow> omx_endpoint" where
  "take_seqnum p r ep =
     (let seqnum = next_send_seq (pt ep p)
      in upd_req r (\<lambda>q. q\<lparr>r_send_seqnum := seqnum, r_resends := 0, r_resends_max := req_resends_max ep,
                         r_param := (r_param q)\<lparr>cm_seqnum := seqnum\<rparr>\<rparr>)
           (upd_partner p (\<lambda>q. q\<lparr>next_send_seq := OMX__SEQNUM_INCREASE seqnum\<rparr>) ep))"

definition need_ack_enqueue :: "nat \<Rightarrow> nat \<Rightarrow> omx_endpoint \<Rightarrow> omx_endpoint" where
  "need_ack_enqueue p r ep =
     omx__enqueue_partner_request p P_NON_ACKED r
       (omx__enqueue_request NON_ACKED_REQ_Q r (set_state STATE_NEED_ACK r ep))"

definition done_early :: "nat \<Rightarrow> omx_endpoint \<Rightarrow> omx_endpoint" where
  "done_early r ep =
     omx__notify_request_done_early (CTXID_FROM_MATCHING ep (st_match_info (r_status (rq ep r)))) r ep"

definition throttle_request :: "nat \<Rightarrow> nat \<Rightarrow> omx_endpoint \<Rightarrow> omx_endpoint" where
  "throttle_request p r ep =
     omx__mark_partner_throttling p
       (omx__enqueue_partner_request p P_NEED_SEQNUM_SEND r (set_state STATE_NEED_SEQNUM r ep))"

definition fill_param :: "nat \<Rightarrow> nat \<Rightarrow> u32 \<Rightarrow> omx_endpoint \<Rightarrow> omx_endpoint" where
  "fill_param p r session ep =
     (let q = pt ep p in
      upd_param r (\<lambda>m. m\<lparr>cm_peer_index := p_peer_index q, cm_dest_endpoint := p_endpoint_index q,
        cm_shared := omx__partner_localization_shared q, cm_session_id := session,
        cm_match_info := st_match_info (r_status (rq ep r)),
        cm_length := st_msg_length (r_status (rq ep r))\<rparr>) ep)"

definition set_lengths :: "nat \<Rightarrow> nat \<Rightarrow> omx_endpoint \<Rightarrow> omx_endpoint" where
  "set_lengths n r = upd_req r (\<lambda>q. q\<lparr>r_status := (r_status q)\<lparr>st_msg_length := n, st_xfer_length := n\<rparr>\<rparr>)"

definition delay_request :: "nat \<Rightarrow> omx_endpoint \<Rightarrow> omx_endpoint" where
  "delay_request r ep =
     omx__enqueue_request NEED_RESOURCES_SEND_REQ_Q r (set_state STATE_NEED_RESOURCES r ep)"

subsection \<open>Tiny messages\<close>

definition omx__post_isend_tiny :: "nat \<Rightarrow> nat \<Rightarrow> omx_endpoint \<Rightarrow> omx_endpoint option" where
  "omx__post_isend_tiny = post_isend OMX_CMD_XEN_SEND_TINY False"

definition omx__setup_isend_tiny :: "nat \<Rightarrow> nat \<Rightarrow> omx_endpoint \<Rightarrow> omx_endpoint option" where
  "omx__setup_isend_tiny p r ep = do {
     ep1 \<leftarrow> omx__post_isend_tiny p r (take_seqnum p r ep);
     Some (done_early r (need_ack_enqueue p r ep1))
   }"

definition omx__alloc_setup_isend_tiny :: "nat \<Rightarrow> nat \<Rightarrow> omx_endpoint \<Rightarrow> omx_endpoint option" where
  "omx__alloc_setup_isend_tiny p r ep = do {
     let ep1 = fill_param p r (true_session_id (pt ep p)) ep;
     bs \<leftarrow> gather_segments (r_segs (rq ep r)) (st_msg_length (r_status (rq ep r))) (mem ep);
     let ep2 = upd_param r (\<lambda>m. m\<lparr>cm_data := bs\<rparr>) ep1;
     if throttled (pt ep2 p) then Some (throttle_request p r ep2) else omx__setup_isend_tiny p r ep2
   }"

definition omx__submit_isend_tiny :: "nat \<Rightarrow> nat \<Rightarrow> omx_endpoint \<Rightarrow> omx_endpoint option" where
  "omx__submit_isend_tiny p r ep =
     (let ep1 = set_lengths (total_length (r_segs (rq ep r))) r (upd_req r (\<lambda>q. q\<lparr>r_type := TYPE_SEND_TINY\<rparr>) ep)
      in if omx__empty_queue NEED_RESOURCES_SEND_REQ_Q ep1 then omx__alloc_setup_isend_tiny p r ep1
         else Some (delay_request r ep1))"

subsection \<open>Small messages\<close>

definition omx__post_isend_small :: "nat \<Rightarrow> nat \<Rightarrow> omx_endpoint \<Rightarrow> omx_endpoint option" where
  "omx__post_isend_small = post_isend OMX_CMD_XEN_SEND_SMALL False"

definition omx__setup_isend_small :: "nat \<Rightarrow> nat \<Rightarrow> omx_endpoint \<Rightarrow> omx_endpoint option" where
  "omx__setup_isend_small p r ep = do {
     ep1 \<leftarrow> omx__post_isend_small p r (take_seqnum p r ep);
     Some (done_early r (need_ack_enqueue p r ep1))
   }"

text \<open>
  The parameter points to the user's buffer for the first post of a contiguous message and to the
  copy afterwards; both hold the same bytes, which \<open>cm_data\<close> stands for.
\<close>

definition omx__alloc_setup_isend_small :: "nat \<Rightarrow> nat \<Rightarrow> omx_endpoint \<Rightarrow> omx_endpoint option" where
  "omx__alloc_setup_isend_small p r ep = do {
     let ep1 = fill_param p r (true_session_id (pt ep p)) ep;
     bs \<leftarrow> gather_segments (r_segs (rq ep r)) (st_msg_length (r_status (rq ep r))) (mem ep);
     let ep2 = upd_param r (\<lambda>m. m\<lparr>cm_data := bs\<rparr>) ep1;
     ep3 \<leftarrow> (if throttled (pt ep2 p) then Some (throttle_request p r ep2) else omx__setup_isend_small p r ep2);
     Some (upd_req r (\<lambda>q. q\<lparr>r_copy := bs\<rparr>) ep3)
   }"

definition omx__submit_isend_small :: "nat \<Rightarrow> nat \<Rightarrow> omx_endpoint \<Rightarrow> omx_endpoint option" where
  "omx__submit_isend_small p r ep =
     (let ep1 = set_lengths (total_length (r_segs (rq ep r))) r (upd_req r (\<lambda>q. q\<lparr>r_type := TYPE_SEND_SMALL\<rparr>) ep)
      in if \<not> omx__empty_queue NEED_RESOURCES_SEND_REQ_Q ep1 then Some (delay_request r ep1)
         else omx__alloc_setup_isend_small p r ep1)"

subsection \<open>Medium messages from the user's memory\<close>

definition omx__post_isend_mediumva :: "nat \<Rightarrow> nat \<Rightarrow> omx_endpoint \<Rightarrow> omx_endpoint option" where
  "omx__post_isend_mediumva = post_isend OMX_CMD_XEN_SEND_MEDIUMVA False"

definition omx__setup_isend_mediumva :: "nat \<Rightarrow> nat \<Rightarrow> omx_endpoint \<Rightarrow> omx_endpoint option" where
  "omx__setup_isend_mediumva p r ep = do {
     ep1 \<leftarrow> omx__post_isend_mediumva p r (take_seqnum p r ep);
     Some (need_ack_enqueue p r ep1)
   }"

definition omx__alloc_setup_isend_mediumva :: "nat \<Rightarrow> nat \<Rightarrow> omx_endpoint \<Rightarrow> omx_endpoint option" where
  "omx__alloc_setup_isend_mediumva p r ep =
     (let ep1 = upd_param r (\<lambda>m. m\<lparr>cm_segments := segs (r_segs (rq ep r))\<rparr>)
                  (fill_param p r (true_session_id (pt ep p)) ep)
      in if throttled (pt ep1 p) then Some (throttle_request p r ep1) else omx__setup_isend_mediumva p r ep1)"

subsection \<open>Medium messages through the send queue\<close>

text \<open>
  The two loops of the code over the fragments (a contiguous message, and one in segments) differ
  in how they copy the next bytes of the message: \<open>copy\<close> takes them from a scan state. When the
  ioctl of a fragment fails on the first post, the code means to copy the fragments that are left,
  but increments \<open>i\<close> instead of \<open>j\<close>: with a fragment left, the loop never ends (\<^term>\<open>None\<close>).
\<close>

definition sendq_write :: "nat \<Rightarrow> bytes \<Rightarrow> omx_endpoint \<Rightarrow> omx_endpoint" where
  "sendq_write index bs ep =
     ep\<lparr>sendq := write_mem (push_bit (sendq_entry_shift (cfg ep)) index) bs (sendq ep)\<rparr>"

definition post_mediumsq_frag ::
  "(nat \<Rightarrow> omx_segscan_state \<Rightarrow> memory \<Rightarrow> (bytes \<times> omx_segscan_state) option)
    \<Rightarrow> nat \<Rightarrow> nat \<Rightarrow> nat \<Rightarrow> nat \<Rightarrow> omx_segscan_state \<Rightarrow> omx_endpoint
    \<Rightarrow> (errno option \<times> omx_segscan_state \<times> omx_endpoint) option"
where
  "post_mediumsq_frag copy r index i chunk st ep = do {
     let ep1 = upd_param r (\<lambda>m. m\<lparr>cm_frag_length := chunk, cm_frag_seqnum := i,
                  cm_sendq_offset := push_bit (sendq_entry_shift (cfg ep)) index\<rparr>) ep;
     (ep2, st2) \<leftarrow> (if r_resends (rq ep r) = 0
        then do { (bs, st') \<leftarrow> copy chunk st (mem ep); Some (sendq_write index bs ep1, st') }
        else Some (ep1, st));
     let (err, ep3) = ep_ioctl (OMX_CMD_XEN_SEND_MEDIUMSQ_FRAG (r_param (rq ep2 r))) ep2;
     Some (err, st2, ep3)
   }"

fun mediumsq_frags ::
  "(nat \<Rightarrow> omx_segscan_state \<Rightarrow> memory \<Rightarrow> (bytes \<times> omx_segscan_state) option)
    \<Rightarrow> nat \<Rightarrow> nat list \<Rightarrow> nat \<Rightarrow> nat \<Rightarrow> omx_segscan_state \<Rightarrow> omx_endpoint
    \<Rightarrow> (nat \<times> errno option \<times> omx_endpoint) option"
where
  "mediumsq_frags copy r [] i remaining st ep = Some (i, None, ep)"
| "mediumsq_frags copy r (index # idx) i remaining st ep = do {
     let chunk = min remaining (medium_frag_length_max (cfg ep));
     (err, st2, ep3) \<leftarrow> post_mediumsq_frag copy r index i chunk st ep;
     (case err of
        None \<Rightarrow> mediumsq_frags copy r idx (Suc i) (remaining - chunk) st2 ep3
      | Some e \<Rightarrow> (if r_resends (rq ep r) = 0 \<and> idx \<noteq> [] then None else Some (i, Some e, ep3)))
   }"

text \<open>\<open>memcpy\<close> from the buffer of a contiguous message, and the partial copy from segments.\<close>

definition contiguous_copy ::
  "omx__req_segs \<Rightarrow> nat \<Rightarrow> omx_segscan_state \<Rightarrow> memory \<Rightarrow> (bytes \<times> omx_segscan_state) option"
where
  "contiguous_copy sg chunk st m =
     Some (read_mem m (vaddr (single sg) + scan_off st) chunk, st\<lparr>scan_off := scan_off st + chunk\<rparr>)"

definition mediumsq_copy ::
  "omx__req_segs \<Rightarrow> nat \<Rightarrow> omx_segscan_state \<Rightarrow> memory \<Rightarrow> (bytes \<times> omx_segscan_state) option"
where
  "mediumsq_copy sg =
     (if nseg sg = 1 then contiguous_copy sg else omx_continue_partial_copy_from_segments sg)"

definition mediumsq_posted :: "nat \<Rightarrow> nat \<Rightarrow> omx_endpoint \<Rightarrow> omx_endpoint" where
  "mediumsq_posted p r ep =
     omx__mark_partner_ack_sent p
       (set_state STATE_DRIVER_MEDIUMSQ_SENDING r
         (upd_req r (\<lambda>q. q\<lparr>r_resends := r_resends q + 1, r_last_send_jiffies := jiffies (cfg ep)\<rparr>) ep))"

definition omx__post_isend_mediumsq :: "nat \<Rightarrow> nat \<Rightarrow> omx_endpoint \<Rightarrow> omx_endpoint option" where
  "omx__post_isend_mediumsq p r ep = do {
     let ep1 = upd_param r (\<lambda>m. m\<lparr>cm_piggyack := omx__get_partner_needed_ack ep p\<rparr>) ep;
     let q = rq ep1 r;
     let frags_nr = r_frags_nr q;
     (i, err, ep2) \<leftarrow> mediumsq_frags (mediumsq_copy (r_segs q)) r (take frags_nr (r_sendq_map_index q)) 0
                       (st_msg_length (r_status q)) \<lparr>scan_seg = 0, scan_off = 0\<rparr> ep1;
     (case err of
        None \<Rightarrow> Some (mediumsq_posted p r (upd_req r (\<lambda>q. q\<lparr>r_frags_pending_nr := word_of_nat frags_nr\<rparr>) ep2))
      | Some e \<Rightarrow> do {
          omx__ioctl_errno_to_return_checked [Public OMX_NO_SYSTEM_RESOURCES] e;
          let ep3 = (upd_req r (\<lambda>q. q\<lparr>r_frags_pending_nr := word_of_nat i\<rparr>) ep2)
                      \<lparr>avail_exp_events := avail_exp_events ep2 + word_of_nat (frags_nr - i)\<rparr>;
          Some (if i > 0 then mediumsq_posted p r ep3 else ep3)
        })
   }"

definition omx__setup_isend_mediumsq :: "nat \<Rightarrow> nat \<Rightarrow> omx_endpoint \<Rightarrow> omx_endpoint option" where
  "omx__setup_isend_mediumsq p r ep = do {
     ep1 \<leftarrow> omx__post_isend_mediumsq p r (take_seqnum p r ep);
     let ep2 = set_state STATE_NEED_ACK r ep1;
     let ep3 = omx__enqueue_request
           (if STATE_DRIVER_MEDIUMSQ_SENDING \<in> r_state (rq ep2 r)
            then DRIVER_MEDIUMSQ_SENDING_REQ_Q else NON_ACKED_REQ_Q) r ep2;
     Some (done_early r (omx__enqueue_partner_request p P_NON_ACKED r ep3))
   }"

text \<open>
  A routine that allocates resources returns \<^term>\<open>True\<close> for \<open>OMX_SUCCESS\<close> and
  \<^term>\<open>False\<close> for \<open>OMX_INTERNAL_MISSING_RESOURCES\<close>, what it got so far being kept.
\<close>

definition got_resource :: "omx__request_resource \<Rightarrow> nat \<Rightarrow> omx_endpoint \<Rightarrow> omx_endpoint" where
  "got_resource k r = upd_req r (\<lambda>q. q\<lparr>r_missing_resources := r_missing_resources q - {k}\<rparr>)"

definition mediumsq_exp_events :: "nat \<Rightarrow> omx_endpoint \<Rightarrow> (bool \<times> omx_endpoint) option" where
  "mediumsq_exp_events r ep =
     (let res = r_missing_resources (rq ep r); frags_nr = word_of_nat (r_frags_nr (rq ep r))
      in if RESOURCE_EXP_EVENT \<in> res then
           if avail_exp_events ep < frags_nr then Some (False, ep)
           else Some (True, got_resource RESOURCE_EXP_EVENT r
                              (ep\<lparr>avail_exp_events := avail_exp_events ep - frags_nr\<rparr>))
         else if RESOURCE_SENDQ_SLOT \<in> res then Some (True, ep)
         else None)"

text \<open>More slots than the index array of the request has would be written past its end.\<close>

definition mediumsq_with_slots :: "nat \<Rightarrow> nat \<Rightarrow> nat list \<Rightarrow> omx_endpoint \<Rightarrow> omx_endpoint option" where
  "mediumsq_with_slots p r index ep =
     (let ep1 = got_resource RESOURCE_SENDQ_SLOT r (upd_req r (\<lambda>q. q\<lparr>r_sendq_map_index := index\<rparr>) ep);
          ep2 = fill_param p r (true_session_id (pt ep1 p)) ep1
      in if throttled (pt ep2 p) then Some (throttle_request p r ep2) else omx__setup_isend_mediumsq p r ep2)"

definition omx__alloc_setup_isend_mediumsq :: "nat \<Rightarrow> nat \<Rightarrow> omx_endpoint \<Rightarrow> (bool \<times> omx_endpoint) option" where
  "omx__alloc_setup_isend_mediumsq p r ep = do {
     (ok, ep1) \<leftarrow> mediumsq_exp_events r ep;
     (if \<not> ok then Some (False, ep1)
      else do {
        (found, m) \<leftarrow> omx__endpoint_sendq_map_get (r_frags_nr (rq ep1 r)) r (sendq_map ep1);
        (case found of
           None \<Rightarrow> Some (False, ep1)
         | Some index \<Rightarrow> do {
             c_assert (length index \<le> OMX_MEDIUM_FRAGS_MAX);
             ep2 \<leftarrow> mediumsq_with_slots p r index (ep1\<lparr>sendq_map := m\<rparr>);
             Some (True, ep2)
           })
      })
   }"

definition delay_unless :: "nat \<Rightarrow> (bool \<times> omx_endpoint) option \<Rightarrow> omx_endpoint option" where
  "delay_unless r run = do { (ok, ep) \<leftarrow> run; Some (if ok then ep else delay_request r ep) }"

definition omx__submit_isend_medium :: "nat \<Rightarrow> nat \<Rightarrow> omx_endpoint \<Rightarrow> omx_endpoint option" where
  "omx__submit_isend_medium p r ep =
     (let len = total_length (r_segs (rq ep r));
          use_sendq = medium_sendq (cfg ep);
          frag_max = medium_frag_length_max (cfg ep);
          ep1 = upd_req r (\<lambda>q. if use_sendq
                  then q\<lparr>r_type := TYPE_SEND_MEDIUMSQ, r_missing_resources := OMX_REQUEST_SEND_MEDIUMSQ_RESOURCES,
                         r_frags_nr := (len + frag_max - 1) div frag_max\<rparr>
                  else q\<lparr>r_type := TYPE_SEND_MEDIUMVA\<rparr>) ep;
          ep2 = set_lengths len r ep1
      in if \<not> omx__empty_queue NEED_RESOURCES_SEND_REQ_Q ep2 then Some (delay_request r ep2)
         else if use_sendq then delay_unless r (omx__alloc_setup_isend_mediumsq p r ep2)
         else omx__alloc_setup_isend_mediumva p r ep2)"

subsection \<open>Large messages: the rendez-vous\<close>

definition omx__post_isend_rndv :: "nat \<Rightarrow> nat \<Rightarrow> omx_endpoint \<Rightarrow> omx_endpoint option" where
  "omx__post_isend_rndv = post_isend OMX_CMD_XEN_SEND_RNDV True"

definition omx__setup_isend_rndv :: "nat \<Rightarrow> nat \<Rightarrow> omx_endpoint \<Rightarrow> omx_endpoint option" where
  "omx__setup_isend_rndv p r ep = do {
     ep1 \<leftarrow> omx__post_isend_rndv p r (take_seqnum p r ep);
     Some (need_ack_enqueue p r (set_state STATE_NEED_REPLY r ep1))
   }"

definition large_send_region :: "nat \<Rightarrow> omx_endpoint \<Rightarrow> (bool \<times> omx_endpoint) option" where
  "large_send_region r ep =
     (let res = r_missing_resources (rq ep r)
      in if RESOURCE_SEND_LARGE_REGION \<in> res then
           if large_sends_avail_nr (large ep) = 0 then Some (False, ep)
           else Some (True, (got_resource RESOURCE_SEND_LARGE_REGION r ep)
                              \<lparr>large := (large ep)\<lparr>large_sends_avail_nr := large_sends_avail_nr (large ep) - 1\<rparr>\<rparr>)
         else if RESOURCE_LARGE_REGION \<in> res then Some (True, ep)
         else None)"

definition large_with_region :: "nat \<Rightarrow> nat \<Rightarrow> nat \<Rightarrow> omx_endpoint \<Rightarrow> omx_endpoint option" where
  "large_with_region p r i ep =
     (let g = the_region (large ep) i;
          ep1 = (got_resource RESOURCE_LARGE_REGION r ep)
                  \<lparr>large := upd_region i (\<lambda>g. g\<lparr>last_seqnum := last_seqnum g + 1\<rparr>) (large ep)\<rparr>;
          ep2 = upd_req r (\<lambda>q. q\<lparr>r_region := Some i, r_region_seqnum := last_seqnum g\<rparr>) ep1;
          ep3 = upd_param r (\<lambda>m. m\<lparr>cm_rdma_id := rg_id g, cm_rdma_seqnum := last_seqnum g\<rparr>)
                  (fill_param p r (true_session_id (pt ep2 p)) ep2)
      in if throttled (pt ep3 p) then Some (throttle_request p r ep3) else omx__setup_isend_rndv p r ep3)"

definition omx__alloc_setup_isend_large :: "nat \<Rightarrow> nat \<Rightarrow> omx_endpoint \<Rightarrow> (bool \<times> omx_endpoint) option" where
  "omx__alloc_setup_isend_large p r ep = do {
     (ok, ep1) \<leftarrow> large_send_region r ep;
     (if \<not> ok then Some (False, ep1)
      else do {
        (reg, ep2) \<leftarrow> ep_get_region (r_segs (rq ep1 r)) (Some r) ep1;
        (case reg of
           None \<Rightarrow> Some (False, ep2)
         | Some i \<Rightarrow> do { ep3 \<leftarrow> large_with_region p r i ep2; Some (True, ep3) })
      })
   }"

definition omx__submit_isend_large :: "nat \<Rightarrow> nat \<Rightarrow> omx_endpoint \<Rightarrow> omx_endpoint option" where
  "omx__submit_isend_large p r ep =
     (let len = total_length (r_segs (rq ep r));
          ep1 = upd_req r (\<lambda>q. q\<lparr>r_type := TYPE_SEND_LARGE,
                  r_missing_resources := OMX_REQUEST_SEND_LARGE_RESOURCES,
                  r_status := (r_status q)\<lparr>st_msg_length := len\<rparr>\<rparr>) ep
      in if \<not> omx__empty_queue NEED_RESOURCES_SEND_REQ_Q ep1 then Some (delay_request r ep1)
         else delay_unless r (omx__alloc_setup_isend_large p r ep1))"

subsection \<open>The notify that ends a large message\<close>

definition omx__post_notify :: "nat \<Rightarrow> nat \<Rightarrow> omx_endpoint \<Rightarrow> omx_endpoint option" where
  "omx__post_notify = post_isend OMX_CMD_XEN_SEND_NOTIFY False"

definition omx__setup_notify :: "nat \<Rightarrow> nat \<Rightarrow> omx_endpoint \<Rightarrow> omx_endpoint option" where
  "omx__setup_notify p r ep = do {
     ep1 \<leftarrow> omx__post_notify p r (take_seqnum p r ep);
     Some (done_early r (need_ack_enqueue p r ep1))
   }"

definition omx__alloc_setup_notify :: "nat \<Rightarrow> omx_endpoint \<Rightarrow> omx_endpoint option" where
  "omx__alloc_setup_notify r ep =
     (let p = r_partner (rq ep r); q = pt ep p;
          ep1 = upd_param r (\<lambda>m. m\<lparr>cm_peer_index := p_peer_index q, cm_dest_endpoint := p_endpoint_index q,
                  cm_shared := omx__partner_localization_shared q,
                  cm_length := st_xfer_length (r_status (rq ep r)), cm_session_id := back_session_id q,
                  cm_rdma_id := r_pulled_rdma_id (rq ep r), cm_rdma_seqnum := r_pulled_rdma_seqnum (rq ep r)\<rparr>) ep
      in if throttled (pt ep1 p) then Some (throttle_request p r ep1) else omx__setup_notify p r ep1)"

definition omx__submit_notify :: "nat \<Rightarrow> bool \<Rightarrow> omx_endpoint \<Rightarrow> omx_endpoint option" where
  "omx__submit_notify r delayed ep =
     (if \<not> omx__empty_queue NEED_RESOURCES_SEND_REQ_Q ep \<or> delayed
      then Some (omx__requeue_request NEED_RESOURCES_SEND_REQ_Q r (set_state STATE_NEED_RESOURCES r ep))
      else omx__alloc_setup_notify r ep)"

subsection \<open>Throttled requests\<close>

definition setup_throttled :: "nat \<Rightarrow> nat \<Rightarrow> omx_endpoint \<Rightarrow> omx_endpoint option" where
  "setup_throttled p r ep = (case r_type (rq ep r) of
      TYPE_SEND_TINY \<Rightarrow> omx__setup_isend_tiny p r ep
    | TYPE_SEND_SMALL \<Rightarrow> omx__setup_isend_small p r ep
    | TYPE_SEND_MEDIUMSQ \<Rightarrow> omx__setup_isend_mediumsq p r ep
    | TYPE_SEND_MEDIUMVA \<Rightarrow> omx__setup_isend_mediumva p r ep
    | TYPE_SEND_LARGE \<Rightarrow> omx__setup_isend_rndv p r ep
    | TYPE_RECV_LARGE \<Rightarrow> omx__setup_notify p r ep
    | _ \<Rightarrow> None)"

text \<open>Returns the number of requests that got a sequence number.\<close>

fun throttling_loop :: "nat \<Rightarrow> nat \<Rightarrow> omx_endpoint \<Rightarrow> (nat \<times> omx_endpoint) option" where
  "throttling_loop p 0 ep = Some (0, ep)"
| "throttling_loop p (Suc nr) ep =
     (case omx__dequeue_first_partner_request p P_NEED_SEQNUM_SEND ep of
        (None, ep1) \<Rightarrow> Some (0, ep1)
      | (Some r, ep1) \<Rightarrow> do {
          ep2 \<leftarrow> setup_throttled p r (clear_state STATE_NEED_SEQNUM r ep1);
          (sent, ep3) \<leftarrow> throttling_loop p nr ep2;
          Some (Suc sent, ep3)
        })"

definition omx__process_throttling_requests :: "nat \<Rightarrow> nat \<Rightarrow> omx_endpoint \<Rightarrow> omx_endpoint option" where
  "omx__process_throttling_requests p nr ep = do {
     (sent, ep1) \<leftarrow> throttling_loop p nr ep;
     Some (omx__update_partner_throttling p sent ep1)
   }"

subsection \<open>Requests dropped before they were sent\<close>

definition omx__release_unsent_send_resources :: "nat \<Rightarrow> omx_endpoint \<Rightarrow> omx_endpoint option" where
  "omx__release_unsent_send_resources r ep =
     (let res = r_missing_resources (rq ep r) in
      case r_type (rq ep r) of
        TYPE_SEND_MEDIUMSQ \<Rightarrow>
          (let ep1 = (if RESOURCE_EXP_EVENT \<notin> res
                      then ep\<lparr>avail_exp_events := avail_exp_events ep + word_of_nat (r_frags_nr (rq ep r))\<rparr> else ep)
           in Some (if RESOURCE_SENDQ_SLOT \<in> res then upd_req r (\<lambda>q. q\<lparr>r_frags_nr := 0\<rparr>) ep1 else ep1))
      | TYPE_SEND_LARGE \<Rightarrow>
          (let ep1 = (if RESOURCE_SEND_LARGE_REGION \<notin> res
                      then ep\<lparr>large := (large ep)\<lparr>large_sends_avail_nr := large_sends_avail_nr (large ep) + 1\<rparr>\<rparr> else ep)
           in if RESOURCE_LARGE_REGION \<notin> res
              then do { i \<leftarrow> r_region (rq ep r); ep_put_region i (Some r) ep1 } else Some ep1)
      | TYPE_RECV_LARGE \<Rightarrow>
          (if STATE_RECV_PARTIAL \<in> r_state (rq ep r) then
             let ep1 = (if RESOURCE_EXP_EVENT \<notin> res
                        then ep\<lparr>avail_exp_events := avail_exp_events ep + 1\<rparr> else ep)
             in if RESOURCE_LARGE_REGION \<notin> res
                then do { i \<leftarrow> r_local_region (rq ep r); ep_put_region i None ep1 } else Some ep1
           else Some ep)
      | _ \<Rightarrow> Some ep)"

text \<open>The code masks the state of a large receive with the flag it means to clear.\<close>

definition omx__complete_unsent_send_request :: "nat \<Rightarrow> omx_endpoint \<Rightarrow> omx_endpoint option" where
  "omx__complete_unsent_send_request r ep =
     (if r_type (rq ep r) \<in> {TYPE_SEND_TINY, TYPE_SEND_SMALL, TYPE_SEND_MEDIUMSQ, TYPE_SEND_MEDIUMVA, TYPE_SEND_LARGE}
      then do {
        ep1 \<leftarrow> omx__release_unsent_send_resources r ep;
        omx__send_complete r OMX_REMOTE_ENDPOINT_UNREACHABLE ep1
      }
      else if r_type (rq ep r) = TYPE_RECV_LARGE then do {
        ep1 \<leftarrow> (if STATE_RECV_PARTIAL \<in> r_state (rq ep r)
               then Some (upd_req r (\<lambda>q. q\<lparr>r_state := r_state q \<inter> {STATE_RECV_PARTIAL}\<rparr>) ep)
               else omx__release_unsent_send_resources r ep);
        omx__recv_complete r OMX_REMOTE_ENDPOINT_UNREACHABLE ep1
      }
      else None)"

end
