(* ===== verification/Large_Messages.thy ===== *)
theory Large_Messages
  imports Send
begin

text \<open>
  Large messages (\<open>libxen2mx/omx_large.c\<close>, from line 472): the receiver of a rendez-vous pulls the
  data through the driver, then notifies the sender, whose region is released when the notify
  arrives. Also the requests that wait for resources (\<open>omx__process_delayed_requests\<close>), since a
  pull is one of them.
\<close>

subsection \<open>Pulling\<close>

text \<open>
  A pull needs an expected event, a region and a pull handle of the driver. \<open>region\<close> is a local
  variable of the C function: a request that only misses the pull handle jumps over its
  initialisation, and the code then reads through an uninitialised pointer (\<^term>\<open>None\<close>).
\<close>

definition pull_exp_event :: "nat \<Rightarrow> omx_endpoint \<Rightarrow> (bool \<times> omx_endpoint) option" where
  "pull_exp_event r ep =
     (let res = r_missing_resources (rq ep r)
      in if RESOURCE_EXP_EVENT \<in> res then
           if avail_exp_events ep < 1 then Some (False, ep)
           else Some (True, got_resource RESOURCE_EXP_EVENT r
                              (ep\<lparr>avail_exp_events := avail_exp_events ep - 1\<rparr>))
         else if RESOURCE_LARGE_REGION \<in> res then Some (True, ep)
         else None)"

definition pull_param :: "nat \<Rightarrow> nat \<Rightarrow> omx_endpoint \<Rightarrow> omx_cmd_pull" where
  "pull_param r i ep =
     (let q = rq ep r; partner = pt ep (r_partner q)
      in \<lparr>pl_peer_index = p_peer_index partner, pl_dest_endpoint = p_endpoint_index partner,
          pl_shared = omx__partner_localization_shared partner, pl_session_id = back_session_id partner,
          pl_length = st_xfer_length (r_status q),
          pl_resend_timeout_jiffies = pull_resend_timeout_jiffies ep,
          pl_puller_rdma_id = rg_id (the_region (large ep) i),
          pl_pulled_rdma_offset = r_pulled_rdma_offset q, pl_pulled_rdma_id = r_pulled_rdma_id q,
          pl_pulled_rdma_seqnum = r_pulled_rdma_seqnum q, pl_lib_cookie = r\<rparr>)"

definition omx__alloc_setup_pull :: "nat \<Rightarrow> omx_endpoint \<Rightarrow> (bool \<times> omx_endpoint) option" where
  "omx__alloc_setup_pull r ep = do {
     (ok, ep1) \<leftarrow> pull_exp_event r ep;
     (if \<not> ok then Some (False, ep1)
      else do {
        (reg, ep2) \<leftarrow> ep_get_region (r_segs (rq ep1 r)) None ep1;
        (case reg of
           None \<Rightarrow> Some (False, ep2)
         | Some i \<Rightarrow> do {
             let ep3 = got_resource RESOURCE_LARGE_REGION r ep2;
             let (err, ep4) = ep_ioctl (OMX_CMD_XEN_PULL (pull_param r i ep3)) ep3;
             (case err of
                None \<Rightarrow>
                  (let ep5 = upd_req r (\<lambda>q. q\<lparr>r_local_region := Some i\<rparr>)
                               (got_resource RESOURCE_PULL_HANDLE r ep4)
                   in Some (True, omx__enqueue_request DRIVER_PULLING_REQ_Q r
                                    (set_state STATE_DRIVER_PULLING r ep5)))
              | Some e \<Rightarrow> do {
                  ret \<leftarrow> omx__ioctl_errno_to_return_checked
                           [Public OMX_NO_SYSTEM_RESOURCES, Internal OMX_INTERNAL_MISC_EFAULT] e;
                  omx__check_driver_pinning_error ret;
                  Some (False, ep4)
                })
           })
      })
   }"

definition omx__submit_pull :: "nat \<Rightarrow> omx_endpoint \<Rightarrow> omx_endpoint option" where
  "omx__submit_pull r ep =
     (if st_xfer_length (r_status (rq ep r)) > 0 then
        delay_unless r (omx__alloc_setup_pull r
          (upd_req r (\<lambda>q. q\<lparr>r_missing_resources := OMX_REQUEST_PULL_RESOURCES\<rparr>) ep))
      else omx__submit_notify r True (clear_state STATE_RECV_PARTIAL r ep))"

definition pull_done_status :: "nat \<Rightarrow> omx_return_t option" where
  "pull_done_status s =
     (if s = 0 then Some OMX_SUCCESS
      else if s = 1 then Some OMX_REMOTE_ENDPOINT_BAD_ID
      else if s = 2 then Some OMX_REMOTE_ENDPOINT_CLOSED
      else if s = 3 then Some OMX_REMOTE_ENDPOINT_BAD_SESSION
      else if s = 4 then Some OMX_REMOTE_RDMA_WINDOW_BAD_ID
      else if s = 5 then Some OMX_MESSAGE_ABORTED
      else if s = 6 then Some OMX_REMOTE_ENDPOINT_UNREACHABLE
      else None)"

definition omx__process_pull_done :: "omx_evt_pull_done \<Rightarrow> omx_endpoint \<Rightarrow> omx_endpoint option" where
  "omx__process_pull_done event ep = do {
     let r = pd_lib_cookie event;
     status \<leftarrow> pull_done_status (pd_status event);
     ep1 \<leftarrow> (if status \<noteq> OMX_SUCCESS then do {
               c \<leftarrow> omx__error_with_req ep r status;
               Some (upd_req r (\<lambda>q. q\<lparr>r_status := (r_status q)\<lparr>st_xfer_length := 0\<rparr>\<rparr>) (set_code c r ep))
             } else Some ep);
     ep2 \<leftarrow> ep_put_region (pd_puller_rdma_id event) None ep1;
     let ep3 = clear_state STATE_RECV_PARTIAL r
                 (clear_state STATE_DRIVER_PULLING r (omx__dequeue_request r ep2));
     omx__submit_notify r False ep3
   }"

subsection \<open>Notifies\<close>

text \<open>A rendez-vous the unexpected handler discarded is answered by a request of the library's own.\<close>

definition omx__submit_discarded_notify ::
  "nat \<Rightarrow> omx_evt_recv_msg \<Rightarrow> omx_endpoint \<Rightarrow> omx_endpoint option"
where
  "omx__submit_discarded_notify p msg ep = do {
     let (fake, ep1) = omx__request_alloc ep;
     r \<leftarrow> fake;
     let ep2 = upd_req r (\<lambda>q. q\<lparr>r_segs := omx_cache_single_segment 0 0, r_partner := p,
             r_type := TYPE_RECV_LARGE, r_state := {STATE_ZOMBIE},
             r_status := (r_status q)\<lparr>st_xfer_length := 0\<rparr>,
             r_pulled_rdma_id := ev_rdma_id (ev_specific msg),
             r_pulled_rdma_seqnum := ev_rdma_seqnum (ev_specific msg),
             r_pulled_rdma_offset := ev_rdma_offset (ev_specific msg)\<rparr>) ep1;
     omx__submit_notify r True (ep2\<lparr>zombies := zombies ep2 + 1\<rparr>)
   }"

text \<open>The request that reserved the region is the one the notify answers.\<close>

definition notified_request :: "omx_endpoint \<Rightarrow> nat \<Rightarrow> u8 \<Rightarrow> nat option" where
  "notified_request ep region_id region_seqnum =
     (case reserver (the_region (large ep) region_id) of
        None \<Rightarrow> None
      | Some r \<Rightarrow> if region_seqnum \<noteq> r_region_seqnum (rq ep r) then None else Some r)"

definition omx__process_recv_notify ::
  "nat \<Rightarrow> omx_evt_recv_msg \<Rightarrow> nat \<Rightarrow> omx_endpoint \<Rightarrow> omx_endpoint option"
where
  "omx__process_recv_notify p msg xfer_length ep = do {
     let region_id = ev_rdma_id (ev_specific msg);
     c_assert (region_id < nregions (large ep));
     (case notified_request ep region_id (ev_rdma_seqnum (ev_specific msg)) of
        None \<Rightarrow> Some ep
      | Some r \<Rightarrow> do {
          i \<leftarrow> r_region (rq ep r);
          ep1 \<leftarrow> ep_put_region i (Some r) ep;
          let ep2 = ep1\<lparr>large := (large ep1)\<lparr>large_sends_avail_nr := large_sends_avail_nr (large ep1) + 1\<rparr>\<rparr>;
          let ep3 = clear_state STATE_NEED_REPLY r
                (upd_req r (\<lambda>q. q\<lparr>r_status := (r_status q)\<lparr>st_xfer_length := xfer_length\<rparr>\<rparr>) ep2);
          (if STATE_NEED_ACK \<in> r_state (rq ep3 r) then Some ep3
           else omx__send_complete r OMX_SUCCESS (omx__dequeue_request r ep3))
        })
   }"

subsection \<open>Requests delayed for want of resources\<close>

definition retry_delayed :: "nat \<Rightarrow> omx_endpoint \<Rightarrow> (bool \<times> omx_endpoint) option" where
  "retry_delayed r ep =
     (let p = r_partner (rq ep r); always = (\<lambda>run. do { ep' \<leftarrow> run; Some (True, ep') }) in
      case r_type (rq ep r) of
        TYPE_SEND_TINY \<Rightarrow> always (omx__alloc_setup_isend_tiny p r ep)
      | TYPE_SEND_SMALL \<Rightarrow> always (omx__alloc_setup_isend_small p r ep)
      | TYPE_SEND_MEDIUMSQ \<Rightarrow> omx__alloc_setup_isend_mediumsq p r ep
      | TYPE_SEND_MEDIUMVA \<Rightarrow> always (omx__alloc_setup_isend_mediumva p r ep)
      | TYPE_SEND_LARGE \<Rightarrow> omx__alloc_setup_isend_large p r ep
      | TYPE_RECV_LARGE \<Rightarrow>
          (if STATE_RECV_PARTIAL \<in> r_state (rq ep r) then omx__alloc_setup_pull r ep
           else always (omx__alloc_setup_notify r ep))
      | _ \<Rightarrow> None)"

fun delayed_loop :: "nat list \<Rightarrow> omx_endpoint \<Rightarrow> omx_endpoint option" where
  "delayed_loop [] ep = Some ep"
| "delayed_loop (r # rs) ep = do {
     (ok, ep1) \<leftarrow> retry_delayed r (omx__dequeue_request r (clear_state STATE_NEED_RESOURCES r ep));
     (if ok then delayed_loop rs ep1
      else Some (omx__requeue_request NEED_RESOURCES_SEND_REQ_Q r (set_state STATE_NEED_RESOURCES r ep1)))
   }"

definition omx__process_delayed_requests :: "omx_endpoint \<Rightarrow> omx_endpoint option" where
  "omx__process_delayed_requests ep = delayed_loop (queues ep NEED_RESOURCES_SEND_REQ_Q) ep"

end
