(* ===== verification/Ack.thy ===== *)
theory Ack
  imports Large_Messages
begin

text \<open>
  Acknowledgements (\<open>libxen2mx/omx_ack.c\<close>): what an acknowledgement or a negative one does to the
  requests of a partner, the acknowledgements to send, and when the driver must wake the
  library up again. Nacks are in theory \<open>Connect\<close>, since one may end a connection attempt.
\<close>

subsection \<open>Acknowledging a request\<close>

definition omx__mark_request_acked :: "nat \<Rightarrow> omx_return_t \<Rightarrow> omx_endpoint \<Rightarrow> omx_endpoint option" where
  "omx__mark_request_acked r status ep =
     (let ep1 = clear_state STATE_NEED_ACK r ep in
      case r_type (rq ep1 r) of
        TYPE_SEND_TINY \<Rightarrow> omx__send_complete r status (omx__dequeue_request r ep1)
      | TYPE_SEND_SMALL \<Rightarrow> omx__send_complete r status (omx__dequeue_request r ep1)
      | TYPE_SEND_MEDIUMVA \<Rightarrow> omx__send_complete r status (omx__dequeue_request r ep1)
      | TYPE_SEND_MEDIUMSQ \<Rightarrow>
          (if STATE_DRIVER_MEDIUMSQ_SENDING \<in> r_state (rq ep1 r) then
             if st_code (r_status (rq ep1 r)) = OMX_SUCCESS
             then do { c \<leftarrow> omx__error_with_req ep1 r status; Some (set_code c r ep1) }
             else Some ep1
           else omx__send_complete r status (omx__dequeue_request r ep1))
      | TYPE_SEND_LARGE \<Rightarrow>
          (let ep2 = omx__dequeue_request r ep1 in
           if status \<noteq> OMX_SUCCESS then do {
             let ep3 = clear_state STATE_NEED_REPLY r ep2;
             i \<leftarrow> r_region (rq ep3 r);
             ep4 \<leftarrow> ep_put_region i (Some r) ep3;
             omx__send_complete r status
               (ep4\<lparr>large := (large ep4)\<lparr>large_sends_avail_nr := large_sends_avail_nr (large ep4) + 1\<rparr>\<rparr>)
           }
           else if STATE_NEED_REPLY \<in> r_state (rq ep2 r)
             then Some (omx__enqueue_request LARGE_SEND_NEED_REPLY_REQ_Q r ep2)
           else omx__send_complete r status ep2)
      | TYPE_RECV_LARGE \<Rightarrow> omx__recv_complete r status (omx__dequeue_request r ep1)
      | _ \<Rightarrow> None)"

subsection \<open>Acknowledgements received\<close>

text \<open>The requests of the partner from the oldest on, as long as they lie before the acknowledged position.\<close>

fun ack_loop :: "nat \<Rightarrow> omx__seqnum_t \<Rightarrow> nat list \<Rightarrow> omx_endpoint \<Rightarrow> omx_endpoint option" where
  "ack_loop p new_acks [] ep = Some ep"
| "ack_loop p new_acks (r # rs) ep =
     (if OMX__SEQNUM (r_send_seqnum (rq ep r) - next_acked_send_seq (pt ep p)) \<ge> new_acks then Some ep
      else do {
        ep1 \<leftarrow> omx__mark_request_acked r OMX_SUCCESS (omx__dequeue_partner_request r ep);
        ack_loop p new_acks rs ep1
      })"

definition omx__handle_ack :: "nat \<Rightarrow> omx__seqnum_t \<Rightarrow> omx_endpoint \<Rightarrow> omx_endpoint option" where
  "omx__handle_ack p ack_before ep =
     (let partner = pt ep p;
          missing_acks = OMX__SEQNUM (next_send_seq partner - next_acked_send_seq partner);
          new_acks = OMX__SEQNUM (ack_before - next_acked_send_seq partner)
      in if new_acks = 0 \<or> new_acks > missing_acks then Some ep
         else do {
           ep1 \<leftarrow> ack_loop p new_acks (p_queues partner P_NON_ACKED) ep;
           omx__process_throttling_requests p (unat new_acks)
             (upd_partner p (\<lambda>q. q\<lparr>next_acked_send_seq := ack_before\<rparr>) ep1)
         })"

definition omx__handle_liback :: "nat \<Rightarrow> omx_evt_recv_liback \<Rightarrow> omx_endpoint \<Rightarrow> omx_endpoint option" where
  "omx__handle_liback p liback ep =
     (if OMX__SESNUM (lb_lib_seqnum liback XOR next_send_seq (pt ep p)) \<noteq> 0 then Some ep
      else if lb_acknum liback \<le> last_recv_acknum (pt ep p) then Some ep
      else omx__handle_ack p (lb_lib_seqnum liback)
             (upd_partner p (\<lambda>q. q\<lparr>last_recv_acknum := lb_acknum liback\<rparr>) ep))"

definition omx__process_recv_liback :: "omx_evt_recv_liback \<Rightarrow> omx_endpoint \<Rightarrow> omx_endpoint option" where
  "omx__process_recv_liback liback ep =
     (case omx__partner_recv_lookup ep (lb_peer_index liback) (lb_src_endpoint liback) of
        None \<Rightarrow> Some ep
      | Some p \<Rightarrow> omx__handle_liback p liback ep)"

subsection \<open>Acknowledgements to send\<close>

text \<open>Returns whether the acknowledgement went out.\<close>

definition omx__submit_send_liback :: "nat \<Rightarrow> omx_endpoint \<Rightarrow> (bool \<times> omx_endpoint) option" where
  "omx__submit_send_liback p ep = do {
     let ep1 = upd_partner p (\<lambda>q. q\<lparr>last_send_acknum := last_send_acknum q + 1\<rparr>) ep;
     let q = pt ep1 p;
     let ack_upto = omx__get_partner_needed_ack ep1 p;
     let (err, ep2) = ep_ioctl (OMX_CMD_XEN_SEND_LIBACK
           \<lparr>la_peer_index = p_peer_index q, la_dest_endpoint = p_endpoint_index q,
            la_shared = omx__partner_localization_shared q, la_session_id = back_session_id q,
            la_acknum = last_send_acknum q, la_lib_seqnum = ack_upto, la_send_seq = ack_upto,
            la_resent = 0\<rparr>) ep1;
     (case err of
        None \<Rightarrow> Some (True, ep2)
      | Some e \<Rightarrow> do {
          omx__ioctl_errno_to_return_checked [Public OMX_NO_SYSTEM_RESOURCES] e;
          Some (False, ep2)
        })
   }"

fun ack_partners :: "(omx_endpoint \<Rightarrow> nat \<Rightarrow> bool) \<Rightarrow> nat list \<Rightarrow> omx_endpoint \<Rightarrow> omx_endpoint option" where
  "ack_partners due [] ep = Some ep"
| "ack_partners due (p # ps) ep =
     (if \<not> due ep p then Some ep
      else do {
        (ok, ep1) \<leftarrow> omx__submit_send_liback p ep;
        (if ok then ack_partners due ps (omx__mark_partner_ack_sent p ep1) else Some ep1)
      })"

definition ack_due :: "omx_endpoint \<Rightarrow> nat \<Rightarrow> bool" where
  "ack_due ep p \<longleftrightarrow>
     \<not> jiffies (cfg ep) - oldest_recv_time_not_acked (pt ep p) < ack_delay_jiffies (cfg ep)"

definition omx__process_partners_to_ack :: "omx_endpoint \<Rightarrow> omx_endpoint option" where
  "omx__process_partners_to_ack ep = do {
     let now = jiffies (cfg ep);
     ep1 \<leftarrow> ack_partners (\<lambda>_ _. True) (partners_to_ack_immediate_list ep) ep;
     (if now = last_partners_acking_jiffies ep1 then Some ep1
      else let ep2 = ep1\<lparr>last_partners_acking_jiffies := now\<rparr>
           in ack_partners ack_due (partners_to_ack_delayed_list ep2) ep2)
   }"

text \<open>When the endpoint closes, every delayed acknowledgement goes out, whatever fails.\<close>

definition omx__flush_partners_to_ack :: "omx_endpoint \<Rightarrow> omx_endpoint option" where
  "omx__flush_partners_to_ack ep =
     foreach (\<lambda>p ep. do {
         (ok, ep1) \<leftarrow> omx__submit_send_liback p ep;
         Some (if ok then omx__mark_partner_ack_sent p ep1 else ep1)
       }) (partners_to_ack_delayed_list ep) ep"

subsection \<open>Waking up\<close>

definition earlier_wakeup :: "nat \<Rightarrow> nat \<Rightarrow> nat" where
  "earlier_wakeup tmp w = (if tmp < w \<or> w = OMX_NO_WAKEUP_JIFFIES then tmp else w)"

definition omx__prepare_progress_wakeup :: "omx_endpoint \<Rightarrow> omx_endpoint" where
  "omx__prepare_progress_wakeup ep =
     (let w0 = OMX_NO_WAKEUP_JIFFIES;
          w1 = (case partners_to_ack_delayed_list ep of [] \<Rightarrow> w0
                | p # _ \<Rightarrow> earlier_wakeup (oldest_recv_time_not_acked (pt ep p) + ack_delay_jiffies (cfg ep)) w0);
          w2 = (if omx__empty_queue NON_ACKED_REQ_Q ep then w1
                else earlier_wakeup (r_last_send_jiffies (rq ep (omx__first_request NON_ACKED_REQ_Q ep))
                                     + resend_delay_jiffies (cfg ep)) w1);
          w3 = (if omx__empty_queue CONNECT_REQ_Q ep then w2
                else earlier_wakeup (r_last_send_jiffies (rq ep (omx__first_request CONNECT_REQ_Q ep))
                                     + resend_delay_jiffies (cfg ep)) w2)
      in ep\<lparr>wakeup_jiffies := w3\<rparr>)"

end
