(* ===== verification/Connect.thy ===== *)
theory Connect
  imports Ack
begin

text \<open>
  Partners and connections (\<open>libxen2mx/omx_partner.c\<close>): creating and resetting the record of a
  peer, the exchange of session ids and sequence numbers by connect requests and replies, dropping
  everything about a partner that changed or went away, and the nacks that may end a connection
  attempt (\<open>omx_ack.c\<close>, \<open>omx_recv.c\<close>). The calls of the application that start a connection are
  in theory \<open>API\<close>.
\<close>

subsection \<open>Partner records\<close>

definition omx_get_endpoint_addr :: "omx_endpoint \<Rightarrow> omx__endpoint_addr" where
  "omx_get_endpoint_addr ep = omx__partner_session_to_addr (myself ep) (ep_session_id (cfg ep))"

definition omx_decompose_endpoint_addr :: "omx_endpoint \<Rightarrow> omx__endpoint_addr \<Rightarrow> u64 \<times> u8" where
  "omx_decompose_endpoint_addr ep addr =
     (let q = pt ep (omx__partner_from_addr addr) in (p_board_addr q, p_endpoint_index q))"

definition omx_decompose_endpoint_addr_with_session ::
  "omx_endpoint \<Rightarrow> omx__endpoint_addr \<Rightarrow> u64 \<times> u8 \<times> u32"
where
  "omx_decompose_endpoint_addr_with_session ep addr =
     (let q = pt ep (omx__partner_from_addr addr)
      in (p_board_addr q, p_endpoint_index q, a_session_id addr))"

definition reset_partner :: "omx__partner \<Rightarrow> omx__partner" where
  "reset_partner q =
     (let recv_seq = OMX__SEQNUM_RESET (next_match_recv_seq q)
      in q\<lparr>p_queues := (\<lambda>_. []), early_recv_q := [], true_session_id := -1, back_session_id := -1,
           next_send_seq := -1, next_acked_send_seq := -1, next_match_recv_seq := recv_seq,
           next_frag_recv_seq := recv_seq, last_acked_recv_seq := recv_seq, p_connect_seqnum := 0,
           last_send_acknum := 0, last_recv_acknum := 0, throttling_sends_nr := 0\<rparr>)"

definition omx__partner_reset :: "nat \<Rightarrow> omx_endpoint \<Rightarrow> omx_endpoint" where
  "omx__partner_reset p ep =
     (let ep1 = upd_partner p reset_partner ep
      in if need_ack (pt ep1 p) \<noteq> NEED_NO_ACK
         then (upd_partner p (\<lambda>q. q\<lparr>need_ack := NEED_NO_ACK\<rparr>) ep1)
                \<lparr>partners_to_ack_delayed_list := removeAll p (partners_to_ack_delayed_list ep1),
                 partners_to_ack_immediate_list := removeAll p (partners_to_ack_immediate_list ep1)\<rparr>
         else ep1)"

definition omx__partner_create ::
  "u16 \<Rightarrow> u64 \<Rightarrow> u8 \<Rightarrow> omx_endpoint \<Rightarrow> (omx_return_t + nat) \<times> omx_endpoint"
where
  "omx__partner_create peer_index board_addr endpoint_index ep =
     (let (a, ep1) = ep_malloc ep in
      if a = None then (Inl OMX_NO_RESOURCES, ep1)
      else let i = omx__partner_index ep1 peer_index endpoint_index;
               ep2 = upd_partner i (\<lambda>q. q\<lparr>p_board_addr := board_addr, p_endpoint_index := endpoint_index,
                       p_peer_index := peer_index, p_localization := LOCALIZATION_UNKNOWN,
                       next_match_recv_seq := 0, need_ack := NEED_NO_ACK, user_context := 0,
                       p_known := True\<rparr>) ep1
           in (Inr i, omx__partner_reset i ep2))"

definition omx__partner_check_localization :: "nat \<Rightarrow> bool \<Rightarrow> omx_endpoint \<Rightarrow> omx_endpoint" where
  "omx__partner_check_localization p shared ep =
     (if p_localization (pt ep p) = LOCALIZATION_UNKNOWN
      then upd_partner p (\<lambda>q. q\<lparr>p_localization := (if shared then LOCALIZATION_LOCAL else LOCALIZATION_REMOTE),
             p_rndv_threshold := (if shared then shared_rndv_threshold (cfg ep) else rndv_threshold (cfg ep))\<rparr>) ep
      else ep)"

definition omx__partner_lookup ::
  "u16 \<Rightarrow> u8 \<Rightarrow> omx_endpoint \<Rightarrow> (omx_return_t + nat) \<times> omx_endpoint"
where
  "omx__partner_lookup peer_index endpoint_index ep =
     (let i = omx__partner_index ep peer_index endpoint_index in
      if \<not> p_known (pt ep i) then
        (case d_peer_addr (drv ep) peer_index of
           None \<Rightarrow> (Inl OMX_PEER_NOT_FOUND, ep)
         | Some board_addr \<Rightarrow> omx__partner_create peer_index board_addr endpoint_index ep)
      else (Inr i, ep))"

definition omx__partner_lookup_by_addr ::
  "u64 \<Rightarrow> u8 \<Rightarrow> omx_endpoint \<Rightarrow> (omx_return_t + nat) \<times> omx_endpoint"
where
  "omx__partner_lookup_by_addr board_addr endpoint_index ep =
     (case d_peer_index (drv ep) board_addr of
        None \<Rightarrow> (Inl OMX_PEER_NOT_FOUND, ep)
      | Some peer_index \<Rightarrow>
          (let i = omx__partner_index ep peer_index endpoint_index in
           if \<not> p_known (pt ep i) then omx__partner_create peer_index board_addr endpoint_index ep
           else (Inr i, ep)))"

definition omx__connect_myself :: "omx_endpoint \<Rightarrow> omx_return_t \<times> omx_endpoint" where
  "omx__connect_myself ep =
     (case d_peer_index (drv ep) (ep_board_addr (cfg ep)) of
        None \<Rightarrow> (OMX_PEER_NOT_FOUND, ep)
      | Some peer_index \<Rightarrow>
          (case omx__partner_create peer_index (ep_board_addr (cfg ep)) (ep_endpoint_index (cfg ep)) ep of
             (Inl ret, ep1) \<Rightarrow> (ret, ep1)
           | (Inr i, ep1) \<Rightarrow>
               (let c = cfg ep1; near = selfcomms c \<or> sharedcomms c
                in (OMX_SUCCESS,
                    upd_partner i (\<lambda>q. q\<lparr>next_send_seq := OMX__SEQNUM 1, next_acked_send_seq := OMX__SEQNUM 1,
                        next_match_recv_seq := OMX__SEQNUM 1, next_frag_recv_seq := OMX__SEQNUM 1,
                        true_session_id := ep_session_id c, back_session_id := ep_session_id c,
                        p_localization := (if near then LOCALIZATION_LOCAL else LOCALIZATION_REMOTE),
                        p_rndv_threshold := (if near then shared_rndv_threshold c else rndv_threshold c)\<rparr>)
                      (ep1\<lparr>myself := i\<rparr>)))))"

subsection \<open>Connect requests\<close>

definition omx__post_connect_request :: "nat \<Rightarrow> nat \<Rightarrow> omx_endpoint \<Rightarrow> omx_endpoint option" where
  "omx__post_connect_request p r ep = do {
     let ep1 = upd_req r (\<lambda>q. q\<lparr>r_connect_param := (r_connect_param q)
                 \<lparr>cq_target_recv_seqnum_start := next_match_recv_seq (pt ep p)\<rparr>\<rparr>) ep;
     let (err, ep2) = ep_ioctl (OMX_CMD_XEN_SEND_CONNECT_REQUEST (r_connect_param (rq ep1 r))) ep1;
     (case err of None \<Rightarrow> Some (Public OMX_SUCCESS)
      | Some e \<Rightarrow> omx__ioctl_errno_to_return_checked [Public OMX_NO_SYSTEM_RESOURCES] e);
     Some (upd_req r (\<lambda>q. q\<lparr>r_resends := r_resends q + 1, r_last_send_jiffies := jiffies (cfg ep)\<rparr>) ep2)
   }"

text \<open>An internal request keeps its status for the caller that waits for it.\<close>

definition omx__connect_complete ::
  "nat \<Rightarrow> omx_return_t \<Rightarrow> u32 \<Rightarrow> omx_endpoint \<Rightarrow> omx_endpoint option"
where
  "omx__connect_complete r status session_id ep = do {
     let p = r_partner (rq ep r);
     let ctxid = CTXID_FROM_MATCHING ep (st_match_info (r_status (rq ep r)));
     let ep1 = clear_state STATE_NEED_REPLY r (omx__dequeue_partner_request r (omx__dequeue_request r ep));
     ep2 \<leftarrow> (if st_code (r_status (rq ep1 r)) = OMX_SUCCESS then
              if STATE_INTERNAL \<notin> r_state (rq ep1 r)
              then do { c \<leftarrow> omx__error_with_req ep1 r status; Some (set_code c r ep1) }
              else Some (set_code status r ep1)
            else Some ep1);
     let ep3 = (if status = OMX_SUCCESS
                then upd_req r (\<lambda>q. q\<lparr>r_status := (r_status q)
                       \<lparr>st_addr := omx__partner_session_to_addr p session_id\<rparr>\<rparr>) ep2
                else ep2);
     Some (omx__notify_request_done ctxid r ep3)
   }"

subsection \<open>Dropping a partner\<close>

text \<open>
  Each loop of \<open>omx__partner_cleanup\<close> walks a list whose head it empties; the loops over lists of
  the endpoint skip the requests of other partners.
\<close>

definition drop_pending_send :: "nat \<Rightarrow> omx_endpoint \<Rightarrow> omx_endpoint option" where
  "drop_pending_send r ep =
     omx__mark_request_acked r OMX_REMOTE_ENDPOINT_UNREACHABLE (omx__dequeue_partner_request r ep)"

definition drop_need_reply :: "nat \<Rightarrow> nat \<Rightarrow> omx_endpoint \<Rightarrow> omx_endpoint option" where
  "drop_need_reply p r ep =
     (if r_partner (rq ep r) \<noteq> p then Some ep
      else omx__send_complete r OMX_REMOTE_ENDPOINT_UNREACHABLE
             (clear_state STATE_NEED_REPLY r (omx__dequeue_request r ep)))"

definition drop_need_resources :: "nat \<Rightarrow> nat \<Rightarrow> omx_endpoint \<Rightarrow> omx_endpoint option" where
  "drop_need_resources p r ep =
     (if r_partner (rq ep r) \<noteq> p then Some ep
      else omx__complete_unsent_send_request r
             (clear_state STATE_NEED_RESOURCES r (omx__dequeue_request r ep)))"

definition drop_need_seqnum :: "nat \<Rightarrow> omx_endpoint \<Rightarrow> omx_endpoint option" where
  "drop_need_seqnum r ep = omx__complete_unsent_send_request r (omx__dequeue_partner_request r ep)"

definition drop_connect :: "nat \<Rightarrow> omx_endpoint \<Rightarrow> omx_endpoint option" where
  "drop_connect r = omx__connect_complete r OMX_REMOTE_ENDPOINT_UNREACHABLE (-1)"

definition drop_partial_recv :: "nat \<Rightarrow> omx_endpoint \<Rightarrow> omx_endpoint option" where
  "drop_partial_recv r ep =
     (let ep1 = omx__dequeue_partner_request r ep;
          ep2 = (if STATE_UNEXPECTED_RECV \<in> r_state (rq ep1 r) then
                   let ep' = omx__dequeue_request r ep1
                   in if HAS_CTXIDS ep' then omx__dequeue_ctxid_request r ep' else ep'
                 else ep1)
      in omx__recv_complete r OMX_REMOTE_ENDPOINT_UNREACHABLE (clear_state STATE_RECV_PARTIAL r ep2))"

definition drop_unexpected :: "nat \<Rightarrow> nat \<Rightarrow> omx_endpoint \<Rightarrow> omx_endpoint option" where
  "drop_unexpected p r ep =
     (if r_partner (rq ep r) \<noteq> p then Some ep
      else Some (omx__request_free r (omx__dequeue_request r ep)))"

definition partner_changed_session :: "omx__partner \<Rightarrow> omx__partner" where
  "partner_changed_session q =
     q\<lparr>next_match_recv_seq := (next_match_recv_seq q XOR OMX__SEQNUM 0xb0f0) + OMX__SESNUM_ONE,
       next_frag_recv_seq := (next_frag_recv_seq q XOR OMX__SEQNUM 0xcf0f) + OMX__SESNUM_ONE\<rparr>"

definition omx__partner_cleanup :: "nat \<Rightarrow> nat \<Rightarrow> omx_endpoint \<Rightarrow> omx_endpoint option" where
  "omx__partner_cleanup p disconnect ep = do {
     ep1 \<leftarrow> foreach drop_pending_send (p_queues (pt ep p) P_NON_ACKED) ep;
     ep2 \<leftarrow> foreach (drop_need_reply p) (queues ep1 LARGE_SEND_NEED_REPLY_REQ_Q) ep1;
     ep3 \<leftarrow> foreach (drop_need_resources p) (queues ep2 NEED_RESOURCES_SEND_REQ_Q) ep2;
     ep4 \<leftarrow> foreach drop_need_seqnum (p_queues (pt ep3 p) P_NEED_SEQNUM_SEND) ep3;
     ep5 \<leftarrow> foreach drop_connect (p_queues (pt ep4 p) P_CONNECT) ep4;
     ep6 \<leftarrow> foreach drop_partial_recv (p_queues (pt ep5 p) P_PARTIAL_MEDIUM_RECV) ep5;
     let ep7 = upd_partner p (\<lambda>q. q\<lparr>early_recv_q := []\<rparr>) ep6;
     ep8 \<leftarrow> foreach (drop_unexpected p) (queues ep7 UNEXP_REQ_Q) ep7;
     let ep9 = omx__partner_reset p ep8;
     Some (if disconnect = 0 then ep9
           else let ep10 = upd_partner p partner_changed_session ep9
                in if disconnect > 1
                   then upd_partner (omx__partner_index ep10 (p_peer_index (pt ep10 p)) (p_endpoint_index (pt ep10 p)))
                          (\<lambda>q. q\<lparr>p_known := False\<rparr>) ep10
                   else ep10)
   }"

subsection \<open>Connect replies\<close>

definition OMX_CONNECT_STATUS_SUCCESS :: u8 where "OMX_CONNECT_STATUS_SUCCESS = 0"
definition OMX_CONNECT_STATUS_BAD_KEY :: u8 where "OMX_CONNECT_STATUS_BAD_KEY = 11"

definition connect_status :: "u8 \<Rightarrow> omx_return_t option" where
  "connect_status c =
     (if c = OMX_CONNECT_STATUS_SUCCESS then Some OMX_SUCCESS
      else if c = OMX_CONNECT_STATUS_BAD_KEY then Some OMX_REMOTE_ENDPOINT_BAD_CONNECTION_KEY
      else None)"

definition reset_send_seq :: "u32 \<Rightarrow> omx__seqnum_t \<Rightarrow> omx__partner \<Rightarrow> omx__partner" where
  "reset_send_seq session start q =
     (if true_session_id q \<noteq> session
      then q\<lparr>next_send_seq := start, next_acked_send_seq := start\<rparr> else q)"

definition omx__handle_connect_reply ::
  "nat \<Rightarrow> nat \<Rightarrow> omx_evt_recv_connect_reply \<Rightarrow> omx_endpoint \<Rightarrow> omx_endpoint option"
where
  "omx__handle_connect_reply p r event ep =
     (case connect_status (er_connect_status_code event) of
        None \<Rightarrow> Some ep
      | Some status_code \<Rightarrow> do {
          let target = er_target_session_id event;
          ep1 \<leftarrow> omx__connect_complete r status_code target ep;
          (if status_code = OMX_SUCCESS then do {
             ep2 \<leftarrow> (if back_session_id (pt ep1 p) \<noteq> target \<and> back_session_id (pt ep1 p) \<noteq> -1
                    then omx__partner_cleanup p 0 ep1 else Some ep1);
             Some (upd_partner p (\<lambda>q. q\<lparr>true_session_id := target\<rparr>)
                    (upd_partner p (reset_send_seq target (er_target_recv_seqnum_start event)) ep2))
           } else Some ep1)
        })"

definition omx__process_recv_connect_reply :: "omx_evt_recv_connect_reply \<Rightarrow> omx_endpoint \<Rightarrow> omx_endpoint option" where
  "omx__process_recv_connect_reply event ep =
     (case omx__partner_lookup (er_peer_index event) (er_src_endpoint event) ep of
        (Inl ret, ep1) \<Rightarrow> Some ep1
      | (Inr p, ep1) \<Rightarrow>
          (let ep2 = omx__partner_check_localization p (er_shared event) ep1 in
           case find (\<lambda>r. er_src_session_id event = ep_session_id (cfg ep2)
                         \<and> er_connect_seqnum event = r_connect_seqnum (rq ep2 r))
                  (p_queues (pt ep2 p) P_CONNECT) of
             None \<Rightarrow> Some ep2
           | Some r \<Rightarrow> omx__handle_connect_reply p r event ep2))"

subsection \<open>Connect requests of a peer\<close>

definition reset_recv_seq :: "omx__partner \<Rightarrow> omx__partner" where
  "reset_recv_seq q = q\<lparr>next_match_recv_seq := OMX__SEQNUM_RESET (next_match_recv_seq q),
                        next_frag_recv_seq := OMX__SEQNUM_RESET (next_frag_recv_seq q)\<rparr>"

definition omx__process_recv_connect_request :: "omx_evt_recv_connect_request \<Rightarrow> omx_endpoint \<Rightarrow> omx_endpoint option" where
  "omx__process_recv_connect_request event ep =
     (case omx__partner_lookup (eq_peer_index event) (eq_src_endpoint event) ep of
        (Inl ret, ep1) \<Rightarrow> Some ep1
      | (Inr p, ep1) \<Rightarrow> do {
          let ep2 = omx__partner_check_localization p (eq_shared event) ep1;
          let code = (if eq_app_key event = app_key (cfg ep2) then OMX_CONNECT_STATUS_SUCCESS
                      else OMX_CONNECT_STATUS_BAD_KEY);
          let src = eq_src_session_id event;
          ep3 \<leftarrow> (if back_session_id (pt ep2 p) \<noteq> src then do {
                   ep' \<leftarrow> (if back_session_id (pt ep2 p) \<noteq> -1 then omx__partner_cleanup p 0 ep2 else Some ep2);
                   Some (upd_partner p reset_recv_seq ep')
                 } else Some ep2);
          let ep4 = upd_partner p (\<lambda>q. q\<lparr>true_session_id := src, back_session_id := src\<rparr>)
                      (upd_partner p (reset_send_seq src (eq_target_recv_seqnum_start event)) ep3);
          let q = pt ep4 p;
          let (err, ep5) = ep_ioctl (OMX_CMD_XEN_SEND_CONNECT_REPLY
                \<lparr>cr_peer_index = p_peer_index q, cr_dest_endpoint = p_endpoint_index q,
                 cr_shared_disabled = (\<not> sharedcomms (cfg ep4)), cr_seqnum = 0,
                 cr_src_session_id = src, cr_target_session_id = ep_session_id (cfg ep4),
                 cr_target_recv_seqnum_start = next_match_recv_seq q,
                 cr_connect_seqnum = eq_connect_seqnum event, cr_connect_status_code = code\<rparr>) ep4;
          (case err of None \<Rightarrow> Some (Public OMX_SUCCESS)
           | Some e \<Rightarrow> omx__ioctl_errno_to_return_checked [Public OMX_NO_SYSTEM_RESOURCES] e);
          Some ep5
        })"

subsection \<open>The context of an address\<close>

definition omx_set_endpoint_addr_context :: "omx__endpoint_addr \<Rightarrow> nat \<Rightarrow> omx_endpoint \<Rightarrow> omx_endpoint" where
  "omx_set_endpoint_addr_context addr context =
     upd_partner (omx__partner_from_addr addr) (\<lambda>q. q\<lparr>user_context := context\<rparr>)"

definition omx_get_endpoint_addr_context :: "omx__endpoint_addr \<Rightarrow> omx_endpoint \<Rightarrow> nat" where
  "omx_get_endpoint_addr_context addr ep = user_context (pt ep (omx__partner_from_addr addr))"

subsection \<open>Nacks\<close>

definition try_connect_req :: "nat \<Rightarrow> omx_return_t \<Rightarrow> omx_endpoint \<Rightarrow> omx_endpoint option" where
  "try_connect_req p status ep =
     (if \<not> omx__empty_partner_queue p P_CONNECT ep
      then omx__connect_complete (omx__first_partner_request p P_CONNECT ep) status (-1) ep
      else Some ep)"

text \<open>The pending request with the index of the nack, the queue being in the order of the indexes.\<close>

fun find_nacked :: "(nat \<Rightarrow> omx__seqnum_t) \<Rightarrow> omx__seqnum_t \<Rightarrow> nat list \<Rightarrow> nat option" where
  "find_nacked index nack [] = None"
| "find_nacked index nack (r # rs) =
     (if nack < index r then None else if nack = index r then Some r else find_nacked index nack rs)"

definition omx__handle_nack ::
  "nat \<Rightarrow> omx__seqnum_t \<Rightarrow> omx_return_t \<Rightarrow> omx_endpoint \<Rightarrow> omx_endpoint option"
where
  "omx__handle_nack p seqnum status ep =
     (let acked = next_acked_send_seq (pt ep p) in
      if OMX__SESNUM (seqnum XOR next_send_seq (pt ep p)) \<noteq> 0 then try_connect_req p status ep
      else case find_nacked (\<lambda>r. OMX__SEQNUM (r_send_seqnum (rq ep r) - acked)) (OMX__SEQNUM (seqnum - acked))
                  (p_queues (pt ep p) P_NON_ACKED) of
             Some r \<Rightarrow> omx__mark_request_acked r status (omx__dequeue_partner_request r ep)
           | None \<Rightarrow> try_connect_req p status ep)"

definition nack_lib_status :: "nat \<Rightarrow> omx_return_t option" where
  "nack_lib_status t =
     (if t = 1 then Some OMX_REMOTE_ENDPOINT_BAD_ID
      else if t = 2 then Some OMX_REMOTE_ENDPOINT_CLOSED
      else if t = 3 then Some OMX_REMOTE_ENDPOINT_BAD_SESSION
      else None)"

definition omx__process_recv_nack_lib :: "omx_evt_recv_nack_lib \<Rightarrow> omx_endpoint \<Rightarrow> omx_endpoint option" where
  "omx__process_recv_nack_lib nack ep =
     (case omx__partner_recv_lookup ep (nl_peer_index nack) (nl_src_endpoint nack) of
        None \<Rightarrow> Some ep
      | Some p \<Rightarrow> do {
          status \<leftarrow> nack_lib_status (nl_nack_type nack);
          omx__handle_nack p (nl_seqnum nack) status ep
        })"

end
