(* ===== verification/Recv.thy ===== *)
theory Recv
  imports Connect
begin

text \<open>
  Receiving (\<open>libxen2mx/omx_recv.c\<close>): messages of a partner are processed in the order of their
  sequence numbers, early ones waiting in a sorted queue; a message is matched with a posted
  receive, given to the unexpected handler of the application, or stored as unexpected; the
  fragments of a medium message are accumulated in any order. A receive posted later takes the
  unexpected message. Messages to oneself do not go through the driver.

  The unexpected handler is the application's: a parameter, given the source, the match
  information, the length and the data when there is any, which may use the endpoint.
\<close>

datatype omx_unexp_handler_action = RECV_FINISHED | RECV_CONTINUE | RECV_OTHER

type_synonym unexp_handler =
  "omx__endpoint_addr \<Rightarrow> u64 \<Rightarrow> nat \<Rightarrow> bytes option \<Rightarrow> omx_endpoint
    \<Rightarrow> (omx_unexp_handler_action \<times> omx_endpoint) option"

subsection \<open>Early packets\<close>

definition is_medium_frag :: "evt_specific \<Rightarrow> bool" where
  "is_medium_frag s \<longleftrightarrow> (case s of Ev_medium_frag _ _ _ _ _ _ \<Rightarrow> True | _ \<Rightarrow> False)"

definition is_rndv :: "evt_specific \<Rightarrow> bool" where
  "is_rndv s \<longleftrightarrow> (case s of Ev_rndv _ _ _ _ _ \<Rightarrow> True | _ \<Rightarrow> False)"

definition frag_seqnum_of :: "evt_specific \<Rightarrow> nat" where
  "frag_seqnum_of s = (case s of Ev_medium_frag _ _ _ n _ _ \<Rightarrow> n | _ \<Rightarrow> 0)"

datatype early_place = Drop_early | After_early nat

text \<open>
  The walk of \<open>omx__find_previous_early_packet\<close>, from the end of the queue: \<open>n\<close> packets are still to
  be looked at, the last of which is \<open>early ! (n - 1)\<close>. The new packet goes behind the first \<open>n\<close>
  ones (\<open>After_early n\<close>), or is dropped as a duplicate.
\<close>

fun find_previous_early :: "omx__seqnum_t \<Rightarrow> omx_evt_recv_msg \<Rightarrow> omx__early_packet list \<Rightarrow> nat \<Rightarrow> early_place" where
  "find_previous_early next_match msg early 0 = After_early 0"
| "find_previous_early next_match msg early (Suc n) =
     (let current = e_msg (early ! n);
          new_index = OMX__SEQNUM (ev_seqnum msg - next_match);
          current_index = OMX__SEQNUM (ev_seqnum current - next_match)
      in if new_index > current_index then After_early (Suc n)
         else if new_index < current_index then find_previous_early next_match msg early n
         else if is_medium_frag (ev_specific msg) then
           if frag_seqnum_of (ev_specific msg) > frag_seqnum_of (ev_specific current) then After_early (Suc n)
           else if frag_seqnum_of (ev_specific msg) < frag_seqnum_of (ev_specific current)
             then find_previous_early next_match msg early n
           else Drop_early
         else Drop_early)"

definition omx__find_previous_early_packet :: "omx__partner \<Rightarrow> omx_evt_recv_msg \<Rightarrow> early_place" where
  "omx__find_previous_early_packet partner msg =
     find_previous_early (next_match_recv_seq partner) msg (early_recv_q partner) (length (early_recv_q partner))"

text \<open>
  The data kept with an early packet: a copy, whose allocation may fail. A notify has no length
  (\<open>early->msg_length\<close> is not set, nor read).
\<close>

definition early_contents :: "omx_evt_recv_msg \<Rightarrow> bytes \<Rightarrow> (bytes \<times> nat \<times> bool)" where
  "early_contents msg data = (case ev_specific msg of
      Ev_tiny _ len _ \<Rightarrow> ([], len, False)
    | Ev_small _ len _ \<Rightarrow> (take len data, len, True)
    | Ev_medium_frag _ msg_len frag_len _ _ _ \<Rightarrow> (take frag_len data, msg_len, True)
    | Ev_rndv msg_len _ _ _ _ \<Rightarrow> ([], msg_len, False)
    | Ev_notify _ _ _ \<Rightarrow> ([], 0, False))"

definition omx__postpone_early_packet ::
  "nat \<Rightarrow> omx_evt_recv_msg \<Rightarrow> bytes \<Rightarrow> omx__process_recv_func_t \<Rightarrow> omx_endpoint \<Rightarrow> omx_endpoint"
where
  "omx__postpone_early_packet p msg data recv_func ep =
     (case omx__find_previous_early_packet (pt ep p) msg of
        Drop_early \<Rightarrow> ep
      | After_early n \<Rightarrow>
          (let (a, ep1) = ep_malloc ep; (bs, len, copies) = early_contents msg data in
           if a = None then ep1
           else let (b, ep2) = (if copies then ep_malloc ep1 else (a, ep1)) in
             if b = None then ep2
             else let early = \<lparr>e_msg = msg, e_recv_func = recv_func, e_data = bs, e_msg_length = len\<rparr>
                  in upd_partner p (\<lambda>q. q\<lparr>early_recv_q := take n (early_recv_q q) @ early # drop n (early_recv_q q)\<rparr>) ep2))"

subsection \<open>Processing a matched message\<close>

definition enqueue_unexpected :: "u64 \<Rightarrow> nat \<Rightarrow> omx_endpoint \<Rightarrow> omx_endpoint" where
  "enqueue_unexpected match_info r ep =
     (let ep1 = omx__enqueue_request UNEXP_REQ_Q r ep
      in if HAS_CTXIDS ep1
         then omx__enqueue_ctxid_request (CTXID_UNEXP_REQ_Q (CTXID_FROM_MATCHING ep match_info)) r ep1
         else ep1)"

definition with_mem :: "(memory \<Rightarrow> memory option) \<Rightarrow> omx_endpoint \<Rightarrow> omx_endpoint option" where
  "with_mem f ep = do { m \<leftarrow> f (mem ep); Some (ep\<lparr>mem := m\<rparr>) }"

text \<open>\<open>omx__process_recv_tiny\<close> and \<open>omx__process_recv_small\<close> differ in where the data is.\<close>

definition process_recv_data :: "nat \<Rightarrow> u64 \<Rightarrow> bytes \<Rightarrow> nat \<Rightarrow> omx_endpoint \<Rightarrow> omx_endpoint option" where
  "process_recv_data r match_info data xfer_length ep = do {
     ep1 \<leftarrow> with_mem (omx_copy_to_segments (r_segs (rq ep r)) data xfer_length) ep;
     (if STATE_UNEXPECTED_RECV \<in> r_state (rq ep1 r) then Some (enqueue_unexpected match_info r ep1)
      else omx__recv_complete r OMX_SUCCESS ep1)
   }"

definition omx__process_recv_tiny :: "nat \<Rightarrow> omx_evt_recv_msg \<Rightarrow> nat \<Rightarrow> omx_endpoint \<Rightarrow> omx_endpoint option" where
  "omx__process_recv_tiny r msg xfer_length =
     process_recv_data r (ev_match_info msg) (ev_tiny_data (ev_specific msg)) xfer_length"

definition omx__process_recv_small ::
  "nat \<Rightarrow> omx_evt_recv_msg \<Rightarrow> bytes \<Rightarrow> nat \<Rightarrow> omx_endpoint \<Rightarrow> omx_endpoint option"
where
  "omx__process_recv_small r msg data xfer_length = process_recv_data r (ev_match_info msg) data xfer_length"

text \<open>
  \<open>segs\<close> tells whether the segments of the request are set yet: they are for a posted receive, and
  for a new unexpected request they are set only later, so that the scan state points nowhere.
\<close>

definition omx__init_process_recv_medium :: "bool \<Rightarrow> nat \<Rightarrow> omx_endpoint \<Rightarrow> omx_endpoint" where
  "omx__init_process_recv_medium segs_set r =
     upd_req r (\<lambda>q. q\<lparr>r_frags_received_mask := 0, r_accumulated_length := 0, r_scan_offset := 0,
                      r_scan_state := (if segs_set then Some \<lparr>scan_seg = 0, scan_off = 0\<rparr> else None)\<rparr>)"

definition xfer_chunk :: "nat \<Rightarrow> nat \<Rightarrow> nat \<Rightarrow> nat" where
  "xfer_chunk offset chunk xfer_length =
     (if offset + chunk \<le> xfer_length then chunk
      else if offset \<le> xfer_length then xfer_length - offset
      else 0)"

text \<open>Copying a fragment to segments seeks when the scan is elsewhere, and else trusts the scan state.\<close>

definition copy_frag_to_segments :: "nat \<Rightarrow> bytes \<Rightarrow> nat \<Rightarrow> omx_endpoint \<Rightarrow> omx_endpoint option" where
  "copy_frag_to_segments r src offset ep = do {
     let q = rq ep r;
     st \<leftarrow> (if offset = r_scan_offset q then r_scan_state q else Some \<lparr>scan_seg = 0, scan_off = 0\<rparr>);
     (m, st', so') \<leftarrow> omx_partial_copy_to_segments (r_segs q) src offset st (r_scan_offset q) (mem ep);
     Some (upd_req r (\<lambda>q. q\<lparr>r_scan_state := Some st', r_scan_offset := so'\<rparr>) (ep\<lparr>mem := m\<rparr>))
   }"

definition copy_frag :: "nat \<Rightarrow> bytes \<Rightarrow> nat \<Rightarrow> omx_endpoint \<Rightarrow> omx_endpoint option" where
  "copy_frag r src offset ep =
     (if nseg (r_segs (rq ep r)) = 1
      then Some (ep\<lparr>mem := write_mem (vaddr (single (r_segs (rq ep r))) + offset) src (mem ep)\<rparr>)
      else copy_frag_to_segments r src offset ep)"

text \<open>
  The bit of a fragment in the mask of 32 bits, \<open>1 << frag_seqnum\<close>; beyond the width the shift
  is undefined (\<^term>\<open>None\<close>).
\<close>

definition frag_bit :: "nat \<Rightarrow> u32 option" where
  "frag_bit n = (if n < 32 then Some (push_bit n 1) else None)"

definition omx__process_recv_medium_frag ::
  "nat \<Rightarrow> nat \<Rightarrow> omx_evt_recv_msg \<Rightarrow> bytes \<Rightarrow> nat \<Rightarrow> omx_endpoint \<Rightarrow> omx_endpoint option"
where
  "omx__process_recv_medium_frag p r msg data xfer_length ep = do {
     let msg_length = ev_msg_length (ev_specific msg);
     let chunk = ev_frag_length (ev_specific msg);
     let frag_seqnum = ev_frag_seqnum (ev_specific msg);
     let offset = frag_seqnum * medium_frag_length_max (cfg ep);
     let new = (r_frags_received_mask (rq ep r) = 0);
     bit \<leftarrow> frag_bit frag_seqnum;
     (if r_frags_received_mask (rq ep r) AND bit \<noteq> 0 then Some ep
      else do {
        let n = xfer_chunk offset chunk xfer_length;
        c_assert (n \<le> length data);
        ep1 \<leftarrow> copy_frag r (take n data) offset ep;
        let ep2 = upd_req r (\<lambda>q. q\<lparr>r_frags_received_mask := r_frags_received_mask q OR bit,
                    r_accumulated_length := (r_accumulated_length q + chunk) mod 2 ^ 32\<rparr>) ep1;
        let ep3 = (if new then
                     let ep' = (if STATE_UNEXPECTED_RECV \<in> r_state (rq ep2 r)
                                then enqueue_unexpected (ev_match_info msg) r ep2 else ep2)
                     in omx__enqueue_partner_request p P_PARTIAL_MEDIUM_RECV r (set_state STATE_RECV_PARTIAL r ep')
                   else ep2);
        (if r_accumulated_length (rq ep3 r) = msg_length then
           let ep4 = omx__dequeue_partner_request r (clear_state STATE_RECV_PARTIAL r ep3)
           in if STATE_UNEXPECTED_RECV \<notin> r_state (rq ep4 r) then omx__recv_complete r OMX_SUCCESS ep4
              else Some ep4
         else Some ep3)
      })
   }"

definition omx__process_recv_rndv :: "nat \<Rightarrow> omx_evt_recv_msg \<Rightarrow> omx_endpoint \<Rightarrow> omx_endpoint option" where
  "omx__process_recv_rndv r msg ep =
     (let s = ev_specific msg;
          ep1 = set_state STATE_RECV_PARTIAL r
                 (upd_req r (\<lambda>q. q\<lparr>r_checksum := ev_checksum s, r_pulled_rdma_id := ev_rdma_id s,
                    r_pulled_rdma_seqnum := ev_rdma_seqnum s, r_pulled_rdma_offset := ev_rdma_offset s,
                    r_type := TYPE_RECV_LARGE\<rparr>) ep)
      in if STATE_UNEXPECTED_RECV \<in> r_state (rq ep1 r)
         then Some (enqueue_unexpected (ev_match_info msg) r ep1)
         else omx__submit_pull r ep1)"

definition recv_func ::
  "omx__process_recv_func_t \<Rightarrow> nat \<Rightarrow> nat \<Rightarrow> omx_evt_recv_msg \<Rightarrow> bytes \<Rightarrow> nat \<Rightarrow> omx_endpoint \<Rightarrow> omx_endpoint option"
where
  "recv_func f p r msg data xfer_length = (case f of
      RECV_TINY \<Rightarrow> omx__process_recv_tiny r msg xfer_length
    | RECV_SMALL \<Rightarrow> omx__process_recv_small r msg data xfer_length
    | RECV_MEDIUM_FRAG \<Rightarrow> omx__process_recv_medium_frag p r msg data xfer_length
    | RECV_RNDV \<Rightarrow> omx__process_recv_rndv r msg
    | RECV_NOTIFY \<Rightarrow> omx__process_recv_notify p msg xfer_length)"

subsection \<open>Matching\<close>

definition omx__match_recv :: "u64 \<Rightarrow> omx_endpoint \<Rightarrow> nat option \<times> omx_endpoint" where
  "omx__match_recv match_info ep =
     (case find (\<lambda>r. r_match_info (rq ep r) = r_match_mask (rq ep r) AND match_info)
             (queues ep (RECV_REQ_Q (CTXID_FROM_MATCHING ep match_info))) of
        None \<Rightarrow> (None, ep)
      | Some r \<Rightarrow> (Some r, omx__dequeue_request r ep))"

definition data_if_available :: "omx_evt_recv_msg \<Rightarrow> bytes \<Rightarrow> nat \<Rightarrow> bytes option" where
  "data_if_available msg data msg_length = (case ev_specific msg of
      Ev_tiny _ _ bs \<Rightarrow> Some bs
    | Ev_small _ _ _ \<Rightarrow> Some data
    | Ev_medium_frag _ _ frag_length _ _ _ \<Rightarrow> (if msg_length = frag_length then Some data else None)
    | _ \<Rightarrow> None)"

text \<open>The handler runs with the progression disabled. An action of no known kind aborts.\<close>

definition call_unexp_handler ::
  "unexp_handler \<Rightarrow> omx__endpoint_addr \<Rightarrow> u64 \<Rightarrow> nat \<Rightarrow> bytes option \<Rightarrow> omx_endpoint
    \<Rightarrow> (bool \<times> omx_endpoint) option"
where
  "call_unexp_handler handler source match_info msg_length data ep = do {
     (action, ep1) \<leftarrow> handler source match_info msg_length data (ep\<lparr>progression_disabled := {DISABLED_IN_HANDLER}\<rparr>);
     let ep2 = ep1\<lparr>progression_disabled := {}\<rparr>;
     (case action of RECV_FINISHED \<Rightarrow> Some (True, ep2) | RECV_CONTINUE \<Rightarrow> Some (False, ep2) | RECV_OTHER \<Rightarrow> None)
   }"

definition process_matched ::
  "nat \<Rightarrow> omx__endpoint_addr \<Rightarrow> omx__seqnum_t \<Rightarrow> omx_evt_recv_msg \<Rightarrow> bytes \<Rightarrow> nat
    \<Rightarrow> omx__process_recv_func_t \<Rightarrow> nat \<Rightarrow> omx_endpoint \<Rightarrow> omx_endpoint option"
where
  "process_matched p source seqnum msg data msg_length f r ep =
     (let xfer_length = min (total_length (r_segs (rq ep r))) msg_length;
          ep1 = clear_state STATE_RECV_NEED_MATCHING r
                 (upd_req r (\<lambda>q. q\<lparr>r_partner := p, r_seqnum := seqnum,
                    r_status := (r_status q)\<lparr>st_addr := source, st_match_info := ev_match_info msg,
                                              st_msg_length := msg_length, st_xfer_length := xfer_length\<rparr>\<rparr>) ep);
          ep2 = (if is_medium_frag (ev_specific msg) then omx__init_process_recv_medium True r ep1 else ep1)
      in recv_func f p r msg data xfer_length ep2)"

text \<open>An unexpected message: \<^term>\<open>False\<close> stands for \<open>OMX_NO_RESOURCES\<close>, and the message is dropped.\<close>

definition process_unexpected ::
  "nat \<Rightarrow> omx__endpoint_addr \<Rightarrow> omx__seqnum_t \<Rightarrow> omx_evt_recv_msg \<Rightarrow> bytes \<Rightarrow> nat
    \<Rightarrow> omx__process_recv_func_t \<Rightarrow> omx_endpoint \<Rightarrow> (bool \<times> omx_endpoint) option"
where
  "process_unexpected p source seqnum msg data msg_length f ep =
     (case omx__request_alloc ep of
        (None, ep1) \<Rightarrow> Some (False, ep1)
      | (Some r, ep1) \<Rightarrow> do {
          let ep2 = upd_req r (\<lambda>q. q\<lparr>r_type := TYPE_RECV, r_state := {STATE_UNEXPECTED_RECV}\<rparr>) ep1;
          let ep3 = (if is_medium_frag (ev_specific msg) then omx__init_process_recv_medium False r ep2 else ep2);
          let (buffer, ep4) = (if is_rndv (ev_specific msg) \<or> msg_length = 0 then (Some 0, ep3) else ep_malloc ep3);
          (case buffer of
             None \<Rightarrow> Some (False, omx__request_free r ep4)
           | Some b \<Rightarrow> do {
               let ep5 = (if is_rndv (ev_specific msg) then ep4
                          else upd_req r (\<lambda>q. q\<lparr>r_segs := omx_cache_single_segment b msg_length\<rparr>) ep4);
               let ep6 = upd_req r (\<lambda>q. q\<lparr>r_partner := p, r_seqnum := seqnum,
                     r_status := (r_status q)\<lparr>st_addr := source, st_match_info := ev_match_info msg,
                                               st_msg_length := msg_length, st_xfer_length := msg_length\<rparr>\<rparr>) ep5;
               ep7 \<leftarrow> recv_func f p r msg data msg_length ep6;
               Some (True, ep7)
             })
        })"

definition omx__try_match_next_recv ::
  "unexp_handler option \<Rightarrow> nat \<Rightarrow> omx__seqnum_t \<Rightarrow> omx_evt_recv_msg \<Rightarrow> bytes \<Rightarrow> nat
    \<Rightarrow> omx__process_recv_func_t \<Rightarrow> omx_endpoint \<Rightarrow> (bool \<times> omx_endpoint) option"
where
  "omx__try_match_next_recv handler p seqnum msg data msg_length f ep = do {
     let source = omx__partner_recv_to_addr ep p;
     let (found, ep1) = omx__match_recv (ev_match_info msg) ep;
     (finished, found, ep2) \<leftarrow>
       (case (handler, found) of
          (Some h, None) \<Rightarrow> do {
            (fin, ep') \<leftarrow> call_unexp_handler h source (ev_match_info msg) msg_length
                           (data_if_available msg data msg_length) ep1;
            (if fin then Some (True, None, ep')
             else let (found', ep'') = omx__match_recv (ev_match_info msg) ep' in Some (False, found', ep''))
          }
        | _ \<Rightarrow> Some (False, found, ep1));
     (if finished then
        if is_rndv (ev_specific msg)
        then do { ep3 \<leftarrow> omx__submit_discarded_notify p msg ep2; Some (True, ep3) }
        else Some (True, ep2)
      else case found of
        Some r \<Rightarrow> do { ep3 \<leftarrow> process_matched p source seqnum msg data msg_length f r ep2; Some (True, ep3) }
      | None \<Rightarrow> process_unexpected p source seqnum msg data msg_length f ep2)
   }"

subsection \<open>Sequence numbers of the receive side\<close>

definition omx__update_partner_next_frag_recv_seq :: "nat \<Rightarrow> omx_endpoint \<Rightarrow> omx_endpoint" where
  "omx__update_partner_next_frag_recv_seq p ep =
     (let partner = pt ep p;
          new = (if omx__empty_partner_queue p P_PARTIAL_MEDIUM_RECV ep then next_match_recv_seq partner
                 else r_seqnum (rq ep (omx__first_partner_request p P_PARTIAL_MEDIUM_RECV ep)))
      in if new \<noteq> next_frag_recv_seq partner then
           let ep1 = upd_partner p (\<lambda>q. q\<lparr>next_frag_recv_seq := new\<rparr>) ep
           in if unat (OMX__SEQNUM (new - last_acked_recv_seq partner)) \<ge> not_acked_max (cfg ep)
              then omx__mark_partner_need_ack_immediate p ep1
              else omx__mark_partner_need_ack_delayed p ep1
         else ep)"

text \<open>The partial message of the fragment, the queue being in the order of the indexes.\<close>

fun find_partial :: "(nat \<Rightarrow> omx__seqnum_t) \<Rightarrow> omx__seqnum_t \<Rightarrow> nat list \<Rightarrow> nat option" where
  "find_partial index new [] = None"
| "find_partial index new (r # rs) =
     (if index r = new then Some r else if index r > new then None else find_partial index new rs)"

definition omx__continue_partial_request ::
  "nat \<Rightarrow> omx__seqnum_t \<Rightarrow> omx_evt_recv_msg \<Rightarrow> bytes \<Rightarrow> omx_endpoint \<Rightarrow> omx_endpoint option"
where
  "omx__continue_partial_request p seqnum msg data ep =
     (let first = next_frag_recv_seq (pt ep p) in
      case find_partial (\<lambda>r. OMX__SEQNUM (r_seqnum (rq ep r) - first)) (OMX__SEQNUM (seqnum - first))
             (p_queues (pt ep p) P_PARTIAL_MEDIUM_RECV) of
        None \<Rightarrow> Some ep
      | Some r \<Rightarrow> do {
          ep1 \<leftarrow> omx__process_recv_medium_frag p r msg data (st_xfer_length (r_status (rq ep r))) ep;
          Some (omx__update_partner_next_frag_recv_seq p ep1)
        })"

definition is_notify :: "evt_specific \<Rightarrow> bool" where
  "is_notify s \<longleftrightarrow> (case s of Ev_notify _ _ _ \<Rightarrow> True | _ \<Rightarrow> False)"

definition omx__process_partner_ordered_recv ::
  "unexp_handler option \<Rightarrow> nat \<Rightarrow> omx__seqnum_t \<Rightarrow> omx_evt_recv_msg \<Rightarrow> bytes \<Rightarrow> nat
    \<Rightarrow> omx__process_recv_func_t \<Rightarrow> omx_endpoint \<Rightarrow> omx_endpoint option"
where
  "omx__process_partner_ordered_recv handler p seqnum msg data msg_length f ep =
     (let partner = pt ep p;
          match_index = OMX__SEQNUM (seqnum - next_match_recv_seq partner);
          frag_index = OMX__SEQNUM (seqnum - next_frag_recv_seq partner);
          frag_index_max = OMX__SEQNUM (next_match_recv_seq partner - next_frag_recv_seq partner)
      in if match_index = 0 then do {
           (ok, ep1) \<leftarrow> (if is_notify (ev_specific msg)
             then do { ep' \<leftarrow> recv_func f p 0 msg [] (ev_length (ev_specific msg)) ep; Some (True, ep') }
             else omx__try_match_next_recv handler p seqnum msg data msg_length f ep);
           Some (if ok
             then omx__update_partner_next_frag_recv_seq p
                    (upd_partner p (\<lambda>q. q\<lparr>next_match_recv_seq := OMX__SEQNUM_INCREASE (next_match_recv_seq q)\<rparr>) ep1)
             else ep1)
         }
         else if is_medium_frag (ev_specific msg) \<and> frag_index < frag_index_max
           then omx__continue_partial_request p seqnum msg data ep
         else Some ep)"

text \<open>The packets that were early, as long as they lie in the window computed before the loop.\<close>

fun early_loop ::
  "unexp_handler option \<Rightarrow> nat \<Rightarrow> omx__seqnum_t \<Rightarrow> omx__seqnum_t \<Rightarrow> omx__early_packet list
    \<Rightarrow> omx_endpoint \<Rightarrow> omx_endpoint option"
where
  "early_loop handler p old early_max [] ep = Some ep"
| "early_loop handler p old early_max (e # es) ep =
     (if OMX__SEQNUM (ev_seqnum (e_msg e) - old) \<le> early_max then do {
        ep1 \<leftarrow> omx__process_partner_ordered_recv handler p (ev_seqnum (e_msg e)) (e_msg e) (e_data e)
                (e_msg_length e) (e_recv_func e) (omx__dequeue_partner_early_packet p e ep);
        early_loop handler p old early_max es ep1
      }
      else early_loop handler p old early_max es ep)"

definition process_in_window ::
  "unexp_handler option \<Rightarrow> nat \<Rightarrow> omx_evt_recv_msg \<Rightarrow> bytes \<Rightarrow> nat
    \<Rightarrow> omx__process_recv_func_t \<Rightarrow> omx_endpoint \<Rightarrow> omx_endpoint option"
where
  "process_in_window handler p msg data msg_length f ep = do {
     let old = next_match_recv_seq (pt ep p);
     ep1 \<leftarrow> omx__process_partner_ordered_recv handler p (ev_seqnum msg) msg data msg_length f ep;
     (if old \<noteq> next_match_recv_seq (pt ep1 p)
      then early_loop handler p old (OMX__SEQNUM (next_match_recv_seq (pt ep1 p) - old))
             (early_recv_q (pt ep1 p)) ep1
      else Some ep1)
   }"

definition omx__process_recv ::
  "unexp_handler option \<Rightarrow> omx_evt_recv_msg \<Rightarrow> bytes \<Rightarrow> nat
    \<Rightarrow> omx__process_recv_func_t \<Rightarrow> omx_endpoint \<Rightarrow> omx_endpoint option"
where
  "omx__process_recv handler msg data msg_length f ep =
     (case omx__partner_recv_lookup ep (ev_peer_index msg) (ev_src_endpoint msg) of
        None \<Rightarrow> Some ep
      | Some p \<Rightarrow>
          (if OMX__SESNUM (ev_seqnum msg XOR next_frag_recv_seq (pt ep p)) \<noteq> 0 then Some ep
           else if OMX__SESNUM (ev_piggyack msg XOR next_send_seq (pt ep p)) \<noteq> 0 then Some ep
           else do {
             ep1 \<leftarrow> omx__handle_ack p (ev_piggyack msg) ep;
             let partner = pt ep1 p;
             let frag_index = OMX__SEQNUM (ev_seqnum msg - next_frag_recv_seq partner);
             let frag_index_max = OMX__SEQNUM (next_match_recv_seq partner - next_frag_recv_seq partner);
             (if frag_index \<le> frag_index_max then process_in_window handler p msg data msg_length f ep1
              else if unat frag_index \<le> unat frag_index_max + unat OMX__EARLY_PACKET_OFFSET_MAX
                then Some (omx__postpone_early_packet p msg data f ep1)
              else if frag_index = OMX__SEQNUM (-1) then Some (omx__mark_partner_need_ack_immediate p ep1)
              else Some ep1)
           }))"

subsection \<open>Messages to oneself\<close>

definition self_send_failed :: "nat \<Rightarrow> omx_endpoint \<Rightarrow> omx_endpoint option" where
  "self_send_failed s ep = do {
     status_code \<leftarrow> omx__error_with_ep ep OMX_NO_RESOURCES;
     ep1 \<leftarrow> omx__send_complete s status_code (upd_req s (\<lambda>q. q\<lparr>r_state := {}\<rparr>) ep);
     Some (omx__notify_user_event ep1)
   }"

definition self_send_matched :: "nat \<Rightarrow> nat \<Rightarrow> omx_endpoint \<Rightarrow> omx_endpoint option" where
  "self_send_matched s r ep = do {
     let msg_length = total_length (r_segs (rq ep s));
     let xfer_length = min (total_length (r_segs (rq ep r))) msg_length;
     let status_code = (if total_length (r_segs (rq ep r)) < msg_length then OMX_MESSAGE_TRUNCATED else OMX_SUCCESS);
     let ep1 = clear_state STATE_RECV_NEED_MATCHING r (upd_req r (\<lambda>q. q\<lparr>r_partner := myself ep,
             r_status := (r_status q)\<lparr>st_addr := st_addr (r_status (rq ep s)),
               st_match_info := st_match_info (r_status (rq ep s)),
               st_msg_length := msg_length, st_xfer_length := xfer_length\<rparr>\<rparr>) ep);
     let ep2 = upd_req s (\<lambda>q. q\<lparr>r_status := (r_status q)\<lparr>st_xfer_length := xfer_length\<rparr>\<rparr>) ep1;
     ep3 \<leftarrow> with_mem (omx_copy_from_to_segments (r_segs (rq ep2 r)) (r_segs (rq ep2 s)) xfer_length) ep2;
     ep4 \<leftarrow> omx__send_complete s status_code ep3;
     ep5 \<leftarrow> omx__recv_complete r status_code ep4;
     Some (omx__notify_user_event ep5)
   }"

definition self_send_unexpected :: "nat \<Rightarrow> omx_endpoint \<Rightarrow> omx_endpoint option" where
  "self_send_unexpected s ep =
     (let msg_length = total_length (r_segs (rq ep s)) in
      case omx__request_alloc ep of
        (None, ep1) \<Rightarrow> self_send_failed s ep1
      | (Some r, ep1) \<Rightarrow>
          (case (if msg_length > 0 then ep_malloc ep1 else (Some 0, ep1)) of
             (None, ep2) \<Rightarrow> self_send_failed s (omx__request_free r ep2)
           | (Some b, ep2) \<Rightarrow> do {
               let ep3 = upd_req r (\<lambda>q. q\<lparr>r_type := TYPE_RECV_SELF_UNEXPECTED, r_state := {STATE_UNEXPECTED_RECV},
                       r_segs := omx_cache_single_segment b msg_length, r_partner := myself ep2,
                       r_status := (r_status q)\<lparr>st_addr := st_addr (r_status (rq ep2 s)),
                         st_match_info := st_match_info (r_status (rq ep2 s)), st_msg_length := msg_length\<rparr>,
                       r_sreq := s\<rparr>) ep2;
               ep4 \<leftarrow> with_mem (omx_copy_from_segments b (r_segs (rq ep3 s)) msg_length) ep3;
               let ep5 = upd_req r (\<lambda>q. q\<lparr>r_checksum := omx_checksum_segments (r_segs q) msg_length (mem ep4)\<rparr>) ep4;
               let ep6 = enqueue_unexpected (st_match_info (r_status (rq ep s))) r ep5;
               Some (omx__enqueue_request UNEXP_SELF_SEND_REQ_Q s (set_state STATE_UNEXPECTED_SELF_SEND s ep6))
             }))"

definition omx__process_self_send :: "unexp_handler option \<Rightarrow> nat \<Rightarrow> omx_endpoint \<Rightarrow> omx_endpoint option" where
  "omx__process_self_send handler s ep = do {
     let match_info = st_match_info (r_status (rq ep s));
     let msg_length = total_length (r_segs (rq ep s));
     let ep0 = upd_req s (\<lambda>q. q\<lparr>r_type := TYPE_SEND_SELF, r_partner := myself ep,
                 r_status := (r_status q)\<lparr>st_msg_length := msg_length\<rparr>\<rparr>) ep;
     let (found, ep1) = omx__match_recv match_info ep0;
     (finished, found, ep2) \<leftarrow>
       (case (handler, found) of
          (Some h, None) \<Rightarrow> do {
            (fin, ep') \<leftarrow> call_unexp_handler h (st_addr (r_status (rq ep1 s))) match_info msg_length
                 (if nseg (r_segs (rq ep1 s)) = 1
                  then Some (read_mem (mem ep1) (vaddr (single (r_segs (rq ep1 s)))) msg_length) else None) ep1;
            (if fin then Some (True, None, ep')
             else let (found', ep'') = omx__match_recv match_info ep' in Some (False, found', ep''))
          }
        | _ \<Rightarrow> Some (False, found, ep1));
     (if finished then
        omx__send_complete s OMX_SUCCESS
          (upd_req s (\<lambda>q. q\<lparr>r_status := (r_status q)\<lparr>st_xfer_length := msg_length\<rparr>\<rparr>) ep2)
      else case found of
        Some r \<Rightarrow> self_send_matched s r ep2
      | None \<Rightarrow> self_send_unexpected s ep2)
   }"

subsection \<open>A receive that finds its message already there\<close>

definition complete_unexp_self ::
  "omx__req_segs \<Rightarrow> address \<Rightarrow> nat \<Rightarrow> nat \<Rightarrow> nat \<Rightarrow> omx_endpoint \<Rightarrow> omx_endpoint option"
where
  "complete_unexp_self reqsegs unexp_buffer msg_length xfer_length r ep = do {
     let s = r_sreq (rq ep r);
     let status_code = (if xfer_length < msg_length then OMX_MESSAGE_TRUNCATED else OMX_SUCCESS);
     ep1 \<leftarrow> with_mem (\<lambda>m. omx_copy_to_segments reqsegs (read_mem m unexp_buffer xfer_length) xfer_length m) ep;
     ep2 \<leftarrow> omx__recv_complete r status_code ep1;
     let ep3 = upd_req s (\<lambda>q. q\<lparr>r_status := (r_status q)\<lparr>st_xfer_length := xfer_length\<rparr>\<rparr>)
                 (omx__dequeue_request s (clear_state STATE_UNEXPECTED_SELF_SEND s ep2));
     ep4 \<leftarrow> omx__send_complete s status_code ep3;
     Some (omx__notify_user_event ep4)
   }"

definition omx__complete_unexp_req_as_irecv ::
  "nat \<Rightarrow> omx__req_segs \<Rightarrow> nat \<Rightarrow> omx_endpoint \<Rightarrow> omx_endpoint option"
where
  "omx__complete_unexp_req_as_irecv r reqsegs context ep = do {
     let ep0 = omx__dequeue_request r ep;
     let ep1 = (if HAS_CTXIDS ep0 then omx__dequeue_ctxid_request r ep0 else ep0);
     let unexp_buffer = vaddr (single (r_segs (rq ep1 r)));
     let msg_length = st_msg_length (r_status (rq ep1 r));
     let xfer_length = min (total_length reqsegs) msg_length;
     let ep2 = clear_state STATE_UNEXPECTED_RECV r
           (upd_req r (\<lambda>q. q\<lparr>r_segs := omx_clone_segments reqsegs,
              r_status := (r_status q)\<lparr>st_xfer_length := xfer_length, st_context := context\<rparr>\<rparr>) ep1);
     (if r_type (rq ep2 r) = TYPE_RECV_LARGE then omx__submit_pull r ep2
      else if r_type (rq ep2 r) = TYPE_RECV_SELF_UNEXPECTED
        then complete_unexp_self reqsegs unexp_buffer msg_length xfer_length r ep2
      else do {
        ep3 \<leftarrow> with_mem (\<lambda>m. omx_copy_to_segments reqsegs (read_mem m unexp_buffer xfer_length) xfer_length m) ep2;
        (if r_state (rq ep3 r) \<noteq> {} then Some ep3
         else do {
           ep4 \<leftarrow> omx__recv_complete r OMX_SUCCESS ep3;
           Some (omx__notify_user_event ep4)
         })
      })
   }"

end
