(* ===== verification/Resend.thy ===== *)
theory Resend
  imports Recv
begin

text \<open>
  Retransmission (\<open>omx__process_resend_requests\<close> in \<open>libxen2mx/omx_send.c\<close>): the requests at the
  head of the non-acknowledged queue that waited long enough are posted again and go to the end of
  the queue; one posted too often ends the connection to its partner, and the walk starts again.
\<close>

definition too_recent :: "omx_endpoint \<Rightarrow> nat \<Rightarrow> bool" where
  "too_recent ep r \<longleftrightarrow> jiffies (cfg ep) - r_last_send_jiffies (rq ep r) < resend_delay_jiffies (cfg ep)"

text \<open>\<^term>\<open>False\<close> when the expected events do not suffice for the fragments of a message.\<close>

definition repost :: "nat \<Rightarrow> omx_endpoint \<Rightarrow> (bool \<times> omx_endpoint) option" where
  "repost r ep =
     (let p = r_partner (rq ep r); always = (\<lambda>run. do { ep' \<leftarrow> run; Some (True, ep') }) in
      case r_type (rq ep r) of
        TYPE_SEND_TINY \<Rightarrow> always (omx__post_isend_tiny p r ep)
      | TYPE_SEND_SMALL \<Rightarrow> always (omx__post_isend_small p r ep)
      | TYPE_SEND_MEDIUMSQ \<Rightarrow>
          (let n = word_of_nat (r_frags_nr (rq ep r)) in
           if avail_exp_events ep < n then Some (False, omx__requeue_request NON_ACKED_REQ_Q r ep)
           else always (omx__post_isend_mediumsq p r (ep\<lparr>avail_exp_events := avail_exp_events ep - n\<rparr>)))
      | TYPE_SEND_MEDIUMVA \<Rightarrow> always (omx__post_isend_mediumva p r ep)
      | TYPE_SEND_LARGE \<Rightarrow> always (omx__post_isend_rndv p r ep)
      | TYPE_RECV_LARGE \<Rightarrow> always (omx__post_notify p r ep)
      | _ \<Rightarrow> None)"

partial_function (option) resend_loop :: "nat list \<Rightarrow> omx_endpoint \<Rightarrow> omx_endpoint option" where
  "resend_loop rs ep =
     (case rs of [] \<Rightarrow> Some ep
      | r # rs' \<Rightarrow>
          (if too_recent ep r then Some ep
           else if r_resends (rq ep r) > r_resends_max (rq ep r) then do {
             ep1 \<leftarrow> omx__partner_cleanup (r_partner (rq ep r)) 1 ep;
             resend_loop (queues ep1 NON_ACKED_REQ_Q) ep1
           }
           else do {
             (ok, ep1) \<leftarrow> repost r (omx__dequeue_request r ep);
             (if ok then
                resend_loop rs'
                  (omx__enqueue_request
                     (if STATE_DRIVER_MEDIUMSQ_SENDING \<in> r_state (rq ep1 r)
                      then DRIVER_MEDIUMSQ_SENDING_REQ_Q else TMP_REQ_Q) r ep1)
              else Some ep1)
           }))"

partial_function (option) reconnect_loop :: "nat list \<Rightarrow> omx_endpoint \<Rightarrow> omx_endpoint option" where
  "reconnect_loop rs ep =
     (case rs of [] \<Rightarrow> Some ep
      | r # rs' \<Rightarrow>
          (if too_recent ep r then Some ep
           else if r_resends (rq ep r) > r_resends_max (rq ep r) then do {
             ep1 \<leftarrow> omx__partner_cleanup (r_partner (rq ep r)) 1 ep;
             reconnect_loop (queues ep1 CONNECT_REQ_Q) ep1
           }
           else do {
             ep1 \<leftarrow> omx__post_connect_request (r_partner (rq ep r)) r (omx__dequeue_request r ep);
             reconnect_loop rs' (omx__enqueue_request TMP_REQ_Q r ep1)
           }))"

text \<open>\<open>list_spliceall_tail\<close> moves a list behind another.\<close>

definition splice_tmp :: "qid \<Rightarrow> omx_endpoint \<Rightarrow> omx_endpoint" where
  "splice_tmp k ep =
     ep\<lparr>queues := (queues ep)(k := queues ep k @ queues ep TMP_REQ_Q, TMP_REQ_Q := [])\<rparr>"

definition omx__process_resend_requests :: "omx_endpoint \<Rightarrow> omx_endpoint option" where
  "omx__process_resend_requests ep = do {
     ep1 \<leftarrow> resend_loop (queues ep NON_ACKED_REQ_Q) ep;
     let ep2 = splice_tmp NON_ACKED_REQ_Q ep1;
     ep3 \<leftarrow> reconnect_loop (queues ep2 CONNECT_REQ_Q) ep2;
     Some (splice_tmp CONNECT_REQ_Q ep3)
   }"

end
