(* ===== verification/Progress.thy ===== *)
theory Progress
  imports Resend
begin

text \<open>
  Progression (\<open>libxen2mx/omx_lib.c\<close>): the events the driver wrote are processed, the unexpected
  queue first, then requests are resent, delayed ones posted and partners acknowledged. The
  driver may write events while the loops run; a run is one where it does not.
\<close>

subsection \<open>Events\<close>

definition frag_done :: "nat \<Rightarrow> omx_endpoint \<Rightarrow> omx_endpoint option" where
  "frag_done sendq_offset ep = do {
     let index = drop_bit (sendq_entry_shift (cfg ep)) sendq_offset mod 2 ^ 16;
     c_assert (index < length (array (sendq_map ep)));
     r \<leftarrow> omx__endpoint_sendq_map_user index (sendq_map ep);
     let ep1 = ep\<lparr>avail_exp_events := avail_exp_events ep + 1\<rparr>;
     let ep2 = upd_req r (\<lambda>q. q\<lparr>r_frags_pending_nr := r_frags_pending_nr q - 1\<rparr>) ep1;
     (if r_frags_pending_nr (rq ep2 r) \<noteq> 0 then Some ep2
      else let ep3 = omx__dequeue_request r (clear_state STATE_DRIVER_MEDIUMSQ_SENDING r ep2)
           in if STATE_NEED_ACK \<in> r_state (rq ep3 r) then Some (omx__enqueue_request NON_ACKED_REQ_Q r ep3)
              else omx__send_complete r OMX_SUCCESS ep3)
   }"

definition omx__process_event :: "unexp_handler option \<Rightarrow> omx_evt \<Rightarrow> omx_endpoint \<Rightarrow> omx_endpoint option" where
  "omx__process_event handler evt ep = (case evt of
      EVT_RECV_CONNECT_REQUEST e \<Rightarrow> omx__process_recv_connect_request e ep
    | EVT_RECV_CONNECT_REPLY e \<Rightarrow> omx__process_recv_connect_reply e ep
    | EVT_RECV_TINY m \<Rightarrow>
        omx__process_recv handler m (ev_tiny_data (ev_specific m)) (ev_length (ev_specific m)) RECV_TINY ep
    | EVT_RECV_SMALL m \<Rightarrow>
        omx__process_recv handler m
          (read_mem (recvq ep) (ev_recvq_offset (ev_specific m)) (ev_length (ev_specific m)))
          (ev_length (ev_specific m)) RECV_SMALL ep
    | EVT_RECV_MEDIUM_FRAG m \<Rightarrow>
        omx__process_recv handler m
          (read_mem (recvq ep) (ev_recvq_offset (ev_specific m)) (ev_frag_length (ev_specific m)))
          (ev_msg_length (ev_specific m)) RECV_MEDIUM_FRAG ep
    | EVT_RECV_RNDV m \<Rightarrow> omx__process_recv handler m [] (ev_msg_length (ev_specific m)) RECV_RNDV ep
    | EVT_RECV_NOTIFY m \<Rightarrow> omx__process_recv handler m [] 0 RECV_NOTIFY ep
    | EVT_SEND_MEDIUMSQ_FRAG_DONE offset \<Rightarrow> frag_done offset ep
    | EVT_PULL_DONE e \<Rightarrow> omx__process_pull_done e (ep\<lparr>avail_exp_events := avail_exp_events ep + 1\<rparr>)
    | EVT_RECV_LIBACK e \<Rightarrow> omx__process_recv_liback e ep
    | EVT_RECV_NACK_LIB e \<Rightarrow> omx__process_recv_nack_lib e ep
    | EVT_IGNORE \<Rightarrow> Some ep
    | EVT_UNKNOWN \<Rightarrow> None)"

subsection \<open>Event queues\<close>

definition OMX_EVENTQ_ENTRY_NR :: nat where "OMX_EVENTQ_ENTRY_NR = 1024"
definition OMX_RELEASE_SLOTS_BATCH_NR :: nat where "OMX_RELEASE_SLOTS_BATCH_NR = OMX_EVENTQ_ENTRY_NR div 4"
definition OMX_EVENT_ID_MAX :: nat where "OMX_EVENT_ID_MAX = 255"

definition event_id :: "u32 \<Rightarrow> nat" where
  "event_id index = 1 + unat index mod OMX_EVENT_ID_MAX"

definition event_slot :: "u32 \<Rightarrow> nat" where
  "event_slot index = unat index mod OMX_EVENTQ_ENTRY_NR"

text \<open>
  The loop over a queue: \<open>fuel\<close> bounds the events left to find, and \<^term>\<open>None\<close> is also running
  out of it (the lemmas show that \<open>OMX_EVENTQ_ENTRY_NR + 1\<close> is enough). An ioctl returns
  a batch of slots to the driver.
\<close>

fun event_loop ::
  "(omx_evt \<Rightarrow> omx_endpoint \<Rightarrow> omx_endpoint option) \<Rightarrow> ioctl_cmd \<Rightarrow> (nat \<Rightarrow> nat \<times> omx_evt)
    \<Rightarrow> nat \<Rightarrow> u32 \<Rightarrow> omx_endpoint \<Rightarrow> (u32 \<times> omx_endpoint) option"
where
  "event_loop process release q 0 index ep = None"
| "event_loop process release q (Suc fuel) index ep =
     (if fst (q (event_slot index)) \<noteq> event_id index then Some (index, ep)
      else do {
        ep1 \<leftarrow> process (snd (q (event_slot index))) ep;
        let index = index + 1;
        (if unat index mod OMX_RELEASE_SLOTS_BATCH_NR = 0 then do {
           let (err, ep2) = ep_ioctl release ep1;
           c_assert (err = None);
           event_loop process release q fuel index ep2
         }
         else event_loop process release q fuel index ep1)
      })"

subsection \<open>Progression\<close>

definition omx__check_endpoint_desc :: "omx_endpoint \<Rightarrow> omx_endpoint option" where
  "omx__check_endpoint_desc ep =
     (let now = jiffies (cfg ep) in
      if now - last_check_jiffies ep < check_status_delay_jiffies (cfg ep) then Some ep
      else let driver_status = desc_status ep;
               ep1 = ep\<lparr>last_check_jiffies := now, desc_status := {}\<rparr>
           in if STATUS_EXP_EVENTQ_FULL \<in> driver_status \<or> STATUS_IFACE_REMOVED \<in> driver_status then None
              else Some ep1)"

definition omx__progress :: "unexp_handler option \<Rightarrow> omx_endpoint \<Rightarrow> omx_endpoint option" where
  "omx__progress handler ep =
     (if progression_disabled ep \<noteq> {} then Some ep
      else do {
        (index, ep1) \<leftarrow> event_loop (omx__process_event handler) OMX_CMD_RELEASE_UNEXP_SLOTS
                          (unexp_eventq ep) (OMX_EVENTQ_ENTRY_NR + 1) (next_unexp_event_index ep) ep;
        let ep2 = ep1\<lparr>next_unexp_event_index := index\<rparr>;
        (index', ep3) \<leftarrow> event_loop (omx__process_event handler) OMX_CMD_RELEASE_EXP_SLOTS
                          (exp_eventq ep2) (OMX_EVENTQ_ENTRY_NR + 1) (next_exp_event_index ep2) ep2;
        let ep4 = ep3\<lparr>next_exp_event_index := index'\<rparr>;
        ep5 \<leftarrow> omx__process_resend_requests ep4;
        ep6 \<leftarrow> omx__process_delayed_requests ep5;
        ep7 \<leftarrow> omx__process_partners_to_ack ep6;
        omx__check_endpoint_desc ep7
      })"

definition omx_disable_progression :: "omx_endpoint \<Rightarrow> omx_endpoint option" where
  "omx_disable_progression ep =
     (if DISABLED_BY_API \<in> progression_disabled ep then Some ep
      else if DISABLED_IN_HANDLER \<in> progression_disabled ep then None
      else Some (ep\<lparr>progression_disabled := {DISABLED_BY_API}\<rparr>))"

definition omx_reenable_progression :: "unexp_handler option \<Rightarrow> omx_endpoint \<Rightarrow> omx_endpoint option" where
  "omx_reenable_progression handler ep =
     (if DISABLED_BY_API \<notin> progression_disabled ep then Some ep
      else omx__progress handler (ep\<lparr>progression_disabled := progression_disabled ep - {DISABLED_BY_API}\<rparr>))"

end
