(* ===== verification/API.thy ===== *)
theory API
  imports Progress
begin

text \<open>
  The calls of the application (\<open>omx_send.c\<close>, \<open>omx_recv.c\<close>, \<open>omx_partner.c\<close>, \<open>omx_test.c\<close>,
  \<open>omx_misc.c\<close>): sending, receiving, connecting, testing and completing requests, cancelling. A call
  takes the endpoint lock for its whole run (but for the unexpected handler), so that a call is one
  step on the endpoint; the calls that sleep in the driver (\<open>omx_wait\<close> and the like) are not
  modelled. \<open>wanted\<close> tells whether the application passed a place to store the request.
\<close>

subsection \<open>Forgetting and completing requests\<close>

definition omx__forget :: "nat \<Rightarrow> omx_endpoint \<Rightarrow> omx_endpoint" where
  "omx__forget r ep =
     (if r_state (rq ep r) = {STATE_DONE} then omx__request_free r (omx__dequeue_done_request r ep)
      else let ep1 = (if STATE_DONE \<in> r_state (rq ep r)
                      then omx__dequeue_done_request r (clear_state STATE_DONE r ep) else ep)
           in (set_state STATE_ZOMBIE r ep1)\<lparr>zombies := zombies ep + 1\<rparr>)"

definition omx_forget :: "nat \<Rightarrow> omx_endpoint \<Rightarrow> omx_endpoint" where
  "omx_forget r ep = (if STATE_ZOMBIE \<notin> r_state (rq ep r) then omx__forget r ep else ep)"

definition omx__test_success :: "nat \<Rightarrow> omx_endpoint \<Rightarrow> omx_status \<times> omx_endpoint" where
  "omx__test_success r ep =
     (let status = r_status (rq ep r);
          ep1 = omx__dequeue_done_request r ep
      in (status,
          if r_state (rq ep1 r) \<noteq> {STATE_DONE}
          then (set_state STATE_ZOMBIE r (clear_state STATE_DONE r ep1))\<lparr>zombies := zombies ep1 + 1\<rparr>
          else omx__request_free r ep1))"

definition omx__test_common :: "nat \<Rightarrow> omx_endpoint \<Rightarrow> omx_status option \<times> omx_endpoint" where
  "omx__test_common r ep =
     (if STATE_DONE \<in> r_state (rq ep r)
      then let (status, ep1) = omx__test_success r ep in (Some status, ep1)
      else (None, ep))"

definition omx_test ::
  "unexp_handler option \<Rightarrow> nat \<Rightarrow> omx_endpoint \<Rightarrow> (omx_status option \<times> omx_endpoint) option"
where
  "omx_test handler r ep = do { ep1 \<leftarrow> omx__progress handler ep; Some (omx__test_common r ep1) }"

definition omx__test_any_common :: "u64 \<Rightarrow> u64 \<Rightarrow> omx_endpoint \<Rightarrow> omx_status option \<times> omx_endpoint" where
  "omx__test_any_common match_info match_mask ep =
     (let q = (if \<not> HAS_CTXIDS ep \<or> MATCHING_CROSS_CTXIDS ep match_mask then done_req_q ep
               else ctxid_queues ep (CTXID_DONE_REQ_Q (CTXID_FROM_MATCHING ep match_info)))
      in case find (\<lambda>r. st_match_info (r_status (rq ep r)) AND match_mask = match_info) q of
           None \<Rightarrow> (None, ep)
         | Some r \<Rightarrow> (let (status, ep1) = omx__test_success r ep in (Some status, ep1)))"

text \<open>A match that asks for bits outside its mask is an error of the caller.\<close>

definition check_match_mask ::
  "u64 \<Rightarrow> u64 \<Rightarrow> (omx_endpoint \<Rightarrow> (omx_return_t \<times> 'a option \<times> omx_endpoint) option) \<Rightarrow> omx_endpoint
    \<Rightarrow> (omx_return_t \<times> 'a option \<times> omx_endpoint) option"
where
  "check_match_mask match_info match_mask run ep =
     (if match_info AND NOT match_mask \<noteq> 0
      then do { ret \<leftarrow> omx__error_with_ep ep OMX_BAD_MATCH_MASK; Some (ret, None, ep) }
      else run ep)"

definition omx_test_any ::
  "unexp_handler option \<Rightarrow> u64 \<Rightarrow> u64 \<Rightarrow> omx_endpoint \<Rightarrow> (omx_return_t \<times> omx_status option \<times> omx_endpoint) option"
where
  "omx_test_any handler match_info match_mask =
     check_match_mask match_info match_mask (\<lambda>ep. do {
       ep1 \<leftarrow> omx__progress handler ep;
       let (result, ep2) = omx__test_any_common match_info match_mask ep1;
       Some (OMX_SUCCESS, result, ep2)
     })"

definition omx__ipeek_common :: "omx_endpoint \<Rightarrow> nat option" where
  "omx__ipeek_common ep =
     (if omx__empty_done_anyctxid_queue ep then None else Some (omx__first_done_anyctxid_request ep))"

definition omx_ipeek :: "unexp_handler option \<Rightarrow> omx_endpoint \<Rightarrow> (nat option \<times> omx_endpoint) option" where
  "omx_ipeek handler ep = do { ep1 \<leftarrow> omx__progress handler ep; Some (omx__ipeek_common ep1, ep1) }"

definition ibuffered_result :: "omx_request \<Rightarrow> omx_return_t \<times> bool" where
  "ibuffered_result q = (case r_type q of
      TYPE_SEND_TINY \<Rightarrow> (OMX_SUCCESS, r_state q \<inter> {STATE_NEED_RESOURCES, STATE_NEED_SEQNUM} = {})
    | TYPE_SEND_SMALL \<Rightarrow> (OMX_SUCCESS, r_state q \<inter> {STATE_NEED_RESOURCES, STATE_NEED_SEQNUM} = {})
    | TYPE_SEND_MEDIUMSQ \<Rightarrow> (OMX_SUCCESS, r_state q \<inter> {STATE_NEED_RESOURCES, STATE_NEED_SEQNUM} = {})
    | TYPE_SEND_SELF \<Rightarrow> (OMX_SUCCESS, True)
    | TYPE_SEND_MEDIUMVA \<Rightarrow> (OMX_SUCCESS, False)
    | TYPE_SEND_LARGE \<Rightarrow> (OMX_SUCCESS, False)
    | _ \<Rightarrow> (OMX_BAD_REQUEST, False))"

definition omx_ibuffered ::
  "unexp_handler option \<Rightarrow> nat \<Rightarrow> omx_endpoint \<Rightarrow> (omx_return_t \<times> bool \<times> omx_endpoint) option"
where
  "omx_ibuffered handler r ep = do {
     ep1 \<leftarrow> omx__progress handler ep;
     let (ret, result) = ibuffered_result (rq ep1 r);
     Some (ret, result, ep1)
   }"

definition omx__iprobe_common :: "u64 \<Rightarrow> u64 \<Rightarrow> omx_endpoint \<Rightarrow> omx_status option" where
  "omx__iprobe_common match_info match_mask ep =
     (let q = (if \<not> HAS_CTXIDS ep \<or> MATCHING_CROSS_CTXIDS ep match_mask then queues ep UNEXP_REQ_Q
               else ctxid_queues ep (CTXID_UNEXP_REQ_Q (CTXID_FROM_MATCHING ep match_info)))
      in map_option (\<lambda>r. r_status (rq ep r))
           (find (\<lambda>r. st_match_info (r_status (rq ep r)) AND match_mask = match_info) q))"

definition omx_iprobe ::
  "unexp_handler option \<Rightarrow> u64 \<Rightarrow> u64 \<Rightarrow> omx_endpoint \<Rightarrow> (omx_return_t \<times> omx_status option \<times> omx_endpoint) option"
where
  "omx_iprobe handler match_info match_mask =
     check_match_mask match_info match_mask (\<lambda>ep. do {
       ep1 \<leftarrow> omx__progress handler ep;
       Some (OMX_SUCCESS, omx__iprobe_common match_info match_mask ep1, ep1)
     })"

subsection \<open>Sending\<close>

definition give_request :: "bool \<Rightarrow> nat \<Rightarrow> omx_endpoint \<Rightarrow> omx_endpoint" where
  "give_request wanted r ep = (if wanted then ep else omx__forget r ep)"

text \<open>The error a missing copy buffer of a small message gives stops before anything is submitted.\<close>

definition submit_isend ::
  "unexp_handler option \<Rightarrow> nat \<Rightarrow> nat \<Rightarrow> omx_endpoint \<Rightarrow> (omx_return_t option \<times> omx_endpoint) option"
where
  "submit_isend handler p r ep =
     (let len = total_length (r_segs (rq ep r)); ok = (\<lambda>run. do { ep' \<leftarrow> run; Some (None, ep') }) in
      if selfcomms (cfg ep) \<and> p = myself ep then ok (omx__process_self_send handler r ep)
      else if len \<le> OMX_TINY_MSG_LENGTH_MAX then ok (omx__submit_isend_tiny p r ep)
      else if len \<le> OMX_SMALL_MSG_LENGTH_MAX then
        (case ep_malloc ep of
           (None, ep1) \<Rightarrow> do { ret \<leftarrow> omx__error_with_ep ep1 OMX_NO_RESOURCES; Some (Some ret, ep1) }
         | (Some copy, ep1) \<Rightarrow> ok (omx__submit_isend_small p r ep1))
      else if len \<le> p_rndv_threshold (pt ep p) then ok (omx__submit_isend_medium p r ep)
      else ok (omx__submit_isend_large p r ep))"

definition omx__isend_req ::
  "unexp_handler option \<Rightarrow> bool \<Rightarrow> nat \<Rightarrow> nat \<Rightarrow> omx_endpoint \<Rightarrow> (omx_return_t \<times> omx_endpoint) option"
where
  "omx__isend_req handler wanted p r ep = do {
     (err, ep1) \<leftarrow> submit_isend handler p r ep;
     (case err of
        Some ret \<Rightarrow> Some (ret, ep1)
      | None \<Rightarrow> do {
          ep2 \<leftarrow> omx__progress handler (give_request wanted r ep1);
          Some (OMX_SUCCESS, ep2)
        })
   }"

definition omx__issend_req ::
  "unexp_handler option \<Rightarrow> bool \<Rightarrow> nat \<Rightarrow> nat \<Rightarrow> omx_endpoint \<Rightarrow> (omx_return_t \<times> omx_endpoint) option"
where
  "omx__issend_req handler wanted p r ep = do {
     ep1 \<leftarrow> (if selfcomms (cfg ep) \<and> p = myself ep then omx__process_self_send handler r ep
            else omx__submit_isend_large p r ep);
     ep2 \<leftarrow> omx__progress handler (give_request wanted r ep1);
     Some (OMX_SUCCESS, ep2)
   }"

text \<open>
  The four calls: a buffer or a list of segments, sent in the way its length suggests or by a
  rendez-vous. The request is filled after its segments are cached.
\<close>

definition send_call ::
  "(bool \<Rightarrow> nat \<Rightarrow> nat \<Rightarrow> omx_endpoint \<Rightarrow> (omx_return_t \<times> omx_endpoint) option) \<Rightarrow> bool
    \<Rightarrow> (omx_endpoint \<Rightarrow> cache_result \<times> omx_endpoint) \<Rightarrow> omx__endpoint_addr \<Rightarrow> u64 \<Rightarrow> nat \<Rightarrow> omx_endpoint
    \<Rightarrow> (omx_return_t \<times> nat option \<times> omx_endpoint) option"
where
  "send_call req wanted cache dest match_info context ep =
     (case omx__request_alloc ep of
        (None, ep1) \<Rightarrow> do { ret \<leftarrow> omx__error_with_ep ep1 OMX_NO_RESOURCES; Some (ret, None, ep1) }
      | (Some r, ep1) \<Rightarrow>
          (case cache ep1 of
             (CACHE_SUCCESS sg, ep2) \<Rightarrow> do {
               let p = omx__partner_from_addr dest;
               let ep3 = upd_req r (\<lambda>q. q\<lparr>r_segs := sg, r_partner := p,
                     r_status := (r_status q)\<lparr>st_addr := dest, st_match_info := match_info,
                                               st_context := context\<rparr>\<rparr>) ep2;
               (ret, ep4) \<leftarrow> req wanted p r ep3;
               (if ret \<noteq> OMX_SUCCESS then Some (ret, None, omx__request_free r ep4)
                else Some (ret, if wanted then Some r else None, ep4))
             }
           | (CACHE_BAD_COUNT, ep2) \<Rightarrow> do {
               ret \<leftarrow> omx__error_with_ep ep2 OMX_SEGMENTS_BAD_COUNT;
               Some (ret, None, omx__request_free r ep2)
             }
           | (CACHE_NO_RESOURCES, ep2) \<Rightarrow> do {
               ret \<leftarrow> omx__error_with_ep ep2 OMX_NO_RESOURCES;
               Some (ret, None, omx__request_free r ep2)
             }))"

definition cache_buffer :: "address \<Rightarrow> nat \<Rightarrow> omx_endpoint \<Rightarrow> cache_result \<times> omx_endpoint" where
  "cache_buffer buffer len ep = (CACHE_SUCCESS (omx_cache_single_segment buffer len), ep)"

text \<open>\<open>omx_cache_segments\<close> allocates only for two segments or more, up to the maximum.\<close>

definition cache_segs :: "omx_seg_t list \<Rightarrow> omx_endpoint \<Rightarrow> cache_result \<times> omx_endpoint" where
  "cache_segs usegs ep =
     (if length usegs \<le> 1 \<or> length usegs > OMX_MAX_SEGMENTS then (omx_cache_segments True usegs, ep)
      else let (a, ep1) = ep_malloc ep in (omx_cache_segments (a \<noteq> None) usegs, ep1))"

definition omx_isend where
  "omx_isend handler wanted buffer len = send_call (omx__isend_req handler) wanted (cache_buffer buffer len)"

definition omx_isendv where
  "omx_isendv handler wanted usegs = send_call (omx__isend_req handler) wanted (cache_segs usegs)"

definition omx_issend where
  "omx_issend handler wanted buffer len = send_call (omx__issend_req handler) wanted (cache_buffer buffer len)"

definition omx_issendv where
  "omx_issendv handler wanted usegs = send_call (omx__issend_req handler) wanted (cache_segs usegs)"

subsection \<open>Receiving\<close>

definition matching_unexpected :: "u64 \<Rightarrow> u64 \<Rightarrow> omx_endpoint \<Rightarrow> nat option" where
  "matching_unexpected match_info match_mask ep =
     find (\<lambda>r. st_match_info (r_status (rq ep r)) AND match_mask = match_info)
       (if HAS_CTXIDS ep then ctxid_queues ep (CTXID_UNEXP_REQ_Q (CTXID_FROM_MATCHING ep match_info))
        else queues ep UNEXP_REQ_Q)"

definition omx__irecv_segs ::
  "unexp_handler option \<Rightarrow> bool \<Rightarrow> omx__req_segs \<Rightarrow> u64 \<Rightarrow> u64 \<Rightarrow> nat \<Rightarrow> omx_endpoint
    \<Rightarrow> (omx_return_t \<times> nat option \<times> omx_endpoint) option"
where
  "omx__irecv_segs handler wanted reqsegs match_info match_mask context ep =
     (case matching_unexpected match_info match_mask ep of
        Some r \<Rightarrow> do {
          ep1 \<leftarrow> omx__complete_unexp_req_as_irecv r reqsegs context ep;
          Some (OMX_SUCCESS, if wanted then Some r else None, give_request wanted r ep1)
        }
      | None \<Rightarrow>
          (case omx__request_alloc ep of
             (None, ep1) \<Rightarrow> do { ret \<leftarrow> omx__error_with_ep ep1 OMX_NO_RESOURCES; Some (ret, None, ep1) }
           | (Some r, ep1) \<Rightarrow> do {
               let ep2 = upd_req r (\<lambda>q. q\<lparr>r_segs := omx_clone_segments reqsegs, r_type := TYPE_RECV,
                     r_state := {STATE_RECV_NEED_MATCHING},
                     r_status := (r_status q)\<lparr>st_context := context\<rparr>,
                     r_match_info := match_info, r_match_mask := match_mask\<rparr>) ep1;
               ep3 \<leftarrow> omx__progress handler
                       (omx__enqueue_request (RECV_REQ_Q (CTXID_FROM_MATCHING ep match_info)) r ep2);
               Some (OMX_SUCCESS, if wanted then Some r else None, give_request wanted r ep3)
             }))"

text \<open>What both receive calls check first; there is no wildcard in the bits of the context id.\<close>

definition irecv_call ::
  "unexp_handler option \<Rightarrow> bool \<Rightarrow> (omx_endpoint \<Rightarrow> cache_result \<times> omx_endpoint) \<Rightarrow> u64 \<Rightarrow> u64 \<Rightarrow> nat \<Rightarrow> omx_endpoint
    \<Rightarrow> (omx_return_t \<times> nat option \<times> omx_endpoint) option"
where
  "irecv_call handler wanted cache match_info match_mask context =
     check_match_mask match_info match_mask (\<lambda>ep.
       if ctxid_mask (cfg ep) AND NOT match_mask \<noteq> 0
       then do { ret \<leftarrow> omx__error_with_ep ep OMX_BAD_MATCHING_FOR_CONTEXT_ID_MASK; Some (ret, None, ep) }
       else case cache ep of
         (CACHE_SUCCESS sg, ep1) \<Rightarrow> omx__irecv_segs handler wanted sg match_info match_mask context ep1
       | (CACHE_BAD_COUNT, ep1) \<Rightarrow>
           do { ret \<leftarrow> omx__error_with_ep ep1 OMX_SEGMENTS_BAD_COUNT; Some (ret, None, ep1) }
       | (CACHE_NO_RESOURCES, ep1) \<Rightarrow>
           do { ret \<leftarrow> omx__error_with_ep ep1 OMX_NO_RESOURCES; Some (ret, None, ep1) })"

definition omx_irecv where
  "omx_irecv handler wanted buffer len = irecv_call handler wanted (cache_buffer buffer len)"

definition omx_irecvv where
  "omx_irecvv handler wanted usegs = irecv_call handler wanted (cache_segs usegs)"

subsection \<open>Connecting\<close>

definition omx__connect_common ::
  "unexp_handler option \<Rightarrow> u64 \<Rightarrow> u8 \<Rightarrow> u32 \<Rightarrow> nat \<Rightarrow> omx_endpoint \<Rightarrow> (omx_return_t \<times> omx_endpoint) option"
where
  "omx__connect_common handler nic_id endpoint_id key r ep =
     (case omx__partner_lookup_by_addr nic_id endpoint_id ep of
        (Inl ret, ep1) \<Rightarrow> do {
          ret' \<leftarrow> omx__error_with_ep ep1 (if ret = OMX_PEER_NOT_FOUND then OMX_NIC_ID_NOT_FOUND else ret);
          Some (ret', ep1)
        }
      | (Inr p, ep1) \<Rightarrow>
          (let ep2 = set_state STATE_NEED_REPLY r ep1;
               enqueue = (\<lambda>ep. omx__enqueue_partner_request p P_CONNECT r (omx__enqueue_request CONNECT_REQ_Q r ep))
           in if p = myself ep2 then do {
                ep3 \<leftarrow> omx__connect_complete r OMX_SUCCESS (ep_session_id (cfg ep2))
                        (enqueue (upd_req r (\<lambda>q. q\<lparr>r_partner := myself ep2\<rparr>) ep2));
                Some (OMX_SUCCESS, omx__notify_user_event ep3)
              }
              else do {
                let connect_seqnum = p_connect_seqnum (pt ep2 p);
                let q = pt ep2 p;
                let ep3 = upd_partner p (\<lambda>q. q\<lparr>p_connect_seqnum := connect_seqnum + 1\<rparr>) ep2;
                let ep4 = upd_req r (\<lambda>rq. rq\<lparr>r_resends := 0, r_connect_param := (r_connect_param rq)
                       \<lparr>cq_peer_index := p_peer_index q, cq_dest_endpoint := p_endpoint_index q,
                        cq_shared_disabled := \<not> sharedcomms (cfg ep3), cq_seqnum := 0,
                        cq_src_session_id := ep_session_id (cfg ep3), cq_app_key := key,
                        cq_connect_seqnum := connect_seqnum\<rparr>\<rparr>) ep3;
                ep5 \<leftarrow> omx__post_connect_request p r ep4;
                let ep6 = upd_req r (\<lambda>q. q\<lparr>r_partner := p, r_resends_max := req_resends_max ep5,
                       r_session_id := ep_session_id (cfg ep5), r_connect_seqnum := connect_seqnum\<rparr>) (enqueue ep5);
                ep7 \<leftarrow> omx__progress handler ep6;
                Some (OMX_SUCCESS, ep7)
              }))"

definition omx_iconnect ::
  "unexp_handler option \<Rightarrow> bool \<Rightarrow> u64 \<Rightarrow> u8 \<Rightarrow> u32 \<Rightarrow> u64 \<Rightarrow> nat \<Rightarrow> omx_endpoint
    \<Rightarrow> (omx_return_t \<times> nat option \<times> omx_endpoint) option"
where
  "omx_iconnect handler wanted nic_id endpoint_id key match_info context ep =
     (case omx__request_alloc ep of
        (None, ep1) \<Rightarrow> do { ret \<leftarrow> omx__error_with_ep ep1 OMX_NO_RESOURCES; Some (ret, None, ep1) }
      | (Some r, ep1) \<Rightarrow> do {
          let ep2 = upd_req r (\<lambda>q. q\<lparr>r_type := TYPE_CONNECT,
                r_status := (r_status q)\<lparr>st_match_info := match_info, st_context := context\<rparr>\<rparr>) ep1;
          (ret, ep3) \<leftarrow> omx__connect_common handler nic_id endpoint_id key r ep2;
          (if ret \<noteq> OMX_SUCCESS then Some (ret, None, omx__request_free r ep3)
           else if wanted then Some (ret, Some r, ep3)
           else Some (ret, None, (set_state STATE_ZOMBIE r ep3)\<lparr>zombies := zombies ep3 + 1\<rparr>))
        })"

definition omx_disconnect :: "unexp_handler option \<Rightarrow> omx__endpoint_addr \<Rightarrow> omx_endpoint \<Rightarrow> omx_endpoint option" where
  "omx_disconnect handler addr ep = do {
     ep1 \<leftarrow> omx__progress handler ep;
     omx__partner_cleanup (omx__partner_from_addr addr) 2 ep1
   }"

subsection \<open>Cancelling\<close>

definition omx_context :: "nat \<Rightarrow> omx_endpoint \<Rightarrow> nat" where
  "omx_context r ep = st_context (r_status (rq ep r))"

definition omx__cancel_common :: "nat \<Rightarrow> omx_endpoint \<Rightarrow> (omx_return_t \<times> bool \<times> omx_endpoint) option" where
  "omx__cancel_common r ep = (case r_type (rq ep r) of
      TYPE_RECV \<Rightarrow>
        (if STATE_RECV_NEED_MATCHING \<in> r_state (rq ep r)
         then Some (OMX_SUCCESS, True, clear_state STATE_RECV_NEED_MATCHING r (omx__dequeue_request r ep))
         else Some (OMX_SUCCESS, False, ep))
    | TYPE_RECV_LARGE \<Rightarrow> Some (OMX_SUCCESS, False, ep)
    | TYPE_CONNECT \<Rightarrow>
        (if STATE_NEED_REPLY \<in> r_state (rq ep r)
         then Some (OMX_SUCCESS, True,
                clear_state STATE_NEED_REPLY r (omx__dequeue_partner_request r (omx__dequeue_request r ep)))
         else Some (OMX_SUCCESS, False, ep))
    | _ \<Rightarrow> do { ret \<leftarrow> omx__error_with_ep ep OMX_BAD_REQUEST; Some (ret, False, ep) })"

text \<open>For a request that cannot be cancelled the code leaves \<open>*result\<close> as it was; it reads as no.\<close>

definition omx_cancel ::
  "unexp_handler option \<Rightarrow> nat \<Rightarrow> omx_endpoint \<Rightarrow> (omx_return_t \<times> bool \<times> omx_endpoint) option"
where
  "omx_cancel handler r ep = do {
     ep1 \<leftarrow> omx__progress handler ep;
     (ret, result, ep2) \<leftarrow> omx__cancel_common r ep1;
     Some (ret, result, if ret = OMX_SUCCESS \<and> result then omx__request_free r ep2 else ep2)
   }"

definition omx_cancel_notest ::
  "unexp_handler option \<Rightarrow> nat \<Rightarrow> omx_endpoint \<Rightarrow> (omx_return_t \<times> bool \<times> omx_endpoint) option"
where
  "omx_cancel_notest handler r ep = do {
     ep1 \<leftarrow> omx__progress handler ep;
     (ret, result, ep2) \<leftarrow> omx__cancel_common r ep1;
     Some (ret, result,
       if ret = OMX_SUCCESS \<and> result
       then omx__notify_request_done (CTXID_FROM_MATCHING ep2 (st_match_info (r_status (rq ep2 r)))) r
              (set_code OMX_CANCELLED r ep2)
       else ep2)
   }"

end
