(* ===== verification/Sample_Endpoint.thy ===== *)
theory Sample_Endpoint
  imports Types
begin

text \<open>
  A concrete endpoint on which the theorems are instantiated: number 0 of a board, connected to
  partner 1 (a remote endpoint of session 9), with a driver that accepts everything, four slots in
  the send queue and two regions. It has no requests; every request of the store is a small send
  of three bytes from address 100 to partner 1, not submitted yet.
\<close>

definition sample_config :: omx__config where
  "sample_config =
     \<lparr>regcache = False, parallel_regcache = False, medium_sendq = True, selfcomms = True, sharedcomms = True,
      rndv_threshold = 32768, shared_rndv_threshold = 4096, ack_delay_jiffies = 4, resend_delay_jiffies = 126,
      not_acked_max = 4, endpoint_max = 4, hz = 250, jiffies = 1000, medium_frag_length_max = 4,
      sendq_entry_shift = 12, ep_board_addr = 7, ep_endpoint_index = 0, ep_session_id = 5, app_key = 3,
      zombie_max = 2, ctxid_bits = 0, ctxid_max = 1, ctxid_shift = 0, ctxid_mask = 0,
      check_status_delay_jiffies = 250, error_handler = Some\<rparr>"

definition sample_partner :: omx__partner where
  "sample_partner =
     \<lparr>p_known = True, p_board_addr = 8, p_peer_index = 0, p_endpoint_index = 1, p_localization = LOCALIZATION_REMOTE,
      p_rndv_threshold = 32768, true_session_id = 9, back_session_id = 9, p_connect_seqnum = 1,
      last_send_acknum = 0, last_recv_acknum = 0, p_queues = (\<lambda>_. []), early_recv_q = [],
      throttling_sends_nr = 0, next_send_seq = 1, next_acked_send_seq = 1, next_match_recv_seq = 1,
      next_frag_recv_seq = 1, last_acked_recv_seq = 1, need_ack = NEED_NO_ACK,
      oldest_recv_time_not_acked = 0, user_context = 0\<rparr>"

definition sample_param :: omx_cmd_msg where
  "sample_param =
     \<lparr>cm_peer_index = 0, cm_dest_endpoint = 0, cm_shared = False, cm_session_id = 0, cm_seqnum = 0,
      cm_piggyack = 0, cm_match_info = 0, cm_length = 0, cm_data = [], cm_segments = [],
      cm_sendq_offset = 0, cm_frag_length = 0, cm_frag_seqnum = 0, cm_frag_pipeline = 0,
      cm_rdma_id = 0, cm_rdma_seqnum = 0\<rparr>"

definition sample_request :: omx_request where
  "sample_request =
     \<lparr>r_live = True, r_type = TYPE_SEND_TINY, r_state = {}, r_missing_resources = {}, r_partner = 1,
      r_send_seqnum = 0, r_last_send_jiffies = 0, r_resends_max = 1000, r_resends = 0,
      r_status = \<lparr>st_code = OMX_SUCCESS, st_addr = \<lparr>a_partner = 1, a_session_id = 9\<rparr>, st_match_info = 0,
        st_msg_length = 3, st_xfer_length = 3, st_context = 0\<rparr>,
      r_segs = omx_cache_single_segment 100 3, r_param = sample_param, r_copy = [], r_frags_nr = 0,
      r_frags_pending_nr = 0, r_sendq_map_index = [], r_region = None, r_region_seqnum = 0,
      r_match_info = 0, r_match_mask = 0, r_checksum = 0, r_seqnum = 0, r_frags_received_mask = 0,
      r_accumulated_length = 0, r_scan_offset = 0, r_scan_state = None, r_local_region = None,
      r_pulled_rdma_id = 0, r_pulled_rdma_seqnum = 0, r_pulled_rdma_offset = 0, r_sreq = 0,
      r_connect_param = \<lparr>cq_peer_index = 0, cq_dest_endpoint = 0, cq_shared_disabled = False, cq_seqnum = 0,
        cq_src_session_id = 0, cq_app_key = 0, cq_target_recv_seqnum_start = 0, cq_connect_seqnum = 0\<rparr>,
      r_session_id = 0, r_connect_seqnum = 0\<rparr>"

definition sample_endpoint :: omx_endpoint where
  "sample_endpoint =
     \<lparr>cfg = sample_config, drv = good_driver, mem = (\<lambda>_. 0), sendq = (\<lambda>_. 0), recvq = (\<lambda>_. 0),
      reqs = (\<lambda>_. sample_request), next_rid = 0, partners = (\<lambda>_. sample_partner), myself = 0,
      progression_disabled = {}, desc_status = {}, last_check_jiffies = 1000,
      unexp_eventq = (\<lambda>_. (0, EVT_IGNORE)), exp_eventq = (\<lambda>_. (0, EVT_IGNORE)), next_unexp_event_index = 0,
      next_exp_event_index = 0, wakeup_jiffies = 0, user_event_index = 0, avail_exp_events = 769,
      req_resends_max = 1000, pull_resend_timeout_jiffies = 126000, zombies = 0, done_req_q = [],
      queues = (\<lambda>_. []), ctxid_queues = (\<lambda>_. []), sendq_map = omx__endpoint_sendq_map_init 4,
      large = omx__endpoint_large_region_map_init 2, last_partners_acking_jiffies = 1000,
      partners_to_ack_immediate_list = [], partners_to_ack_delayed_list = [], throttling_partners_list = []\<rparr>"

text \<open>The parts, each of which evaluates by simplification.\<close>

lemma sample_sel [simp]:
  "cfg sample_endpoint = sample_config" "drv sample_endpoint = good_driver" "mem sample_endpoint = (\<lambda>_. 0)"
  "rq sample_endpoint r = sample_request" "pt sample_endpoint p = sample_partner"
  "queues sample_endpoint k = []" "ctxid_queues sample_endpoint c = []" "done_req_q sample_endpoint = []"
  "zombies sample_endpoint = 0" "throttling_partners_list sample_endpoint = []"
  "partners_to_ack_immediate_list sample_endpoint = []" "partners_to_ack_delayed_list sample_endpoint = []"
  "user_event_index sample_endpoint = 0" "avail_exp_events sample_endpoint = 769"
  "progression_disabled sample_endpoint = {}" "sendq_map sample_endpoint = omx__endpoint_sendq_map_init 4"
  "large sample_endpoint = omx__endpoint_large_region_map_init 2" "req_resends_max sample_endpoint = 1000"
  "last_partners_acking_jiffies sample_endpoint = 1000"
  by (simp_all add: sample_endpoint_def)

lemma no_ctxids [simp]: "\<not> HAS_CTXIDS sample_endpoint"
  by (simp add: HAS_CTXIDS_def sample_config_def)

lemmas sample_defs = sample_config_def sample_partner_def sample_param_def sample_request_def good_driver_def

end
