(* ===== verification/Send_Window.thy ===== *)
theory Send_Window
  imports Connect Sample_Endpoint
begin

text \<open>
  What a connection promises to the sender, in the abstract: sends get consecutive sequence
  numbers in the order they are submitted, at most \<open>OMX__THROTTLING_OFFSET_MAX\<close> of them lie between
  the next number and the last acknowledged one, and those beyond wait their turn. The theory
  states this window protocol on lists, and shows that each kind of send and the handling of
  acknowledgements refine it, whatever else they do.
\<close>

subsection \<open>The abstract window\<close>

record send_window =
  w_pending :: "(nat \<times> omx__seqnum_t) list"
  w_waiting :: "nat list"
  w_next :: omx__seqnum_t
  w_acked :: omx__seqnum_t

definition window :: "omx_endpoint \<Rightarrow> nat \<Rightarrow> send_window" where
  "window ep p =
     \<lparr>w_pending = map (\<lambda>r. (r, r_send_seqnum (rq ep r))) (p_queues (pt ep p) P_NON_ACKED),
      w_waiting = p_queues (pt ep p) P_NEED_SEQNUM_SEND,
      w_next = next_send_seq (pt ep p), w_acked = next_acked_send_seq (pt ep p)\<rparr>"

definition spec_send :: "nat \<Rightarrow> send_window \<Rightarrow> send_window" where
  "spec_send r w = w\<lparr>w_pending := w_pending w @ [(r, w_next w)], w_next := OMX__SEQNUM_INCREASE (w_next w)\<rparr>"

definition window_full :: "send_window \<Rightarrow> bool" where
  "window_full w \<longleftrightarrow> 8191 \<le> seq_dist (w_next w) (w_acked w)"

definition spec_submit :: "nat \<Rightarrow> send_window \<Rightarrow> send_window" where
  "spec_submit r w = (if window_full w then w\<lparr>w_waiting := w_waiting w @ [r]\<rparr> else spec_send r w)"

fun spec_release :: "nat \<Rightarrow> send_window \<Rightarrow> send_window" where
  "spec_release 0 w = w"
| "spec_release (Suc n) w =
     (case w_waiting w of [] \<Rightarrow> w | r # rs \<Rightarrow> spec_release n (spec_send r (w\<lparr>w_waiting := rs\<rparr>)))"

text \<open>An acknowledgement counts when it lies in the window, behind the last one.\<close>

definition spec_ack :: "omx__seqnum_t \<Rightarrow> send_window \<Rightarrow> send_window" where
  "spec_ack a w =
     (let new = seq_dist a (w_acked w)
      in if new = 0 \<or> new > seq_dist (w_next w) (w_acked w) then w
         else spec_release new
                (w\<lparr>w_pending := dropWhile (\<lambda>(r, s). seq_dist s (w_acked w) < new) (w_pending w), w_acked := a\<rparr>))"

subsection \<open>What the operations leave alone\<close>

definition rinfo :: "omx_request \<Rightarrow> nat \<times> omx__seqnum_t \<times> omx__request_type" where
  "rinfo q = (r_partner q, r_send_seqnum q, r_type q)"

definition pinfo :: "omx__partner \<Rightarrow> (pqid \<Rightarrow> nat list) \<times> omx__seqnum_t \<times> omx__seqnum_t" where
  "pinfo q = (p_queues q, next_send_seq q, next_acked_send_seq q)"

definition wcore where
  "wcore ep = (\<lambda>p. pinfo (pt ep p), \<lambda>r. rinfo (rq ep r))"

lemma wcore_window: "wcore ep' = wcore ep \<Longrightarrow> window ep' p = window ep p"
proof -
  assume "wcore ep' = wcore ep"
  then have "pinfo (pt ep' p) = pinfo (pt ep p)" "\<And>r. rinfo (rq ep' r) = rinfo (rq ep r)"
    by (auto simp: wcore_def fun_eq_iff)
  then show ?thesis by (simp add: window_def pinfo_def rinfo_def)
qed

lemma wcoreD:
  "wcore ep' = wcore ep \<Longrightarrow> p_queues (pt ep' p) = p_queues (pt ep p)"
  "wcore ep' = wcore ep \<Longrightarrow> next_send_seq (pt ep' p) = next_send_seq (pt ep p)"
  "wcore ep' = wcore ep \<Longrightarrow> next_acked_send_seq (pt ep' p) = next_acked_send_seq (pt ep p)"
  "wcore ep' = wcore ep \<Longrightarrow> r_partner (rq ep' r) = r_partner (rq ep r)"
  "wcore ep' = wcore ep \<Longrightarrow> r_send_seqnum (rq ep' r) = r_send_seqnum (rq ep r)"
  "wcore ep' = wcore ep \<Longrightarrow> r_type (rq ep' r) = r_type (rq ep r)"
  by (auto simp: wcore_def fun_eq_iff pinfo_def rinfo_def)

lemma wcore_fields [simp]:
  "wcore (ep\<lparr>drv := x1\<rparr>) = wcore ep" "wcore (ep\<lparr>mem := x2\<rparr>) = wcore ep" "wcore (ep\<lparr>sendq := x3\<rparr>) = wcore ep"
  "wcore (ep\<lparr>queues := x4\<rparr>) = wcore ep" "wcore (ep\<lparr>ctxid_queues := x5\<rparr>) = wcore ep"
  "wcore (ep\<lparr>done_req_q := x6\<rparr>) = wcore ep" "wcore (ep\<lparr>zombies := x7\<rparr>) = wcore ep"
  "wcore (ep\<lparr>user_event_index := x8\<rparr>) = wcore ep" "wcore (ep\<lparr>avail_exp_events := x9\<rparr>) = wcore ep"
  "wcore (ep\<lparr>sendq_map := y1\<rparr>) = wcore ep" "wcore (ep\<lparr>large := y2\<rparr>) = wcore ep"
  "wcore (ep\<lparr>throttling_partners_list := y3\<rparr>) = wcore ep"
  "wcore (ep\<lparr>partners_to_ack_immediate_list := y4\<rparr>) = wcore ep"
  "wcore (ep\<lparr>partners_to_ack_delayed_list := y5\<rparr>) = wcore ep"
  "wcore (ep\<lparr>large := y6, drv := y7\<rparr>) = wcore ep"
  by (simp_all add: wcore_def)

lemma wcore_upd_req [simp]: "(\<And>q. rinfo (f q) = rinfo q) \<Longrightarrow> wcore (upd_req r f ep) = wcore ep"
  by (auto simp: wcore_def fun_eq_iff)

lemma wcore_upd_partner [simp]: "(\<And>q. pinfo (f q) = pinfo q) \<Longrightarrow> wcore (upd_partner p f ep) = wcore ep"
  by (auto simp: wcore_def fun_eq_iff)

lemma wcore_states [simp]:
  "wcore (set_state s r ep) = wcore ep" "wcore (clear_state s r ep) = wcore ep" "wcore (set_code c r ep) = wcore ep"
  by (simp_all add: set_state_def clear_state_def set_code_def rinfo_def)

lemma wcore_queues [simp]:
  "wcore (omx__enqueue_request k r ep) = wcore ep" "wcore (omx__requeue_request k r ep) = wcore ep"
  "wcore (omx__dequeue_request r ep) = wcore ep" "wcore (omx__enqueue_ctxid_request c r ep) = wcore ep"
  "wcore (enqueue_done ctxid r ep) = wcore ep" "wcore (omx__notify_user_event ep) = wcore ep"
  "wcore (omx__request_free r ep) = wcore ep"
  by (simp_all add: omx__enqueue_request_def omx__requeue_request_def omx__dequeue_request_def
      omx__enqueue_ctxid_request_def enqueue_done_def omx__notify_user_event_def omx__request_free_def
      Let_def rinfo_def)

lemma wcore_done [simp]:
  "wcore (omx__notify_request_done_early ctxid r ep) = wcore ep"
  "wcore (omx__notify_request_done ctxid r ep) = wcore ep"
  "wcore (done_early r ep) = wcore ep"
  by (simp_all add: omx__notify_request_done_early_def omx__notify_request_done_def done_early_def Let_def)

lemma wcore_acks [simp]:
  "wcore (omx__mark_partner_ack_sent p ep) = wcore ep"
  "wcore (omx__mark_partner_throttling p ep) = wcore ep"
  "wcore (omx__update_partner_throttling p n ep) = wcore ep"
  by (simp_all add: omx__mark_partner_ack_sent_def omx__mark_partner_throttling_def
      omx__update_partner_throttling_def Let_def pinfo_def)

lemma wcore_ioctl [simp]: "wcore (snd (ep_ioctl c ep)) = wcore ep"
  by (simp add: ep_ioctl_def split_def Let_def)

lemma ep_ioctl_eq: "ep_ioctl c ep = (e, ep') \<Longrightarrow> wcore ep' = wcore ep"
  using wcore_ioctl [of c ep] by simp

lemma complete_code_wcore: "complete_code r st ep = Some ep' \<Longrightarrow> wcore ep' = wcore ep"
  by (auto simp: complete_code_def bind_eq_Some_conv split: if_splits)

lemma put_sendq_wcore: "put_sendq_slots r ep = Some ep' \<Longrightarrow> wcore ep' = wcore ep"
  by (auto simp: put_sendq_slots_def bind_eq_Some_conv)

lemma put_region_wcore: "ep_put_region i q ep = Some ep' \<Longrightarrow> wcore ep' = wcore ep"
  by (auto simp: ep_put_region_def with_large_def bind_eq_Some_conv)

lemma get_region_wcore: "ep_get_region sg q ep = Some (a, ep') \<Longrightarrow> wcore ep' = wcore ep"
  by (auto simp: ep_get_region_def bind_eq_Some_conv)

lemma send_complete_wcore: "omx__send_complete r st ep = Some ep' \<Longrightarrow> wcore ep' = wcore ep"
  by (auto simp: omx__send_complete_def bind_eq_Some_conv Let_def split: if_splits
      dest!: complete_code_wcore put_sendq_wcore)

lemma recv_complete_wcore: "omx__recv_complete r st ep = Some ep' \<Longrightarrow> wcore ep' = wcore ep"
  by (auto simp: omx__recv_complete_def bind_eq_Some_conv Let_def dest!: complete_code_wcore)

lemma mark_acked_wcore: "omx__mark_request_acked r st ep = Some ep' \<Longrightarrow> wcore ep' = wcore ep"
  by (auto simp: omx__mark_request_acked_def bind_eq_Some_conv Let_def
      split: omx__request_type.splits if_splits
      dest!: send_complete_wcore recv_complete_wcore put_region_wcore)

subsection \<open>Posting\<close>

lemma post_isend_wcore: "post_isend cmd pins p r ep = Some ep' \<Longrightarrow> wcore ep' = wcore ep"
  by (auto simp: post_isend_def bind_eq_Some_conv Let_def split_def rinfo_def)

lemma post_frag_wcore: "post_mediumsq_frag copy r index i n st ep = Some (e, st', ep') \<Longrightarrow> wcore ep' = wcore ep"
  by (auto simp: post_mediumsq_frag_def bind_eq_Some_conv Let_def split_def sendq_write_def rinfo_def
      split: if_splits)

lemma mediumsq_frags_wcore: "mediumsq_frags copy r idx i n st ep = Some (k, e, ep') \<Longrightarrow> wcore ep' = wcore ep"
proof (induction copy r idx i n st ep rule: mediumsq_frags.induct)
  case (1 copy r i remaining st ep)
  then show ?case by simp
next
  case (2 copy r index idx i remaining st ep)
  from "2.prems" obtain err st2 ep3 where
    f: "post_mediumsq_frag copy r index i (min remaining (medium_frag_length_max (cfg ep))) st ep = Some (err, st2, ep3)"
    and rest: "(case err of None \<Rightarrow> mediumsq_frags copy r idx (Suc i)
            (remaining - min remaining (medium_frag_length_max (cfg ep))) st2 ep3
        | Some e' \<Rightarrow> if r_resends (rq ep r) = 0 \<and> idx \<noteq> [] then None else Some (i, Some e', ep3)) = Some (k, e, ep')"
    by (auto simp: bind_eq_Some_conv Let_def)
  show ?case
  proof (cases err)
    case None
    with "2.IH" f rest show ?thesis by (simp add: post_frag_wcore)
  next
    case (Some e')
    with f rest show ?thesis by (auto simp: post_frag_wcore split: if_splits)
  qed
qed

lemma post_mediumsq_wcore: "omx__post_isend_mediumsq p r ep = Some ep' \<Longrightarrow> wcore ep' = wcore ep"
  by (auto simp: omx__post_isend_mediumsq_def bind_eq_Some_conv Let_def mediumsq_posted_def rinfo_def
      split: option.splits dest!: mediumsq_frags_wcore)

lemmas post_defs = omx__post_isend_tiny_def omx__post_isend_small_def omx__post_isend_mediumva_def
  omx__post_isend_rndv_def omx__post_notify_def

text \<open>What sending a request means to its partner: it takes the next number and becomes pending.\<close>

definition sent :: "nat \<Rightarrow> nat \<Rightarrow> omx_endpoint \<Rightarrow> omx_endpoint" where
  "sent p r ep = omx__enqueue_partner_request p P_NON_ACKED r (take_seqnum p r ep)"

lemma enqueue_partner_wcore:
  "wcore a = wcore b \<Longrightarrow> wcore (omx__enqueue_partner_request p k r a) = wcore (omx__enqueue_partner_request p k r b)"
  by (auto simp: wcore_def fun_eq_iff omx__enqueue_partner_request_def pinfo_def)

lemma need_ack_enqueue_wcore:
  "wcore a = wcore (take_seqnum p r ep) \<Longrightarrow> wcore (need_ack_enqueue p r a) = wcore (sent p r ep)"
  unfolding need_ack_enqueue_def sent_def by (rule enqueue_partner_wcore) simp

lemma sent_partner: "r_partner (rq (sent p r ep) q) = r_partner (rq ep q)"
  by (simp add: sent_def omx__enqueue_partner_request_def take_seqnum_def Let_def)

lemma sent_window:
  assumes "r \<notin> set (p_queues (pt ep p) P_NON_ACKED)"
  shows "window (sent p r ep) p = spec_send r (window ep p)"
proof -
  have "map (\<lambda>q. (q, r_send_seqnum (rq (sent p r ep) q))) (p_queues (pt ep p) P_NON_ACKED)
      = map (\<lambda>q. (q, r_send_seqnum (rq ep q))) (p_queues (pt ep p) P_NON_ACKED)"
    using assms by (auto simp: sent_def omx__enqueue_partner_request_def take_seqnum_def Let_def)
  then show ?thesis
    by (simp add: window_def spec_send_def) (simp add: sent_def omx__enqueue_partner_request_def take_seqnum_def Let_def)
qed

lemma throttle_wcore:
  "wcore (throttle_request p r ep) = wcore (omx__enqueue_partner_request p P_NEED_SEQNUM_SEND r ep)"
  unfolding throttle_request_def wcore_acks by (rule enqueue_partner_wcore) simp

definition submitted :: "nat \<Rightarrow> nat \<Rightarrow> omx_endpoint \<Rightarrow> omx_endpoint \<Rightarrow> bool" where
  "submitted p r ep ep' \<longleftrightarrow>
     window ep' p = spec_submit r (window ep p) \<and> (\<forall>q. r_partner (rq ep' q) = r_partner (rq ep q))"

lemma submitted_wcore:
  "wcore ep2 = wcore ep \<Longrightarrow> wcore ep' = wcore ep3 \<Longrightarrow> submitted p r ep ep' \<longleftrightarrow> submitted p r ep2 ep3"
  using wcore_window [of ep2 ep p] wcore_window [of ep' ep3 p] wcoreD(4) [of ep2 ep] wcoreD(4) [of ep' ep3]
  by (simp add: submitted_def)

text \<open>
  The interface of the kinds of sends: setting up a send is, to the partner, sending it. From it
  follows that a send which is set up unless the window is full refines the abstract submission.
\<close>

locale sender =
  fixes set_up :: "nat \<Rightarrow> nat \<Rightarrow> omx_endpoint \<Rightarrow> omx_endpoint option"
  assumes setup_sent: "set_up p r ep = Some ep' \<Longrightarrow> wcore ep' = wcore (sent p r ep)"
begin

lemma setup_window:
  "set_up p r ep = Some ep' \<Longrightarrow> r \<notin> set (p_queues (pt ep p) P_NON_ACKED) \<Longrightarrow>
     window ep' p = spec_send r (window ep p)"
  using wcore_window [OF setup_sent] sent_window by simp

lemma submit_window:
  assumes "(if throttled (pt ep p) then Some (throttle_request p r ep) else set_up p r ep) = Some ep'"
    and "r \<notin> set (p_queues (pt ep p) P_NON_ACKED)"
  shows "submitted p r ep ep'"
proof -
  have full: "throttled (pt ep p) \<longleftrightarrow> window_full (window ep p)"
    by (simp add: throttled_def window_full_def window_def THROTTLING_le_iff)
  show ?thesis
  proof (cases "throttled (pt ep p)")
    case True
    let ?waiting = "omx__enqueue_partner_request p P_NEED_SEQNUM_SEND r ep"
    have "ep' = throttle_request p r ep" using True assms(1) by simp
    then have "wcore ep' = wcore ?waiting" by (simp only: throttle_wcore)
    moreover have "window ?waiting p = (window ep p)\<lparr>w_waiting := w_waiting (window ep p) @ [r]\<rparr>"
      "r_partner (rq ?waiting q) = r_partner (rq ep q)" for q
      by (simp_all add: window_def omx__enqueue_partner_request_def)
    ultimately show ?thesis
      using True full wcore_window [of ep' ?waiting p] wcoreD(4) [of ep' ?waiting]
      by (simp add: submitted_def spec_submit_def)
  next
    case False
    then have "set_up p r ep = Some ep'" using assms(1) by simp
    then show ?thesis
      using False full setup_window [OF _ assms(2)] setup_sent wcoreD(4) [of ep' "sent p r ep"]
      by (simp add: submitted_def spec_submit_def sent_partner)
  qed
qed

text \<open>The same, after steps that the window does not see.\<close>

lemma submit_after:
  assumes c: "wcore ep2 = wcore ep"
    and "(if throttled (pt ep2 p) then Some (throttle_request p r ep2) else set_up p r ep2) = Some ep'"
    and "r \<notin> set (p_queues (pt ep p) P_NON_ACKED)"
  shows "submitted p r ep ep'"
  using submit_window [OF assms(2)] assms(3) unfolding wcoreD(1) [OF c] submitted_wcore [OF c refl] by blast

end

lemma posted_wcore:
  assumes "post_isend cmd pins p r (take_seqnum p r ep) = Some ep1"
  shows "wcore (need_ack_enqueue p r ep1) = wcore (sent p r ep)"
    and "wcore (need_ack_enqueue p r (set_state STATE_NEED_REPLY r ep1)) = wcore (sent p r ep)"
  by (rule need_ack_enqueue_wcore, simp add: post_isend_wcore [OF assms])+

lemma setup_wcore:
  "omx__setup_isend_tiny p r ep = Some ep' \<Longrightarrow> wcore ep' = wcore (sent p r ep)"
  "omx__setup_isend_small p r ep = Some ep' \<Longrightarrow> wcore ep' = wcore (sent p r ep)"
  "omx__setup_isend_mediumva p r ep = Some ep' \<Longrightarrow> wcore ep' = wcore (sent p r ep)"
  "omx__setup_isend_rndv p r ep = Some ep' \<Longrightarrow> wcore ep' = wcore (sent p r ep)"
  "omx__setup_notify p r ep = Some ep' \<Longrightarrow> wcore ep' = wcore (sent p r ep)"
  by (auto simp: omx__setup_isend_tiny_def omx__setup_isend_small_def omx__setup_isend_mediumva_def
      omx__setup_isend_rndv_def omx__setup_notify_def post_defs bind_eq_Some_conv dest: posted_wcore)

lemma setup_mediumsq_wcore:
  assumes "omx__setup_isend_mediumsq p r ep = Some ep'"
  shows "wcore ep' = wcore (sent p r ep)"
proof -
  from assms obtain ep1 where "omx__post_isend_mediumsq p r (take_seqnum p r ep) = Some ep1"
    and ep': "ep' = done_early r (omx__enqueue_partner_request p P_NON_ACKED r
          (omx__enqueue_request (if STATE_DRIVER_MEDIUMSQ_SENDING \<in> r_state (rq (set_state STATE_NEED_ACK r ep1) r)
            then DRIVER_MEDIUMSQ_SENDING_REQ_Q else NON_ACKED_REQ_Q) r (set_state STATE_NEED_ACK r ep1)))"
    unfolding omx__setup_isend_mediumsq_def Let_def bind_eq_Some_conv by blast
  then have "wcore ep1 = wcore (take_seqnum p r ep)" by (simp add: post_mediumsq_wcore)
  then show ?thesis unfolding ep' wcore_done sent_def by (intro enqueue_partner_wcore) simp
qed

interpretation tiny_sender: sender omx__setup_isend_tiny by unfold_locales (rule setup_wcore)
interpretation small_sender: sender omx__setup_isend_small by unfold_locales (rule setup_wcore)
interpretation mediumva_sender: sender omx__setup_isend_mediumva by unfold_locales (rule setup_wcore)
interpretation mediumsq_sender: sender omx__setup_isend_mediumsq by unfold_locales (rule setup_mediumsq_wcore)
interpretation rndv_sender: sender omx__setup_isend_rndv by unfold_locales (rule setup_wcore)
interpretation notify_sender: sender omx__setup_notify by unfold_locales (rule setup_wcore)

lemma setup_throttled_wcore: "setup_throttled p r ep = Some ep' \<Longrightarrow> wcore ep' = wcore (sent p r ep)"
  by (auto simp: setup_throttled_def setup_wcore setup_mediumsq_wcore split: omx__request_type.splits)

interpretation throttled_sender: sender setup_throttled by unfold_locales (rule setup_throttled_wcore)

subsection \<open>Submitting\<close>

lemma fill_wcore [simp]: "wcore (fill_param p r s ep) = wcore ep"
  by (simp add: fill_param_def Let_def rinfo_def)

lemma upd_param_wcore: "wcore (upd_param r f ep) = wcore ep"
  by (simp add: rinfo_def)

lemma got_resource_wcore [simp]: "wcore (got_resource k r ep) = wcore ep"
  by (simp add: got_resource_def rinfo_def)

lemma alloc_setup_tiny_window:
  assumes "omx__alloc_setup_isend_tiny p r ep = Some ep'" and "r \<notin> set (p_queues (pt ep p) P_NON_ACKED)"
  shows "submitted p r ep ep'"
proof -
  from assms(1) obtain bs where
    "(let ep2 = upd_param r (\<lambda>m. m\<lparr>cm_data := bs\<rparr>) (fill_param p r (true_session_id (pt ep p)) ep)
      in if throttled (pt ep2 p) then Some (throttle_request p r ep2) else omx__setup_isend_tiny p r ep2) = Some ep'"
    unfolding omx__alloc_setup_isend_tiny_def Let_def bind_eq_Some_conv by blast
  then show ?thesis
    unfolding Let_def by (rule tiny_sender.submit_after [rotated]) (simp_all add: assms(2) rinfo_def)
qed

lemma alloc_setup_small_window:
  assumes "omx__alloc_setup_isend_small p r ep = Some ep'" and "r \<notin> set (p_queues (pt ep p) P_NON_ACKED)"
  shows "submitted p r ep ep'"
proof -
  from assms(1) obtain bs ep3 where run:
    "(let ep2 = upd_param r (\<lambda>m. m\<lparr>cm_data := bs\<rparr>) (fill_param p r (true_session_id (pt ep p)) ep)
      in if throttled (pt ep2 p) then Some (throttle_request p r ep2) else omx__setup_isend_small p r ep2) = Some ep3"
    and ep': "ep' = upd_req r (\<lambda>q. q\<lparr>r_copy := bs\<rparr>) ep3"
    unfolding omx__alloc_setup_isend_small_def Let_def bind_eq_Some_conv by blast
  from run have "submitted p r ep ep3"
    unfolding Let_def by (rule small_sender.submit_after [rotated]) (simp_all add: assms(2) rinfo_def)
  moreover have "wcore ep' = wcore ep3" unfolding ep' by (simp add: rinfo_def)
  ultimately show ?thesis using submitted_wcore [OF refl] by blast
qed

lemma alloc_setup_mediumva_window:
  assumes "omx__alloc_setup_isend_mediumva p r ep = Some ep'" and "r \<notin> set (p_queues (pt ep p) P_NON_ACKED)"
  shows "submitted p r ep ep'"
  using assms(1) unfolding omx__alloc_setup_isend_mediumva_def Let_def
  by (rule mediumva_sender.submit_after [rotated]) (simp_all add: assms(2) rinfo_def)

lemma alloc_setup_notify_window:
  assumes "omx__alloc_setup_notify r ep = Some ep'" and "p = r_partner (rq ep r)"
    and "r \<notin> set (p_queues (pt ep p) P_NON_ACKED)"
  shows "submitted p r ep ep'"
  using assms(1) unfolding omx__alloc_setup_notify_def Let_def assms(2)
  by (rule notify_sender.submit_after [rotated]) (use assms(2,3) in \<open>simp_all add: rinfo_def\<close>)

lemma mediumsq_exp_events_wcore: "mediumsq_exp_events r ep = Some (ok, ep') \<Longrightarrow> wcore ep' = wcore ep"
  by (auto simp: mediumsq_exp_events_def Let_def split: if_splits)

lemma alloc_setup_mediumsq_window:
  assumes "omx__alloc_setup_isend_mediumsq p r ep = Some (True, ep')"
    and "r \<notin> set (p_queues (pt ep p) P_NON_ACKED)"
  shows "submitted p r ep ep'"
proof -
  from assms(1) obtain ep1 index m where ep1: "mediumsq_exp_events r ep = Some (True, ep1)"
    and run: "mediumsq_with_slots p r index (ep1\<lparr>sendq_map := m\<rparr>) = Some ep'"
    by (auto simp: omx__alloc_setup_isend_mediumsq_def bind_eq_Some_conv split: if_splits option.splits)
  show ?thesis
    using run unfolding mediumsq_with_slots_def Let_def
    by (rule mediumsq_sender.submit_after [rotated])
      (simp_all add: assms(2) rinfo_def mediumsq_exp_events_wcore [OF ep1])
qed

lemma large_send_region_wcore: "large_send_region r ep = Some (ok, ep') \<Longrightarrow> wcore ep' = wcore ep"
  by (auto simp: large_send_region_def Let_def split: if_splits)

lemma alloc_setup_large_window:
  assumes "omx__alloc_setup_isend_large p r ep = Some (True, ep')"
    and "r \<notin> set (p_queues (pt ep p) P_NON_ACKED)"
  shows "submitted p r ep ep'"
proof -
  from assms(1) obtain ep1 i ep2 where ep1: "large_send_region r ep = Some (True, ep1)"
    and ep2: "ep_get_region (r_segs (rq ep1 r)) (Some r) ep1 = Some (Some i, ep2)"
    and run: "large_with_region p r i ep2 = Some ep'"
    by (auto simp: omx__alloc_setup_isend_large_def bind_eq_Some_conv split: if_splits option.splits)
  have c: "wcore ep2 = wcore ep"
    using large_send_region_wcore [OF ep1] get_region_wcore [OF ep2] by simp
  show ?thesis
    using run unfolding large_with_region_def Let_def
    by (rule rndv_sender.submit_after [rotated]) (simp_all add: assms(2) rinfo_def c)
qed

subsection \<open>Acknowledging\<close>

text \<open>The requests of a partner are on its lists, each once, and point back to it.\<close>

definition queues_ok :: "omx_endpoint \<Rightarrow> nat \<Rightarrow> bool" where
  "queues_ok ep p \<longleftrightarrow>
     distinct (p_queues (pt ep p) P_NON_ACKED @ p_queues (pt ep p) P_NEED_SEQNUM_SEND)
     \<and> (\<forall>r \<in> set (p_queues (pt ep p) P_NON_ACKED @ p_queues (pt ep p) P_NEED_SEQNUM_SEND). r_partner (rq ep r) = p)"

lemma queues_ok_wcore: "wcore ep' = wcore ep \<Longrightarrow> queues_ok ep' p = queues_ok ep p"
  by (simp add: queues_ok_def wcoreD(1) [of ep' ep] wcoreD(4) [of ep' ep])

lemma sent_queues:
  "p_queues (pt (sent p r ep) p) = (p_queues (pt ep p))(P_NON_ACKED := p_queues (pt ep p) P_NON_ACKED @ [r])"
  by (simp add: sent_def omx__enqueue_partner_request_def take_seqnum_def Let_def)

lemma dequeue_partner_queues:
  assumes "r_partner (rq ep r) = p"
  shows "p_queues (pt (omx__dequeue_partner_request r ep) p) k = removeAll r (p_queues (pt ep p) k)"
    "rq (omx__dequeue_partner_request r ep) = rq ep"
    "next_send_seq (pt (omx__dequeue_partner_request r ep) p) = next_send_seq (pt ep p)"
    "next_acked_send_seq (pt (omx__dequeue_partner_request r ep) p) = next_acked_send_seq (pt ep p)"
  using assms by (simp_all add: omx__dequeue_partner_request_def)

lemma throttling_loop_window:
  "throttling_loop p n ep = Some (k, ep') \<Longrightarrow> queues_ok ep p \<Longrightarrow>
     window ep' p = spec_release n (window ep p) \<and> queues_ok ep' p"
proof (induction n arbitrary: ep k)
  case 0
  then show ?case by simp
next
  case (Suc n)
  show ?case
  proof (cases "p_queues (pt ep p) P_NEED_SEQNUM_SEND")
    case Nil
    with Suc.prems show ?thesis
      by (auto simp: omx__dequeue_first_partner_request_def window_def)
  next
    case (Cons r rs)
    let ?ep1 = "clear_state STATE_NEED_SEQNUM r (omx__dequeue_partner_request r ep)"
    have r: "r_partner (rq ep r) = p" "r \<notin> set (p_queues (pt ep p) P_NON_ACKED)" "r \<notin> set rs"
      using Suc.prems(2) Cons by (auto simp: queues_ok_def)
    have "(do { ep2 \<leftarrow> setup_throttled p r ?ep1; (sent, ep3) \<leftarrow> throttling_loop p n ep2; Some (Suc sent, ep3) })
        = Some (k, ep')"
      using Suc.prems(1) Cons by (simp add: omx__dequeue_first_partner_request_def)
    then obtain ep2 k' where ep2: "setup_throttled p r ?ep1 = Some ep2"
      and loop: "throttling_loop p n ep2 = Some (k', ep')"
      by (auto simp: bind_eq_Some_conv)
    have q1: "p_queues (pt ?ep1 p) P_NON_ACKED = p_queues (pt ep p) P_NON_ACKED"
      "p_queues (pt ?ep1 p) P_NEED_SEQNUM_SEND = rs" "\<And>q. r_partner (rq ?ep1 q) = r_partner (rq ep q)"
      using r Cons by (simp_all add: clear_state_def dequeue_partner_queues(1) omx__dequeue_partner_request_def)
    have w1: "window ?ep1 p = (window ep p)\<lparr>w_waiting := rs\<rparr>"
      using wcore_window [OF wcore_states(2)] r Cons
      by (simp add: window_def dequeue_partner_queues)
    have w2: "window ep2 p = spec_send r ((window ep p)\<lparr>w_waiting := rs\<rparr>)"
      using throttled_sender.setup_window [OF ep2] q1(1) r(2) w1 by simp
    have c: "wcore ep2 = wcore (sent p r ?ep1)" using ep2 by (rule setup_throttled_wcore)
    have "queues_ok (sent p r ?ep1) p"
      using Suc.prems(2) Cons by (auto simp: queues_ok_def sent_queues sent_partner q1)
    then have "queues_ok ep2 p" using queues_ok_wcore [OF c] by simp
    from Suc.IH [OF loop this] w2 show ?thesis
      using Cons by (simp add: window_def)
  qed
qed

lemma ack_loop_window:
  "ack_loop p new qs ep = Some ep' \<Longrightarrow> queues_ok ep p \<Longrightarrow> qs = p_queues (pt ep p) P_NON_ACKED \<Longrightarrow>
     window ep' p = (window ep p)\<lparr>w_pending :=
         dropWhile (\<lambda>(r, s). seq_dist s (w_acked (window ep p)) < unat new) (w_pending (window ep p))\<rparr>
     \<and> queues_ok ep' p"
proof (induction p new qs ep arbitrary: ep' rule: ack_loop.induct)
  case (1 p new ep)
  then show ?case by (simp add: window_def)
next
  case (2 p new r rs ep)
  let ?s = "r_send_seqnum (rq ep r)" and ?acked = "next_acked_send_seq (pt ep p)"
  have less: "new \<le> OMX__SEQNUM (?s - ?acked) \<longleftrightarrow> \<not> seq_dist ?s ?acked < unat new"
    by (simp add: seq_dist_def word_le_nat_alt not_less)
  show ?case
  proof (cases "new \<le> OMX__SEQNUM (?s - ?acked)")
    case True
    have q: "p_queues (pt ep p) P_NON_ACKED = r # rs" using "2.prems"(3) by simp
    have "w_pending (window ep p) = (r, ?s) # map (\<lambda>r. (r, r_send_seqnum (rq ep r))) rs"
      "w_acked (window ep p) = ?acked" by (simp_all add: window_def q)
    moreover have "ep' = ep" using True "2.prems"(1) by simp
    ultimately show ?thesis using True less "2.prems"(2) by simp
  next
    case False
    with "2.prems"(1) obtain ep1 where
      ep1: "omx__mark_request_acked r OMX_SUCCESS (omx__dequeue_partner_request r ep) = Some ep1"
      and loop: "ack_loop p new rs ep1 = Some ep'"
      by (auto simp: bind_eq_Some_conv)
    have c: "wcore ep1 = wcore (omx__dequeue_partner_request r ep)" using ep1 by (rule mark_acked_wcore)
    have q: "p_queues (pt ep p) P_NON_ACKED = r # rs" using "2.prems"(3) by simp
    have r: "r_partner (rq ep r) = p" "r \<notin> set rs" "r \<notin> set (p_queues (pt ep p) P_NEED_SEQNUM_SEND)"
      using "2.prems"(2) q by (auto simp: queues_ok_def)
    have w: "window ep1 p = (window ep p)\<lparr>w_pending := tl (w_pending (window ep p))\<rparr>"
      using wcore_window [OF c, of p] r q by (simp add: window_def dequeue_partner_queues)
    have "queues_ok (omx__dequeue_partner_request r ep) p"
      using "2.prems"(2) r q by (auto simp: queues_ok_def dequeue_partner_queues)
    then have ok: "queues_ok ep1 p" using queues_ok_wcore [OF c] by simp
    have "rs = p_queues (pt ep1 p) P_NON_ACKED"
      using wcoreD(1) [OF c, of p] r q by (simp add: dequeue_partner_queues)
    from "2.IH" [OF False ep1 loop ok this]
    have "window ep' p = (window ep p)\<lparr>w_pending := dropWhile (\<lambda>(r, s). seq_dist s (w_acked (window ep p)) < unat new)
        (tl (w_pending (window ep p)))\<rparr>" and ok': "queues_ok ep' p" by (simp_all add: w)
    moreover have "w_pending (window ep p) = (r, ?s) # map (\<lambda>r. (r, r_send_seqnum (rq ep r))) rs"
      "w_acked (window ep p) = ?acked" by (simp_all add: window_def q)
    ultimately show ?thesis using False less by simp
  qed
qed

lemma handle_ack_window:
  assumes "omx__handle_ack p a ep = Some ep'" and "queues_ok ep p"
  shows "window ep' p = spec_ack a (window ep p) \<and> queues_ok ep' p"
proof -
  let ?acked = "next_acked_send_seq (pt ep p)"
  let ?new = "OMX__SEQNUM (a - ?acked)" and ?missing = "OMX__SEQNUM (next_send_seq (pt ep p) - ?acked)"
  have n: "unat ?new = seq_dist a ?acked" by (simp add: seq_dist_def)
  show ?thesis
  proof (cases "?new = 0 \<or> ?new > ?missing")
    case True
    with assms show ?thesis
      by (auto simp: omx__handle_ack_def Let_def spec_ack_def window_def seqnum_cmp)
  next
    case False
    with assms(1) obtain ep1 ep2 k where loop: "ack_loop p ?new (p_queues (pt ep p) P_NON_ACKED) ep = Some ep1"
      and thr: "throttling_loop p (unat ?new) (upd_partner p (\<lambda>q. q\<lparr>next_acked_send_seq := a\<rparr>) ep1) = Some (k, ep2)"
      and ep': "ep' = omx__update_partner_throttling p k ep2"
      by (auto simp: omx__handle_ack_def Let_def omx__process_throttling_requests_def bind_eq_Some_conv)
    let ?ep1 = "upd_partner p (\<lambda>q. q\<lparr>next_acked_send_seq := a\<rparr>) ep1"
    from ack_loop_window [OF loop assms(2) refl]
    have w1: "window ep1 p = (window ep p)\<lparr>w_pending :=
         dropWhile (\<lambda>(r, s). seq_dist s ?acked < seq_dist a ?acked) (w_pending (window ep p))\<rparr>"
      and ok1: "queues_ok ep1 p" by (simp_all add: n window_def)
    have w1': "window ?ep1 p = (window ep1 p)\<lparr>w_acked := a\<rparr>" by (simp add: window_def)
    have ok1': "queues_ok ?ep1 p" using ok1 by (simp add: queues_ok_def)
    from throttling_loop_window [OF thr ok1'] have "window ep2 p = spec_release (seq_dist a ?acked) (window ?ep1 p)"
      "queues_ok ep2 p" by (simp_all add: n)
    moreover have "wcore ep' = wcore ep2" unfolding ep' by simp
    then have "window ep' p = window ep2 p" "queues_ok ep' p = queues_ok ep2 p"
      by (rule wcore_window, rule queues_ok_wcore)
    moreover have "w_acked (window ep p) = ?acked" "w_next (window ep p) = next_send_seq (pt ep p)"
      by (simp_all add: window_def)
    moreover have "seq_dist a ?acked \<noteq> 0" "\<not> seq_dist a ?acked > seq_dist (next_send_seq (pt ep p)) ?acked"
      using False by (simp_all add: seqnum_cmp)
    ultimately show ?thesis
      by (simp only: spec_ack_def Let_def w1 w1' if_False simp_thms)
  qed
qed

subsection \<open>The invariant of the window, and the order of the sends\<close>

text \<open>
  The numbers of the pending sends are inside the window in increasing order, the window is never
  wider than the throttling offset, and a send waits only behind a full window.
\<close>

definition place :: "omx__seqnum_t \<Rightarrow> nat \<times> omx__seqnum_t \<Rightarrow> nat" where
  "place a x = seq_dist (snd x) a"

definition window_ok :: "send_window \<Rightarrow> bool" where
  "window_ok w \<longleftrightarrow>
     seq_dist (w_next w) (w_acked w) \<le> 8191
     \<and> (w_waiting w \<noteq> [] \<longrightarrow> window_full w)
     \<and> sorted_wrt (<) (map (place (w_acked w)) (w_pending w))
     \<and> (\<forall>x \<in> set (w_pending w). place (w_acked w) x < seq_dist (w_next w) (w_acked w))"

definition w_order :: "send_window \<Rightarrow> nat list" where
  "w_order w = map fst (w_pending w) @ w_waiting w"

definition in_flight_ok :: "send_window \<Rightarrow> bool" where
  "in_flight_ok w \<longleftrightarrow>
     seq_dist (w_next w) (w_acked w) \<le> 8191
     \<and> sorted_wrt (<) (map (place (w_acked w)) (w_pending w))
     \<and> (\<forall>x \<in> set (w_pending w). place (w_acked w) x < seq_dist (w_next w) (w_acked w))"

lemma window_ok_iff: "window_ok w \<longleftrightarrow> in_flight_ok w \<and> (w_waiting w \<noteq> [] \<longrightarrow> window_full w)"
  by (auto simp: window_ok_def in_flight_ok_def)

lemma spec_send_sel [simp]:
  "w_waiting (spec_send r w) = w_waiting w" "w_acked (spec_send r w) = w_acked w"
  "w_pending (spec_send r w) = w_pending w @ [(r, w_next w)]"
  "w_next (spec_send r w) = OMX__SEQNUM_INCREASE (w_next w)"
  by (simp_all add: spec_send_def)

lemma spec_send_dist:
  "\<not> window_full w \<Longrightarrow> seq_dist (w_next (spec_send r w)) (w_acked w) = Suc (seq_dist (w_next w) (w_acked w))"
  by (simp add: window_full_def seq_dist_INCREASE_small)

lemma spec_send_in_flight: "in_flight_ok w \<Longrightarrow> \<not> window_full w \<Longrightarrow> in_flight_ok (spec_send r w)"
  using spec_send_dist [of w r]
  by (auto simp: in_flight_ok_def window_full_def sorted_wrt_append place_def)

lemma spec_submit_ok: "window_ok w \<Longrightarrow> window_ok (spec_submit r w)"
  using spec_send_in_flight [of w r]
  by (auto simp: spec_submit_def window_ok_iff in_flight_ok_def window_full_def)

lemma spec_submit_order: "window_ok w \<Longrightarrow> w_order (spec_submit r w) = w_order w @ [r]"
  by (auto simp: spec_submit_def window_ok_def w_order_def)

lemma spec_release_order: "w_order (spec_release n w) = w_order w"
  by (induction n w rule: spec_release.induct) (auto simp: w_order_def split: list.splits)

lemma spec_release_acked [simp]: "w_acked (spec_release n w) = w_acked w"
  by (induction n w rule: spec_release.induct) (auto split: list.splits)

text \<open>As many sends are released as numbers were acknowledged: the window stays within its bound.\<close>

lemma spec_release_in_flight:
  "in_flight_ok w \<Longrightarrow> seq_dist (w_next w) (w_acked w) + n \<le> 8191 \<Longrightarrow>
     in_flight_ok (spec_release n w)
     \<and> w_waiting (spec_release n w) = drop n (w_waiting w)
     \<and> seq_dist (w_next (spec_release n w)) (w_acked w)
        = seq_dist (w_next w) (w_acked w) + min n (length (w_waiting w))"
proof (induction n w rule: spec_release.induct)
  case (1 w)
  then show ?case by simp
next
  case (2 n w)
  show ?case
  proof (cases "w_waiting w")
    case Nil
    with "2.prems" show ?thesis by simp
  next
    case (Cons r rs)
    let ?w = "w\<lparr>w_waiting := rs\<rparr>"
    have "in_flight_ok ?w" "\<not> window_full ?w"
      using "2.prems" by (simp_all add: in_flight_ok_def window_full_def)
    then have ok: "in_flight_ok (spec_send r ?w)"
      and d: "seq_dist (w_next (spec_send r ?w)) (w_acked w) = Suc (seq_dist (w_next w) (w_acked w))"
      using spec_send_in_flight [of ?w r] spec_send_dist [of ?w r] by simp_all
    from d "2.prems"(2) have "seq_dist (w_next (spec_send r ?w)) (w_acked (spec_send r ?w)) + n \<le> 8191"
      by simp
    from "2.IH" [OF Cons ok this] d show ?thesis by (simp add: Cons del: spec_send_sel(4))
  qed
qed

text \<open>Moving the start of the window forward moves every place that is not behind it.\<close>

lemma seq_dist_forward:
  assumes "seq_dist a b \<le> seq_dist s b"
  shows "seq_dist s a = seq_dist s b - seq_dist a b"
proof -
  have "seq_dist s b = (seq_dist s a + seq_dist a b) mod 16384" using seq_dist_trans [of s b a] by simp
  moreover have "seq_dist s a < 16384" "seq_dist a b < 16384"
    using seq_dist_less [of s a] seq_dist_less [of a b] by simp_all
  ultimately show ?thesis
    using assms by (cases "seq_dist s a + seq_dist a b < 16384") (simp_all add: le_mod_geq)
qed

lemma dropWhile_sorted:
  assumes "sorted_wrt (<) (map f xs)"
  shows "dropWhile (\<lambda>x. f x < (k::nat)) xs = filter (\<lambda>x. k \<le> f x) xs"
  using assms by (induction xs) (auto simp: not_less intro!: filter_True [symmetric])

lemma spec_ack_in_flight:
  assumes "in_flight_ok w" and "seq_dist a (w_acked w) \<le> seq_dist (w_next w) (w_acked w)"
  defines "w1 \<equiv> w\<lparr>w_pending := dropWhile (\<lambda>(r, s). seq_dist s (w_acked w) < seq_dist a (w_acked w)) (w_pending w),
    w_acked := a\<rparr>"
  shows "in_flight_ok w1" "seq_dist (w_next w1) a = seq_dist (w_next w) (w_acked w) - seq_dist a (w_acked w)"
proof -
  let ?n = "seq_dist a (w_acked w)"
  have "w_pending w1 = dropWhile (\<lambda>x. place (w_acked w) x < ?n) (w_pending w)"
    by (simp add: w1_def place_def case_prod_unfold)
  moreover have "sorted_wrt (<) (map (place (w_acked w)) (w_pending w))"
    using assms(1) unfolding in_flight_ok_def by blast
  ultimately have p: "w_pending w1 = filter (\<lambda>x. ?n \<le> place (w_acked w) x) (w_pending w)"
    by (simp only: dropWhile_sorted)
  have fwd: "place a x = place (w_acked w) x - ?n" if "x \<in> set (w_pending w1)" for x
    using that seq_dist_forward [of a "w_acked w" "snd x"] unfolding p by (simp add: place_def)
  show d: "seq_dist (w_next w1) a = seq_dist (w_next w) (w_acked w) - ?n"
    using seq_dist_forward [OF assms(2)] by (simp add: w1_def)
  have "sorted_wrt (<) (map (place (w_acked w)) (w_pending w1))"
    using assms(1) unfolding p in_flight_ok_def sorted_wrt_map by (simp add: sorted_wrt_filter)
  then have "sorted_wrt (<) (map (place a) (w_pending w1))"
    unfolding sorted_wrt_map using fwd p by (auto elim!: sorted_wrt_mono_rel [rotated] intro: diff_less_mono)
  moreover have "place a x < seq_dist (w_next w1) a" if "x \<in> set (w_pending w1)" for x
    using that assms(1) fwd [OF that] unfolding d p by (auto simp: in_flight_ok_def)
  moreover have "w_acked w1 = a" by (simp add: w1_def)
  ultimately show "in_flight_ok w1"
    using assms(1) d by (auto simp: in_flight_ok_def)
qed

lemma spec_ack_ok:
  assumes "window_ok w"
  shows "window_ok (spec_ack a w)"
proof (cases "seq_dist a (w_acked w) = 0 \<or> seq_dist a (w_acked w) > seq_dist (w_next w) (w_acked w)")
  case True
  with assms show ?thesis by (simp add: spec_ack_def)
next
  case False
  let ?n = "seq_dist a (w_acked w)"
  let ?w = "w\<lparr>w_pending := dropWhile (\<lambda>(r, s). seq_dist s (w_acked w) < ?n) (w_pending w), w_acked := a\<rparr>"
  have "in_flight_ok w" "seq_dist (w_next w) (w_acked w) \<le> 8191"
    and full: "w_waiting w \<noteq> [] \<Longrightarrow> seq_dist (w_next w) (w_acked w) = 8191"
    using assms by (auto simp: window_ok_def in_flight_ok_def window_full_def)
  with spec_ack_in_flight [of w a] False
  have ok: "in_flight_ok ?w" and d: "seq_dist (w_next ?w) (w_acked ?w) = seq_dist (w_next w) (w_acked w) - ?n"
    by simp_all
  then have "seq_dist (w_next ?w) (w_acked ?w) + ?n \<le> 8191"
    using False \<open>seq_dist (w_next w) (w_acked w) \<le> 8191\<close> by simp
  note r = spec_release_in_flight [OF ok this]
  have "window_full (spec_release ?n ?w)" if "drop ?n (w_waiting w) \<noteq> []"
    using that full r d False unfolding window_full_def by (cases "w_waiting w = []") auto
  with r False show ?thesis by (simp add: spec_ack_def window_ok_iff Let_def)
qed

text \<open>Acknowledged sends leave from the front, and nothing else leaves or overtakes.\<close>

lemma spec_ack_order: "\<exists>k. w_order (spec_ack a w) = drop k (w_order w)"
proof -
  have "\<exists>k. dropWhile P xs = drop k xs" for P and xs :: "(nat \<times> omx__seqnum_t) list"
    by (metis dropWhile_eq_drop)
  then obtain k where k: "dropWhile (\<lambda>(r, s). seq_dist s (w_acked w) < seq_dist a (w_acked w)) (w_pending w)
      = drop k (w_pending w)" by blast
  have drop_order: "map fst (drop k xs) @ ys = drop (min k (length xs)) (map fst xs @ ys)"
    for xs :: "(nat \<times> omx__seqnum_t) list" and ys
    by (cases "k \<le> length xs") (simp_all add: drop_map min_def)
  have "w_order (spec_ack a w) = w_order w \<or>
      w_order (spec_ack a w) = drop (min k (length (w_pending w))) (w_order w)"
    by (simp add: spec_ack_def Let_def spec_release_order k) (simp add: w_order_def drop_order)
  then show ?thesis by (metis drop0)
qed

subsection \<open>Runs of the code\<close>

text \<open>What submits request \<open>r\<close> to partner \<open>p\<close>: a send of each kind that got its resources, or a notify.\<close>

definition submits :: "nat \<Rightarrow> nat \<Rightarrow> omx_endpoint \<Rightarrow> omx_endpoint \<Rightarrow> bool" where
  "submits p r ep ep' \<longleftrightarrow>
     omx__alloc_setup_isend_tiny p r ep = Some ep' \<or> omx__alloc_setup_isend_small p r ep = Some ep'
     \<or> omx__alloc_setup_isend_mediumva p r ep = Some ep'
     \<or> omx__alloc_setup_isend_mediumsq p r ep = Some (True, ep')
     \<or> omx__alloc_setup_isend_large p r ep = Some (True, ep')
     \<or> omx__alloc_setup_notify r ep = Some ep' \<and> r_partner (rq ep r) = p"

lemma submits_submitted:
  assumes "submits p r ep ep'" and "r \<notin> set (p_queues (pt ep p) P_NON_ACKED)"
  shows "submitted p r ep ep'"
  using assms unfolding submits_def
  by (metis alloc_setup_tiny_window alloc_setup_small_window alloc_setup_mediumva_window
      alloc_setup_mediumsq_window alloc_setup_large_window alloc_setup_notify_window)

text \<open>
  A run of the code with partner \<open>p\<close>, with the requests submitted so far: submissions of new
  requests, acknowledgements with any number, and whatever leaves the window alone.
\<close>

inductive send_run :: "nat \<Rightarrow> omx_endpoint \<Rightarrow> nat list \<Rightarrow> omx_endpoint \<Rightarrow> bool" for p ep0 where
  run_start: "send_run p ep0 [] ep0"
| run_submit: "send_run p ep0 rs ep \<Longrightarrow> r \<notin> set rs \<Longrightarrow> r_partner (rq ep r) = p \<Longrightarrow> submits p r ep ep' \<Longrightarrow>
     send_run p ep0 (rs @ [r]) ep'"
| run_ack: "send_run p ep0 rs ep \<Longrightarrow> omx__handle_ack p a ep = Some ep' \<Longrightarrow> send_run p ep0 rs ep'"
| run_other: "send_run p ep0 rs ep \<Longrightarrow> wcore ep' = wcore ep \<Longrightarrow> send_run p ep0 rs ep'"

definition window_empty :: "send_window \<Rightarrow> bool" where
  "window_empty w \<longleftrightarrow> w_pending w = [] \<and> w_waiting w = [] \<and> w_next w = w_acked w"

lemma window_order: "w_order (window ep p) = p_queues (pt ep p) P_NON_ACKED @ p_queues (pt ep p) P_NEED_SEQNUM_SEND"
  by (simp add: w_order_def window_def comp_def)

lemma queues_ok_iff:
  "queues_ok ep p \<longleftrightarrow> distinct (w_order (window ep p)) \<and> (\<forall>r \<in> set (w_order (window ep p)). r_partner (rq ep r) = p)"
  by (simp only: queues_ok_def window_order)

lemma send_run_inv:
  assumes "send_run p ep0 rs ep" and "window_empty (window ep0 p)"
  shows "window_ok (window ep p) \<and> queues_ok ep p \<and> distinct rs \<and> (\<exists>k. w_order (window ep p) = drop k rs)"
  using assms
proof (induction rule: send_run.induct)
  case run_start
  then show ?case
    by (simp add: window_empty_def window_ok_def queues_ok_iff w_order_def)
next
  case (run_submit rs ep r ep')
  then have inv: "window_ok (window ep p)" "queues_ok ep p" "distinct rs" by simp_all
  from run_submit obtain k where k: "w_order (window ep p) = drop k rs" by auto
  have fresh: "r \<notin> set (w_order (window ep p))"
    using run_submit.hyps(2) set_drop_subset [of k rs] unfolding k by auto
  then have "submitted p r ep ep'"
    using run_submit.hyps(4) by (intro submits_submitted) (auto simp: window_order)
  then have w: "window ep' p = spec_submit r (window ep p)" and rp: "\<And>q. r_partner (rq ep' q) = r_partner (rq ep q)"
    by (simp_all add: submitted_def)
  have o: "w_order (window ep' p) = w_order (window ep p) @ [r]"
    using inv(1) by (simp add: w spec_submit_order)
  moreover have "\<exists>k'. w_order (window ep' p) = drop k' (rs @ [r])"
  proof (cases "k \<le> length rs")
    case True
    then show ?thesis using o k by (metis drop_append diff_is_0_eq drop0)
  next
    case False
    then show ?thesis using o k by (metis append_Nil append_eq_conv_conj drop_eq_Nil not_le order.strict_implies_order)
  qed
  ultimately show ?case
    using inv spec_submit_ok [OF inv(1)] fresh rp run_submit.hyps(2,3)
    by (auto simp: queues_ok_iff w)
next
  case (run_ack rs ep a ep')
  then have inv: "window_ok (window ep p)" "queues_ok ep p" "distinct rs" by simp_all
  from run_ack obtain k where k: "w_order (window ep p) = drop k rs" by auto
  from handle_ack_window [OF run_ack.hyps(2) inv(2)]
  have w: "window ep' p = spec_ack a (window ep p)" and ok: "queues_ok ep' p" by auto
  obtain j where "w_order (window ep' p) = drop j (w_order (window ep p))"
    using spec_ack_order w by metis
  then have "w_order (window ep' p) = drop (j + k) rs" by (simp add: k)
  with inv ok spec_ack_ok [OF inv(1)] show ?case by (auto simp: w)
next
  case (run_other rs ep ep')
  then show ?case using wcore_window [OF run_other.hyps(2)] queues_ok_wcore [OF run_other.hyps(2)] by simp
qed

subsection \<open>The properties\<close>

text \<open>
  C9: every kind of send, and the notify of a large receive, implements the abstract submission:
  the request takes the next number of its partner and becomes pending, or waits when the window
  is full; nothing else of the window changes.
\<close>

theorem send_refines_window:
  assumes "submits p r ep ep'" and "r \<notin> set (p_queues (pt ep p) P_NON_ACKED)"
  shows "window ep' p = spec_submit r (window ep p)"
  using submits_submitted [OF assms] by (simp add: submitted_def)

text \<open>
  C8: handling an acknowledgement implements the abstract one: a number outside the window, or
  the last one again, changes nothing; otherwise exactly the sends before it stop being pending, it
  becomes the start of the window, and as many waiting sends as numbers were acknowledged are sent,
  in their order.
\<close>

theorem ack_refines_window:
  assumes "omx__handle_ack p a ep = Some ep'" and "queues_ok ep p"
  shows "window ep' p = spec_ack a (window ep p)"
  using handle_ack_window [OF assms] by blast

text \<open>
  C7: after any run of submissions and acknowledgements that starts with an empty window, whatever
  the numbers acknowledged, the requests not acknowledged yet are the last ones submitted, in the
  order of submission: first the pending ones, then the throttled ones. The window never holds more
  than 8191 numbers, the numbers of the pending requests lie in it in increasing order, and
  requests are throttled only behind a full window.
\<close>

theorem send_run_safe:
  assumes "send_run p ep0 rs ep" and "window_empty (window ep0 p)"
  shows "(\<exists>k. p_queues (pt ep p) P_NON_ACKED @ p_queues (pt ep p) P_NEED_SEQNUM_SEND = drop k rs)
    \<and> seq_dist (next_send_seq (pt ep p)) (next_acked_send_seq (pt ep p)) \<le> 8191
    \<and> sorted_wrt (<) (map (\<lambda>r. seq_dist (r_send_seqnum (rq ep r)) (next_acked_send_seq (pt ep p)))
        (p_queues (pt ep p) P_NON_ACKED))
    \<and> (\<forall>r \<in> set (p_queues (pt ep p) P_NON_ACKED).
        seq_dist (r_send_seqnum (rq ep r)) (next_acked_send_seq (pt ep p))
          < seq_dist (next_send_seq (pt ep p)) (next_acked_send_seq (pt ep p)))
    \<and> (p_queues (pt ep p) P_NEED_SEQNUM_SEND \<noteq> [] \<longrightarrow> throttled (pt ep p))"
proof -
  from send_run_inv [OF assms] obtain k where ok: "window_ok (window ep p)"
    and k: "w_order (window ep p) = drop k rs" by auto
  show ?thesis
    using ok k unfolding window_order
    by (auto simp: window_ok_def window_full_def throttled_def THROTTLING_le_iff window_def place_def comp_def)
qed

subsection \<open>Instances\<close>

text \<open>Request 0 sent to partner 1, and a state in which it is pending with number 1.\<close>

definition sample_sent :: omx_endpoint where
  "sample_sent = the (omx__alloc_setup_isend_tiny 1 0 sample_endpoint)"

lemma tiny_sample: "omx__alloc_setup_isend_tiny 1 0 sample_endpoint = Some sample_sent"
proof -
  have "omx__alloc_setup_isend_tiny 1 0 sample_endpoint \<noteq> None"
    by (simp add: omx__alloc_setup_isend_tiny_def omx__setup_isend_tiny_def omx__post_isend_tiny_def
        post_isend_def Let_def split_def omx_cache_single_segment_def gather_segments_def throttled_def
        take_seqnum_def ep_ioctl_def ioctl_def fill_param_def upd_req_def upd_partner_def sample_defs
        omx__get_partner_needed_ack_def seqnum_cmp OMX__THROTTLING_OFFSET_MAX_def)
  then show ?thesis by (simp add: sample_sent_def)
qed

lemma sample_window: "window sample_endpoint p = \<lparr>w_pending = [], w_waiting = [], w_next = 1, w_acked = 1\<rparr>"
  by (simp add: window_def sample_partner_def)

lemma submits_sample: "submits 1 0 sample_endpoint sample_sent"
  unfolding submits_def using tiny_sample by blast

lemma send_refines_window_witness:
  "window sample_sent 1 = \<lparr>w_pending = [(0, 1)], w_waiting = [], w_next = OMX__SEQNUM_INCREASE 1, w_acked = 1\<rparr>"
  using send_refines_window [OF submits_sample]
  by (simp add: sample_window spec_submit_def window_full_def spec_send_def sample_partner_def)

lemma send_run_safe_witness:
  "seq_dist (next_send_seq (pt sample_sent 1)) (next_acked_send_seq (pt sample_sent 1)) \<le> 8191
   \<and> (\<exists>k. p_queues (pt sample_sent 1) P_NON_ACKED @ p_queues (pt sample_sent 1) P_NEED_SEQNUM_SEND = drop k [0])"
proof -
  have "send_run 1 sample_endpoint ([] @ [0]) sample_sent"
    by (rule run_submit [OF run_start _ _ submits_sample]) (simp_all add: sample_request_def)
  moreover have "window_empty (window sample_endpoint 1)" by (simp add: window_empty_def sample_window)
  ultimately show ?thesis using send_run_safe by fastforce
qed

definition sample_pending :: omx_endpoint where
  "sample_pending = upd_partner 1 (\<lambda>q. q\<lparr>p_queues := (\<lambda>_. [])(P_NON_ACKED := [0]), next_send_seq := 2\<rparr>)
     (upd_req 0 (\<lambda>q. q\<lparr>r_send_seqnum := 1, r_state := {STATE_NEED_ACK, STATE_DONE}\<rparr>) sample_endpoint)"

definition sample_acked :: omx_endpoint where
  "sample_acked = the (omx__handle_ack 1 2 sample_pending)"

lemma ack_sample: "omx__handle_ack 1 2 sample_pending = Some sample_acked"
proof -
  have "omx__handle_ack 1 2 sample_pending \<noteq> None"
    by (simp add: omx__handle_ack_def sample_pending_def Let_def store_defs sample_defs
        seqnum_cmp omx__mark_request_acked_def omx__send_complete_def complete_code_def
        omx__process_throttling_requests_def omx__dequeue_first_partner_request_def
        omx__dequeue_partner_request_def omx__dequeue_request_def omx__notify_request_done_def
        enqueue_done_def omx__enqueue_ctxid_request_def OMX__SEQNUM_take_bit)
  then show ?thesis by (simp add: sample_acked_def)
qed

lemma ack_refines_window_witness:
  "window sample_acked 1 = \<lparr>w_pending = [], w_waiting = [], w_next = 2, w_acked = 2\<rparr>"
proof -
  have q: "queues_ok sample_pending 1" and
    w: "window sample_pending 1 = \<lparr>w_pending = [(0, 1)], w_waiting = [], w_next = 2, w_acked = 1\<rparr>"
    by (simp_all add: queues_ok_def window_def sample_pending_def upd_req_def upd_partner_def sample_defs)
  have d: "seq_dist 2 1 = Suc 0" by (simp add: seq_dist_def OMX__SEQNUM_take_bit)
  show ?thesis
    using ack_refines_window [OF ack_sample q] by (simp add: w [unfolded One_nat_def] spec_ack_def d Let_def)
qed

end
