(* ===== verification/Driver_Events.thy ===== *)
theory Driver_Events
  imports Progress
begin

text \<open>
  The event queues as the driver fills them (\<open>driver/linux/omx_event.c\<close>), and the sleeping of
  the application on them. The queues are rings of slots shared with the library, whose side is
  the event loop of theory \<open>Progress\<close>: a slot holds the id that was written last, and the library
  takes a slot for filled when it finds the id of the index it has reached.

  The operations are the atomic ones: the spin locks and the atomic counters of the code make each
  of their parts indivisible, and the parts in which an operation can be interrupted by another
  are separate definitions where the order matters.
\<close>

subsection \<open>State\<close>

record exp_queue =
  exp_slots :: "nat \<Rightarrow> nat \<times> omx_evt"
  nextfree_exp :: u32
  nextreleased_exp :: u32

record unexp_queue =
  unexp_slots :: "nat \<Rightarrow> nat \<times> omx_evt"
  nextfree_unexp :: u32
  nextreserved_unexp :: u32
  nextreleased_unexp :: u32
  next_recvq :: u32

definition exp_queue_init :: exp_queue where
  "exp_queue_init = \<lparr>exp_slots = (\<lambda>_. (0, EVT_IGNORE)), nextfree_exp = 0, nextreleased_exp = 0\<rparr>"

definition unexp_queue_init :: unexp_queue where
  "unexp_queue_init = \<lparr>unexp_slots = (\<lambda>_. (0, EVT_IGNORE)), nextfree_unexp = 0, nextreserved_unexp = 0,
     nextreleased_unexp = 0, next_recvq = 0\<rparr>"

text \<open>Storing an event in the slot of an index, the id last.\<close>

definition store_event :: "u32 \<Rightarrow> omx_evt \<Rightarrow> (nat \<Rightarrow> nat \<times> omx_evt) \<Rightarrow> nat \<Rightarrow> nat \<times> omx_evt" where
  "store_event index e s = s(event_slot index := (event_id index, e))"

subsection \<open>Expected events\<close>

text \<open>
  The parts of \<open>omx_notify_exp_event\<close>: taking the next index, testing whether the queue is full,
  taking the index back, and filling the slot.
\<close>

definition exp_take :: "exp_queue \<Rightarrow> u32 \<times> exp_queue" where
  "exp_take q = (nextfree_exp q, q\<lparr>nextfree_exp := nextfree_exp q + 1\<rparr>)"

definition exp_too_far :: "exp_queue \<Rightarrow> bool" where
  "exp_too_far q \<longleftrightarrow> unat (nextfree_exp q - nextreleased_exp q) > OMX_EVENTQ_ENTRY_NR"

definition exp_rollback :: "exp_queue \<Rightarrow> exp_queue" where
  "exp_rollback q = q\<lparr>nextfree_exp := nextfree_exp q - 1\<rparr>"

definition exp_fill :: "u32 \<Rightarrow> omx_evt \<Rightarrow> exp_queue \<Rightarrow> exp_queue" where
  "exp_fill index e q = q\<lparr>exp_slots := store_event index e (exp_slots q)\<rparr>"

text \<open>The result is the error, if any; \<open>EBUSY\<close> also sets \<open>EXP_EVENTQ_FULL\<close> in the descriptor.\<close>

definition omx_notify_exp_event :: "omx_evt \<Rightarrow> exp_queue \<Rightarrow> errno option \<times> exp_queue" where
  "omx_notify_exp_event e q =
     (let (index, q1) = exp_take q
      in if exp_too_far q1 then (Some EBUSY, exp_rollback q1) else (None, exp_fill index e q1))"

definition omx_ioctl_release_exp_slots :: "exp_queue \<Rightarrow> errno option \<times> exp_queue" where
  "omx_ioctl_release_exp_slots q =
     (if unat (nextfree_exp q - nextreleased_exp q) < OMX_RELEASE_SLOTS_BATCH_NR then (Some EINVAL, q)
      else (None, q\<lparr>nextreleased_exp := nextreleased_exp q + word_of_nat OMX_RELEASE_SLOTS_BATCH_NR\<rparr>))"

subsection \<open>Unexpected events\<close>

definition unexp_too_far :: "unexp_queue \<Rightarrow> bool" where
  "unexp_too_far q \<longleftrightarrow> unat (nextfree_unexp q - nextreleased_unexp q) > OMX_EVENTQ_ENTRY_NR"

definition omx_notify_unexp_event :: "omx_evt \<Rightarrow> unexp_queue \<Rightarrow> errno option \<times> unexp_queue" where
  "omx_notify_unexp_event e q =
     (let index = nextreserved_unexp q;
          q1 = q\<lparr>nextfree_unexp := nextfree_unexp q + 1, nextreserved_unexp := index + 1\<rparr>
      in if unexp_too_far q1
         then (Some EBUSY, q1\<lparr>nextfree_unexp := nextfree_unexp q1 - 1, nextreserved_unexp := nextreserved_unexp q1 - 1\<rparr>)
         else (None, q1\<lparr>unexp_slots := store_event index e (unexp_slots q1)\<rparr>))"

text \<open>The offset of the receive-queue slot of an index; the size of a slot is a power of two.\<close>

definition recvq_offset :: "nat \<Rightarrow> u32 \<Rightarrow> nat" where
  "recvq_offset shift index = (unat index mod OMX_EVENTQ_ENTRY_NR) * 2 ^ shift"

definition omx_prepare_notify_unexp_event_with_recvq ::
  "nat \<Rightarrow> unexp_queue \<Rightarrow> (errno + nat) \<times> unexp_queue"
where
  "omx_prepare_notify_unexp_event_with_recvq shift q =
     (let recvq_index = next_recvq q;
          q1 = q\<lparr>nextfree_unexp := nextfree_unexp q + 1, next_recvq := recvq_index + 1\<rparr>
      in if unexp_too_far q1
         then (Inl EBUSY, q1\<lparr>nextfree_unexp := nextfree_unexp q1 - 1, next_recvq := next_recvq q1 - 1\<rparr>)
         else (Inr (recvq_offset shift recvq_index), q1))"

definition omx_prepare_notify_unexp_events_with_recvq ::
  "nat \<Rightarrow> nat \<Rightarrow> unexp_queue \<Rightarrow> (errno + nat list) \<times> unexp_queue"
where
  "omx_prepare_notify_unexp_events_with_recvq shift nr q =
     (let first_recvq_index = next_recvq q;
          q1 = q\<lparr>nextfree_unexp := nextfree_unexp q + word_of_nat nr,
                 next_recvq := first_recvq_index + word_of_nat nr\<rparr>
      in if unexp_too_far q1
         then (Inl EBUSY, q1\<lparr>nextfree_unexp := nextfree_unexp q1 - word_of_nat nr,
                             next_recvq := next_recvq q1 - word_of_nat nr\<rparr>)
         else (Inr (map (\<lambda>i. recvq_offset shift (first_recvq_index + word_of_nat i)) [0..<nr]), q1))"

text \<open>\<^term>\<open>None\<close> where the code has \<open>BUG_ON\<close>: nothing was prepared.\<close>

definition omx_commit_notify_unexp_event_with_recvq :: "omx_evt \<Rightarrow> unexp_queue \<Rightarrow> unexp_queue option" where
  "omx_commit_notify_unexp_event_with_recvq e q = do {
     c_assert (\<not> nextreserved_unexp q - nextreleased_unexp q \<ge> nextfree_unexp q - nextreleased_unexp q);
     let index = nextreserved_unexp q;
     Some (q\<lparr>nextreserved_unexp := index + 1, unexp_slots := store_event index e (unexp_slots q)\<rparr>)
   }"

definition omx_cancel_notify_unexp_event_with_recvq :: "unexp_queue \<Rightarrow> unexp_queue option" where
  "omx_cancel_notify_unexp_event_with_recvq q = do {
     c_assert (\<not> nextreserved_unexp q - nextreleased_unexp q \<ge> nextfree_unexp q - nextreleased_unexp q);
     let index = nextreserved_unexp q;
     Some (q\<lparr>nextreserved_unexp := index + 1, unexp_slots := store_event index EVT_IGNORE (unexp_slots q)\<rparr>)
   }"

definition omx_ioctl_release_unexp_slots :: "unexp_queue \<Rightarrow> errno option \<times> unexp_queue" where
  "omx_ioctl_release_unexp_slots q =
     (if unat (nextreserved_unexp q - nextreleased_unexp q) < OMX_RELEASE_SLOTS_BATCH_NR then (Some EINVAL, q)
      else (None, q\<lparr>nextreleased_unexp := nextreleased_unexp q + word_of_nat OMX_RELEASE_SLOTS_BATCH_NR\<rparr>))"

subsection \<open>Sleeping\<close>

datatype wait_status = WAIT_NONE | WAIT_EVENT | WAIT_INTR | WAIT_PROGRESS | WAIT_TIMEOUT | WAIT_RACE | WAIT_WAKEUP

record omx_cmd_wait_event =
  we_user_event_index :: u32
  we_next_exp_event_index :: u32
  we_next_unexp_event_index :: u32
  we_jiffies_expire :: u64

text \<open>Comparisons of 64-bit times, as the kernel does them: by the sign of the difference.\<close>

definition time_after_eq64 :: "u64 \<Rightarrow> u64 \<Rightarrow> bool" where
  "time_after_eq64 a b \<longleftrightarrow> 0 \<le> sint (a - b)"

definition time_before64 :: "u64 \<Rightarrow> u64 \<Rightarrow> bool" where
  "time_before64 a b \<longleftrightarrow> sint (a - b) < 0"

text \<open>The timer to set up: what the waiter's status becomes when it fires, and when.\<close>

definition wait_timer :: "u64 \<Rightarrow> u64 \<Rightarrow> (wait_status \<times> u64) option" where
  "wait_timer expire wakeup =
     (let app = (if expire \<noteq> OMX_CMD_WAIT_EVENT_TIMEOUT_INFINITE then Some (WAIT_TIMEOUT, expire) else None)
      in if wakeup \<noteq> word_of_nat OMX_NO_WAKEUP_JIFFIES
            \<and> (case app of None \<Rightarrow> True | Some (_, t) \<Rightarrow> time_before64 wakeup t)
         then Some (WAIT_PROGRESS, wakeup) else app)"

text \<open>
  \<open>omx_ioctl_wait_event\<close>, up to the status it reports. \<open>woken status timer\<close> is what the status of the waiter
  is after the sleep (\<^term>\<open>WAIT_NONE\<close> for a signal), which happens when nothing stands against it.
\<close>

definition omx_ioctl_wait_event ::
  "u64 \<Rightarrow> u64 \<Rightarrow> u32 \<Rightarrow> exp_queue \<Rightarrow> unexp_queue \<Rightarrow> ((wait_status \<times> u64) option \<Rightarrow> wait_status)
    \<Rightarrow> omx_cmd_wait_event \<Rightarrow> wait_status"
where
  "omx_ioctl_wait_event now wakeup user_index exp unexp woken cmd =
     (let waiter_status =
        (if we_next_exp_event_index cmd \<noteq> nextfree_exp exp
            \<or> we_next_unexp_event_index cmd \<noteq> nextreserved_unexp unexp
            \<or> we_user_event_index cmd \<noteq> user_index
         then WAIT_NONE
         else case wait_timer (we_jiffies_expire cmd) wakeup of
           None \<Rightarrow> woken None
         | Some (st, t) \<Rightarrow> if time_after_eq64 now t then WAIT_RACE else woken (Some (st, t)))
      in if waiter_status = WAIT_NONE then WAIT_INTR else waiter_status)"

text \<open>
  The test of \<open>omx__wait\<close> by which a wait call gives up with \<open>OMX_TIMEOUT\<close>, from the status that the
  last wait reported; \<open>waitintr\<close> is the setting of the library of that name.
\<close>

definition omx__wait_gives_up :: "bool \<Rightarrow> u64 \<Rightarrow> omx_cmd_wait_event \<Rightarrow> wait_status \<Rightarrow> bool" where
  "omx__wait_gives_up waitintr now wait_param st \<longleftrightarrow>
     now \<ge> we_jiffies_expire wait_param \<or> st = WAIT_TIMEOUT \<or> st = WAIT_WAKEUP \<or> (waitintr \<and> st = WAIT_INTR)"

subsection \<open>The ring\<close>

text \<open>The test by which the library finds an index filled.\<close>

definition ring_at :: "(nat \<Rightarrow> nat \<times> omx_evt) \<Rightarrow> u32 \<Rightarrow> bool" where
  "ring_at s i \<longleftrightarrow> fst (s (event_slot i)) = event_id i"

text \<open>From index \<open>c\<close> on, exactly \<open>n\<close> slots are filled.\<close>

definition ring_ok :: "(nat \<Rightarrow> nat \<times> omx_evt) \<Rightarrow> u32 \<Rightarrow> nat \<Rightarrow> bool" where
  "ring_ok s c n \<longleftrightarrow> n \<le> 1024 \<and> (\<forall>i < 1024. ring_at s (c + word_of_nat i) \<longleftrightarrow> i < n)"

definition pending :: "(nat \<Rightarrow> nat \<times> omx_evt) \<Rightarrow> u32 \<Rightarrow> nat \<Rightarrow> omx_evt list" where
  "pending s c n = map (\<lambda>i. snd (s (event_slot (c + word_of_nat i)))) [0..<n]"

lemma unat_add_nat: "unat (c + word_of_nat i :: u32) = (unat c + i) mod 2 ^ 32"
  by (simp add: unat_word_ariths(1) unat_of_nat mod_simps)

lemma event_slot_add: "event_slot (c + word_of_nat i) = (unat c + i) mod 1024"
proof -
  have "(unat c + i) mod 2 ^ 32 mod 1024 = (unat c + i) mod 1024"
    by (rule mod_mod_cancel) simp
  then show ?thesis by (simp only: event_slot_def OMX_EVENTQ_ENTRY_NR_def unat_add_nat)
qed

lemma add_mod_inj:
  assumes "(u + i) mod m = (u + j) mod m" and "i < m" and "j < (m::nat)"
  shows "i = j"
proof -
  have *: "i = j" if "i \<le> j" "(u + j) mod m = (u + i) mod m" "j < m" for i j
  proof (rule ccontr)
    assume "i \<noteq> j"
    have "u + i \<le> u + j" using that(1) by simp
    then have "m dvd (u + j) - (u + i)" using that(2) by (simp only: mod_eq_dvd_iff_nat)
    then have "m \<le> j - i" using \<open>i \<noteq> j\<close> that(1) by (intro dvd_imp_le) simp_all
    then show False using that(3) by simp
  qed
  show ?thesis using * [of i j] * [of j i] assms by (cases "i \<le> j") simp_all
qed

lemma event_slot_inj:
  assumes "event_slot (c + word_of_nat i) = event_slot (c + word_of_nat j)" and "i < 1024" and "j < 1024"
  shows "i = j"
proof -
  have "(unat c + i) mod 1024 = (unat c + j) mod 1024" using assms(1) by (simp only: event_slot_add)
  then show ?thesis using assms(2,3) by (rule add_mod_inj)
qed

text \<open>
  The ids go to 255 and the slots to 1024, so that an index and the next one of the same slot have
  different ids, also where the index wraps around.
\<close>

lemma event_id_next: "event_id (x + 1024) \<noteq> event_id x"
proof
  assume eq: "event_id (x + 1024) = event_id x"
  have u: "unat x < 2 ^ 32" by (rule order_less_le_trans [OF unsigned_less]) simp
  have w: "unat (x + 1024) = (unat x + 1024) mod 2 ^ 32" using unat_add_nat [of x 1024] by simp
  show False
  proof (cases "unat x + 1024 < 2 ^ 32")
    case True
    then have "(unat x + 1024) mod 255 = unat x mod 255"
      using eq w by (simp add: event_id_def OMX_EVENT_ID_MAX_def)
    then show False using mod_eq_dvd_iff_nat [of "unat x" "unat x + 1024" 255] by simp
  next
    case False
    then have "unat (x + 1024) = unat x + 1024 - 2 ^ 32"
      using u w by (simp add: le_mod_geq)
    then have "(unat x + 1024 - 4294967296) mod 255 = unat x mod 255"
      using eq by (simp add: event_id_def OMX_EVENT_ID_MAX_def)
    then show False
      using False mod_eq_dvd_iff_nat [of "unat x + 1024 - 4294967296" "unat x" 255] u by simp
  qed
qed

lemma ring_store:
  assumes "ring_ok s c n" and "n < 1024"
  shows "ring_ok (store_event (c + word_of_nat n) e s) c (Suc n)"
    and "pending (store_event (c + word_of_nat n) e s) c (Suc n) = pending s c n @ [e]"
proof -
  let ?s = "store_event (c + word_of_nat n) e s"
  have other: "?s (event_slot (c + word_of_nat i)) = s (event_slot (c + word_of_nat i))" if "i < 1024" "i \<noteq> n" for i
    using event_slot_inj [of c i n] that assms(2) by (auto simp: store_event_def)
  have "ring_at ?s (c + word_of_nat i) \<longleftrightarrow> i < Suc n" if "i < 1024" for i
  proof (cases "i = n")
    case True
    then show ?thesis by (simp add: ring_at_def store_event_def)
  next
    case False
    then show ?thesis using assms(1) that other [of i] by (auto simp: ring_ok_def ring_at_def)
  qed
  with assms(2) show "ring_ok ?s c (Suc n)" by (simp add: ring_ok_def)
  have "map (\<lambda>i. snd (?s (event_slot (c + word_of_nat i)))) [0..<n]
      = map (\<lambda>i. snd (s (event_slot (c + word_of_nat i)))) [0..<n]"
    using other assms(2) by auto
  then show "pending ?s c (Suc n) = pending s c n @ [e]"
    by (simp add: pending_def store_event_def)
qed

lemma ring_take:
  assumes "ring_ok s c (Suc n)"
  shows "ring_at s c" and "ring_ok s (c + 1) n"
    and "pending s c (Suc n) = snd (s (event_slot c)) # pending s (c + 1) n"
proof -
  have at: "ring_at s (c + word_of_nat i) \<longleftrightarrow> i < Suc n" if "i < 1024" for i
    using assms that by (simp add: ring_ok_def)
  from at [of 0] show c: "ring_at s c" by simp
  have shift: "c + 1 + word_of_nat i = c + word_of_nat (Suc i)" for i by simp
  have "ring_at s (c + 1 + word_of_nat i) \<longleftrightarrow> i < n" if "i < 1024" for i
  proof (cases "i = 1023")
    case True
    have "c + 1 + word_of_nat i = c + 1024" using True by simp
    moreover have "event_slot (c + 1024) = event_slot c"
      using event_slot_add [of c 1024] event_slot_add [of c 0] by simp
    ultimately have "\<not> ring_at s (c + 1 + word_of_nat i)"
      using c event_id_next [of c] unfolding ring_at_def by metis
    then show ?thesis using True assms by (simp add: ring_ok_def)
  next
    case False
    then show ?thesis using at [of "Suc i"] that unfolding shift by simp
  qed
  with assms show "ring_ok s (c + 1) n" by (simp add: ring_ok_def)
  show "pending s c (Suc n) = snd (s (event_slot c)) # pending s (c + 1) n"
    unfolding pending_def map_upt_Suc shift by simp
qed

lemma ring_stop: "ring_ok s c n \<Longrightarrow> ring_at s c \<longleftrightarrow> 0 < n"
  using spec [of "\<lambda>i. i < 1024 \<longrightarrow> (ring_at s (c + word_of_nat i) \<longleftrightarrow> i < n)" 0] by (simp add: ring_ok_def)

text \<open>
  One turn of the library's loop, on the side of the queue: the event taken, the queue after it
  (with a batch of slots given back to the driver when it is complete) and the next index.
\<close>

definition library_turn ::
  "('q \<Rightarrow> nat \<Rightarrow> nat \<times> omx_evt) \<Rightarrow> ('q \<Rightarrow> errno option \<times> 'q) \<Rightarrow> 'q \<Rightarrow> u32 \<Rightarrow> omx_evt \<times> 'q \<times> u32"
where
  "library_turn slots release q c =
     (snd (slots q (event_slot c)),
      if unat (c + 1) mod OMX_RELEASE_SLOTS_BATCH_NR = 0 then snd (release q) else q, c + 1)"

text \<open>What the library's loop does with the events of the ring, as a recursion over them.\<close>

fun consume ::
  "(omx_evt \<Rightarrow> omx_endpoint \<Rightarrow> omx_endpoint option) \<Rightarrow> ioctl_cmd \<Rightarrow> omx_evt list \<Rightarrow> u32 \<Rightarrow> omx_endpoint
    \<Rightarrow> omx_endpoint option"
where
  "consume process release [] index ep = Some ep"
| "consume process release (e # es) index ep = do {
     ep1 \<leftarrow> process e ep;
     ep2 \<leftarrow> (if unat (index + 1) mod OMX_RELEASE_SLOTS_BATCH_NR = 0
            then (let (err, ep2) = ep_ioctl release ep1 in if err = None then Some ep2 else None)
            else Some ep1);
     consume process release es (index + 1) ep2
   }"

lemma event_loop_consume:
  "ring_ok s c n \<Longrightarrow> n < fuel \<Longrightarrow>
     event_loop process release s fuel c ep
       = map_option (\<lambda>ep'. (c + word_of_nat n, ep')) (consume process release (pending s c n) c ep)"
proof (induction n arbitrary: c fuel ep)
  case 0
  then obtain f where "fuel = Suc f" by (cases fuel) auto
  then show ?case using ring_stop [OF "0.prems"(1)] by (simp add: ring_at_def pending_def)
next
  case (Suc n)
  then obtain f where f: "fuel = Suc f" "n < f" by (cases fuel) auto
  note t = ring_take [OF Suc.prems(1)]
  have at: "fst (s (event_slot c)) = event_id c" using t(1) by (simp add: ring_at_def)
  have idx: "c + 1 + word_of_nat n = c + word_of_nat (Suc n)" by simp
  note IH = Suc.IH [OF t(2) f(2), unfolded idx]
  show ?case
    unfolding f(1) t(3) event_loop.simps consume.simps at simp_thms if_False Let_def
    by (cases "process (snd (s (event_slot c))) ep") (auto simp: IH c_assert_def split_def)
qed

end
