(* ===== verification/Event_Delivery.thy ===== *)
theory Event_Delivery
  imports Driver_Events Sample_Endpoint
begin

text \<open>
  The driver and the library on one event queue: every event the driver reports is delivered once,
  in order; the loop of the library ends and finds every event; and the driver never refuses the
  slots that the library gives back. The interface of the two sides is the locale \<open>event_queue\<close>,
  which both queues of the driver implement.
\<close>

subsection \<open>The interface\<close>

locale event_queue =
  fixes slots :: "'q \<Rightarrow> nat \<Rightarrow> nat \<times> omx_evt"
    and filled :: "'q \<Rightarrow> u32"
    and release :: "'q \<Rightarrow> errno option \<times> 'q"
    and ok :: "'q \<Rightarrow> u32 \<Rightarrow> bool"
  assumes ring: "ok q c \<Longrightarrow> ring_ok (slots q) c (unat (filled q - c))"
    and take_slot: "ok q c \<Longrightarrow> ring_at (slots q) c \<Longrightarrow> unat (c + 1) mod OMX_RELEASE_SLOTS_BATCH_NR \<noteq> 0 \<Longrightarrow> ok q (c + 1)"
    and take_last: "ok q c \<Longrightarrow> ring_at (slots q) c \<Longrightarrow> unat (c + 1) mod OMX_RELEASE_SLOTS_BATCH_NR = 0 \<Longrightarrow>
      \<exists>q'. release q = (None, q') \<and> ok q' (c + 1) \<and> slots q' = slots q \<and> filled q' = filled q"
begin

lemma waiting_Suc: "ok q c \<Longrightarrow> ring_at (slots q) c \<Longrightarrow>
    unat (filled q - c) = Suc (unat (filled q - (c + 1)))"
  using ring_stop [OF ring, of q c] unat_minus_one [of "filled q - c"]
  by (auto simp: algebra_simps unat_gt_0)

lemma turn_step:
  assumes "ok q c" and "ring_at (slots q) c" and "library_turn slots release q c = (e, q', c')"
  shows "ok q' c'" and "filled q' = filled q"
    and "pending (slots q) c (unat (filled q - c)) = e # pending (slots q') c' (unat (filled q' - c'))"
    and "unat c' mod OMX_RELEASE_SLOTS_BATCH_NR = 0 \<Longrightarrow> fst (release q) = None"
proof -
  have s: "slots q' = slots q" and o: "ok q' c'" and f: "filled q' = filled q"
    and c': "c' = c + 1" and e: "e = snd (slots q (event_slot c))"
    and r: "unat c' mod OMX_RELEASE_SLOTS_BATCH_NR = 0 \<Longrightarrow> fst (release q) = None"
    using assms take_slot [OF assms(1,2)] take_last [OF assms(1,2)]
    by (auto simp: library_turn_def split: if_splits)
  show "ok q' c'" "filled q' = filled q" by (fact o, fact f)
  show "unat c' mod OMX_RELEASE_SLOTS_BATCH_NR = 0 \<Longrightarrow> fst (release q) = None" by (fact r)
  have "ring_ok (slots q) c (Suc (unat (filled q - (c + 1))))"
    using ring [OF assms(1)] waiting_Suc [OF assms(1,2)] by simp
  from ring_take(3) [OF this] show "pending (slots q) c (unat (filled q - c)) = e # pending (slots q') c' (unat (filled q' - c'))"
    by (simp only: waiting_Suc [OF assms(1,2)] s f e c')
qed

lemma loop_delivers:
  assumes "ok q c"
  shows "event_loop process cmd (slots q) (OMX_EVENTQ_ENTRY_NR + 1) c ep
    = map_option (\<lambda>ep'. (filled q, ep'))
        (consume process cmd (pending (slots q) c (unat (filled q - c))) c ep)"
proof -
  have "unat (filled q - c) < OMX_EVENTQ_ENTRY_NR + 1"
    using ring [OF assms] by (simp add: ring_ok_def OMX_EVENTQ_ENTRY_NR_def)
  from event_loop_consume [OF ring [OF assms] this] show ?thesis by simp
qed

end

subsection \<open>The expected queue\<close>

text \<open>
  \<open>c\<close> is the next index of the library: the filled slots from there on and the ones it has taken
  and not given back yet fit in the ring.
\<close>

definition exp_ok :: "exp_queue \<Rightarrow> u32 \<Rightarrow> bool" where
  "exp_ok q c \<longleftrightarrow>
     (\<exists>n. nextfree_exp q = c + word_of_nat n \<and> nextreleased_exp q = c - word_of_nat (unat c mod 256)
        \<and> unat c mod 256 + n \<le> 1024 \<and> ring_ok (exp_slots q) c n)"

definition unexp_ok :: "unexp_queue \<Rightarrow> u32 \<Rightarrow> bool" where
  "unexp_ok q c \<longleftrightarrow>
     (\<exists>n k. nextreserved_unexp q = c + word_of_nat n \<and> nextfree_unexp q = c + word_of_nat n + word_of_nat k
        \<and> nextreleased_unexp q = c - word_of_nat (unat c mod 256)
        \<and> unat c mod 256 + n + k \<le> 1024 \<and> ring_ok (unexp_slots q) c n)"

lemma unexp_okI:
  "nextreserved_unexp q = c + word_of_nat n \<Longrightarrow> nextfree_unexp q = c + word_of_nat n + word_of_nat k \<Longrightarrow>
   nextreleased_unexp q = c - word_of_nat (unat c mod 256) \<Longrightarrow> unat c mod 256 + n + k \<le> 1024 \<Longrightarrow>
   ring_ok (unexp_slots q) c n \<Longrightarrow> unexp_ok q c"
  unfolding unexp_ok_def by blast

lemma unat_small: "n < 2 ^ 32 \<Longrightarrow> unat (word_of_nat n :: u32) = n"
  by (simp add: unat_of_nat)

lemma batch_256: "OMX_RELEASE_SLOTS_BATCH_NR = 256"
  by (simp add: OMX_RELEASE_SLOTS_BATCH_NR_def OMX_EVENTQ_ENTRY_NR_def)

lemma next_mod_256: "unat (c + 1 :: u32) mod 256 = (unat c + 1) mod 256"
proof -
  have "(unat c + 1) mod 2 ^ 32 mod 256 = (unat c + 1) mod 256" by (rule mod_mod_cancel) simp
  then show ?thesis using unat_add_nat [of c 1] by simp
qed

lemma next_in_batch: "unat (c + 1 :: u32) mod 256 \<noteq> 0 \<Longrightarrow> unat (c + 1) mod 256 = Suc (unat c mod 256)"
  unfolding next_mod_256 by (simp add: mod_Suc split: if_splits)

lemma batch_end: "unat (c + 1 :: u32) mod 256 = 0 \<Longrightarrow> unat c mod 256 = 255"
  unfolding next_mod_256 by (simp add: mod_Suc split: if_splits)

lemma ring_some: "ring_ok s c n \<Longrightarrow> ring_at s c \<Longrightarrow> \<exists>n'. n = Suc n' \<and> ring_ok s (c + 1) n'"
  using ring_stop [of s c n] ring_take(2) [of s c "n - 1"] by (cases n) auto

lemma exp_ok_take:
  assumes "exp_ok q c" and "ring_at (exp_slots q) c"
  obtains n where "nextfree_exp q = c + 1 + word_of_nat n"
    and "nextreleased_exp q = c - word_of_nat (unat c mod 256)" and "unat c mod 256 + Suc n \<le> 1024"
    and "ring_ok (exp_slots q) (c + 1) n"
proof -
  from assms(1) obtain m where m: "nextfree_exp q = c + word_of_nat m"
    "nextreleased_exp q = c - word_of_nat (unat c mod 256)" "unat c mod 256 + m \<le> 1024"
    "ring_ok (exp_slots q) c m" unfolding exp_ok_def by blast
  from ring_some [OF m(4) assms(2)] obtain n where "m = Suc n" "ring_ok (exp_slots q) (c + 1) n" by blast
  with m show ?thesis by (intro that [of n]) simp_all
qed

lemma unexp_ok_take:
  assumes "unexp_ok q c" and "ring_at (unexp_slots q) c"
  obtains n k where "nextreserved_unexp q = c + 1 + word_of_nat n"
    and "nextfree_unexp q = c + 1 + word_of_nat n + word_of_nat k"
    and "nextreleased_unexp q = c - word_of_nat (unat c mod 256)" and "unat c mod 256 + Suc n + k \<le> 1024"
    and "ring_ok (unexp_slots q) (c + 1) n"
proof -
  from assms(1) obtain m k where m: "nextreserved_unexp q = c + word_of_nat m"
    "nextfree_unexp q = c + word_of_nat m + word_of_nat k"
    "nextreleased_unexp q = c - word_of_nat (unat c mod 256)" "unat c mod 256 + m + k \<le> 1024"
    "ring_ok (unexp_slots q) c m" unfolding unexp_ok_def by blast
  from ring_some [OF m(5) assms(2)] obtain n where "m = Suc n" "ring_ok (unexp_slots q) (c + 1) n" by blast
  with m show ?thesis by (intro that [of n k]) simp_all
qed

interpretation expq: event_queue exp_slots nextfree_exp omx_ioctl_release_exp_slots exp_ok
proof
  fix q c
  assume "exp_ok q c"
  then show "ring_ok (exp_slots q) c (unat (nextfree_exp q - c))"
    by (auto simp: exp_ok_def unat_small)
next
  fix q c
  assume "exp_ok q c" "ring_at (exp_slots q) c" and b: "unat (c + 1) mod OMX_RELEASE_SLOTS_BATCH_NR \<noteq> 0"
  then obtain n where n: "nextfree_exp q = c + 1 + word_of_nat n"
    "nextreleased_exp q = c - word_of_nat (unat c mod 256)" "unat c mod 256 + Suc n \<le> 1024"
    "ring_ok (exp_slots q) (c + 1) n"
    using exp_ok_take by blast
  have "unat (c + 1) mod 256 = Suc (unat c mod 256)" using b by (intro next_in_batch) (simp add: batch_256)
  with n show "exp_ok q (c + 1)" unfolding exp_ok_def by (intro exI [of _ n]) simp
next
  fix q c
  assume "exp_ok q c" "ring_at (exp_slots q) c" and b: "unat (c + 1) mod OMX_RELEASE_SLOTS_BATCH_NR = 0"
  then obtain n where "nextfree_exp q = c + 1 + word_of_nat n"
    "nextreleased_exp q = c - word_of_nat (unat c mod 256)" "unat c mod 256 + Suc n \<le> 1024"
    "ring_ok (exp_slots q) (c + 1) n"
    using exp_ok_take by blast
  moreover have "unat c mod 256 = 255" using b by (intro batch_end) (simp add: batch_256)
  ultimately have n: "nextfree_exp q = c + 1 + word_of_nat n" "nextreleased_exp q = c - 255"
    "255 + Suc n \<le> 1024" "ring_ok (exp_slots q) (c + 1) n"
    by simp_all
  have "nextfree_exp q - nextreleased_exp q = word_of_nat (256 + n)" by (simp add: n)
  then have "unat (nextfree_exp q - nextreleased_exp q) = 256 + n" using n(3) by (simp add: unat_small del: of_nat_add)
  then show "\<exists>q'. omx_ioctl_release_exp_slots q = (None, q') \<and> exp_ok q' (c + 1)
      \<and> exp_slots q' = exp_slots q \<and> nextfree_exp q' = nextfree_exp q"
    using n b by (auto simp: omx_ioctl_release_exp_slots_def batch_256 exp_ok_def intro!: exI [of _ n])
qed

interpretation unexpq: event_queue unexp_slots nextreserved_unexp omx_ioctl_release_unexp_slots unexp_ok
proof
  fix q c
  assume "unexp_ok q c"
  then show "ring_ok (unexp_slots q) c (unat (nextreserved_unexp q - c))"
    by (auto simp: unexp_ok_def unat_small)
next
  fix q c
  assume "unexp_ok q c" "ring_at (unexp_slots q) c" and b: "unat (c + 1) mod OMX_RELEASE_SLOTS_BATCH_NR \<noteq> 0"
  then obtain n k where n: "nextreserved_unexp q = c + 1 + word_of_nat n"
    "nextfree_unexp q = c + 1 + word_of_nat n + word_of_nat k"
    "nextreleased_unexp q = c - word_of_nat (unat c mod 256)" "unat c mod 256 + Suc n + k \<le> 1024"
    "ring_ok (unexp_slots q) (c + 1) n"
    using unexp_ok_take by blast
  have "unat (c + 1) mod 256 = Suc (unat c mod 256)" using b by (intro next_in_batch) (simp add: batch_256)
  with n show "unexp_ok q (c + 1)" unfolding unexp_ok_def by (intro exI [of _ n] exI [of _ k]) simp
next
  fix q c
  assume "unexp_ok q c" "ring_at (unexp_slots q) c" and b: "unat (c + 1) mod OMX_RELEASE_SLOTS_BATCH_NR = 0"
  then obtain n k where "nextreserved_unexp q = c + 1 + word_of_nat n"
    "nextfree_unexp q = c + 1 + word_of_nat n + word_of_nat k"
    "nextreleased_unexp q = c - word_of_nat (unat c mod 256)" "unat c mod 256 + Suc n + k \<le> 1024"
    "ring_ok (unexp_slots q) (c + 1) n"
    using unexp_ok_take by blast
  moreover have "unat c mod 256 = 255" using b by (intro batch_end) (simp add: batch_256)
  ultimately have n: "nextreserved_unexp q = c + 1 + word_of_nat n"
    "nextfree_unexp q = c + 1 + word_of_nat n + word_of_nat k" "nextreleased_unexp q = c - 255"
    "255 + Suc n + k \<le> 1024" "ring_ok (unexp_slots q) (c + 1) n"
    by simp_all
  have "nextreserved_unexp q - nextreleased_unexp q = word_of_nat (256 + n)" by (simp add: n)
  then have "unat (nextreserved_unexp q - nextreleased_unexp q) = 256 + n" using n(4) by (simp add: unat_small del: of_nat_add)
  then show "\<exists>q'. omx_ioctl_release_unexp_slots q = (None, q') \<and> unexp_ok q' (c + 1)
      \<and> unexp_slots q' = unexp_slots q \<and> nextreserved_unexp q' = nextreserved_unexp q"
    using n b by (auto simp: omx_ioctl_release_unexp_slots_def batch_256 intro!: unexp_okI [of _ _ n k])
qed

subsection \<open>The driver's side\<close>

text \<open>The events reported and not taken yet.\<close>

definition exp_pending :: "exp_queue \<Rightarrow> u32 \<Rightarrow> omx_evt list" where
  "exp_pending q c = pending (exp_slots q) c (unat (nextfree_exp q - c))"

definition unexp_pending :: "unexp_queue \<Rightarrow> u32 \<Rightarrow> omx_evt list" where
  "unexp_pending q c = pending (unexp_slots q) c (unat (nextreserved_unexp q - c))"

lemma exp_init_ok: "exp_ok exp_queue_init 0" "exp_pending exp_queue_init 0 = []"
  by (simp_all add: exp_ok_def exp_queue_init_def ring_ok_def ring_at_def event_id_def exp_pending_def pending_def
      exI [of _ 0])

lemma unexp_init_ok: "unexp_ok unexp_queue_init 0" "unexp_pending unexp_queue_init 0 = []"
  by (auto simp: unexp_ok_def unexp_queue_init_def ring_ok_def ring_at_def event_id_def unexp_pending_def pending_def
      intro!: exI [of _ 0])

lemma notify_exp_ok:
  assumes "exp_ok q c" and "omx_notify_exp_event e q = (r, q')"
  shows "exp_ok q' c"
    and "exp_pending q' c = exp_pending q c @ (if r = None then [e] else [])"
    and "r = (if length (exp_pending q c) + unat c mod 256 < 1024 then None else Some EBUSY)"
proof -
  from assms(1) obtain n where n: "nextfree_exp q = c + word_of_nat n"
    "nextreleased_exp q = c - word_of_nat (unat c mod 256)" "unat c mod 256 + n \<le> 1024"
    "ring_ok (exp_slots q) c n"
    by (auto simp: exp_ok_def)
  have len: "length (exp_pending q c) = n" using n(1,3) by (simp add: exp_pending_def pending_def unat_small)
  have far: "exp_too_far (snd (exp_take q)) \<longleftrightarrow> \<not> unat c mod 256 + n < 1024"
  proof -
    have "nextfree_exp (snd (exp_take q)) - nextreleased_exp (snd (exp_take q))
        = word_of_nat (Suc (unat c mod 256 + n))"
      by (simp add: exp_take_def n)
    then have "unat (nextfree_exp (snd (exp_take q)) - nextreleased_exp (snd (exp_take q)))
        = Suc (unat c mod 256 + n)" using n(3) by (simp add: unat_small del: of_nat_Suc)
    then show ?thesis by (simp add: exp_too_far_def OMX_EVENTQ_ENTRY_NR_def not_less less_Suc_eq_le)
  qed
  show r: "r = (if length (exp_pending q c) + unat c mod 256 < 1024 then None else Some EBUSY)"
    using assms(2) far len by (auto simp: omx_notify_exp_event_def split_def Let_def add.commute split: if_splits)
  show "exp_ok q' c" "exp_pending q' c = exp_pending q c @ (if r = None then [e] else [])"
  proof -
    consider (full) "exp_too_far (snd (exp_take q))" "q' = q" "r = Some EBUSY"
      | (room) "\<not> exp_too_far (snd (exp_take q))" "r = None"
        "q' = q\<lparr>nextfree_exp := nextfree_exp q + 1, exp_slots := store_event (nextfree_exp q) e (exp_slots q)\<rparr>"
      using assms(2)
      by (auto simp: omx_notify_exp_event_def exp_take_def exp_rollback_def exp_fill_def split: if_splits)
    then have "exp_ok q' c \<and> exp_pending q' c = exp_pending q c @ (if r = None then [e] else [])"
    proof cases
      case full
      then show ?thesis using assms(1) by simp
    next
      case room
      then have "n < 1024" using far by simp
      from ring_store [OF n(4) this] have st: "ring_ok (exp_slots q') c (Suc n)"
        "pending (exp_slots q') c (Suc n) = pending (exp_slots q) c n @ [e]"
        by (simp_all add: room(3) n(1))
      have "nextfree_exp q' = c + word_of_nat (Suc n)" by (simp add: room(3) n(1))
      moreover have "nextreleased_exp q' = nextreleased_exp q" by (simp add: room(3))
      ultimately show ?thesis
        using st n room(1,2) far
        by (auto simp: exp_ok_def exp_pending_def unat_small simp del: of_nat_Suc intro!: exI [of _ "Suc n"])
    qed
    then show "exp_ok q' c" "exp_pending q' c = exp_pending q c @ (if r = None then [e] else [])" by auto
  qed
qed

lemma unexp_far:
  assumes "nextfree_unexp q' - nextreleased_unexp q' = word_of_nat m" and "m \<le> 4096"
  shows "unexp_too_far q' \<longleftrightarrow> 1024 < m"
  using assms by (simp add: unexp_too_far_def OMX_EVENTQ_ENTRY_NR_def unat_small)

lemma unexp_store:
  assumes "nextreserved_unexp q = c + word_of_nat n" "nextfree_unexp q' = c + word_of_nat n + 1 + word_of_nat k"
    and "nextreleased_unexp q' = c - word_of_nat (unat c mod 256)" and "unat c mod 256 + Suc n + k \<le> 1024"
    and "ring_ok (unexp_slots q) c n" and "nextreserved_unexp q' = nextreserved_unexp q + 1"
    and "unexp_slots q' = store_event (nextreserved_unexp q) e (unexp_slots q)"
  shows "unexp_ok q' c" and "unexp_pending q' c = unexp_pending q c @ [e]"
proof -
  have "n < 1024" using assms(4) by simp
  from ring_store [OF assms(5) this] have st: "ring_ok (unexp_slots q') c (Suc n)"
    "pending (unexp_slots q') c (Suc n) = pending (unexp_slots q) c n @ [e]"
    by (simp_all add: assms(1,7))
  show "unexp_ok q' c"
    by (rule unexp_okI [of _ _ "Suc n" k]) (use assms st in simp_all)
  have "nextreserved_unexp q' - c = word_of_nat (Suc n)" by (simp add: assms(1,6))
  then have "unat (nextreserved_unexp q' - c) = Suc n" using \<open>n < 1024\<close> by (simp add: unat_small del: of_nat_Suc)
  then show "unexp_pending q' c = unexp_pending q c @ [e]"
    using st(2) \<open>n < 1024\<close> by (simp add: unexp_pending_def assms(1) unat_small)
qed

lemma notify_unexp_ok:
  assumes "unexp_ok q c" and "omx_notify_unexp_event e q = (r, q')"
  shows "unexp_ok q' c \<and> unexp_pending q' c = unexp_pending q c @ (if r = None then [e] else [])
    \<and> next_recvq q' = next_recvq q \<and> nextfree_unexp q' - nextreserved_unexp q' = nextfree_unexp q - nextreserved_unexp q"
proof -
  from assms(1) obtain n k where n: "nextreserved_unexp q = c + word_of_nat n"
    "nextfree_unexp q = c + word_of_nat n + word_of_nat k"
    "nextreleased_unexp q = c - word_of_nat (unat c mod 256)" "unat c mod 256 + n + k \<le> 1024"
    "ring_ok (unexp_slots q) c n" unfolding unexp_ok_def by blast
  let ?q1 = "q\<lparr>nextfree_unexp := nextfree_unexp q + 1, nextreserved_unexp := nextreserved_unexp q + 1\<rparr>"
  have "nextfree_unexp ?q1 - nextreleased_unexp ?q1 = word_of_nat (Suc (unat c mod 256 + n + k))"
    by (simp add: n)
  then have far: "unexp_too_far ?q1 \<longleftrightarrow> unat c mod 256 + n + k = 1024"
    using n(4) by (subst unexp_far [of ?q1 "Suc (unat c mod 256 + n + k)"]) auto
  show ?thesis
  proof (cases "unexp_too_far ?q1")
    case True
    then have "r = Some EBUSY" "q' = q"
      using assms(2) by (auto simp: omx_notify_unexp_event_def Let_def)
    then show ?thesis using assms(1) by simp
  next
    case False
    then have r: "r = None" "q' = ?q1\<lparr>unexp_slots := store_event (nextreserved_unexp q) e (unexp_slots q)\<rparr>"
      using assms(2) by (auto simp: omx_notify_unexp_event_def Let_def)
    have "unexp_ok q' c" "unexp_pending q' c = unexp_pending q c @ [e]"
      by (rule unexp_store [of q c n q' k]; use n r False far in simp)+
    then show ?thesis by (simp add: r)
  qed
qed

lemma prepare_ok:
  assumes "unexp_ok q c" and "omx_prepare_notify_unexp_events_with_recvq sh nr q = (r, q')" and "nr \<le> 1024"
  shows "unexp_ok q' c \<and> unexp_pending q' c = unexp_pending q c"
proof -
  from assms(1) obtain n k where n: "nextreserved_unexp q = c + word_of_nat n"
    "nextfree_unexp q = c + word_of_nat n + word_of_nat k"
    "nextreleased_unexp q = c - word_of_nat (unat c mod 256)" "unat c mod 256 + n + k \<le> 1024"
    "ring_ok (unexp_slots q) c n" unfolding unexp_ok_def by blast
  let ?q1 = "q\<lparr>nextfree_unexp := nextfree_unexp q + word_of_nat nr, next_recvq := next_recvq q + word_of_nat nr\<rparr>"
  have "nextfree_unexp ?q1 - nextreleased_unexp ?q1 = word_of_nat (unat c mod 256 + n + k + nr)"
    by (simp add: n)
  then have far: "unexp_too_far ?q1 \<longleftrightarrow> 1024 < unat c mod 256 + n + k + nr"
    using n(4) assms(3) by (intro unexp_far) auto
  show ?thesis
  proof (cases "unexp_too_far ?q1")
    case True
    then have "q' = q" using assms(2)
      by (auto simp: omx_prepare_notify_unexp_events_with_recvq_def Let_def)
    then show ?thesis using assms(1) by simp
  next
    case False
    then have "q' = ?q1" using assms(2)
      by (auto simp: omx_prepare_notify_unexp_events_with_recvq_def Let_def)
    moreover have "unexp_ok ?q1 c"
      by (rule unexp_okI [of _ _ n "k + nr"]) (use n False far in simp_all)
    ultimately show ?thesis by (simp add: unexp_pending_def)
  qed
qed

lemma prepare_one:
  "omx_prepare_notify_unexp_event_with_recvq sh q
    = (case omx_prepare_notify_unexp_events_with_recvq sh 1 q of (r, q') \<Rightarrow> (map_sum id hd r, q'))"
  by (simp add: omx_prepare_notify_unexp_event_with_recvq_def omx_prepare_notify_unexp_events_with_recvq_def Let_def)

lemma commit_ok:
  assumes "unexp_ok q c" and "omx_commit_notify_unexp_event_with_recvq e q = Some q'"
  shows "unexp_ok q' c \<and> unexp_pending q' c = unexp_pending q c @ [e]"
proof -
  from assms(1) obtain n k where n: "nextreserved_unexp q = c + word_of_nat n"
    "nextfree_unexp q = c + word_of_nat n + word_of_nat k"
    "nextreleased_unexp q = c - word_of_nat (unat c mod 256)" "unat c mod 256 + n + k \<le> 1024"
    "ring_ok (unexp_slots q) c n" unfolding unexp_ok_def by blast
  from assms(2) have room: "nextreserved_unexp q - nextreleased_unexp q < nextfree_unexp q - nextreleased_unexp q"
    and q': "q' = q\<lparr>nextreserved_unexp := nextreserved_unexp q + 1, unexp_slots := store_event (nextreserved_unexp q) e (unexp_slots q)\<rparr>"
    by (auto simp: omx_commit_notify_unexp_event_with_recvq_def not_le bind_eq_Some_conv Let_def)
  have "k \<noteq> 0"
  proof
    assume "k = 0"
    then have "nextfree_unexp q = nextreserved_unexp q" using n(1,2) by simp
    with room show False by simp
  qed
  then obtain k' where k': "k = Suc k'" by (cases k) auto
  have "unexp_ok q' c" "unexp_pending q' c = unexp_pending q c @ [e]"
    by (rule unexp_store [of q c n q' k']; use n q' k' in simp)+
  then show ?thesis by simp
qed

lemma cancel_commit: "omx_cancel_notify_unexp_event_with_recvq q = omx_commit_notify_unexp_event_with_recvq EVT_IGNORE q"
  by (simp add: omx_cancel_notify_unexp_event_with_recvq_def omx_commit_notify_unexp_event_with_recvq_def)

subsection \<open>Runs\<close>

text \<open>
  A run of the driver and the library on the expected queue: the queue, the next index of the
  library, the events the driver reported with success, and the events the library took.
\<close>

inductive exp_run :: "exp_queue \<Rightarrow> u32 \<Rightarrow> omx_evt list \<Rightarrow> omx_evt list \<Rightarrow> bool" where
  exp_start: "exp_run exp_queue_init 0 [] []"
| exp_notify: "exp_run q c reported taken \<Longrightarrow> omx_notify_exp_event e q = (r, q') \<Longrightarrow>
    exp_run q' c (reported @ (if r = None then [e] else [])) taken"
| exp_turn: "exp_run q c reported taken \<Longrightarrow> ring_at (exp_slots q) c \<Longrightarrow>
    library_turn exp_slots omx_ioctl_release_exp_slots q c = (e, q', c') \<Longrightarrow> exp_run q' c' reported (taken @ [e])"

lemma exp_run_inv: "exp_run q c reported taken \<Longrightarrow> exp_ok q c \<and> reported = taken @ exp_pending q c"
proof (induction rule: exp_run.induct)
  case exp_start
  then show ?case by (simp add: exp_init_ok)
next
  case (exp_notify q c reported taken e r q')
  then show ?case using notify_exp_ok(1,2) [OF _ exp_notify.hyps(2)] by simp
next
  case (exp_turn q c reported taken e q' c')
  then have "exp_ok q c" by simp
  from expq.turn_step(1,3) [OF this exp_turn.hyps(2,3)] exp_turn.IH
  show ?case by (simp add: exp_pending_def)
qed

text \<open>
  On the unexpected queue the driver may also reserve slots, one or several at a time, and
  fill or cancel a reservation later, in any order. \<open>held\<close> has the receive-queue offsets handed out
  for the reservations that are still open.
\<close>

inductive unexp_run :: "nat \<Rightarrow> unexp_queue \<Rightarrow> u32 \<Rightarrow> omx_evt list \<Rightarrow> omx_evt list \<Rightarrow> nat list \<Rightarrow> bool" for sh where
  unexp_start: "unexp_run sh unexp_queue_init 0 [] [] []"
| unexp_notify: "unexp_run sh q c reported taken held \<Longrightarrow> omx_notify_unexp_event e q = (r, q') \<Longrightarrow>
    unexp_run sh q' c (reported @ (if r = None then [e] else [])) taken held"
| unexp_prepare: "unexp_run sh q c reported taken held \<Longrightarrow>
    omx_prepare_notify_unexp_event_with_recvq sh q = (r, q') \<Longrightarrow>
    unexp_run sh q' c reported taken (held @ (case r of Inl _ \<Rightarrow> [] | Inr offset \<Rightarrow> [offset]))"
| unexp_prepares: "unexp_run sh q c reported taken held \<Longrightarrow>
    omx_prepare_notify_unexp_events_with_recvq sh nr q = (r, q') \<Longrightarrow> nr \<le> 1024 \<Longrightarrow>
    unexp_run sh q' c reported taken (held @ (case r of Inl _ \<Rightarrow> [] | Inr offsets \<Rightarrow> offsets))"
| unexp_commit: "unexp_run sh q c reported taken held \<Longrightarrow> offset \<in> set held \<Longrightarrow>
    omx_commit_notify_unexp_event_with_recvq e q = Some q' \<Longrightarrow>
    unexp_run sh q' c (reported @ [e]) taken (remove1 offset held)"
| unexp_cancel: "unexp_run sh q c reported taken held \<Longrightarrow> offset \<in> set held \<Longrightarrow>
    omx_cancel_notify_unexp_event_with_recvq q = Some q' \<Longrightarrow>
    unexp_run sh q' c (reported @ [EVT_IGNORE]) taken (remove1 offset held)"
| unexp_turn: "unexp_run sh q c reported taken held \<Longrightarrow> ring_at (unexp_slots q) c \<Longrightarrow>
    library_turn unexp_slots omx_ioctl_release_unexp_slots q c = (e, q', c') \<Longrightarrow>
    unexp_run sh q' c' reported (taken @ [e]) held"

lemma unexp_run_inv:
  "unexp_run sh q c reported taken held \<Longrightarrow> unexp_ok q c \<and> reported = taken @ unexp_pending q c"
proof (induction rule: unexp_run.induct)
  case unexp_start
  then show ?case by (simp add: unexp_init_ok)
next
  case (unexp_notify q c reported taken held e r q')
  then show ?case using notify_unexp_ok [OF _ unexp_notify.hyps(2)] by simp
next
  case (unexp_prepare q c reported taken held r q')
  then obtain r' where "omx_prepare_notify_unexp_events_with_recvq sh 1 q = (r', q')"
    by (auto simp: prepare_one split: prod.splits)
  from prepare_ok [OF _ this] unexp_prepare.IH show ?case by simp
next
  case (unexp_prepares q c reported taken held nr r q')
  then show ?case using prepare_ok [OF _ unexp_prepares.hyps(2)] by simp
next
  case (unexp_commit q c reported taken held offset e q')
  then show ?case using commit_ok [OF _ unexp_commit.hyps(3)] by simp
next
  case (unexp_cancel q c reported taken held offset q')
  then show ?case using commit_ok [of q c EVT_IGNORE q'] by (simp add: cancel_commit)
next
  case (unexp_turn q c reported taken held e q' c')
  then have "unexp_ok q c" by simp
  from unexpq.turn_step(1,3) [OF this unexp_turn.hyps(2,3)] unexp_turn.IH
  show ?case by (simp add: unexp_pending_def)
qed

text \<open>Each open reservation of the run is one of the queue.\<close>

lemma prepares_room:
  assumes "unexp_ok q c" and "omx_prepare_notify_unexp_events_with_recvq sh nr q = (r, q')" and "nr \<le> 1024"
    and "nextfree_unexp q - nextreserved_unexp q = word_of_nat h"
  shows "nextfree_unexp q' - nextreserved_unexp q'
    = word_of_nat (h + length (case r of Inl _ \<Rightarrow> [] | Inr offsets \<Rightarrow> offsets))"
  using assms by (auto simp: omx_prepare_notify_unexp_events_with_recvq_def Let_def algebra_simps split: if_splits)

lemma unexp_run_held:
  "unexp_run sh q c reported taken held \<Longrightarrow> nextfree_unexp q - nextreserved_unexp q = word_of_nat (length held)"
proof (induction rule: unexp_run.induct)
  case unexp_start
  then show ?case by (simp add: unexp_queue_init_def)
next
  case (unexp_notify q c reported taken held e r q')
  then show ?case using notify_unexp_ok [OF conjunct1 [OF unexp_run_inv [OF unexp_notify.hyps(1)]] unexp_notify.hyps(2)]
    by simp
next
  case (unexp_prepare q c reported taken held r q')
  then show ?case
    by (auto simp: omx_prepare_notify_unexp_event_with_recvq_def Let_def algebra_simps split: if_splits)
next
  case (unexp_prepares q c reported taken held nr r q')
  then show ?case
    using prepares_room [OF conjunct1 [OF unexp_run_inv [OF unexp_prepares.hyps(1)]] unexp_prepares.hyps(2,3)] by simp
next
  case (unexp_commit q c reported taken held offset e q')
  then have "length held = Suc (length (remove1 offset held))"
    by (simp add: length_remove1) (metis Suc_pred length_pos_if_in_set)
  then show ?case using unexp_commit
    by (auto simp: omx_commit_notify_unexp_event_with_recvq_def bind_eq_Some_conv Let_def algebra_simps
        simp del: length_remove1)
next
  case (unexp_cancel q c reported taken held offset q')
  then have "length held = Suc (length (remove1 offset held))"
    by (simp add: length_remove1) (metis Suc_pred length_pos_if_in_set)
  then show ?case using unexp_cancel
    by (auto simp: omx_cancel_notify_unexp_event_with_recvq_def bind_eq_Some_conv Let_def algebra_simps
        simp del: length_remove1)
next
  case (unexp_turn q c reported taken held e q' c')
  then show ?case
    by (auto simp: library_turn_def omx_ioctl_release_unexp_slots_def split: if_splits)
qed

subsection \<open>The properties\<close>

text \<open>
  C10: on the expected queue, in every run of notifications and turns of the library, the events
  reported are the events the library took followed by the ones it still finds in the ring; a
  notification is refused exactly when the ring has no slot left that was given back; the library
  finds a slot filled exactly when an event waits; and the driver never refuses slots back.
\<close>

theorem exp_events_delivered:
  assumes "exp_run q c reported taken"
  shows "reported = taken @ exp_pending q c
    \<and> fst (omx_notify_exp_event e q)
      = (if length (exp_pending q c) + unat c mod 256 < 1024 then None else Some EBUSY)
    \<and> (ring_at (exp_slots q) c \<longleftrightarrow> exp_pending q c \<noteq> [])
    \<and> (ring_at (exp_slots q) c \<and> unat (c + 1) mod OMX_RELEASE_SLOTS_BATCH_NR = 0 \<longrightarrow>
        fst (omx_ioctl_release_exp_slots q) = None)"
proof -
  have ok: "exp_ok q c" and r: "reported = taken @ exp_pending q c" using exp_run_inv [OF assms] by auto
  have "fst (omx_notify_exp_event e q) = (if length (exp_pending q c) + unat c mod 256 < 1024 then None else Some EBUSY)"
    using notify_exp_ok(3) [OF ok, of e] by (metis prod.collapse)
  moreover have "ring_at (exp_slots q) c \<longleftrightarrow> exp_pending q c \<noteq> []"
    using ring_stop [OF expq.ring [OF ok]] by (simp add: exp_pending_def pending_def)
  moreover have "fst (omx_ioctl_release_exp_slots q) = None"
    if "ring_at (exp_slots q) c" "unat (c + 1) mod OMX_RELEASE_SLOTS_BATCH_NR = 0"
    using expq.take_last [OF ok that] by auto
  ultimately show ?thesis using r by auto
qed

text \<open>
  C11: the library's loop over the expected queue, in every state of such a run, ends within its
  bound of \<open>OMX_EVENTQ_ENTRY_NR + 1\<close> turns, with the next index at the driver's free index, after
  processing exactly the events reported and not taken yet, each once, in the order of the reports.
\<close>

theorem exp_loop_delivers:
  assumes "exp_run q c reported taken"
  shows "event_loop process cmd (exp_slots q) (OMX_EVENTQ_ENTRY_NR + 1) c ep
    = map_option (\<lambda>ep'. (nextfree_exp q, ep')) (consume process cmd (drop (length taken) reported) c ep)"
proof -
  have ok: "exp_ok q c" and r: "reported = taken @ exp_pending q c" using exp_run_inv [OF assms] by auto
  show ?thesis using expq.loop_delivers [OF ok, of process cmd ep] by (simp add: r exp_pending_def)
qed


text \<open>A later reservation that is filled, taken and given back while the first one stays open.\<close>

lemma recvq_step:
  assumes run: "unexp_run sh q c reported taken [0]" and f: "nextfree_unexp q = nextreserved_unexp q + 1"
    and c: "nextreserved_unexp q = c"
  shows "\<exists>q' reported' taken'. unexp_run sh q' (c + 1) reported' taken' [0]
     \<and> next_recvq q' = next_recvq q + 1 \<and> nextreserved_unexp q' = c + 1 \<and> nextfree_unexp q' = c + 2"
proof -
  let ?o = "recvq_offset sh (next_recvq q)" and ?m = "unat c mod 256"
  let ?q1 = "q\<lparr>nextfree_unexp := nextfree_unexp q + 1, next_recvq := next_recvq q + 1\<rparr>"
  let ?q2 = "?q1\<lparr>nextreserved_unexp := c + 1, unexp_slots := store_event c EVT_IGNORE (unexp_slots q)\<rparr>"
  from unexp_run_inv [OF run] have rel: "nextreleased_unexp q = c - word_of_nat ?m" by (auto simp: unexp_ok_def)
  have m: "?m < 256" by simp
  have "nextfree_unexp ?q1 - nextreleased_unexp ?q1 = word_of_nat (?m + 2)" by (simp add: f c rel)
  then have "\<not> unexp_too_far ?q1" using m by (subst unexp_far [of ?q1 "?m + 2"]) auto
  then have p: "omx_prepare_notify_unexp_event_with_recvq sh q = (Inr ?o, ?q1)"
    by (simp add: omx_prepare_notify_unexp_event_with_recvq_def Let_def)
  from unexp_prepare [OF run p] have r1: "unexp_run sh ?q1 c reported taken [0, ?o]" by simp
  have "nextreserved_unexp ?q1 - nextreleased_unexp ?q1 = word_of_nat ?m"
    "nextfree_unexp ?q1 - nextreleased_unexp ?q1 = word_of_nat (?m + 2)" by (simp_all add: f c rel)
  moreover have "unat (word_of_nat ?m :: u32) = ?m" "unat (word_of_nat (?m + 2) :: u32) = ?m + 2"
    using m by (intro unat_small; simp)+
  ultimately have "nextreserved_unexp ?q1 - nextreleased_unexp ?q1 < nextfree_unexp ?q1 - nextreleased_unexp ?q1"
    by (simp only: word_less_nat_alt)
  then have "omx_commit_notify_unexp_event_with_recvq EVT_IGNORE ?q1 = Some ?q2"
    by (simp add: omx_commit_notify_unexp_event_with_recvq_def Let_def c not_le)
  from unexp_commit [OF r1 _ this, of ?o]
  have r2: "unexp_run sh ?q2 c (reported @ [EVT_IGNORE]) taken [0]" by (cases "?o = 0") auto
  have at: "ring_at (unexp_slots ?q2) c" by (simp add: ring_at_def store_event_def)
  obtain e q3 c' where t: "library_turn unexp_slots omx_ioctl_release_unexp_slots ?q2 c = (e, q3, c')"
    by (metis prod_cases3)
  from t have "c' = c + 1" "next_recvq q3 = next_recvq ?q2" "nextreserved_unexp q3 = nextreserved_unexp ?q2"
    "nextfree_unexp q3 = nextfree_unexp ?q2"
    by (auto simp: library_turn_def omx_ioctl_release_unexp_slots_def split: if_splits)
  with unexp_turn [OF r2 at t] show ?thesis by (auto simp: f c add.assoc)
qed

lemma recvq_cycle:
  "\<exists>q reported taken. unexp_run sh q (word_of_nat k) reported taken [0] \<and> next_recvq q = word_of_nat (Suc k)
     \<and> nextreserved_unexp q = word_of_nat k \<and> nextfree_unexp q = word_of_nat k + 1"
proof (induction k)
  case 0
  have "unexp_run sh (snd (omx_prepare_notify_unexp_event_with_recvq sh unexp_queue_init)) 0 [] []
    ([] @ (case fst (omx_prepare_notify_unexp_event_with_recvq sh unexp_queue_init) of Inl _ \<Rightarrow> [] | Inr offset \<Rightarrow> [offset]))"
    by (rule unexp_prepare [OF unexp_start]) simp
  then have "unexp_run sh (unexp_queue_init\<lparr>nextfree_unexp := 1, next_recvq := 1\<rparr>) 0 [] [] [0]"
    by (simp add: omx_prepare_notify_unexp_event_with_recvq_def unexp_queue_init_def unexp_too_far_def
        OMX_EVENTQ_ENTRY_NR_def recvq_offset_def)
  then show ?case by (intro exI [of _ "unexp_queue_init\<lparr>nextfree_unexp := 1, next_recvq := 1\<rparr>"] exI [of _ "[]"])
    (simp add: unexp_queue_init_def)
next
  case (Suc k)
  then obtain q reported taken where q: "unexp_run sh q (word_of_nat k) reported taken [0]"
    "next_recvq q = word_of_nat (Suc k)" "nextreserved_unexp q = word_of_nat k" "nextfree_unexp q = word_of_nat k + 1"
    by blast
  then show ?case using recvq_step [OF q(1)] by (auto simp: add.commute add.left_commute)
qed


subsection \<open>Two notifications at once\<close>

text \<open>
  The parts of two notifications on two processors, in the order: the first takes an index,
  the second takes one, the first tests (and will roll back), the library takes an event and gives
  a batch back, the second tests and fills its slot, the first rolls back.
\<close>

definition exp_taken_twice :: "exp_queue \<Rightarrow> exp_queue" where
  "exp_taken_twice q = snd (exp_take (snd (exp_take q)))"

definition exp_released :: "exp_queue \<Rightarrow> u32 \<Rightarrow> exp_queue" where
  "exp_released q c = fst (snd (library_turn exp_slots omx_ioctl_release_exp_slots (exp_taken_twice q) c))"

definition exp_raced :: "omx_evt \<Rightarrow> exp_queue \<Rightarrow> u32 \<Rightarrow> exp_queue" where
  "exp_raced e q c = exp_rollback (exp_fill (nextfree_exp q + 1) e (exp_released q c))"

lemma exp_race_facts:
  assumes "exp_ok q c" and "unat c mod 256 = 255" and "length (exp_pending q c) = 769"
  shows "nextfree_exp q = c + 769" "nextreleased_exp q = c - 255"
    "exp_released q c = \<lparr>exp_slots = exp_slots q, nextfree_exp = c + 771, nextreleased_exp = c + 1\<rparr>"
    "\<not> ring_at (exp_slots q) (c + 769)" "event_slot (c + 769) \<noteq> event_slot (c + 770)"
proof -
  from assms(1,2) obtain n where n: "nextfree_exp q = c + word_of_nat n" "nextreleased_exp q = c - 255"
    "255 + n \<le> 1024" "ring_ok (exp_slots q) c n" unfolding exp_ok_def by auto
  then have "n = 769" using assms(3) by (simp add: exp_pending_def pending_def unat_small)
  with n show free: "nextfree_exp q = c + 769" and rel: "nextreleased_exp q = c - 255" by simp_all
  have "unat (c + 1) mod 256 = 0" using assms(2) by (simp only: next_mod_256) (simp add: mod_Suc)
  then show "exp_released q c = \<lparr>exp_slots = exp_slots q, nextfree_exp = c + 771, nextreleased_exp = c + 1\<rparr>"
    by (simp add: exp_released_def exp_taken_twice_def exp_take_def library_turn_def batch_256
        omx_ioctl_release_exp_slots_def free rel)
  show "\<not> ring_at (exp_slots q) (c + 769)"
    using n(4) spec [of "\<lambda>i. i < 1024 \<longrightarrow> (ring_at (exp_slots q) (c + word_of_nat i) \<longleftrightarrow> i < n)" 769]
    by (simp add: ring_ok_def \<open>n = 769\<close>)
  show "event_slot (c + 769) \<noteq> event_slot (c + 770)"
    using event_slot_inj [of c 769 770] by auto
qed

text \<open>
  C36: two notifications at once on a full expected queue, while the library gives a batch back:
  the first finds the queue full and takes its index back after the second, which found room, has
  filled the next slot. The index of the first is never filled: the library stops before the event
  of the second, and the next notification overwrites that event and fills the same slot.
\<close>

theorem exp_notify_race:
  assumes "exp_ok q c" and "unat c mod 256 = 255" and "length (exp_pending q c) = 769"
  shows "exp_too_far (snd (exp_take q)) \<and> exp_too_far (exp_taken_twice q) \<and> \<not> exp_too_far (exp_released q c)
    \<and> exp_slots (exp_raced e q c) (event_slot (c + 770)) = (event_id (c + 770), e)
    \<and> \<not> ring_at (exp_slots (exp_raced e q c)) (c + 769)
    \<and> fst (omx_notify_exp_event e' (exp_raced e q c)) = None
    \<and> exp_slots (snd (omx_notify_exp_event e' (exp_raced e q c))) (event_slot (c + 770)) = (event_id (c + 770), e')
    \<and> \<not> ring_at (exp_slots (snd (omx_notify_exp_event e' (exp_raced e q c)))) (c + 769)"
proof -
  note f = exp_race_facts [OF assms]
  have r: "exp_raced e q c = \<lparr>exp_slots = store_event (c + 770) e (exp_slots q), nextfree_exp = c + 770,
      nextreleased_exp = c + 1\<rparr>"
    by (simp add: exp_raced_def f exp_rollback_def exp_fill_def add.commute)
  have n: "omx_notify_exp_event e' (exp_raced e q c)
      = (None, \<lparr>exp_slots = store_event (c + 770) e' (store_event (c + 770) e (exp_slots q)),
               nextfree_exp = c + 771, nextreleased_exp = c + 1\<rparr>)"
    by (simp add: omx_notify_exp_event_def r exp_take_def exp_too_far_def OMX_EVENTQ_ENTRY_NR_def exp_fill_def)
  show ?thesis
    unfolding r n [unfolded r] using f(4,5)
    by (simp add: exp_taken_twice_def exp_take_def exp_too_far_def OMX_EVENTQ_ENTRY_NR_def f(1-3)
        store_event_def ring_at_def)
qed

subsection \<open>Sleeping\<close>


subsection \<open>Instances\<close>


definition one_event :: exp_queue where
  "one_event = snd (omx_notify_exp_event EVT_IGNORE exp_queue_init)"

lemma one_event_run: "exp_run one_event 0 [EVT_IGNORE] []"
proof -
  have r: "omx_notify_exp_event EVT_IGNORE exp_queue_init = (None, one_event)"
    by (simp add: one_event_def omx_notify_exp_event_def exp_take_def exp_too_far_def exp_queue_init_def
        OMX_EVENTQ_ENTRY_NR_def)
  from exp_notify [OF exp_start r] show ?thesis by simp
qed

lemma exp_events_delivered_witness: "exp_pending one_event 0 = [EVT_IGNORE]"
  using exp_events_delivered [OF one_event_run] by simp

lemma exp_loop_delivers_witness:
  "event_loop (\<lambda>_. Some) OMX_CMD_RELEASE_EXP_SLOTS (exp_slots one_event) (OMX_EVENTQ_ENTRY_NR + 1) 0 sample_endpoint
     = Some (1, sample_endpoint)"
proof -
  have "nextfree_exp one_event = 1"
    by (simp add: one_event_def omx_notify_exp_event_def exp_take_def exp_too_far_def exp_queue_init_def
        OMX_EVENTQ_ENTRY_NR_def exp_fill_def)
  then show ?thesis
    by (subst exp_loop_delivers [OF one_event_run]) (simp add: batch_256)
qed

definition one_unexp :: unexp_queue where
  "one_unexp = snd (omx_notify_unexp_event EVT_IGNORE unexp_queue_init)"


text \<open>A full queue of which the library has taken 255 events.\<close>

definition full_queue :: exp_queue where
  "full_queue = \<lparr>exp_slots = (\<lambda>i. (event_id (word_of_nat i), EVT_IGNORE)), nextfree_exp = 1024, nextreleased_exp = 0\<rparr>"

lemma full_queue_ok: "exp_ok full_queue 255" and full_queue_pending: "length (exp_pending full_queue 255) = 769"
proof -
  have at: "ring_at (exp_slots full_queue) (255 + word_of_nat i) \<longleftrightarrow> i < 769" if "i < 1024" for i
  proof (cases "i < 769")
    case True
    then have "event_slot (255 + word_of_nat i) = 255 + i" using event_slot_add [of 255 i] by simp
    then show ?thesis using True by (simp add: ring_at_def full_queue_def)
  next
    case False
    define x :: u32 where "x = word_of_nat (i - 769)"
    have "event_slot (255 + word_of_nat i) = i - 769"
      using False that event_slot_add [of 255 i] by (simp add: mod_if)
    moreover have "255 + word_of_nat i = x + 1024" using False by (simp add: x_def of_nat_diff)
    moreover have "exp_slots full_queue j = (event_id (word_of_nat j), EVT_IGNORE)" for j
      by (simp add: full_queue_def)
    ultimately have "ring_at (exp_slots full_queue) (255 + word_of_nat i) \<longleftrightarrow> event_id x = event_id (x + 1024)"
      by (simp only: ring_at_def fst_conv x_def)
    then show ?thesis using False event_id_next [of x] by argo
  qed
  then show "exp_ok full_queue 255"
    unfolding exp_ok_def by (intro exI [of _ 769]) (simp add: ring_ok_def full_queue_def)
  show "length (exp_pending full_queue 255) = 769"
    unfolding exp_pending_def pending_def length_map length_upt by (simp add: full_queue_def)
qed

lemma exp_notify_race_witness:
  "\<not> ring_at (exp_slots (exp_raced EVT_UNKNOWN full_queue 255)) 1024
   \<and> exp_slots (snd (omx_notify_exp_event EVT_IGNORE (exp_raced EVT_UNKNOWN full_queue 255))) (event_slot 1025)
      = (event_id 1025, EVT_IGNORE)"
  using exp_notify_race [OF full_queue_ok _ full_queue_pending, of EVT_UNKNOWN EVT_IGNORE] by simp

end
