(* ===== verification/Driver_Regions.thy ===== *)
theory Driver_Regions
  imports Driver_Interface
begin

text \<open>
  The memory regions of the driver (\<open>driver/linux/omx_reg.c\<close>): a list of segments of the
  application's memory, each an array of pinned pages with an offset into the first one. Data from
  the network is written to a range of the region, and data to send is read through a cache of the
  position in the region; both walk over segments and pages, and the theory shows that they
  transfer the bytes of the flat range.

  A page is a number, a physical address a page and an offset. Which page backs a page of the
  application's memory is the kernel's business: \<open>frame\<close> is a parameter. Pinning (and its overlap
  with communication), reference counts and the offload of copies to a DMA engine are left out.
\<close>

subsection \<open>Regions\<close>

definition PAGE_SIZE :: nat where "PAGE_SIZE = 4096"

lemma PAGE_SIZE_pos [simp]: "0 < PAGE_SIZE"
  by (simp add: PAGE_SIZE_def)

type_synonym physical = "nat \<times> nat \<Rightarrow> u8"

record region_segment =
  aligned_vaddr :: nat
  first_page_offset :: nat
  sg_length :: nat
  pages :: "nat list"

record user_region =
  rgn_segments :: "region_segment list"
  rgn_total_length :: nat

definition omx_user_region_add_segment :: "(nat \<Rightarrow> nat) \<Rightarrow> omx_cmd_user_segment \<Rightarrow> region_segment" where
  "omx_user_region_add_segment frame useg =
     (let offset = vaddr useg mod PAGE_SIZE;
          aligned = vaddr useg - offset;
          aligned_len = (offset + seg_len useg + PAGE_SIZE - 1) div PAGE_SIZE * PAGE_SIZE;
          nr_pages = aligned_len div PAGE_SIZE
      in \<lparr>aligned_vaddr = aligned, first_page_offset = offset, sg_length = seg_len useg,
          pages = map (\<lambda>i. frame (aligned div PAGE_SIZE + i)) [0..<nr_pages]\<rparr>)"

fun add_segments :: "(nat \<Rightarrow> nat) \<Rightarrow> omx_cmd_user_segment list \<Rightarrow> user_region \<Rightarrow> user_region" where
  "add_segments frame [] region = region"
| "add_segments frame (useg # usegs) region =
     (if seg_len useg = 0 then add_segments frame usegs region
      else let seg = omx_user_region_add_segment frame useg
           in add_segments frame usegs
                (region\<lparr>rgn_segments := rgn_segments region @ [seg],
                        rgn_total_length := rgn_total_length region + sg_length seg\<rparr>))"

definition OMX_USER_REGION_MAX_ID :: nat where "OMX_USER_REGION_MAX_ID = 256"

type_synonym region_table = "nat \<Rightarrow> user_region option"

text \<open>The allocations succeed or not as \<open>mem_ok\<close> says, the pages can be pinned or not as \<open>pin_ok\<close> says.\<close>

definition omx_ioctl_user_region_create ::
  "(nat \<Rightarrow> nat) \<Rightarrow> bool \<Rightarrow> bool \<Rightarrow> nat \<Rightarrow> omx_cmd_user_segment list \<Rightarrow> region_table \<Rightarrow> errno option \<times> region_table"
where
  "omx_ioctl_user_region_create frame mem_ok pin_ok rdma_id usegs table =
     (if rdma_id \<ge> OMX_USER_REGION_MAX_ID then (Some EINVAL, table)
      else if \<not> mem_ok then (Some ENOMEM, table)
      else let region = add_segments frame usegs \<lparr>rgn_segments = [], rgn_total_length = 0\<rparr>
           in if \<not> pin_ok then (Some EFAULT, table)
              else if table rdma_id \<noteq> None then (Some EBUSY, table)
              else (None, table(rdma_id \<mapsto> region)))"

definition omx_ioctl_user_region_destroy :: "nat \<Rightarrow> region_table \<Rightarrow> errno option \<times> region_table" where
  "omx_ioctl_user_region_destroy rdma_id table =
     (if rdma_id \<ge> OMX_USER_REGION_MAX_ID then (Some EINVAL, table)
      else if table rdma_id = None then (Some EINVAL, table)
      else (None, table(rdma_id := None)))"

definition omx_user_region_acquire :: "region_table \<Rightarrow> nat \<Rightarrow> user_region option" where
  "omx_user_region_acquire table rdma_id = (if rdma_id \<ge> OMX_USER_REGION_MAX_ID then None else table rdma_id)"

subsection \<open>Filling a region\<close>

text \<open>
  The copy loop over the pages of a segment, from the page that holds the start; the bytes are the
  part of the packet that goes there. \<^term>\<open>None\<close> is a page behind the end of the array.
\<close>

definition write_phys :: "nat \<Rightarrow> nat \<Rightarrow> bytes \<Rightarrow> physical \<Rightarrow> physical" where
  "write_phys page offset bs m = (\<lambda>(p, i). if p = page \<and> offset \<le> i \<and> i < offset + length bs then bs ! (i - offset) else m (p, i))"

fun fill_loop :: "nat list \<Rightarrow> nat \<Rightarrow> bytes \<Rightarrow> physical \<Rightarrow> physical option" where
  "fill_loop [] page_offset bs m = None"
| "fill_loop (page # rest) page_offset bs m =
     (let chunk = min (PAGE_SIZE - page_offset) (length bs);
          m1 = write_phys page page_offset (take chunk bs) m
      in if drop chunk bs = [] then Some m1 else fill_loop rest 0 (drop chunk bs) m1)"

definition omx__user_region_segment_fill_pages ::
  "region_segment \<Rightarrow> nat \<Rightarrow> bytes \<Rightarrow> physical \<Rightarrow> physical option"
where
  "omx__user_region_segment_fill_pages segment segment_offset bs m =
     (let first_page = (segment_offset + first_page_offset segment) div PAGE_SIZE;
          page_offset = (segment_offset + first_page_offset segment) mod PAGE_SIZE
      in fill_loop (drop first_page (pages segment)) page_offset bs m)"

text \<open>The loop over the segments; at the end of the array, the assertions that everything was copied.\<close>

fun fill_segments :: "region_segment list \<Rightarrow> nat \<Rightarrow> bytes \<Rightarrow> physical \<Rightarrow> physical option" where
  "fill_segments [] segment_offset bs m = do { c_assert (bs = []); Some m }"
| "fill_segments (segment # rest) segment_offset bs m =
     (if segment_offset \<ge> sg_length segment
      then fill_segments rest (segment_offset - sg_length segment) bs m
      else if segment_offset + length bs > sg_length segment
      then do {
        let chunk = sg_length segment - segment_offset;
        m1 \<leftarrow> omx__user_region_segment_fill_pages segment segment_offset (take chunk bs) m;
        fill_segments rest 0 (drop chunk bs) m1
      }
      else omx__user_region_segment_fill_pages segment segment_offset bs m)"

text \<open>The result is the error, if any, and the memory.\<close>

definition omx_user_region_fill_pages ::
  "user_region \<Rightarrow> nat \<Rightarrow> bytes \<Rightarrow> physical \<Rightarrow> (errno option \<times> physical) option"
where
  "omx_user_region_fill_pages region region_offset bs m =
     (if region_offset + length bs > rgn_total_length region then Some (Some EINVAL, m)
      else do { m' \<leftarrow> fill_segments (rgn_segments region) region_offset bs m; Some (None, m') })"

subsection \<open>Reading a region\<close>

text \<open>The cache: the segments from the current one on, the offset in it, the index of the page and the offset in the page.\<close>

record offset_cache =
  oc_segs :: "region_segment list"
  oc_segoff :: nat
  oc_page :: nat
  oc_pageoff :: nat

fun find_segment :: "region_segment list \<Rightarrow> nat \<Rightarrow> nat \<Rightarrow> (region_segment list \<times> nat) option" where
  "find_segment [] tmp offset = None"
| "find_segment (seg # rest) tmp offset =
     (if tmp + sg_length seg \<le> offset then find_segment rest (tmp + sg_length seg) offset
      else Some (seg # rest, offset - tmp))"

text \<open>
  The outer option is the search running behind the last segment, the inner one the refusal of the
  range. With one segment no search is needed.
\<close>

definition omx_user_region_offset_cache_init ::
  "user_region \<Rightarrow> nat \<Rightarrow> nat \<Rightarrow> offset_cache option option"
where
  "omx_user_region_offset_cache_init region offset len =
     (if rgn_segments region = [] \<or> offset + len > rgn_total_length region then Some None
      else do {
        (segs, segoff) \<leftarrow> (if length (rgn_segments region) > 1 then find_segment (rgn_segments region) 0 offset
                          else Some (rgn_segments region, offset));
        let seg = hd segs;
        Some (Some \<lparr>oc_segs = segs, oc_segoff = segoff,
          oc_page = (segoff + first_page_offset seg) div PAGE_SIZE,
          oc_pageoff = (segoff + first_page_offset seg) mod PAGE_SIZE\<rparr>)
      })"

definition read_phys :: "nat \<Rightarrow> nat \<Rightarrow> nat \<Rightarrow> physical \<Rightarrow> bytes" where
  "read_phys page offset n m = map (\<lambda>i. m (page, offset + i)) [0..<n]"

text \<open>One step of a copy from a contiguous region: the chunk, and the position after it.\<close>

definition contig_chunk :: "nat \<Rightarrow> offset_cache \<Rightarrow> nat" where
  "contig_chunk remaining c = min remaining (PAGE_SIZE - oc_pageoff c)"

definition contig_advance :: "nat \<Rightarrow> offset_cache \<Rightarrow> offset_cache" where
  "contig_advance chunk c =
     (if oc_pageoff c + chunk = PAGE_SIZE then c\<lparr>oc_page := oc_page c + 1, oc_pageoff := 0\<rparr>
      else c\<lparr>oc_pageoff := oc_pageoff c + chunk\<rparr>)"

text \<open>The same for a vectorial region, where the segment may end first.\<close>

definition vect_chunk :: "nat \<Rightarrow> offset_cache \<Rightarrow> nat" where
  "vect_chunk remaining c =
     min (min remaining (PAGE_SIZE - oc_pageoff c)) (sg_length (hd (oc_segs c)) - oc_segoff c)"

definition vect_advance :: "nat \<Rightarrow> offset_cache \<Rightarrow> offset_cache" where
  "vect_advance chunk c =
     (if oc_segoff c + chunk = sg_length (hd (oc_segs c))
      then (case tl (oc_segs c) of
              [] \<Rightarrow> c\<lparr>oc_segs := [], oc_segoff := 0\<rparr>
            | seg # rest \<Rightarrow> \<lparr>oc_segs = seg # rest, oc_segoff = 0, oc_page = 0, oc_pageoff = first_page_offset seg\<rparr>)
      else if oc_pageoff c + chunk = PAGE_SIZE
      then c\<lparr>oc_segoff := oc_segoff c + chunk, oc_page := oc_page c + 1, oc_pageoff := 0\<rparr>
      else c\<lparr>oc_segoff := oc_segoff c + chunk, oc_pageoff := oc_pageoff c + chunk\<rparr>)"

text \<open>
  The copy callbacks: the bytes copied and the cache after them. \<^term>\<open>None\<close>: behind the last
  segment or page, or no progress (a segment without bytes, which a region never has).
\<close>

function copy_pages ::
  "(nat \<Rightarrow> offset_cache \<Rightarrow> nat) \<Rightarrow> (nat \<Rightarrow> offset_cache \<Rightarrow> offset_cache) \<Rightarrow> physical \<Rightarrow> nat \<Rightarrow> offset_cache
    \<Rightarrow> (bytes \<times> offset_cache) option"
where
  "copy_pages chunk_of advance m remaining c =
     (if remaining = 0 then Some ([], c)
      else if oc_segs c = [] \<or> length (pages (hd (oc_segs c))) \<le> oc_page c then None
      else let chunk = chunk_of remaining c
           in if chunk = 0 then None
              else do {
                (bs, c') \<leftarrow> copy_pages chunk_of advance m (remaining - chunk) (advance chunk c);
                Some (read_phys (pages (hd (oc_segs c)) ! oc_page c) (oc_pageoff c) chunk m @ bs, c')
              })"
  by pat_completeness auto

termination
  by (relation "measure (\<lambda>(_, _, _, remaining, _). remaining)") auto

declare copy_pages.simps [simp del]

definition omx_user_region_offset_cache_contig_copy_callback where
  "omx_user_region_offset_cache_contig_copy_callback = copy_pages contig_chunk contig_advance"

definition omx_user_region_offset_cache_vect_copy_callback where
  "omx_user_region_offset_cache_vect_copy_callback = copy_pages vect_chunk vect_advance"

text \<open>The callback that the initialisation of the cache stores in it.\<close>

definition copy_pages_to_buf :: "user_region \<Rightarrow> physical \<Rightarrow> nat \<Rightarrow> offset_cache \<Rightarrow> (bytes \<times> offset_cache) option" where
  "copy_pages_to_buf region =
     (if length (rgn_segments region) > 1 then omx_user_region_offset_cache_vect_copy_callback
      else omx_user_region_offset_cache_contig_copy_callback)"

text \<open>
  The append callbacks: the pages become fragments of a packet, at most \<open>skb_frags\<close> of them. The inner
  \<^term>\<open>None\<close> is the error \<open>-1\<close>, for which the cache is not updated.
\<close>

type_synonym skb_frag = "nat \<times> nat \<times> nat"

function append_pages ::
  "(nat \<Rightarrow> offset_cache \<Rightarrow> nat) \<Rightarrow> (nat \<Rightarrow> offset_cache \<Rightarrow> offset_cache) \<Rightarrow> nat \<Rightarrow> nat \<Rightarrow> offset_cache
    \<Rightarrow> (skb_frag list \<times> offset_cache) option option"
where
  "append_pages chunk_of advance skb_frags remaining c =
     (if remaining = 0 then Some (Some ([], c))
      else if skb_frags = 0 then Some None
      else if oc_segs c = [] \<or> length (pages (hd (oc_segs c))) \<le> oc_page c then None
      else let chunk = chunk_of remaining c
           in if chunk = 0 then None
              else do {
                r \<leftarrow> append_pages chunk_of advance (skb_frags - 1) (remaining - chunk) (advance chunk c);
                Some (map_option (apfst ((#) (pages (hd (oc_segs c)) ! oc_page c, oc_pageoff c, chunk))) r)
              })"
  by pat_completeness auto

termination
  by (relation "measure (\<lambda>(_, _, _, remaining, _). remaining)") auto

declare append_pages.simps [simp del]

definition omx_user_region_offset_cache_contig_append_callback where
  "omx_user_region_offset_cache_contig_append_callback = append_pages contig_chunk contig_advance"

definition omx_user_region_offset_cache_vect_append_callback where
  "omx_user_region_offset_cache_vect_append_callback = append_pages vect_chunk vect_advance"

definition append_pages_to_skb ::
  "user_region \<Rightarrow> nat \<Rightarrow> nat \<Rightarrow> offset_cache \<Rightarrow> (skb_frag list \<times> offset_cache) option option"
where
  "append_pages_to_skb region =
     (if length (rgn_segments region) > 1 then omx_user_region_offset_cache_vect_append_callback
      else omx_user_region_offset_cache_contig_append_callback)"

subsection \<open>Copying between two regions of the same host\<close>

text \<open>
  The destination belongs to the calling process and is written by \<open>copy_to_user\<close> at its virtual
  addresses, which the process' page table translates. \<open>copied v n\<close> is how many of the \<open>n\<close> bytes at
  \<open>v\<close> \<open>copy_to_user\<close> manages to write.
\<close>

definition phys_of :: "(nat \<Rightarrow> nat) \<Rightarrow> address \<Rightarrow> nat \<times> nat" where
  "phys_of frame v = (frame (v div PAGE_SIZE), v mod PAGE_SIZE)"

definition copy_to_user :: "(nat \<Rightarrow> nat) \<Rightarrow> (address \<Rightarrow> nat \<Rightarrow> nat) \<Rightarrow> address \<Rightarrow> bytes \<Rightarrow> physical \<Rightarrow> bool \<times> physical" where
  "copy_to_user frame copied v bs m =
     (let n = min (copied v (length bs)) (length bs)
      in (n = length bs, put_bytes (map (phys_of frame) [v..<v + n]) (take n bs) m))"

record dst_cursor =
  dc_segs :: "region_segment list"
  dc_segoff :: nat
  dc_vaddr :: address

definition dst_start :: "region_segment list \<Rightarrow> nat \<Rightarrow> dst_cursor" where
  "dst_start sgs segoff =
     \<lparr>dc_segs = sgs, dc_segoff = segoff, dc_vaddr = aligned_vaddr (hd sgs) + first_page_offset (hd sgs) + segoff\<rparr>"

definition dst_advance :: "nat \<Rightarrow> dst_cursor \<Rightarrow> dst_cursor" where
  "dst_advance chunk d =
     (if dc_segoff d + chunk = sg_length (hd (dc_segs d))
      then (case tl (dc_segs d) of
              [] \<Rightarrow> d\<lparr>dc_segs := [], dc_segoff := 0\<rparr>
            | seg # rest \<Rightarrow> dst_start (seg # rest) 0)
      else d\<lparr>dc_segoff := dc_segoff d + chunk, dc_vaddr := dc_vaddr d + chunk\<rparr>)"

function shared_copy_loop ::
  "(nat \<Rightarrow> nat) \<Rightarrow> (address \<Rightarrow> nat \<Rightarrow> nat) \<Rightarrow> nat \<Rightarrow> offset_cache \<Rightarrow> dst_cursor \<Rightarrow> physical
    \<Rightarrow> (errno option \<times> physical) option"
where
  "shared_copy_loop frame copied remaining c d m =
     (if oc_segs c = [] \<or> length (pages (hd (oc_segs c))) \<le> oc_page c \<or> dc_segs d = [] then None
      else let chunk = min (vect_chunk remaining c) (sg_length (hd (dc_segs d)) - dc_segoff d);
               bs = read_phys (pages (hd (oc_segs c)) ! oc_page c) (oc_pageoff c) chunk m;
               (done, m1) = copy_to_user frame copied (dc_vaddr d) bs m
           in if \<not> done then Some (Some EFAULT, m1)
              else if remaining - chunk = 0 then Some (None, m1)
              else if chunk = 0 then None
              else shared_copy_loop frame copied (remaining - chunk) (vect_advance chunk c) (dst_advance chunk d) m1)"
  by pat_completeness auto

termination
  by (relation "measure (\<lambda>(_, _, remaining, _). remaining)") auto

declare shared_copy_loop.simps [simp del]

definition omx_memcpy_between_user_regions_to_current ::
  "(nat \<Rightarrow> nat) \<Rightarrow> (address \<Rightarrow> nat \<Rightarrow> nat) \<Rightarrow> user_region \<Rightarrow> nat \<Rightarrow> user_region \<Rightarrow> nat \<Rightarrow> nat \<Rightarrow> physical
    \<Rightarrow> (errno option \<times> physical) option"
where
  "omx_memcpy_between_user_regions_to_current frame copied src_region src_offset dst_region dst_offset len m = do {
     (sseg, ssegoff) \<leftarrow> find_segment (rgn_segments src_region) 0 src_offset;
     (dseg, dsegoff) \<leftarrow> find_segment (rgn_segments dst_region) 0 dst_offset;
     shared_copy_loop frame copied len
       \<lparr>oc_segs = sseg, oc_segoff = ssegoff,
        oc_page = (ssegoff + first_page_offset (hd sseg)) div PAGE_SIZE,
        oc_pageoff = (ssegoff + first_page_offset (hd sseg)) mod PAGE_SIZE\<rparr>
       (dst_start dseg dsegoff) m
   }"

definition omx_copy_between_user_regions ::
  "(nat \<Rightarrow> nat) \<Rightarrow> (address \<Rightarrow> nat \<Rightarrow> nat) \<Rightarrow> user_region \<Rightarrow> nat \<Rightarrow> user_region \<Rightarrow> nat \<Rightarrow> nat \<Rightarrow> physical
    \<Rightarrow> (errno option \<times> physical) option"
where
  "omx_copy_between_user_regions frame copied src_region src_offset dst_region dst_offset len m =
     (if len = 0 then Some (None, m)
      else if src_offset + len > rgn_total_length src_region \<or> dst_offset + len > rgn_total_length dst_region
      then Some (Some EINVAL, m)
      else omx_memcpy_between_user_regions_to_current frame copied src_region src_offset dst_region dst_offset len m)"

subsection \<open>The flat view\<close>

definition seg_at :: "nat list \<Rightarrow> nat \<Rightarrow> nat \<times> nat" where
  "seg_at pgs k = (pgs ! (k div PAGE_SIZE), k mod PAGE_SIZE)"

definition seg_flat :: "region_segment \<Rightarrow> (nat \<times> nat) list" where
  "seg_flat seg = map (\<lambda>k. seg_at (pages seg) (first_page_offset seg + k)) [0..<sg_length seg]"

definition region_flat :: "user_region \<Rightarrow> (nat \<times> nat) list" where
  "region_flat region = concat (map seg_flat (rgn_segments region))"

definition seg_ok :: "region_segment \<Rightarrow> bool" where
  "seg_ok seg \<longleftrightarrow> 0 < sg_length seg \<and> first_page_offset seg < PAGE_SIZE
     \<and> first_page_offset seg + sg_length seg \<le> PAGE_SIZE * length (pages seg)"

definition user_region_ok :: "user_region \<Rightarrow> bool" where
  "user_region_ok region \<longleftrightarrow> list_all seg_ok (rgn_segments region)
     \<and> rgn_total_length region = sum_list (map sg_length (rgn_segments region))"

lemma length_seg_flat [simp]: "length (seg_flat seg) = sg_length seg"
  by (simp add: seg_flat_def)

lemma length_region_flat: "user_region_ok region \<Longrightarrow> length (region_flat region) = rgn_total_length region"
  by (simp add: user_region_ok_def region_flat_def length_concat comp_def)

lemma add_segment_ok: "0 < seg_len useg \<Longrightarrow> seg_ok (omx_user_region_add_segment frame useg)"
proof -
  assume len: "0 < seg_len useg"
  let ?n = "vaddr useg mod PAGE_SIZE + seg_len useg"
  have "?n \<le> (?n + PAGE_SIZE - 1) div PAGE_SIZE * PAGE_SIZE"
    using dividend_less_div_times [of PAGE_SIZE "?n + PAGE_SIZE - 1"] by (simp add: PAGE_SIZE_def)
  with len show ?thesis
    by (simp add: seg_ok_def omx_user_region_add_segment_def Let_def mult.commute)
qed

lemma add_segments_ok: "user_region_ok region \<Longrightarrow> user_region_ok (add_segments frame usegs region)"
proof (induction frame usegs region rule: add_segments.induct)
  case (1 frame region)
  then show ?case by simp
next
  case (2 frame useg usegs region)
  show ?case
  proof (cases "seg_len useg = 0")
    case True
    with 2 show ?thesis by simp
  next
    case False
    then have "seg_ok (omx_user_region_add_segment frame useg)" by (intro add_segment_ok) simp
    with "2.prems" have "user_region_ok (region\<lparr>rgn_segments := rgn_segments region @ [omx_user_region_add_segment frame useg],
        rgn_total_length := rgn_total_length region + sg_length (omx_user_region_add_segment frame useg)\<rparr>)"
      by (simp add: user_region_ok_def)
    from "2.IH"(2) [OF False refl this] False show ?thesis by (simp add: Let_def)
  qed
qed

lemma create_ok:
  "omx_ioctl_user_region_create frame mem_ok pin_ok rdma_id usegs table = (None, table') \<Longrightarrow>
     \<exists>region. table' = table(rdma_id \<mapsto> region) \<and> user_region_ok region"
proof -
  let ?region = "add_segments frame usegs \<lparr>rgn_segments = [], rgn_total_length = 0\<rparr>"
  assume "omx_ioctl_user_region_create frame mem_ok pin_ok rdma_id usegs table = (None, table')"
  then have "table' = table(rdma_id \<mapsto> ?region)"
    by (simp add: omx_ioctl_user_region_create_def Let_def split: if_splits)
  moreover have "user_region_ok ?region"
    by (rule add_segments_ok) (simp add: user_region_ok_def)
  ultimately show ?thesis by blast
qed

subsection \<open>Filling writes the flat range\<close>

lemma write_phys_put: "write_phys page offset bs m = put_bytes (map (Pair page) [offset..<offset + length bs]) bs m"
proof (induction bs arbitrary: offset m)
  case Nil
  show ?case by (rule ext) (auto simp: write_phys_def split: prod.splits)
next
  case (Cons b bs)
  have "write_phys page offset (b # bs) m = write_phys page (Suc offset) bs (m((page, offset) := b))"
    by (rule ext) (auto simp: write_phys_def nth_Cons' split: prod.splits)
  also have "\<dots> = put_bytes (map (Pair page) [Suc offset..<Suc offset + length bs]) bs (m((page, offset) := b))"
    by (rule Cons.IH)
  moreover have "[offset..<offset + length (b # bs)] = offset # [Suc offset..<Suc offset + length bs]"
    using upt_conv_Cons [of offset "offset + length (b # bs)"] by simp
  ultimately show ?case by (simp only: list.map put_bytes.simps)
qed

lemma seg_at_shift: "seg_at (page # rest) (PAGE_SIZE + k) = seg_at rest k"
  using div_add_self1 [of PAGE_SIZE k] by (simp add: seg_at_def del: div_add_self1)

lemma seg_at_first: "k < PAGE_SIZE \<Longrightarrow> seg_at (page # rest) k = (page, k)"
  by (simp add: seg_at_def)

lemma map_shift_upt: "map (\<lambda>k. f (a + k)) [0..<n] = map f [a..<a + n]"
  by (rule nth_equalityI) auto

lemma fill_loop_flat:
  "page_offset < PAGE_SIZE \<Longrightarrow> bs \<noteq> [] \<Longrightarrow> page_offset + length bs \<le> PAGE_SIZE * length pgs \<Longrightarrow>
     fill_loop pgs page_offset bs m
       = Some (put_bytes (map (seg_at pgs) [page_offset..<page_offset + length bs]) bs m)"
proof (induction pgs page_offset bs m rule: fill_loop.induct)
  case (1 page_offset bs m)
  then show ?case by simp
next
  case (2 page rest page_offset bs m)
  let ?chunk = "min (PAGE_SIZE - page_offset) (length bs)"
  let ?m1 = "write_phys page page_offset (take ?chunk bs) m"
  have m1: "?m1 = put_bytes (map (seg_at (page # rest)) [page_offset..<page_offset + ?chunk]) (take ?chunk bs) m"
    unfolding write_phys_put using "2.prems"(1)
    by (intro arg_cong2 [where f = "\<lambda>as. put_bytes as (take ?chunk bs)"] map_cong) (auto simp: seg_at_first)
  show ?case
  proof (cases "drop ?chunk bs = []")
    case True
    then have "?chunk = length bs" by simp
    with m1 True show ?thesis by (simp add: Let_def)
  next
    case False
    then have c: "?chunk = PAGE_SIZE - page_offset" "?chunk < length bs" by auto
    let ?bs = "drop ?chunk bs"
    have IH: "fill_loop rest 0 ?bs ?m1 = Some (put_bytes (map (seg_at rest) [0..<length ?bs]) ?bs ?m1)"
      using "2.IH" [OF refl refl False] "2.prems" c by simp
    have "map (seg_at rest) [0..<length ?bs] = map (\<lambda>k. seg_at (page # rest) (PAGE_SIZE + k)) [0..<length ?bs]"
      by (simp only: seg_at_shift)
    also have "\<dots> = map (seg_at (page # rest)) [PAGE_SIZE..<PAGE_SIZE + length ?bs]"
      by (rule map_shift_upt)
    also have "PAGE_SIZE + length ?bs = page_offset + length bs"
      using c "2.prems"(1) by simp
    finally have rest: "map (seg_at rest) [0..<length ?bs]
        = map (seg_at (page # rest)) [page_offset + ?chunk..<page_offset + length bs]"
      using c "2.prems"(1) by simp
    have "map (seg_at (page # rest)) [page_offset..<page_offset + length bs]
        = map (seg_at (page # rest)) [page_offset..<page_offset + ?chunk]
          @ map (seg_at (page # rest)) [page_offset + ?chunk..<page_offset + length bs]"
      using upt_add_eq_append [of page_offset "page_offset + ?chunk" "length bs - ?chunk"] c(2) by simp
    moreover have "put_bytes (map (seg_at (page # rest)) [page_offset..<page_offset + ?chunk] @ xs) (take ?chunk bs @ ?bs) m
        = put_bytes xs ?bs ?m1" for xs
      unfolding m1 by (rule put_bytes_append) simp
    ultimately show ?thesis using False IH rest by (simp add: Let_def)
  qed
qed

lemma drop_map_upt: "drop k (map f [0..<n]) = map (\<lambda>i. f (k + i)) [0..<n - k]"
  by (rule nth_equalityI) auto

lemma take_map_upt: "take k (map f [0..<n]) = map f [0..<min k n]"
  by (rule nth_equalityI) auto

lemma segment_fill_flat:
  assumes "seg_ok seg" and "bs \<noteq> []" and "off + length bs \<le> sg_length seg"
  shows "omx__user_region_segment_fill_pages seg off bs m
    = Some (put_bytes (take (length bs) (drop off (seg_flat seg))) bs m)"
proof -
  let ?k = "off + first_page_offset seg"
  let ?q = "?k div PAGE_SIZE" and ?r = "?k mod PAGE_SIZE"
  have k: "PAGE_SIZE * ?q + ?r = ?k" by simp
  have "?k + length bs \<le> PAGE_SIZE * length (pages seg)"
    using assms by (simp add: seg_ok_def)
  with assms(2) have "?k < PAGE_SIZE * length (pages seg)" by (cases bs) auto
  then have q: "?q < length (pages seg)"
    by (simp add: less_mult_imp_div_less mult.commute)
  have "PAGE_SIZE * (length (pages seg) - ?q) = PAGE_SIZE * length (pages seg) - PAGE_SIZE * ?q"
    by (rule diff_mult_distrib2)
  then have len: "?r + length bs \<le> PAGE_SIZE * length (drop ?q (pages seg))"
    using \<open>?k + length bs \<le> PAGE_SIZE * length (pages seg)\<close> k unfolding length_drop by linarith
  have at: "seg_at (drop ?q (pages seg)) (?r + i) = seg_at (pages seg) (first_page_offset seg + (off + i))" for i
  proof -
    have e: "first_page_offset seg + (off + i) = (?r + i) + PAGE_SIZE * ?q" using k by simp
    have "(first_page_offset seg + (off + i)) div PAGE_SIZE = ?q + (?r + i) div PAGE_SIZE"
      unfolding e by (subst div_mult_self2) simp_all
    moreover have "(first_page_offset seg + (off + i)) mod PAGE_SIZE = (?r + i) mod PAGE_SIZE"
      unfolding e by (rule mod_mult_self2)
    ultimately show ?thesis using q by (simp add: seg_at_def)
  qed
  have "map (seg_at (drop ?q (pages seg))) [?r..<?r + length bs]
      = map (\<lambda>i. seg_at (drop ?q (pages seg)) (?r + i)) [0..<length bs]"
    by (rule map_shift_upt [symmetric])
  also have "\<dots> = take (length bs) (drop off (seg_flat seg))"
    unfolding at seg_flat_def using assms(3) by (simp add: drop_map_upt take_map_upt min_def)
  finally show ?thesis
    unfolding omx__user_region_segment_fill_pages_def Let_def
    using fill_loop_flat [OF _ assms(2) len] by simp
qed

lemma segment_fill_empty:
  assumes "seg_ok seg" and "off < sg_length seg"
  shows "omx__user_region_segment_fill_pages seg off [] m = Some m"
proof -
  let ?q = "(off + first_page_offset seg) div PAGE_SIZE"
  have "off + first_page_offset seg < PAGE_SIZE * length (pages seg)"
    using assms by (simp add: seg_ok_def)
  then have "?q < length (pages seg)"
    by (simp add: less_mult_imp_div_less mult.commute)
  then show ?thesis
    by (simp add: omx__user_region_segment_fill_pages_def Cons_nth_drop_Suc [symmetric] write_phys_put)
qed

definition segs_flat :: "region_segment list \<Rightarrow> (nat \<times> nat) list" where
  "segs_flat sgs = concat (map seg_flat sgs)"

lemma segs_flat_simps [simp]: "segs_flat [] = []" "segs_flat (seg # rest) = seg_flat seg @ segs_flat rest"
  by (simp_all add: segs_flat_def)

lemma length_segs_flat: "length (segs_flat sgs) = sum_list (map sg_length sgs)"
  by (induction sgs) auto

lemma fill_segments_flat:
  "list_all seg_ok sgs \<Longrightarrow> off + length bs \<le> sum_list (map sg_length sgs) \<Longrightarrow>
     fill_segments sgs off bs m = Some (put_bytes (take (length bs) (drop off (segs_flat sgs))) bs m)"
proof (induction sgs off bs m rule: fill_segments.induct)
  case (1 off bs m)
  then show ?case by simp
next
  case (2 seg rest off bs m)
  consider (behind) "off \<ge> sg_length seg" | (across) "off < sg_length seg" "off + length bs > sg_length seg"
    | (inside) "off < sg_length seg" "off + length bs \<le> sg_length seg" by linarith
  then show ?case
  proof cases
    case behind
    with "2.IH"(1) [OF behind] "2.prems" show ?thesis by simp
  next
    case across
    let ?c = "sg_length seg - off"
    have fill: "omx__user_region_segment_fill_pages seg off (take ?c bs) m
        = Some (put_bytes (drop off (seg_flat seg)) (take ?c bs) m)"
      using segment_fill_flat [of seg "take ?c bs" off m] "2.prems" across
      by (cases "bs = []") auto
    let ?m = "put_bytes (drop off (seg_flat seg)) (take ?c bs) m"
    have "fill_segments rest 0 (drop ?c bs) ?m
        = Some (put_bytes (take (length (drop ?c bs)) (segs_flat rest)) (drop ?c bs) ?m)"
      using "2.IH"(2) [of ?c ?m] "2.prems" across fill by simp
    moreover have "put_bytes (drop off (seg_flat seg) @ xs) (take ?c bs @ drop ?c bs) m
        = put_bytes xs (drop ?c bs) (put_bytes (drop off (seg_flat seg)) (take ?c bs) m)" for xs
      using across by (intro put_bytes_append) simp
    ultimately show ?thesis using across fill by (simp add: Let_def)
  next
    case inside
    show ?thesis
    proof (cases "bs = []")
      case True
      then show ?thesis using inside "2.prems" by (simp add: segment_fill_empty)
    next
      case False
      with segment_fill_flat [of seg bs off m] "2.prems" inside show ?thesis by simp
    qed
  qed
qed

theorem fill_pages_flat:
  "user_region_ok region \<Longrightarrow> off + length bs \<le> rgn_total_length region \<Longrightarrow>
     omx_user_region_fill_pages region off bs m
       = Some (None, put_bytes (take (length bs) (drop off (region_flat region))) bs m)"
  using fill_segments_flat [of "rgn_segments region" off bs m]
  by (simp add: user_region_ok_def omx_user_region_fill_pages_def region_flat_def segs_flat_def)

subsection \<open>Reading and appending walk the flat range\<close>

definition frag_addrs :: "skb_frag \<Rightarrow> (nat \<times> nat) list" where
  "frag_addrs f = (case f of (page, off, len) \<Rightarrow> map (Pair page) [off..<off + len])"

lemma frag_addrs_simp [simp]: "frag_addrs (page, off, len) = map (Pair page) [off..<off + len]"
  by (simp add: frag_addrs_def)

text \<open>
  What the two copies share: a cursor with the addresses that remain. A step takes a chunk that lies
  in the current page and is the next part of the range.
\<close>

locale region_cursor =
  fixes chunk_of :: "nat \<Rightarrow> offset_cache \<Rightarrow> nat"
    and advance :: "nat \<Rightarrow> offset_cache \<Rightarrow> offset_cache"
    and addrs :: "offset_cache \<Rightarrow> (nat \<times> nat) list"
    and ok :: "offset_cache \<Rightarrow> bool"
  assumes page: "ok c \<Longrightarrow> addrs c \<noteq> [] \<Longrightarrow> oc_segs c \<noteq> [] \<and> oc_page c < length (pages (hd (oc_segs c)))"
    and chunk: "ok c \<Longrightarrow> 0 < n \<Longrightarrow> n \<le> length (addrs c) \<Longrightarrow> 0 < chunk_of n c \<and> chunk_of n c \<le> n"
    and taken: "ok c \<Longrightarrow> 0 < n \<Longrightarrow> n \<le> length (addrs c) \<Longrightarrow>
      take (chunk_of n c) (addrs c)
        = map (Pair (pages (hd (oc_segs c)) ! oc_page c)) [oc_pageoff c..<oc_pageoff c + chunk_of n c]"
    and advance: "ok c \<Longrightarrow> 0 < n \<Longrightarrow> n \<le> length (addrs c) \<Longrightarrow>
      ok (advance (chunk_of n c) c) \<and> addrs (advance (chunk_of n c) c) = drop (chunk_of n c) (addrs c)"
begin

lemma take_step:
  assumes "ok c" and "0 < n" and "n \<le> length (addrs c)"
  shows "take n (addrs c)
    = map (Pair (pages (hd (oc_segs c)) ! oc_page c)) [oc_pageoff c..<oc_pageoff c + chunk_of n c]
      @ take (n - chunk_of n c) (drop (chunk_of n c) (addrs c))"
proof -
  have "take n (addrs c) = take (chunk_of n c) (addrs c) @ take (n - chunk_of n c) (drop (chunk_of n c) (addrs c))"
    using chunk [OF assms] by (metis le_add_diff_inverse take_add)
  then show ?thesis by (simp add: taken [OF assms])
qed

lemma copy_pages_flat:
  "ok c \<Longrightarrow> n \<le> length (addrs c) \<Longrightarrow>
     \<exists>c'. copy_pages chunk_of advance m n c = Some (map m (take n (addrs c)), c')
        \<and> ok c' \<and> addrs c' = drop n (addrs c)"
proof (induction n arbitrary: c rule: less_induct)
  case (less n)
  show ?case
  proof (cases "n = 0")
    case True
    with less.prems show ?thesis by (simp add: copy_pages.simps [of _ _ _ 0])
  next
    case False
    let ?k = "chunk_of n c"
    note k = chunk [OF less.prems(1) _ less.prems(2)] and adv = advance [OF less.prems(1) _ less.prems(2)]
    have "addrs c \<noteq> []" using False less.prems by auto
    note pg = page [OF less.prems(1) this]
    have le: "n - ?k \<le> length (addrs (advance ?k c))"
      using adv False less.prems(2) by (simp add: diff_le_mono)
    obtain c' where c': "copy_pages chunk_of advance m (n - ?k) (advance ?k c)
        = Some (map m (take (n - ?k) (drop ?k (addrs c))), c')"
        "ok c'" "addrs c' = drop (n - ?k) (drop ?k (addrs c))"
      using less.IH [OF _ conjunct1 [OF adv] le] k adv False by auto
    have "read_phys p o' ?k m = map m (map (Pair p) [o'..<o' + ?k])" for p o'
      by (rule nth_equalityI) (auto simp: read_phys_def)
    with c' k pg False less.prems take_step [of c n] show ?thesis
      by (subst copy_pages.simps) (simp add: Let_def)
  qed
qed

lemma append_pages_flat:
  "ok c \<Longrightarrow> n \<le> length (addrs c) \<Longrightarrow>
     append_pages chunk_of advance fr n c = Some None
     \<or> (\<exists>frags c'. append_pages chunk_of advance fr n c = Some (Some (frags, c'))
        \<and> length frags \<le> fr \<and> concat (map frag_addrs frags) = take n (addrs c)
        \<and> ok c' \<and> addrs c' = drop n (addrs c))"
proof (induction n arbitrary: c fr rule: less_induct)
  case (less n)
  show ?case
  proof (cases "n = 0 \<or> fr = 0")
    case True
    with less.prems show ?thesis by (subst append_pages.simps, subst (2) append_pages.simps) auto
  next
    case False
    let ?k = "chunk_of n c"
    note k = chunk [OF less.prems(1) _ less.prems(2)] and adv = advance [OF less.prems(1) _ less.prems(2)]
    have "addrs c \<noteq> []" using False less.prems by auto
    note pg = page [OF less.prems(1) this]
    have eq: "append_pages chunk_of advance fr n c
      = map_option (map_option (apfst ((#) (pages (hd (oc_segs c)) ! oc_page c, oc_pageoff c, ?k))))
          (append_pages chunk_of advance (fr - 1) (n - ?k) (advance ?k c))"
      using False pg k
      by (subst append_pages.simps) (simp add: Let_def map_conv_bind_option comp_def)
    have "append_pages chunk_of advance (fr - 1) (n - ?k) (advance ?k c) = Some None
      \<or> (\<exists>frags c'. append_pages chunk_of advance (fr - 1) (n - ?k) (advance ?k c) = Some (Some (frags, c'))
         \<and> length frags \<le> fr - 1 \<and> concat (map frag_addrs frags) = take (n - ?k) (drop ?k (addrs c))
         \<and> ok c' \<and> addrs c' = drop (n - ?k) (drop ?k (addrs c)))"
      using less.IH [of "n - ?k" "advance ?k c" "fr - 1"] k adv False less.prems by auto
    then show ?thesis
      unfolding eq using False k take_step [of c n] less.prems
      by auto
  qed
qed

end

lemma seg_at_page: "off + k < PAGE_SIZE \<Longrightarrow> seg_at pgs (p * PAGE_SIZE + off + k) = (pgs ! p, off + k)"
proof -
  assume "off + k < PAGE_SIZE"
  then have "(p * PAGE_SIZE + (off + k)) div PAGE_SIZE = p" "(p * PAGE_SIZE + (off + k)) mod PAGE_SIZE = off + k"
    by simp_all
  then show ?thesis by (simp add: seg_at_def add.assoc)
qed

lemma map_seg_at_page:
  "off + k \<le> PAGE_SIZE \<Longrightarrow>
     map (seg_at pgs) [p * PAGE_SIZE + off..<p * PAGE_SIZE + off + k] = map (Pair (pgs ! p)) [off..<off + k]"
  by (rule nth_equalityI) (auto simp: seg_at_page)

definition contig_addrs :: "offset_cache \<Rightarrow> (nat \<times> nat) list" where
  "contig_addrs c =
     (let seg = hd (oc_segs c)
      in map (seg_at (pages seg)) [oc_page c * PAGE_SIZE + oc_pageoff c..<first_page_offset seg + sg_length seg])"

definition contig_ok :: "offset_cache \<Rightarrow> bool" where
  "contig_ok c \<longleftrightarrow> length (oc_segs c) = 1 \<and> seg_ok (hd (oc_segs c)) \<and> oc_pageoff c < PAGE_SIZE"

definition vect_addrs :: "offset_cache \<Rightarrow> (nat \<times> nat) list" where
  "vect_addrs c = drop (oc_segoff c) (segs_flat (oc_segs c))"

definition vect_ok :: "offset_cache \<Rightarrow> bool" where
  "vect_ok c \<longleftrightarrow> list_all seg_ok (oc_segs c)
     \<and> (oc_segs c \<noteq> [] \<longrightarrow> oc_segoff c < sg_length (hd (oc_segs c)) \<and> oc_pageoff c < PAGE_SIZE
        \<and> oc_page c * PAGE_SIZE + oc_pageoff c = first_page_offset (hd (oc_segs c)) + oc_segoff c)"

interpretation contig: region_cursor contig_chunk contig_advance contig_addrs contig_ok
proof
  fix c n
  assume ok: "contig_ok c"
  let ?seg = "hd (oc_segs c)" and ?at = "oc_page c * PAGE_SIZE + oc_pageoff c"
  have end_le: "first_page_offset ?seg + sg_length ?seg \<le> length (pages ?seg) * PAGE_SIZE"
    using ok by (simp add: contig_ok_def seg_ok_def mult.commute)
  {
    assume "contig_addrs c \<noteq> []"
    then have "?at < first_page_offset ?seg + sg_length ?seg"
      by (simp add: contig_addrs_def Let_def)
    with end_le have "oc_page c * PAGE_SIZE < length (pages ?seg) * PAGE_SIZE" by linarith
    then show "oc_segs c \<noteq> [] \<and> oc_page c < length (pages ?seg)"
      using ok by (auto simp: contig_ok_def)
  next
    assume n: "0 < n" "n \<le> length (contig_addrs c)"
    then have le: "?at + n \<le> first_page_offset ?seg + sg_length ?seg"
      by (simp add: contig_addrs_def Let_def)
    show "0 < contig_chunk n c \<and> contig_chunk n c \<le> n"
      using n ok by (simp add: contig_chunk_def contig_ok_def)
    have "take (contig_chunk n c) (contig_addrs c) = map (seg_at (pages ?seg)) [?at..<?at + contig_chunk n c]"
      using le by (simp add: contig_addrs_def Let_def take_map contig_chunk_def)
    moreover have "oc_pageoff c + contig_chunk n c \<le> PAGE_SIZE"
      using ok by (auto simp: contig_chunk_def contig_ok_def min_def)
    ultimately show "take (contig_chunk n c) (contig_addrs c)
        = map (Pair (pages ?seg ! oc_page c)) [oc_pageoff c..<oc_pageoff c + contig_chunk n c]"
      by (simp only: map_seg_at_page)
    show "contig_ok (contig_advance (contig_chunk n c) c)
        \<and> contig_addrs (contig_advance (contig_chunk n c) c) = drop (contig_chunk n c) (contig_addrs c)"
      using ok by (auto simp: contig_addrs_def Let_def drop_map contig_advance_def contig_chunk_def contig_ok_def
          algebra_simps)
  }
qed

lemma drop_seg_flat:
  "off \<le> sg_length seg \<Longrightarrow>
     drop off (seg_flat seg) = map (seg_at (pages seg)) [first_page_offset seg + off..<first_page_offset seg + sg_length seg]"
  by (rule nth_equalityI) (auto simp: seg_flat_def add.assoc)

interpretation vect: region_cursor vect_chunk vect_advance vect_addrs vect_ok
proof
  fix c n
  assume ok: "vect_ok c"
  {
    assume "vect_addrs c \<noteq> []"
    then have ne: "oc_segs c \<noteq> []" by (auto simp: vect_addrs_def)
    then obtain seg rest where segs: "oc_segs c = seg # rest" by (cases "oc_segs c") auto
    have "first_page_offset seg + sg_length seg \<le> length (pages seg) * PAGE_SIZE"
      using ok by (simp add: vect_ok_def seg_ok_def segs mult.commute)
    moreover have "oc_page c * PAGE_SIZE < first_page_offset seg + sg_length seg"
      using ok by (simp add: vect_ok_def segs)
    ultimately have "oc_page c * PAGE_SIZE < length (pages seg) * PAGE_SIZE" by linarith
    with segs show "oc_segs c \<noteq> [] \<and> oc_page c < length (pages (hd (oc_segs c)))" by simp
  next
    assume n: "0 < n" "n \<le> length (vect_addrs c)"
    then have "oc_segs c \<noteq> []" by (auto simp: vect_addrs_def)
    then obtain seg rest where segs: "oc_segs c = seg # rest" by (cases "oc_segs c") auto
    let ?k = "vect_chunk n c" and ?at = "oc_page c * PAGE_SIZE + oc_pageoff c"
    have o: "oc_segoff c < sg_length seg" "oc_pageoff c < PAGE_SIZE" "?at = first_page_offset seg + oc_segoff c"
      and sok: "seg_ok seg" "list_all seg_ok rest"
      using ok by (simp_all add: vect_ok_def segs)
    have k: "?k \<le> n" "oc_pageoff c + ?k \<le> PAGE_SIZE" "oc_segoff c + ?k \<le> sg_length seg"
      using o by (simp_all add: vect_chunk_def segs)
    have addrs: "vect_addrs c = map (seg_at (pages seg)) [?at..<first_page_offset seg + sg_length seg] @ segs_flat rest"
      using o by (simp add: vect_addrs_def segs drop_seg_flat)
    show "0 < ?k \<and> ?k \<le> n"
      using n o k(1) by (simp add: vect_chunk_def segs)
    have "take ?k (vect_addrs c) = map (seg_at (pages seg)) [?at..<?at + ?k]"
      using k o by (simp add: addrs take_map)
    with k show "take ?k (vect_addrs c)
        = map (Pair (pages (hd (oc_segs c)) ! oc_page c)) [oc_pageoff c..<oc_pageoff c + ?k]"
      by (simp only: map_seg_at_page segs list.sel)
    show "vect_ok (vect_advance ?k c) \<and> vect_addrs (vect_advance ?k c) = drop ?k (vect_addrs c)"
    proof (cases "oc_segoff c + ?k = sg_length seg")
      case True
      then have "drop ?k (vect_addrs c) = segs_flat rest"
        using o by (simp add: vect_addrs_def segs)
      then show ?thesis using True sok
        by (cases rest) (auto simp: vect_advance_def segs vect_addrs_def vect_ok_def seg_ok_def)
    next
      case False
      then show ?thesis using k o sok
        by (auto simp: vect_advance_def segs vect_addrs_def vect_ok_def algebra_simps)
    qed
  }
qed

end
