(* ===== verification/Pull.thy ===== *)
theory Pull
  imports Driver_Regions Driver_Events
begin

text \<open>
  Large messages between hosts (\<open>driver/linux/omx_pull.c\<close>). The receiver \<^emph>\<open>pulls\<close>: its driver requests
  blocks of frames of the sender's region, at most four blocks at a time, writes the frames it gets
  back into its own region, re-requests blocks of which frames are missing, and reports the end
  with an event. The sender's driver answers a request with the frames, without any state.

  The sizes are the ones of the default configuration. The critical sections of the code (parts that
  run under the lock of the handle) are definitions of their own, because the copy into the region
  is done outside of them. Offsets on the wire are unsigned 32-bit numbers; they are natural numbers
  here, with the wrap-around written out where the arithmetic can reach it.

  Left out: the offload of the copies to a DMA engine, statistics, and the reference that a handle
  holds on its endpoint. What \<open>kmalloc\<close> leaves in a new handle is a parameter.
\<close>

subsection \<open>Constants\<close>

definition OMX_PULL_REPLY_LENGTH_MAX :: nat where "OMX_PULL_REPLY_LENGTH_MAX = 9000 - 16 - 16"
definition OMX_PULL_REPLY_PER_BLOCK :: nat where "OMX_PULL_REPLY_PER_BLOCK = 32"
definition OMX_PULL_BLOCK_LENGTH_MAX :: nat where
  "OMX_PULL_BLOCK_LENGTH_MAX = OMX_PULL_REPLY_LENGTH_MAX * OMX_PULL_REPLY_PER_BLOCK"
definition OMX_PULL_BLOCK_DESCS_NR :: nat where "OMX_PULL_BLOCK_DESCS_NR = 4"

lemma reply_length_max [simp]: "0 < OMX_PULL_REPLY_LENGTH_MAX" "OMX_PULL_REPLY_LENGTH_MAX < 2 ^ 16"
  by (simp_all add: OMX_PULL_REPLY_LENGTH_MAX_def)

definition OMX_ENDPOINT_PULL_MAGIC_XOR :: u32 where "OMX_ENDPOINT_PULL_MAGIC_XOR = 0x21071980"

datatype omx_nack_type = OMX_NACK_TYPE_NONE | OMX_NACK_TYPE_BAD_ENDPT | OMX_NACK_TYPE_ENDPT_CLOSED
  | OMX_NACK_TYPE_BAD_SESSION | OMX_NACK_TYPE_BAD_RDMAWIN

fun omx_nack_type_code :: "omx_nack_type \<Rightarrow> u8" where
  "omx_nack_type_code OMX_NACK_TYPE_NONE = 0"
| "omx_nack_type_code OMX_NACK_TYPE_BAD_ENDPT = 1"
| "omx_nack_type_code OMX_NACK_TYPE_ENDPT_CLOSED = 2"
| "omx_nack_type_code OMX_NACK_TYPE_BAD_SESSION = 3"
| "omx_nack_type_code OMX_NACK_TYPE_BAD_RDMAWIN = 4"

text \<open>The status of the completion event: success, the type in a nack as it came, or one of the two failures.\<close>

datatype pull_status = PULL_DONE_SUCCESS | PULL_DONE_NACK u8 | PULL_DONE_ABORTED | PULL_DONE_TIMEOUT

fun pull_status_code :: "pull_status \<Rightarrow> nat" where
  "pull_status_code PULL_DONE_SUCCESS = 0"
| "pull_status_code (PULL_DONE_NACK t) = unat t"
| "pull_status_code PULL_DONE_ABORTED = 5"
| "pull_status_code PULL_DONE_TIMEOUT = 6"

subsection \<open>Packets\<close>

record pull_request =
  pq_dst_endpoint :: u8
  pq_src_endpoint :: u8
  pq_session :: u32
  pq_total_length :: nat
  pq_pulled_rdma_id :: nat
  pq_pulled_rdma_seqnum :: u8
  pq_pulled_rdma_offset :: nat
  pq_src_pull_handle :: u32
  pq_src_magic :: u32
  pq_first_frame_offset :: nat
  pq_block_length :: nat
  pq_frame_index :: nat

text \<open>\<open>pr_data\<close> is what the packet holds after the header.\<close>

record pull_reply =
  pr_frame_seqnum :: nat
  pr_frame_length :: nat
  pr_msg_offset :: nat
  pr_dst_pull_handle :: u32
  pr_dst_magic :: u32
  pr_data :: bytes

record pull_nack =
  nk_type :: u8
  nk_src_endpoint :: u8
  nk_src_pull_handle :: u32
  nk_src_magic :: u32

subsection \<open>Handles\<close>

datatype omx_pull_handle_status = PULL_STATUS_OK | PULL_STATUS_TIMER_MUST_EXIT | PULL_STATUS_TIMER_EXITED

record omx_pull_block_desc =
  bd_frame_index :: nat
  bd_block_length :: nat
  bd_first_frame_offset :: nat
  frames_missing_bitmap :: u32

record omx_pull_handle =
  refcount :: nat
  slot_id :: u32
  last_retransmit_jiffies :: u64
  ph_region :: user_region
  ph_total_length :: nat
  ph_pulled_rdma_offset :: nat
  ph_status :: omx_pull_handle_status
  remaining_length :: nat
  frame_index :: nat
  next_frame_index :: nat
  nr_requested_frames :: nat
  nr_missing_frames :: nat
  nr_valid_block_descs :: nat
  already_rerequested_blocks :: nat
  block_desc :: "omx_pull_block_desc list"
  host_copy_nr_frames :: nat
  done_event :: omx_evt_pull_done
  pkt_hdr :: pull_request

definition omx_pull_handle_append_needed_frames :: "nat \<Rightarrow> nat \<Rightarrow> omx_pull_handle \<Rightarrow> omx_pull_handle" where
  "omx_pull_handle_append_needed_frames block_length first_frame_offset h =
     (let new_frames = (first_frame_offset + block_length + OMX_PULL_REPLY_LENGTH_MAX - 1) div OMX_PULL_REPLY_LENGTH_MAX;
          new_mask = drop_bit (OMX_PULL_REPLY_PER_BLOCK - new_frames) (- 1);
          desc = \<lparr>bd_frame_index = next_frame_index h, bd_block_length = block_length,
                  bd_first_frame_offset = first_frame_offset, frames_missing_bitmap = new_mask\<rparr>
      in h\<lparr>block_desc := (block_desc h)[nr_valid_block_descs h := desc],
           nr_requested_frames := nr_requested_frames h + new_frames,
           nr_missing_frames := nr_missing_frames h + new_frames,
           next_frame_index := next_frame_index h + new_frames,
           remaining_length := remaining_length h - block_length,
           nr_valid_block_descs := nr_valid_block_descs h + 1\<rparr>)"

text \<open>The valid descriptors move down by one; the bitmap of the last one is cleared.\<close>

definition move_descs :: "nat \<Rightarrow> omx_pull_block_desc list \<Rightarrow> omx_pull_block_desc list" where
  "move_descs nr ds = (let ds1 = take nr (drop 1 ds) @ drop nr ds;
                           i = OMX_PULL_BLOCK_DESCS_NR - 1
                       in ds1[i := (ds1 ! i)\<lparr>frames_missing_bitmap := 0\<rparr>])"

definition omx_pull_handle_first_block_done :: "omx_pull_handle \<Rightarrow> omx_pull_handle" where
  "omx_pull_handle_first_block_done h =
     (let first_block_frames = min (nr_requested_frames h) OMX_PULL_REPLY_PER_BLOCK;
          nr = nr_valid_block_descs h - 1
      in h\<lparr>frame_index := frame_index h + first_block_frames,
           nr_requested_frames := nr_requested_frames h - first_block_frames,
           nr_valid_block_descs := nr,
           already_rerequested_blocks := already_rerequested_blocks h - 1,
           block_desc := move_descs nr (block_desc h)\<rparr>)"

definition omx_fill_pull_block_request :: "omx_pull_handle \<Rightarrow> nat \<Rightarrow> pull_request" where
  "omx_fill_pull_block_request h i =
     (let desc = block_desc h ! i
      in (pkt_hdr h)\<lparr>pq_block_length := bd_block_length desc,
           pq_first_frame_offset := bd_first_frame_offset desc, pq_frame_index := bd_frame_index desc\<rparr>)"

text \<open>The requests for some blocks in turn, up to the first for which there is no memory.\<close>

definition request_blocks :: "(nat \<Rightarrow> bool) \<Rightarrow> omx_pull_handle \<Rightarrow> nat list \<Rightarrow> pull_request list" where
  "request_blocks skb_ok h is = map (omx_fill_pull_block_request h) (takeWhile skb_ok is)"

function append_blocks :: "omx_pull_handle \<Rightarrow> omx_pull_handle" where
  "append_blocks h =
     (if nr_valid_block_descs h < OMX_PULL_BLOCK_DESCS_NR \<and> remaining_length h \<noteq> 0
      then append_blocks (omx_pull_handle_append_needed_frames (min OMX_PULL_BLOCK_LENGTH_MAX (remaining_length h)) 0 h)
      else h)"
  by pat_completeness auto

termination
  by (relation "measure (\<lambda>h. OMX_PULL_BLOCK_DESCS_NR - nr_valid_block_descs h)")
    (auto simp: omx_pull_handle_append_needed_frames_def Let_def)

declare append_blocks.simps [simp del]

text \<open>
  The first requests of a pull. \<^term>\<open>None\<close>: a pull of nothing that starts at the beginning of a frame
  shifts the bitmap by its whole width, which C does not define.
\<close>

definition pull_first_requests :: "(nat \<Rightarrow> bool) \<Rightarrow> omx_pull_handle \<Rightarrow> (omx_pull_handle \<times> pull_request list) option" where
  "pull_first_requests skb_ok h = do {
     let offset_in_frame = ph_pulled_rdma_offset h mod OMX_PULL_REPLY_LENGTH_MAX;
     let block_length = min (OMX_PULL_BLOCK_LENGTH_MAX - offset_in_frame) (remaining_length h);
     c_assert (0 < offset_in_frame + block_length);
     let h1 = append_blocks (omx_pull_handle_append_needed_frames block_length offset_in_frame h);
     Some (h1, request_blocks skb_ok h1 [0..<nr_valid_block_descs h1])
   }"

subsection \<open>The timeout\<close>

definition missing_in :: "omx_pull_handle \<Rightarrow> nat \<Rightarrow> bool" where
  "missing_in h i \<longleftrightarrow> frames_missing_bitmap (block_desc h ! i) \<noteq> 0"

definition omx_progress_pull_on_handle_timeout_handle_locked ::
  "(nat \<Rightarrow> bool) \<Rightarrow> omx_pull_handle \<Rightarrow> omx_pull_handle \<times> pull_request list"
where
  "omx_progress_pull_on_handle_timeout_handle_locked skb_ok h =
     (let h1 = (if skb_ok 0 then h\<lparr>already_rerequested_blocks := 0\<rparr> else h)
      in (h1, request_blocks skb_ok h1 (0 # filter (missing_in h1) [1..<OMX_PULL_BLOCK_DESCS_NR])))"

text \<open>The comparison of times by the sign of their difference.\<close>

definition time_after64 :: "u64 \<Rightarrow> u64 \<Rightarrow> bool" where
  "time_after64 a b \<longleftrightarrow> sint (b - a) < 0"

subsection \<open>A reply\<close>

text \<open>
  The checks of a reply against the window of requested frames; the result is the number of the
  frame in the window, when it is still missing.
\<close>

definition reply_frame :: "omx_pull_handle \<Rightarrow> pull_reply \<Rightarrow> nat option" where
  "reply_frame h r =
     (let off = (pr_frame_seqnum r + 256 - frame_index h mod 256) mod 256
      in if (pr_msg_offset r + OMX_PULL_REPLY_LENGTH_MAX - 1) mod 2 ^ 32 div OMX_PULL_REPLY_LENGTH_MAX
              \<noteq> frame_index h + off then None
         else if off \<ge> nr_requested_frames h then None
         else if \<not> bit (frames_missing_bitmap (block_desc h ! (off div OMX_PULL_REPLY_PER_BLOCK)))
                   (off mod OMX_PULL_REPLY_PER_BLOCK) then None
         else Some off)"

definition frame_received :: "nat \<Rightarrow> omx_pull_handle \<Rightarrow> omx_pull_handle" where
  "frame_received off h =
     (let i = off div OMX_PULL_REPLY_PER_BLOCK; desc = block_desc h ! i
      in h\<lparr>block_desc := (block_desc h)[i := desc\<lparr>frames_missing_bitmap :=
               frames_missing_bitmap desc AND NOT (push_bit (off mod OMX_PULL_REPLY_PER_BLOCK) 1)\<rparr>],
           nr_missing_frames := nr_missing_frames h - 1\<rparr>)"

text \<open>Dropping the blocks at the front that are complete, at most \<open>n\<close> of them.\<close>

fun drop_done :: "nat \<Rightarrow> omx_pull_handle \<Rightarrow> omx_pull_handle" where
  "drop_done 0 h = h"
| "drop_done (Suc n) h =
     (if nr_valid_block_descs h = 0 \<or> missing_in h 0 then h
      else drop_done n (omx_pull_handle_first_block_done h))"

definition omx_progress_pull_on_recv_pull_reply_locked ::
  "(nat \<Rightarrow> bool) \<Rightarrow> nat \<Rightarrow> omx_pull_handle \<Rightarrow> omx_pull_handle \<times> pull_request list"
where
  "omx_progress_pull_on_recv_pull_reply_locked skb_ok idesc h =
     (let completed_block = (\<not> missing_in h idesc)
      in if missing_in h 0
         then if completed_block \<and> idesc > 0 \<and> already_rerequested_blocks h < idesc
              then let is = filter (missing_in h) [already_rerequested_blocks h..<idesc];
                       sent = takeWhile skb_ok is
                   in (if sent = [] then h else h\<lparr>already_rerequested_blocks := last sent + 1\<rparr>,
                       request_blocks skb_ok h is)
              else (h, [])
         else let h1 = drop_done (OMX_PULL_BLOCK_DESCS_NR - 1) (omx_pull_handle_first_block_done h);
                  first_block = nr_valid_block_descs h1;
                  h2 = append_blocks h1
              in (h2, request_blocks skb_ok h2 [first_block..<nr_valid_block_descs h2]))"

text \<open>
  The first critical section of \<open>omx_recv_pull_reply\<close>: \<^term>\<open>None\<close> if the frame is not wanted; otherwise
  the frame counts as received, its copy is pending, and more blocks may be requested.
\<close>

definition reply_locked ::
  "(nat \<Rightarrow> bool) \<Rightarrow> pull_reply \<Rightarrow> omx_pull_handle \<Rightarrow> (omx_pull_handle \<times> pull_request list) option"
where
  "reply_locked skb_ok r h =
     (if ph_status h \<noteq> PULL_STATUS_OK then None
      else case reply_frame h r of
        None \<Rightarrow> None
      | Some off \<Rightarrow>
          let h1 = frame_received off h;
              h2 = h1\<lparr>host_copy_nr_frames := host_copy_nr_frames h1 + 1\<rparr>
          in Some (omx_progress_pull_on_recv_pull_reply_locked skb_ok (off div OMX_PULL_REPLY_PER_BLOCK) h2))"

text \<open>The second one, after the copy; whether the pull is complete.\<close>

definition copy_done :: "omx_pull_handle \<Rightarrow> bool \<times> omx_pull_handle" where
  "copy_done h =
     (let h1 = h\<lparr>host_copy_nr_frames := host_copy_nr_frames h - 1\<rparr>
      in (ph_status h1 = PULL_STATUS_OK \<and> remaining_length h1 = 0 \<and> nr_missing_frames h1 = 0
            \<and> host_copy_nr_frames h1 = 0, h1))"

end
