(* ===== verification/Pull_Window.thy ===== *)
theory Pull_Window
  imports Pull
begin

text \<open>
  The window of a pull: which frames of the message are requested and which of them are missing.
  A message of \<open>T\<close> bytes that starts at offset \<open>off\<close> of a frame is the range \<open>off..<N\<close>, \<open>N = off + T\<close>, of
  a sequence of frames, of which the \<open>k\<close>-th holds \<open>k * L..<(k + 1) * L\<close>; blocks are groups of 32 frames.
  \<open>window\<close> says of a handle that its descriptors are successive blocks from the \<open>b\<close>-th one on; every
  operation on a handle keeps it.
\<close>

lemma per_block [simp]: "OMX_PULL_REPLY_PER_BLOCK = 32" by (simp add: OMX_PULL_REPLY_PER_BLOCK_def)
lemma descs_nr [simp]: "OMX_PULL_BLOCK_DESCS_NR = 4" by (simp add: OMX_PULL_BLOCK_DESCS_NR_def)

abbreviation RL :: nat where "RL \<equiv> OMX_PULL_REPLY_LENGTH_MAX"

definition nframes :: "nat \<Rightarrow> nat" where
  "nframes N = (N + RL - 1) div RL"

lemma lt_nframes: "k < nframes N \<longleftrightarrow> k * RL < N"
proof -
  have "k < nframes N \<longleftrightarrow> Suc k \<le> nframes N" by (rule Suc_le_eq [symmetric])
  also have "\<dots> \<longleftrightarrow> Suc k * RL \<le> N + RL - 1"
    unfolding nframes_def by (rule less_eq_div_iff_mult_less_eq) simp
  also have "\<dots> \<longleftrightarrow> k * RL < N"
    using reply_length_max(1) by (cases RL) auto
  finally show ?thesis .
qed

lemma nat_eq_if_lt: "(\<And>k. k < a \<longleftrightarrow> k < (b :: nat)) \<Longrightarrow> a = b"
proof -
  assume "\<And>k. k < a \<longleftrightarrow> k < b"
  from this [of a] this [of b] show "a = b" by simp
qed

lemma nframes_block: "nframes (min N (32 * (j + 1) * RL) - 32 * j * RL) = min (nframes N) (32 * (j + 1)) - 32 * j"
proof (rule nat_eq_if_lt)
  fix k
  have "k * RL < min N y - x \<longleftrightarrow> k * RL + x < N \<and> k * RL + x < y" for x y
    by auto
  then have "k * RL < min N (32 * (j + 1) * RL) - 32 * j * RL
      \<longleftrightarrow> (k + 32 * j) * RL < N \<and> (k + 32 * j) * RL < 32 * (j + 1) * RL"
    by (simp only: distrib_right)
  then have "k < nframes (min N (32 * (j + 1) * RL) - 32 * j * RL)
      \<longleftrightarrow> (k + 32 * j) * RL < N \<and> (k + 32 * j) * RL < 32 * (j + 1) * RL"
    by (simp only: lt_nframes)
  moreover have "(k + 32 * j) * RL < 32 * (j + 1) * RL \<longleftrightarrow> k + 32 * j < 32 * (j + 1)"
    by simp
  moreover have "k < min (nframes N) (32 * (j + 1)) - 32 * j \<longleftrightarrow> k + 32 * j < nframes N \<and> k + 32 * j < 32 * (j + 1)"
    by auto
  ultimately show "k < nframes (min N (32 * (j + 1) * RL) - 32 * j * RL) \<longleftrightarrow> k < min (nframes N) (32 * (j + 1)) - 32 * j"
    by (simp only: lt_nframes)
qed

lemma bit_new_mask: "n \<le> 32 \<Longrightarrow> bit (drop_bit (32 - n) (- 1 :: u32)) t \<longleftrightarrow> t < n"
  by (auto simp: bit_simps)

lemma mask_nonzero: "(w :: u32) \<noteq> 0 \<longleftrightarrow> (\<exists>t. bit w t)"
  by (metis bit_0_eq bot_apply bot_bool_def bit_eq_iff)

subsection \<open>The window\<close>

definition block_ok :: "nat \<Rightarrow> nat \<Rightarrow> nat \<Rightarrow> omx_pull_block_desc \<Rightarrow> bool" where
  "block_ok N off j d \<longleftrightarrow> bd_frame_index d = 32 * j \<and> bd_first_frame_offset d = (if j = 0 then off else 0)
     \<and> bd_block_length d = min N (32 * (j + 1) * RL) - (32 * j * RL + bd_first_frame_offset d)
     \<and> (\<forall>t. bit (frames_missing_bitmap d) t \<longrightarrow> t < min (nframes N) (32 * (j + 1)) - 32 * j)"

text \<open>The frames that are requested and missing.\<close>

definition missing :: "omx_pull_handle \<Rightarrow> nat set" where
  "missing h = {k. \<exists>i < nr_valid_block_descs h. \<exists>t < 32.
     bit (frames_missing_bitmap (block_desc h ! i)) t \<and> k = frame_index h + 32 * i + t}"

definition window :: "nat \<Rightarrow> nat \<Rightarrow> nat \<Rightarrow> omx_pull_handle \<Rightarrow> bool" where
  "window N off b h \<longleftrightarrow> nr_valid_block_descs h \<le> 4 \<and> length (block_desc h) = 4
     \<and> frame_index h = min (nframes N) (32 * b)
     \<and> next_frame_index h = min (nframes N) (32 * (b + nr_valid_block_descs h))
     \<and> nr_requested_frames h = next_frame_index h - frame_index h
     \<and> remaining_length h = (if b + nr_valid_block_descs h = 0 then N - off
          else N - 32 * (b + nr_valid_block_descs h) * RL)
     \<and> (\<forall>i < nr_valid_block_descs h. 32 * (b + i) < nframes N \<and> block_ok N off (b + i) (block_desc h ! i))
     \<and> nr_missing_frames h = card (missing h)"

lemma finite_missing [simp]: "finite (missing h)"
proof (rule finite_subset)
  show "missing h \<subseteq> {..frame_index h + 32 * nr_valid_block_descs h + 32}" by (auto simp: missing_def)
qed simp

lemma windowD:
  assumes "window N off b h"
  shows "nr_valid_block_descs h \<le> 4" "length (block_desc h) = 4" "frame_index h = min (nframes N) (32 * b)"
    and "next_frame_index h = min (nframes N) (32 * (b + nr_valid_block_descs h))"
    and "nr_requested_frames h = next_frame_index h - frame_index h"
    and "i < nr_valid_block_descs h \<Longrightarrow> 32 * (b + i) < nframes N"
    and "i < nr_valid_block_descs h \<Longrightarrow> block_ok N off (b + i) (block_desc h ! i)"
    and "nr_missing_frames h = card (missing h)"
  using assms unfolding window_def by auto

lemma window_frame_index:
  assumes "window N off b h" and "nr_valid_block_descs h \<noteq> 0"
  shows "frame_index h = 32 * b"
  using windowD(3) [OF assms(1)] windowD(6) [OF assms(1), of 0] assms(2) by simp

text \<open>A missing frame is inside the window and inside the message.\<close>

lemma missing_bounds:
  assumes w: "window N off b h" and k: "k \<in> missing h"
  shows "frame_index h \<le> k" "k < frame_index h + nr_requested_frames h" "k < nframes N"
proof -
  obtain i t where i: "i < nr_valid_block_descs h" "t < 32" "bit (frames_missing_bitmap (block_desc h ! i)) t"
      "k = frame_index h + 32 * i + t"
    using k by (auto simp: missing_def)
  have "frame_index h = 32 * b" using window_frame_index [OF w] i(1) by simp
  moreover have "t < min (nframes N) (32 * (b + i + 1)) - 32 * (b + i)"
    using windowD(7) [OF w i(1)] i(3) by (simp add: block_ok_def)
  ultimately have "k < nframes N" "k < 32 * (b + i + 1)" using i(4) by auto
  moreover have "b + i + 1 \<le> b + nr_valid_block_descs h" using i(1) by simp
  ultimately have "k < next_frame_index h" unfolding windowD(4) [OF w] by simp
  with \<open>k < nframes N\<close> i(4) show "frame_index h \<le> k" "k < frame_index h + nr_requested_frames h" "k < nframes N"
    unfolding windowD(5) [OF w] by simp_all
qed

text \<open>The descriptor and the bit of a requested frame.\<close>

lemma missing_iff:
  assumes w: "window N off b h" and off': "o' < nr_requested_frames h"
  shows "frame_index h + o' \<in> missing h
    \<longleftrightarrow> bit (frames_missing_bitmap (block_desc h ! (o' div 32))) (o' mod 32)"
    and "o' div 32 < nr_valid_block_descs h"
proof -
  have nv: "nr_valid_block_descs h \<noteq> 0"
    using off' windowD(3-5) [OF w] by (cases "nr_valid_block_descs h") auto
  have "frame_index h + o' < 32 * (b + nr_valid_block_descs h)"
    using off' windowD(4,5) [OF w] by simp
  with window_frame_index [OF w nv] have "o' < 32 * nr_valid_block_descs h" by simp
  then show d: "o' div 32 < nr_valid_block_descs h" by (simp add: less_mult_imp_div_less mult.commute)
  show "frame_index h + o' \<in> missing h
    \<longleftrightarrow> bit (frames_missing_bitmap (block_desc h ! (o' div 32))) (o' mod 32)"
  proof
    assume "frame_index h + o' \<in> missing h"
    then obtain i t where "t < 32" "bit (frames_missing_bitmap (block_desc h ! i)) t" "o' = 32 * i + t"
      by (auto simp: missing_def)
    then show "bit (frames_missing_bitmap (block_desc h ! (o' div 32))) (o' mod 32)" by simp
  next
    assume "bit (frames_missing_bitmap (block_desc h ! (o' div 32))) (o' mod 32)"
    with d show "frame_index h + o' \<in> missing h"
      unfolding missing_def by (intro CollectI exI [of _ "o' div 32"] exI [of _ "o' mod 32"] conjI) simp_all
  qed
qed

subsection \<open>A frame is received\<close>

lemma frame_received:
  assumes w: "window N off b h" and o: "o' < nr_requested_frames h" and m: "frame_index h + o' \<in> missing h"
  shows "window N off b (frame_received o' h)" and "missing (frame_received o' h) = missing h - {frame_index h + o'}"
proof -
  let ?i = "o' div 32" and ?t = "o' mod 32"
  let ?h = "frame_received o' h"
  have i: "?i < nr_valid_block_descs h" by (rule missing_iff(2) [OF w o])
  then have i4: "?i < length (block_desc h)" using windowD(1,2) [OF w] by simp
  have sel: "nr_valid_block_descs ?h = nr_valid_block_descs h" "frame_index ?h = frame_index h"
    "next_frame_index ?h = next_frame_index h" "nr_requested_frames ?h = nr_requested_frames h"
    "remaining_length ?h = remaining_length h" "length (block_desc ?h) = length (block_desc h)"
    "nr_missing_frames ?h = nr_missing_frames h - 1"
    by (simp_all add: frame_received_def Let_def)
  have bits: "bit (frames_missing_bitmap (block_desc ?h ! j)) t
      \<longleftrightarrow> bit (frames_missing_bitmap (block_desc h ! j)) t \<and> \<not> (j = ?i \<and> t = ?t)" if "j < 4" "t < 32" for j t
    using i4 that by (auto simp: frame_received_def Let_def nth_list_update bit_simps)
  show missing: "missing ?h = missing h - {frame_index h + o'}"
  proof (rule set_eqI)
    fix k
    have "32 * j + t = o' \<longleftrightarrow> j = ?i \<and> t = ?t" if "t < 32" for j t
      using that by auto
    then show "k \<in> missing ?h \<longleftrightarrow> k \<in> missing h - {frame_index h + o'}"
      using windowD(1) [OF w] bits by (auto simp: missing_def sel add.assoc)
  qed
  have "block_ok N off (b + j) (block_desc ?h ! j)" if j: "j < nr_valid_block_descs h" for j
  proof -
    have "bit (frames_missing_bitmap (block_desc ?h ! j)) t \<Longrightarrow> bit (frames_missing_bitmap (block_desc h ! j)) t" for t
      using i4 by (auto simp: frame_received_def Let_def nth_list_update bit_simps split: if_splits)
    moreover have "bd_frame_index (block_desc ?h ! j) = bd_frame_index (block_desc h ! j)"
      "bd_first_frame_offset (block_desc ?h ! j) = bd_first_frame_offset (block_desc h ! j)"
      "bd_block_length (block_desc ?h ! j) = bd_block_length (block_desc h ! j)"
      using i4 by (auto simp: frame_received_def Let_def nth_list_update)
    ultimately show ?thesis using windowD(7) [OF w j] by (simp add: block_ok_def)
  qed
  moreover have "card (missing ?h) = card (missing h) - 1"
    using m by (simp add: missing)
  ultimately show "window N off b ?h"
    using w by (simp add: window_def sel)
qed

subsection \<open>The first block is done\<close>

lemma move_descs_nth: "length ds = 4 \<Longrightarrow> i < nr \<Longrightarrow> nr \<le> 3 \<Longrightarrow> move_descs nr ds ! i = ds ! Suc i"
  by (simp add: move_descs_def Let_def nth_append nth_list_update)

lemma length_move_descs: "length ds = 4 \<Longrightarrow> nr \<le> 3 \<Longrightarrow> length (move_descs nr ds) = 4"
  by (simp add: move_descs_def Let_def)

lemma first_block_done:
  assumes w: "window N off b h" and nv: "nr_valid_block_descs h \<noteq> 0" and complete: "\<not> missing_in h 0"
  shows "window N off (b + 1) (omx_pull_handle_first_block_done h)"
    and "missing (omx_pull_handle_first_block_done h) = missing h"
    and "nr_valid_block_descs (omx_pull_handle_first_block_done h) = nr_valid_block_descs h - 1"
    and "next_frame_index (omx_pull_handle_first_block_done h) = next_frame_index h"
proof -
  let ?h = "omx_pull_handle_first_block_done h"
  define n where "n = nr_valid_block_descs h - 1"
  have n: "nr_valid_block_descs h = Suc n" "n \<le> 3" using nv windowD(1) [OF w] by (auto simp: n_def)
  note fi = window_frame_index [OF w nv]
  have req: "nr_requested_frames h = min (nframes N) (32 * (b + Suc n)) - 32 * b"
    using windowD(4,5) [OF w] fi n by simp
  have sel: "nr_valid_block_descs ?h = n" "next_frame_index ?h = next_frame_index h"
    "remaining_length ?h = remaining_length h" "nr_missing_frames ?h = nr_missing_frames h"
    "block_desc ?h = move_descs n (block_desc h)"
    "frame_index ?h = frame_index h + min (nr_requested_frames h) 32"
    "nr_requested_frames ?h = nr_requested_frames h - min (nr_requested_frames h) 32"
    using n by (simp_all add: omx_pull_handle_first_block_done_def Let_def)
  have fi': "frame_index ?h = min (nframes N) (32 * (b + 1))"
    using fi req windowD(6) [OF w, of 0] n by (simp add: sel)
  have descs: "block_desc ?h ! i = block_desc h ! Suc i" if "i < n" for i
    using move_descs_nth [OF windowD(2) [OF w] that n(2)] by (simp add: sel)
  have blocks: "32 * (b + 1 + i) < nframes N \<and> block_ok N off (b + 1 + i) (block_desc ?h ! i)" if "i < n" for i
    using windowD(6,7) [OF w, of "Suc i"] that n by (simp add: descs)
  show missing: "missing ?h = missing h"
  proof (rule set_eqI)
    fix k
    have no0: "\<not> bit (frames_missing_bitmap (block_desc h ! 0)) t" for t
      using complete by (simp add: missing_in_def)
    have "k \<in> missing ?h \<longleftrightarrow> (\<exists>i<n. \<exists>t<32. bit (frames_missing_bitmap (block_desc h ! Suc i)) t \<and> k = frame_index ?h + 32 * i + t)"
      unfolding missing_def using descs by (auto simp: sel)
    also have "\<dots> \<longleftrightarrow> (\<exists>i<n. \<exists>t<32. bit (frames_missing_bitmap (block_desc h ! Suc i)) t \<and> k = frame_index h + 32 * Suc i + t)"
    proof (rule ex_cong1, rule conj_cong [OF refl])
      fix i
      assume "i < n"
      then have "frame_index ?h = frame_index h + 32"
        using fi' fi windowD(6) [OF w, of 1] n by simp
      then show "(\<exists>t<32. bit (frames_missing_bitmap (block_desc h ! Suc i)) t \<and> k = frame_index ?h + 32 * i + t)
          \<longleftrightarrow> (\<exists>t<32. bit (frames_missing_bitmap (block_desc h ! Suc i)) t \<and> k = frame_index h + 32 * Suc i + t)"
        by (simp add: add.assoc)
    qed
    also have "\<dots> \<longleftrightarrow> k \<in> missing h"
      unfolding missing_def n(1) using no0 by (auto simp: less_Suc_eq_0_disj)
    finally show "k \<in> missing ?h \<longleftrightarrow> k \<in> missing h" .
  qed
  show "nr_valid_block_descs ?h = nr_valid_block_descs h - 1" "next_frame_index ?h = next_frame_index h"
    by (simp_all add: sel n)
  show "window N off (b + 1) ?h"
    unfolding window_def
  proof (intro conjI allI impI)
    show "nr_requested_frames ?h = next_frame_index ?h - frame_index ?h"
      using windowD(5) [OF w] by (simp add: sel)
    show "next_frame_index ?h = min (nframes N) (32 * (b + 1 + nr_valid_block_descs ?h))"
      using windowD(4) [OF w] n by (simp add: sel)
    show "remaining_length ?h = (if b + 1 + nr_valid_block_descs ?h = 0 then N - off
        else N - 32 * (b + 1 + nr_valid_block_descs ?h) * RL)"
      using w n by (simp add: window_def sel)
    show "length (block_desc ?h) = 4" using length_move_descs [OF windowD(2) [OF w] n(2)] by (simp add: sel)
    show "nr_missing_frames ?h = card (missing ?h)" using windowD(8) [OF w] by (simp add: sel missing)
  qed (use n fi' blocks in \<open>auto simp: sel(1)\<close>)
qed

subsection \<open>A block is requested\<close>

definition next_offset :: "nat \<Rightarrow> nat \<Rightarrow> omx_pull_handle \<Rightarrow> nat" where
  "next_offset off b h = (if b + nr_valid_block_descs h = 0 then off else 0)"

lemma append_needed_frames:
  assumes w: "window N off b h" and nv: "nr_valid_block_descs h < 4" and rem: "remaining_length h \<noteq> 0"
    and off: "off < RL"
  defines "bl \<equiv> min (OMX_PULL_BLOCK_LENGTH_MAX - next_offset off b h) (remaining_length h)"
  defines "h' \<equiv> omx_pull_handle_append_needed_frames bl (next_offset off b h) h"
  shows "window N off b h'"
    and "missing h' = missing h \<union> {next_frame_index h..<next_frame_index h'}"
    and "nr_valid_block_descs h' = nr_valid_block_descs h + 1"
    and "missing_in h' (nr_valid_block_descs h)"
    and "next_frame_index h \<le> next_frame_index h'"
proof -
  define n where "n = nr_valid_block_descs h"
  define j where "j = b + n"
  let ?ffo = "next_offset off b h"
  have n: "n \<le> 3" "nr_valid_block_descs h = n" using nv by (simp_all add: n_def)
  have ffo: "?ffo = (if j = 0 then off else 0)" by (simp add: next_offset_def j_def n_def)
  have rem_eq: "remaining_length h = N - (32 * j * RL + ?ffo)"
    using w by (simp add: window_def ffo j_def n_def)
  then have jN: "32 * j * RL < N" using rem by simp
  then have jn: "32 * j < nframes N" by (simp add: lt_nframes)
  have nfi: "next_frame_index h = 32 * j" using windowD(4) [OF w] jn by (simp add: j_def n_def)
  have full: "OMX_PULL_BLOCK_LENGTH_MAX = 32 * RL" by (simp add: OMX_PULL_BLOCK_LENGTH_MAX_def)
  have bl: "bl = min N (32 * (j + 1) * RL) - (32 * j * RL + ?ffo)"
    unfolding bl_def rem_eq full by (auto simp: algebra_simps ffo)
  have ffo_le: "32 * j * RL + ?ffo \<le> min N (32 * (j + 1) * RL)"
    using rem rem_eq off by (auto simp: ffo algebra_simps)
  then have sum: "?ffo + bl = min N (32 * (j + 1) * RL) - 32 * j * RL"
    unfolding bl by linarith
  define nf where "nf = min (nframes N) (32 * (j + 1)) - 32 * j"
  have "(?ffo + bl + RL - 1) div RL = nframes (?ffo + bl)" by (simp add: nframes_def)
  also have "\<dots> = nf" unfolding sum nf_def by (rule nframes_block)
  finally have frames: "(?ffo + bl + RL - Suc 0) div RL = nf" by simp
  have nf32: "0 < nf" "nf \<le> 32" using jn by (auto simp: nf_def)
  have sel: "nr_valid_block_descs h' = n + 1" "frame_index h' = frame_index h"
    "next_frame_index h' = next_frame_index h + nf" "nr_requested_frames h' = nr_requested_frames h + nf"
    "remaining_length h' = remaining_length h - bl" "nr_missing_frames h' = nr_missing_frames h + nf"
    by (simp_all add: h'_def omx_pull_handle_append_needed_frames_def Let_def frames n_def)
  have len: "length (block_desc h') = 4" "n < length (block_desc h)"
    using windowD(2) [OF w] n by (simp_all add: h'_def omx_pull_handle_append_needed_frames_def Let_def)
  have old: "block_desc h' ! i = block_desc h ! i" if "i < n" for i
    using that by (simp add: h'_def omx_pull_handle_append_needed_frames_def Let_def n_def)
  have new: "block_desc h' ! n = \<lparr>bd_frame_index = 32 * j, bd_block_length = bl, bd_first_frame_offset = ?ffo,
      frames_missing_bitmap = drop_bit (32 - nf) (- 1)\<rparr>"
    using len(2) by (simp add: h'_def omx_pull_handle_append_needed_frames_def Let_def n_def frames nfi [unfolded n_def])
  have bits: "bit (frames_missing_bitmap (block_desc h' ! n)) t \<longleftrightarrow> t < nf" for t
    using bit_new_mask [OF nf32(2), of t] by (simp add: new)
  have "frame_index h \<le> 32 * j \<and> (n = 0 \<longrightarrow> frame_index h = 32 * j)"
    using windowD(3) [OF w] jn by (auto simp: j_def)
  moreover have fi: "frame_index h = 32 * b" if "n \<noteq> 0" using window_frame_index [OF w] that by (simp add: n_def)
  ultimately have fij: "frame_index h + 32 * n = 32 * j" by (cases "n = 0") (auto simp: j_def)
  show missing: "missing h' = missing h \<union> {next_frame_index h..<next_frame_index h'}"
  proof (rule set_eqI)
    fix k
    have "k \<in> missing h' \<longleftrightarrow> (\<exists>i < Suc n. \<exists>t<32. bit (frames_missing_bitmap (block_desc h' ! i)) t \<and> k = frame_index h + 32 * i + t)"
      by (simp add: missing_def sel)
    also have "\<dots> \<longleftrightarrow> k \<in> missing h \<or> (\<exists>t<32. t < nf \<and> k = frame_index h + 32 * n + t)"
      using old by (auto simp: less_Suc_eq missing_def bits n(2))
    also have "(\<exists>t<32. t < nf \<and> k = frame_index h + 32 * n + t) \<longleftrightarrow> k \<in> {next_frame_index h..<next_frame_index h'}"
      using nf32 by (auto simp: sel nfi fij intro!: exI [of _ "k - 32 * j"])
    finally show "k \<in> missing h' \<longleftrightarrow> k \<in> missing h \<union> {next_frame_index h..<next_frame_index h'}" by simp
  qed
  show "nr_valid_block_descs h' = nr_valid_block_descs h + 1" "next_frame_index h \<le> next_frame_index h'"
    by (simp_all add: sel n)
  show "missing_in h' (nr_valid_block_descs h)"
    using bits [of 0] nf32 mask_nonzero by (auto simp: missing_in_def n(2))
  have card: "card (missing h') = card (missing h) + nf"
  proof -
    have "missing h \<inter> {next_frame_index h..<next_frame_index h'} = {}"
      using missing_bounds [OF w] windowD(5) [OF w] by fastforce
    then show ?thesis by (simp add: missing card_Un_disjoint sel)
  qed
  have next': "next_frame_index h' = min (nframes N) (32 * (b + nr_valid_block_descs h'))"
    using jn by (simp add: sel nfi nf_def j_def)
  have blocks: "32 * (b + i) < nframes N \<and> block_ok N off (b + i) (block_desc h' ! i)" if "i < n + 1" for i
  proof (cases "i = n")
    case True
    have "block_ok N off j (block_desc h' ! n)"
      unfolding block_ok_def bits nf_def [symmetric] by (simp add: new bl ffo)
    with True jn show ?thesis by (simp add: j_def)
  next
    case False
    with that have "i < n" by simp
    with windowD(6,7) [OF w, of i] old show ?thesis by (simp add: n(2))
  qed
  show "window N off b h'"
    unfolding window_def
  proof (intro conjI allI impI)
    show "remaining_length h' = (if b + nr_valid_block_descs h' = 0 then N - off else N - 32 * (b + nr_valid_block_descs h') * RL)"
      using ffo_le by (simp add: sel rem_eq bl j_def [symmetric])
    show "nr_requested_frames h' = next_frame_index h' - frame_index h'"
      using windowD(5) [OF w] nfi fij by (simp add: sel)
    show "nr_missing_frames h' = card (missing h')" using windowD(8) [OF w] by (simp add: sel card)
  qed (use n len next' blocks windowD(3) [OF w] in \<open>auto simp: sel(1,2)\<close>)
qed

text \<open>What holds of a handle outside of its critical sections.\<close>

definition pipelined :: "omx_pull_handle \<Rightarrow> bool" where
  "pipelined h \<longleftrightarrow> (remaining_length h \<noteq> 0 \<longrightarrow> nr_valid_block_descs h = 4)
     \<and> (nr_valid_block_descs h \<noteq> 0 \<longrightarrow> missing_in h 0)"

definition extends :: "nat \<Rightarrow> nat \<Rightarrow> nat \<Rightarrow> omx_pull_handle \<Rightarrow> omx_pull_handle \<Rightarrow> bool" where
  "extends N off b h h' \<longleftrightarrow> window N off b h' \<and> next_frame_index h \<le> next_frame_index h'
     \<and> missing h' = missing h \<union> {next_frame_index h..<next_frame_index h'}"

lemma extends_refl: "window N off b h \<Longrightarrow> extends N off b h h"
  by (simp add: extends_def)

lemma extends_trans: "extends N off b h h' \<Longrightarrow> extends N off b h' h'' \<Longrightarrow> extends N off b h h''"
  by (auto simp: extends_def)

lemma append_blocks:
  assumes "off < RL"
  shows "window N off b h \<Longrightarrow> b + nr_valid_block_descs h \<noteq> 0 \<Longrightarrow> (nr_valid_block_descs h \<noteq> 0 \<longrightarrow> missing_in h 0) \<Longrightarrow>
     extends N off b h (append_blocks h) \<and> pipelined (append_blocks h)"
proof (induction h rule: append_blocks.induct)
  case (1 h)
  show ?case
  proof (cases "nr_valid_block_descs h < 4 \<and> remaining_length h \<noteq> 0")
    case False
    then have "append_blocks h = h" by (subst append_blocks.simps) auto
    with 1 False windowD(1) [OF "1.prems"(1)] show ?thesis by (auto simp: pipelined_def extends_refl)
  next
    case True
    let ?h = "omx_pull_handle_append_needed_frames (min OMX_PULL_BLOCK_LENGTH_MAX (remaining_length h)) 0 h"
    have eq: "append_blocks h = append_blocks ?h" using True by (subst append_blocks.simps) simp
    have no: "next_offset off b h = 0" using "1.prems"(2) by (auto simp: next_offset_def)
    note a = append_needed_frames [OF "1.prems"(1) conjunct1 [OF True] conjunct2 [OF True] assms, unfolded no diff_zero]
    have m0: "missing_in ?h 0"
    proof (cases "nr_valid_block_descs h = 0")
      case True
      with a(4) show ?thesis by simp
    next
      case False
      then have "block_desc ?h ! 0 = block_desc h ! 0"
        by (simp add: omx_pull_handle_append_needed_frames_def Let_def)
      with "1.prems"(3) False show ?thesis by (simp add: missing_in_def)
    qed
    have "extends N off b ?h (append_blocks ?h) \<and> pipelined (append_blocks ?h)"
      by (rule "1.IH") (use True a(1,3) m0 in simp_all)
    moreover have "extends N off b h ?h"
      using a(1,2,5) by (simp add: extends_def)
    ultimately show ?thesis unfolding eq by (blast intro: extends_trans)
  qed
qed

lemma drop_done:
  "window N off b h \<Longrightarrow> nr_valid_block_descs h \<le> n \<Longrightarrow>
     \<exists>b' \<ge> b. window N off b' (drop_done n h) \<and> missing (drop_done n h) = missing h
       \<and> next_frame_index (drop_done n h) = next_frame_index h
       \<and> (nr_valid_block_descs (drop_done n h) \<noteq> 0 \<longrightarrow> missing_in (drop_done n h) 0)"
proof (induction n arbitrary: b h)
  case 0
  then show ?case by auto
next
  case (Suc n)
  show ?case
  proof (cases "nr_valid_block_descs h = 0 \<or> missing_in h 0")
    case True
    with Suc.prems show ?thesis by auto
  next
    case False
    then have c: "nr_valid_block_descs h \<noteq> 0" "\<not> missing_in h 0" by auto
    note f = first_block_done [OF Suc.prems(1) c]
    have "nr_valid_block_descs (omx_pull_handle_first_block_done h) \<le> n" using f(3) Suc.prems(2) by simp
    from Suc.IH [OF f(1) this] False f(2,4) show ?thesis by (auto dest: Suc_leD)
  qed
qed

lemma missing_cong [simp]:
  "missing (h\<lparr>already_rerequested_blocks := x\<rparr>) = missing h" "missing (h\<lparr>host_copy_nr_frames := y\<rparr>) = missing h"
  "missing (h\<lparr>ph_status := z\<rparr>) = missing h" "missing (h\<lparr>refcount := r\<rparr>) = missing h"
  "missing (h\<lparr>done_event := e\<rparr>) = missing h"
  by (simp_all add: missing_def)

lemma window_update [simp]:
  "window N off b (h\<lparr>already_rerequested_blocks := x\<rparr>) = window N off b h"
  "window N off b (h\<lparr>host_copy_nr_frames := y\<rparr>) = window N off b h"
  "window N off b (h\<lparr>ph_status := z\<rparr>) = window N off b h"
  "window N off b (h\<lparr>refcount := r\<rparr>) = window N off b h"
  "window N off b (h\<lparr>done_event := e\<rparr>) = window N off b h"
  by (simp_all add: window_def)

lemma missing_in_cong [simp]:
  "missing_in (h\<lparr>already_rerequested_blocks := x\<rparr>) i = missing_in h i" "missing_in (h\<lparr>host_copy_nr_frames := y\<rparr>) i = missing_in h i"
  "missing_in (h\<lparr>ph_status := z\<rparr>) i = missing_in h i" "missing_in (h\<lparr>refcount := r\<rparr>) i = missing_in h i"
  by (simp_all add: missing_in_def)

text \<open>The progress on a reply keeps the window, drops no missing frame and requests only new ones.\<close>

lemma progress_on_reply:
  assumes w: "window N off b h" and off: "off < RL" and nv: "nr_valid_block_descs h \<noteq> 0"
    and rem: "remaining_length h \<noteq> 0 \<longrightarrow> nr_valid_block_descs h = 4"
    and p: "omx_progress_pull_on_recv_pull_reply_locked skb_ok idesc h = (h', requests)"
  shows "\<exists>b'. extends N off b' h h' \<and> pipelined h'"
proof (cases "missing_in h 0")
  case True
  then have "h' = h \<or> (\<exists>x. h' = h\<lparr>already_rerequested_blocks := x\<rparr>)"
    using p by (auto simp: omx_progress_pull_on_recv_pull_reply_locked_def Let_def split: if_splits)
  with w rem True show ?thesis
    by (auto simp: extends_def pipelined_def intro!: exI [of _ b])
next
  case False
  let ?h1 = "omx_pull_handle_first_block_done h"
  let ?h2 = "drop_done 3 ?h1"
  note f = first_block_done [OF w nv False]
  have "nr_valid_block_descs ?h1 \<le> 3" using f(3) windowD(1) [OF w] by simp
  from drop_done [OF f(1) this] obtain b' where b': "b + 1 \<le> b'" "window N off b' ?h2" "missing ?h2 = missing ?h1"
    "next_frame_index ?h2 = next_frame_index ?h1" "nr_valid_block_descs ?h2 \<noteq> 0 \<longrightarrow> missing_in ?h2 0"
    by blast
  have "extends N off b' ?h2 (append_blocks ?h2) \<and> pipelined (append_blocks ?h2)"
    by (rule append_blocks [OF off b'(2) _ b'(5)]) (use b'(1) in simp)
  moreover have "h' = append_blocks ?h2"
    using p False by (simp add: omx_progress_pull_on_recv_pull_reply_locked_def Let_def)
  ultimately show ?thesis
    using b'(3,4) f(2,4) by (auto simp: extends_def)
qed

text \<open>The start of a pull.\<close>

lemma first_requests:
  assumes h: "nr_valid_block_descs h = 0" "length (block_desc h) = 4" "frame_index h = 0" "next_frame_index h = 0"
      "nr_requested_frames h = 0" "nr_missing_frames h = 0" "remaining_length h = T"
    and T: "T \<noteq> 0" and p: "pull_first_requests skb_ok h = Some (h', requests)"
  defines "off \<equiv> ph_pulled_rdma_offset h mod RL"
  shows "\<exists>b. window (off + T) off b h' \<and> pipelined h' \<and> missing h' = {0..<next_frame_index h'}"
proof -
  have off: "off < RL" by (simp add: off_def)
  have w: "window (off + T) off 0 h" using h by (simp add: window_def missing_def)
  have no: "next_offset off 0 h = off" by (simp add: next_offset_def h(1))
  have "nr_valid_block_descs h < 4" "remaining_length h \<noteq> 0" using h(1,7) T by simp_all
  note a = append_needed_frames [OF w this off, unfolded no]
  let ?h = "omx_pull_handle_append_needed_frames (min (OMX_PULL_BLOCK_LENGTH_MAX - off) (remaining_length h)) off h"
  have "extends (off + T) off 0 ?h (append_blocks ?h) \<and> pipelined (append_blocks ?h)"
    by (rule append_blocks [OF off a(1)]) (use a(3,4) h(1) in simp_all)
  moreover have "h' = append_blocks ?h"
    using p by (simp add: pull_first_requests_def Let_def off_def bind_eq_Some_conv)
  moreover have "missing h = {}" using h(1) by (simp add: missing_def)
  ultimately show ?thesis using a(2) h(4)
    by (intro exI [of _ 0]) (auto simp: extends_def)
qed

text \<open>A pull that has nothing left to request and misses no frame has got every frame.\<close>

lemma window_complete:
  assumes w: "window N off b h" and "off < N" and "remaining_length h = 0" and "0 < next_frame_index h"
  shows "next_frame_index h = nframes N"
proof -
  have b: "b + nr_valid_block_descs h \<noteq> 0"
    using assms(4) windowD(4) [OF w] by (intro notI) simp
  have "N \<le> 32 * (b + nr_valid_block_descs h) * RL"
    using assms(1-3) b by (auto simp: window_def split: if_splits)
  then have "\<not> 32 * (b + nr_valid_block_descs h) < nframes N" by (simp add: lt_nframes)
  then show ?thesis unfolding windowD(4) [OF w] by simp
qed

subsection \<open>Descriptors that are not valid\<close>

text \<open>
  The timer looks at all four descriptors. Those behind the valid ones are empty, or what was left of
  a block when the descriptors moved down.
\<close>

definition desc_of :: "nat \<Rightarrow> nat \<Rightarrow> omx_pull_block_desc \<Rightarrow> bool" where
  "desc_of N off d \<longleftrightarrow> (\<exists>j. 32 * j < nframes N \<and> block_ok N off j d)"

definition stale_ok :: "nat \<Rightarrow> nat \<Rightarrow> omx_pull_handle \<Rightarrow> bool" where
  "stale_ok N off h \<longleftrightarrow>
     (\<forall>i. nr_valid_block_descs h \<le> i \<and> i < 4 \<and> missing_in h i \<longrightarrow> desc_of N off (block_desc h ! i))"

lemma desc_of_valid: "window N off b h \<Longrightarrow> i < nr_valid_block_descs h \<Longrightarrow> desc_of N off (block_desc h ! i)"
  unfolding desc_of_def by (intro exI [of _ "b + i"] conjI windowD(6,7))

lemma desc_of_missing:
  "window N off b h \<Longrightarrow> stale_ok N off h \<Longrightarrow> i < 4 \<Longrightarrow> missing_in h i \<Longrightarrow> desc_of N off (block_desc h ! i)"
  by (cases "i < nr_valid_block_descs h") (auto simp: stale_ok_def intro: desc_of_valid)

lemma stale_frame_received:
  assumes "window N off b h" and "o' < nr_requested_frames h" and "stale_ok N off h"
  shows "stale_ok N off (frame_received o' h)"
proof -
  have "block_desc (frame_received o' h) ! i = block_desc h ! i" if "nr_valid_block_descs h \<le> i" for i
    using missing_iff(2) [OF assms(1,2)] that by (simp add: frame_received_def Let_def)
  moreover have "nr_valid_block_descs (frame_received o' h) = nr_valid_block_descs h"
    by (simp add: frame_received_def Let_def)
  ultimately show ?thesis using assms(3) by (auto simp: stale_ok_def missing_in_def)
qed

lemma stale_append_needed_frames:
  "stale_ok N off h \<Longrightarrow> stale_ok N off (omx_pull_handle_append_needed_frames bl ffo h)"
  by (auto simp: stale_ok_def missing_in_def omx_pull_handle_append_needed_frames_def Let_def)

lemma stale_append_blocks: "stale_ok N off h \<Longrightarrow> stale_ok N off (append_blocks h)"
proof (induction h rule: append_blocks.induct)
  case (1 h)
  then show ?case
    using append_blocks.simps [of h] by (auto intro: stale_append_needed_frames)
qed

lemma stale_first_block_done:
  assumes w: "window N off b h" and nv: "nr_valid_block_descs h \<noteq> 0" and s: "stale_ok N off h"
  shows "stale_ok N off (omx_pull_handle_first_block_done h)"
proof -
  let ?h = "omx_pull_handle_first_block_done h"
  define n where "n = nr_valid_block_descs h - 1"
  have n: "nr_valid_block_descs h = Suc n" "n \<le> 3" using nv windowD(1) [OF w] by (auto simp: n_def)
  have len: "length (block_desc h) = 4" by (rule windowD(2) [OF w])
  have sel: "nr_valid_block_descs ?h = n" "block_desc ?h = move_descs n (block_desc h)"
    using n by (simp_all add: omx_pull_handle_first_block_done_def Let_def)
  have "desc_of N off (block_desc ?h ! i)" if i: "n \<le> i" "i < 4" "missing_in ?h i" for i
  proof -
    have "i \<noteq> 3"
      using i(3) len n(2) by (auto simp: missing_in_def sel(2) move_descs_def Let_def)
    then have same: "block_desc ?h ! i = block_desc h ! i"
      using i(1,2) len n(2) by (simp add: sel(2) move_descs_def Let_def nth_append nth_list_update)
    show ?thesis
      unfolding same using w s i(2,3) by (intro desc_of_missing) (simp_all add: missing_in_def same)
  qed
  then show ?thesis by (simp add: stale_ok_def sel(1))
qed

lemma stale_drop_done:
  "window N off b h \<Longrightarrow> stale_ok N off h \<Longrightarrow> stale_ok N off (drop_done n h)"
proof (induction n arbitrary: b h)
  case (Suc n)
  show ?case
  proof (cases "nr_valid_block_descs h = 0 \<or> missing_in h 0")
    case False
    then have c: "nr_valid_block_descs h \<noteq> 0" "\<not> missing_in h 0" by auto
    from Suc.IH [OF first_block_done(1) [OF Suc.prems(1) c] stale_first_block_done [OF Suc.prems(1) c(1) Suc.prems(2)]] False
    show ?thesis by simp
  qed (use Suc.prems in simp)
qed simp

lemma stale_update [simp]:
  "stale_ok N off (h\<lparr>already_rerequested_blocks := x\<rparr>) = stale_ok N off h"
  "stale_ok N off (h\<lparr>host_copy_nr_frames := y\<rparr>) = stale_ok N off h"
  "stale_ok N off (h\<lparr>ph_status := z\<rparr>) = stale_ok N off h"
  "stale_ok N off (h\<lparr>refcount := r\<rparr>) = stale_ok N off h"
  "stale_ok N off (h\<lparr>done_event := e\<rparr>) = stale_ok N off h"
  by (simp_all add: stale_ok_def missing_in_def)

lemma stale_progress:
  assumes "window N off b h" and "nr_valid_block_descs h \<noteq> 0" and "stale_ok N off h"
    and "omx_progress_pull_on_recv_pull_reply_locked skb_ok idesc h = (h', requests)"
  shows "stale_ok N off h'"
proof (cases "missing_in h 0")
  case True
  with assms(3,4) show ?thesis
    by (auto simp: omx_progress_pull_on_recv_pull_reply_locked_def Let_def split: if_splits)
next
  case False
  with assms(4) have "h' = append_blocks (drop_done 3 (omx_pull_handle_first_block_done h))"
    by (simp add: omx_progress_pull_on_recv_pull_reply_locked_def Let_def)
  then show ?thesis
    using stale_drop_done [OF first_block_done(1) [OF assms(1,2) False] stale_first_block_done [OF assms(1,2,3)]]
    by (simp add: stale_append_blocks)
qed

subsection \<open>What the operations leave alone\<close>

definition fixed_part :: "omx_pull_handle \<Rightarrow> nat \<times> u32 \<times> u64 \<times> user_region \<times> omx_pull_handle_status \<times> nat \<times> omx_evt_pull_done \<times> pull_request" where
  "fixed_part h = (refcount h, slot_id h, last_retransmit_jiffies h, ph_region h, ph_status h, host_copy_nr_frames h,
     done_event h, pkt_hdr h)"

lemma fixed_append_needed_frames [simp]: "fixed_part (omx_pull_handle_append_needed_frames bl ffo h) = fixed_part h"
  by (simp add: fixed_part_def omx_pull_handle_append_needed_frames_def Let_def)

lemma fixed_append_blocks [simp]: "fixed_part (append_blocks h) = fixed_part h"
proof (induction h rule: append_blocks.induct)
  case (1 h)
  then show ?case using append_blocks.simps [of h] by simp
qed

lemma fixed_first_block_done [simp]: "fixed_part (omx_pull_handle_first_block_done h) = fixed_part h"
  by (simp add: fixed_part_def omx_pull_handle_first_block_done_def Let_def)

lemma fixed_drop_done [simp]: "fixed_part (drop_done n h) = fixed_part h"
  by (induction n h rule: drop_done.induct) simp_all

lemma fixed_frame_received [simp]: "fixed_part (frame_received o' h) = fixed_part h"
  by (simp add: fixed_part_def frame_received_def Let_def)

lemma fixed_progress:
  "omx_progress_pull_on_recv_pull_reply_locked skb_ok idesc h = (h', requests) \<Longrightarrow> fixed_part h' = fixed_part h"
  by (auto simp: omx_progress_pull_on_recv_pull_reply_locked_def Let_def split: if_splits)
    (simp_all add: fixed_part_def)

end
