(* ===== verification/Pull_Driver.thy ===== *)
theory Pull_Driver
  imports Pull
begin

text \<open>
  The entry points of the pull protocol (\<open>driver/linux/omx_pull.c\<close>) on an endpoint of the driver:
  the table of slots by which packets name handles, the ioctl, the timer, the packets received, and
  the closing of the endpoint. Handles are numbers, like the requests of the library.
\<close>

subsection \<open>Slots\<close>

record omx_pull_handle_slot =
  hs_handle :: "nat option"
  hs_id :: u32

record pull_endpoint =
  pe_index :: u8
  pe_session_id :: u32
  pe_regions :: region_table
  pull_handle_slots_array :: "nat \<Rightarrow> omx_pull_handle_slot"
  pull_handle_slots_free_list :: "nat list"
  pull_handles_list :: "nat list"
  pe_handles :: "nat \<Rightarrow> omx_pull_handle option"
  pe_exp_queue :: exp_queue

definition OMX_PULL_HANDLE_SLOT_INDEX_BITS :: nat where "OMX_PULL_HANDLE_SLOT_INDEX_BITS = 10"
definition OMX_PULL_HANDLE_SLOT_GENERATION_BITS :: nat where
  "OMX_PULL_HANDLE_SLOT_GENERATION_BITS = 32 - OMX_PULL_HANDLE_SLOT_INDEX_BITS"
definition OMX_PULL_HANDLE_SLOT_INDEX_MAX :: nat where
  "OMX_PULL_HANDLE_SLOT_INDEX_MAX = 2 ^ OMX_PULL_HANDLE_SLOT_INDEX_BITS"
definition OMX_PULL_HANDLE_SLOT_INDEX_MASK :: u32 where
  "OMX_PULL_HANDLE_SLOT_INDEX_MASK =
     push_bit OMX_PULL_HANDLE_SLOT_GENERATION_BITS (word_of_nat (OMX_PULL_HANDLE_SLOT_INDEX_MAX - 1))"
definition OMX_PULL_HANDLE_SLOT_GENERATION_MASK :: u32 where
  "OMX_PULL_HANDLE_SLOT_GENERATION_MASK = push_bit OMX_PULL_HANDLE_SLOT_GENERATION_BITS 1 - 1"
definition OMX_PULL_HANDLE_SLOT_GENERATION_FIRST :: u32 where "OMX_PULL_HANDLE_SLOT_GENERATION_FIRST = 0x23"

definition OMX_PULL_HANDLE_SLOT_ID_FIRST :: "nat \<Rightarrow> u32" where
  "OMX_PULL_HANDLE_SLOT_ID_FIRST index =
     (OMX_PULL_HANDLE_SLOT_GENERATION_FIRST AND OMX_PULL_HANDLE_SLOT_GENERATION_MASK)
       + push_bit OMX_PULL_HANDLE_SLOT_GENERATION_BITS (word_of_nat index)"

definition OMX_PULL_HANDLE_SLOT_ID_INC :: "u32 \<Rightarrow> u32" where
  "OMX_PULL_HANDLE_SLOT_ID_INC ident =
     (ident AND OMX_PULL_HANDLE_SLOT_INDEX_MASK) OR ((ident + 1) AND OMX_PULL_HANDLE_SLOT_GENERATION_MASK)"

definition OMX_PULL_HANDLE_SLOT_INDEX_FROM_ID :: "u32 \<Rightarrow> nat" where
  "OMX_PULL_HANDLE_SLOT_INDEX_FROM_ID ident = unat (drop_bit OMX_PULL_HANDLE_SLOT_GENERATION_BITS ident)"

text \<open>The table of a new endpoint; the error of its allocation is not looked at by the caller.\<close>

definition omx_pull_handle_slots_init :: "pull_endpoint \<Rightarrow> pull_endpoint" where
  "omx_pull_handle_slots_init ep =
     ep\<lparr>pull_handle_slots_array := (\<lambda>i. \<lparr>hs_handle = None, hs_id = OMX_PULL_HANDLE_SLOT_ID_FIRST i\<rparr>),
        pull_handle_slots_free_list := [0..<OMX_PULL_HANDLE_SLOT_INDEX_MAX]\<rparr>"

definition omx_endpoint_pull_handles_init :: "pull_endpoint \<Rightarrow> pull_endpoint" where
  "omx_endpoint_pull_handles_init ep = omx_pull_handle_slots_init (ep\<lparr>pull_handles_list := []\<rparr>)"

text \<open>Taking a slot for a handle; the slot's id becomes the handle's.\<close>

definition omx_pull_handle_alloc_slot :: "nat \<Rightarrow> pull_endpoint \<Rightarrow> (u32 \<times> pull_endpoint) option" where
  "omx_pull_handle_alloc_slot h ep =
     (case pull_handle_slots_free_list ep of
        [] \<Rightarrow> None
      | i # free \<Rightarrow>
          let slot = pull_handle_slots_array ep i
          in Some (hs_id slot, ep\<lparr>pull_handle_slots_free_list := free,
               pull_handle_slots_array := (pull_handle_slots_array ep)(i := slot\<lparr>hs_handle := Some h\<rparr>)\<rparr>))"

definition omx_pull_handle_free_slot :: "u32 \<Rightarrow> pull_endpoint \<Rightarrow> pull_endpoint" where
  "omx_pull_handle_free_slot ident ep =
     (let i = OMX_PULL_HANDLE_SLOT_INDEX_FROM_ID ident;
          slot = pull_handle_slots_array ep i
      in ep\<lparr>pull_handle_slots_free_list := pull_handle_slots_free_list ep @ [i],
            pull_handle_slots_array := (pull_handle_slots_array ep)
              (i := \<lparr>hs_handle = None, hs_id = OMX_PULL_HANDLE_SLOT_ID_INC (hs_id slot)\<rparr>)\<rparr>)"

text \<open>Finding a handle by an id from the wire.\<close>

definition find_slot :: "u32 \<Rightarrow> pull_endpoint \<Rightarrow> nat option" where
  "find_slot ident ep =
     (let i = OMX_PULL_HANDLE_SLOT_INDEX_FROM_ID ident
      in if i \<ge> OMX_PULL_HANDLE_SLOT_INDEX_MAX then None
         else let slot = pull_handle_slots_array ep i
              in if hs_handle slot = None \<or> ident \<noteq> hs_id slot then None else hs_handle slot)"

subsection \<open>References\<close>

definition set_handle :: "nat \<Rightarrow> omx_pull_handle \<Rightarrow> pull_endpoint \<Rightarrow> pull_endpoint" where
  "set_handle h ph ep = ep\<lparr>pe_handles := (pe_handles ep)(h \<mapsto> ph)\<rparr>"

definition omx_pull_handle_acquire :: "nat \<Rightarrow> pull_endpoint \<Rightarrow> pull_endpoint option" where
  "omx_pull_handle_acquire h ep = do {
     ph \<leftarrow> pe_handles ep h;
     Some (set_handle h (ph\<lparr>refcount := refcount ph + 1\<rparr>) ep)
   }"

text \<open>Releasing the last reference frees the handle; \<^term>\<open>None\<close> if its timer may still run.\<close>

definition omx_pull_handle_release :: "nat \<Rightarrow> pull_endpoint \<Rightarrow> pull_endpoint option" where
  "omx_pull_handle_release h ep = do {
     ph \<leftarrow> pe_handles ep h;
     if refcount ph = 1
     then do {
       c_assert (ph_status ph = PULL_STATUS_TIMER_EXITED);
       Some (ep\<lparr>pe_handles := (pe_handles ep)(h := None)\<rparr>)
     }
     else Some (set_handle h (ph\<lparr>refcount := refcount ph - 1\<rparr>) ep)
   }"

definition omx_pull_handle_acquire_from_slot :: "u32 \<Rightarrow> pull_endpoint \<Rightarrow> (nat \<times> pull_endpoint) option option" where
  "omx_pull_handle_acquire_from_slot ident ep =
     (case find_slot ident ep of
        None \<Rightarrow> Some None
      | Some h \<Rightarrow> do { ep1 \<leftarrow> omx_pull_handle_acquire h ep; Some (Some (h, ep1)) })"

subsection \<open>Creation and completion\<close>

definition omx_pull_handle_pkt_hdr_fill :: "pull_endpoint \<Rightarrow> u32 \<Rightarrow> omx_cmd_pull \<Rightarrow> pull_request" where
  "omx_pull_handle_pkt_hdr_fill ep ident cmd =
     \<lparr>pq_dst_endpoint = pl_dest_endpoint cmd, pq_src_endpoint = pe_index ep, pq_session = pl_session_id cmd,
      pq_total_length = pl_length cmd, pq_pulled_rdma_id = pl_pulled_rdma_id cmd,
      pq_pulled_rdma_seqnum = pl_pulled_rdma_seqnum cmd, pq_pulled_rdma_offset = pl_pulled_rdma_offset cmd,
      pq_src_pull_handle = ident, pq_src_magic = ucast (pe_index ep) XOR OMX_ENDPOINT_PULL_MAGIC_XOR,
      pq_first_frame_offset = 0, pq_block_length = 0, pq_frame_index = 0\<rparr>"

text \<open>
  The members of a new handle. The bitmap of the last descriptor is not initialised: \<open>junk\<close> is what
  the memory of the descriptors held.
\<close>

definition new_handle ::
  "omx_pull_block_desc list \<Rightarrow> u64 \<Rightarrow> user_region \<Rightarrow> omx_cmd_pull \<Rightarrow> u32 \<Rightarrow> pull_request \<Rightarrow> omx_pull_handle"
where
  "new_handle junk now rgn cmd ident hdr =
     \<lparr>refcount = 1, slot_id = ident,
      last_retransmit_jiffies = now + word_of_nat (pl_resend_timeout_jiffies cmd),
      ph_region = rgn, ph_total_length = pl_length cmd, ph_pulled_rdma_offset = pl_pulled_rdma_offset cmd,
      ph_status = PULL_STATUS_OK, remaining_length = pl_length cmd, frame_index = 0, next_frame_index = 0,
      nr_requested_frames = 0, nr_missing_frames = 0, nr_valid_block_descs = 0, already_rerequested_blocks = 0,
      block_desc = map (\<lambda>i. if i < OMX_PULL_BLOCK_DESCS_NR - 1 then (junk ! i)\<lparr>frames_missing_bitmap := 0\<rparr> else junk ! i)
        [0..<OMX_PULL_BLOCK_DESCS_NR],
      host_copy_nr_frames = 0,
      done_event = \<lparr>pd_lib_cookie = pl_lib_cookie cmd, pd_puller_rdma_id = pl_puller_rdma_id cmd, pd_status = 0\<rparr>,
      pkt_hdr = hdr\<rparr>"

text \<open>
  What can fail on the way: \<open>kmalloc\<close> gives the new handle or nothing, and the target peer may be
  unknown to the driver.
\<close>

definition omx_pull_handle_create ::
  "nat option \<Rightarrow> errno option \<Rightarrow> omx_pull_block_desc list \<Rightarrow> u64 \<Rightarrow> user_region \<Rightarrow> omx_cmd_pull \<Rightarrow> pull_endpoint
    \<Rightarrow> (errno + nat) \<times> pull_endpoint"
where
  "omx_pull_handle_create kmem target junk now rgn cmd ep =
     (case kmem of
        None \<Rightarrow> (Inl ENOMEM, ep)
      | Some h \<Rightarrow>
          (case omx_pull_handle_alloc_slot h ep of
             None \<Rightarrow> (Inl ENOMEM, ep)
           | Some (ident, ep1) \<Rightarrow>
               (case target of
                  Some e \<Rightarrow> (Inl e, omx_pull_handle_free_slot ident ep1)
                | None \<Rightarrow>
                    let ph = new_handle junk now rgn cmd ident (omx_pull_handle_pkt_hdr_fill ep ident cmd)
                    in (Inr h, set_handle h ph (ep1\<lparr>pull_handles_list := pull_handles_list ep1 @ [h]\<rparr>)))))"

text \<open>\<^term>\<open>None\<close> where the code has \<open>BUG_ON\<close>: the handle was completed before.\<close>

definition omx_pull_handle_mark_completed :: "nat \<Rightarrow> pull_status \<Rightarrow> pull_endpoint \<Rightarrow> pull_endpoint option" where
  "omx_pull_handle_mark_completed h st ep = do {
     ph \<leftarrow> pe_handles ep h;
     c_assert (ph_status ph = PULL_STATUS_OK);
     let ph1 = ph\<lparr>ph_status := PULL_STATUS_TIMER_MUST_EXIT,
                  done_event := (done_event ph)\<lparr>pd_status := pull_status_code st\<rparr>\<rparr>;
     Some (omx_pull_handle_free_slot (slot_id ph) (set_handle h ph1 ep))
   }"

definition omx_pull_handle_notify :: "nat \<Rightarrow> pull_endpoint \<Rightarrow> pull_endpoint option" where
  "omx_pull_handle_notify h ep = do {
     ph \<leftarrow> pe_handles ep h;
     let q = snd (omx_notify_exp_event (EVT_PULL_DONE (done_event ph)) (pe_exp_queue ep));
     omx_pull_handle_release h (ep\<lparr>pe_exp_queue := q\<rparr>)
   }"

subsection \<open>The ioctl\<close>

text \<open>
  The result of the ioctl, the endpoint and the requests sent. A pull within the host is
  \<open>omx_shared_pull\<close>, a parameter here.
\<close>

definition omx_ioctl_pull ::
  "(omx_cmd_pull \<Rightarrow> pull_endpoint \<Rightarrow> (errno option \<times> pull_endpoint \<times> pull_request list) option)
    \<Rightarrow> nat option \<Rightarrow> errno option \<Rightarrow> omx_pull_block_desc list \<Rightarrow> u64 \<Rightarrow> (nat \<Rightarrow> bool)
    \<Rightarrow> omx_cmd_pull \<Rightarrow> pull_endpoint \<Rightarrow> (errno option \<times> pull_endpoint \<times> pull_request list) option"
where
  "omx_ioctl_pull shared_pull kmem target junk now skb_ok cmd ep =
     (if pl_shared cmd then shared_pull cmd ep
      else case omx_user_region_acquire (pe_regions ep) (pl_puller_rdma_id cmd) of
        None \<Rightarrow> Some (Some EINVAL, ep, [])
      | Some rgn \<Rightarrow>
          (case omx_pull_handle_create kmem target junk now rgn cmd ep of
             (Inl e, ep1) \<Rightarrow> Some (Some e, ep1, [])
           | (Inr h, ep1) \<Rightarrow> do {
               ph \<leftarrow> pe_handles ep1 h;
               (ph1, requests) \<leftarrow> pull_first_requests skb_ok ph;
               Some (None, set_handle h ph1 ep1, requests)
             }))"

subsection \<open>The timer\<close>

definition timer_exit :: "nat \<Rightarrow> pull_endpoint \<Rightarrow> pull_endpoint option" where
  "timer_exit h ep = do {
     ph \<leftarrow> pe_handles ep h;
     Some (set_handle h (ph\<lparr>ph_status := PULL_STATUS_TIMER_EXITED\<rparr>)
       (ep\<lparr>pull_handles_list := removeAll h (pull_handles_list ep)\<rparr>))
   }"

text \<open>The assertions of the code are the places where the result is \<^term>\<open>None\<close>.\<close>

definition omx_pull_handle_timeout_handler ::
  "u64 \<Rightarrow> (nat \<Rightarrow> bool) \<Rightarrow> nat \<Rightarrow> pull_endpoint \<Rightarrow> (pull_endpoint \<times> pull_request list) option"
where
  "omx_pull_handle_timeout_handler now skb_ok h ep = do {
     ph \<leftarrow> pe_handles ep h;
     if ph_status ph \<noteq> PULL_STATUS_OK
     then do {
       c_assert (ph_status ph = PULL_STATUS_TIMER_MUST_EXIT);
       ep1 \<leftarrow> timer_exit h ep;
       ep2 \<leftarrow> omx_pull_handle_release h ep1;
       Some (ep2, [])
     }
     else if time_after64 now (last_retransmit_jiffies ph)
     then do {
       ep1 \<leftarrow> omx_pull_handle_mark_completed h PULL_DONE_TIMEOUT ep;
       ep2 \<leftarrow> timer_exit h ep1;
       ep3 \<leftarrow> omx_pull_handle_notify h ep2;
       Some (ep3, [])
     }
     else do {
       c_assert (missing_in ph 0);
       let (ph1, requests) = omx_progress_pull_on_handle_timeout_handle_locked skb_ok ph;
       Some (set_handle h ph1 ep, requests)
     }
   }"

subsection \<open>Replies\<close>

text \<open>
  \<open>omx_recv_pull_reply\<close> without anything in between its parts, on the endpoint of the host that the
  packet may or may not be for (the magic number holds its index, of which eight bits are read). The copy goes to the region of the handle in memory \<open>m\<close>; the result is what the function
  returns, the endpoint, the memory and the requests sent.
\<close>

definition magic_endpoint :: "u32 \<Rightarrow> u8" where
  "magic_endpoint magic = ucast (magic XOR OMX_ENDPOINT_PULL_MAGIC_XOR)"

definition reply_begin ::
  "(nat \<Rightarrow> bool) \<Rightarrow> pull_reply \<Rightarrow> pull_endpoint
    \<Rightarrow> (errno option \<times> pull_endpoint + nat \<times> pull_endpoint \<times> pull_request list) option"
where
  "reply_begin skb_ok r ep = do {
     found \<leftarrow> omx_pull_handle_acquire_from_slot (pr_dst_pull_handle r) ep;
     case found of
       None \<Rightarrow> Some (Inl (Some EINVAL, ep))
     | Some (h, ep1) \<Rightarrow> do {
         ph \<leftarrow> pe_handles ep1 h;
         case reply_locked skb_ok r ph of
           None \<Rightarrow> do { ep2 \<leftarrow> omx_pull_handle_release h ep1; Some (Inl (None, ep2)) }
         | Some (ph1, requests) \<Rightarrow> Some (Inr (h, set_handle h ph1 ep1, requests))
       }
   }"

definition reply_finish :: "nat \<Rightarrow> pull_endpoint \<Rightarrow> pull_endpoint option" where
  "reply_finish h ep = do {
     ph \<leftarrow> pe_handles ep h;
     let (complete, ph1) = copy_done ph;
     let ep1 = set_handle h ph1 ep;
     if complete
     then do {
       ep2 \<leftarrow> omx_pull_handle_mark_completed h PULL_DONE_SUCCESS ep1;
       omx_pull_handle_notify h ep2
     }
     else omx_pull_handle_release h ep1
   }"

definition reply_aborted :: "nat \<Rightarrow> pull_endpoint \<Rightarrow> pull_endpoint option" where
  "reply_aborted h ep = do {
     ep1 \<leftarrow> omx_pull_handle_mark_completed h PULL_DONE_ABORTED ep;
     omx_pull_handle_notify h ep1
   }"

definition omx_recv_pull_reply ::
  "(nat \<Rightarrow> bool) \<Rightarrow> pull_reply \<Rightarrow> pull_endpoint \<Rightarrow> physical
    \<Rightarrow> (errno option \<times> pull_endpoint \<times> physical \<times> pull_request list) option"
where
  "omx_recv_pull_reply skb_ok r ep m =
     (if pr_frame_length r > length (pr_data r) \<or> magic_endpoint (pr_dst_magic r) \<noteq> pe_index ep
      then Some (Some EINVAL, ep, m, [])
      else do {
        begun \<leftarrow> reply_begin skb_ok r ep;
        case begun of
          Inl (e, ep1) \<Rightarrow> Some (e, ep1, m, [])
        | Inr (h, ep1, requests) \<Rightarrow> do {
            ph \<leftarrow> pe_handles ep1 h;
            (e, m1) \<leftarrow> omx_user_region_fill_pages (ph_region ph) (pr_msg_offset r) (take (pr_frame_length r) (pr_data r)) m;
            if e \<noteq> None
            then do { ep2 \<leftarrow> reply_aborted h ep1; Some (e, ep2, m1, requests) }
            else do { ep2 \<leftarrow> reply_finish h ep1; Some (None, ep2, m1, requests) }
          }
      })"

subsection \<open>Nacks\<close>

definition omx_recv_nack_mcp ::
  "bool \<Rightarrow> pull_nack \<Rightarrow> pull_endpoint \<Rightarrow> (errno option \<times> pull_endpoint) option"
where
  "omx_recv_nack_mcp peer_ok n ep =
     (if \<not> peer_ok \<or> magic_endpoint (nk_src_magic n) \<noteq> pe_index ep
      then Some (Some EINVAL, ep)
      else do {
        found \<leftarrow> omx_pull_handle_acquire_from_slot (nk_src_pull_handle n) ep;
        case found of
          None \<Rightarrow> Some (Some EINVAL, ep)
        | Some (h, ep1) \<Rightarrow> do {
            ph \<leftarrow> pe_handles ep1 h;
            if ph_status ph \<noteq> PULL_STATUS_OK
            then do { ep2 \<leftarrow> omx_pull_handle_release h ep1; Some (None, ep2) }
            else do {
              ep2 \<leftarrow> omx_pull_handle_mark_completed h (PULL_DONE_NACK (nk_type n)) ep1;
              ep3 \<leftarrow> omx_pull_handle_notify h ep2;
              Some (None, ep3)
            }
          }
      })"

subsection \<open>Closing\<close>

text \<open>
  One turn of the loop of \<open>omx_endpoint_pull_handles_exit\<close>; \<open>stopped\<close> is whether \<open>del_timer_sync\<close>
  stopped a timer that was pending, otherwise the timer's handler has run before it returns.
\<close>

definition exit_one :: "u64 \<Rightarrow> bool \<Rightarrow> nat \<Rightarrow> pull_endpoint \<Rightarrow> pull_endpoint option" where
  "exit_one now stopped h ep = do {
     ep1 \<leftarrow> omx_pull_handle_acquire h ep;
     ph \<leftarrow> pe_handles ep1 h;
     let ep2 = (if ph_status ph = PULL_STATUS_OK
                then set_handle h (ph\<lparr>ph_status := PULL_STATUS_TIMER_MUST_EXIT\<rparr>)
                       (omx_pull_handle_free_slot (slot_id ph) ep1)
                else ep1);
     ep3 \<leftarrow> (if stopped
             then do { ep3 \<leftarrow> timer_exit h ep2; omx_pull_handle_release h ep3 }
             else map_option fst (omx_pull_handle_timeout_handler now (\<lambda>_. True) h ep2));
     omx_pull_handle_release h ep3
   }"

fun exit_loop :: "nat \<Rightarrow> u64 \<Rightarrow> (nat \<Rightarrow> bool) \<Rightarrow> pull_endpoint \<Rightarrow> pull_endpoint option" where
  "exit_loop 0 now stopped ep = (if pull_handles_list ep = [] then Some ep else None)"
| "exit_loop (Suc n) now stopped ep =
     (case pull_handles_list ep of
        [] \<Rightarrow> Some ep
      | h # _ \<Rightarrow> do { ep1 \<leftarrow> exit_one now (stopped h) h ep; exit_loop n now stopped ep1 })"

text \<open>Each turn takes one handle off the list, so that its length is enough fuel.\<close>

definition omx_endpoint_pull_handles_exit :: "u64 \<Rightarrow> (nat \<Rightarrow> bool) \<Rightarrow> pull_endpoint \<Rightarrow> pull_endpoint option" where
  "omx_endpoint_pull_handles_exit now stopped ep = exit_loop (length (pull_handles_list ep)) now stopped ep"

subsection \<open>Requests\<close>

text \<open>
  The other side: what an endpoint sends back for a request. The packets are data in a linear buffer
  or pages of the region, with the same contents; \<open>skb_ok i\<close> is whether there is memory for the
  \<open>i\<close>-th reply, \<open>skb_frags\<close> and \<open>copy_max\<close> are parameters of the driver.
\<close>

record reply_config =
  omx_skb_frags :: nat
  omx_skb_copy_max :: nat

definition reply_hdr_len :: nat where "reply_hdr_len = 16 + 16"
definition ETH_ZLEN :: nat where "ETH_ZLEN = 60"

text \<open>The data of one reply: by pages if that is allowed and they fit, else by a copy.\<close>

definition frag_bytes :: "physical \<Rightarrow> skb_frag \<Rightarrow> bytes" where
  "frag_bytes m f = (case f of (page, off, len) \<Rightarrow> map (\<lambda>i. m (page, i)) [off..<off + len])"

definition reply_data ::
  "reply_config \<Rightarrow> user_region \<Rightarrow> physical \<Rightarrow> nat \<Rightarrow> offset_cache \<Rightarrow> (bytes \<times> offset_cache) option"
where
  "reply_data conf rgn m n c =
     (if n \<le> omx_skb_copy_max conf \<or> reply_hdr_len + n < ETH_ZLEN \<or> omx_skb_frags conf = 0
      then copy_pages_to_buf rgn m n c
      else do {
        appended \<leftarrow> append_pages_to_skb rgn (omx_skb_frags conf) n c;
        case appended of
          Some (frags, c') \<Rightarrow> Some (concat (map (frag_bytes m) frags), c')
        | None \<Rightarrow> copy_pages_to_buf rgn m n c
      })"

text \<open>
  The loop over the replies: the number of those left and of this one, the sequence number of the
  frame, its offset in the message and what remains of the block.
\<close>

primrec reply_loop ::
  "nat \<Rightarrow> reply_config \<Rightarrow> (nat \<Rightarrow> bool) \<Rightarrow> user_region \<Rightarrow> physical \<Rightarrow> pull_request \<Rightarrow> nat \<Rightarrow> nat \<Rightarrow> nat \<Rightarrow> nat
    \<Rightarrow> offset_cache \<Rightarrow> (errno option \<times> pull_reply list) option"
where
  "reply_loop 0 conf skb_ok rgn m req i seqnum msg_offset remaining c = Some (None, [])"
| "reply_loop (Suc n) conf skb_ok rgn m req i seqnum msg_offset remaining c =
     (let frame_length = min (if i = 0 then nat ((int OMX_PULL_REPLY_LENGTH_MAX - int (pq_first_frame_offset req)) mod 2 ^ 32)
                              else OMX_PULL_REPLY_LENGTH_MAX) remaining
      in if \<not> skb_ok i then Some (Some ENOMEM, [])
         else do {
           (bs, c') \<leftarrow> reply_data conf rgn m frame_length c;
           let r = \<lparr>pr_frame_seqnum = seqnum mod 2 ^ 8, pr_frame_length = frame_length mod 2 ^ 16,
                    pr_msg_offset = msg_offset, pr_dst_pull_handle = pq_src_pull_handle req,
                    pr_dst_magic = pq_src_magic req, pr_data = bs\<rparr>;
           (e, rs) \<leftarrow> reply_loop n conf skb_ok rgn m req (i + 1) ((seqnum + 1) mod 2 ^ 32)
             ((msg_offset + frame_length) mod 2 ^ 32) (remaining - frame_length) c';
           Some (e, r # rs)
         })"

datatype reply_packet = Reply pull_reply | Nack pull_nack

definition nack_for :: "omx_nack_type \<Rightarrow> pull_request \<Rightarrow> reply_packet" where
  "nack_for t req = Nack \<lparr>nk_type = omx_nack_type_code t, nk_src_endpoint = pq_src_endpoint req,
     nk_src_pull_handle = pq_src_pull_handle req, nk_src_magic = pq_src_magic req\<rparr>"

text \<open>
  The endpoints of an interface by their index (\<open>driver/linux/omx_dev.c\<close>), each with whether its
  status is \<open>OK\<close>, and the nack that the failure to find one causes.
\<close>

definition omx_endpoint_acquire_by_iface_index ::
  "nat \<Rightarrow> (u8 \<Rightarrow> (bool \<times> 'e) option) \<Rightarrow> u8 \<Rightarrow> errno + 'e"
where
  "omx_endpoint_acquire_by_iface_index ep_max endpoints index =
     (if unat index \<ge> ep_max then Inl EINVAL
      else case endpoints index of
        None \<Rightarrow> Inl ENOENT
      | Some (ok, ep) \<Rightarrow> if ok then Inr ep else Inl ENOENT)"

fun omx_endpoint_acquire_by_iface_index_error_to_nack_type :: "errno \<Rightarrow> omx_nack_type option" where
  "omx_endpoint_acquire_by_iface_index_error_to_nack_type EINVAL = Some OMX_NACK_TYPE_BAD_ENDPT"
| "omx_endpoint_acquire_by_iface_index_error_to_nack_type ENOENT = Some OMX_NACK_TYPE_ENDPT_CLOSED"
| "omx_endpoint_acquire_by_iface_index_error_to_nack_type _ = None"

text \<open>
  \<open>acquire\<close> finds the endpoint of an index. The result is what the function returns and the packets
  it sent.
\<close>

definition omx_recv_pull_request ::
  "reply_config \<Rightarrow> (nat \<Rightarrow> bool) \<Rightarrow> bool \<Rightarrow> (u8 \<Rightarrow> errno + pull_endpoint) \<Rightarrow> physical \<Rightarrow> pull_request
    \<Rightarrow> (errno option \<times> reply_packet list) option"
where
  "omx_recv_pull_request conf skb_ok peer_ok acquire m req =
     (if \<not> peer_ok then Some (Some EINVAL, [])
      else case acquire (pq_dst_endpoint req) of
        Inl err \<Rightarrow> do {
          t \<leftarrow> omx_endpoint_acquire_by_iface_index_error_to_nack_type err;
          Some (Some err, [nack_for t req])
        }
      | Inr ep \<Rightarrow>
          if pq_session req \<noteq> pe_session_id ep then Some (Some EINVAL, [nack_for OMX_NACK_TYPE_BAD_SESSION req])
          else
            let replies = (pq_first_frame_offset req + pq_block_length req + OMX_PULL_REPLY_LENGTH_MAX - 1) mod 2 ^ 32
                            div OMX_PULL_REPLY_LENGTH_MAX
            in if replies > OMX_PULL_REPLY_PER_BLOCK then Some (Some EINVAL, [])
               else case omx_user_region_acquire (pe_regions ep) (pq_pulled_rdma_id req) of
                 None \<Rightarrow> Some (None, [nack_for OMX_NACK_TYPE_BAD_RDMAWIN req])
               | Some rgn \<Rightarrow> do {
                   let msg_offset = nat ((int (pq_frame_index req) * int OMX_PULL_REPLY_LENGTH_MAX
                     - int (pq_pulled_rdma_offset req mod OMX_PULL_REPLY_LENGTH_MAX)
                     + int (pq_first_frame_offset req)) mod 2 ^ 32);
                   cache \<leftarrow> omx_user_region_offset_cache_init rgn
                     ((msg_offset + pq_pulled_rdma_offset req) mod 2 ^ 32) (pq_block_length req);
                   case cache of
                     None \<Rightarrow> Some (Some EINVAL, [])
                   | Some c \<Rightarrow> do {
                       (e, rs) \<leftarrow> reply_loop replies conf skb_ok rgn m req 0 (pq_frame_index req) msg_offset
                         (pq_block_length req) c;
                       Some (e, map Reply rs)
                     }
                 })"

end
