(* ===== verification/Region_Transfer.thy ===== *)
theory Region_Transfer
  imports Driver_Regions
begin

text \<open>
  What the transfers of theory \<open>Driver_Regions\<close> do to a region that was created for an array of the
  application's segments: the flat range of the region is the application's memory, translated page
  by page, in the order of the segments; filling writes it, and a cache reads it.
\<close>

subsection \<open>A region is the application's memory\<close>

lemma add_segment_flat:
  assumes "0 < seg_len useg"
  shows "seg_flat (omx_user_region_add_segment frame useg)
    = map (phys_of frame) [vaddr useg..<vaddr useg + seg_len useg]"
proof (rule nth_equalityI)
  let ?seg = "omx_user_region_add_segment frame useg"
  have len: "sg_length ?seg = seg_len useg" by (simp add: omx_user_region_add_segment_def Let_def)
  then show "length (seg_flat ?seg) = length (map (phys_of frame) [vaddr useg..<vaddr useg + seg_len useg])"
    by simp
  fix k
  assume "k < length (seg_flat ?seg)"
  then have k: "k < seg_len useg" by (simp add: len)
  let ?off = "vaddr useg mod PAGE_SIZE" and ?q = "vaddr useg div PAGE_SIZE"
  have off: "first_page_offset ?seg = ?off"
    and pgs: "pages ?seg = map (\<lambda>i. frame (?q + i)) [0..<length (pages ?seg)]"
    by (simp_all add: omx_user_region_add_segment_def Let_def minus_mod_eq_mult_div)
  have v: "vaddr useg + k = PAGE_SIZE * ?q + (?off + k)" by simp
  have "(vaddr useg + k) div PAGE_SIZE = ?q + (?off + k) div PAGE_SIZE"
    unfolding v by (subst div_mult_self4) simp_all
  moreover have "(vaddr useg + k) mod PAGE_SIZE = (?off + k) mod PAGE_SIZE"
    unfolding v by (rule mod_mult_self4)
  moreover have "?off + k < PAGE_SIZE * length (pages ?seg)"
    using add_segment_ok [OF assms, of frame] k by (simp add: seg_ok_def off len)
  then have "(?off + k) div PAGE_SIZE < length (pages ?seg)"
    by (simp add: less_mult_imp_div_less mult.commute)
  then have "pages ?seg ! ((?off + k) div PAGE_SIZE) = frame (?q + (?off + k) div PAGE_SIZE)"
    by (subst pgs) simp
  ultimately have "seg_at (pages ?seg) (?off + k) = phys_of frame (vaddr useg + k)"
    by (simp add: seg_at_def phys_of_def)
  with k show "seg_flat ?seg ! k = map (phys_of frame) [vaddr useg..<vaddr useg + seg_len useg] ! k"
    by (simp add: seg_flat_def off len)
qed

lemma add_segments_flat:
  "region_flat (add_segments frame usegs region) = region_flat region @ map (phys_of frame) (seg_addrs usegs)"
proof (induction frame usegs region rule: add_segments.induct)
  case (1 frame region)
  then show ?case by simp
next
  case (2 frame useg usegs region)
  show ?case
  proof (cases "seg_len useg = 0")
    case True
    with 2 show ?thesis by simp
  next
    case False
    from "2.IH"(2) [OF False refl] False add_segment_flat [of useg frame] show ?thesis
      by (simp add: Let_def region_flat_def)
  qed
qed

lemma created:
  assumes "omx_ioctl_user_region_create frame mem_ok pin_ok rid usegs table = (None, table')"
    and "omx_user_region_acquire table' rid = Some region"
  shows "user_region_ok region" and "region_flat region = map (phys_of frame) (seg_addrs usegs)"
    and "rgn_total_length region = length (seg_addrs usegs)"
proof -
  have region: "region = add_segments frame usegs \<lparr>rgn_segments = [], rgn_total_length = 0\<rparr>"
    using assms by (auto simp: omx_ioctl_user_region_create_def omx_user_region_acquire_def Let_def split: if_splits)
  show ok: "user_region_ok region"
    unfolding region by (rule add_segments_ok) (simp add: user_region_ok_def)
  show flat: "region_flat region = map (phys_of frame) (seg_addrs usegs)"
    unfolding region add_segments_flat by (simp add: region_flat_def)
  from length_region_flat [OF ok] show "rgn_total_length region = length (seg_addrs usegs)"
    by (simp add: flat)
qed

lemma phys_of_inj: "inj frame \<Longrightarrow> inj (phys_of frame)"
proof (rule injI)
  fix v w
  assume "inj frame" "phys_of frame v = phys_of frame w"
  then have "v div PAGE_SIZE = w div PAGE_SIZE" "v mod PAGE_SIZE = w mod PAGE_SIZE"
    by (auto simp: phys_of_def dest: injD)
  then show "v = w" by (metis div_mult_mod_eq)
qed

lemma distinct_created: "inj frame \<Longrightarrow> distinct (seg_addrs usegs) \<Longrightarrow> distinct (map (phys_of frame) (seg_addrs usegs))"
  by (simp add: distinct_map phys_of_inj inj_on_subset [OF phys_of_inj])

text \<open>The application's view of the memory: what is at a virtual address.\<close>

definition user_view :: "(nat \<Rightarrow> nat) \<Rightarrow> physical \<Rightarrow> memory" where
  "user_view frame m = (\<lambda>v. m (phys_of frame v))"

lemma put_bytes_comp: "inj f \<Longrightarrow> (\<lambda>v. put_bytes (map f as) bs m (f v)) = put_bytes as bs (\<lambda>v. m (f v))"
proof (induction as bs arbitrary: m rule: list_induct2')
  case (4 a as b bs)
  then have "(\<lambda>v. (m(f a := b)) (f v)) = (\<lambda>v. m (f v))(a := b)"
    by (auto simp: fun_eq_iff dest: injD)
  with 4 show ?case by simp
qed auto

lemma map_put_bytes: "distinct as \<Longrightarrow> length as = length bs \<Longrightarrow> map (put_bytes as bs m) as = bs"
  by (rule nth_equalityI) (simp_all add: put_bytes_nth)

subsection \<open>Where a cache starts\<close>

lemma find_segment_at:
  "list_all seg_ok sgs \<Longrightarrow> tmp \<le> off \<Longrightarrow> off < tmp + sum_list (map sg_length sgs) \<Longrightarrow>
     \<exists>sgs' segoff. find_segment sgs tmp off = Some (sgs', segoff) \<and> sgs' \<noteq> [] \<and> list_all seg_ok sgs'
       \<and> segoff < sg_length (hd sgs') \<and> drop segoff (segs_flat sgs') = drop (off - tmp) (segs_flat sgs)"
proof (induction sgs tmp off rule: find_segment.induct)
  case (1 tmp off)
  then show ?case by simp
next
  case (2 seg rest tmp off)
  show ?case
  proof (cases "tmp + sg_length seg \<le> off")
    case True
    with "2.IH" [OF True] "2.prems" show ?thesis
      by (simp add: segs_flat_simps add.assoc)
  next
    case False
    with "2.prems" show ?thesis by simp
  qed
qed

lemma find_segment_overrun:
  "tmp + sum_list (map sg_length sgs) \<le> off \<Longrightarrow> find_segment sgs tmp off = None"
  by (induction sgs tmp off rule: find_segment.induct) auto

text \<open>The cursor that goes with a region.\<close>

definition cursor_addrs :: "user_region \<Rightarrow> offset_cache \<Rightarrow> (nat \<times> nat) list" where
  "cursor_addrs region = (if length (rgn_segments region) > 1 then vect_addrs else contig_addrs)"

definition cursor_ok :: "user_region \<Rightarrow> offset_cache \<Rightarrow> bool" where
  "cursor_ok region = (if length (rgn_segments region) > 1 then vect_ok else contig_ok)"

lemma cache_init_refuses:
  "rgn_total_length region < off + n \<Longrightarrow> omx_user_region_offset_cache_init region off n = Some None"
  by (simp add: omx_user_region_offset_cache_init_def)

lemma cache_init_at:
  assumes ok: "user_region_ok region" and le: "off + n \<le> rgn_total_length region" and lt: "off < rgn_total_length region"
  shows "\<exists>c. omx_user_region_offset_cache_init region off n = Some (Some c)
    \<and> cursor_ok region c \<and> cursor_addrs region c = drop off (region_flat region)"
proof (cases "length (rgn_segments region) > 1")
  case True
  then have ne: "rgn_segments region \<noteq> []" by auto
  obtain sgs segoff where f: "find_segment (rgn_segments region) 0 off = Some (sgs, segoff)" "sgs \<noteq> []"
      "list_all seg_ok sgs" "segoff < sg_length (hd sgs)"
      "drop segoff (segs_flat sgs) = drop off (region_flat region)"
    using find_segment_at [of "rgn_segments region" 0 off] ok lt
    by (auto simp: user_region_ok_def region_flat_def segs_flat_def)
  let ?c = "\<lparr>oc_segs = sgs, oc_segoff = segoff, oc_page = (segoff + first_page_offset (hd sgs)) div PAGE_SIZE,
      oc_pageoff = (segoff + first_page_offset (hd sgs)) mod PAGE_SIZE\<rparr>"
  have "omx_user_region_offset_cache_init region off n = Some (Some ?c)"
    using True ne le f(1) by (simp add: omx_user_region_offset_cache_init_def Let_def)
  moreover have "cursor_ok region ?c" "cursor_addrs region ?c = drop off (region_flat region)"
    using True f by (simp_all add: cursor_ok_def cursor_addrs_def vect_ok_def vect_addrs_def)
  ultimately show ?thesis by blast
next
  case False
  moreover have "rgn_segments region \<noteq> []" using ok lt by (auto simp: user_region_ok_def)
  ultimately obtain seg where seg: "rgn_segments region = [seg]" by (cases "rgn_segments region") auto
  let ?at = "off + first_page_offset seg"
  let ?c = "\<lparr>oc_segs = [seg], oc_segoff = off, oc_page = ?at div PAGE_SIZE, oc_pageoff = ?at mod PAGE_SIZE\<rparr>"
  have "off < sg_length seg" using ok lt by (simp add: user_region_ok_def seg)
  then have "contig_addrs ?c = drop off (region_flat region)"
    by (simp add: contig_addrs_def region_flat_def seg drop_seg_flat add.commute)
  moreover have "contig_ok ?c" using ok by (simp add: contig_ok_def user_region_ok_def seg)
  moreover have "omx_user_region_offset_cache_init region off n = Some (Some ?c)"
    using le by (simp add: omx_user_region_offset_cache_init_def seg Let_def)
  ultimately show ?thesis by (simp add: cursor_ok_def cursor_addrs_def seg)
qed

lemma copy_pages_to_buf_flat:
  assumes "cursor_ok region c" and "n \<le> length (cursor_addrs region c)"
  shows "\<exists>c'. copy_pages_to_buf region m n c = Some (map m (take n (cursor_addrs region c)), c')
    \<and> cursor_ok region c' \<and> cursor_addrs region c' = drop n (cursor_addrs region c)"
  using assms vect.copy_pages_flat [of c n m] contig.copy_pages_flat [of c n m]
  by (simp add: cursor_ok_def cursor_addrs_def copy_pages_to_buf_def
      omx_user_region_offset_cache_vect_copy_callback_def omx_user_region_offset_cache_contig_copy_callback_def
      split: if_splits)

lemma append_pages_to_skb_flat:
  assumes "cursor_ok region c" and "n \<le> length (cursor_addrs region c)"
  shows "append_pages_to_skb region fr n c = Some None
    \<or> (\<exists>frags c'. append_pages_to_skb region fr n c = Some (Some (frags, c'))
        \<and> length frags \<le> fr \<and> concat (map frag_addrs frags) = take n (cursor_addrs region c)
        \<and> cursor_ok region c' \<and> cursor_addrs region c' = drop n (cursor_addrs region c))"
  using assms vect.append_pages_flat [of c n fr] contig.append_pages_flat [of c n fr]
  by (simp add: cursor_ok_def cursor_addrs_def append_pages_to_skb_def
      omx_user_region_offset_cache_vect_append_callback_def omx_user_region_offset_cache_contig_append_callback_def
      split: if_splits)

subsection \<open>Copying between regions\<close>

definition seg_vaddrs :: "region_segment \<Rightarrow> address list" where
  "seg_vaddrs seg =
     [aligned_vaddr seg + first_page_offset seg..<aligned_vaddr seg + first_page_offset seg + sg_length seg]"

definition dst_addrs :: "dst_cursor \<Rightarrow> address list" where
  "dst_addrs d = drop (dc_segoff d) (concat (map seg_vaddrs (dc_segs d)))"

definition dst_ok :: "dst_cursor \<Rightarrow> bool" where
  "dst_ok d \<longleftrightarrow> list_all seg_ok (dc_segs d)
     \<and> (dc_segs d \<noteq> [] \<longrightarrow> dc_segoff d < sg_length (hd (dc_segs d))
        \<and> dc_vaddr d = aligned_vaddr (hd (dc_segs d)) + first_page_offset (hd (dc_segs d)) + dc_segoff d)"

lemma length_seg_vaddrs [simp]: "length (seg_vaddrs seg) = sg_length seg"
  by (simp add: seg_vaddrs_def)

lemma dst_addrs_whole: "dc_segoff d = 0 \<Longrightarrow> dst_addrs d = concat (map seg_vaddrs (dc_segs d))"
  by (simp add: dst_addrs_def)

lemma dst_step:
  assumes ok: "dst_ok d" and segs: "dc_segs d = seg # rest" and k: "k \<le> sg_length seg - dc_segoff d"
  shows "take k (dst_addrs d) = [dc_vaddr d..<dc_vaddr d + k]"
    and "dst_ok (dst_advance k d)" and "dst_addrs (dst_advance k d) = drop k (dst_addrs d)"
proof -
  have o: "dc_segoff d < sg_length seg" "dc_vaddr d = aligned_vaddr seg + first_page_offset seg + dc_segoff d"
    using ok by (simp_all add: dst_ok_def segs)
  have addrs: "dst_addrs d = [dc_vaddr d..<aligned_vaddr seg + first_page_offset seg + sg_length seg]
      @ concat (map seg_vaddrs rest)"
    using o by (simp add: dst_addrs_def segs seg_vaddrs_def)
  show "take k (dst_addrs d) = [dc_vaddr d..<dc_vaddr d + k]"
    using k o by (simp add: addrs take_upt)
  show "dst_ok (dst_advance k d)"
    using ok o k by (cases rest) (auto simp: dst_advance_def segs dst_ok_def dst_start_def seg_ok_def)
  show "dst_addrs (dst_advance k d) = drop k (dst_addrs d)"
  proof (cases "dc_segoff d + k = sg_length seg")
    case True
    then have "drop k (dst_addrs d) = concat (map seg_vaddrs rest)"
      using o by (simp add: addrs)
    then show ?thesis using True
      by (cases rest) (simp_all add: dst_advance_def segs dst_start_def dst_addrs_whole)
  next
    case False
    then show ?thesis using o k
      by (simp add: addrs) (simp add: dst_advance_def segs dst_addrs_def seg_vaddrs_def add.assoc)
  qed
qed

lemma shared_copy_loop_flat:
  assumes full: "\<And>v k. copied v k = k"
  shows "vect_ok c \<Longrightarrow> dst_ok d \<Longrightarrow> 0 < n \<Longrightarrow> n \<le> length (vect_addrs c) \<Longrightarrow> n \<le> length (dst_addrs d) \<Longrightarrow>
     set (take n (vect_addrs c)) \<inter> set (map (phys_of frame) (take n (dst_addrs d))) = {} \<Longrightarrow>
     shared_copy_loop frame copied n c d m
       = Some (None, put_bytes (map (phys_of frame) (take n (dst_addrs d))) (map m (take n (vect_addrs c))) m)"
proof (induction n arbitrary: c d m rule: less_induct)
  case (less n)
  note ok = less.prems(1) and dok = less.prems(2) and len = less.prems(3-5) and disj = less.prems(6)
  have "vect_addrs c \<noteq> []" "dst_addrs d \<noteq> []" using len by auto
  then have "dc_segs d \<noteq> []" by (auto simp: dst_addrs_def)
  then obtain seg rest where segs: "dc_segs d = seg # rest" by (cases "dc_segs d") auto
  note pg = vect.page [OF ok \<open>vect_addrs c \<noteq> []\<close>]
  define k where "k = min (vect_chunk n c) (sg_length seg - dc_segoff d)"
  have "dc_segoff d < sg_length seg" using dok by (simp add: dst_ok_def segs)
  with vect.chunk [OF ok len(1,2)] have k: "0 < k" "k \<le> n" by (auto simp: k_def)
  \<comment> \<open>The chunk may be smaller than the one the source alone would take: it is the source's chunk for the smaller count.\<close>
  have chunk_k: "vect_chunk k c = k" by (simp add: vect_chunk_def k_def)
  have kle: "k \<le> length (vect_addrs c)" using k len by linarith
  note src = vect.advance [OF ok k(1) kle, unfolded chunk_k] and src_take = vect.taken [OF ok k(1) kle, unfolded chunk_k]
  have "k \<le> sg_length seg - dc_segoff d" by (simp add: k_def)
  note dst = dst_step [OF dok segs this]
  let ?bs = "read_phys (pages (hd (oc_segs c)) ! oc_page c) (oc_pageoff c) k m"
  have bs: "?bs = map m (take k (vect_addrs c))"
    unfolding src_take by (rule nth_equalityI) (auto simp: read_phys_def)
  let ?m1 = "put_bytes (map (phys_of frame) (take k (dst_addrs d))) ?bs m"
  have user: "copy_to_user frame copied (dc_vaddr d) ?bs m = (True, ?m1)"
    by (simp add: copy_to_user_def full dst(1) read_phys_def Let_def)
  show ?case
  proof (cases "n = k")
    case True
    from k pg segs user show ?thesis
      by (subst shared_copy_loop.simps) (simp add: Let_def k_def [symmetric] True [symmetric] bs [unfolded True [symmetric]])
  next
    case False
    then have lt: "n - k < n" "0 < n - k" using k by auto
    have a: "n - k \<le> length (vect_addrs (vect_advance k c))" "n - k \<le> length (dst_addrs (dst_advance k d))"
      using src dst(3) len by (simp_all add: diff_le_mono)
    have split: "take n xs = take k xs @ take (n - k) (drop k xs)" for xs :: "'x list"
      using k(2) by (metis le_add_diff_inverse take_add)
    have disj': "set (take (n - k) (vect_addrs (vect_advance k c)))
        \<inter> set (map (phys_of frame) (take (n - k) (dst_addrs (dst_advance k d)))) = {}"
      using disj src dst(3) by (auto simp: split [of "vect_addrs c"] split [of "dst_addrs d"])
    have keep: "map ?m1 (take (n - k) (drop k (vect_addrs c))) = map m (take (n - k) (drop k (vect_addrs c)))"
      using disj by (intro map_cong refl put_bytes_notin)
        (auto simp: split [of "vect_addrs c"] split [of "dst_addrs d"])
    have "shared_copy_loop frame copied n c d m
        = shared_copy_loop frame copied (n - k) (vect_advance k c) (dst_advance k d) ?m1"
      using lt(2) k(1) pg segs user by (subst shared_copy_loop.simps) (simp add: Let_def k_def [symmetric])
    also have "\<dots> = Some (None, put_bytes (map (phys_of frame) (take (n - k) (drop k (dst_addrs d))))
        (map m (take (n - k) (drop k (vect_addrs c)))) ?m1)"
      using less.IH [OF lt(1) conjunct1 [OF src] dst(2) lt(2) a disj', of ?m1] src dst(3) keep by simp
    also have "\<dots> = Some (None, put_bytes (map (phys_of frame) (take n (dst_addrs d))) (map m (take n (vect_addrs c))) m)"
      using k len by (simp add: split [of "vect_addrs c"] split [of "dst_addrs d"] bs put_bytes_append)
    finally show ?thesis .
  qed
qed

lemma add_segment_vaddrs:
  "seg_vaddrs (omx_user_region_add_segment frame useg) = [vaddr useg..<vaddr useg + seg_len useg]"
  by (simp add: seg_vaddrs_def omx_user_region_add_segment_def Let_def)

lemma add_segments_vaddrs:
  "concat (map seg_vaddrs (rgn_segments (add_segments frame usegs region)))
     = concat (map seg_vaddrs (rgn_segments region)) @ seg_addrs usegs"
proof (induction frame usegs region rule: add_segments.induct)
  case (1 frame region)
  then show ?case by simp
next
  case (2 frame useg usegs region)
  show ?case
  proof (cases "seg_len useg = 0")
    case True
    with 2 show ?thesis by simp
  next
    case False
    from "2.IH"(2) [OF False refl] False add_segment_vaddrs [of frame useg] show ?thesis
      by (simp add: Let_def)
  qed
qed

lemma created_vaddrs:
  assumes "omx_ioctl_user_region_create frame mem_ok pin_ok rid usegs table = (None, table')"
    and "omx_user_region_acquire table' rid = Some region"
  shows "concat (map seg_vaddrs (rgn_segments region)) = seg_addrs usegs"
proof -
  have "region = add_segments frame usegs \<lparr>rgn_segments = [], rgn_total_length = 0\<rparr>"
    using assms by (auto simp: omx_ioctl_user_region_create_def omx_user_region_acquire_def Let_def split: if_splits)
  then show ?thesis by (simp add: add_segments_vaddrs)
qed

lemma find_segment_vaddrs:
  "find_segment sgs tmp off = Some (sgs', segoff) \<Longrightarrow> tmp \<le> off \<Longrightarrow>
     drop segoff (concat (map seg_vaddrs sgs')) = drop (off - tmp) (concat (map seg_vaddrs sgs))"
proof (induction sgs tmp off rule: find_segment.induct)
  case (2 seg rest tmp off)
  then show ?case by (auto split: if_splits)
qed simp

lemma dst_start_ok:
  "sgs \<noteq> [] \<Longrightarrow> list_all seg_ok sgs \<Longrightarrow> segoff < sg_length (hd sgs) \<Longrightarrow> dst_ok (dst_start sgs segoff)"
  by (simp add: dst_ok_def dst_start_def)

lemma dst_start_addrs: "dst_addrs (dst_start sgs segoff) = drop segoff (concat (map seg_vaddrs sgs))"
  by (simp add: dst_addrs_def dst_start_def)

lemma memcpy_between_flat:
  assumes full: "\<And>v k. copied v k = k" and ok: "user_region_ok src" "user_region_ok dst"
    and n: "0 < n" "soff + n \<le> rgn_total_length src" "doff + n \<le> rgn_total_length dst"
    and vaddrs: "concat (map seg_vaddrs (rgn_segments dst)) = va"
    and disj: "set (take n (drop soff (region_flat src))) \<inter> set (map (phys_of frame) (take n (drop doff va))) = {}"
  shows "omx_memcpy_between_user_regions_to_current frame copied src soff dst doff n m
    = Some (None, put_bytes (map (phys_of frame) (take n (drop doff va))) (map m (take n (drop soff (region_flat src)))) m)"
proof -
  obtain ss sof where s: "find_segment (rgn_segments src) 0 soff = Some (ss, sof)" "ss \<noteq> []"
      "list_all seg_ok ss" "sof < sg_length (hd ss)" "drop sof (segs_flat ss) = drop soff (region_flat src)"
    using find_segment_at [of "rgn_segments src" 0 soff] ok(1) n by (auto simp: user_region_ok_def region_flat_def segs_flat_def)
  obtain ds dof where d: "find_segment (rgn_segments dst) 0 doff = Some (ds, dof)" "ds \<noteq> []"
      "list_all seg_ok ds" "dof < sg_length (hd ds)"
    using find_segment_at [of "rgn_segments dst" 0 doff] ok(2) n by (auto simp: user_region_ok_def)
  let ?c = "\<lparr>oc_segs = ss, oc_segoff = sof, oc_page = (sof + first_page_offset (hd ss)) div PAGE_SIZE,
      oc_pageoff = (sof + first_page_offset (hd ss)) mod PAGE_SIZE\<rparr>"
  have c: "vect_ok ?c" "vect_addrs ?c = drop soff (region_flat src)"
    using s by (simp_all add: vect_ok_def vect_addrs_def)
  have da: "dst_addrs (dst_start ds dof) = drop doff va"
    using find_segment_vaddrs [OF d(1)] by (simp add: dst_start_addrs vaddrs)
  have "length va = rgn_total_length dst"
    using ok(2) by (simp add: vaddrs [symmetric] user_region_ok_def length_concat comp_def)
  then have "n \<le> length (dst_addrs (dst_start ds dof))" using n(3) by (simp add: da)
  moreover have "n \<le> length (vect_addrs ?c)"
    using n(2) length_region_flat [OF ok(1)] by (simp only: c(2) length_drop)
  ultimately show ?thesis
    using shared_copy_loop_flat [of copied, OF full c(1) dst_start_ok [OF d(2,3,4)] n(1), of frame]  disj s(1) d(1)
    by (simp add: omx_memcpy_between_user_regions_to_current_def c(2) da)
qed

subsection \<open>What the transfers do to the application's memory\<close>

definition sample_usegs :: "omx_cmd_user_segment list" where
  "sample_usegs = [\<lparr>vaddr = 4094, seg_len = 3\<rparr>, \<lparr>vaddr = 0, seg_len = 0\<rparr>, \<lparr>vaddr = 9000, seg_len = 2\<rparr>]"

definition sample_region :: user_region where
  "sample_region = \<lparr>rgn_segments =
     [\<lparr>aligned_vaddr = 0, first_page_offset = 4094, sg_length = 3, pages = [0, 1]\<rparr>,
      \<lparr>aligned_vaddr = 8192, first_page_offset = 808, sg_length = 2, pages = [2]\<rparr>], rgn_total_length = 5\<rparr>"

lemma sample_created:
  "omx_ioctl_user_region_create (\<lambda>p. p) True True 7 sample_usegs Map.empty = (None, [7 \<mapsto> sample_region])"
  "omx_user_region_acquire [7 \<mapsto> sample_region] 7 = Some sample_region"
  by (simp_all add: omx_ioctl_user_region_create_def omx_user_region_acquire_def OMX_USER_REGION_MAX_ID_def
      sample_usegs_def sample_region_def omx_user_region_add_segment_def Let_def PAGE_SIZE_def upt_rec)

lemma sample_total: "rgn_total_length sample_region = 5"
  by (simp add: sample_region_def)

lemma sample_addrs: "seg_addrs sample_usegs = [4094, 4095, 4096, 9000, 9001]"
  by (simp add: sample_usegs_def upt_rec)

text \<open>
  C15: Writing received bytes to a range of a region that was created for an array of the
  application's segments stores them at that range of the application's memory, byte for byte and
  nowhere else; a range that does not fit is refused and the memory stays as it is.
\<close>

theorem region_fill_user:
  assumes "omx_ioctl_user_region_create frame mem_ok pin_ok rid usegs table = (None, table')"
    and "omx_user_region_acquire table' rid = Some region" and "inj frame"
  shows "if off + length bs \<le> length (seg_addrs usegs)
    then map_option (apsnd (user_view frame)) (omx_user_region_fill_pages region off bs m)
      = Some (None, put_bytes (take (length bs) (drop off (seg_addrs usegs))) bs (user_view frame m))
    else omx_user_region_fill_pages region off bs m = Some (Some EINVAL, m)"
  using fill_pages_flat [OF created(1) [OF assms(1,2)], of off bs m] created(2,3) [OF assms(1,2)]
  by (simp add: user_view_def take_map drop_map put_bytes_comp [OF phys_of_inj [OF assms(3)]])
    (simp add: omx_user_region_fill_pages_def)

theorem region_fill_user_witness:
  "map_option (apsnd (user_view (\<lambda>p. p))) (omx_user_region_fill_pages sample_region 1 [11, 12, 13] (\<lambda>_. 0))
     = Some (None, put_bytes [4095, 4096, 9000] [11, 12, 13] (\<lambda>_. 0))"
  using region_fill_user [OF sample_created, of 1 "[11, 12, 13]" "\<lambda>_. 0"]
  by (simp add: sample_addrs user_view_def)





text \<open>
  C13: Two processes of one host exchange a message by one copy: the range of the source region
  arrives in the range of the destination, byte for byte, when the two ranges share no memory and
  \<open>copy_to_user\<close> writes all it is asked to.
\<close>

theorem shared_copy_user:
  assumes "omx_ioctl_user_region_create sframe mem_ok pin_ok sid susegs stab = (None, stab')"
    and "omx_user_region_acquire stab' sid = Some src"
    and "omx_ioctl_user_region_create dframe mem_ok' pin_ok' did dusegs dtab = (None, dtab')"
    and "omx_user_region_acquire dtab' did = Some dst"
    and "inj dframe" and "\<And>v k. copied v k = k"
    and "soff + n \<le> length (seg_addrs susegs)" and "doff + n \<le> length (seg_addrs dusegs)"
    and "phys_of sframe ` set (take n (drop soff (seg_addrs susegs)))
      \<inter> phys_of dframe ` set (take n (drop doff (seg_addrs dusegs))) = {}"
  shows "map_option (apsnd (user_view dframe)) (omx_copy_between_user_regions dframe copied src soff dst doff n m)
    = Some (None, put_bytes (take n (drop doff (seg_addrs dusegs)))
        (map (user_view sframe m) (take n (drop soff (seg_addrs susegs)))) (user_view dframe m))"
proof (cases "n = 0")
  case True
  then show ?thesis by (simp add: omx_copy_between_user_regions_def)
next
  case False
  note s = created [OF assms(1,2)] and d = created [OF assms(3,4)]
  have "omx_memcpy_between_user_regions_to_current dframe copied src soff dst doff n m
      = Some (None, put_bytes (map (phys_of dframe) (take n (drop doff (seg_addrs dusegs))))
          (map m (take n (drop soff (region_flat src)))) m)"
    by (rule memcpy_between_flat [OF assms(6) s(1) d(1) _ _ _ created_vaddrs [OF assms(3,4)]])
      (use False assms(7-9) s d in \<open>simp_all add: take_map drop_map\<close>)
  with False assms(7,8) s(3) d(3) put_bytes_comp [OF phys_of_inj [OF assms(5)]] show ?thesis
    by (simp add: omx_copy_between_user_regions_def user_view_def s(2) take_map drop_map comp_def)
qed

theorem shared_copy_user_witness:
  "\<forall>m. map_option (apsnd (user_view (\<lambda>p. p + 100)))
     (omx_copy_between_user_regions (\<lambda>p. p + 100) (\<lambda>v k. k) sample_region 1
        (add_segments (\<lambda>p. p + 100) sample_usegs \<lparr>rgn_segments = [], rgn_total_length = 0\<rparr>) 0 2 m)
   = Some (None, put_bytes [4094, 4095] [m (0, 4095), m (1, 0)] (user_view (\<lambda>p. p + 100) m))"
proof
  fix m
  let ?dst = "add_segments (\<lambda>p. p + 100) sample_usegs \<lparr>rgn_segments = [], rgn_total_length = 0\<rparr>"
  have d: "omx_ioctl_user_region_create (\<lambda>p. p + 100) True True 3 sample_usegs Map.empty = (None, [3 \<mapsto> ?dst])"
    "omx_user_region_acquire [3 \<mapsto> ?dst] 3 = Some ?dst"
    by (simp_all add: omx_ioctl_user_region_create_def omx_user_region_acquire_def OMX_USER_REGION_MAX_ID_def Let_def)
  have "inj (\<lambda>p. p + 100 :: nat)" by (rule injI) simp
  from shared_copy_user [OF sample_created d this, of "\<lambda>v k. k" 1 2 0 m]
  show "map_option (apsnd (user_view (\<lambda>p. p + 100)))
     (omx_copy_between_user_regions (\<lambda>p. p + 100) (\<lambda>v k. k) sample_region 1 ?dst 0 2 m)
   = Some (None, put_bytes [4094, 4095] [m (0, 4095), m (1, 0)] (user_view (\<lambda>p. p + 100) m))"
    by (simp add: sample_addrs phys_of_def PAGE_SIZE_def user_view_def)
qed

text \<open>
  C38: A cache for a range of no bytes at the end of a region of several segments is not refused: its
  initialisation walks off the array of segments.
\<close>

theorem cache_init_overrun:
  assumes "user_region_ok region" and "length (rgn_segments region) > 1"
  shows "omx_user_region_offset_cache_init region (rgn_total_length region) 0 = None"
proof -
  have "find_segment (rgn_segments region) 0 (rgn_total_length region) = None"
    using assms(1) by (intro find_segment_overrun) (simp add: user_region_ok_def)
  moreover have "rgn_segments region \<noteq> []" using assms(2) by auto
  ultimately show ?thesis using assms(2) by (simp add: omx_user_region_offset_cache_init_def)
qed

theorem cache_init_overrun_witness:
  "omx_user_region_offset_cache_init sample_region (rgn_total_length sample_region) 0 = None"
  by (rule cache_init_overrun [OF created(1) [OF sample_created]]) (simp add: sample_region_def)

end
