(* ===== verification/Pull_Answer.thy ===== *)
theory Pull_Answer
  imports Pull_Window Pull_Driver Region_Transfer
begin

text \<open>
  What the sender's driver answers to the requests of a pull (\<open>omx_recv_pull_request\<close>): every reply
  holds one frame of the sender's region.
\<close>

subsection \<open>What the sender answers\<close>

text \<open>A reply that holds the \<open>k\<close>-th frame of the bytes \<open>S\<close>.\<close>

definition frame_start :: "nat \<Rightarrow> nat \<Rightarrow> nat" where
  "frame_start off k = k * RL - off"

definition frame_size :: "nat \<Rightarrow> nat \<Rightarrow> nat \<Rightarrow> nat" where
  "frame_size N off k = min ((k + 1) * RL) N - max (k * RL) off"

definition frame_of :: "nat \<Rightarrow> nat \<Rightarrow> bytes \<Rightarrow> nat \<Rightarrow> pull_reply \<Rightarrow> bool" where
  "frame_of N off S k r \<longleftrightarrow> k < nframes N \<and> pr_frame_seqnum r = k mod 256
     \<and> pr_msg_offset r = frame_start off k \<and> pr_frame_length r = frame_size N off k
     \<and> frame_start off k + frame_size N off k \<le> length S
     \<and> pr_data r = take (frame_size N off k) (drop (frame_start off k) S)"

lemma frame_bounds:
  assumes "off < RL" and "off < N" and "k < nframes N"
  shows "max (k * RL) off < min ((k + 1) * RL) N" and "frame_start off k + off = max (k * RL) off"
    and "frame_start off k + frame_size N off k \<le> N - off" and "frame_size N off k \<le> RL"
proof -
  have k: "k * RL < N" using assms(3) by (simp add: lt_nframes)
  have kk: "k = 0 \<or> RL \<le> k * RL" by (cases k) auto
  show s: "frame_start off k + off = max (k * RL) off"
    using kk assms(1) by (auto simp: frame_start_def)
  show l: "max (k * RL) off < min ((k + 1) * RL) N"
    using k assms(1,2) by (auto simp: algebra_simps)
  show "frame_start off k + frame_size N off k \<le> N - off"
    using s l assms(2) by (simp add: frame_size_def)
  show "frame_size N off k \<le> RL" by (simp add: frame_size_def algebra_simps)
qed

lemma reply_data_flat:
  assumes "cursor_ok rgn c" and "n \<le> length (cursor_addrs rgn c)" and "reply_data conf rgn m n c = Some (bs, c')"
  shows "bs = map m (take n (cursor_addrs rgn c))" and "cursor_ok rgn c'" and "cursor_addrs rgn c' = drop n (cursor_addrs rgn c)"
proof -
  have frag: "concat (map (frag_bytes m) frags) = map m (concat (map frag_addrs frags))" for frags
  proof (induction frags)
    case (Cons f frags)
    then show ?case by (cases f) (simp add: frag_bytes_def)
  qed simp
  note copy = copy_pages_to_buf_flat [OF assms(1,2), of m] and app = append_pages_to_skb_flat [OF assms(1,2)]
  show "bs = map m (take n (cursor_addrs rgn c))" "cursor_ok rgn c'" "cursor_addrs rgn c' = drop n (cursor_addrs rgn c)"
    using assms(3) copy app [of "omx_skb_frags conf"]
    by (auto simp: reply_data_def frag split: if_splits option.splits)
qed

text \<open>The requests of a pull: the header with one of the blocks.\<close>

definition request_ok :: "nat \<Rightarrow> nat \<Rightarrow> pull_request \<Rightarrow> pull_request \<Rightarrow> bool" where
  "request_ok N off hdr req \<longleftrightarrow> (\<exists>j. 32 * j < nframes N \<and>
     req = hdr\<lparr>pq_frame_index := 32 * j, pq_first_frame_offset := (if j = 0 then off else 0),
       pq_block_length := min N (32 * (j + 1) * RL) - (32 * j * RL + (if j = 0 then off else 0))\<rparr>)"

lemma nat_int_mod: "a \<le> b \<Longrightarrow> b - a < M \<Longrightarrow> nat ((int b - int a) mod int M) = b - a"
proof -
  assume "a \<le> b" "b - a < M"
  then have "int b - int a = int (b - a)" "(b - a) mod M = b - a" by simp_all
  then show "nat ((int b - int a) mod int M) = b - a" by (metis nat_int zmod_int)
qed

lemma reply_loop_frames:
  assumes off: "off < RL" "off < N" and N: "N + RL \<le> 2 ^ 32" and E: "E = min N (32 * (j + 1) * RL)"
    and ffo: "pq_first_frame_offset req = (if j = 0 then off else 0)" and S: "S = map m (drop R (region_flat rgn))"
  shows "reply_loop n conf skb_ok rgn m req i k (frame_start off k) rem c = Some (e, rs) \<Longrightarrow>
     n = nframes E - k \<Longrightarrow> k = 32 * j + i \<Longrightarrow> rem = E - max (k * RL) off \<Longrightarrow>
     cursor_ok rgn c \<Longrightarrow> cursor_addrs rgn c = drop (R + frame_start off k) (region_flat rgn) \<Longrightarrow>
     R + frame_start off k + rem \<le> length (region_flat rgn) \<Longrightarrow>
     r \<in> set rs \<Longrightarrow> (\<exists>k. frame_of N off S k r) \<and> pr_dst_pull_handle r = pq_src_pull_handle req"
proof (induction n arbitrary: i k rem c e rs)
  case 0
  then show ?case by simp
next
  case (Suc n)
  note run = Suc.prems(1) and k = Suc.prems(3) and rem = Suc.prems(4) and c = Suc.prems(5-7) and r = Suc.prems(8)
  have kE: "k < nframes E" using Suc.prems(2) by simp
  then have kN: "k < nframes N" unfolding lt_nframes E by simp
  have k1: "(k + 1) * RL \<le> 32 * (j + 1) * RL"
  proof (rule mult_right_mono)
    have "k * RL < 32 * (j + 1) * RL" using kE unfolding lt_nframes E by simp
    then show "k + 1 \<le> 32 * (j + 1)" by simp
  qed simp
  note f = frame_bounds [OF off kN]
  let ?len = "frame_size N off k"
  let ?first = "nat ((int RL - int (pq_first_frame_offset req)) mod 2 ^ 32)"
  have "pq_first_frame_offset req \<le> RL" using off by (simp add: ffo)
  moreover have "RL - pq_first_frame_offset req < 2 ^ 32" using reply_length_max(2) by simp
  ultimately have first: "?first = RL - pq_first_frame_offset req"
    using nat_int_mod [of "pq_first_frame_offset req" RL "2 ^ 32"] by simp
  have "(if i = 0 then ?first else RL) = (k + 1) * RL - max (k * RL) off"
  proof (cases "k = 0")
    case True
    then show ?thesis using k off unfolding first by (simp add: ffo)
  next
    case False
    then have "RL \<le> k * RL" by (cases k) auto
    then have "off \<le> k * RL" using off(1) by linarith
    then have "max (k * RL) off = k * RL" by (rule max_absorb1)
    moreover have "i = 0 \<Longrightarrow> j \<noteq> 0" using False k by auto
    ultimately show ?thesis unfolding first by (auto simp: ffo)
  qed
  then have flen: "min (if i = 0 then ?first else RL) rem = ?len"
    using k1 by (auto simp: rem frame_size_def E min_def)
  have len_le: "?len \<le> rem" unfolding flen [symmetric] by simp
  have skb: "skb_ok i" and data: "\<exists>bs c' e' rs'. reply_data conf rgn m ?len c = Some (bs, c')
      \<and> reply_loop n conf skb_ok rgn m req (i + 1) ((k + 1) mod 2 ^ 32) ((frame_start off k + ?len) mod 2 ^ 32) (rem - ?len) c' = Some (e', rs')
      \<and> rs = \<lparr>pr_frame_seqnum = k mod 2 ^ 8, pr_frame_length = ?len mod 2 ^ 16, pr_msg_offset = frame_start off k,
          pr_dst_pull_handle = pq_src_pull_handle req, pr_dst_magic = pq_src_magic req, pr_data = bs\<rparr> # rs'"
    using run r unfolding reply_loop.simps Let_def flen
    by (auto simp: bind_eq_Some_conv split: if_splits)
  then obtain bs c' e' rs' where d: "reply_data conf rgn m ?len c = Some (bs, c')"
      "reply_loop n conf skb_ok rgn m req (i + 1) ((k + 1) mod 2 ^ 32) ((frame_start off k + ?len) mod 2 ^ 32) (rem - ?len) c' = Some (e', rs')"
      "rs = \<lparr>pr_frame_seqnum = k mod 2 ^ 8, pr_frame_length = ?len mod 2 ^ 16, pr_msg_offset = frame_start off k,
          pr_dst_pull_handle = pq_src_pull_handle req, pr_dst_magic = pq_src_magic req, pr_data = bs\<rparr> # rs'"
    by blast
  have avail: "?len \<le> length (cursor_addrs rgn c)" using c(2,3) len_le by simp
  note bs = reply_data_flat [OF c(1) avail d(1)]
  show ?case
  proof (cases "r \<in> set rs'")
    case False
    with r d(3) have req: "r = \<lparr>pr_frame_seqnum = k mod 2 ^ 8, pr_frame_length = ?len mod 2 ^ 16, pr_msg_offset = frame_start off k,
        pr_dst_pull_handle = pq_src_pull_handle req, pr_dst_magic = pq_src_magic req, pr_data = bs\<rparr>" by simp
    have "?len mod 2 ^ 16 = ?len" using f(4) reply_length_max(2) by simp
    moreover have "frame_start off k + ?len \<le> length S" using avail c(2,3) len_le by (simp add: S)
    ultimately have "frame_of N off S k r"
      using kN bs(1) by (simp add: frame_of_def req S c(2) drop_map take_map add.commute)
    then show ?thesis by (auto simp: req)
  next
    case True
    have n0: "n \<noteq> 0" using True d(2) by (cases n) auto
    then have k1E: "k + 1 < nframes E" using Suc.prems(2) by simp
    then have "(k + 1) * RL < E" by (simp only: lt_nframes)
    then have kl: "(k + 1) * RL < N" by (simp add: E)
    have start': "frame_start off k + ?len = frame_start off (k + 1)" and max': "max ((k + 1) * RL) off = (k + 1) * RL"
      using kl f(1,2) off by (auto simp: frame_size_def frame_start_def)
    have small: "(k + 1) mod 2 ^ 32 = k + 1" "frame_start off (k + 1) mod 2 ^ 32 = frame_start off (k + 1)"
    proof -
      have "1 \<le> RL" using reply_length_max(1) by linarith
      from mult_le_mono2 [OF this, of "k + 1"] have "k + 1 \<le> (k + 1) * RL" by (simp only: mult_1_right)
      with kl N show "(k + 1) mod 2 ^ 32 = k + 1" by (intro mod_less) linarith
      have "frame_start off (k + 1) < 2 ^ 32" using kl N unfolding frame_start_def by linarith
      then show "frame_start off (k + 1) mod 2 ^ 32 = frame_start off (k + 1)" by (rule mod_less)
    qed
    have "off \<le> (k + 1) * RL" using max' by (metis max.cobounded2)
    then have "max (k * RL) off + ?len = (k + 1) * RL"
      using start' f(2) unfolding frame_start_def [of off "k + 1"] by linarith
    then have rem': "rem - ?len = E - max ((k + 1) * RL) off"
      unfolding rem max' by simp
    show ?thesis
    proof (rule Suc.IH [OF _ _ _ rem' bs(2)])
      show "reply_loop n conf skb_ok rgn m req (i + 1) (k + 1) (frame_start off (k + 1)) (rem - ?len) c' = Some (e', rs')"
        using d(2) by (simp only: start' small)
      show "n = nframes E - (k + 1)" "k + 1 = 32 * j + (i + 1)" using Suc.prems(2) k by simp_all
      show "cursor_addrs rgn c' = drop (R + frame_start off (k + 1)) (region_flat rgn)"
        using add.assoc [of R "frame_start off k" ?len] by (simp only: bs(3) c(2) drop_drop start' add.commute)
      show "R + frame_start off (k + 1) + (rem - ?len) \<le> length (region_flat rgn)"
        using c(3) len_le start' by linarith
    qed (rule True)
  qed
qed

lemma request_replies:
  assumes off: "off < RL" "off < N" and N: "R - off + N + RL \<le> 2 ^ 32" and R: "R mod RL = off"
    and hdr: "pq_pulled_rdma_offset hdr = R" and ok: "request_ok N off hdr req"
    and src: "acquire (pq_dst_endpoint hdr) = Inr sep"
      "omx_user_region_acquire (pe_regions sep) (pq_pulled_rdma_id hdr) = Some rgn" "user_region_ok rgn"
    and run: "omx_recv_pull_request conf skb_ok peer_ok acquire m req = Some (e, pkts)" and r: "Reply r \<in> set pkts"
  shows "(\<exists>k. frame_of N off (map m (drop R (region_flat rgn))) k r) \<and> pr_dst_pull_handle r = pq_src_pull_handle hdr"
proof -
  obtain j where j: "32 * j < nframes N" and req: "req = hdr\<lparr>pq_frame_index := 32 * j,
      pq_first_frame_offset := (if j = 0 then off else 0),
      pq_block_length := min N (32 * (j + 1) * RL) - (32 * j * RL + (if j = 0 then off else 0))\<rparr>"
    using ok by (auto simp: request_ok_def)
  let ?ffo = "if j = 0 then off else 0" and ?E = "min N (32 * (j + 1) * RL)"
  let ?bl = "?E - (32 * j * RL + ?ffo)" and ?k = "32 * j"
  let ?mo = "nat ((int ?k * int RL - int (R mod RL) + int ?ffo) mod 2 ^ 32)"
  let ?replies = "(?ffo + ?bl + RL - 1) mod 2 ^ 32 div RL"
  have R_off: "off \<le> R" using R by (metis mod_less_eq_dividend)
  have jN: "32 * j * RL < N" using j by (simp add: lt_nframes)
  have start: "32 * j * RL + ?ffo = max (?k * RL) off"
  proof (cases j)
    case (Suc i)
    then have "RL \<le> 32 * j * RL" by simp
    then have "off \<le> ?k * RL" using off(1) by linarith
    with Suc show ?thesis by simp
  qed simp
  have start_le: "32 * j * RL + ?ffo < ?E"
    using jN off by (auto simp: algebra_simps)
  have fs: "frame_start off ?k + off = 32 * j * RL + ?ffo"
    using frame_bounds(2) [OF off j] start by simp
  have mo: "?mo = frame_start off ?k"
  proof -
    have "int ?k * int RL - int (R mod RL) + int ?ffo = int (32 * j * RL + ?ffo) - int off" by (simp add: R)
    then have "?mo = nat ((int (32 * j * RL + ?ffo) - int off) mod int (2 ^ 32))" by simp
    also have "\<dots> = 32 * j * RL + ?ffo - off"
    proof (rule nat_int_mod)
      show "off \<le> 32 * j * RL + ?ffo" using fs by linarith
      show "32 * j * RL + ?ffo - off < 2 ^ 32" using start_le N by linarith
    qed
    also have "\<dots> = frame_start off ?k" using fs by linarith
    finally show ?thesis .
  qed
  have replies: "?replies = nframes ?E - ?k"
  proof -
    have sum: "?ffo + ?bl = ?E - 32 * j * RL" using start_le by linarith
    have "?E - 32 * j * RL + RL - 1 < 2 ^ 32" using start_le N by linarith
    then have "?replies = (?E - 32 * j * RL + RL - 1) div RL" unfolding sum by (simp only: mod_less)
    also have "(?E - 32 * j * RL + RL - 1) div RL = nframes (?E - 32 * j * RL)" by (simp only: nframes_def)
    also have "\<dots> = min (nframes N) (32 * (j + 1)) - ?k" by (rule nframes_block)
    also have "min (nframes N) (32 * (j + 1)) = nframes ?E"
    proof (rule nat_eq_if_lt)
      fix k
      show "k < min (nframes N) (32 * (j + 1)) \<longleftrightarrow> k < nframes ?E"
        unfolding min_less_iff_conj lt_nframes by (simp del: mult_Suc_right)
    qed
    finally show ?thesis .
  qed
  have acq: "acquire (pq_dst_endpoint req) = Inr sep" "omx_user_region_acquire (pe_regions sep) (pq_pulled_rdma_id req) = Some rgn"
    using src(1,2) by (simp_all add: req)
  have small: "(frame_start off ?k + R) mod 2 ^ 32 = R + frame_start off ?k"
  proof -
    have "R + frame_start off ?k < 2 ^ 32" using fs start_le N R_off by linarith
    then show ?thesis by (subst add.commute) (rule mod_less)
  qed
  obtain c e' rs where c: "omx_user_region_offset_cache_init rgn (R + frame_start off ?k) ?bl = Some (Some c)"
      and loop: "reply_loop (nframes ?E - ?k) conf skb_ok rgn m req 0 ?k (frame_start off ?k) ?bl c = Some (e', rs)"
      and pkts: "pkts = map Reply rs"
  proof -
    have sel: "pq_pulled_rdma_offset req = R" "pq_frame_index req = ?k" "pq_first_frame_offset req = ?ffo" "pq_block_length req = ?bl"
      by (simp_all add: req hdr)
    show thesis
      using run r that
      unfolding omx_recv_pull_request_def acq sel Let_def replies mo small
      by (auto simp: acq nack_for_def bind_eq_Some_conv split: if_splits option.splits)
  qed
  have le: "R + frame_start off ?k + ?bl \<le> rgn_total_length rgn"
    using c by (auto simp: omx_user_region_offset_cache_init_def split: if_splits)
  moreover have "0 < ?bl" using start_le by simp
  ultimately have "R + frame_start off ?k < rgn_total_length rgn" by linarith
  from cache_init_at [OF src(3) le this] c have cur: "cursor_ok rgn c" "cursor_addrs rgn c = drop (R + frame_start off ?k) (region_flat rgn)"
    by auto
  have "r \<in> set rs" using r pkts by auto
  then have "(\<exists>k. frame_of N off (map m (drop R (region_flat rgn))) k r) \<and> pr_dst_pull_handle r = pq_src_pull_handle req"
    by (intro reply_loop_frames [OF off _ refl _ refl loop refl _ _ cur])
      (use N R_off le length_region_flat [OF src(3)] start in \<open>simp_all add: req\<close>)
  then show ?thesis by (simp add: req)
qed

end
