(* ===== verification/Pull_Run.thy ===== *)
theory Pull_Run
  imports Pull_Answer
begin

text \<open>
  A pull from its ioctl to its completion: the requests and replies travel over a network that
  loses, repeats and reorders them, timers and nacks come at any time, the copies of several replies
  overlap. When the completion is reported as a success, the receiver's memory holds the sender's
  bytes.
\<close>

subsection \<open>A reply at the handle\<close>

lemma frame_number:
  assumes off: "off < RL" "off < N" and N: "N + RL \<le> 2 ^ 32" and k: "k < nframes N"
  shows "(frame_start off k + RL - 1) mod 2 ^ 32 div RL = k"
proof -
  have "frame_start off k < N" using frame_bounds(1,2) [OF off k] by linarith
  then have "(frame_start off k + RL - 1) mod 2 ^ 32 = frame_start off k + RL - 1"
    using N by (intro mod_less) linarith
  moreover have "(frame_start off k + RL - 1) div RL = k"
  proof (cases k)
    case 0
    then show ?thesis using reply_length_max(1) by (simp add: frame_start_def)
  next
    case (Suc i)
    then have "RL \<le> k * RL" by simp
    then have "frame_start off k + RL - 1 = RL - 1 - off + k * RL"
      using off(1) unfolding frame_start_def by linarith
    then have "(frame_start off k + RL - 1) div RL = (RL - 1 - off + k * RL) div RL" by (simp only:)
    also have "\<dots> = k + (RL - 1 - off) div RL"
      by (rule div_mult_self1) (use reply_length_max(1) in linarith)
    finally show ?thesis using off(1) by simp
  qed
  ultimately show ?thesis by (simp only:)
qed

lemma reply_frame_Some:
  assumes "reply_frame h r = Some o'"
  shows "(pr_msg_offset r + RL - 1) mod 2 ^ 32 div RL = frame_index h + o'" and "o' < nr_requested_frames h"
    and "bit (frames_missing_bitmap (block_desc h ! (o' div 32))) (o' mod 32)"
  using assms unfolding reply_frame_def Let_def per_block
  by (simp_all only: split: if_splits) (simp_all only: option.inject option.distinct not_le not_not)

lemma reply_frame_sound:
  assumes "off < RL" and "off < N" and "N + RL \<le> 2 ^ 32" and w: "window N off b h" and r: "frame_of N off S k r"
    and f: "reply_frame h r = Some o'"
  shows "k = frame_index h + o'" and "o' < nr_requested_frames h" and "k \<in> missing h"
proof -
  have k: "k < nframes N" "pr_msg_offset r = frame_start off k" using r by (simp_all add: frame_of_def)
  show idx: "k = frame_index h + o'"
    using reply_frame_Some(1) [OF f] frame_number [OF assms(1-3) k(1)] by (simp only: k(2))
  show req: "o' < nr_requested_frames h" by (rule reply_frame_Some(2) [OF f])
  note reply_frame_Some(3) [OF f]
  with missing_iff(1) [OF w req] show "k \<in> missing h" by (simp add: idx)
qed

lemma reply_frame_complete:
  assumes "off < RL" and "off < N" and "N + RL \<le> 2 ^ 32" and w: "window N off b h" and r: "frame_of N off S k r"
    and m: "k \<in> missing h"
  shows "reply_frame h r = Some (k - frame_index h)"
proof -
  have k: "k < nframes N" "pr_msg_offset r = frame_start off k" "pr_frame_seqnum r = k mod 256"
    using r by (simp_all add: frame_of_def)
  note b = missing_bounds [OF w m]
  let ?o = "k - frame_index h"
  have o: "?o < nr_requested_frames h" "k = frame_index h + ?o" using b by simp_all
  have "?o < 128"
    using m windowD(1) [OF w] by (auto simp: missing_def)
  have "(k mod 256 + 256 - frame_index h mod 256) mod 256 = (k + 256 - frame_index h mod 256) mod 256"
  proof -
    have "frame_index h mod 256 \<le> 256" by simp
    then have "k mod 256 + 256 - frame_index h mod 256 = k mod 256 + (256 - frame_index h mod 256)"
      "k + 256 - frame_index h mod 256 = k + (256 - frame_index h mod 256)" by simp_all
    then show ?thesis by (simp only: mod_add_left_eq)
  qed
  also have "k + 256 - frame_index h mod 256 = ?o + 256 + 256 * (frame_index h div 256)"
    using o(2) mult_div_mod_eq [of 256 "frame_index h"] mod_less_divisor [of 256 "frame_index h"] by linarith
  also have "\<dots> mod 256 = ?o" using \<open>?o < 128\<close> by simp
  finally have off': "(k mod 256 + 256 - frame_index h mod 256) mod 256 = ?o" .
  have bit: "bit (frames_missing_bitmap (block_desc h ! (?o div 32))) (?o mod 32)"
    using missing_iff(1) [OF w o(1)] m o(2) by simp
  show ?thesis
    using o(1) bit unfolding reply_frame_def Let_def per_block k(2,3) off' frame_number [OF assms(1-3) k(1)] o(2) [symmetric]
    by simp
qed

text \<open>What a reply does to the handle.\<close>

definition handle_ok :: "nat \<Rightarrow> nat \<Rightarrow> omx_pull_handle \<Rightarrow> bool" where
  "handle_ok N off h \<longleftrightarrow> (\<exists>b. window N off b h) \<and> pipelined h \<and> stale_ok N off h \<and> 0 < next_frame_index h"

lemma request_of_desc:
  "desc_of N off (block_desc h ! i) \<Longrightarrow> request_ok N off (pkt_hdr h) (omx_fill_pull_block_request h i)"
proof -
  assume "desc_of N off (block_desc h ! i)"
  then obtain j where j: "32 * j < nframes N" "block_ok N off j (block_desc h ! i)" by (auto simp: desc_of_def)
  then have d: "bd_frame_index (block_desc h ! i) = 32 * j"
    "bd_first_frame_offset (block_desc h ! i) = (if j = 0 then off else 0)"
    "bd_block_length (block_desc h ! i) = min N (32 * (j + 1) * RL) - (32 * j * RL + (if j = 0 then off else 0))"
    unfolding block_ok_def by simp_all
  show ?thesis
    unfolding request_ok_def omx_fill_pull_block_request_def Let_def d using j(1) by (intro exI [of _ j]) simp
qed

lemma requests_of_descs:
  "(\<And>i. i \<in> set is \<Longrightarrow> desc_of N off (block_desc h ! i)) \<Longrightarrow> req \<in> set (request_blocks skb_ok h is) \<Longrightarrow>
     request_ok N off (pkt_hdr h) req"
  by (auto simp: request_blocks_def intro: request_of_desc dest!: set_takeWhileD)

lemma progress_requests:
  assumes w: "window N off b h" and idesc: "idesc < nr_valid_block_descs h" and w': "window N off b' h'"
    and p: "omx_progress_pull_on_recv_pull_reply_locked skb_ok idesc h = (h', requests)"
    and req: "req \<in> set requests"
  shows "request_ok N off (pkt_hdr h) req"
proof (cases "missing_in h 0")
  case True
  with p req have "req \<in> set (request_blocks skb_ok h (filter (missing_in h) [already_rerequested_blocks h..<idesc]))"
    by (auto simp: omx_progress_pull_on_recv_pull_reply_locked_def Let_def split: if_splits)
  then show ?thesis
    using idesc by (auto elim!: requests_of_descs [rotated] intro!: desc_of_valid [OF w])
next
  case False
  then have h': "h' = append_blocks (drop_done 3 (omx_pull_handle_first_block_done h))"
    and reqs: "req \<in> set (request_blocks skb_ok h' [nr_valid_block_descs (drop_done 3 (omx_pull_handle_first_block_done h))..<nr_valid_block_descs h'])"
    using p req by (auto simp: omx_progress_pull_on_recv_pull_reply_locked_def Let_def)
  from reqs have "request_ok N off (pkt_hdr h') req"
    by (elim requests_of_descs [rotated]) (simp add: desc_of_valid [OF w'])
  moreover have "pkt_hdr h' = pkt_hdr h"
    using fixed_progress [OF p] by (simp add: fixed_part_def)
  ultimately show ?thesis by simp
qed

lemma reply_locked_ok:
  assumes off: "off < RL" "off < N" and N: "N + RL \<le> 2 ^ 32" and h: "handle_ok N off h" and r: "frame_of N off S k r"
    and l: "reply_locked skb_ok r h = Some (h', requests)"
  shows "k \<in> missing h" and "handle_ok N off h'"
    and "missing h' = (missing h - {k}) \<union> {next_frame_index h..<next_frame_index h'}"
    and "next_frame_index h \<le> next_frame_index h'"
    and "fixed_part h' = fixed_part (h\<lparr>host_copy_nr_frames := host_copy_nr_frames h + 1\<rparr>)"
    and "req \<in> set requests \<Longrightarrow> request_ok N off (pkt_hdr h) req"
proof -
  obtain b where w: "window N off b h" using h by (auto simp: handle_ok_def)
  obtain o' where o': "reply_frame h r = Some o'" using l by (auto simp: reply_locked_def split: if_splits option.splits)
  note s = reply_frame_sound [OF off N w r o']
  let ?h1 = "frame_received o' h"
  let ?h2 = "?h1\<lparr>host_copy_nr_frames := host_copy_nr_frames ?h1 + 1\<rparr>"
  have p: "omx_progress_pull_on_recv_pull_reply_locked skb_ok (o' div 32) ?h2 = (h', requests)"
    using l o' by (auto simp: reply_locked_def Let_def split: if_splits)
  have w2: "window N off b ?h2" using frame_received(1) [OF w s(2)] s(1,3) by simp
  have nv: "nr_valid_block_descs ?h2 = nr_valid_block_descs h" "remaining_length ?h2 = remaining_length h"
    "next_frame_index ?h2 = next_frame_index h" "pkt_hdr ?h2 = pkt_hdr h"
    by (simp_all add: frame_received_def Let_def)
  have i: "o' div 32 < nr_valid_block_descs ?h2" using missing_iff(2) [OF w s(2)] nv(1) by simp
  have nv0: "nr_valid_block_descs ?h2 \<noteq> 0" using i by simp
  have full: "remaining_length ?h2 \<noteq> 0 \<longrightarrow> nr_valid_block_descs ?h2 = 4"
    using h unfolding nv handle_ok_def pipelined_def by blast
  have stale: "stale_ok N off ?h2"
    using stale_frame_received [OF w s(2)] h by (simp add: handle_ok_def)
  from progress_on_reply [OF w2 off(1) nv0 full p] obtain b' where b': "extends N off b' ?h2 h'" "pipelined h'" by blast
  then have w': "window N off b' h'" by (simp add: extends_def)
  show "k \<in> missing h" by (rule s(3))
  show "next_frame_index h \<le> next_frame_index h'" using b'(1) unfolding extends_def nv by blast
  show "missing h' = (missing h - {k}) \<union> {next_frame_index h..<next_frame_index h'}"
    using b'(1) frame_received(2) [OF w s(2)] s(1,3) unfolding extends_def nv by simp
  show "handle_ok N off h'"
    using w' b' h stale_progress [OF w2 nv0 stale p] unfolding handle_ok_def extends_def nv by fastforce
  show "fixed_part h' = fixed_part (h\<lparr>host_copy_nr_frames := host_copy_nr_frames h + 1\<rparr>)"
    using fixed_progress [OF p] fixed_frame_received [of o' h] by (simp add: fixed_part_def)
  show "req \<in> set requests \<Longrightarrow> request_ok N off (pkt_hdr h) req"
    using progress_requests [OF w2 i w' p] unfolding nv by blast
qed

lemma timeout_ok:
  assumes h: "handle_ok N off h" and m: "missing_in h 0"
    and p: "omx_progress_pull_on_handle_timeout_handle_locked skb_ok h = (h', requests)"
  shows "handle_ok N off h'" and "missing h' = missing h" and "next_frame_index h' = next_frame_index h"
    and "fixed_part h' = fixed_part h" and "req \<in> set requests \<Longrightarrow> request_ok N off (pkt_hdr h) req"
proof -
  have h': "h' = h \<or> h' = h\<lparr>already_rerequested_blocks := 0\<rparr>"
    and reqs: "requests = request_blocks skb_ok h' (0 # filter (missing_in h') [1..<4])"
    using p by (auto simp: omx_progress_pull_on_handle_timeout_handle_locked_def Let_def split: if_splits)
  show ok': "handle_ok N off h'" using h h' by (auto simp: handle_ok_def pipelined_def)
  show "missing h' = missing h" "next_frame_index h' = next_frame_index h" "fixed_part h' = fixed_part h"
    using h' by (auto simp: fixed_part_def)
  obtain b where w: "window N off b h'" and s: "stale_ok N off h'" using ok' by (auto simp: handle_ok_def)
  have m': "missing_in h' 0" using m h' by auto
  have hdr: "pkt_hdr h' = pkt_hdr h" using h' by auto
  show "req \<in> set requests \<Longrightarrow> request_ok N off (pkt_hdr h) req"
    unfolding reqs hdr [symmetric]
    by (erule requests_of_descs [rotated]) (use m' in \<open>auto intro: desc_of_missing [OF w s]\<close>)
qed

subsection \<open>Runs\<close>

text \<open>
  The receiver's endpoint and memory, what was sent in the two directions, the replies that are being
  copied and those whose copy is done but not accounted for. A packet that was sent may arrive at any
  time, any number of times, or never; nacks of a type that drivers send may come as well. The sender's memory \<open>ms\<close> does not change.
\<close>

record pull_net =
  pn_ep :: pull_endpoint
  pn_mem :: physical
  pn_requests :: "pull_request set"
  pn_replies :: "pull_reply set"
  pn_copying :: "(nat \<times> pull_reply) list"
  pn_copied :: "nat list"

inductive pull_step :: "reply_config \<Rightarrow> (u8 \<Rightarrow> errno + pull_endpoint) \<Rightarrow> physical \<Rightarrow> pull_net \<Rightarrow> pull_net \<Rightarrow> bool"
  for conf acquire ms
where
  answer: "req \<in> pn_requests s \<Longrightarrow> omx_recv_pull_request conf skb_ok True acquire ms req = Some (e, pkts) \<Longrightarrow>
    pull_step conf acquire ms s (s\<lparr>pn_replies := pn_replies s \<union> {r. Reply r \<in> set pkts}\<rparr>)"
| dropped: "r \<in> pn_replies s \<Longrightarrow> reply_begin skb_ok r (pn_ep s) = Some (Inl (e, ep)) \<Longrightarrow>
    pull_step conf acquire ms s (s\<lparr>pn_ep := ep\<rparr>)"
| accepted: "r \<in> pn_replies s \<Longrightarrow> pr_frame_length r \<le> length (pr_data r) \<Longrightarrow>
    magic_endpoint (pr_dst_magic r) = pe_index (pn_ep s) \<Longrightarrow>
    reply_begin skb_ok r (pn_ep s) = Some (Inr (h, ep, requests)) \<Longrightarrow>
    pull_step conf acquire ms s
      (s\<lparr>pn_ep := ep, pn_requests := pn_requests s \<union> set requests, pn_copying := (h, r) # pn_copying s\<rparr>)"
| copied: "(h, r) \<in> set (pn_copying s) \<Longrightarrow> pe_handles (pn_ep s) h = Some ph \<Longrightarrow>
    omx_user_region_fill_pages (ph_region ph) (pr_msg_offset r) (take (pr_frame_length r) (pr_data r)) (pn_mem s)
      = Some (None, m) \<Longrightarrow>
    pull_step conf acquire ms s
      (s\<lparr>pn_mem := m, pn_copying := remove1 (h, r) (pn_copying s), pn_copied := h # pn_copied s\<rparr>)"
| refused: "(h, r) \<in> set (pn_copying s) \<Longrightarrow> pe_handles (pn_ep s) h = Some ph \<Longrightarrow>
    omx_user_region_fill_pages (ph_region ph) (pr_msg_offset r) (take (pr_frame_length r) (pr_data r)) (pn_mem s)
      = Some (Some e, m) \<Longrightarrow> reply_aborted h (pn_ep s) = Some ep \<Longrightarrow>
    pull_step conf acquire ms s (s\<lparr>pn_ep := ep, pn_copying := remove1 (h, r) (pn_copying s)\<rparr>)"
| finished: "h \<in> set (pn_copied s) \<Longrightarrow> reply_finish h (pn_ep s) = Some ep \<Longrightarrow>
    pull_step conf acquire ms s (s\<lparr>pn_ep := ep, pn_copied := remove1 h (pn_copied s)\<rparr>)"
| timer: "h \<in> set (pull_handles_list (pn_ep s)) \<Longrightarrow>
    omx_pull_handle_timeout_handler now skb_ok h (pn_ep s) = Some (ep, requests) \<Longrightarrow>
    pull_step conf acquire ms s (s\<lparr>pn_ep := ep, pn_requests := pn_requests s \<union> set requests\<rparr>)"
| nacked: "nk_type n \<noteq> 0 \<Longrightarrow> omx_recv_nack_mcp peer_ok n (pn_ep s) = Some (e, ep) \<Longrightarrow> pull_step conf acquire ms s (s\<lparr>pn_ep := ep\<rparr>)"

text \<open>A frame is in the receiver's memory.\<close>

definition written :: "nat \<Rightarrow> nat \<Rightarrow> bytes \<Rightarrow> (nat \<times> nat) list \<Rightarrow> physical \<Rightarrow> nat \<Rightarrow> bool" where
  "written N off S fl m k \<longleftrightarrow>
     frame_start off k + frame_size N off k \<le> length fl \<and> frame_start off k + frame_size N off k \<le> length S
     \<and> (\<forall>p. frame_start off k \<le> p \<and> p < frame_start off k + frame_size N off k \<longrightarrow> m (fl ! p) = S ! p)"

definition slots_of :: "pull_endpoint \<Rightarrow> nat option \<Rightarrow> bool" where
  "slots_of ep found \<longleftrightarrow> (\<forall>i. hs_handle (pull_handle_slots_array ep i) = (if i = 0 then found else None))"

definition run_ok ::
  "nat \<Rightarrow> nat \<Rightarrow> bytes \<Rightarrow> user_region \<Rightarrow> pull_request \<Rightarrow> nat \<Rightarrow> pull_net \<Rightarrow> omx_pull_handle \<Rightarrow> bool"
where
  "run_ok N off S rgn hdr h s ph \<longleftrightarrow> pe_handles (pn_ep s) = [h \<mapsto> ph] \<and> slots_of (pn_ep s) (Some h)
     \<and> pe_exp_queue (pn_ep s) = exp_queue_init
     \<and> ph_status ph = PULL_STATUS_OK \<and> handle_ok N off ph \<and> ph_region ph = rgn \<and> pkt_hdr ph = hdr
     \<and> OMX_PULL_HANDLE_SLOT_INDEX_FROM_ID (slot_id ph) = 0
     \<and> host_copy_nr_frames ph = length (pn_copying s) + length (pn_copied s)
     \<and> refcount ph = 1 + length (pn_copying s) + length (pn_copied s)
     \<and> (\<forall>req \<in> pn_requests s. request_ok N off hdr req)
     \<and> (\<forall>r \<in> pn_replies s. \<exists>k. frame_of N off S k r)
     \<and> (\<forall>(x, r) \<in> set (pn_copying s). x = h \<and> (\<exists>k. frame_of N off S k r))
     \<and> (\<forall>k < next_frame_index ph. k \<in> missing ph \<or> (\<exists>r. (h, r) \<in> set (pn_copying s) \<and> frame_of N off S k r)
          \<or> written N off S (region_flat rgn) (pn_mem s) k)"

definition running ::
  "nat \<Rightarrow> nat \<Rightarrow> bytes \<Rightarrow> user_region \<Rightarrow> pull_request \<Rightarrow> nat \<Rightarrow> pull_net \<Rightarrow> bool"
where
  "running N off S rgn hdr h s \<longleftrightarrow> (\<exists>ph. run_ok N off S rgn hdr h s ph)"

definition ended :: "nat \<Rightarrow> nat \<Rightarrow> pull_endpoint \<Rightarrow> bool" where
  "ended h code ep \<longleftrightarrow> slots_of ep None \<and> dom (pe_handles ep) \<subseteq> {h}
     \<and> (\<forall>ph. pe_handles ep h = Some ph \<longrightarrow> ph_status ph \<noteq> PULL_STATUS_OK)
     \<and> (\<exists>ev. pe_exp_queue ep = snd (omx_notify_exp_event (EVT_PULL_DONE ev) exp_queue_init) \<and> pd_status ev = code)"

definition completed :: "nat \<Rightarrow> nat \<Rightarrow> bytes \<Rightarrow> user_region \<Rightarrow> nat \<Rightarrow> pull_net \<Rightarrow> bool" where
  "completed N off S rgn h s \<longleftrightarrow> (\<exists>code. ended h code (pn_ep s)
     \<and> (code = 0 \<longrightarrow> pn_copying s = [] \<and> (\<forall>k < nframes N. written N off S (region_flat rgn) (pn_mem s) k)))"

subsection \<open>Steps of the endpoint\<close>

lemma slots_of_free:
  "slots_of ep (Some h) \<Longrightarrow> OMX_PULL_HANDLE_SLOT_INDEX_FROM_ID ident = 0 \<Longrightarrow>
     slots_of (omx_pull_handle_free_slot ident ep) None"
  by (simp add: slots_of_def omx_pull_handle_free_slot_def Let_def)

lemma free_slot_sel [simp]:
  "pe_handles (omx_pull_handle_free_slot ident ep) = pe_handles ep"
  "pe_exp_queue (omx_pull_handle_free_slot ident ep) = pe_exp_queue ep"
  "pull_handles_list (omx_pull_handle_free_slot ident ep) = pull_handles_list ep"
  by (simp_all add: omx_pull_handle_free_slot_def Let_def)

lemma set_handle_sel [simp]:
  "pe_handles (set_handle h ph ep) = (pe_handles ep)(h \<mapsto> ph)" "pe_exp_queue (set_handle h ph ep) = pe_exp_queue ep"
  "pull_handle_slots_array (set_handle h ph ep) = pull_handle_slots_array ep"
  "pull_handles_list (set_handle h ph ep) = pull_handles_list ep"
  by (simp_all add: set_handle_def)

lemma slots_of_set_handle [simp]: "slots_of (set_handle h ph ep) x = slots_of ep x"
  by (simp add: slots_of_def)

lemma find_slot_of: "slots_of ep found \<Longrightarrow> find_slot ident ep = Some h \<Longrightarrow> found = Some h"
proof -
  assume s: "slots_of ep found" and "find_slot ident ep = Some h"
  then have "hs_handle (pull_handle_slots_array ep (OMX_PULL_HANDLE_SLOT_INDEX_FROM_ID ident)) = Some h"
    by (simp add: find_slot_def Let_def split: if_splits)
  with s show "found = Some h" by (simp add: slots_of_def split: if_splits)
qed

lemma ended_cong:
  assumes "ended h code ep" and "pull_handle_slots_array ep' = pull_handle_slots_array ep" and "pe_exp_queue ep' = pe_exp_queue ep"
    and "pe_handles ep' = (pe_handles ep)(h := x)" and "\<And>ph. x = Some ph \<Longrightarrow> ph_status ph \<noteq> PULL_STATUS_OK"
  shows "ended h code ep'"
  using assms unfolding ended_def slots_of_def by auto

lemma release_shared:
  "pe_handles ep = [h \<mapsto> ph] \<Longrightarrow> refcount ph \<noteq> 1 \<Longrightarrow>
     omx_pull_handle_release h ep = Some (set_handle h (ph\<lparr>refcount := refcount ph - 1\<rparr>) ep)"
  by (simp add: omx_pull_handle_release_def)

lemma release_ended:
  assumes "ended h code ep" and "omx_pull_handle_release x ep = Some ep'"
  shows "ended h code ep'"
proof -
  obtain ph where ph: "pe_handles ep x = Some ph"
    using assms(2) by (cases "pe_handles ep x") (auto simp: omx_pull_handle_release_def)
  then have x: "x = h" "ph_status ph \<noteq> PULL_STATUS_OK" using assms(1) by (auto simp: ended_def)
  show ?thesis
  proof (cases "refcount ph = 1")
    case True
    then have "ep' = ep\<lparr>pe_handles := (pe_handles ep)(h := None)\<rparr>"
      using assms(2) ph x(1) by (auto simp: omx_pull_handle_release_def bind_eq_Some_conv)
    then show ?thesis by (intro ended_cong [OF assms(1), where x = None]) simp_all
  next
    case False
    then have "ep' = set_handle h (ph\<lparr>refcount := refcount ph - 1\<rparr>) ep"
      using assms(2) ph x(1) by (auto simp: omx_pull_handle_release_def)
    then show ?thesis using x(2) by (intro ended_cong [OF assms(1), where x = "Some (ph\<lparr>refcount := refcount ph - 1\<rparr>)"]) auto
  qed
qed

text \<open>However a pull ends, it leaves the slot, and one event tells its status.\<close>

lemma mark_notify_ended:
  assumes ep: "pe_handles ep = [h \<mapsto> ph]" "slots_of ep (Some h)" "pe_exp_queue ep = exp_queue_init"
      "OMX_PULL_HANDLE_SLOT_INDEX_FROM_ID (slot_id ph) = 0"
    and mark: "omx_pull_handle_mark_completed h st ep = Some ep1"
    and exit: "ep2 = ep1 \<or> timer_exit h ep1 = Some ep2"
    and notify: "omx_pull_handle_notify h ep2 = Some ep3"
  shows "ended h (pull_status_code st) ep3"
proof -
  let ?ph = "ph\<lparr>ph_status := PULL_STATUS_TIMER_MUST_EXIT, done_event := (done_event ph)\<lparr>pd_status := pull_status_code st\<rparr>\<rparr>"
  have ep1: "ep1 = omx_pull_handle_free_slot (slot_id ph) (set_handle h ?ph ep)"
    using mark ep(1) by (auto simp: omx_pull_handle_mark_completed_def bind_eq_Some_conv)
  then have "slots_of ep1 None" "pe_handles ep1 = [h \<mapsto> ?ph]" "pe_exp_queue ep1 = exp_queue_init"
    using ep slots_of_free [of "set_handle h ?ph ep" h "slot_id ph"] by simp_all
  then obtain ph2 where ep2: "slots_of ep2 None" "pe_handles ep2 = [h \<mapsto> ph2]" "pe_exp_queue ep2 = exp_queue_init"
      "ph_status ph2 \<noteq> PULL_STATUS_OK" "pd_status (done_event ph2) = pull_status_code st"
    using exit by (auto simp: timer_exit_def set_handle_def slots_of_def)
  then have "ended h (pull_status_code st)
      (ep2\<lparr>pe_exp_queue := snd (omx_notify_exp_event (EVT_PULL_DONE (done_event ph2)) (pe_exp_queue ep2))\<rparr>)"
    by (auto simp: ended_def slots_of_def)
  then show ?thesis
    using notify ep2(2) by (auto simp: omx_pull_handle_notify_def elim: release_ended)
qed

lemma timer_exit_ended:
  assumes "ended h code ep" and "timer_exit x ep = Some ep'"
  shows "ended h code ep'"
proof -
  obtain ph where ph: "pe_handles ep x = Some ph"
    using assms(2) by (cases "pe_handles ep x") (auto simp: timer_exit_def)
  then have x: "x = h" using assms(1) by (auto simp: ended_def)
  have "ep' = set_handle h (ph\<lparr>ph_status := PULL_STATUS_TIMER_EXITED\<rparr>)
      (ep\<lparr>pull_handles_list := removeAll h (pull_handles_list ep)\<rparr>)"
    using assms(2) ph x by (auto simp: timer_exit_def)
  then show ?thesis
    by (intro ended_cong [OF assms(1), where x = "Some (ph\<lparr>ph_status := PULL_STATUS_TIMER_EXITED\<rparr>)"])
      (auto simp: set_handle_def)
qed

lemma find_slot_ended: "ended h code ep \<Longrightarrow> find_slot ident ep = None"
  using find_slot_of [of ep None ident] by (cases "find_slot ident ep") (auto simp: ended_def)

lemma acquire_ended:
  "ended h code ep \<Longrightarrow> omx_pull_handle_acquire_from_slot ident ep = Some None"
  by (simp add: omx_pull_handle_acquire_from_slot_def find_slot_ended)

lemma handle_ended:
  assumes "ended h code ep" and "pe_handles ep x = Some ph"
  shows "x = h" and "ph_status ph \<noteq> PULL_STATUS_OK"
  using assms by (auto simp: ended_def)

lemma mark_ended: "ended h code ep \<Longrightarrow> omx_pull_handle_mark_completed x st ep = None"
  using handle_ended [of h code ep x] by (cases "pe_handles ep x") (auto simp: omx_pull_handle_mark_completed_def)

lemma finish_ended:
  assumes "ended h code ep" and "reply_finish x ep = Some ep'"
  shows "ended h code ep'"
proof -
  obtain ph where ph: "pe_handles ep x = Some ph"
    using assms(2) by (cases "pe_handles ep x") (auto simp: reply_finish_def)
  note e = handle_ended [OF assms(1) ph]
  let ?ph = "ph\<lparr>host_copy_nr_frames := host_copy_nr_frames ph - 1\<rparr>"
  have "omx_pull_handle_release h (set_handle h ?ph ep) = Some ep'"
    using assms(2) ph e by (auto simp: reply_finish_def copy_done_def Let_def)
  moreover have "ended h code (set_handle h ?ph ep)"
    using e by (intro ended_cong [OF assms(1), where x = "Some ?ph"]) auto
  ultimately show ?thesis by (rule release_ended [rotated])
qed

lemma timeout_ended:
  assumes "ended h code ep" and "omx_pull_handle_timeout_handler now skb_ok x ep = Some (ep', requests)"
  shows "ended h code ep'" and "requests = []"
proof -
  obtain ph where ph: "pe_handles ep x = Some ph"
    using assms(2) by (cases "pe_handles ep x") (auto simp: omx_pull_handle_timeout_handler_def)
  note e = handle_ended [OF assms(1) ph]
  obtain ep1 where "timer_exit x ep = Some ep1" "omx_pull_handle_release x ep1 = Some ep'" "requests = []"
    using assms(2) ph e(2) by (auto simp: omx_pull_handle_timeout_handler_def bind_eq_Some_conv)
  then show "ended h code ep'" "requests = []"
    using timer_exit_ended [OF assms(1)] release_ended by blast+
qed

lemma completed_step:
  assumes "completed N off S rgn h s" and "pull_step conf acquire ms s t"
  shows "completed N off S rgn h t"
proof -
  obtain code where e: "ended h code (pn_ep s)"
    and ok: "code = 0 \<longrightarrow> pn_copying s = [] \<and> (\<forall>k < nframes N. written N off S (region_flat rgn) (pn_mem s) k)"
    using assms(1) by (auto simp: completed_def)
  have "\<exists>code. ended h code (pn_ep t)
    \<and> (code = 0 \<longrightarrow> pn_copying t = [] \<and> (\<forall>k < nframes N. written N off S (region_flat rgn) (pn_mem t) k))"
    using assms(2)
  proof cases
    case (answer req skb_ok e pkts)
    with e ok show ?thesis by auto
  next
    case (dropped r skb_ok e' ep)
    then have "ep = pn_ep s" using acquire_ended [OF e] by (simp add: reply_begin_def)
    with dropped e ok show ?thesis by auto
  next
    case (accepted r skb_ok h' ep requests)
    then show ?thesis using acquire_ended [OF e] by (simp add: reply_begin_def)
  next
    case (copied h' r ph m)
    then have "code \<noteq> 0" using ok by auto
    with copied e show ?thesis by auto
  next
    case (refused h' r ph e' m ep)
    then show ?thesis using mark_ended [OF e] by (simp add: reply_aborted_def)
  next
    case (finished h' ep)
    with finish_ended [OF e finished(3)] ok show ?thesis by auto
  next
    case (timer h' now skb_ok ep requests)
    with timeout_ended(1) [OF e timer(3)] ok show ?thesis by auto
  next
    case (nacked peer_ok n e' ep)
    then have "ep = pn_ep s"
      using acquire_ended [OF e] by (auto simp: omx_recv_nack_mcp_def split: if_splits)
    with nacked e ok show ?thesis by auto
  qed
  then show ?thesis by (simp add: completed_def)
qed

subsection \<open>Steps of a running pull\<close>

lemma run_okD:
  assumes "run_ok N off S rgn hdr h s ph"
  shows "pe_handles (pn_ep s) = [h \<mapsto> ph]" "slots_of (pn_ep s) (Some h)" "pe_exp_queue (pn_ep s) = exp_queue_init"
    and "ph_status ph = PULL_STATUS_OK" "handle_ok N off ph" "ph_region ph = rgn" "pkt_hdr ph = hdr"
    and "OMX_PULL_HANDLE_SLOT_INDEX_FROM_ID (slot_id ph) = 0"
    and "host_copy_nr_frames ph = length (pn_copying s) + length (pn_copied s)"
    and "refcount ph = 1 + length (pn_copying s) + length (pn_copied s)"
    and "req \<in> pn_requests s \<Longrightarrow> request_ok N off hdr req"
    and "r \<in> pn_replies s \<Longrightarrow> \<exists>k. frame_of N off S k r"
    and "(x, r) \<in> set (pn_copying s) \<Longrightarrow> x = h" "(x, r) \<in> set (pn_copying s) \<Longrightarrow> \<exists>k. frame_of N off S k r"
    and "k < next_frame_index ph \<Longrightarrow> k \<in> missing ph \<or> (\<exists>r. (h, r) \<in> set (pn_copying s) \<and> frame_of N off S k r)
          \<or> written N off S (region_flat rgn) (pn_mem s) k"
  using assms unfolding run_ok_def by auto

lemma fill_writes:
  assumes rgn: "user_region_ok rgn" "distinct (region_flat rgn)" and r: "frame_of N off S k r"
    and fill: "omx_user_region_fill_pages rgn (pr_msg_offset r) (take (pr_frame_length r) (pr_data r)) m = Some (None, m')"
  shows "written N off S (region_flat rgn) m' k"
    and "written N off S (region_flat rgn) m k' \<Longrightarrow> written N off S (region_flat rgn) m' k'"
proof -
  define n where "n = frame_size N off k"
  define st where "st = frame_start off k"
  let ?fl = "region_flat rgn"
  have nS: "st + n \<le> length S" and r': "pr_frame_length r = n" "pr_msg_offset r = st" "pr_data r = take n (drop st S)"
    using r by (simp_all add: frame_of_def n_def st_def)
  let ?bs = "take n (drop st S)"
  have len: "length ?bs = n" using nS by simp
  have fill': "omx_user_region_fill_pages rgn st ?bs m = Some (None, m')" using fill by (simp add: r')
  then have le: "st + length ?bs \<le> rgn_total_length rgn"
    by (auto simp: omx_user_region_fill_pages_def split: if_splits)
  have m': "m' = put_bytes (take n (drop st ?fl)) ?bs m"
    using fill_pages_flat [OF rgn(1) le, of m] fill' len by simp
  have fl: "st + n \<le> length ?fl" using le len length_region_flat [OF rgn(1)] by simp
  have inside: "m' (?fl ! p) = S ! p" if "st \<le> p" "p < st + n" for p
  proof -
    have "put_bytes (take n (drop st ?fl)) ?bs m (take n (drop st ?fl) ! (p - st)) = ?bs ! (p - st)"
      using that fl nS rgn(2) by (intro put_bytes_nth) simp_all
    then show ?thesis using that fl nS by (simp add: m')
  qed
  have outside: "m' (?fl ! p) = m (?fl ! p)" if "p < length ?fl" "\<not> (st \<le> p \<and> p < st + n)" for p
  proof -
    have "?fl ! p \<notin> set (take n (drop st ?fl))"
      using that fl rgn(2) by (auto simp: in_set_conv_nth nth_eq_iff_index_eq)
    then show ?thesis by (simp add: m' put_bytes_notin)
  qed
  show "written N off S ?fl m' k"
    using inside fl nS by (simp add: written_def n_def st_def)
  show "written N off S ?fl m' k'" if w: "written N off S ?fl m k'"
  proof -
    have "m' (?fl ! p) = S ! p" if p: "frame_start off k' \<le> p" "p < frame_start off k' + frame_size N off k'" for p
    proof (cases "st \<le> p \<and> p < st + n")
      case True
      then show ?thesis using inside by simp
    next
      case False
      have "p < length ?fl" using w p by (simp add: written_def)
      with outside False w p show ?thesis by (simp add: written_def)
    qed
    then show ?thesis using w by (simp add: written_def)
  qed
qed

lemma handle_ok_update [simp]:
  "handle_ok N off (ph\<lparr>refcount := x\<rparr>) = handle_ok N off ph"
  "handle_ok N off (ph\<lparr>host_copy_nr_frames := y\<rparr>) = handle_ok N off ph"
  by (simp_all add: handle_ok_def pipelined_def)

lemma begin_cases:
  assumes "run_ok N off S rgn hdr h s ph" and "reply_begin skb_ok r (pn_ep s) = Some res"
  obtains (notfound) "res = Inl (Some EINVAL, pn_ep s)"
    | (unwanted) "res = Inl (None, pn_ep s)"
    | (wanted) ph' requests where "reply_locked skb_ok r (ph\<lparr>refcount := refcount ph + 1\<rparr>) = Some (ph', requests)"
        "res = Inr (h, set_handle h ph' (pn_ep s), requests)"
proof (cases "find_slot (pr_dst_pull_handle r) (pn_ep s)")
  case None
  then show thesis using assms(2) notfound by (simp add: reply_begin_def omx_pull_handle_acquire_from_slot_def)
next
  case (Some h')
  then have h': "h' = h" using find_slot_of [OF run_okD(2) [OF assms(1)]] by simp
  note ph = run_okD(1) [OF assms(1)]
  let ?ph = "ph\<lparr>refcount := refcount ph + 1\<rparr>"
  let ?ep = "set_handle h ?ph (pn_ep s)"
  have acq: "omx_pull_handle_acquire_from_slot (pr_dst_pull_handle r) (pn_ep s) = Some (Some (h, ?ep))"
    using Some h' ph by (simp add: omx_pull_handle_acquire_from_slot_def omx_pull_handle_acquire_def)
  have twice: "set_handle h x (set_handle h y ep) = set_handle h x ep" for x y ep
    by (simp add: set_handle_def)
  have same: "set_handle h ph (pn_ep s) = pn_ep s" using ph by (simp add: set_handle_def)
  show thesis
  proof (cases "reply_locked skb_ok r ?ph")
    case None
    have "omx_pull_handle_release h ?ep = Some (pn_ep s)"
    proof -
      have "refcount ?ph \<noteq> 1" using run_okD(10) [OF assms(1)] by simp
      moreover have "pe_handles ?ep = [h \<mapsto> ?ph]" using ph by simp
      ultimately have "omx_pull_handle_release h ?ep = Some (set_handle h (?ph\<lparr>refcount := refcount ?ph - 1\<rparr>) ?ep)"
        by (intro release_shared)
      moreover have "?ph\<lparr>refcount := refcount ?ph - 1\<rparr> = ph" by (cases ph) simp
      ultimately show ?thesis by (simp only: twice same)
    qed
    with None show thesis using assms(2) acq unwanted by (simp add: reply_begin_def)
  next
    case (Some res')
    then show thesis using assms(2) acq wanted by (cases res') (auto simp: reply_begin_def twice)
  qed
qed

lemma fixed_partD:
  assumes "fixed_part a = fixed_part b"
  shows "refcount a = refcount b" "slot_id a = slot_id b" "ph_region a = ph_region b" "ph_status a = ph_status b"
    "host_copy_nr_frames a = host_copy_nr_frames b" "done_event a = done_event b" "pkt_hdr a = pkt_hdr b"
    "last_retransmit_jiffies a = last_retransmit_jiffies b"
  using assms by (simp_all add: fixed_part_def)

lemma running_accepted:
  assumes off: "off < RL" "off < N" and N: "N + RL \<le> 2 ^ 32" and run: "run_ok N off S rgn hdr h s ph"
    and r: "r \<in> pn_replies s" and l: "reply_locked skb_ok r (ph\<lparr>refcount := refcount ph + 1\<rparr>) = Some (ph', requests)"
  shows "run_ok N off S rgn hdr h (s\<lparr>pn_ep := set_handle h ph' (pn_ep s),
    pn_requests := pn_requests s \<union> set requests, pn_copying := (h, r) # pn_copying s\<rparr>) ph'"
proof -
  let ?ph = "ph\<lparr>refcount := refcount ph + 1\<rparr>"
  note D = run_okD [OF run]
  obtain k where k: "frame_of N off S k r" using D(12) [OF r] by blast
  have "handle_ok N off ?ph" using D(5) by simp
  note a = reply_locked_ok [OF off N this k l]
  note f = fixed_partD [OF a(5)]
  have missing': "missing ph' = missing ph - {k} \<union> {next_frame_index ph..<next_frame_index ph'}"
    using a(3) by simp
  have "k' \<in> missing ph' \<or> (\<exists>r'. (h, r') \<in> set ((h, r) # pn_copying s) \<and> frame_of N off S k' r')
      \<or> written N off S (region_flat rgn) (pn_mem s) k'" if "k' < next_frame_index ph'" for k'
  proof (cases "k' < next_frame_index ph")
    case True
    from D(15) [OF True] k show ?thesis by (cases "k' = k") (auto simp: missing')
  next
    case False
    with that show ?thesis by (simp add: missing')
  qed
  moreover have "request_ok N off hdr req" if "req \<in> set requests" for req
    using a(6) [OF that] D(7) by simp
  ultimately show ?thesis
    unfolding run_ok_def using D a(2) k f by (auto simp: slots_of_def)
qed

lemma running_copied:
  assumes rgn: "user_region_ok rgn" "distinct (region_flat rgn)" and run: "run_ok N off S rgn hdr h s ph"
    and x: "(x, r) \<in> set (pn_copying s)"
    and fill: "omx_user_region_fill_pages rgn (pr_msg_offset r) (take (pr_frame_length r) (pr_data r)) (pn_mem s) = Some (None, m)"
  shows "run_ok N off S rgn hdr h
    (s\<lparr>pn_mem := m, pn_copying := remove1 (x, r) (pn_copying s), pn_copied := x # pn_copied s\<rparr>) ph"
proof -
  note D = run_okD [OF run]
  note w = fill_writes [OF rgn _ fill]
  obtain k0 where k0: "frame_of N off S k0 r" using D(14) [OF x] by blast
  have "k \<in> missing ph \<or> (\<exists>r'. (h, r') \<in> set (remove1 (x, r) (pn_copying s)) \<and> frame_of N off S k r')
      \<or> written N off S (region_flat rgn) m k" if k: "k < next_frame_index ph" for k
  proof -
    consider "k \<in> missing ph" | r' where "(h, r') \<in> set (pn_copying s)" "frame_of N off S k r'" "r' \<noteq> r"
      | "frame_of N off S k r" | "written N off S (region_flat rgn) (pn_mem s) k"
      using D(15) [OF k] by blast
    then show ?thesis
    proof cases
      case 2
      then have "(h, r') \<in> set (remove1 (x, r) (pn_copying s))" by (simp add: in_set_remove1)
      with 2 show ?thesis by blast
    next
      case 3
      then show ?thesis using w(1) by blast
    next
      case 4
      then show ?thesis using w(2) [OF k0] by blast
    qed blast
  qed
  moreover obtain n where n: "length (pn_copying s) = Suc n" "length (remove1 (x, r) (pn_copying s)) = n"
    using x by (cases "length (pn_copying s)") (auto simp: length_remove1)
  moreover have sub: "q \<in> set (pn_copying s)" if "q \<in> set (remove1 (x, r) (pn_copying s))" for q
    using that set_remove1_subset by fast
  moreover have "x' = h \<and> (\<exists>k. frame_of N off S k r')" if "(x', r') \<in> set (remove1 (x, r) (pn_copying s))" for x' r'
    using D(13,14) [OF sub [OF that]] by blast
  ultimately show ?thesis
    unfolding run_ok_def using D(1-12) by simp blast
qed

lemma running_ended:
  assumes run: "run_ok N off S rgn hdr h s ph" and ph': "fixed_part ph' = (x, slot_id ph, y)"
    and mark: "omx_pull_handle_mark_completed h st (set_handle h ph' (pn_ep s)) = Some ep1"
    and exit: "ep2 = ep1 \<or> timer_exit h ep1 = Some ep2" and notify: "omx_pull_handle_notify h ep2 = Some ep3"
  shows "ended h (pull_status_code st) ep3"
proof (rule mark_notify_ended [OF _ _ _ _ mark exit notify])
  note D = run_okD [OF run]
  show "pe_handles (set_handle h ph' (pn_ep s)) = [h \<mapsto> ph']" "slots_of (set_handle h ph' (pn_ep s)) (Some h)"
    "pe_exp_queue (set_handle h ph' (pn_ep s)) = exp_queue_init"
    using D by simp_all
  show "OMX_PULL_HANDLE_SLOT_INDEX_FROM_ID (slot_id ph') = 0"
    using D(8) ph' by (simp add: fixed_part_def)
qed

lemma set_handle_same: "pe_handles ep h = Some ph \<Longrightarrow> set_handle h ph ep = ep"
  by (cases ep) (auto simp: set_handle_def fun_upd_idem)

lemma running_finished:
  assumes off: "off < N" and run: "run_ok N off S rgn hdr h s ph" and x: "x \<in> set (pn_copied s)"
    and f: "reply_finish x (pn_ep s) = Some ep"
  defines "t \<equiv> s\<lparr>pn_ep := ep, pn_copied := remove1 x (pn_copied s)\<rparr>"
  shows "running N off S rgn hdr h t \<or> completed N off S rgn h t"
proof -
  note D = run_okD [OF run]
  have xh: "x = h" using f D(1) by (auto simp: reply_finish_def split: if_splits)
  let ?ph = "ph\<lparr>host_copy_nr_frames := host_copy_nr_frames ph - 1\<rparr>"
  let ?ep = "set_handle h ?ph (pn_ep s)"
  let ?done = "remaining_length ph = 0 \<and> nr_missing_frames ph = 0 \<and> host_copy_nr_frames ph - 1 = 0"
  obtain n where len: "length (pn_copied s) = Suc n" "length (remove1 x (pn_copied s)) = n"
    using x by (cases "length (pn_copied s)") (auto simp: length_remove1)
  show ?thesis
  proof (cases ?done)
    case True
    then obtain ep1 where ep1: "omx_pull_handle_mark_completed h PULL_DONE_SUCCESS ?ep = Some ep1" "omx_pull_handle_notify h ep1 = Some ep"
      using f xh D(1,4) by (auto simp: reply_finish_def copy_done_def Let_def bind_eq_Some_conv)
    have "ended h (pull_status_code PULL_DONE_SUCCESS) ep"
      by (rule running_ended [OF run _ ep1(1) _ ep1(2)]) (simp_all add: fixed_part_def)
    moreover have "pn_copying s = []" using True D(9) len by simp
    moreover obtain b where b: "window N off b ph" using D(5) by (auto simp: handle_ok_def)
    have "0 < next_frame_index ph" using D(5) by (simp add: handle_ok_def)
    with window_complete [OF b off] True have "next_frame_index ph = nframes N" by simp
    moreover have "missing ph = {}" using windowD(8) [OF b] True by simp
    ultimately have "completed N off S rgn h t"
      using D(15) by (auto simp: completed_def t_def intro!: exI [of _ 0])
    then show ?thesis ..
  next
    case False
    let ?ph' = "?ph\<lparr>refcount := refcount ?ph - 1\<rparr>"
    have "omx_pull_handle_release h ?ep = Some ep"
      using f xh D(1,4) False by (auto simp: reply_finish_def copy_done_def Let_def)
    moreover have "omx_pull_handle_release h ?ep = Some (set_handle h ?ph' ?ep)"
      using D(1,10) len by (intro release_shared) simp_all
    ultimately have ep: "ep = set_handle h ?ph' ?ep" by simp
    have "run_ok N off S rgn hdr h t ?ph'"
      unfolding run_ok_def t_def ep using D len by (auto simp: slots_of_def)
    then show ?thesis by (auto simp: running_def)
  qed
qed

lemma running_timer:
  assumes run: "run_ok N off S rgn hdr h s ph"
    and f: "omx_pull_handle_timeout_handler now skb_ok x (pn_ep s) = Some (ep, requests)"
  defines "t \<equiv> s\<lparr>pn_ep := ep, pn_requests := pn_requests s \<union> set requests\<rparr>"
  shows "running N off S rgn hdr h t \<or> completed N off S rgn h t"
proof -
  note D = run_okD [OF run]
  have xh: "x = h" using f D(1) by (auto simp: omx_pull_handle_timeout_handler_def split: if_splits)
  note same = set_handle_same [of "pn_ep s" h ph]
  show ?thesis
  proof (cases "time_after64 now (last_retransmit_jiffies ph)")
    case True
    then obtain ep1 ep2 where e: "omx_pull_handle_mark_completed h PULL_DONE_TIMEOUT (pn_ep s) = Some ep1"
        "timer_exit h ep1 = Some ep2" "omx_pull_handle_notify h ep2 = Some ep"
      using f xh D(1,4) by (auto simp: omx_pull_handle_timeout_handler_def bind_eq_Some_conv)
    have mark: "omx_pull_handle_mark_completed h PULL_DONE_TIMEOUT (set_handle h ph (pn_ep s)) = Some ep1"
      using e(1) D(1) same by simp
    have "ended h (pull_status_code PULL_DONE_TIMEOUT) ep"
      by (rule running_ended [OF run _ mark _ e(3)]) (use e(2) in \<open>simp_all add: fixed_part_def\<close>)
    then have "completed N off S rgn h t" by (auto simp: completed_def t_def intro!: exI [of _ 6])
    then show ?thesis ..
  next
    case False
    then obtain ph1 where p: "missing_in ph 0" "omx_progress_pull_on_handle_timeout_handle_locked skb_ok ph = (ph1, requests)"
        "ep = set_handle h ph1 (pn_ep s)"
      using f xh D(1,4) by (auto simp: omx_pull_handle_timeout_handler_def bind_eq_Some_conv split: prod.splits)
    note a = timeout_ok [OF D(5) p(1,2)]
    note fp = fixed_partD [OF a(4)]
    have "run_ok N off S rgn hdr h t ph1"
      unfolding run_ok_def t_def p(3) using D a fp by (auto simp: slots_of_def)
    then show ?thesis by (auto simp: running_def)
  qed
qed

lemma running_nacked:
  assumes run: "run_ok N off S rgn hdr h s ph" and type: "nk_type n \<noteq> 0" and f: "omx_recv_nack_mcp peer_ok n (pn_ep s) = Some (e, ep)"
  defines "t \<equiv> s\<lparr>pn_ep := ep\<rparr>"
  shows "running N off S rgn hdr h t \<or> completed N off S rgn h t"
proof (cases "ep = pn_ep s")
  case True
  then have "t = s" by (simp add: t_def)
  with run show ?thesis by (auto simp: running_def)
next
  case False
  note D = run_okD [OF run]
  let ?ph = "ph\<lparr>refcount := refcount ph + 1\<rparr>"
  obtain h' ep1 where found: "find_slot (nk_src_pull_handle n) (pn_ep s) = Some h'"
    using f False by (cases "find_slot (nk_src_pull_handle n) (pn_ep s)")
      (auto simp: omx_recv_nack_mcp_def omx_pull_handle_acquire_from_slot_def split: if_splits)
  then have h': "h' = h" using find_slot_of [OF D(2)] by simp
  have acq: "omx_pull_handle_acquire_from_slot (nk_src_pull_handle n) (pn_ep s) = Some (Some (h, set_handle h ?ph (pn_ep s)))"
    using found h' D(1) by (simp add: omx_pull_handle_acquire_from_slot_def omx_pull_handle_acquire_def)
  obtain ep2 where m: "omx_pull_handle_mark_completed h (PULL_DONE_NACK (nk_type n)) (set_handle h ?ph (pn_ep s)) = Some ep2"
      "omx_pull_handle_notify h ep2 = Some ep"
    using f False D(4) by (auto simp: omx_recv_nack_mcp_def acq bind_eq_Some_conv split: if_splits)
  have "ended h (pull_status_code (PULL_DONE_NACK (nk_type n))) ep"
    by (rule running_ended [OF run _ m(1) _ m(2)]) (simp_all add: fixed_part_def)
  moreover have "pull_status_code (PULL_DONE_NACK (nk_type n)) \<noteq> 0" using type by (simp add: unat_eq_0)
  ultimately have "completed N off S rgn h t" by (auto simp: completed_def t_def)
  then show ?thesis ..
qed

lemma running_refused:
  assumes run: "run_ok N off S rgn hdr h s ph" and f: "reply_aborted x (pn_ep s) = Some ep"
  shows "completed N off S rgn h (s\<lparr>pn_ep := ep, pn_copying := c\<rparr>)"
proof -
  note D = run_okD [OF run]
  obtain ep1 where m: "omx_pull_handle_mark_completed x PULL_DONE_ABORTED (pn_ep s) = Some ep1" "omx_pull_handle_notify x ep1 = Some ep"
    using f by (auto simp: reply_aborted_def bind_eq_Some_conv)
  then have xh: "x = h" using D(1) by (auto simp: omx_pull_handle_mark_completed_def split: if_splits)
  have mark: "omx_pull_handle_mark_completed h PULL_DONE_ABORTED (set_handle h ph (pn_ep s)) = Some ep1"
    using m(1) xh D(1) set_handle_same [of "pn_ep s" h ph] by simp
  have "ended h (pull_status_code PULL_DONE_ABORTED) ep"
    by (rule running_ended [OF run _ mark _ m(2) [unfolded xh]]) (simp_all add: fixed_part_def)
  then show ?thesis by (auto simp: completed_def intro!: exI [of _ 5])
qed

end
