(* ===== verification/Pull_Delivery.thy ===== *)
theory Pull_Delivery
  imports Pull_Run
begin

text \<open>
  The pull protocol from the ioctl on: in every run, a completion that reports success means that
  the receiver's memory holds the sender's bytes.
\<close>

subsection \<open>Steps\<close>

lemma running_step:
  assumes off: "off < RL" "off < N" and N: "pq_pulled_rdma_offset hdr - off + N + RL \<le> 2 ^ 32"
    and R: "pq_pulled_rdma_offset hdr mod RL = off" and rgn: "user_region_ok rgn" "distinct (region_flat rgn)"
    and src: "acquire (pq_dst_endpoint hdr) = Inr sep"
      "omx_user_region_acquire (pe_regions sep) (pq_pulled_rdma_id hdr) = Some src" "user_region_ok src"
    and S: "S = map ms (drop (pq_pulled_rdma_offset hdr) (region_flat src))"
    and run: "running N off S rgn hdr h s" and step: "pull_step conf acquire ms s t"
  shows "running N off S rgn hdr h t \<or> completed N off S rgn h t"
proof -
  obtain ph where run: "run_ok N off S rgn hdr h s ph" using run by (auto simp: running_def)
  note D = run_okD [OF run]
  have N': "N + RL \<le> 2 ^ 32" using N by linarith
  show ?thesis
    using step
  proof cases
    case (answer req skb_ok e pkts)
    have "\<exists>k. frame_of N off S k r" if "Reply r \<in> set pkts" for r
      using request_replies [OF off N R refl D(11) [OF answer(2)] src answer(3) that] unfolding S by blast
    with run have "run_ok N off S rgn hdr h t ph" unfolding answer(1) run_ok_def by auto
    then show ?thesis by (auto simp: running_def)
  next
    case (dropped r skb_ok e ep)
    from run dropped(3) have "ep = pn_ep s" by (rule begin_cases) simp_all
    then have "t = s" using dropped(1) by simp
    with run show ?thesis by (auto simp: running_def)
  next
    case (accepted r skb_ok h' ep requests)
    from run accepted(5) show ?thesis
    proof (rule begin_cases)
      fix ph' requests'
      assume l: "reply_locked skb_ok r (ph\<lparr>refcount := refcount ph + 1\<rparr>) = Some (ph', requests')"
        and "Inr (h', ep, requests) = (Inr (h, set_handle h ph' (pn_ep s), requests') :: errno option \<times> pull_endpoint + _)"
      with running_accepted [OF off N' run accepted(2) l] accepted(1) show ?thesis by (auto simp: running_def)
    qed simp_all
  next
    case (copied h' r ph' m)
    then have "ph' = ph" using D(1) by (auto split: if_splits)
    with running_copied [OF rgn run copied(2)] copied(4) D(6) copied(1) show ?thesis by (auto simp: running_def)
  next
    case (refused h' r ph' e m ep)
    with running_refused [OF run refused(5)] show ?thesis by simp
  next
    case (finished h' ep)
    with running_finished [OF off(2) run finished(2,3)] show ?thesis by simp
  next
    case (timer h' now skb_ok ep requests)
    with running_timer [OF run timer(3)] show ?thesis by simp
  next
    case (nacked peer_ok n e ep)
    with running_nacked [OF run nacked(2,3)] show ?thesis by simp
  qed
qed

subsection \<open>The start\<close>

text \<open>An endpoint that was just opened.\<close>

definition fresh_endpoint :: "pull_endpoint \<Rightarrow> bool" where
  "fresh_endpoint ep \<longleftrightarrow> (\<exists>ep0. ep = omx_endpoint_pull_handles_init ep0)
     \<and> pe_handles ep = Map.empty \<and> pe_exp_queue ep = exp_queue_init"

definition started :: "pull_endpoint \<Rightarrow> physical \<Rightarrow> pull_request list \<Rightarrow> pull_net" where
  "started ep m requests = \<lparr>pn_ep = ep, pn_mem = m, pn_requests = set requests, pn_replies = {},
     pn_copying = [], pn_copied = []\<rparr>"

lemma first_slot_id: "OMX_PULL_HANDLE_SLOT_INDEX_FROM_ID (OMX_PULL_HANDLE_SLOT_ID_FIRST 0) = 0"
  by (simp add: OMX_PULL_HANDLE_SLOT_INDEX_FROM_ID_def OMX_PULL_HANDLE_SLOT_ID_FIRST_def
      OMX_PULL_HANDLE_SLOT_GENERATION_FIRST_def OMX_PULL_HANDLE_SLOT_GENERATION_MASK_def
      OMX_PULL_HANDLE_SLOT_GENERATION_BITS_def OMX_PULL_HANDLE_SLOT_INDEX_BITS_def)

lemma create_fresh:
  assumes "fresh_endpoint ep"
    and "omx_pull_handle_create (Some h) None junk now rgn cmd ep = (Inr h', ep1)"
  shows "h' = h"
    and "pe_handles ep1 = [h \<mapsto> new_handle junk now rgn cmd (OMX_PULL_HANDLE_SLOT_ID_FIRST 0)
           (omx_pull_handle_pkt_hdr_fill ep (OMX_PULL_HANDLE_SLOT_ID_FIRST 0) cmd)]"
    and "slots_of ep1 (Some h)" and "pe_exp_queue ep1 = exp_queue_init"
proof -
  obtain ep0 where ep: "ep = omx_endpoint_pull_handles_init ep0" "pe_handles ep = Map.empty" "pe_exp_queue ep = exp_queue_init"
    using assms(1) by (auto simp: fresh_endpoint_def)
  then have "pull_handle_slots_free_list ep = 0 # [1..<OMX_PULL_HANDLE_SLOT_INDEX_MAX]"
    "pull_handle_slots_array ep = (\<lambda>i. \<lparr>hs_handle = None, hs_id = OMX_PULL_HANDLE_SLOT_ID_FIRST i\<rparr>)"
    by (simp_all add: omx_endpoint_pull_handles_init_def omx_pull_handle_slots_init_def OMX_PULL_HANDLE_SLOT_INDEX_MAX_def
        upt_conv_Cons)
  with assms(2) ep(2,3) show "h' = h"
    and "pe_handles ep1 = [h \<mapsto> new_handle junk now rgn cmd (OMX_PULL_HANDLE_SLOT_ID_FIRST 0)
           (omx_pull_handle_pkt_hdr_fill ep (OMX_PULL_HANDLE_SLOT_ID_FIRST 0) cmd)]"
    and "slots_of ep1 (Some h)" and "pe_exp_queue ep1 = exp_queue_init"
    by (auto simp: omx_pull_handle_create_def omx_pull_handle_alloc_slot_def Let_def slots_of_def)
qed

lemma fixed_first_requests:
  "pull_first_requests skb_ok h = Some (h', requests) \<Longrightarrow> fixed_part h' = fixed_part h"
  by (auto simp: pull_first_requests_def Let_def bind_eq_Some_conv)

lemma stale_first_requests:
  "pull_first_requests skb_ok h = Some (h', requests) \<Longrightarrow> stale_ok N off h \<Longrightarrow> stale_ok N off h'"
  by (auto simp: pull_first_requests_def Let_def bind_eq_Some_conv intro: stale_append_blocks stale_append_needed_frames)

lemma started_ok:
  assumes ep: "fresh_endpoint ep" and junk: "frames_missing_bitmap (junk ! 3) = 0"
    and rgn: "omx_user_region_acquire (pe_regions ep) (pl_puller_rdma_id cmd) = Some rgn"
    and cmd: "\<not> pl_shared cmd" "0 < pl_length cmd"
    and ioctl: "omx_ioctl_pull shared_pull (Some h) None junk now skb_ok cmd ep = Some (e, ep1, requests)"
  defines "off \<equiv> pl_pulled_rdma_offset cmd mod RL"
  shows "e = None" and "\<exists>hdr. pq_dst_endpoint hdr = pl_dest_endpoint cmd \<and> pq_pulled_rdma_id hdr = pl_pulled_rdma_id cmd
    \<and> pq_pulled_rdma_offset hdr = pl_pulled_rdma_offset cmd
    \<and> running (off + pl_length cmd) off S rgn hdr h (started ep1 m requests)"
proof -
  let ?hdr = "omx_pull_handle_pkt_hdr_fill ep (OMX_PULL_HANDLE_SLOT_ID_FIRST 0) cmd"
  let ?ph = "new_handle junk now rgn cmd (OMX_PULL_HANDLE_SLOT_ID_FIRST 0) ?hdr"
  let ?N = "off + pl_length cmd"
  obtain r ep' where c: "omx_pull_handle_create (Some h) None junk now rgn cmd ep = (r, ep')"
    by (cases "omx_pull_handle_create (Some h) None junk now rgn cmd ep")
  obtain h' where r: "r = Inr h'"
  proof (cases r)
    case (Inl x)
    obtain ep0 where "ep = omx_endpoint_pull_handles_init ep0" using ep by (auto simp: fresh_endpoint_def)
    then have "pull_handle_slots_free_list ep \<noteq> []"
      by (simp add: omx_endpoint_pull_handles_init_def omx_pull_handle_slots_init_def OMX_PULL_HANDLE_SLOT_INDEX_MAX_def)
    with c Inl show thesis by (auto simp: omx_pull_handle_create_def omx_pull_handle_alloc_slot_def Let_def split: list.splits)
  qed
  note f = create_fresh [OF ep c [unfolded r]]
  obtain ph1 where p: "pull_first_requests skb_ok ?ph = Some (ph1, requests)" "e = None" "ep1 = set_handle h ph1 ep'"
    using ioctl cmd(1) rgn c r f by (auto simp: omx_ioctl_pull_def bind_eq_Some_conv split: prod.splits)
  show "e = None" by (rule p(2))
  have len: "length (block_desc ?ph) = 4" by (simp add: new_handle_def)
  have off_ph: "ph_pulled_rdma_offset ?ph mod RL = off" by (simp add: new_handle_def off_def)
  have "pl_length cmd \<noteq> 0" using cmd(2) by simp
  from first_requests [OF _ len _ _ _ _ _ this p(1)]
  obtain b where w: "window ?N off b ph1" "pipelined ph1" "missing ph1 = {0..<next_frame_index ph1}"
    unfolding off_ph by (auto simp: new_handle_def)
  have "\<not> missing_in ?ph i" if "i < 4" for i
    using that junk by (cases "i = 3") (simp_all add: missing_in_def new_handle_def)
  then have "stale_ok ?N off ?ph" unfolding stale_ok_def by blast
  note stale = stale_first_requests [OF p(1) this]
  have fp: "fixed_part ph1 = fixed_part ?ph" by (rule fixed_first_requests [OF p(1)])
  have hdr: "pkt_hdr ph1 = ?hdr" using fp by (simp add: fixed_part_def new_handle_def)
  have nfi: "0 < next_frame_index ph1"
  proof (rule ccontr)
    assume "\<not> 0 < next_frame_index ph1"
    moreover have "0 < nframes ?N" using cmd(2) by (simp add: lt_nframes)
    ultimately have "b + nr_valid_block_descs ph1 = 0" using windowD(4) [OF w(1)] by auto
    then have "remaining_length ph1 \<noteq> 0" "nr_valid_block_descs ph1 \<noteq> 4"
      using w(1) cmd(2) by (auto simp: window_def)
    with w(2) show False by (simp add: pipelined_def)
  qed
  have "request_ok ?N off ?hdr req" if "req \<in> set requests" for req
  proof -
    have "requests = request_blocks skb_ok ph1 [0..<nr_valid_block_descs ph1]"
      using p(1) by (auto simp: pull_first_requests_def Let_def bind_eq_Some_conv)
    with that show ?thesis
      unfolding hdr [symmetric] by (auto elim!: requests_of_descs [rotated] intro: desc_of_valid [OF w(1)])
  qed
  then have "run_ok ?N off S rgn ?hdr h (started ep1 m requests) ph1"
    using f p(3) w stale fp nfi first_slot_id
    by (simp add: run_ok_def started_def handle_ok_def fixed_part_def new_handle_def) blast
  then show "\<exists>hdr. pq_dst_endpoint hdr = pl_dest_endpoint cmd \<and> pq_pulled_rdma_id hdr = pl_pulled_rdma_id cmd
    \<and> pq_pulled_rdma_offset hdr = pl_pulled_rdma_offset cmd
    \<and> running ?N off S rgn hdr h (started ep1 m requests)"
    by (intro exI [of _ ?hdr]) (auto simp: running_def omx_pull_handle_pkt_hdr_fill_def)
qed

lemma created_acquire:
  assumes "omx_ioctl_user_region_create frame mem_ok pin_ok rid usegs table = (None, table')"
  shows "\<exists>region. omx_user_region_acquire table' rid = Some region"
proof -
  have "table' = table(rid \<mapsto> add_segments frame usegs \<lparr>rgn_segments = [], rgn_total_length = 0\<rparr>)"
    "\<not> OMX_USER_REGION_MAX_ID \<le> rid"
    using assms by (auto simp: omx_ioctl_user_region_create_def Let_def split: if_splits)
  then show ?thesis by (simp add: omx_user_region_acquire_def)
qed

text \<open>Every byte of the message is in a frame.\<close>

lemma byte_frame:
  assumes "off < RL" and "0 < T" and "p < T"
  shows "\<exists>k. k < nframes (off + T) \<and> frame_start off k \<le> p \<and> p < frame_start off k + frame_size (off + T) off k"
proof -
  let ?k = "(off + p) div RL"
  have le: "?k * RL \<le> off + p" by simp
  have lt: "off + p < (?k + 1) * RL" using reply_length_max(1) by (simp add: dividend_less_times_div mult.commute)
  have k: "?k < nframes (off + T)" unfolding lt_nframes using le assms(3) by linarith
  note f = frame_bounds [OF assms(1) _ k]
  have "frame_start off ?k \<le> p" using le unfolding frame_start_def by linarith
  moreover have "p < frame_start off ?k + frame_size (off + T) off ?k"
    using f(1,2) lt assms by (simp add: frame_size_def)
  ultimately show ?thesis using k by blast
qed

subsection \<open>The properties\<close>


text \<open>A message of one frame: three bytes from offset 1 of the sender's region.\<close>

definition sample_pull_cmd :: omx_cmd_pull where
  "sample_pull_cmd = \<lparr>pl_peer_index = 0, pl_dest_endpoint = 3, pl_shared = False, pl_session_id = 9, pl_length = 3,
     pl_resend_timeout_jiffies = 1000, pl_puller_rdma_id = 7, pl_pulled_rdma_offset = 1, pl_pulled_rdma_id = 7,
     pl_pulled_rdma_seqnum = 0, pl_lib_cookie = 5\<rparr>"

definition sample_pull_endpoint :: "u8 \<Rightarrow> pull_endpoint" where
  "sample_pull_endpoint i = omx_endpoint_pull_handles_init \<lparr>pe_index = i, pe_session_id = 9,
     pe_regions = [7 \<mapsto> sample_region], pull_handle_slots_array = (\<lambda>_. \<lparr>hs_handle = None, hs_id = 0\<rparr>),
     pull_handle_slots_free_list = [], pull_handles_list = [], pe_handles = Map.empty, pe_exp_queue = exp_queue_init\<rparr>"

definition sample_junk :: "omx_pull_block_desc list" where
  "sample_junk =
     (let d = \<lparr>bd_frame_index = 0, bd_block_length = 0, bd_first_frame_offset = 0, frames_missing_bitmap = 0\<rparr> in [d, d, d, d])"

definition sample_memory :: physical where "sample_memory = (\<lambda>(p, i). word_of_nat (p + 11))"

definition sample_acquire :: "u8 \<Rightarrow> errno + pull_endpoint" where
  "sample_acquire i = omx_endpoint_acquire_by_iface_index 8 (\<lambda>i. if i = 3 then Some (True, sample_pull_endpoint 3) else None) i"

definition sample_reply :: pull_reply where
  "sample_reply = \<lparr>pr_frame_seqnum = 0, pr_frame_length = 3, pr_msg_offset = 0, pr_dst_pull_handle = 0x23,
     pr_dst_magic = 0x21071982, pr_data = [11, 12, 13]\<rparr>"


definition sample_request :: pull_request where
  "sample_request = \<lparr>pq_dst_endpoint = 3, pq_src_endpoint = 2, pq_session = 9, pq_total_length = 3,
     pq_pulled_rdma_id = 7, pq_pulled_rdma_seqnum = 0, pq_pulled_rdma_offset = 1, pq_src_pull_handle = 0x23,
     pq_src_magic = 0x21071982, pq_first_frame_offset = 1, pq_block_length = 3, pq_frame_index = 0\<rparr>"

definition sample_handle :: omx_pull_handle where
  "sample_handle = \<lparr>refcount = 1, slot_id = 0x23, last_retransmit_jiffies = 1000, ph_region = sample_region,
     ph_total_length = 3, ph_pulled_rdma_offset = 1, ph_status = PULL_STATUS_OK, remaining_length = 0,
     frame_index = 0, next_frame_index = 1, nr_requested_frames = 1, nr_missing_frames = 1, nr_valid_block_descs = 1,
     already_rerequested_blocks = 0,
     block_desc = sample_junk[0 := \<lparr>bd_frame_index = 0, bd_block_length = 3, bd_first_frame_offset = 1, frames_missing_bitmap = 1\<rparr>],
     host_copy_nr_frames = 0, done_event = \<lparr>pd_lib_cookie = 5, pd_puller_rdma_id = 7, pd_status = 0\<rparr>,
     pkt_hdr = sample_request\<lparr>pq_first_frame_offset := 0, pq_block_length := 0\<rparr>\<rparr>"

definition sample_pulling :: "omx_pull_handle \<Rightarrow> pull_endpoint" where
  "sample_pulling ph = (sample_pull_endpoint 2)\<lparr>pull_handle_slots_free_list := [1..<1024],
     pull_handle_slots_array := (pull_handle_slots_array (sample_pull_endpoint 2))(0 := \<lparr>hs_handle = Some 0, hs_id = 0x23\<rparr>),
     pull_handles_list := [0], pe_handles := [0 \<mapsto> ph]\<rparr>"

lemmas slot_constants = OMX_PULL_HANDLE_SLOT_INDEX_FROM_ID_def OMX_PULL_HANDLE_SLOT_ID_FIRST_def
  OMX_PULL_HANDLE_SLOT_GENERATION_FIRST_def OMX_PULL_HANDLE_SLOT_GENERATION_MASK_def OMX_PULL_HANDLE_SLOT_INDEX_MAX_def
  OMX_PULL_HANDLE_SLOT_GENERATION_BITS_def OMX_PULL_HANDLE_SLOT_INDEX_BITS_def

lemma sample_endpoint_sel:
  "pull_handle_slots_free_list (sample_pull_endpoint i) = 0 # [1..<1024]"
  "pull_handle_slots_array (sample_pull_endpoint i) 0 = \<lparr>hs_handle = None, hs_id = 0x23\<rparr>"
  "pe_index (sample_pull_endpoint i) = i" "pe_session_id (sample_pull_endpoint i) = 9"
  "pe_regions (sample_pull_endpoint i) = [7 \<mapsto> sample_region]" "pull_handles_list (sample_pull_endpoint i) = []"
  "pe_handles (sample_pull_endpoint i) = Map.empty" "pe_exp_queue (sample_pull_endpoint i) = exp_queue_init"
  by (simp_all add: sample_pull_endpoint_def omx_endpoint_pull_handles_init_def omx_pull_handle_slots_init_def
      slot_constants upt_conv_Cons [of 0])

lemma append_blocks_stop: "remaining_length h = 0 \<Longrightarrow> append_blocks h = h"
  by (subst append_blocks.simps) simp

lemma drop_done_stop: "nr_valid_block_descs h = 0 \<Longrightarrow> drop_done n h = h"
  by (cases n) simp_all

lemma sample_new_handle:
  "pull_first_requests (\<lambda>_. True) (new_handle sample_junk 0 sample_region sample_pull_cmd 0x23
      (omx_pull_handle_pkt_hdr_fill (sample_pull_endpoint 2) 0x23 sample_pull_cmd)) = Some (sample_handle, [sample_request])"
  by (simp add: pull_first_requests_def new_handle_def sample_pull_cmd_def Let_def OMX_PULL_BLOCK_LENGTH_MAX_def
      OMX_PULL_REPLY_LENGTH_MAX_def omx_pull_handle_append_needed_frames_def append_blocks_stop sample_handle_def
      omx_pull_handle_pkt_hdr_fill_def sample_endpoint_sel OMX_ENDPOINT_PULL_MAGIC_XOR_def sample_request_def
      request_blocks_def omx_fill_pull_block_request_def sample_junk_def upt_conv_Cons)

lemma sample_ioctl:
  "omx_ioctl_pull (\<lambda>_ _. None) (Some 0) None sample_junk 0 (\<lambda>_. True) sample_pull_cmd (sample_pull_endpoint 2)
     = Some (None, sample_pulling sample_handle, [sample_request])"
proof -
  have "omx_pull_handle_create (Some 0) None sample_junk 0 sample_region sample_pull_cmd (sample_pull_endpoint 2)
    = (Inr 0, sample_pulling (new_handle sample_junk 0 sample_region sample_pull_cmd 0x23
        (omx_pull_handle_pkt_hdr_fill (sample_pull_endpoint 2) 0x23 sample_pull_cmd)))"
    by (simp add: omx_pull_handle_create_def omx_pull_handle_alloc_slot_def sample_endpoint_sel Let_def set_handle_def
        sample_pulling_def)
  then show ?thesis
    using sample_new_handle
    by (simp add: omx_ioctl_pull_def sample_endpoint_sel omx_user_region_acquire_def OMX_USER_REGION_MAX_ID_def)
      (simp add: sample_pull_cmd_def sample_pulling_def set_handle_def)
qed

lemma sample_cursor:
  "omx_user_region_offset_cache_init sample_region 1 3 = Some (Some
     \<lparr>oc_segs = rgn_segments sample_region, oc_segoff = 1, oc_page = 0, oc_pageoff = 4095\<rparr>)"
  by (simp add: omx_user_region_offset_cache_init_def sample_region_def PAGE_SIZE_def)

lemma sample_data:
  "\<exists>c'. reply_data \<lparr>omx_skb_frags = 2, omx_skb_copy_max = 0\<rparr> sample_region sample_memory 3
     \<lparr>oc_segs = rgn_segments sample_region, oc_segoff = 1, oc_page = 0, oc_pageoff = 4095\<rparr> = Some ([11, 12, 13], c')"
proof -
  obtain c where c: "omx_user_region_offset_cache_init sample_region 1 3 = Some (Some c)" "cursor_ok sample_region c"
      "cursor_addrs sample_region c = drop 1 (region_flat sample_region)"
    using cache_init_at [OF created(1) [OF sample_created], of 1 3] by (auto simp: sample_total)
  have "3 \<le> length (cursor_addrs sample_region c)"
    using length_region_flat [OF created(1) [OF sample_created]] by (simp add: c(3) sample_total)
  from copy_pages_to_buf_flat [OF c(2) this, of sample_memory] c sample_cursor show ?thesis
    by (auto simp: reply_data_def reply_hdr_len_def ETH_ZLEN_def created(2) [OF sample_created] sample_addrs
        phys_of_def PAGE_SIZE_def sample_memory_def)
qed

lemma sample_answer:
  "omx_recv_pull_request \<lparr>omx_skb_frags = 2, omx_skb_copy_max = 0\<rparr> (\<lambda>_. True) True sample_acquire sample_memory sample_request
     = Some (None, [Reply sample_reply])"
proof -
  obtain c where c: "reply_data \<lparr>omx_skb_frags = 2, omx_skb_copy_max = 0\<rparr> sample_region sample_memory 3
     \<lparr>oc_segs = rgn_segments sample_region, oc_segoff = Suc 0, oc_page = 0, oc_pageoff = 4095\<rparr> = Some ([11, 12, 13], c)"
    using sample_data by auto
  show ?thesis
    unfolding omx_recv_pull_request_def
    by (simp add: sample_request_def sample_acquire_def omx_endpoint_acquire_by_iface_index_def
        sample_endpoint_sel Let_def OMX_PULL_REPLY_LENGTH_MAX_def sample_created(2) sample_cursor [simplified] c sample_reply_def)
qed

definition sample_busy :: omx_pull_handle where
  "sample_busy = sample_handle\<lparr>refcount := 2, frame_index := 1, nr_requested_frames := 0, nr_missing_frames := 0,
     nr_valid_block_descs := 0, block_desc := block_desc (frame_received 0 sample_handle), host_copy_nr_frames := 1\<rparr>"

lemma sample_begin:
  "reply_begin (\<lambda>_. True) sample_reply (sample_pulling sample_handle) = Some (Inr (0, sample_pulling sample_busy, []))"
proof -
  have "find_slot 0x23 (sample_pulling sample_handle) = Some 0"
    by (simp add: find_slot_def slot_constants sample_pulling_def)
  moreover have "reply_locked (\<lambda>_. True) sample_reply (sample_handle\<lparr>refcount := Suc (refcount sample_handle)\<rparr>) = Some (sample_busy, [])"
    by (simp add: reply_locked_def sample_handle_def reply_frame_def sample_reply_def Let_def OMX_PULL_REPLY_LENGTH_MAX_def
        sample_junk_def frame_received_def omx_progress_pull_on_recv_pull_reply_locked_def missing_in_def
        omx_pull_handle_first_block_done_def move_descs_def append_blocks_stop drop_done_stop request_blocks_def sample_busy_def)
  moreover have "set_handle 0 x (sample_pulling y) = sample_pulling x" "pe_handles (sample_pulling y) 0 = Some y" for x y
    by (simp_all add: sample_pulling_def set_handle_def)
  moreover have "pr_dst_pull_handle sample_reply = 0x23" by (simp add: sample_reply_def)
  ultimately show ?thesis
    by (simp add: reply_begin_def omx_pull_handle_acquire_from_slot_def omx_pull_handle_acquire_def)
qed

lemma sample_finish:
  "\<exists>ep. reply_finish 0 (sample_pulling sample_busy) = Some ep \<and>
     pe_exp_queue ep = snd (omx_notify_exp_event (EVT_PULL_DONE (done_event sample_handle)) exp_queue_init)"
  by (simp add: reply_finish_def sample_pulling_def copy_done_def sample_busy_def sample_handle_def set_handle_def
      omx_pull_handle_mark_completed_def omx_pull_handle_notify_def omx_pull_handle_release_def Let_def sample_endpoint_sel
      omx_pull_handle_free_slot_def)

lemma sample_fill:
  "\<exists>m. omx_user_region_fill_pages sample_region 0 [11, 12, 13] (\<lambda>_. 0) = Some (None, m)"
  using fill_pages_flat [OF created(1) [OF sample_created], of 0 "[11, 12, 13]" "\<lambda>_. 0"] by (simp add: sample_total)

lemma sample_run:
  "\<exists>s. (pull_step \<lparr>omx_skb_frags = 2, omx_skb_copy_max = 0\<rparr> sample_acquire sample_memory)\<^sup>*\<^sup>*
       (started (sample_pulling sample_handle) (\<lambda>_. 0) [sample_request]) s
     \<and> pe_exp_queue (pn_ep s) = snd (omx_notify_exp_event (EVT_PULL_DONE (done_event sample_handle)) exp_queue_init)"
proof -
  let ?step = "pull_step \<lparr>omx_skb_frags = 2, omx_skb_copy_max = 0\<rparr> sample_acquire sample_memory"
  obtain m where m: "omx_user_region_fill_pages sample_region 0 [11, 12, 13] (\<lambda>_. 0) = Some (None, m)"
    using sample_fill by blast
  obtain ep where ep: "reply_finish 0 (sample_pulling sample_busy) = Some ep"
      "pe_exp_queue ep = snd (omx_notify_exp_event (EVT_PULL_DONE (done_event sample_handle)) exp_queue_init)"
    using sample_finish by blast
  let ?s0 = "started (sample_pulling sample_handle) (\<lambda>_. 0) [sample_request]"
  let ?s1 = "?s0\<lparr>pn_replies := pn_replies ?s0 \<union> {r. Reply r \<in> set [Reply sample_reply]}\<rparr>"
  let ?s2 = "?s1\<lparr>pn_ep := sample_pulling sample_busy, pn_requests := pn_requests ?s1 \<union> set [],
    pn_copying := (0, sample_reply) # pn_copying ?s1\<rparr>"
  let ?s3 = "?s2\<lparr>pn_mem := m, pn_copying := remove1 (0, sample_reply) (pn_copying ?s2), pn_copied := 0 # pn_copied ?s2\<rparr>"
  let ?s4 = "?s3\<lparr>pn_ep := ep, pn_copied := remove1 0 (pn_copied ?s3)\<rparr>"
  have "?step ?s0 ?s1"
    by (rule pull_step.answer [OF _ sample_answer]) (simp add: started_def)
  moreover have "?step ?s1 ?s2"
    using sample_begin
    by (intro pull_step.accepted [where skb_ok = "\<lambda>_. True"])
      (simp_all add: started_def sample_reply_def sample_pulling_def sample_endpoint_sel magic_endpoint_def OMX_ENDPOINT_PULL_MAGIC_XOR_def)
  moreover have "?step ?s2 ?s3"
    using m by (intro pull_step.copied [where ph = sample_busy])
      (simp_all add: started_def sample_pulling_def sample_reply_def sample_busy_def sample_handle_def)
  moreover have "?step ?s3 ?s4"
    using ep by (intro pull_step.finished) (simp_all add: started_def)
  ultimately have "?step\<^sup>*\<^sup>* ?s0 ?s4" by (meson rtranclp.rtrancl_into_rtrancl rtranclp.rtrancl_refl)
  with ep(2) show ?thesis by (intro exI [of _ ?s4]) simp
qed

lemma sample_fresh: "fresh_endpoint (sample_pull_endpoint i)"
  unfolding fresh_endpoint_def using sample_pull_endpoint_def sample_endpoint_sel by blast

lemma sample_found: "sample_acquire 3 = Inr (sample_pull_endpoint 3)"
  by (simp add: sample_acquire_def omx_endpoint_acquire_by_iface_index_def)

lemma sample_clear: "frames_missing_bitmap (sample_junk ! 3) = 0"
  by (simp add: sample_junk_def Let_def)

lemma sample_cmd_sel:
  "pl_dest_endpoint sample_pull_cmd = 3" "\<not> pl_shared sample_pull_cmd" "pl_length sample_pull_cmd = 3"
  "pl_puller_rdma_id sample_pull_cmd = 7" "pl_pulled_rdma_id sample_pull_cmd = 7" "pl_pulled_rdma_offset sample_pull_cmd = 1"
  by (simp_all add: sample_pull_cmd_def)


end
