(* ===== verification/Xen_Grants.thy ===== *)
theory Xen_Grants
  imports Driver_Regions
begin

text \<open>
  Grant references: how the guest lets the driver domain reach its pages
  (\<open>driver/frontend/omx_xenfront_reg.c\<close>, the cookies). The Xen and Linux operations both sides call are
  not part of the repository. They are a parameter, the record \<open>xen_ops\<close>, over a state \<open>'h\<close> of the
  machine and chains \<open>'c\<close> of free references; what the code relies on is stated by \<open>xen_laws\<close> over a
  view of that state.

  A cookie is a set of grant references that the frontend took once from the kernel and hands out
  again and again. Cookies are addressed by number, as the C code passes pointers to them.
\<close>

subsection \<open>The machine\<close>

type_synonym gref = u32
type_synonym handle = nat
type_synonym mfn = nat

datatype xen_error = Errno errno | ENOSPC | ENOSYS | Grant_status int

text \<open>
  The result of \<open>map_grant_refs\<close> and \<open>unmap_grant_refs\<close> is whether the hypercall as a whole failed and
  the status (and handle) for each operation. \<open>frame_of\<close> is the machine frame behind a page of the
  driver domain, \<open>pfn_to_mfn\<close> the one behind a page of the guest.
\<close>

record ('h, 'c) xen_ops =
  kmalloc :: "'h \<Rightarrow> bool \<times> 'h"
  gnttab_alloc_grant_references :: "u32 \<Rightarrow> 'h \<Rightarrow> 'c option \<times> 'h"
  gnttab_claim_grant_reference :: "'c \<Rightarrow> (gref \<times> 'c) option"
  gnttab_release_grant_reference :: "gref \<Rightarrow> 'c \<Rightarrow> 'c"
  gnttab_grant_foreign_access_ref :: "gref \<Rightarrow> mfn \<Rightarrow> 'h \<Rightarrow> 'h"
  gnttab_query_foreign_access :: "gref \<Rightarrow> 'h \<Rightarrow> bool"
  gnttab_end_foreign_access_ref :: "gref \<Rightarrow> 'h \<Rightarrow> bool \<times> 'h"
  get_free_pages :: "nat \<Rightarrow> 'h \<Rightarrow> nat option \<times> 'h"
  free_pages :: "nat \<Rightarrow> nat \<Rightarrow> 'h \<Rightarrow> 'h"
  pfn_to_mfn :: "nat \<Rightarrow> mfn"
  map_grant_refs :: "(gref \<times> nat) list \<Rightarrow> 'h \<Rightarrow> bool \<times> (int \<times> handle) list \<times> 'h"
  unmap_grant_refs :: "handle list \<Rightarrow> 'h \<Rightarrow> bool \<times> int list \<times> 'h"
  frame_of :: "'h \<Rightarrow> nat \<Rightarrow> mfn"
  alloc_vm_area :: "'h \<Rightarrow> nat option \<times> 'h"
  free_vm_area :: "nat \<Rightarrow> 'h \<Rightarrow> 'h"
  alloc_xenballooned_pages :: "nat \<Rightarrow> 'h \<Rightarrow> nat list option \<times> 'h"
  free_xenballooned_pages :: "nat list \<Rightarrow> 'h \<Rightarrow> 'h"

subsection \<open>Cookies\<close>

record 'c gref_cookie =
  gref_head :: 'c
  ck_count :: u32

record 'c xenfront =
  fe_cookies :: "nat \<Rightarrow> 'c gref_cookie option"
  fe_next_cookie :: nat
  gref_cookies_free :: "nat list"
  gref_cookies_inuse :: "nat list"

text \<open>
  What the two domains share: the frontend, the machine, and the words of the pages that hold lists
  of references, by machine frame and index.
\<close>

record ('h, 'c) xen_state =
  xs_fe :: "'c xenfront"
  xs_hyp :: 'h
  xs_words :: "nat \<times> nat \<Rightarrow> u32"

definition on_hyp :: "('h \<Rightarrow> 'h) \<Rightarrow> ('h, 'c) xen_state \<Rightarrow> ('h, 'c) xen_state" where
  "on_hyp f s = s\<lparr>xs_hyp := f (xs_hyp s)\<rparr>"

definition really_alloc_grant_references ::
  "('h, 'c) xen_ops \<Rightarrow> u32 \<Rightarrow> ('h, 'c) xen_state \<Rightarrow> xen_error option \<times> ('h, 'c) xen_state"
where
  "really_alloc_grant_references G count s =
     (case kmalloc G (xs_hyp s) of
        (False, h) \<Rightarrow> (Some (Errno ENOMEM), s\<lparr>xs_hyp := h\<rparr>)
      | (True, h) \<Rightarrow>
          (case gnttab_alloc_grant_references G count h of
             (None, h) \<Rightarrow> (Some ENOSPC, s\<lparr>xs_hyp := h\<rparr>)
           | (Some c, h) \<Rightarrow>
               let fe = xs_fe s; ck = fe_next_cookie fe
               in (None, s\<lparr>xs_hyp := h,
                    xs_fe := fe\<lparr>fe_cookies := (fe_cookies fe)(ck \<mapsto> \<lparr>gref_head = c, ck_count = count\<rparr>),
                      fe_next_cookie := ck + 1, gref_cookies_free := gref_cookies_free fe @ [ck]\<rparr>\<rparr>)))"

definition omx_xenfront_gref_put_cookie :: "nat \<Rightarrow> 'c xenfront \<Rightarrow> 'c xenfront" where
  "omx_xenfront_gref_put_cookie ck fe =
     fe\<lparr>gref_cookies_inuse := removeAll ck (gref_cookies_inuse fe),
        gref_cookies_free := removeAll ck (gref_cookies_free fe) @ [ck]\<rparr>"

text \<open>
  The loop that fills an empty free list. Only a failure of \<open>kmalloc\<close> leaves it with an error: when
  the kernel has no references left it tries again for ever.
\<close>

partial_function (option) cookie_alloc_loop ::
  "('h, 'c) xen_ops \<Rightarrow> u32 \<Rightarrow> bool \<Rightarrow> ('h, 'c) xen_state \<Rightarrow> (xen_error option \<times> ('h, 'c) xen_state) option"
where
  "cookie_alloc_loop G count try_again s =
     (if gref_cookies_free (xs_fe s) = [] \<or> try_again
      then (let (e, s') = really_alloc_grant_references G count s
            in if e = Some (Errno ENOMEM) then Some (e, s') else cookie_alloc_loop G count False s')
      else Some (None, s))"

definition cookie_fits :: "u32 \<Rightarrow> 'c xenfront \<Rightarrow> nat \<Rightarrow> bool" where
  "cookie_fits count fe ck = (case fe_cookies fe ck of None \<Rightarrow> False | Some c \<Rightarrow> count \<le> ck_count c)"

definition take_cookie :: "nat \<Rightarrow> 'c xenfront \<Rightarrow> 'c xenfront" where
  "take_cookie ck fe =
     fe\<lparr>gref_cookies_free := removeAll ck (gref_cookies_free fe),
        gref_cookies_inuse := gref_cookies_inuse fe @ [ck]\<rparr>"

definition XEN_GRANT_TIMEOUT :: nat where "XEN_GRANT_TIMEOUT = 1000"

text \<open>The search for a cookie with enough references; \<open>tries\<close> is how often it may still allocate another one.\<close>

fun gref_cookie_loop ::
  "('h, 'c) xen_ops \<Rightarrow> u32 \<Rightarrow> nat \<Rightarrow> bool \<Rightarrow> ('h, 'c) xen_state \<Rightarrow> (nat option \<times> ('h, 'c) xen_state) option"
where
  "gref_cookie_loop G count tries try_again s = do {
     (e, s1) \<leftarrow> cookie_alloc_loop G count try_again s;
     if e \<noteq> None then Some (None, s1)
     else (case find (cookie_fits count (xs_fe s1)) (gref_cookies_free (xs_fe s1)) of
             Some ck \<Rightarrow> Some (Some ck, s1\<lparr>xs_fe := take_cookie ck (xs_fe s1)\<rparr>)
           | None \<Rightarrow> (case tries of 0 \<Rightarrow> Some (None, s1) | Suc n \<Rightarrow> gref_cookie_loop G count n True s1))
   }"

declare gref_cookie_loop.simps [simp del]

definition omx_xenfront_gref_get_cookie ::
  "('h, 'c) xen_ops \<Rightarrow> u32 \<Rightarrow> ('h, 'c) xen_state \<Rightarrow> (nat option \<times> ('h, 'c) xen_state) option"
where
  "omx_xenfront_gref_get_cookie G count = gref_cookie_loop G count XEN_GRANT_TIMEOUT False"

definition omx_xen_gnttab_alloc_grant_references ::
  "('h, 'c) xen_ops \<Rightarrow> u32 \<Rightarrow> ('h, 'c) xen_state \<Rightarrow> ((xen_error + nat) \<times> ('h, 'c) xen_state) option"
where
  "omx_xen_gnttab_alloc_grant_references G count s = do {
     (r, s') \<leftarrow> omx_xenfront_gref_get_cookie G count s;
     Some (case r of None \<Rightarrow> Inl (Errno EINVAL) | Some ck \<Rightarrow> Inr ck, s')
   }"

definition omx_xen_gnttab_free_grant_references :: "nat \<Rightarrow> ('h, 'c) xen_state \<Rightarrow> ('h, 'c) xen_state" where
  "omx_xen_gnttab_free_grant_references ck s = s\<lparr>xs_fe := omx_xenfront_gref_put_cookie ck (xs_fe s)\<rparr>"

text \<open>Taking a reference out of a cookie and putting it back; the inner \<^term>\<open>None\<close> is \<open>-ENOSPC\<close>.\<close>

definition set_cookie :: "nat \<Rightarrow> 'c gref_cookie \<Rightarrow> ('h, 'c) xen_state \<Rightarrow> ('h, 'c) xen_state" where
  "set_cookie ck c s = s\<lparr>xs_fe := (xs_fe s)\<lparr>fe_cookies := (fe_cookies (xs_fe s))(ck \<mapsto> c)\<rparr>\<rparr>"

definition omx_gnttab_claim_grant_reference ::
  "('h, 'c) xen_ops \<Rightarrow> nat \<Rightarrow> ('h, 'c) xen_state \<Rightarrow> (gref option \<times> ('h, 'c) xen_state) option"
where
  "omx_gnttab_claim_grant_reference G ck s = do {
     c \<leftarrow> fe_cookies (xs_fe s) ck;
     Some (case gnttab_claim_grant_reference G (gref_head c) of
             None \<Rightarrow> (None, s)
           | Some (g, h) \<Rightarrow> (Some g, set_cookie ck (c\<lparr>gref_head := h\<rparr>) s))
   }"

definition omx_gnttab_release_grant_reference ::
  "('h, 'c) xen_ops \<Rightarrow> nat \<Rightarrow> gref \<Rightarrow> ('h, 'c) xen_state \<Rightarrow> ('h, 'c) xen_state option"
where
  "omx_gnttab_release_grant_reference G ck g s = do {
     c \<leftarrow> fe_cookies (xs_fe s) ck;
     Some (set_cookie ck (c\<lparr>gref_head := gnttab_release_grant_reference G g (gref_head c)\<rparr>) s)
   }"

subsection \<open>What the code relies on\<close>

text \<open>
  The view of the machine: the references the kernel gave to the frontend, the frame each reference
  grants, the reference behind each handle of the driver domain, and the pages in use.
\<close>

record hyp_view =
  owned :: "gref set"
  granted :: "gref \<Rightarrow> mfn option"
  maptrack :: "handle \<Rightarrow> gref option"
  p2m :: "nat \<Rightarrow> mfn"
  guest_pages :: "nat set"
  driver_pages :: "nat set"

definition map_one :: "(gref \<times> nat) \<times> (int \<times> handle) \<Rightarrow> hyp_view \<Rightarrow> hyp_view" where
  "map_one x v = (case x of ((g, page), (st, hdl)) \<Rightarrow>
     if st = 0 then v\<lparr>maptrack := (maptrack v)(hdl \<mapsto> g), p2m := (p2m v)(page := the (granted v g))\<rparr> else v)"

definition chain_laws :: "('h, 'c) xen_ops \<Rightarrow> ('c \<Rightarrow> gref set) \<Rightarrow> bool" where
  "chain_laws G held \<longleftrightarrow>
     (\<forall>c. finite (held c))
     \<and> (\<forall>c. gnttab_claim_grant_reference G c = None \<longrightarrow> held c = {})
     \<and> (\<forall>c g c'. gnttab_claim_grant_reference G c = Some (g, c') \<longrightarrow> g \<in> held c \<and> held c' = held c - {g})
     \<and> (\<forall>c g. held (gnttab_release_grant_reference G g c) = insert g (held c))"

definition grant_laws :: "('h, 'c) xen_ops \<Rightarrow> ('c \<Rightarrow> gref set) \<Rightarrow> ('h \<Rightarrow> hyp_view) \<Rightarrow> bool" where
  "grant_laws G held V \<longleftrightarrow>
     (\<forall>h. V (snd (kmalloc G h)) = V h)
     \<and> (\<forall>n h h'. gnttab_alloc_grant_references G n h = (None, h') \<longrightarrow> V h' = V h)
     \<and> (\<forall>n h c h'. gnttab_alloc_grant_references G n h = (Some c, h') \<longrightarrow>
          card (held c) = unat n \<and> held c \<inter> owned (V h) = {} \<and> V h' = (V h)\<lparr>owned := owned (V h) \<union> held c\<rparr>)
     \<and> (\<forall>g f h. V (gnttab_grant_foreign_access_ref G g f h) = (V h)\<lparr>granted := (granted (V h))(g \<mapsto> f)\<rparr>)
     \<and> (\<forall>g h. gnttab_query_foreign_access G g h \<longleftrightarrow> g \<in> ran (maptrack (V h)))
     \<and> (\<forall>g h b h'. gnttab_end_foreign_access_ref G g h = (b, h') \<longrightarrow>
          b = (g \<notin> ran (maptrack (V h)))
          \<and> V h' = (if b then (V h)\<lparr>granted := (granted (V h))(g := None)\<rparr> else V h))"

definition page_laws :: "('h, 'c) xen_ops \<Rightarrow> ('h \<Rightarrow> hyp_view) \<Rightarrow> bool" where
  "page_laws G V \<longleftrightarrow>
     (\<forall>h. frame_of G h = p2m (V h)) \<and> inj (pfn_to_mfn G)
     \<and> (\<forall>n h h'. get_free_pages G n h = (None, h') \<longrightarrow> V h' = V h)
     \<and> (\<forall>n h p h'. get_free_pages G n h = (Some p, h') \<longrightarrow>
          {p..<p + n} \<inter> guest_pages (V h) = {} \<and> V h' = (V h)\<lparr>guest_pages := guest_pages (V h) \<union> {p..<p + n}\<rparr>)
     \<and> (\<forall>p n h. V (free_pages G p n h) = (V h)\<lparr>guest_pages := guest_pages (V h) - {p..<p + n}\<rparr>)
     \<and> (\<forall>h h'. alloc_vm_area G h = (None, h') \<longrightarrow> V h' = V h)
     \<and> (\<forall>h a h'. alloc_vm_area G h = (Some a, h') \<longrightarrow>
          a \<notin> driver_pages (V h) \<and> V h' = (V h)\<lparr>driver_pages := insert a (driver_pages (V h))\<rparr>)
     \<and> (\<forall>a h. V (free_vm_area G a h) = (V h)\<lparr>driver_pages := driver_pages (V h) - {a}\<rparr>)
     \<and> (\<forall>n h h'. alloc_xenballooned_pages G n h = (None, h') \<longrightarrow> V h' = V h)
     \<and> (\<forall>n h ps h'. alloc_xenballooned_pages G n h = (Some ps, h') \<longrightarrow>
          length ps = n \<and> distinct ps \<and> set ps \<inter> driver_pages (V h) = {}
          \<and> V h' = (V h)\<lparr>driver_pages := driver_pages (V h) \<union> set ps\<rparr>)
     \<and> (\<forall>ps h. V (free_xenballooned_pages G ps h) = (V h)\<lparr>driver_pages := driver_pages (V h) - set ps\<rparr>)"

definition map_laws :: "('h, 'c) xen_ops \<Rightarrow> ('h \<Rightarrow> hyp_view) \<Rightarrow> bool" where
  "map_laws G V \<longleftrightarrow>
     (\<forall>ops h rs h'. map_grant_refs G ops h = (True, rs, h') \<longrightarrow> V h' = V h)
     \<and> (\<forall>ops h rs h'. map_grant_refs G ops h = (False, rs, h') \<longrightarrow>
          length rs = length ops \<and> V h' = fold map_one (zip ops rs) (V h)
          \<and> distinct (map snd (filter (\<lambda>r. fst r = 0) rs))
          \<and> (\<forall>i < length ops. fst (rs ! i) = 0 \<longrightarrow>
               granted (V h) (fst (ops ! i)) \<noteq> None \<and> maptrack (V h) (snd (rs ! i)) = None \<and> snd (rs ! i) < 2 ^ 31))
     \<and> (\<forall>hds h err sts h'. unmap_grant_refs G hds h = (err, sts, h') \<longrightarrow> distinct hds \<longrightarrow> set hds \<subseteq> dom (maptrack (V h)) \<longrightarrow>
          \<not> err \<and> sts = replicate (length hds) 0
          \<and> (\<exists>q. V h' = (V h)\<lparr>maptrack := maptrack (V h) |` (- set hds), p2m := q\<rparr>))"

text \<open>The documented behaviour of the operations of \<open>xen/grant_table.h\<close> and of the allocators.\<close>

definition xen_laws :: "('h, 'c) xen_ops \<Rightarrow> ('c \<Rightarrow> gref set) \<Rightarrow> ('h \<Rightarrow> hyp_view) \<Rightarrow> bool" where
  "xen_laws G held V \<longleftrightarrow> chain_laws G held \<and> grant_laws G held V \<and> page_laws G V \<and> map_laws G V"

end
