(* ===== verification/Xen_Front_Regions.thy ===== *)
theory Xen_Front_Regions
  imports Xen_Grants
begin

text \<open>
  User regions of a guest (\<open>driver/frontend/omx_xenfront_reg.c\<close>). The frontend pins the region as the
  plain driver does, then grants the driver domain every page of it. The references that grant the
  pages are themselves written to pages, up to 16 of them for a segment, whose references travel in
  the message to the backend. A region is destroyed by asking the backend to let go of the pages and
  taking all grants back.

  The fields that a segment has beyond those of \<open>Driver_Regions\<close> are in a record of their own,
  \<open>seg_grant\<close>, in a list beside the segments.
\<close>

definition OMX_XEN_GRANT_PAGES_MAX :: nat where "OMX_XEN_GRANT_PAGES_MAX = 16"
definition NR_GREFS :: nat where "NR_GREFS = 1024"

subsection \<open>The messages to the backend\<close>

record ring_register_segment =
  rs_rid :: u32
  rs_eid :: u32
  rs_aligned_vaddr :: u32
  rs_first_page_offset :: u16
  rs_length :: u32
  rs_nr_pages :: u32
  rs_nr_grefs :: u32
  rs_gref :: "gref list"
  rs_sid :: u32
  rs_gref_offset :: u16
  rs_nr_parts :: u8

record ring_create_region =
  rc_id :: u32
  rc_nr_segments :: u32
  rc_eid :: u8
  rc_segs :: "ring_register_segment list"

record ring_deregister_segment =
  rd_rid :: u32
  rd_eid :: u32
  rd_sid :: u32

record ring_destroy_region =
  rx_id :: u32
  rx_eid :: u8
  rx_nr_segments :: u16
  rx_segs :: "ring_deregister_segment list"

text \<open>
  The answers that arrive in \<open>fe->requests\<close>: the status set by the interrupt handler, or none before
  the poll gives up.
\<close>

datatype region_status = REGISTERED | DEREGISTERED | FAILED

subsection \<open>Granting a segment\<close>

record seg_grant =
  sgr_cookie :: nat
  sgr_nr_parts :: u8
  sgr_all_gref :: "gref list"
  sgr_gref_list :: nat

text \<open>
  The references for the pages of the list, then those for the pages of the segment. A list of
  references is an array over the pages from \<open>first\<close> on, 1024 in a page. \<^term>\<open>None\<close> is an access outside
  the arrays. The result is the error, if any.
\<close>

fun grant_parts ::
  "('h, 'c) xen_ops \<Rightarrow> nat \<Rightarrow> nat \<Rightarrow> nat \<Rightarrow> nat \<Rightarrow> gref list \<Rightarrow> ('h, 'c) xen_state
    \<Rightarrow> (xen_error option \<times> gref list \<times> ('h, 'c) xen_state) option"
where
  "grant_parts G ck first k 0 all_gref s = Some (None, all_gref, s)"
| "grant_parts G ck first k (Suc n) all_gref s = do {
     (r, s1) \<leftarrow> omx_gnttab_claim_grant_reference G ck s;
     case r of
       None \<Rightarrow> Some (Some ENOSPC, all_gref, s1)
     | Some g \<Rightarrow> do {
         c_assert (k < length all_gref);
         grant_parts G ck first (k + 1) n (all_gref[k := g])
           (on_hyp (gnttab_grant_foreign_access_ref G g (pfn_to_mfn G (first + k))) s1)
       }
   }"

definition set_gref_list :: "('h, 'c) xen_ops \<Rightarrow> nat \<Rightarrow> nat \<Rightarrow> gref \<Rightarrow> ('h, 'c) xen_state \<Rightarrow> ('h, 'c) xen_state" where
  "set_gref_list G first j g s =
     s\<lparr>xs_words := (xs_words s)((pfn_to_mfn G (first + j div NR_GREFS), j mod NR_GREFS) := g)\<rparr>"

fun grant_pages ::
  "('h, 'c) xen_ops \<Rightarrow> nat \<Rightarrow> nat \<Rightarrow> nat \<Rightarrow> nat \<Rightarrow> nat list \<Rightarrow> ('h, 'c) xen_state
    \<Rightarrow> (xen_error option \<times> ('h, 'c) xen_state) option"
where
  "grant_pages G ck first nr_parts j [] s = Some (None, s)"
| "grant_pages G ck first nr_parts j (page # rest) s = do {
     (r, s1) \<leftarrow> omx_gnttab_claim_grant_reference G ck s;
     c_assert (j div NR_GREFS < nr_parts);
     case r of
       None \<Rightarrow> Some (Some ENOSPC, set_gref_list G first j (- 28) s1)
     | Some g \<Rightarrow> grant_pages G ck first nr_parts (j + 1) rest
         (on_hyp (gnttab_grant_foreign_access_ref G g (pfn_to_mfn G page)) (set_gref_list G first j g s1))
   }"

definition nr_parts_of :: "nat \<Rightarrow> u8" where
  "nr_parts_of nr_pages = of_nat ((nr_pages * 4 + PAGE_SIZE - 1) div PAGE_SIZE)"

text \<open>
  One segment. The allocation of the pages for the list is not checked: without them the list is at
  address zero, which is harmless only when it has no pages.
\<close>

definition grant_segment ::
  "('h, 'c) xen_ops \<Rightarrow> region_segment \<Rightarrow> ('h, 'c) xen_state
    \<Rightarrow> (xen_error option \<times> seg_grant option \<times> ('h, 'c) xen_state) option"
where
  "grant_segment G seg s =
     (let nr_pages = length (pages seg);
          parts = nr_parts_of nr_pages;
          (p, h) = get_free_pages G (unat parts) (xs_hyp s);
          count = (of_nat nr_pages + ucast parts * ucast parts :: u32)
      in do {
        (r, s1) \<leftarrow> omx_xen_gnttab_alloc_grant_references G count (s\<lparr>xs_hyp := h\<rparr>);
        case r of
          Inl e \<Rightarrow> Some (Some e, None, s1)
        | Inr ck \<Rightarrow> do {
            first \<leftarrow> (if parts = 0 then Some 0 else p);
            (e, all_gref, s2) \<leftarrow> grant_parts G ck first 0 (unat parts) (replicate OMX_XEN_GRANT_PAGES_MAX 0) s1;
            let sgr = \<lparr>sgr_cookie = ck, sgr_nr_parts = parts, sgr_all_gref = all_gref, sgr_gref_list = first\<rparr>;
            if e \<noteq> None \<or> sg_length seg = 0 then Some (e, Some sgr, s2)
            else do {
              (e, s3) \<leftarrow> grant_pages G ck first (unat parts) 0 (pages seg) s2;
              Some (e, Some sgr, s3)
            }
          }
      })"

definition fill_ring_segment ::
  "nat \<Rightarrow> nat \<Rightarrow> nat \<Rightarrow> region_segment \<Rightarrow> seg_grant \<Rightarrow> ring_register_segment \<Rightarrow> ring_register_segment"
where
  "fill_ring_segment rid eid i seg sgr old = old\<lparr>
     rs_sid := of_nat i, rs_rid := of_nat rid, rs_eid := of_nat eid,
     rs_aligned_vaddr := of_nat (aligned_vaddr seg),
     rs_first_page_offset := of_nat (first_page_offset seg),
     rs_nr_pages := of_nat (length (pages seg)),
     rs_gref := take (unat (sgr_nr_parts sgr)) (sgr_all_gref sgr) @ drop (unat (sgr_nr_parts sgr)) (rs_gref old),
     rs_gref_offset := 0, rs_nr_parts := sgr_nr_parts sgr, rs_nr_grefs := of_nat NR_GREFS,
     rs_length := of_nat (sg_length seg)\<rparr>"

text \<open>
  The loop over the segments of the command. The region has only those with bytes, behind which the
  array is zero; there the loop stays on the same element. The message has room for two segments.
\<close>

definition zero_segment :: region_segment where
  "zero_segment = \<lparr>aligned_vaddr = 0, first_page_offset = 0, sg_length = 0, pages = []\<rparr>"

fun create_segments ::
  "('h, 'c) xen_ops \<Rightarrow> nat \<Rightarrow> nat \<Rightarrow> nat \<Rightarrow> nat \<Rightarrow> region_segment list \<Rightarrow> seg_grant list \<Rightarrow> ring_register_segment list
    \<Rightarrow> ('h, 'c) xen_state \<Rightarrow> (xen_error option \<times> seg_grant list \<times> ring_register_segment list \<times> ('h, 'c) xen_state) option"
where
  "create_segments G rid eid i 0 sgs sgrs ring s = Some (None, sgrs, ring, s)"
| "create_segments G rid eid i (Suc n) sgs sgrs ring s =
     (let seg = (case sgs of [] \<Rightarrow> zero_segment | seg # _ \<Rightarrow> seg)
      in do {
        (e, sgr, s1) \<leftarrow> grant_segment G seg s;
        case sgr of
          None \<Rightarrow> Some (e, sgrs, ring, s1)
        | Some sgr \<Rightarrow>
            if e \<noteq> None then Some (e, sgrs @ [sgr], ring, s1)
            else if sg_length seg = 0 then create_segments G rid eid (i + 1) n sgs sgrs ring s1
            else do {
              c_assert (i < length ring);
              create_segments G rid eid (i + 1) n (tl sgs) (sgrs @ [sgr])
                (ring[i := fill_ring_segment rid eid i seg sgr (ring ! i)]) s1
            }
      })"

subsection \<open>Creating a region\<close>

record fe_endpoint =
  endpoint_index :: nat
  fe_regions :: region_table
  fe_grants :: "nat \<Rightarrow> seg_grant list"

text \<open>
  The backend, reached through the ring, is the parameter \<open>serve\<close>: it may change the machine and its own
  state, and its answer arrives or not. \<open>old\<close> is what an earlier request left in the slot of the ring.
\<close>

type_synonym ('m, 'h, 'c, 'b) server =
  "'m \<Rightarrow> ('h, 'c) xen_state \<Rightarrow> 'b \<Rightarrow> (region_status option \<times> ('h, 'c) xen_state \<times> 'b) option"

definition omx_ioctl_xen_user_region_create ::
  "('h, 'c) xen_ops \<Rightarrow> (ring_create_region, 'h, 'c, 'b) server \<Rightarrow> (nat \<Rightarrow> nat) \<Rightarrow> bool \<Rightarrow> bool \<Rightarrow> ring_create_region
    \<Rightarrow> nat \<Rightarrow> omx_cmd_user_segment list \<Rightarrow> fe_endpoint \<Rightarrow> ('h, 'c) xen_state \<Rightarrow> 'b
    \<Rightarrow> (xen_error option \<times> fe_endpoint \<times> ('h, 'c) xen_state \<times> 'b) option"
where
  "omx_ioctl_xen_user_region_create G serve frame mem_ok pin_ok old rid usegs ep s b =
     (case omx_ioctl_user_region_create frame mem_ok pin_ok rid usegs (fe_regions ep) of
        (Some e, table) \<Rightarrow> Some (Some (Errno e), ep\<lparr>fe_regions := table\<rparr>, s, b)
      | (None, table) \<Rightarrow> do {
          region \<leftarrow> table rid;
          (e, sgrs, sgs, s1) \<leftarrow> create_segments G rid (endpoint_index ep) 0 (length usegs) (rgn_segments region) []
             (rc_segs old) s;
          let ep1 = ep\<lparr>fe_regions := table, fe_grants := (fe_grants ep)(rid := sgrs)\<rparr>;
          if e \<noteq> None then Some (e, ep1, s1, b)
          else do {
            (answer, s2, b2) \<leftarrow> serve (old\<lparr>rc_nr_segments := of_nat (length usegs), rc_id := of_nat rid,
                rc_eid := of_nat (endpoint_index ep), rc_segs := sgs\<rparr>) s1 b;
            Some (if answer = Some REGISTERED then None else Some (Errno EINVAL), ep1, s2, b2)
          }
        })"

subsection \<open>Taking the grants back\<close>

text \<open>
  A page that the backend still has mapped keeps its grant, and the cookie counts one reference
  less. A page of the list whose grant cannot be ended gives its reference back all the same.
\<close>

definition count_lost :: "nat \<Rightarrow> ('h, 'c) xen_state \<Rightarrow> ('h, 'c) xen_state option" where
  "count_lost ck s = do {
     c \<leftarrow> fe_cookies (xs_fe s) ck;
     Some (set_cookie ck (c\<lparr>ck_count := ck_count c - 1\<rparr>) s)
   }"

definition release_page :: "('h, 'c) xen_ops \<Rightarrow> nat \<Rightarrow> gref \<Rightarrow> ('h, 'c) xen_state \<Rightarrow> ('h, 'c) xen_state option" where
  "release_page G ck g s =
     (if gnttab_query_foreign_access G g (xs_hyp s) then count_lost ck s
      else let (ended, h) = gnttab_end_foreign_access_ref G g (xs_hyp s); s1 = s\<lparr>xs_hyp := h\<rparr>
           in if \<not> ended then Some s1 else omx_gnttab_release_grant_reference G ck g s1)"

definition release_part :: "('h, 'c) xen_ops \<Rightarrow> nat \<Rightarrow> gref \<Rightarrow> ('h, 'c) xen_state \<Rightarrow> ('h, 'c) xen_state option" where
  "release_part G ck g s =
     (if gnttab_query_foreign_access G g (xs_hyp s) then count_lost ck s
      else let (ended, h) = gnttab_end_foreign_access_ref G g (xs_hyp s)
           in omx_gnttab_release_grant_reference G ck g (s\<lparr>xs_hyp := h\<rparr>))"

definition gref_at :: "('h, 'c) xen_ops \<Rightarrow> nat \<Rightarrow> ('h, 'c) xen_state \<Rightarrow> nat \<Rightarrow> gref" where
  "gref_at G first s j = xs_words s (pfn_to_mfn G (first + j div NR_GREFS), j mod NR_GREFS)"

definition release_segment ::
  "('h, 'c) xen_ops \<Rightarrow> region_segment \<Rightarrow> seg_grant \<Rightarrow> ('h, 'c) xen_state \<Rightarrow> ('h, 'c) xen_state option"
where
  "release_segment G seg sgr s =
     (let ck = sgr_cookie sgr; parts = unat (sgr_nr_parts sgr)
      in do {
        s1 \<leftarrow> foreach (\<lambda>j s. release_page G ck (gref_at G (sgr_gref_list sgr) s j) s) [0..<length (pages seg)] s;
        c_assert (parts \<le> length (sgr_all_gref sgr));
        s2 \<leftarrow> foreach (release_part G ck) (take parts (sgr_all_gref sgr)) s1;
        Some (on_hyp (free_pages G (sgr_gref_list sgr) parts) (omx_xen_gnttab_free_grant_references ck s2))
      })"

fun release_segments ::
  "('h, 'c) xen_ops \<Rightarrow> region_segment list \<Rightarrow> seg_grant list \<Rightarrow> ('h, 'c) xen_state \<Rightarrow> ('h, 'c) xen_state option"
where
  "release_segments G [] sgrs s = Some s"
| "release_segments G (seg # sgs) [] s = None"
| "release_segments G (seg # sgs) (sgr # sgrs) s =
     do { s1 \<leftarrow> release_segment G seg sgr s; release_segments G sgs sgrs s1 }"

text \<open>What a completed pull does with the grants of its region: the region itself stays.\<close>

definition omx_xen_user_region_release ::
  "('h, 'c) xen_ops \<Rightarrow> nat \<Rightarrow> fe_endpoint \<Rightarrow> ('h, 'c) xen_state \<Rightarrow> (xen_error option \<times> ('h, 'c) xen_state) option"
where
  "omx_xen_user_region_release G rid ep s =
     (case fe_regions ep rid of
        None \<Rightarrow> Some (Some (Errno EINVAL), s)
      | Some region \<Rightarrow> do { s' \<leftarrow> release_segments G (rgn_segments region) (fe_grants ep rid) s; Some (None, s') })"

text \<open>The destruction of a region: the message, the answer, the grants, and then the region as in the plain driver.\<close>

definition omx__xen_user_region_last_release ::
  "('h, 'c) xen_ops \<Rightarrow> nat \<Rightarrow> user_region \<Rightarrow> fe_endpoint \<Rightarrow> ('h, 'c) xen_state
    \<Rightarrow> (fe_endpoint \<times> ('h, 'c) xen_state) option"
where
  "omx__xen_user_region_last_release G rid region ep s = do {
     s' \<leftarrow> release_segments G (rgn_segments region) (fe_grants ep rid) s;
     Some (ep\<lparr>fe_regions := snd (omx_ioctl_user_region_destroy rid (fe_regions ep))\<rparr>, s')
   }"

definition fill_destroy_segment :: "nat \<Rightarrow> nat \<Rightarrow> nat \<Rightarrow> ring_deregister_segment \<Rightarrow> ring_deregister_segment" where
  "fill_destroy_segment rid eid i old = old\<lparr>rd_sid := of_nat i, rd_rid := of_nat rid, rd_eid := of_nat eid\<rparr>"

definition omx_ioctl_xen_user_region_destroy ::
  "('h, 'c) xen_ops \<Rightarrow> (ring_destroy_region, 'h, 'c, 'b) server \<Rightarrow> ring_destroy_region \<Rightarrow> nat \<Rightarrow> fe_endpoint
    \<Rightarrow> ('h, 'c) xen_state \<Rightarrow> 'b \<Rightarrow> (xen_error option \<times> fe_endpoint \<times> ('h, 'c) xen_state \<times> 'b) option"
where
  "omx_ioctl_xen_user_region_destroy G serve old rid ep s b =
     (case fe_regions ep rid of
        None \<Rightarrow> Some (Some (Errno EINVAL), ep, s, b)
      | Some region \<Rightarrow> do {
          let n = length (rgn_segments region);
          c_assert (n \<le> length (rx_segs old));
          (answer, s1, b1) \<leftarrow> serve (old\<lparr>rx_eid := of_nat (endpoint_index ep), rx_id := of_nat rid,
              rx_nr_segments := of_nat n,
              rx_segs := map (\<lambda>i. fill_destroy_segment rid (endpoint_index ep) i (rx_segs old ! i)) [0..<n]
                @ drop n (rx_segs old)\<rparr>) s b;
          if answer \<noteq> Some DEREGISTERED then Some (Some (Errno EINVAL), ep, s1, b1)
          else do {
            (ep', s2) \<leftarrow> omx__xen_user_region_last_release G rid region ep s1;
            Some (None, ep', s2, b1)
          }
        })"

end
