(* ===== verification/Xen_Cookies.thy ===== *)
theory Xen_Cookies
  imports Xen_Front_Regions
begin

text \<open>
  The discipline of the grant references: at every moment the cookies of the frontend hold disjoint
  sets of references that grant nothing, and a cookie on the free list holds as many as it counts.
  Hence a reference is never granted twice, and a segment never runs out of references.
\<close>

subsection \<open>The laws, one by one\<close>

lemma law_finite: "xen_laws G held V \<Longrightarrow> finite (held c)"
  by (simp add: xen_laws_def chain_laws_def)

lemma law_claim_None:
  "xen_laws G held V \<Longrightarrow> gnttab_claim_grant_reference G c = None \<Longrightarrow> held c = {}"
  by (simp add: xen_laws_def chain_laws_def)

lemma law_claim:
  "xen_laws G held V \<Longrightarrow> gnttab_claim_grant_reference G c = Some (g, c') \<Longrightarrow> g \<in> held c \<and> held c' = held c - {g}"
  by (simp add: xen_laws_def chain_laws_def)

lemma law_release: "xen_laws G held V \<Longrightarrow> held (gnttab_release_grant_reference G g c) = insert g (held c)"
  by (simp add: xen_laws_def chain_laws_def)

lemma law_kmalloc: "xen_laws G held V \<Longrightarrow> kmalloc G h = (b, h') \<Longrightarrow> V h' = V h"
  unfolding xen_laws_def grant_laws_def by (metis snd_conv)

lemma law_alloc:
  assumes "xen_laws G held V" and "gnttab_alloc_grant_references G n h = (Some c, h')"
  shows "card (held c) = unat n" "held c \<inter> owned (V h) = {}" "V h' = (V h)\<lparr>owned := owned (V h) \<union> held c\<rparr>"
  using assms unfolding xen_laws_def grant_laws_def by blast+

lemma law_alloc_None:
  "xen_laws G held V \<Longrightarrow> gnttab_alloc_grant_references G n h = (None, h') \<Longrightarrow> V h' = V h"
  unfolding xen_laws_def grant_laws_def by blast

lemma law_grant:
  "xen_laws G held V \<Longrightarrow> V (gnttab_grant_foreign_access_ref G g f h) = (V h)\<lparr>granted := (granted (V h))(g \<mapsto> f)\<rparr>"
  by (simp add: xen_laws_def grant_laws_def)

lemma law_query: "xen_laws G held V \<Longrightarrow> gnttab_query_foreign_access G g h \<longleftrightarrow> g \<in> ran (maptrack (V h))"
  by (simp add: xen_laws_def grant_laws_def)

lemma law_end:
  assumes "xen_laws G held V" and "gnttab_end_foreign_access_ref G g h = (b, h')"
  shows "b = (g \<notin> ran (maptrack (V h)))"
    "V h' = (if b then (V h)\<lparr>granted := (granted (V h))(g := None)\<rparr> else V h)"
  using assms unfolding xen_laws_def grant_laws_def by blast+

lemma law_inj: "xen_laws G held V \<Longrightarrow> inj (pfn_to_mfn G)"
  by (simp add: xen_laws_def page_laws_def)

lemma law_frame_of: "xen_laws G held V \<Longrightarrow> frame_of G h = p2m (V h)"
  by (simp add: xen_laws_def page_laws_def)

lemma law_get_free_pages:
  assumes "xen_laws G held V" and "get_free_pages G n h = (Some p, h')"
  shows "{p..<p + n} \<inter> guest_pages (V h) = {}" "V h' = (V h)\<lparr>guest_pages := guest_pages (V h) \<union> {p..<p + n}\<rparr>"
proof -
  have "\<forall>n h p h'. get_free_pages G n h = (Some p, h') \<longrightarrow>
      {p..<p + n} \<inter> guest_pages (V h) = {} \<and> V h' = (V h)\<lparr>guest_pages := guest_pages (V h) \<union> {p..<p + n}\<rparr>"
    using assms(1) unfolding xen_laws_def page_laws_def by (elim conjE) assumption
  with assms(2) show "{p..<p + n} \<inter> guest_pages (V h) = {}"
    "V h' = (V h)\<lparr>guest_pages := guest_pages (V h) \<union> {p..<p + n}\<rparr>" by blast+
qed

lemma law_get_free_pages_None:
  assumes "xen_laws G held V" and "get_free_pages G n h = (None, h')"
  shows "V h' = V h"
proof -
  have "\<forall>n h h'. get_free_pages G n h = (None, h') \<longrightarrow> V h' = V h"
    using assms(1) unfolding xen_laws_def page_laws_def by (elim conjE) assumption
  with assms(2) show ?thesis by blast
qed

lemma law_free_pages:
  "xen_laws G held V \<Longrightarrow> V (free_pages G p n h) = (V h)\<lparr>guest_pages := guest_pages (V h) - {p..<p + n}\<rparr>"
  by (simp add: xen_laws_def page_laws_def)

subsection \<open>The invariant\<close>

definition cookies_apart :: "('c \<Rightarrow> gref set) \<Rightarrow> (nat \<Rightarrow> 'c gref_cookie option) \<Rightarrow> bool" where
  "cookies_apart held cs \<longleftrightarrow>
     (\<forall>i j ci cj. i \<noteq> j \<longrightarrow> cs i = Some ci \<longrightarrow> cs j = Some cj \<longrightarrow> held (gref_head ci) \<inter> held (gref_head cj) = {})"

definition cookies_idle :: "('c \<Rightarrow> gref set) \<Rightarrow> hyp_view \<Rightarrow> (nat \<Rightarrow> 'c gref_cookie option) \<Rightarrow> bool" where
  "cookies_idle held v cs \<longleftrightarrow>
     (\<forall>i c. cs i = Some c \<longrightarrow> held (gref_head c) \<subseteq> owned v \<and> held (gref_head c) \<inter> dom (granted v) = {})"

definition cookies_full :: "('c \<Rightarrow> gref set) \<Rightarrow> (nat \<Rightarrow> 'c gref_cookie option) \<Rightarrow> nat list \<Rightarrow> bool" where
  "cookies_full held cs free \<longleftrightarrow>
     (\<forall>i c. i \<in> set free \<longrightarrow> cs i = Some c \<longrightarrow> card (held (gref_head c)) = unat (ck_count c))"

definition cookie_lists_ok :: "'c xenfront \<Rightarrow> bool" where
  "cookie_lists_ok fe \<longleftrightarrow>
     distinct (gref_cookies_free fe @ gref_cookies_inuse fe)
     \<and> dom (fe_cookies fe) = set (gref_cookies_free fe @ gref_cookies_inuse fe)
     \<and> (\<forall>i \<in> dom (fe_cookies fe). i < fe_next_cookie fe)"

definition grants_ok :: "('c \<Rightarrow> gref set) \<Rightarrow> hyp_view \<Rightarrow> 'c xenfront \<Rightarrow> bool" where
  "grants_ok held v fe \<longleftrightarrow>
     cookie_lists_ok fe \<and> cookies_apart held (fe_cookies fe) \<and> cookies_idle held v (fe_cookies fe)
     \<and> cookies_full held (fe_cookies fe) (gref_cookies_free fe)
     \<and> dom (granted v) \<subseteq> owned v \<and> ran (maptrack v) \<subseteq> dom (granted v)"

lemma grants_ok_view:
  "grants_ok held v fe \<Longrightarrow> owned w = owned v \<Longrightarrow> granted w = granted v \<Longrightarrow> maptrack w = maptrack v \<Longrightarrow> grants_ok held w fe"
  by (simp add: grants_ok_def cookies_idle_def)

lemma inuse_not_free: "grants_ok held v fe \<Longrightarrow> ck \<in> set (gref_cookies_inuse fe) \<Longrightarrow> ck \<notin> set (gref_cookies_free fe)"
  by (auto simp: grants_ok_def cookie_lists_ok_def)

lemma inuse_cookie: "grants_ok held v fe \<Longrightarrow> ck \<in> set (gref_cookies_inuse fe) \<Longrightarrow> \<exists>c. fe_cookies fe ck = Some c"
  by (auto simp: grants_ok_def cookie_lists_ok_def)

text \<open>Taking references out of a cookie in use, and putting them back: the other cookies do not notice.\<close>

lemma cookie_shrinks:
  assumes "grants_ok held v fe" and "fe_cookies fe ck = Some c" and "ck \<in> set (gref_cookies_inuse fe)"
    and "held (gref_head c') \<subseteq> held (gref_head c)"
  shows "grants_ok held v (fe\<lparr>fe_cookies := (fe_cookies fe)(ck \<mapsto> c')\<rparr>)"
proof -
  let ?cs = "(fe_cookies fe)(ck \<mapsto> c')"
  have "ck \<notin> set (gref_cookies_free fe)" by (rule inuse_not_free [OF assms(1,3)])
  moreover have "cookies_apart held ?cs"
    unfolding cookies_apart_def
  proof (intro allI impI)
    fix i j ci cj
    assume ij: "i \<noteq> j" and i: "?cs i = Some ci" and j: "?cs j = Some cj"
    have "\<exists>di. fe_cookies fe i = Some di \<and> held (gref_head ci) \<subseteq> held (gref_head di)"
      using i assms(2,4) by (cases "i = ck") auto
    moreover have "\<exists>dj. fe_cookies fe j = Some dj \<and> held (gref_head cj) \<subseteq> held (gref_head dj)"
      using j assms(2,4) by (cases "j = ck") auto
    ultimately show "held (gref_head ci) \<inter> held (gref_head cj) = {}"
      using assms(1) ij unfolding grants_ok_def cookies_apart_def by blast
  qed
  moreover have "cookies_idle held v ?cs"
    using assms(1,2,4) unfolding grants_ok_def cookies_idle_def
    by (auto split: if_splits) blast+
  moreover have "cookie_lists_ok (fe\<lparr>fe_cookies := ?cs\<rparr>)"
    using assms(1,2) by (auto simp: grants_ok_def cookie_lists_ok_def)
  ultimately show ?thesis
    using assms(1) by (auto simp: grants_ok_def cookies_full_def)
qed

lemma cookie_grows:
  assumes "grants_ok held v fe" and "fe_cookies fe ck = Some c" and "ck \<in> set (gref_cookies_inuse fe)"
    and "held (gref_head c') = insert g (held (gref_head c))"
    and "g \<in> owned v" and "granted v g = None"
    and "\<And>i d. fe_cookies fe i = Some d \<Longrightarrow> g \<notin> held (gref_head d)"
  shows "grants_ok held v (fe\<lparr>fe_cookies := (fe_cookies fe)(ck \<mapsto> c')\<rparr>)"
proof -
  let ?cs = "(fe_cookies fe)(ck \<mapsto> c')"
  have "ck \<notin> set (gref_cookies_free fe)" by (rule inuse_not_free [OF assms(1,3)])
  moreover have "cookies_apart held ?cs"
    unfolding cookies_apart_def
  proof (intro allI impI)
    fix i j ci cj
    assume ij: "i \<noteq> j" and i: "?cs i = Some ci" and j: "?cs j = Some cj"
    have other: "held (gref_head c') \<inter> held (gref_head d) = {}" if "k \<noteq> ck" "fe_cookies fe k = Some d" for k d
    proof -
      have "held (gref_head c) \<inter> held (gref_head d) = {}"
        using assms(1,2) that unfolding grants_ok_def cookies_apart_def by blast
      with assms(4) assms(7) [OF that(2)] show ?thesis by simp
    qed
    show "held (gref_head ci) \<inter> held (gref_head cj) = {}"
    proof (cases "i = ck \<or> j = ck")
      case True
      then consider "i = ck" "j \<noteq> ck" | "j = ck" "i \<noteq> ck" using ij by blast
      then show ?thesis
      proof cases
        case 1
        with i j other [of j cj] show ?thesis by simp
      next
        case 2
        with i j other [of i ci] show ?thesis by (simp add: Int_commute)
      qed
    next
      case False
      with i j ij assms(1) show ?thesis unfolding grants_ok_def cookies_apart_def by auto
    qed
  qed
  moreover have "cookies_idle held v ?cs"
    using assms(1,2,4-6) unfolding grants_ok_def cookies_idle_def
    by (auto split: if_splits)
  moreover have "cookie_lists_ok (fe\<lparr>fe_cookies := ?cs\<rparr>)"
    using assms(1,2) by (auto simp: grants_ok_def cookie_lists_ok_def)
  ultimately show ?thesis
    using assms(1) by (auto simp: grants_ok_def cookies_full_def)
qed

text \<open>Grants of references that no cookie holds.\<close>

lemma grants_kept:
  assumes "grants_ok held v fe" and "dom m \<subseteq> owned v"
    and "\<And>i d. fe_cookies fe i = Some d \<Longrightarrow> held (gref_head d) \<inter> dom m = {}"
  shows "grants_ok held (v\<lparr>granted := granted v ++ m\<rparr>) fe"
proof -
  have "held (gref_head d) \<inter> dom (granted v) = {}" if "fe_cookies fe i = Some d" for i d
    using assms(1) that unfolding grants_ok_def cookies_idle_def by blast
  with assms(1,3) have "cookies_idle held (v\<lparr>granted := granted v ++ m\<rparr>) (fe_cookies fe)"
    unfolding grants_ok_def cookies_idle_def by (simp add: Int_Un_distrib)
  with assms(1,2) show ?thesis unfolding grants_ok_def by auto
qed

lemma ungrant_kept:
  assumes "grants_ok held v fe" and "g \<notin> ran (maptrack v)"
  shows "grants_ok held (v\<lparr>granted := (granted v)(g := None)\<rparr>) fe"
proof -
  have "held (gref_head c) \<subseteq> owned v \<and> held (gref_head c) \<inter> (dom (granted v) - {g}) = {}"
    if "fe_cookies fe i = Some c" for i c
    using assms(1) that unfolding grants_ok_def cookies_idle_def by blast
  then have "cookies_idle held (v\<lparr>granted := (granted v)(g := None)\<rparr>) (fe_cookies fe)"
    by (simp add: cookies_idle_def)
  moreover have "ran (maptrack v) \<subseteq> dom (granted v) - {g}" "dom (granted v) - {g} \<subseteq> owned v"
    using assms unfolding grants_ok_def by blast+
  ultimately show ?thesis using assms(1) by (simp add: grants_ok_def)
qed

subsection \<open>Getting a cookie\<close>

definition xen_ok :: "('c \<Rightarrow> gref set) \<Rightarrow> ('h \<Rightarrow> hyp_view) \<Rightarrow> ('h, 'c) xen_state \<Rightarrow> bool" where
  "xen_ok held V s \<longleftrightarrow> grants_ok held (V (xs_hyp s)) (xs_fe s)"

text \<open>What the search for a cookie leaves alone: everything but the references the kernel hands out.\<close>

definition only_owned :: "('h \<Rightarrow> hyp_view) \<Rightarrow> ('h, 'c) xen_state \<Rightarrow> ('h, 'c) xen_state \<Rightarrow> bool" where
  "only_owned V s s' \<longleftrightarrow> xs_words s' = xs_words s \<and> (\<exists>r. V (xs_hyp s') = (V (xs_hyp s))\<lparr>owned := r\<rparr>)
     \<and> set (gref_cookies_inuse (xs_fe s)) \<subseteq> set (gref_cookies_inuse (xs_fe s'))
     \<and> (\<forall>i \<in> dom (fe_cookies (xs_fe s)). fe_cookies (xs_fe s') i = fe_cookies (xs_fe s) i)"

lemma only_owned_refl: "only_owned V s s"
  by (auto simp: only_owned_def intro!: exI [of _ "owned (V (xs_hyp s))"])

lemma only_owned_trans: "only_owned V s t \<Longrightarrow> only_owned V t u \<Longrightarrow> only_owned V s u"
  unfolding only_owned_def by (intro conjI; (elim conjE exE)?; (simp; fail)?; (auto simp: dom_def; fail)?)

lemma only_owned_inuse:
  "only_owned V s t \<Longrightarrow> set (gref_cookies_inuse (xs_fe s)) \<subseteq> set (gref_cookies_inuse (xs_fe t))"
  by (simp add: only_owned_def)

lemma really_alloc_ok:
  assumes "xen_laws G held V" and "xen_ok held V s" and "really_alloc_grant_references G count s = (e, s')"
  shows "xen_ok held V s' \<and> only_owned V s s'"
proof (cases "kmalloc G (xs_hyp s)")
  case (Pair b h)
  then have vh: "V h = V (xs_hyp s)" by (rule law_kmalloc [OF assms(1)])
  show ?thesis
  proof (cases b)
    case False
    with Pair assms(2,3) vh show ?thesis
      by (auto simp: really_alloc_grant_references_def xen_ok_def only_owned_def intro!: exI [of _ "owned (V h)"])
  next
    case True
    obtain r h' where r: "gnttab_alloc_grant_references G count h = (r, h')" by fastforce
    show ?thesis
    proof (cases r)
      case None
      with r have "V h' = V h" using law_alloc_None [OF assms(1)] by blast
      with Pair True r None assms(2,3) vh show ?thesis
        by (auto simp: really_alloc_grant_references_def xen_ok_def only_owned_def intro!: exI [of _ "owned (V h)"])
    next
      case (Some c)
      note al = law_alloc [OF assms(1) r [unfolded Some]]
      let ?fe = "xs_fe s" and ?v = "V (xs_hyp s)"
      let ?ck = "fe_next_cookie ?fe"
      let ?cs = "(fe_cookies ?fe)(?ck \<mapsto> \<lparr>gref_head = c, ck_count = count\<rparr>)"
      have ok: "grants_ok held ?v ?fe" using assms(2) by (simp add: xen_ok_def)
      have fresh: "?ck \<notin> dom (fe_cookies ?fe)"
        using ok by (auto simp: grants_ok_def cookie_lists_ok_def)
      have s': "s' = s\<lparr>xs_hyp := h', xs_fe := ?fe\<lparr>fe_cookies := ?cs, fe_next_cookie := ?ck + 1,
            gref_cookies_free := gref_cookies_free ?fe @ [?ck]\<rparr>\<rparr>"
        using Pair True r Some assms(3) by (simp add: really_alloc_grant_references_def Let_def)
      have apart_new: "held c \<inter> held (gref_head d) = {}" if "fe_cookies ?fe i = Some d" for i d
        using ok al(2) that vh unfolding grants_ok_def cookies_idle_def by fastforce
      have "cookies_apart held ?cs"
        unfolding cookies_apart_def
      proof (intro allI impI)
        fix i j ci cj
        assume ij: "i \<noteq> j" and i: "?cs i = Some ci" and j: "?cs j = Some cj"
        consider "i = ?ck" "j \<noteq> ?ck" | "j = ?ck" "i \<noteq> ?ck" | "i \<noteq> ?ck" "j \<noteq> ?ck" using ij by blast
        then show "held (gref_head ci) \<inter> held (gref_head cj) = {}"
        proof cases
          case 1
          with i j apart_new [of j cj] show ?thesis by auto
        next
          case 2
          with i j apart_new [of i ci] show ?thesis by (auto simp: Int_commute)
        next
          case 3
          with i j ij ok show ?thesis unfolding grants_ok_def cookies_apart_def by auto
        qed
      qed
      moreover have "cookies_idle held (V h') ?cs"
      proof -
        have "held c \<inter> dom (granted ?v) = {}"
          using ok al(2) vh unfolding grants_ok_def by auto
        moreover have idle: "held (gref_head d) \<subseteq> owned ?v" "held (gref_head d) \<inter> dom (granted ?v) = {}"
          if "fe_cookies ?fe i = Some d" for i d
          using ok that unfolding grants_ok_def cookies_idle_def by blast+
        ultimately show ?thesis
          unfolding cookies_idle_def al(3) vh
          by (simp split: if_splits) (meson idle le_supI1)
      qed
      moreover have "cookies_full held ?cs (gref_cookies_free ?fe @ [?ck])"
        using ok al(1) fresh unfolding grants_ok_def cookies_full_def cookie_lists_ok_def by auto
      moreover have "cookie_lists_ok (xs_fe s')"
        using ok fresh unfolding s' grants_ok_def cookie_lists_ok_def by (auto simp: less_Suc_eq)
      ultimately have "xen_ok held V s'"
        using ok al(3) vh unfolding xen_ok_def s' grants_ok_def by auto
      moreover have "only_owned V s s'"
        using al(3) vh fresh unfolding s' only_owned_def by auto
      ultimately show ?thesis ..
    qed
  qed
qed

lemma cookie_alloc_loop_ok:
  assumes "cookie_alloc_loop G count try_again s = Some r" and "xen_laws G held V" and "xen_ok held V s"
  shows "xen_ok held V (snd r) \<and> only_owned V s (snd r)"
proof -
  have "xen_laws G held V \<longrightarrow> xen_ok held V s \<longrightarrow> xen_ok held V (snd r) \<and> only_owned V s (snd r)"
    using assms(1)
  proof (rule cookie_alloc_loop.raw_induct [rotated, where P = "\<lambda>G count try_again s r.
      xen_laws G held V \<longrightarrow> xen_ok held V s \<longrightarrow> xen_ok held V (snd r) \<and> only_owned V s (snd r)"], intro impI)
    fix loop G count try_again s r
    assume IH: "\<And>G count try_again s r. loop G count try_again s = Some r \<Longrightarrow>
        xen_laws G held V \<longrightarrow> xen_ok held V s \<longrightarrow> xen_ok held V (snd r) \<and> only_owned V s (snd r)"
      and step: "(if gref_cookies_free (xs_fe s) = [] \<or> try_again
          then (let (e, s') = really_alloc_grant_references G count s
                in if e = Some (Errno ENOMEM) then Some (e, s') else loop G count False s')
          else Some (None, s)) = Some r"
      and laws: "xen_laws G held V" and ok: "xen_ok held V s"
    obtain e s' where al: "really_alloc_grant_references G count s = (e, s')" by fastforce
    note kept = really_alloc_ok [OF laws ok al]
    show "xen_ok held V (snd r) \<and> only_owned V s (snd r)"
    proof (cases "(gref_cookies_free (xs_fe s) = [] \<or> try_again) \<and> e \<noteq> Some (Errno ENOMEM)")
      case False
      with step al have "r = (None, s) \<or> r = (e, s')" by (auto split: if_splits)
      with kept ok show ?thesis by (auto simp: only_owned_refl)
    next
      case True
      with step al have "loop G count False s' = Some r" by simp
      from IH [OF this] laws kept show ?thesis by (blast intro: only_owned_trans)
    qed
  qed
  with assms(2,3) show ?thesis by blast
qed

lemma take_cookie_ok:
  assumes "xen_ok held V s" and "ck \<in> set (gref_cookies_free (xs_fe s))"
  shows "xen_ok held V (s\<lparr>xs_fe := take_cookie ck (xs_fe s)\<rparr>)"
proof -
  let ?fe = "take_cookie ck (xs_fe s)"
  have "cookie_lists_ok (xs_fe s)" using assms(1) by (simp add: xen_ok_def grants_ok_def)
  with assms(2) have "cookie_lists_ok ?fe"
    unfolding cookie_lists_ok_def take_cookie_def by (auto simp: distinct_removeAll)
  with assms(1) show ?thesis
    by (auto simp: xen_ok_def grants_ok_def take_cookie_def cookies_full_def)
qed

text \<open>A cookie that was found is in use, holds at least what was asked for, and all it counts.\<close>

lemma gref_cookie_loop_ok:
  "gref_cookie_loop G count tries try_again s = Some (r, s') \<Longrightarrow> xen_laws G held V \<Longrightarrow> xen_ok held V s \<Longrightarrow>
     xen_ok held V s' \<and> only_owned V s s'
     \<and> (\<forall>ck. r = Some ck \<longrightarrow> ck \<in> set (gref_cookies_inuse (xs_fe s')) \<and> ck \<notin> set (gref_cookies_inuse (xs_fe s))
          \<and> (\<exists>c. fe_cookies (xs_fe s') ck = Some c \<and> count \<le> ck_count c \<and> card (held (gref_head c)) = unat (ck_count c)))"
proof (induction tries arbitrary: s try_again rule: less_induct)
  case (less tries)
  from less.prems(1) obtain e s1 where l: "cookie_alloc_loop G count try_again s = Some (e, s1)"
    by (subst (asm) gref_cookie_loop.simps) (auto simp: bind_eq_Some_conv)
  from cookie_alloc_loop_ok [OF l less.prems(2,3)] have s1: "xen_ok held V s1" "only_owned V s s1" by simp_all
  note step = less.prems(1) [unfolded gref_cookie_loop.simps [of G count tries] l, simplified]
  show ?case
  proof (cases "e = None")
    case False
    with step s1 show ?thesis by simp
  next
    case True
    show ?thesis
    proof (cases "find (cookie_fits count (xs_fe s1)) (gref_cookies_free (xs_fe s1))")
      case None
      show ?thesis
      proof (cases tries)
        case 0
        with step True None s1 show ?thesis by simp
      next
        case (Suc n)
        with step True None have "gref_cookie_loop G count n True s1 = Some (r, s')" by simp
        from less.IH [OF _ this less.prems(2) s1(1)] Suc s1(2) only_owned_inuse [OF s1(2)] show ?thesis
          by (blast intro: only_owned_trans)
      qed
    next
      case (Some ck)
      with step True have r: "r = Some ck" and s': "s' = s1\<lparr>xs_fe := take_cookie ck (xs_fe s1)\<rparr>" by simp_all
      from Some have free: "ck \<in> set (gref_cookies_free (xs_fe s1))" and "cookie_fits count (xs_fe s1) ck"
        by (auto simp: find_Some_iff)
      then obtain c where c: "fe_cookies (xs_fe s1) ck = Some c" "count \<le> ck_count c"
        by (auto simp: cookie_fits_def split: option.splits)
      have "card (held (gref_head c)) = unat (ck_count c)"
        using s1(1) free c(1) unfolding xen_ok_def grants_ok_def cookies_full_def by blast
      moreover have "ck \<notin> set (gref_cookies_inuse (xs_fe s1))"
        using s1(1) free by (auto simp: xen_ok_def grants_ok_def cookie_lists_ok_def)
      moreover have "only_owned V s1 s'"
        unfolding s' only_owned_def take_cookie_def by (auto intro!: exI [of _ "owned (V (xs_hyp s1))"])
      ultimately show ?thesis
        using take_cookie_ok [OF s1(1) free] s1(2) c unfolding r s'
        by (auto intro: only_owned_trans simp: take_cookie_def only_owned_def [of V s])
    qed
  qed
qed

lemma get_references_ok:
  assumes "omx_xen_gnttab_alloc_grant_references G count s = Some (r, s')" and "xen_laws G held V" and "xen_ok held V s"
  shows "xen_ok held V s'" "only_owned V s s'"
    "r = Inr ck \<Longrightarrow> ck \<in> set (gref_cookies_inuse (xs_fe s')) \<and> ck \<notin> set (gref_cookies_inuse (xs_fe s))
       \<and> (\<exists>c. fe_cookies (xs_fe s') ck = Some c \<and> count \<le> ck_count c \<and> card (held (gref_head c)) = unat (ck_count c))"
  using assms gref_cookie_loop_ok [of G count XEN_GRANT_TIMEOUT False s _ s' held V]
  by (auto simp: omx_xen_gnttab_alloc_grant_references_def omx_xenfront_gref_get_cookie_def bind_eq_Some_conv
      split: option.splits)

text \<open>
  When the kernel has no references left and the free list is empty, the search does not return.
\<close>

lemma cookie_alloc_loop_hangs:
  assumes "cookie_alloc_loop G count try_again s = Some r" and "P (xs_hyp s)" and "gref_cookies_free (xs_fe s) = []"
    and "\<And>h b h1. P h \<Longrightarrow> kmalloc G h = (b, h1) \<Longrightarrow> b \<and> fst (gnttab_alloc_grant_references G count h1) = None
           \<and> P (snd (gnttab_alloc_grant_references G count h1))"
  shows False
proof -
  have "P (xs_hyp s) \<longrightarrow> gref_cookies_free (xs_fe s) = [] \<longrightarrow>
      (\<forall>h b h1. P h \<longrightarrow> kmalloc G h = (b, h1) \<longrightarrow> b \<and> fst (gnttab_alloc_grant_references G count h1) = None
           \<and> P (snd (gnttab_alloc_grant_references G count h1))) \<longrightarrow> False"
    using assms(1)
  proof (rule cookie_alloc_loop.raw_induct [rotated, where P = "\<lambda>G count try_again s r.
      P (xs_hyp s) \<longrightarrow> gref_cookies_free (xs_fe s) = [] \<longrightarrow>
      (\<forall>h b h1. P h \<longrightarrow> kmalloc G h = (b, h1) \<longrightarrow> b \<and> fst (gnttab_alloc_grant_references G count h1) = None
           \<and> P (snd (gnttab_alloc_grant_references G count h1))) \<longrightarrow> False"], intro impI)
    fix loop G count try_again s r
    assume IH: "\<And>G count try_again s r. loop G count try_again s = Some r \<Longrightarrow>
        P (xs_hyp s) \<longrightarrow> gref_cookies_free (xs_fe s) = [] \<longrightarrow>
        (\<forall>h b h1. P h \<longrightarrow> kmalloc G h = (b, h1) \<longrightarrow> b \<and> fst (gnttab_alloc_grant_references G count h1) = None
           \<and> P (snd (gnttab_alloc_grant_references G count h1))) \<longrightarrow> False"
      and step: "(if gref_cookies_free (xs_fe s) = [] \<or> try_again
          then (let (e, s') = really_alloc_grant_references G count s
                in if e = Some (Errno ENOMEM) then Some (e, s') else loop G count False s')
          else Some (None, s)) = Some r"
      and P: "P (xs_hyp s)" and empty: "gref_cookies_free (xs_fe s) = []"
      and none: "\<forall>h b h1. P h \<longrightarrow> kmalloc G h = (b, h1) \<longrightarrow> b \<and> fst (gnttab_alloc_grant_references G count h1) = None
           \<and> P (snd (gnttab_alloc_grant_references G count h1))"
    obtain b h1 where k: "kmalloc G (xs_hyp s) = (b, h1)" by fastforce
    obtain c h2 where a: "gnttab_alloc_grant_references G count h1 = (c, h2)" by fastforce
    from none P k a have "b" "c = None" "P h2" by fastforce+
    with k a have "really_alloc_grant_references G count s = (Some ENOSPC, s\<lparr>xs_hyp := h2\<rparr>)"
      by (simp add: really_alloc_grant_references_def)
    with step empty have "loop G count False (s\<lparr>xs_hyp := h2\<rparr>) = Some r" by simp
    moreover have "P (xs_hyp (s\<lparr>xs_hyp := h2\<rparr>))" "gref_cookies_free (xs_fe (s\<lparr>xs_hyp := h2\<rparr>)) = []"
      using \<open>P h2\<close> empty by simp_all
    ultimately show False using IH none by blast
  qed
  with assms(2-4) show False by blast
qed

end
