(* ===== verification/Xen_Granting.thy ===== *)
theory Xen_Granting
  imports Xen_Cookies
begin

text \<open>
  What granting a region does: each segment ends with references of its own that grant exactly its
  pages, in order, and with lists of them in fresh pages that are granted too. Nothing that was
  granted before changes.
\<close>

subsection \<open>Taking references and granting with them\<close>

text \<open>\<open>took ck P fs\<close>: the references \<open>P\<close> left the cookie, and now grant the frames \<open>fs\<close>.\<close>

definition took ::
  "('c \<Rightarrow> gref set) \<Rightarrow> ('h \<Rightarrow> hyp_view) \<Rightarrow> nat \<Rightarrow> gref list \<Rightarrow> mfn list \<Rightarrow> ('h, 'c) xen_state \<Rightarrow> ('h, 'c) xen_state \<Rightarrow> bool"
where
  "took held V ck P fs s s' \<longleftrightarrow>
     length P = length fs \<and> distinct P \<and> set P \<inter> dom (granted (V (xs_hyp s))) = {} \<and> set P \<subseteq> owned (V (xs_hyp s))
     \<and> V (xs_hyp s') = (V (xs_hyp s))\<lparr>granted := granted (V (xs_hyp s)) ++ map_of (zip P fs)\<rparr>
     \<and> (\<exists>c c'. fe_cookies (xs_fe s) ck = Some c \<and> set P \<subseteq> held (gref_head c)
          \<and> held (gref_head c') = held (gref_head c) - set P \<and> ck_count c' = ck_count c
          \<and> xs_fe s' = (xs_fe s)\<lparr>fe_cookies := (fe_cookies (xs_fe s))(ck \<mapsto> c')\<rparr>)"

lemma took_Nil:
  assumes "fe_cookies (xs_fe s) ck = Some c"
  shows "took held V ck [] [] s (s\<lparr>xs_words := w\<rparr>)"
proof -
  have "(fe_cookies (xs_fe s))(ck \<mapsto> c) = fe_cookies (xs_fe s)" using assms by (rule fun_upd_idem)
  with assms show ?thesis by (auto simp: took_def intro!: exI [of _ c])
qed

lemma took_append:
  assumes "took held V ck P fs s t" and "took held V ck Q gs t u"
  shows "took held V ck (P @ Q) (fs @ gs) s u"
proof -
  from assms(1) obtain c c' where 1: "length P = length fs" "distinct P" "set P \<inter> dom (granted (V (xs_hyp s))) = {}"
      "set P \<subseteq> owned (V (xs_hyp s))"
      "V (xs_hyp t) = (V (xs_hyp s))\<lparr>granted := granted (V (xs_hyp s)) ++ map_of (zip P fs)\<rparr>"
      "fe_cookies (xs_fe s) ck = Some c" "set P \<subseteq> held (gref_head c)"
      "held (gref_head c') = held (gref_head c) - set P" "ck_count c' = ck_count c"
      "xs_fe t = (xs_fe s)\<lparr>fe_cookies := (fe_cookies (xs_fe s))(ck \<mapsto> c')\<rparr>"
    unfolding took_def by blast
  from assms(2) obtain d d' where 2: "length Q = length gs" "distinct Q" "set Q \<inter> dom (granted (V (xs_hyp t))) = {}"
      "set Q \<subseteq> owned (V (xs_hyp t))"
      "V (xs_hyp u) = (V (xs_hyp t))\<lparr>granted := granted (V (xs_hyp t)) ++ map_of (zip Q gs)\<rparr>"
      "fe_cookies (xs_fe t) ck = Some d" "set Q \<subseteq> held (gref_head d)"
      "held (gref_head d') = held (gref_head d) - set Q" "ck_count d' = ck_count d"
      "xs_fe u = (xs_fe t)\<lparr>fe_cookies := (fe_cookies (xs_fe t))(ck \<mapsto> d')\<rparr>"
    unfolding took_def by blast
  have d: "d = c'" using 1(10) 2(6) by simp
  have dis: "set P \<inter> set Q = {}" using 1(8) 2(7) d by blast
  have "map_of (zip P fs) ++ map_of (zip Q gs) = map_of (zip Q gs) ++ map_of (zip P fs)"
    using 1(1) 2(1) dis by (intro map_add_comm) simp
  also have "\<dots> = map_of (zip (P @ Q) (fs @ gs))" using 1(1) by simp
  finally have m: "f ++ map_of (zip P fs) ++ map_of (zip Q gs) = f ++ map_of (zip (P @ Q) (fs @ gs))" for f
    by (simp only: map_add_assoc [symmetric])
  have vu: "V (xs_hyp u) = (V (xs_hyp s))\<lparr>granted := granted (V (xs_hyp s)) ++ map_of (zip (P @ Q) (fs @ gs))\<rparr>"
    unfolding 2(5) 1(5) m [symmetric] by simp
  have "set (P @ Q) \<subseteq> held (gref_head c)" "held (gref_head d') = held (gref_head c) - set (P @ Q)"
    using 1(7,8) 2(7,8) d by auto
  moreover have "xs_fe u = (xs_fe s)\<lparr>fe_cookies := (fe_cookies (xs_fe s))(ck \<mapsto> d')\<rparr>"
    using 1(10) 2(10) by simp
  ultimately have "\<exists>c c'. fe_cookies (xs_fe s) ck = Some c \<and> set (P @ Q) \<subseteq> held (gref_head c)
          \<and> held (gref_head c') = held (gref_head c) - set (P @ Q) \<and> ck_count c' = ck_count c
          \<and> xs_fe u = (xs_fe s)\<lparr>fe_cookies := (fe_cookies (xs_fe s))(ck \<mapsto> c')\<rparr>"
    using 1(6,9) 2(9) d by (metis (no_types))
  moreover have "set (P @ Q) \<inter> dom (granted (V (xs_hyp s))) = {}" "set (P @ Q) \<subseteq> owned (V (xs_hyp s))"
    using 1(3,4,5) 2(3,4) by auto
  ultimately show ?thesis
    unfolding took_def using 1(1,2) 2(1,2) dis vu by simp
qed

lemma took_ok:
  assumes "took held V ck P fs s s'" and "xen_ok held V s" and "ck \<in> set (gref_cookies_inuse (xs_fe s))"
  shows "xen_ok held V s'" "ck \<in> set (gref_cookies_inuse (xs_fe s'))"
proof -
  from assms(1) obtain c c' where c: "fe_cookies (xs_fe s) ck = Some c" "set P \<subseteq> held (gref_head c)"
      "held (gref_head c') = held (gref_head c) - set P"
      "xs_fe s' = (xs_fe s)\<lparr>fe_cookies := (fe_cookies (xs_fe s))(ck \<mapsto> c')\<rparr>"
    and len: "length P = length fs"
    and v: "V (xs_hyp s') = (V (xs_hyp s))\<lparr>granted := granted (V (xs_hyp s)) ++ map_of (zip P fs)\<rparr>"
    and own: "set P \<subseteq> owned (V (xs_hyp s))"
    unfolding took_def by blast
  have ok: "grants_ok held (V (xs_hyp s)) (xs_fe s)" using assms(2) by (simp add: xen_ok_def)
  have "grants_ok held (V (xs_hyp s)) (xs_fe s')"
    unfolding c(4) by (rule cookie_shrinks [OF ok c(1) assms(3)]) (simp add: c(3))
  moreover have "held (gref_head d) \<inter> dom (map_of (zip P fs)) = {}" if "fe_cookies (xs_fe s') i = Some d" for i d
  proof (cases "i = ck")
    case True
    with that c(3,4) len show ?thesis by auto
  next
    case False
    with that c(4) have "fe_cookies (xs_fe s) i = Some d" by simp
    with False c(1) ok have "held (gref_head c) \<inter> held (gref_head d) = {}"
      unfolding grants_ok_def cookies_apart_def by blast
    with c(2) len show ?thesis by auto
  qed
  ultimately show "xen_ok held V s'"
    unfolding xen_ok_def v using own len by (intro grants_kept) simp_all
  show "ck \<in> set (gref_cookies_inuse (xs_fe s'))" using assms(3) c(4) by simp
qed

lemma claim_cases:
  assumes "omx_gnttab_claim_grant_reference G ck s = Some (r, s1)" and "xen_laws G held V"
  obtains (none) c where "r = None" "s1 = s" "fe_cookies (xs_fe s) ck = Some c" "held (gref_head c) = {}"
    | (got) g c c' where "r = Some g" "s1 = set_cookie ck c' s" "fe_cookies (xs_fe s) ck = Some c" "g \<in> held (gref_head c)"
        "held (gref_head c') = held (gref_head c) - {g}" "ck_count c' = ck_count c"
proof -
  from assms(1) obtain c where c: "fe_cookies (xs_fe s) ck = Some c"
    and e: "(r, s1) = (case gnttab_claim_grant_reference G (gref_head c) of
             None \<Rightarrow> (None, s) | Some (g, h) \<Rightarrow> (Some g, set_cookie ck (c\<lparr>gref_head := h\<rparr>) s))"
    by (auto simp: omx_gnttab_claim_grant_reference_def bind_eq_Some_conv)
  show thesis
  proof (cases "gnttab_claim_grant_reference G (gref_head c)")
    case None
    with e c law_claim_None [OF assms(2) None] show thesis by (intro none) auto
  next
    case (Some p)
    obtain g h where p: "p = (g, h)" by fastforce
    from law_claim [OF assms(2) Some [unfolded p]] e c Some p show thesis
      by (intro got [of g "c\<lparr>gref_head := h\<rparr>" c]) auto
  qed
qed

lemma claim_grant_took:
  assumes "omx_gnttab_claim_grant_reference G ck s = Some (Some g, s1)" and "xen_laws G held V" and "xen_ok held V s"
    and "xs_hyp t = xs_hyp s1" and "xs_fe t = xs_fe s1"
  shows "took held V ck [g] [f] s (on_hyp (gnttab_grant_foreign_access_ref G g f) t)"
  using assms(1,2)
proof (cases rule: claim_cases)
  case (got g' c c')
  then have g: "g \<in> owned (V (xs_hyp s))" "g \<notin> dom (granted (V (xs_hyp s)))"
    using assms(3) unfolding xen_ok_def grants_ok_def cookies_idle_def by (simp, blast)+
  have "V (xs_hyp (on_hyp (gnttab_grant_foreign_access_ref G g f) t))
      = (V (xs_hyp s))\<lparr>granted := granted (V (xs_hyp s)) ++ map_of (zip [g] [f])\<rparr>"
    using got(2) assms(4) by (simp add: on_hyp_def law_grant [OF assms(2)] set_cookie_def)
  with got g assms(5) show ?thesis
    unfolding took_def by (auto simp: on_hyp_def set_cookie_def)
qed simp

subsection \<open>The pages of the lists and of the segment\<close>

lemma upt_Suc_add: "[k..<Suc (k + n)] = k # [Suc k..<Suc (k + n)]"
  by (simp add: upt_rec [of k])

lemma grant_parts_took:
  "grant_parts G ck first k n all_gref s = Some (e, all_gref', s') \<Longrightarrow> xen_laws G held V \<Longrightarrow> xen_ok held V s \<Longrightarrow>
     ck \<in> set (gref_cookies_inuse (xs_fe s)) \<Longrightarrow>
     \<exists>P. took held V ck P (map (\<lambda>i. pfn_to_mfn G (first + i)) [k..<k + length P]) s s'
       \<and> xs_words s' = xs_words s \<and> length all_gref' = length all_gref \<and> (\<forall>i < k. all_gref' ! i = all_gref ! i)
       \<and> (e = None \<longrightarrow> length P = n \<and> k + n \<le> max k (length all_gref) \<and> (\<forall>i < n. all_gref' ! (k + i) = P ! i))
       \<and> (e \<noteq> None \<longrightarrow> e = Some ENOSPC \<and> length P < n \<and> (\<exists>c. fe_cookies (xs_fe s') ck = Some c \<and> held (gref_head c) = {}))"
proof (induction n arbitrary: k all_gref s)
  case 0
  from inuse_cookie [of held "V (xs_hyp s)" "xs_fe s" ck] "0.prems"(3,4)
  obtain c where "fe_cookies (xs_fe s) ck = Some c" by (auto simp: xen_ok_def)
  from took_Nil [OF this, of held V "xs_words s"] "0.prems"(1) show ?case
    by (intro exI [of _ "[]"]) auto
next
  case (Suc n)
  from Suc.prems(1) obtain r s1 where r: "omx_gnttab_claim_grant_reference G ck s = Some (r, s1)"
    by (auto simp: bind_eq_Some_conv)
  show ?case
    using r Suc.prems(2)
  proof (cases rule: claim_cases)
    case (none c)
    with Suc.prems(1) r have "e = Some ENOSPC" "all_gref' = all_gref" "s' = s" by simp_all
    with none took_Nil [OF none(3), of held V "xs_words s"] show ?thesis
      by (intro exI [of _ "[]"]) auto
  next
    case (got g c c')
    let ?s2 = "on_hyp (gnttab_grant_foreign_access_ref G g (pfn_to_mfn G (first + k))) s1"
    have rest: "grant_parts G ck first (k + 1) n (all_gref[k := g]) ?s2 = Some (e, all_gref', s')"
      and k: "k < length all_gref"
      using Suc.prems(1) r got(1) by (auto simp: bind_eq_Some_conv)
    have t: "took held V ck [g] [pfn_to_mfn G (first + k)] s ?s2"
      using claim_grant_took [OF r [unfolded got(1)] Suc.prems(2,3)] by simp
    from Suc.IH [OF rest Suc.prems(2) took_ok [OF t Suc.prems(3,4)]] obtain P where
      P: "took held V ck P (map (\<lambda>i. pfn_to_mfn G (first + i)) [k + 1..<k + 1 + length P]) ?s2 s'"
        "xs_words s' = xs_words ?s2" "length all_gref' = length all_gref" "\<forall>i < k + 1. all_gref' ! i = all_gref[k := g] ! i"
        "e = None \<Longrightarrow> length P = n \<and> k + 1 + n \<le> max (k + 1) (length all_gref) \<and> (\<forall>i < n. all_gref' ! (k + 1 + i) = P ! i)"
        "e \<noteq> None \<Longrightarrow> e = Some ENOSPC \<and> length P < n \<and> (\<exists>c. fe_cookies (xs_fe s') ck = Some c \<and> held (gref_head c) = {})"
      by auto
    have "took held V ck (g # P) (map (\<lambda>i. pfn_to_mfn G (first + i)) [k..<k + length (g # P)]) s s'"
      using took_append [OF t P(1)] by (simp add: upt_Suc_add del: upt_Suc)
    moreover have "all_gref' ! k = g" "\<forall>i < k. all_gref' ! i = all_gref ! i" using P(4) k by auto
    moreover have "all_gref' ! (k + i) = (g # P) ! i" if "e = None" "i < Suc n" for i
      using P(5) [OF that(1)] that(2) \<open>all_gref' ! k = g\<close> by (cases i) auto
    moreover have "xs_words s' = xs_words s" using P(2) got(2) by (simp add: on_hyp_def set_cookie_def)
    ultimately show ?thesis
      using P(3,5,6) k by (intro exI [of _ "g # P"]) auto
  qed
qed

definition gref_loc :: "('h, 'c) xen_ops \<Rightarrow> nat \<Rightarrow> nat \<Rightarrow> nat \<times> nat" where
  "gref_loc G first j = (pfn_to_mfn G (first + j div NR_GREFS), j mod NR_GREFS)"

lemma gref_loc_inj: "inj (pfn_to_mfn G) \<Longrightarrow> gref_loc G first j = gref_loc G first i \<longleftrightarrow> j = i"
  unfolding gref_loc_def by (metis add_left_cancel div_mult_mod_eq injD prod.inject)

lemma grant_pages_took:
  "grant_pages G ck first parts j pgs s = Some (e, s') \<Longrightarrow> xen_laws G held V \<Longrightarrow> xen_ok held V s \<Longrightarrow>
     ck \<in> set (gref_cookies_inuse (xs_fe s)) \<Longrightarrow>
     \<exists>L. took held V ck L (map (pfn_to_mfn G) (take (length L) pgs)) s s'
       \<and> (\<forall>x. x \<notin> gref_loc G first ` {j..<j + length pgs} \<longrightarrow> xs_words s' x = xs_words s x)
       \<and> (\<forall>i. j \<le> i \<longrightarrow> i < j + length pgs \<longrightarrow> e = None \<longrightarrow> i div NR_GREFS < parts)
       \<and> (e = None \<longrightarrow> length L = length pgs \<and> (\<forall>i < length pgs. xs_words s' (gref_loc G first (j + i)) = L ! i))
       \<and> (e \<noteq> None \<longrightarrow> e = Some ENOSPC \<and> length L < length pgs
            \<and> (\<exists>c. fe_cookies (xs_fe s') ck = Some c \<and> held (gref_head c) = {}))"
proof (induction pgs arbitrary: j s)
  case Nil
  from inuse_cookie [of held "V (xs_hyp s)" "xs_fe s" ck] Nil.prems(3,4)
  obtain c where "fe_cookies (xs_fe s) ck = Some c" by (auto simp: xen_ok_def)
  from took_Nil [OF this, of held V "xs_words s"] Nil.prems(1) show ?case
    by (intro exI [of _ "[]"]) auto
next
  case (Cons page rest)
  from Cons.prems(1) obtain r s1 where r: "omx_gnttab_claim_grant_reference G ck s = Some (r, s1)"
    and j: "j div NR_GREFS < parts"
    by (auto simp: bind_eq_Some_conv)
  show ?case
    using r Cons.prems(2)
  proof (cases rule: claim_cases)
    case (none c)
    with Cons.prems(1) r j have "e = Some ENOSPC" "s' = set_gref_list G first j (- 28) s" by simp_all
    with none took_Nil [OF none(3), of held V "(xs_words s)(gref_loc G first j := - 28)"] show ?thesis
      by (intro exI [of _ "[]"]) (auto simp: set_gref_list_def gref_loc_def)
  next
    case (got g c c')
    let ?s2 = "on_hyp (gnttab_grant_foreign_access_ref G g (pfn_to_mfn G page)) (set_gref_list G first j g s1)"
    have rest: "grant_pages G ck first parts (j + 1) rest ?s2 = Some (e, s')"
      using Cons.prems(1) r got(1) j by simp
    have t: "took held V ck [g] [pfn_to_mfn G page] s ?s2"
      using claim_grant_took [OF r [unfolded got(1)] Cons.prems(2,3)] by (simp add: set_gref_list_def)
    have w2: "xs_words ?s2 = (xs_words s)(gref_loc G first j := g)"
      using got(2) by (simp add: on_hyp_def set_gref_list_def set_cookie_def gref_loc_def)
    from Cons.IH [OF rest Cons.prems(2) took_ok [OF t Cons.prems(3,4)]] obtain L where
      L: "took held V ck L (map (pfn_to_mfn G) (take (length L) rest)) ?s2 s'"
        "\<forall>x. x \<notin> gref_loc G first ` {j + 1..<j + 1 + length rest} \<longrightarrow> xs_words s' x = xs_words ?s2 x"
        "\<forall>i. j + 1 \<le> i \<longrightarrow> i < j + 1 + length rest \<longrightarrow> e = None \<longrightarrow> i div NR_GREFS < parts"
        "e = None \<Longrightarrow> length L = length rest \<and> (\<forall>i < length rest. xs_words s' (gref_loc G first (j + 1 + i)) = L ! i)"
        "e \<noteq> None \<Longrightarrow> e = Some ENOSPC \<and> length L < length rest
            \<and> (\<exists>c. fe_cookies (xs_fe s') ck = Some c \<and> held (gref_head c) = {})"
      by auto
    have "took held V ck (g # L) (map (pfn_to_mfn G) (take (length (g # L)) (page # rest))) s s'"
      using took_append [OF t L(1)] by simp
    moreover have at: "xs_words s' (gref_loc G first j) = g"
    proof -
      have "gref_loc G first j \<notin> gref_loc G first ` {j + 1..<j + 1 + length rest}"
        using gref_loc_inj [OF law_inj [OF Cons.prems(2)]] by auto
      with L(2) have "xs_words s' (gref_loc G first j) = xs_words ?s2 (gref_loc G first j)" by blast
      with w2 show ?thesis by simp
    qed
    moreover have "xs_words s' x = xs_words s x" if "x \<notin> gref_loc G first ` {j..<j + length (page # rest)}" for x
    proof -
      have "x \<noteq> gref_loc G first j" "x \<notin> gref_loc G first ` {j + 1..<j + 1 + length rest}" using that by auto
      with L(2) have "xs_words s' x = xs_words ?s2 x" by blast
      with w2 \<open>x \<noteq> gref_loc G first j\<close> show ?thesis by simp
    qed
    moreover have "i div NR_GREFS < parts" if "j \<le> i" "i < j + length (page # rest)" "e = None" for i
      using L(3) j that by (cases "i = j") auto
    moreover have "xs_words s' (gref_loc G first (j + i)) = (g # L) ! i" if "e = None" "i < length (page # rest)" for i
      using L(4) [OF that(1)] that(2) at by (cases i) auto
    ultimately show ?thesis
      using L(4,5) by (intro exI [of _ "g # L"]) simp
  qed
qed

subsection \<open>A granted segment\<close>

definition seg_granted ::
  "('h, 'c) xen_ops \<Rightarrow> hyp_view \<Rightarrow> (nat \<times> nat \<Rightarrow> u32) \<Rightarrow> region_segment \<Rightarrow> seg_grant \<Rightarrow> gref list \<Rightarrow> gref list \<Rightarrow> bool"
where
  "seg_granted G v w seg sgr P L \<longleftrightarrow>
     length (sgr_all_gref sgr) = OMX_XEN_GRANT_PAGES_MAX
     \<and> unat (sgr_nr_parts sgr) \<le> OMX_XEN_GRANT_PAGES_MAX \<and> P = take (unat (sgr_nr_parts sgr)) (sgr_all_gref sgr)
     \<and> length L = length (pages seg) \<and> length (pages seg) \<le> unat (sgr_nr_parts sgr) * NR_GREFS
     \<and> {sgr_gref_list sgr..<sgr_gref_list sgr + unat (sgr_nr_parts sgr)} \<subseteq> guest_pages v
     \<and> (\<forall>k < length P. granted v (P ! k) = Some (pfn_to_mfn G (sgr_gref_list sgr + k)))
     \<and> (\<forall>j < length L. granted v (L ! j) = Some (pfn_to_mfn G (pages seg ! j)) \<and> w (gref_loc G (sgr_gref_list sgr) j) = L ! j)"

definition seg_cookie :: "('c \<Rightarrow> gref set) \<Rightarrow> 'c xenfront \<Rightarrow> seg_grant \<Rightarrow> gref list \<Rightarrow> bool" where
  "seg_cookie held fe sgr R \<longleftrightarrow> sgr_cookie sgr \<in> set (gref_cookies_inuse fe)
     \<and> (\<exists>c. fe_cookies fe (sgr_cookie sgr) = Some c \<and> card (held (gref_head c)) + length R = unat (ck_count c))"

text \<open>What later work of the frontend leaves alone.\<close>

definition extends :: "('h, 'c) xen_ops \<Rightarrow> ('h \<Rightarrow> hyp_view) \<Rightarrow> ('h, 'c) xen_state \<Rightarrow> ('h, 'c) xen_state \<Rightarrow> bool" where
  "extends G V s s' \<longleftrightarrow>
     granted (V (xs_hyp s)) \<subseteq>\<^sub>m granted (V (xs_hyp s')) \<and> guest_pages (V (xs_hyp s)) \<subseteq> guest_pages (V (xs_hyp s'))
     \<and> maptrack (V (xs_hyp s')) = maptrack (V (xs_hyp s)) \<and> p2m (V (xs_hyp s')) = p2m (V (xs_hyp s))
     \<and> driver_pages (V (xs_hyp s')) = driver_pages (V (xs_hyp s))
     \<and> (\<forall>p \<in> guest_pages (V (xs_hyp s)). \<forall>i. xs_words s' (pfn_to_mfn G p, i) = xs_words s (pfn_to_mfn G p, i))
     \<and> (\<forall>ck \<in> set (gref_cookies_inuse (xs_fe s)). ck \<in> set (gref_cookies_inuse (xs_fe s'))
          \<and> fe_cookies (xs_fe s') ck = fe_cookies (xs_fe s) ck)"

lemma grants_extend_refl: "extends G V s s"
  by (simp add: extends_def)

lemma grants_extend_trans: "extends G V s t \<Longrightarrow> extends G V t u \<Longrightarrow> extends G V s u"
  unfolding extends_def by (auto intro: map_le_trans)

lemma gref_loc_page: "j < n * NR_GREFS \<Longrightarrow> \<exists>p \<in> {first..<first + n}. fst (gref_loc G first j) = pfn_to_mfn G p"
  by (auto simp: gref_loc_def less_mult_imp_div_less)

lemma map_add_zip_nth:
  "distinct xs \<Longrightarrow> length xs = length ys \<Longrightarrow> i < length xs \<Longrightarrow> (f ++ map_of (zip xs ys)) (xs ! i) = Some (ys ! i)"
  by (simp add: map_add_find_right map_of_zip_nth)

lemma map_le_Some: "m \<subseteq>\<^sub>m m' \<Longrightarrow> m x = Some y \<Longrightarrow> m' x = Some y"
  by (metis domI map_le_def)

lemma seg_granted_extends:
  assumes "seg_granted G (V (xs_hyp s)) (xs_words s) seg sgr P L" and "extends G V s s'"
  shows "seg_granted G (V (xs_hyp s')) (xs_words s') seg sgr P L"
proof -
  let ?first = "sgr_gref_list sgr" and ?n = "unat (sgr_nr_parts sgr)"
  have le: "granted (V (xs_hyp s)) \<subseteq>\<^sub>m granted (V (xs_hyp s'))"
    and pg: "guest_pages (V (xs_hyp s)) \<subseteq> guest_pages (V (xs_hyp s'))"
    and w: "\<And>p i. p \<in> guest_pages (V (xs_hyp s)) \<Longrightarrow> xs_words s' (pfn_to_mfn G p, i) = xs_words s (pfn_to_mfn G p, i)"
    using assms(2) by (auto simp: extends_def)
  have "xs_words s' (gref_loc G ?first j) = xs_words s (gref_loc G ?first j)" if "j < length L" for j
  proof -
    have "j < ?n * NR_GREFS" using assms(1) that by (simp add: seg_granted_def)
    from gref_loc_page [OF this, of ?first G] obtain p where
      "p \<in> {?first..<?first + ?n}" "fst (gref_loc G ?first j) = pfn_to_mfn G p" by blast
    moreover from this assms(1) have "p \<in> guest_pages (V (xs_hyp s))" by (auto simp: seg_granted_def)
    ultimately show ?thesis using w [of p "snd (gref_loc G ?first j)"] by (metis prod.collapse)
  qed
  with assms(1) pg show ?thesis
    unfolding seg_granted_def by (auto intro: map_le_Some [OF le])
qed

lemma seg_cookie_extends:
  "seg_cookie held (xs_fe s) sgr R \<Longrightarrow> extends G V s s' \<Longrightarrow> seg_cookie held (xs_fe s') sgr R"
  by (auto simp: seg_cookie_def extends_def)

lemma took_extends:
  assumes "took held V ck R fs s s'" and "ck \<notin> set (gref_cookies_inuse fe)" and "set (gref_cookies_inuse fe) \<subseteq> set (gref_cookies_inuse (xs_fe s))"
  shows "granted (V (xs_hyp s)) \<subseteq>\<^sub>m granted (V (xs_hyp s'))"
    "\<forall>i \<in> set (gref_cookies_inuse fe). i \<in> set (gref_cookies_inuse (xs_fe s')) \<and> fe_cookies (xs_fe s') i = fe_cookies (xs_fe s) i"
proof -
  have "granted (V (xs_hyp s')) = granted (V (xs_hyp s)) ++ map_of (zip R fs)"
    and "set R \<inter> dom (granted (V (xs_hyp s))) = {}" "length R = length fs"
    using assms(1) by (auto simp: took_def)
  then show "granted (V (xs_hyp s)) \<subseteq>\<^sub>m granted (V (xs_hyp s'))"
    by (simp add: map_le_iff_map_add_commute map_add_comm Int_commute)
  show "\<forall>i \<in> set (gref_cookies_inuse fe). i \<in> set (gref_cookies_inuse (xs_fe s')) \<and> fe_cookies (xs_fe s') i = fe_cookies (xs_fe s) i"
    using assms by (auto simp: took_def)
qed

lemma took_counts:
  assumes "took held V ck R fs s s'" and "xen_laws G held V" and "fe_cookies (xs_fe s) ck = Some c"
  shows "\<exists>c'. fe_cookies (xs_fe s') ck = Some c' \<and> ck_count c' = ck_count c
    \<and> card (held (gref_head c')) + length R = card (held (gref_head c))"
proof -
  from assms(1,3) obtain c' where c': "set R \<subseteq> held (gref_head c)" "held (gref_head c') = held (gref_head c) - set R"
      "ck_count c' = ck_count c" "fe_cookies (xs_fe s') ck = Some c'" and "distinct R"
    by (auto simp: took_def)
  from \<open>distinct R\<close> have "card (set R) = length R" by (rule distinct_card)
  moreover have "card (set R) \<le> card (held (gref_head c))"
    by (rule card_mono [OF law_finite [OF assms(2)] c'(1)])
  ultimately show ?thesis
    using c' by (simp add: card_Diff_subset)
qed

text \<open>The number of references asked for covers the pages and the lists.\<close>

lemma wanted_count:
  fixes parts :: u8
  assumes "n < 2 ^ 31"
  shows "n + unat parts \<le> unat (of_nat n + ucast parts * ucast parts :: u32)"
proof -
  have p: "unat parts < 256" using unsigned_less [of parts] by simp
  then have "unat (ucast parts :: u32) = unat parts" by (simp add: unsigned_ucast_eq take_bit_nat_eq_self)
  from p have "unat parts * unat parts \<le> 255 * 255" by (intro mult_le_mono) simp_all
  with assms have "unat (of_nat n + ucast parts * ucast parts :: u32) = n + unat parts * unat parts"
    using \<open>unat (ucast parts :: u32) = unat parts\<close>
    by (simp add: unat_word_ariths unat_of_nat take_bit_nat_eq_self)
  moreover have "unat parts \<le> unat parts * unat parts" by simp
  ultimately show ?thesis by simp
qed

lemma grant_segment_ok:
  assumes run: "grant_segment G seg s = Some (e, r, s')" and laws: "xen_laws G held V" and ok: "xen_ok held V s"
    and len: "sg_length seg \<noteq> 0"
  shows "xen_ok held V s'"
    "e = None \<Longrightarrow> \<exists>sgr P L. r = Some sgr \<and> seg_granted G (V (xs_hyp s')) (xs_words s') seg sgr P L
       \<and> seg_cookie held (xs_fe s') sgr (P @ L) \<and> sgr_cookie sgr \<notin> set (gref_cookies_inuse (xs_fe s))
       \<and> distinct (P @ L) \<and> set (P @ L) \<inter> dom (granted (V (xs_hyp s))) = {}
       \<and> dom (granted (V (xs_hyp s'))) = dom (granted (V (xs_hyp s))) \<union> set (P @ L) \<and> extends G V s s'
       \<and> {sgr_gref_list sgr..<sgr_gref_list sgr + unat (sgr_nr_parts sgr)} \<inter> guest_pages (V (xs_hyp s)) = {}"
    "length (pages seg) < 2 ^ 31 \<Longrightarrow> e \<noteq> Some ENOSPC"
proof -
  let ?n = "length (pages seg)" and ?parts = "nr_parts_of (length (pages seg))"
  let ?count = "of_nat ?n + ucast ?parts * ucast ?parts :: u32"
  obtain p h where gp: "get_free_pages G (unat ?parts) (xs_hyp s) = (p, h)" by fastforce
  let ?s0 = "s\<lparr>xs_hyp := h\<rparr>"
  have view: "owned (V h) = owned (V (xs_hyp s))" "granted (V h) = granted (V (xs_hyp s))"
      "maptrack (V h) = maptrack (V (xs_hyp s))" "p2m (V h) = p2m (V (xs_hyp s))" "driver_pages (V h) = driver_pages (V (xs_hyp s))"
      "guest_pages (V (xs_hyp s)) \<subseteq> guest_pages (V h)"
      "p = Some q \<Longrightarrow> {q..<q + unat ?parts} \<subseteq> guest_pages (V h) \<and> {q..<q + unat ?parts} \<inter> guest_pages (V (xs_hyp s)) = {}" for q
    using law_get_free_pages [OF laws, of "unat ?parts" "xs_hyp s" _ h] law_get_free_pages_None [OF laws, of "unat ?parts" "xs_hyp s" h] gp
    by (cases p; auto)+
  have ok0: "xen_ok held V ?s0"
    using ok view by (simp add: xen_ok_def grants_ok_view)
  from run gp obtain a s1 where a: "omx_xen_gnttab_alloc_grant_references G ?count ?s0 = Some (a, s1)"
    by (auto simp: grant_segment_def bind_eq_Some_conv Let_def)
  note got = get_references_ok [OF a laws ok0]
  have goal: "xen_ok held V s' \<and> (e = None \<longrightarrow> (\<exists>sgr P L. r = Some sgr \<and> seg_granted G (V (xs_hyp s')) (xs_words s') seg sgr P L
       \<and> seg_cookie held (xs_fe s') sgr (P @ L) \<and> sgr_cookie sgr \<notin> set (gref_cookies_inuse (xs_fe s))
       \<and> distinct (P @ L) \<and> set (P @ L) \<inter> dom (granted (V (xs_hyp s))) = {}
       \<and> dom (granted (V (xs_hyp s'))) = dom (granted (V (xs_hyp s))) \<union> set (P @ L) \<and> extends G V s s'
       \<and> {sgr_gref_list sgr..<sgr_gref_list sgr + unat (sgr_nr_parts sgr)} \<inter> guest_pages (V (xs_hyp s)) = {}))
     \<and> (length (pages seg) < 2 ^ 31 \<longrightarrow> e \<noteq> Some ENOSPC)"
  proof (cases a)
    case (Inl x)
    with run gp a have "s' = s1" "e = Some (Errno EINVAL)"
      by (auto simp: grant_segment_def bind_eq_Some_conv Let_def omx_xen_gnttab_alloc_grant_references_def split: option.splits)
    with got(1) show ?thesis by simp
  next
    case (Inr ck)
    obtain c where c: "ck \<in> set (gref_cookies_inuse (xs_fe s1))" "ck \<notin> set (gref_cookies_inuse (xs_fe s))"
        "fe_cookies (xs_fe s1) ck = Some c" "?count \<le> ck_count c" "card (held (gref_head c)) = unat (ck_count c)"
      using got(3) [OF Inr] by auto
    obtain ow where v1: "xs_words s1 = xs_words s" "V (xs_hyp s1) = (V h)\<lparr>owned := ow\<rparr>"
        "set (gref_cookies_inuse (xs_fe s)) \<subseteq> set (gref_cookies_inuse (xs_fe s1))"
        "\<forall>i \<in> dom (fe_cookies (xs_fe s)). fe_cookies (xs_fe s1) i = fe_cookies (xs_fe s) i"
      using got(2) unfolding only_owned_def by auto
    from run gp a Inr obtain first e2 all_gref s2 where
      first: "(if ?parts = 0 then Some 0 else p) = Some first"
      and parts: "grant_parts G ck first 0 (unat ?parts) (replicate OMX_XEN_GRANT_PAGES_MAX 0) s1 = Some (e2, all_gref, s2)"
      and rest: "(if e2 \<noteq> None \<or> sg_length seg = 0
          then Some (e2, Some \<lparr>sgr_cookie = ck, sgr_nr_parts = ?parts, sgr_all_gref = all_gref, sgr_gref_list = first\<rparr>, s2)
          else do { (e, s3) \<leftarrow> grant_pages G ck first (unat ?parts) 0 (pages seg) s2;
                    Some (e, Some \<lparr>sgr_cookie = ck, sgr_nr_parts = ?parts, sgr_all_gref = all_gref, sgr_gref_list = first\<rparr>, s3) })
        = Some (e, r, s')"
      by (auto simp: grant_segment_def bind_eq_Some_conv Let_def)
    let ?sgr = "\<lparr>sgr_cookie = ck, sgr_nr_parts = ?parts, sgr_all_gref = all_gref, sgr_gref_list = first\<rparr>"
    from grant_parts_took [OF parts laws got(1) c(1)] obtain P where
      P: "took held V ck P (map (\<lambda>i. pfn_to_mfn G (first + i)) [0..<length P]) s1 s2" "xs_words s2 = xs_words s1"
        "length all_gref = OMX_XEN_GRANT_PAGES_MAX"
        "e2 = None \<Longrightarrow> length P = unat ?parts \<and> unat ?parts \<le> OMX_XEN_GRANT_PAGES_MAX \<and> (\<forall>i < unat ?parts. all_gref ! i = P ! i)"
        "e2 \<noteq> None \<Longrightarrow> e2 = Some ENOSPC \<and> length P < unat ?parts \<and> (\<exists>c. fe_cookies (xs_fe s2) ck = Some c \<and> held (gref_head c) = {})"
      by auto
    note ok2 = took_ok [OF P(1) got(1) c(1)]
    have bound: "?n + unat ?parts \<le> unat (ck_count c)" if "?n < 2 ^ 31"
      using wanted_count [OF that, of ?parts] c(4) by (simp add: word_le_nat_alt)
    show ?thesis
    proof (cases "e2 = None")
      case False
      with rest have "e = e2" "s' = s2" by auto
      moreover have "\<not> ?n < 2 ^ 31"
        using took_counts [OF P(1) laws c(3)] P(5) [OF False] c(5) bound by auto
      ultimately show ?thesis using False ok2 by auto
    next
      case True
      with rest len obtain s3 where pg: "grant_pages G ck first (unat ?parts) 0 (pages seg) s2 = Some (e, s')"
        and r: "r = Some ?sgr"
        by (auto simp: bind_eq_Some_conv)
      from grant_pages_took [OF pg laws ok2] obtain L where
        L: "took held V ck L (map (pfn_to_mfn G) (take (length L) (pages seg))) s2 s'"
          "\<forall>x. x \<notin> gref_loc G first ` {0..<?n} \<longrightarrow> xs_words s' x = xs_words s2 x"
          "\<forall>i < ?n. e = None \<longrightarrow> i div NR_GREFS < unat ?parts"
          "e = None \<Longrightarrow> length L = ?n \<and> (\<forall>i < ?n. xs_words s' (gref_loc G first i) = L ! i)"
          "e \<noteq> None \<Longrightarrow> e = Some ENOSPC \<and> length L < ?n \<and> (\<exists>c. fe_cookies (xs_fe s') ck = Some c \<and> held (gref_head c) = {})"
        by auto
      note PL = took_append [OF P(1) L(1)]
      note ok3 = took_ok [OF L(1) ok2]
      show ?thesis
      proof (cases "e = None")
        case False
        have "\<not> ?n < 2 ^ 31"
          using took_counts [OF PL laws c(3)] L(5) [OF False] P(4) [OF True] c(5) bound by auto
        with False ok3 show ?thesis by auto
      next
        case none: True
        note P4 = P(4) [OF True] and L4 = L(4) [OF none]
        let ?R = "P @ L" and ?v = "V (xs_hyp s)" and ?v' = "V (xs_hyp s')"
        let ?fs = "map (\<lambda>i. pfn_to_mfn G (first + i)) [0..<length P] @ map (pfn_to_mfn G) (take (length L) (pages seg))"
        have R: "distinct ?R" "set ?R \<inter> dom (granted ?v) = {}" "length ?R = length ?fs"
          and v': "?v' = (V (xs_hyp s1))\<lparr>granted := granted ?v ++ map_of (zip ?R ?fs)\<rparr>"
          using PL v1(2) view(2) unfolding took_def by simp_all
        have gr: "granted ?v' = granted ?v ++ map_of (zip ?R ?fs)" by (simp add: v')
        have at: "granted ?v' (?R ! i) = Some (?fs ! i)" if "i < length ?R" for i
          unfolding gr by (rule map_add_zip_nth [OF R(1,3) that])
        have n: "?n \<le> unat ?parts * NR_GREFS"
        proof (cases "?n = 0")
          case False
          then have "(?n - 1) div NR_GREFS < unat ?parts" using L(3) none by simp
          then have "?n - 1 < unat ?parts * NR_GREFS"
            by (simp add: div_less_iff_less_mult NR_GREFS_def)
          then show ?thesis by simp
        qed simp
        have fresh: "{first..<first + unat ?parts} \<subseteq> guest_pages (V h)" "{first..<first + unat ?parts} \<inter> guest_pages ?v = {}"
          using first view(7) by (auto split: if_splits)
        have "seg_granted G ?v' (xs_words s') seg ?sgr P L"
          unfolding seg_granted_def
        proof (intro conjI allI impI)
          show "P = take (unat (sgr_nr_parts ?sgr)) (sgr_all_gref ?sgr)"
            using P(3) P4 by (intro nth_equalityI) simp_all
          show "{sgr_gref_list ?sgr..<sgr_gref_list ?sgr + unat (sgr_nr_parts ?sgr)} \<subseteq> guest_pages ?v'"
            using fresh(1) v1(2) v' by simp
          show "granted ?v' (P ! k) = Some (pfn_to_mfn G (sgr_gref_list ?sgr + k))" if "k < length P" for k
            using at [of k] that by (simp add: nth_append)
          show "granted ?v' (L ! j) = Some (pfn_to_mfn G (pages seg ! j))" if "j < length L" for j
            using at [of "length P + j"] that L4 by (simp add: nth_append)
        qed (use P(3) P4 L4 n in simp_all)
        moreover have "seg_cookie held (xs_fe s') ?sgr ?R"
          using took_counts [OF PL laws c(3)] c(5) ok3(2) by (auto simp: seg_cookie_def)
        moreover have "dom (granted ?v') = dom (granted ?v) \<union> set ?R"
          unfolding gr dom_map_add dom_map_of_zip [OF R(3)] by (rule Un_commute)
        moreover have "extends G V s s'"
        proof -
          note tk = took_extends [OF PL c(2) v1(3)]
          have "xs_words s' (pfn_to_mfn G q, i) = xs_words s (pfn_to_mfn G q, i)" if "q \<in> guest_pages ?v" for q i
          proof -
            have "(pfn_to_mfn G q, i) \<noteq> gref_loc G first j" if "j < ?n" for j
            proof
              assume "(pfn_to_mfn G q, i) = gref_loc G first j"
              moreover have "j < unat ?parts * NR_GREFS" using n that by simp
              from gref_loc_page [OF this, of first G] obtain p' where "p' \<in> {first..<first + unat ?parts}"
                "fst (gref_loc G first j) = pfn_to_mfn G p'" by blast
              ultimately have "q = p'" using law_inj [OF laws] by (metis fst_conv injD)
              with \<open>p' \<in> _\<close> fresh(2) \<open>q \<in> guest_pages ?v\<close> show False by blast
            qed
            then have "(pfn_to_mfn G q, i) \<notin> gref_loc G first ` {0..<?n}" by (metis atLeastLessThan_iff imageE)
            with L(2) have "xs_words s' (pfn_to_mfn G q, i) = xs_words s2 (pfn_to_mfn G q, i)" by blast
            with P(2) v1(1) show ?thesis by simp
          qed
          moreover have "fe_cookies (xs_fe s1) i = fe_cookies (xs_fe s) i" if "i \<in> set (gref_cookies_inuse (xs_fe s))" for i
            using v1(4) that ok by (auto simp: xen_ok_def grants_ok_def cookie_lists_ok_def)
          ultimately show ?thesis
            using tk v' v1(2) view unfolding extends_def by auto
        qed
        ultimately show ?thesis
          using none ok3 R(1,2) c(2) r fresh(2) by auto
      qed
    qed
  qed
  then show "xen_ok held V s'"
    "e = None \<Longrightarrow> \<exists>sgr P L. r = Some sgr \<and> seg_granted G (V (xs_hyp s')) (xs_words s') seg sgr P L
       \<and> seg_cookie held (xs_fe s') sgr (P @ L) \<and> sgr_cookie sgr \<notin> set (gref_cookies_inuse (xs_fe s))
       \<and> distinct (P @ L) \<and> set (P @ L) \<inter> dom (granted (V (xs_hyp s))) = {}
       \<and> dom (granted (V (xs_hyp s'))) = dom (granted (V (xs_hyp s))) \<union> set (P @ L) \<and> extends G V s s'
       \<and> {sgr_gref_list sgr..<sgr_gref_list sgr + unat (sgr_nr_parts sgr)} \<inter> guest_pages (V (xs_hyp s)) = {}"
    "length (pages seg) < 2 ^ 31 \<Longrightarrow> e \<noteq> Some ENOSPC" by blast+
qed

subsection \<open>A granted region\<close>

text \<open>The segments with their grants, the references for the pages of the lists and those for the pages.\<close>

type_synonym granted_seg = "region_segment \<times> seg_grant \<times> gref list \<times> gref list"

definition gs_seg :: "granted_seg \<Rightarrow> region_segment" where "gs_seg x = fst x"
definition gs_grant :: "granted_seg \<Rightarrow> seg_grant" where "gs_grant x = fst (snd x)"
definition gs_parts :: "granted_seg \<Rightarrow> gref list" where "gs_parts x = fst (snd (snd x))"
definition gs_pages :: "granted_seg \<Rightarrow> gref list" where "gs_pages x = snd (snd (snd x))"
definition gs_lists :: "granted_seg \<Rightarrow> nat set" where
  "gs_lists x = {sgr_gref_list (gs_grant x)..<sgr_gref_list (gs_grant x) + unat (sgr_nr_parts (gs_grant x))}"
definition gs_refs :: "granted_seg \<Rightarrow> gref list" where "gs_refs x = gs_parts x @ gs_pages x"

lemmas gs_defs = gs_seg_def gs_grant_def gs_parts_def gs_pages_def gs_refs_def

definition all_refs :: "granted_seg list \<Rightarrow> gref list" where "all_refs gs = concat (map gs_refs gs)"

lemma all_refs_simps [simp]: "all_refs [] = []" "all_refs (x # gs) = gs_refs x @ all_refs gs"
  by (simp_all add: all_refs_def)

definition is_granted ::
  "('h, 'c) xen_ops \<Rightarrow> ('c \<Rightarrow> gref set) \<Rightarrow> ('h \<Rightarrow> hyp_view) \<Rightarrow> ('h, 'c) xen_state \<Rightarrow> granted_seg \<Rightarrow> bool"
where
  "is_granted G held V s x \<longleftrightarrow>
     seg_granted G (V (xs_hyp s)) (xs_words s) (gs_seg x) (gs_grant x) (gs_parts x) (gs_pages x)
     \<and> seg_cookie held (xs_fe s) (gs_grant x) (gs_refs x)"

definition region_granted ::
  "('h, 'c) xen_ops \<Rightarrow> ('c \<Rightarrow> gref set) \<Rightarrow> ('h \<Rightarrow> hyp_view) \<Rightarrow> ('h, 'c) xen_state \<Rightarrow> granted_seg list \<Rightarrow> bool"
where
  "region_granted G held V s gs \<longleftrightarrow>
     (\<forall>x \<in> set gs. is_granted G held V s x) \<and> distinct (map (sgr_cookie \<circ> gs_grant) gs) \<and> distinct (all_refs gs)"

lemma is_granted_extends: "is_granted G held V s x \<Longrightarrow> extends G V s s' \<Longrightarrow> is_granted G held V s' x"
  unfolding is_granted_def by (blast intro: seg_granted_extends seg_cookie_extends)

lemma create_segments_ok:
  "create_segments G rid eid i (length sgs) sgs sgrs ring s = Some (None, sgrs', ring', s') \<Longrightarrow> xen_laws G held V \<Longrightarrow>
     xen_ok held V s \<Longrightarrow> \<forall>seg \<in> set sgs. sg_length seg \<noteq> 0 \<Longrightarrow>
     \<exists>gs. map gs_seg gs = sgs \<and> sgrs' = sgrs @ map gs_grant gs \<and> region_granted G held V s' gs
       \<and> xen_ok held V s' \<and> extends G V s s'
       \<and> (\<forall>x \<in> set gs. sgr_cookie (gs_grant x) \<notin> set (gref_cookies_inuse (xs_fe s)) \<and> gs_lists x \<inter> guest_pages (V (xs_hyp s)) = {})
       \<and> set (all_refs gs) \<inter> dom (granted (V (xs_hyp s))) = {}
       \<and> dom (granted (V (xs_hyp s'))) = dom (granted (V (xs_hyp s))) \<union> set (all_refs gs)
       \<and> i + length sgs \<le> max i (length ring) \<and> length ring' = length ring \<and> (\<forall>k < i. ring' ! k = ring ! k)
       \<and> (\<forall>k < length sgs. ring' ! (i + k) = fill_ring_segment rid eid (i + k) (sgs ! k) (gs_grant (gs ! k)) (ring ! (i + k)))"
proof (induction sgs arbitrary: i sgrs ring s)
  case Nil
  then show ?case
    by (intro exI [of _ "[]"]) (simp add: region_granted_def grants_extend_refl)
next
  case (Cons seg sgs)
  have len: "sg_length seg \<noteq> 0" using Cons.prems(4) by simp
  from Cons.prems(1) obtain e r s1 where g: "grant_segment G seg s = Some (e, r, s1)"
    by (auto simp: bind_eq_Some_conv)
  have e: "e = None" using Cons.prems(1) g by (auto split: option.splits if_splits)
  note ok1 = grant_segment_ok(1) [OF g Cons.prems(2,3) len]
  from grant_segment_ok(2) [OF g Cons.prems(2,3) len e] obtain sgr P L where
    r: "r = Some sgr" and sg: "seg_granted G (V (xs_hyp s1)) (xs_words s1) seg sgr P L" "seg_cookie held (xs_fe s1) sgr (P @ L)"
      "sgr_cookie sgr \<notin> set (gref_cookies_inuse (xs_fe s))" "distinct (P @ L)"
      "set (P @ L) \<inter> dom (granted (V (xs_hyp s))) = {}"
      "dom (granted (V (xs_hyp s1))) = dom (granted (V (xs_hyp s))) \<union> set (P @ L)" "extends G V s s1"
      "{sgr_gref_list sgr..<sgr_gref_list sgr + unat (sgr_nr_parts sgr)} \<inter> guest_pages (V (xs_hyp s)) = {}"
    by blast
  let ?x = "(seg, sgr, P, L)" and ?ring = "ring[i := fill_ring_segment rid eid i seg sgr (ring ! i)]"
  have i: "i < length ring"
    and rest: "create_segments G rid eid (i + 1) (length sgs) sgs (sgrs @ [sgr]) ?ring s1 = Some (None, sgrs', ring', s')"
    using Cons.prems(1) g e r len by (auto simp: bind_eq_Some_conv)
  from Cons.IH [OF rest Cons.prems(2) ok1] Cons.prems(4) obtain gs where
    gs: "map gs_seg gs = sgs" "sgrs' = (sgrs @ [sgr]) @ map gs_grant gs" "region_granted G held V s' gs" "xen_ok held V s'"
      "extends G V s1 s'" "\<forall>x \<in> set gs. sgr_cookie (gs_grant x) \<notin> set (gref_cookies_inuse (xs_fe s1)) \<and> gs_lists x \<inter> guest_pages (V (xs_hyp s1)) = {}"
      "set (all_refs gs) \<inter> dom (granted (V (xs_hyp s1))) = {}"
      "dom (granted (V (xs_hyp s'))) = dom (granted (V (xs_hyp s1))) \<union> set (all_refs gs)"
      "i + 1 + length sgs \<le> max (i + 1) (length ?ring)" "length ring' = length ?ring" "\<forall>k < i + 1. ring' ! k = ?ring ! k"
      "\<forall>k < length sgs. ring' ! (i + 1 + k) = fill_ring_segment rid eid (i + 1 + k) (sgs ! k) (gs_grant (gs ! k)) (?ring ! (i + 1 + k))"
    by auto
  have x: "is_granted G held V s1 ?x" using sg(1,2) by (simp add: is_granted_def gs_defs)
  have "sgr_cookie sgr \<in> set (gref_cookies_inuse (xs_fe s1))" using sg(2) by (simp add: seg_cookie_def)
  then have "sgr_cookie sgr \<notin> set (map (sgr_cookie \<circ> gs_grant) gs)" using gs(6) by auto
  moreover have "set (P @ L) \<inter> set (all_refs gs) = {}" using gs(7) sg(6) by blast
  ultimately have "region_granted G held V s' (?x # gs)"
    using gs(3) is_granted_extends [OF x gs(5)] sg(4) unfolding region_granted_def by (auto simp: gs_defs)
  moreover have "\<forall>y \<in> set (?x # gs). sgr_cookie (gs_grant y) \<notin> set (gref_cookies_inuse (xs_fe s)) \<and> gs_lists y \<inter> guest_pages (V (xs_hyp s)) = {}"
  proof -
    have "guest_pages (V (xs_hyp s)) \<subseteq> guest_pages (V (xs_hyp s1))" "set (gref_cookies_inuse (xs_fe s)) \<subseteq> set (gref_cookies_inuse (xs_fe s1))"
      using sg(7) by (auto simp: extends_def)
    with gs(6) sg(3,8) show ?thesis by (auto simp: gs_grant_def gs_lists_def)
  qed
  moreover have "set (all_refs (?x # gs)) \<inter> dom (granted (V (xs_hyp s))) = {}"
    using gs(7) sg(5,6) by (auto simp: gs_defs)
  moreover have "dom (granted (V (xs_hyp s'))) = dom (granted (V (xs_hyp s))) \<union> set (all_refs (?x # gs))"
    using gs(8) sg(6) by (auto simp: gs_defs)
  moreover have "ring' ! (i + k) = fill_ring_segment rid eid (i + k) ((seg # sgs) ! k) (gs_grant ((?x # gs) ! k)) (ring ! (i + k))"
    if "k < length (seg # sgs)" for k
    using gs(11,12) i that by (cases k) (auto simp: gs_defs)
  ultimately show ?case
    using gs(1,2,4,9-11) i grants_extend_trans [OF sg(7) gs(5)]
    by (intro exI [of _ "?x # gs"]) (auto simp: gs_defs)
qed

end
