(* ===== verification/Xen_Back_Regions.thy ===== *)
theory Xen_Back_Regions
  imports Xen_Front_Regions
begin

text \<open>
  User regions in the driver domain (\<open>driver/backend/omx_xenback_reg.c\<close> and the two region cases of
  \<open>omx_xenback.c\<close>). The backend maps the pages that hold the list of references, walks the list, and
  maps every page of the segment into pages of its own; the region it keeps is an array of those
  pages. Failures leave a region behind that is registered in part, as in the code.
\<close>

subsection \<open>Regions of the backend\<close>

text \<open>\<open>bs_unmap\<close> is the array prepared for the unmapping, by the handles in it; there is none before the lists were mapped.\<close>

record be_segment =
  bs_gref_offset :: u16
  bs_all_gref :: "gref list"
  bs_nr_parts :: u8
  bs_vm_gref :: "nat list"
  bs_all_handle :: "handle list"
  bs_first_page_offset :: u16
  bs_unmap :: "handle list option"
  bs_pages :: "nat list"
  bs_nr_pages :: u32
  bs_length :: u32

record be_region =
  br_id :: u32
  br_eid :: u8
  br_segments :: "be_segment list"
  br_total_length :: nat

type_synonym be_endpoint = "nat \<Rightarrow> be_region option"
type_synonym backend = "nat \<Rightarrow> be_endpoint option"

definition zero_be_segment :: be_segment where
  "zero_be_segment = \<lparr>bs_gref_offset = 0, bs_all_gref = replicate OMX_XEN_GRANT_PAGES_MAX 0, bs_nr_parts = 0,
     bs_vm_gref = replicate OMX_XEN_GRANT_PAGES_MAX 0, bs_all_handle = replicate OMX_XEN_GRANT_PAGES_MAX 0,
     bs_first_page_offset = 0, bs_unmap = None, bs_pages = [], bs_nr_pages = 0, bs_length = 0\<rparr>"

definition xen_regions :: "nat \<Rightarrow> nat \<Rightarrow> backend \<Rightarrow> be_region option option" where
  "xen_regions eid rid be = do {
     endpoint \<leftarrow> be eid;
     c_assert (rid < OMX_USER_REGION_MAX_ID);
     Some (endpoint rid)
   }"

definition set_xen_region :: "nat \<Rightarrow> nat \<Rightarrow> be_region option \<Rightarrow> backend \<Rightarrow> backend" where
  "set_xen_region eid rid r be = be(eid := map_option (\<lambda>endpoint. endpoint(rid := r)) (be eid))"

text \<open>A region that is there already is reported busy, and stays.\<close>

definition omx_xen_create_user_region ::
  "bool \<Rightarrow> u32 \<Rightarrow> u32 \<Rightarrow> u8 \<Rightarrow> backend \<Rightarrow> (xen_error option \<times> backend) option"
where
  "omx_xen_create_user_region mem_ok rid nr_segments eid be =
     (if \<not> mem_ok then Some (Some (Errno ENOMEM), be)
      else do {
        r \<leftarrow> xen_regions (unat eid) (unat rid) be;
        if r \<noteq> None then Some (Some (Errno EBUSY), be)
        else Some (None, set_xen_region (unat eid) (unat rid)
          (Some \<lparr>br_id = rid, br_eid = eid, br_segments = replicate (unat nr_segments) zero_be_segment,
                 br_total_length = 0\<rparr>) be)
      })"

subsection \<open>Mapping\<close>

text \<open>
  One page of the list of references: an area of the kernel's address space and a mapping of the
  reference there. The status or else the handle is the return value, of which the caller only tests the
  sign: the error codes of the hypervisor are negative, and a handle may read as a negative number.
\<close>

definition omx_xen_accept_gref_list ::
  "('h, 'c) xen_ops \<Rightarrow> gref \<Rightarrow> nat \<Rightarrow> be_segment \<Rightarrow> ('h, 'c) xen_state
    \<Rightarrow> (xen_error option \<times> be_segment \<times> ('h, 'c) xen_state) option"
where
  "omx_xen_accept_gref_list G g part seg s =
     (case alloc_vm_area G (xs_hyp s) of
        (None, h) \<Rightarrow> Some (Some (Errno ENOMEM), seg, s\<lparr>xs_hyp := h\<rparr>)
      | (Some area, h) \<Rightarrow> do {
          c_assert (part < length (bs_vm_gref seg) \<and> part < length (bs_all_handle seg));
          let seg1 = seg\<lparr>bs_vm_gref := (bs_vm_gref seg)[part := area]\<rparr>;
          let (err, rs, h1) = map_grant_refs G [(g, area)] h;
          let s1 = s\<lparr>xs_hyp := h1\<rparr>;
          if err then Some (Some ENOSYS, seg1, s1)
          else do {
            c_assert (rs \<noteq> []);
            let (st, hdl) = hd rs;
            if st \<noteq> 0 then Some (Some (Grant_status st), seg1, s1)
            else Some (if 2 ^ 31 \<le> hdl then Some (Grant_status (int hdl - 2 ^ 32)) else None,
                       seg1\<lparr>bs_all_handle := (bs_all_handle seg1)[part := hdl]\<rparr>, s1)
          }
        })"

fun accept_parts ::
  "('h, 'c) xen_ops \<Rightarrow> nat \<Rightarrow> gref list \<Rightarrow> be_segment \<Rightarrow> ('h, 'c) xen_state
    \<Rightarrow> (xen_error option \<times> be_segment \<times> ('h, 'c) xen_state) option"
where
  "accept_parts G part [] seg s = Some (None, seg, s)"
| "accept_parts G part (g # gs) seg s = do {
     (e, seg1, s1) \<leftarrow> omx_xen_accept_gref_list G g part seg s;
     if e \<noteq> None then Some (e, seg1, s1) else accept_parts G (part + 1) gs seg1 s1
   }"

text \<open>
  The walk over the list: \<open>idx\<close> is the page of the list and \<open>sidx\<close> the position in it, which goes back
  to zero each time \<open>i\<close> is a multiple of \<open>nr_grefs\<close>.
\<close>

definition gref_list_word :: "('h, 'c) xen_ops \<Rightarrow> be_segment \<Rightarrow> ('h, 'c) xen_state \<Rightarrow> nat \<Rightarrow> nat \<Rightarrow> gref option" where
  "gref_list_word G seg s idx sidx = do {
     c_assert (idx < unat (bs_nr_parts seg));
     let pos = unat (bs_gref_offset seg) + 4 * sidx;
     c_assert (pos < PAGE_SIZE);
     Some (xs_words s (frame_of G (xs_hyp s) (bs_vm_gref seg ! idx), pos div 4))
   }"

fun walk_gref_list ::
  "('h, 'c) xen_ops \<Rightarrow> be_segment \<Rightarrow> ('h, 'c) xen_state \<Rightarrow> nat \<Rightarrow> nat \<Rightarrow> nat \<Rightarrow> nat \<Rightarrow> nat list \<Rightarrow> (gref \<times> nat) list option"
where
  "walk_gref_list G seg s nr_grefs i idx sidx [] = Some []"
| "walk_gref_list G seg s nr_grefs i idx sidx (page # rest) = do {
     g \<leftarrow> gref_list_word G seg s idx sidx;
     c_assert (nr_grefs \<noteq> 0);
     ops \<leftarrow> (if (i + 1) mod nr_grefs = 0 then walk_gref_list G seg s nr_grefs (i + 1) (idx + 1) 0 rest
            else walk_gref_list G seg s nr_grefs (i + 1) idx (sidx + 1) rest);
     Some ((g, page) # ops)
   }"

text \<open>The handles go into the array for the unmapping, up to the first operation that failed.\<close>

fun keep_handles :: "(int \<times> handle) list \<Rightarrow> handle list \<Rightarrow> bool \<times> handle list" where
  "keep_handles ((st, hdl) # rs) (u # us) =
     (if st \<noteq> 0 then (False, u # us) else let (ok, us') = keep_handles rs us in (ok, hdl # us'))"
| "keep_handles rs us = (True, us)"

definition map_segment_pages ::
  "('h, 'c) xen_ops \<Rightarrow> ring_register_segment \<Rightarrow> nat list \<Rightarrow> be_segment \<Rightarrow> ('h, 'c) xen_state
    \<Rightarrow> (xen_error option \<times> be_segment \<times> ('h, 'c) xen_state) option"
where
  "map_segment_pages G req page_list seg s = do {
     ops \<leftarrow> walk_gref_list G seg s (unat (rs_nr_grefs req)) 0 0 0 page_list;
     let seg1 = seg\<lparr>bs_nr_pages := rs_nr_pages req, bs_first_page_offset := rs_first_page_offset req,
                    bs_unmap := Some (replicate (length page_list) (2 ^ 32 - 1))\<rparr>;
     let (err, rs, h) = map_grant_refs G ops (xs_hyp s);
     let s1 = s\<lparr>xs_hyp := h\<rparr>;
     if err then Some (Some (Errno EFAULT), seg1, s1)
     else do {
       let (ok, hdls) = keep_handles rs (the (bs_unmap seg1));
       let seg2 = seg1\<lparr>bs_unmap := Some hdls\<rparr>;
       if \<not> ok then Some (Some (Errno EINVAL), seg2, s1)
       else Some (None, seg2\<lparr>bs_pages := page_list, bs_length := rs_length req\<rparr>, s1)
     }
   }"

text \<open>The whole registration of a segment, on the segment of the region.\<close>

definition register_segment ::
  "('h, 'c) xen_ops \<Rightarrow> bool \<Rightarrow> ring_register_segment \<Rightarrow> be_segment \<Rightarrow> ('h, 'c) xen_state
    \<Rightarrow> (xen_error option \<times> be_segment \<times> ('h, 'c) xen_state) option"
where
  "register_segment G mem_ok req seg s =
     (let parts = unat (rs_nr_parts req); grefs = take parts (rs_gref req)
      in do {
        c_assert (parts \<le> OMX_XEN_GRANT_PAGES_MAX \<and> parts \<le> length (rs_gref req));
        let seg1 = seg\<lparr>bs_gref_offset := rs_gref_offset req, bs_nr_parts := rs_nr_parts req,
                       bs_all_gref := grefs @ drop parts (bs_all_gref seg)\<rparr>;
        if \<not> mem_ok then Some (Some (Errno ENOMEM), seg1, s)
        else (case alloc_xenballooned_pages G (unat (rs_nr_pages req)) (xs_hyp s) of
                (None, h) \<Rightarrow> Some (Some (Errno ENOMEM), seg1, s\<lparr>xs_hyp := h\<rparr>)
              | (Some page_list, h) \<Rightarrow> do {
                  (e, seg2, s2) \<leftarrow> accept_parts G 0 grefs seg1 (s\<lparr>xs_hyp := h\<rparr>);
                  if e \<noteq> None then Some (e, seg2, s2) else map_segment_pages G req page_list seg2 s2
                })
      })"

definition omx_xen_register_user_segment ::
  "('h, 'c) xen_ops \<Rightarrow> bool \<Rightarrow> ring_register_segment \<Rightarrow> ('h, 'c) xen_state \<Rightarrow> backend
    \<Rightarrow> (xen_error option \<times> ('h, 'c) xen_state \<times> backend) option"
where
  "omx_xen_register_user_segment G mem_ok req s be =
     (let eid = unat (ucast (rs_eid req) :: u8); rid = unat (rs_rid req); sid = unat (rs_sid req)
      in do {
        r \<leftarrow> xen_regions eid rid be;
        case r of
          None \<Rightarrow> Some (Some (Errno EINVAL), s, be)
        | Some r \<Rightarrow> do {
            c_assert (sid < length (br_segments r));
            (e, seg, s') \<leftarrow> register_segment G mem_ok req (br_segments r ! sid) s;
            Some (e, s', set_xen_region eid rid
              (Some (r\<lparr>br_segments := (br_segments r)[sid := seg],
                       br_total_length := br_total_length r + (if e = None then unat (bs_length seg) else 0)\<rparr>)) be)
          }
      })"

subsection \<open>Unmapping\<close>

text \<open>
  The pages of the list are unmapped one by one, until one fails; the areas are freed when the last
  status was good. A hypercall that fails as a whole leaves the status as it was set up, zero.
\<close>

fun unmap_parts ::
  "('h, 'c) xen_ops \<Rightarrow> handle list \<Rightarrow> ('h, 'c) xen_state \<Rightarrow> (int \<times> ('h, 'c) xen_state) option"
where
  "unmap_parts G [] s = Some (0, s)"
| "unmap_parts G (hdl # hdls) s =
     (let (err, sts, h) = unmap_grant_refs G [hdl] (xs_hyp s); s1 = s\<lparr>xs_hyp := h\<rparr>
      in if err then unmap_parts G hdls s1
         else do {
           c_assert (sts \<noteq> []);
           if hd sts \<noteq> 0 then Some (hd sts, s1) else unmap_parts G hdls s1
         })"

definition deregister_segment ::
  "('h, 'c) xen_ops \<Rightarrow> be_segment \<Rightarrow> ('h, 'c) xen_state \<Rightarrow> (xen_error option \<times> ('h, 'c) xen_state) option"
where
  "deregister_segment G seg s =
     (case bs_unmap seg of
        None \<Rightarrow> Some (Some (Errno EINVAL), s)
      | Some hdls \<Rightarrow> do {
          let parts = unat (bs_nr_parts seg);
          let (_, _, h) = unmap_grant_refs G hdls (xs_hyp s);
          c_assert (parts \<le> length (bs_all_handle seg) \<and> parts \<le> length (bs_vm_gref seg));
          (st, s1) \<leftarrow> unmap_parts G (take parts (bs_all_handle seg)) (s\<lparr>xs_hyp := h\<rparr>);
          if st \<noteq> 0 then Some (Some (Grant_status st), s1)
          else Some (None, on_hyp (free_xenballooned_pages G (bs_pages seg))
                 (on_hyp (fold (free_vm_area G) (take parts (bs_vm_gref seg))) s1))
        })"

definition omx_xen_deregister_user_segment ::
  "('h, 'c) xen_ops \<Rightarrow> nat \<Rightarrow> nat \<Rightarrow> nat \<Rightarrow> backend \<Rightarrow> ('h, 'c) xen_state
    \<Rightarrow> (xen_error option \<times> ('h, 'c) xen_state) option"
where
  "omx_xen_deregister_user_segment G rid sid eid be s = do {
     r \<leftarrow> xen_regions eid rid be;
     case r of
       None \<Rightarrow> Some (None, s)
     | Some r \<Rightarrow> do {
         c_assert (sid < length (br_segments r));
         deregister_segment G (br_segments r ! sid) s
       }
   }"

definition omx_xen_destroy_user_region :: "nat \<Rightarrow> nat \<Rightarrow> backend \<Rightarrow> (xen_error option \<times> backend) option" where
  "omx_xen_destroy_user_region rid eid be =
     (if 255 \<le> eid then Some (Some (Errno EINVAL), be)
      else do {
        r \<leftarrow> xen_regions eid rid be;
        case r of
          None \<Rightarrow> Some (None, be)
        | Some r \<Rightarrow> Some (None, set_xen_region eid (unat (br_id r)) None be)
      })"

subsection \<open>Serving the two requests\<close>

text \<open>
  The result of the last segment is the result of the request, whatever the creation and the earlier
  segments returned. Only a negative one is a failure; every error of the registration is.
\<close>

fun register_segments ::
  "('h, 'c) xen_ops \<Rightarrow> bool \<Rightarrow> xen_error option \<Rightarrow> ring_register_segment list \<Rightarrow> ('h, 'c) xen_state \<Rightarrow> backend
    \<Rightarrow> (xen_error option \<times> ('h, 'c) xen_state \<times> backend) option"
where
  "register_segments G mem_ok e [] s be = Some (e, s, be)"
| "register_segments G mem_ok e (req # reqs) s be = do {
     (e', s', be') \<leftarrow> omx_xen_register_user_segment G mem_ok req s be;
     register_segments G mem_ok e' reqs s' be'
   }"

definition process_create_user_region ::
  "('h, 'c) xen_ops \<Rightarrow> bool \<Rightarrow> (ring_create_region, 'h, 'c, backend) server"
where
  "process_create_user_region G mem_ok req s be = do {
     (e, be1) \<leftarrow> omx_xen_create_user_region mem_ok (rc_id req) (rc_nr_segments req) (rc_eid req) be;
     c_assert (unat (rc_nr_segments req) \<le> length (rc_segs req));
     (e', s', be2) \<leftarrow> register_segments G mem_ok e (take (unat (rc_nr_segments req)) (rc_segs req)) s be1;
     Some (Some (if e' = None then REGISTERED else FAILED), s', be2)
   }"

fun deregister_segments ::
  "('h, 'c) xen_ops \<Rightarrow> nat \<Rightarrow> nat \<Rightarrow> ring_deregister_segment list \<Rightarrow> backend \<Rightarrow> ('h, 'c) xen_state
    \<Rightarrow> (nat \<times> nat \<times> ('h, 'c) xen_state) option"
where
  "deregister_segments G rid eid [] be s = Some (rid, eid, s)"
| "deregister_segments G rid eid (req # reqs) be s =
     (let rid' = unat (rd_rid req); eid' = unat (ucast (rd_eid req) :: u8)
      in do {
        (_, s') \<leftarrow> omx_xen_deregister_user_segment G rid' (unat (rd_sid req)) eid' be s;
        deregister_segments G rid' eid' reqs be s'
      })"

definition process_destroy_user_region :: "('h, 'c) xen_ops \<Rightarrow> (ring_destroy_region, 'h, 'c, backend) server" where
  "process_destroy_user_region G req s be = do {
     c_assert (unat (rx_nr_segments req) \<le> length (rx_segs req));
     (rid, eid, s') \<leftarrow> deregister_segments G (unat (rx_id req)) (unat (rx_eid req))
        (take (unat (rx_nr_segments req)) (rx_segs req)) be s;
     (e, be') \<leftarrow> omx_xen_destroy_user_region rid eid be;
     Some (Some (if e = None then DEREGISTERED else FAILED), s', be')
   }"

subsection \<open>Using a region\<close>

definition omx_xen_user_region_acquire :: "be_endpoint \<Rightarrow> nat \<Rightarrow> be_region option" where
  "omx_xen_user_region_acquire endpoint rdma_id = (if OMX_USER_REGION_MAX_ID \<le> rdma_id then None else endpoint rdma_id)"

text \<open>
  A region of the backend as the copies of \<open>Driver_Regions\<close> see it: the machine frames behind its pages.
  Regions of several segments are refused.
\<close>

definition be_segment_view :: "('h, 'c) xen_ops \<Rightarrow> 'h \<Rightarrow> be_segment \<Rightarrow> region_segment" where
  "be_segment_view G h seg =
     \<lparr>aligned_vaddr = 0, first_page_offset = unat (bs_first_page_offset seg), sg_length = unat (bs_length seg),
      pages = map (frame_of G h) (bs_pages seg)\<rparr>"

definition be_region_view :: "('h, 'c) xen_ops \<Rightarrow> 'h \<Rightarrow> be_region \<Rightarrow> user_region" where
  "be_region_view G h r =
     \<lparr>rgn_segments = map (be_segment_view G h) (br_segments r), rgn_total_length = br_total_length r\<rparr>"

definition omx_xen_user_region_offset_cache_init ::
  "('h, 'c) xen_ops \<Rightarrow> 'h \<Rightarrow> be_region \<Rightarrow> nat \<Rightarrow> nat \<Rightarrow> offset_cache option"
where
  "omx_xen_user_region_offset_cache_init G h r offset len =
     (if br_segments r = [] \<or> offset + len > br_total_length r then None
      else if length (br_segments r) > 1 then None
      else let seg = hd (br_segments r)
           in Some \<lparr>oc_segs = [be_segment_view G h seg], oc_segoff = offset,
                oc_page = (offset + unat (bs_first_page_offset seg)) div PAGE_SIZE,
                oc_pageoff = (offset + unat (bs_first_page_offset seg)) mod PAGE_SIZE\<rparr>)"

end
