(* ===== verification/Xen_Mapping.thy ===== *)
theory Xen_Mapping
  imports Xen_Granting Xen_Back_Regions
begin

text \<open>
  What mapping a region does: the walk over the lists finds the references in the order of the pages,
  and the pages of the backend then stand for the frames of the guest's pages.
\<close>

subsection \<open>The laws of mapping\<close>

lemma law_map_err: "xen_laws G held V \<Longrightarrow> map_grant_refs G ops h = (True, rs, h') \<Longrightarrow> V h' = V h"
  unfolding xen_laws_def map_laws_def by blast

lemma law_map:
  assumes "xen_laws G held V" and "map_grant_refs G ops h = (False, rs, h')"
  shows "length rs = length ops" "V h' = fold map_one (zip ops rs) (V h)"
    "distinct (map snd (filter (\<lambda>r. fst r = 0) rs))"
    "i < length ops \<Longrightarrow> fst (rs ! i) = 0 \<Longrightarrow> granted (V h) (fst (ops ! i)) \<noteq> None \<and> maptrack (V h) (snd (rs ! i)) = None \<and> snd (rs ! i) < 2 ^ 31"
  using assms unfolding xen_laws_def map_laws_def by blast+

lemma law_unmap:
  assumes "xen_laws G held V" and "unmap_grant_refs G hdls h = (err, sts, h')" and "distinct hdls" and "set hdls \<subseteq> dom (maptrack (V h))"
  shows "\<not> err" "sts = replicate (length hdls) 0"
    "\<exists>q. V h' = (V h)\<lparr>maptrack := maptrack (V h) |` (- set hdls), p2m := q\<rparr>"
  using assms unfolding xen_laws_def map_laws_def by blast+

lemma law_vm_area:
  assumes "xen_laws G held V" and "alloc_vm_area G h = (Some a, h')"
  shows "a \<notin> driver_pages (V h)" "V h' = (V h)\<lparr>driver_pages := insert a (driver_pages (V h))\<rparr>"
proof -
  have "\<forall>h a h'. alloc_vm_area G h = (Some a, h') \<longrightarrow>
      a \<notin> driver_pages (V h) \<and> V h' = (V h)\<lparr>driver_pages := insert a (driver_pages (V h))\<rparr>"
    using assms(1) unfolding xen_laws_def page_laws_def by (elim conjE) assumption
  with assms(2) show "a \<notin> driver_pages (V h)" "V h' = (V h)\<lparr>driver_pages := insert a (driver_pages (V h))\<rparr>" by blast+
qed

lemma law_balloon:
  assumes "xen_laws G held V" and "alloc_xenballooned_pages G n h = (Some ps, h')"
  shows "length ps = n" "distinct ps" "set ps \<inter> driver_pages (V h) = {}"
    "V h' = (V h)\<lparr>driver_pages := driver_pages (V h) \<union> set ps\<rparr>"
proof -
  have "\<forall>n h ps h'. alloc_xenballooned_pages G n h = (Some ps, h') \<longrightarrow>
          length ps = n \<and> distinct ps \<and> set ps \<inter> driver_pages (V h) = {}
          \<and> V h' = (V h)\<lparr>driver_pages := driver_pages (V h) \<union> set ps\<rparr>"
    using assms(1) unfolding xen_laws_def page_laws_def by (elim conjE) assumption
  with assms(2) show "length ps = n" "distinct ps" "set ps \<inter> driver_pages (V h) = {}"
    "V h' = (V h)\<lparr>driver_pages := driver_pages (V h) \<union> set ps\<rparr>" by blast+
qed

lemma law_free_vm_area:
  "xen_laws G held V \<Longrightarrow> V (free_vm_area G a h) = (V h)\<lparr>driver_pages := driver_pages (V h) - {a}\<rparr>"
  by (simp add: xen_laws_def page_laws_def)

lemma law_free_balloon:
  "xen_laws G held V \<Longrightarrow> V (free_xenballooned_pages G ps h) = (V h)\<lparr>driver_pages := driver_pages (V h) - set ps\<rparr>"
  by (simp add: xen_laws_def page_laws_def)

text \<open>A batch of mappings that all succeeded.\<close>

lemma fold_map_one:
  "length rs = length ops \<Longrightarrow> \<forall>r \<in> set rs. fst r = 0 \<Longrightarrow> distinct (map snd ops) \<Longrightarrow> distinct (map snd rs) \<Longrightarrow>
     \<exists>q. fold map_one (zip ops rs) v = v\<lparr>maptrack := maptrack v ++ map_of (zip (map snd rs) (map fst ops)), p2m := q\<rparr>
       \<and> (\<forall>i < length ops. q (snd (ops ! i)) = the (granted v (fst (ops ! i))))
       \<and> (\<forall>p. p \<notin> set (map snd ops) \<longrightarrow> q p = p2m v p)"
proof (induction ops rs arbitrary: v rule: list_induct2')
  case 1
  show ?case by (intro exI [of _ "p2m v"]) simp
next
  case (4 o' ops r rs)
  obtain g page hdl where o': "o' = (g, page)" and r: "r = (0, hdl)"
    using "4.prems"(2) by (cases o'; cases r) auto
  let ?v = "v\<lparr>maptrack := (maptrack v)(hdl \<mapsto> g), p2m := (p2m v)(page := the (granted v g))\<rparr>"
  have p: "length rs = length ops" "\<forall>r \<in> set rs. fst r = 0" "distinct (map snd ops)" "distinct (map snd rs)"
    using "4.prems" by auto
  from "4.IH" [OF p, of ?v] obtain q where
    q: "fold map_one (zip ops rs) ?v = ?v\<lparr>maptrack := maptrack ?v ++ map_of (zip (map snd rs) (map fst ops)), p2m := q\<rparr>"
      "\<forall>i < length ops. q (snd (ops ! i)) = the (granted ?v (fst (ops ! i)))"
      "\<forall>p. p \<notin> set (map snd ops) \<longrightarrow> q p = p2m ?v p"
    by blast
  have "hdl \<notin> dom (map_of (zip (map snd rs) (map fst ops)))" using "4.prems"(1,4) r by auto
  then have m: "(maptrack v)(hdl \<mapsto> g) ++ map_of (zip (map snd rs) (map fst ops))
      = maptrack v ++ map_of (zip (map snd (r # rs)) (map fst (o' # ops)))"
    by (auto simp: o' r map_add_def fun_eq_iff split: option.splits)
  have "map_one (o', r) v = ?v" by (simp add: map_one_def o' r)
  then have "fold map_one (zip (o' # ops) (r # rs)) v
      = v\<lparr>maptrack := maptrack v ++ map_of (zip (map snd (r # rs)) (map fst (o' # ops))), p2m := q\<rparr>"
    using q(1) unfolding m [symmetric] by simp
  moreover have "q (snd ((o' # ops) ! i)) = the (granted v (fst ((o' # ops) ! i)))" if "i < length (o' # ops)" for i
    using q(2,3) that "4.prems"(3) o' by (cases i) auto
  moreover have "\<forall>p. p \<notin> set (map snd (o' # ops)) \<longrightarrow> q p = p2m v p"
    using q(3) o' by auto
  ultimately show ?case by blast
qed simp_all

subsection \<open>Mapping and nothing else\<close>

text \<open>\<open>maps_in D hdls rs\<close>: the new handles \<open>hdls\<close> map the references \<open>rs\<close>, and the pages in \<open>D\<close> keep their frames.\<close>

definition maps_in ::
  "('h \<Rightarrow> hyp_view) \<Rightarrow> nat set \<Rightarrow> handle list \<Rightarrow> gref list \<Rightarrow> ('h, 'c) xen_state \<Rightarrow> ('h, 'c) xen_state \<Rightarrow> bool"
where
  "maps_in V D hdls rs s s' \<longleftrightarrow>
     length hdls = length rs \<and> distinct hdls \<and> set hdls \<inter> dom (maptrack (V (xs_hyp s))) = {}
     \<and> xs_fe s' = xs_fe s \<and> xs_words s' = xs_words s
     \<and> owned (V (xs_hyp s')) = owned (V (xs_hyp s)) \<and> granted (V (xs_hyp s')) = granted (V (xs_hyp s))
     \<and> guest_pages (V (xs_hyp s')) = guest_pages (V (xs_hyp s))
     \<and> maptrack (V (xs_hyp s')) = maptrack (V (xs_hyp s)) ++ map_of (zip hdls rs)
     \<and> driver_pages (V (xs_hyp s)) \<subseteq> driver_pages (V (xs_hyp s'))
     \<and> (\<forall>p \<in> D. p2m (V (xs_hyp s')) p = p2m (V (xs_hyp s)) p)"

lemma maps_in_Nil: "maps_in V D [] [] s s"
  by (simp add: maps_in_def)

lemma maps_in_subset: "maps_in V D hdls rs s s' \<Longrightarrow> D' \<subseteq> D \<Longrightarrow> maps_in V D' hdls rs s s'"
  by (auto simp: maps_in_def)

lemma maps_in_append:
  assumes "maps_in V D xs rs s t" and "maps_in V D ys qs t u"
  shows "maps_in V D (xs @ ys) (rs @ qs) s u"
proof -
  have len: "length xs = length rs" "length ys = length qs" using assms by (auto simp: maps_in_def)
  then have "set ys \<inter> (dom (maptrack (V (xs_hyp s))) \<union> set xs) = {}"
    using assms by (auto simp: maps_in_def)
  then have dis: "set xs \<inter> set ys = {}" and old: "set ys \<inter> dom (maptrack (V (xs_hyp s))) = {}" by auto
  have "map_of (zip xs rs) ++ map_of (zip ys qs) = map_of (zip ys qs) ++ map_of (zip xs rs)"
    using len dis by (intro map_add_comm) simp
  also have "\<dots> = map_of (zip (xs @ ys) (rs @ qs))" using len by simp
  finally have m: "f ++ map_of (zip xs rs) ++ map_of (zip ys qs) = f ++ map_of (zip (xs @ ys) (rs @ qs))" for f
    by (simp only: map_add_assoc [symmetric])
  have mt: "maptrack (V (xs_hyp u)) = maptrack (V (xs_hyp s)) ++ map_of (zip (xs @ ys) (rs @ qs))"
    using assms unfolding maps_in_def m [symmetric] by simp
  show ?thesis
    using assms len dis old mt unfolding maps_in_def by auto
qed

subsection \<open>The lists\<close>

lemma accept_one:
  assumes "omx_xen_accept_gref_list G g part seg s = Some (None, seg', s')" and "xen_laws G held V"
  shows "\<exists>area hdl. seg' = seg\<lparr>bs_vm_gref := (bs_vm_gref seg)[part := area], bs_all_handle := (bs_all_handle seg)[part := hdl]\<rparr>
    \<and> part < length (bs_vm_gref seg) \<and> part < length (bs_all_handle seg)
    \<and> maps_in V (driver_pages (V (xs_hyp s))) [hdl] [g] s s' \<and> area \<in> driver_pages (V (xs_hyp s'))
    \<and> p2m (V (xs_hyp s')) area = the (granted (V (xs_hyp s)) g)"
proof -
  obtain a h where va: "alloc_vm_area G (xs_hyp s) = (a, h)" by fastforce
  then obtain area where a: "a = Some area"
    using assms(1) by (cases a) (auto simp: omx_xen_accept_gref_list_def)
  obtain err rs h1 where mp: "map_grant_refs G [(g, area)] h = (err, rs, h1)" by (metis prod_cases3)
  have run: "part < length (bs_vm_gref seg)" "part < length (bs_all_handle seg)" "\<not> err" "rs \<noteq> []"
    and hd: "fst (hd rs) = 0" "\<not> 2 ^ 31 \<le> snd (hd rs)"
      "seg' = seg\<lparr>bs_vm_gref := (bs_vm_gref seg)[part := area], bs_all_handle := (bs_all_handle seg)[part := snd (hd rs)]\<rparr>"
      "s' = s\<lparr>xs_hyp := h1\<rparr>"
    using assms(1) va a mp
    by (auto simp: omx_xen_accept_gref_list_def bind_eq_Some_conv Let_def split: prod.splits if_splits)
  from mp run(3) have mp: "map_grant_refs G [(g, area)] h = (False, rs, h1)" by simp
  note lm = law_map [OF assms(2) mp]
  note vl = law_vm_area [OF assms(2) va [unfolded a]]
  obtain hdl where rs: "rs = [(0, hdl)]" using lm(1) hd(1) by (cases rs) (auto simp: prod_eq_iff)
  have "V h1 = map_one ((g, area), (0, hdl)) (V h)" using lm(2) rs by simp
  then have v1: "V h1 = (V h)\<lparr>maptrack := (maptrack (V h))(hdl \<mapsto> g), p2m := (p2m (V h))(area := the (granted (V h) g))\<rparr>"
    by (simp add: map_one_def)
  have "maptrack (V h) hdl = None" using lm(4) [of 0] rs by simp
  with v1 vl hd(4) have "maps_in V (driver_pages (V (xs_hyp s))) [hdl] [g] s s'"
    by (auto simp: maps_in_def)
  with run hd rs v1 vl show ?thesis by auto
qed

lemma accept_parts_ok:
  "accept_parts G part gs seg s = Some (None, seg', s') \<Longrightarrow> xen_laws G held V \<Longrightarrow>
     \<exists>hdls. maps_in V (driver_pages (V (xs_hyp s))) hdls gs s s'
       \<and> seg' = seg\<lparr>bs_vm_gref := bs_vm_gref seg', bs_all_handle := bs_all_handle seg'\<rparr>
       \<and> part + length gs \<le> max part (length (bs_all_handle seg)) \<and> part + length gs \<le> max part (length (bs_vm_gref seg))
       \<and> length (bs_all_handle seg') = length (bs_all_handle seg) \<and> length (bs_vm_gref seg') = length (bs_vm_gref seg)
       \<and> (\<forall>k < part. bs_all_handle seg' ! k = bs_all_handle seg ! k \<and> bs_vm_gref seg' ! k = bs_vm_gref seg ! k)
       \<and> (\<forall>k < length gs. bs_all_handle seg' ! (part + k) = hdls ! k
            \<and> bs_vm_gref seg' ! (part + k) \<in> driver_pages (V (xs_hyp s'))
            \<and> p2m (V (xs_hyp s')) (bs_vm_gref seg' ! (part + k)) = the (granted (V (xs_hyp s)) (gs ! k)))"
proof (induction gs arbitrary: part seg s)
  case Nil
  then show ?case by (intro exI [of _ "[]"]) (simp add: maps_in_Nil)
next
  case (Cons g gs)
  from Cons.prems(1) obtain seg1 s1 where one: "omx_xen_accept_gref_list G g part seg s = Some (None, seg1, s1)"
    and rest: "accept_parts G (part + 1) gs seg1 s1 = Some (None, seg', s')"
    by (auto simp: bind_eq_Some_conv split: if_splits)
  from accept_one [OF one Cons.prems(2)] obtain area hdl where
    a: "seg1 = seg\<lparr>bs_vm_gref := (bs_vm_gref seg)[part := area], bs_all_handle := (bs_all_handle seg)[part := hdl]\<rparr>"
      "part < length (bs_vm_gref seg)" "part < length (bs_all_handle seg)"
      "maps_in V (driver_pages (V (xs_hyp s))) [hdl] [g] s s1" "area \<in> driver_pages (V (xs_hyp s1))"
      "p2m (V (xs_hyp s1)) area = the (granted (V (xs_hyp s)) g)"
    by blast
  from Cons.IH [OF rest Cons.prems(2)] obtain hdls where
    b: "maps_in V (driver_pages (V (xs_hyp s1))) hdls gs s1 s'"
      "seg' = seg1\<lparr>bs_vm_gref := bs_vm_gref seg', bs_all_handle := bs_all_handle seg'\<rparr>"
      "part + 1 + length gs \<le> max (part + 1) (length (bs_all_handle seg1))"
      "part + 1 + length gs \<le> max (part + 1) (length (bs_vm_gref seg1))"
      "length (bs_all_handle seg') = length (bs_all_handle seg1)" "length (bs_vm_gref seg') = length (bs_vm_gref seg1)"
      "\<forall>k < part + 1. bs_all_handle seg' ! k = bs_all_handle seg1 ! k \<and> bs_vm_gref seg' ! k = bs_vm_gref seg1 ! k"
      "\<forall>k < length gs. bs_all_handle seg' ! (part + 1 + k) = hdls ! k
            \<and> bs_vm_gref seg' ! (part + 1 + k) \<in> driver_pages (V (xs_hyp s'))
            \<and> p2m (V (xs_hyp s')) (bs_vm_gref seg' ! (part + 1 + k)) = the (granted (V (xs_hyp s1)) (gs ! k))"
    by blast
  have gr: "granted (V (xs_hyp s1)) = granted (V (xs_hyp s))" using a(4) by (simp add: maps_in_def)
  have "driver_pages (V (xs_hyp s)) \<subseteq> driver_pages (V (xs_hyp s1))" using a(4) by (simp add: maps_in_def)
  from maps_in_append [OF a(4) maps_in_subset [OF b(1) this]]
  have m: "maps_in V (driver_pages (V (xs_hyp s))) (hdl # hdls) (g # gs) s s'" by simp
  have at0: "bs_all_handle seg' ! part = hdl" "bs_vm_gref seg' ! part = area" using b(7) a(1-3) by simp_all
  have "area \<in> driver_pages (V (xs_hyp s'))" "p2m (V (xs_hyp s')) area = the (granted (V (xs_hyp s)) g)"
    using a(5,6) b(1) by (auto simp: maps_in_def)
  with at0 b(8) gr have "bs_all_handle seg' ! (part + k) = (hdl # hdls) ! k
            \<and> bs_vm_gref seg' ! (part + k) \<in> driver_pages (V (xs_hyp s'))
            \<and> p2m (V (xs_hyp s')) (bs_vm_gref seg' ! (part + k)) = the (granted (V (xs_hyp s)) ((g # gs) ! k))"
    if "k < length (g # gs)" for k
    using that by (cases k) simp_all
  moreover have "seg' = seg\<lparr>bs_vm_gref := bs_vm_gref seg', bs_all_handle := bs_all_handle seg'\<rparr>"
    using b(2) a(1) by simp
  ultimately show ?case
    using m a(1-3) b(3-7) by (intro exI [of _ "hdl # hdls"]) auto
qed

lemma walk_ok:
  assumes "walk_gref_list G seg s n i idx sidx pgs = Some ops" and "idx = i div n" and "sidx = i mod n"
    and "\<And>j. j < i + length pgs \<Longrightarrow> gref_list_word G seg s (j div n) (j mod n) = Some (L ! j)"
  shows "ops = zip (map (\<lambda>j. L ! j) [i..<i + length pgs]) pgs"
  using assms
proof (induction pgs arbitrary: i idx sidx ops)
  case Nil
  then show ?case by simp
next
  case (Cons page rest)
  let ?step = "(i + 1) mod n = 0"
  obtain ops' where n: "n \<noteq> 0"
    and rest: "walk_gref_list G seg s n (i + 1) (if ?step then idx + 1 else idx) (if ?step then 0 else sidx + 1) rest = Some ops'"
    and ops: "ops = (L ! i, page) # ops'"
    using Cons.prems(1) Cons.prems(4) [of i] Cons.prems(2,3)
    by (auto simp: bind_eq_Some_conv split: if_splits)
  have "ops' = zip (map (\<lambda>j. L ! j) [i + 1..<i + 1 + length rest]) rest"
  proof (rule Cons.IH [OF rest])
    show "(if ?step then idx + 1 else idx) = (i + 1) div n" "(if ?step then 0 else sidx + 1) = (i + 1) mod n"
      using Cons.prems(2,3) n by (auto simp: div_Suc mod_Suc split: if_splits)
    show "gref_list_word G seg s (j div n) (j mod n) = Some (L ! j)" if "j < i + 1 + length rest" for j
      using Cons.prems(4) [of j] that by simp
  qed
  then show ?case using ops upt_Suc_add [of i "length rest"] by simp
qed

subsection \<open>A mapped segment\<close>

definition req_for :: "granted_seg \<Rightarrow> ring_register_segment \<Rightarrow> bool" where
  "req_for x req \<longleftrightarrow>
     rs_nr_parts req = sgr_nr_parts (gs_grant x) \<and> take (unat (rs_nr_parts req)) (rs_gref req) = gs_parts x
     \<and> rs_gref_offset req = 0 \<and> rs_nr_grefs req = of_nat NR_GREFS \<and> rs_nr_pages req = of_nat (length (pages (gs_seg x)))
     \<and> rs_length req = of_nat (sg_length (gs_seg x)) \<and> rs_first_page_offset req = of_nat (first_page_offset (gs_seg x))"

definition be_handles :: "be_segment \<Rightarrow> handle list" where
  "be_handles bs = take (unat (bs_nr_parts bs)) (bs_all_handle bs) @ (case bs_unmap bs of None \<Rightarrow> [] | Some hdls \<Rightarrow> hdls)"

definition seg_mapped :: "('h, 'c) xen_ops \<Rightarrow> hyp_view \<Rightarrow> region_segment \<Rightarrow> be_segment \<Rightarrow> bool" where
  "seg_mapped G v seg bs \<longleftrightarrow>
     map (p2m v) (bs_pages bs) = map (pfn_to_mfn G) (pages seg) \<and> set (bs_pages bs) \<subseteq> driver_pages v
     \<and> bs_first_page_offset bs = of_nat (first_page_offset seg) \<and> bs_length bs = of_nat (sg_length seg)
     \<and> bs_unmap bs \<noteq> None
     \<and> unat (bs_nr_parts bs) \<le> length (bs_all_handle bs) \<and> unat (bs_nr_parts bs) \<le> length (bs_vm_gref bs)"

lemma keep_handles_ok:
  "keep_handles rs us = (True, hdls) \<Longrightarrow> length rs = length us \<Longrightarrow> (\<forall>r \<in> set rs. fst r = 0) \<and> hdls = map snd rs"
  by (induction rs us arbitrary: hdls rule: keep_handles.induct) (auto split: if_splits prod.splits)

lemma granted_word:
  assumes "seg_granted G v w seg sgr P L" and "j < length L"
  shows "j div NR_GREFS < unat (sgr_nr_parts sgr)" "length P = unat (sgr_nr_parts sgr)"
    "w (pfn_to_mfn G (sgr_gref_list sgr + j div NR_GREFS), j mod NR_GREFS) = L ! j"
  using assms by (auto simp: seg_granted_def gref_loc_def less_mult_imp_div_less min_def)

lemma register_segment_ok:
  assumes run: "register_segment G mem_ok req bs s = Some (None, bs', s')" and laws: "xen_laws G held V"
    and x: "is_granted G held V s x" and req: "req_for x req"
  shows "seg_mapped G (V (xs_hyp s')) (gs_seg x) bs'"
    "maps_in V (driver_pages (V (xs_hyp s))) (be_handles bs') (gs_refs x) s s'"
proof -
  let ?P = "gs_parts x" and ?L = "gs_pages x" and ?seg = "gs_seg x" and ?sgr = "gs_grant x"
  let ?parts = "unat (sgr_nr_parts ?sgr)" and ?n = "length (pages ?seg)" and ?D = "driver_pages (V (xs_hyp s))"
  have sg: "seg_granted G (V (xs_hyp s)) (xs_words s) ?seg ?sgr ?P ?L" using x by (simp add: is_granted_def)
  have nL: "length ?L = ?n" and lenP: "length ?P = ?parts" and parts16: "?parts \<le> OMX_XEN_GRANT_PAGES_MAX"
    and nle: "?n \<le> ?parts * NR_GREFS"
    using sg by (simp_all add: seg_granted_def)
  have "?parts * NR_GREFS \<le> 16 * NR_GREFS"
    using parts16 by (intro mult_le_mono1) (simp add: OMX_XEN_GRANT_PAGES_MAX_def)
  then have "?n \<le> 16384" using nle by (simp add: NR_GREFS_def)
  then have n32: "unat (rs_nr_pages req) = ?n"
    using req by (simp add: req_for_def unat_of_nat take_bit_nat_eq_self)
  have nr: "unat (rs_nr_grefs req) = NR_GREFS"
    using req by (simp add: req_for_def NR_GREFS_def)
  let ?bs1 = "bs\<lparr>bs_gref_offset := rs_gref_offset req, bs_nr_parts := rs_nr_parts req,
      bs_all_gref := take (unat (rs_nr_parts req)) (rs_gref req) @ drop (unat (rs_nr_parts req)) (bs_all_gref bs)\<rparr>"
  obtain b h where bal: "alloc_xenballooned_pages G ?n (xs_hyp s) = (b, h)" by fastforce
  obtain ps bs2 s2 where b: "b = Some ps"
    and acc: "accept_parts G 0 ?P ?bs1 (s\<lparr>xs_hyp := h\<rparr>) = Some (None, bs2, s2)"
    and map: "map_segment_pages G req ps bs2 s2 = Some (None, bs', s')"
    using run req bal n32 unfolding register_segment_def Let_def req_for_def
    by (auto simp: bind_eq_Some_conv split: option.splits if_splits)
  note vb = law_balloon [OF laws bal [unfolded b]]
  have s1: "maps_in V ?D [] [] s (s\<lparr>xs_hyp := h\<rparr>)" using vb(4) by (auto simp: maps_in_def)
  from accept_parts_ok [OF acc laws] obtain phs where
    a: "maps_in V (driver_pages (V h)) phs ?P (s\<lparr>xs_hyp := h\<rparr>) s2"
      "bs2 = ?bs1\<lparr>bs_vm_gref := bs_vm_gref bs2, bs_all_handle := bs_all_handle bs2\<rparr>"
      "?parts \<le> length (bs_all_handle bs2)" "?parts \<le> length (bs_vm_gref bs2)"
      "\<forall>k < ?parts. bs_all_handle bs2 ! k = phs ! k \<and> p2m (V (xs_hyp s2)) (bs_vm_gref bs2 ! k) = the (granted (V h) (?P ! k))"
    using lenP by auto
  have "?D \<subseteq> driver_pages (V h)" using vb(4) by auto
  from maps_in_append [OF s1 maps_in_subset [OF a(1) this]]
  have s2: "maps_in V ?D phs ?P s s2" by simp
  have gr: "granted (V h) = granted (V (xs_hyp s))" using vb(4) by simp
  have bs2: "bs_nr_parts bs2 = sgr_nr_parts ?sgr" "bs_gref_offset bs2 = 0"
    by (subst a(2), use req in \<open>simp add: req_for_def\<close>)+
  have gp: "granted (V (xs_hyp s)) (?P ! k) = Some (pfn_to_mfn G (sgr_gref_list ?sgr + k))" if "k < ?parts" for k
    using sg that lenP unfolding seg_granted_def by metis
  have word: "gref_list_word G bs2 s2 (j div NR_GREFS) (j mod NR_GREFS) = Some (?L ! j)" if "j < ?n" for j
  proof -
    note w = granted_word [OF sg, of j] and lt = that [folded nL]
    have "p2m (V (xs_hyp s2)) (bs_vm_gref bs2 ! (j div NR_GREFS)) = pfn_to_mfn G (sgr_gref_list ?sgr + j div NR_GREFS)"
      using a(5) w(1) [OF lt] gp [OF w(1) [OF lt]] by (metis gr option.sel)
    moreover have "4 * (j mod NR_GREFS) < PAGE_SIZE" by (simp add: NR_GREFS_def PAGE_SIZE_def)
    ultimately show ?thesis
      using w(1,3) [OF lt] s2 by (simp add: gref_list_word_def bs2 law_frame_of [OF laws] maps_in_def)
  qed
  from map obtain ops where walk: "walk_gref_list G bs2 s2 NR_GREFS 0 0 0 ps = Some ops"
    by (auto simp: map_segment_pages_def bind_eq_Some_conv nr)
  have lenps: "length ps = ?n" by (rule vb(1))
  from walk_ok [OF walk, of ?L] word have ops: "ops = zip ?L ps"
    by (simp add: lenps nL [symmetric] map_nth)
  obtain err rs h3 where mp: "map_grant_refs G ops (xs_hyp s2) = (err, rs, h3)" by (metis prod_cases3)
  let ?us = "replicate ?n (2 ^ 32 - 1) :: handle list"
  obtain hdls where keep: "keep_handles rs ?us = (True, hdls)" and err: "\<not> err"
    and res: "s' = s2\<lparr>xs_hyp := h3\<rparr>"
      "bs' = bs2\<lparr>bs_nr_pages := rs_nr_pages req, bs_first_page_offset := rs_first_page_offset req,
         bs_unmap := Some hdls, bs_pages := ps, bs_length := rs_length req\<rparr>"
    using map mp lenps by (auto simp: map_segment_pages_def bind_eq_Some_conv nr walk Let_def split: if_splits prod.splits)
  from mp err have mp: "map_grant_refs G ops (xs_hyp s2) = (False, rs, h3)" by simp
  note lm = law_map [OF laws mp]
  have lens: "length rs = ?n" "length ops = ?n" using lm(1) ops lenps nL by simp_all
  from keep_handles_ok [OF keep] lens have st: "\<forall>r \<in> set rs. fst r = 0" and hdls: "hdls = map snd rs" by simp_all
  have "filter (\<lambda>r. fst r = 0) rs = rs" using st by (simp add: filter_id_conv)
  then have dis: "distinct hdls" using lm(3) hdls by simp
  have "maptrack (V (xs_hyp s2)) (hdls ! i) = None" if "i < ?n" for i
    using lm(4) [of i] st that lens hdls by simp
  then have new: "set hdls \<inter> dom (maptrack (V (xs_hyp s2))) = {}"
    using hdls lens by (auto simp: set_conv_nth)
  have opsl: "map fst ops = ?L" "map snd ops = ps" using ops lenps nL by simp_all
  from fold_map_one [OF lm(1) st, of "V (xs_hyp s2)"] vb(2) dis hdls opsl obtain q where
    v3: "V h3 = (V (xs_hyp s2))\<lparr>maptrack := maptrack (V (xs_hyp s2)) ++ map_of (zip hdls ?L), p2m := q\<rparr>"
    and q: "\<forall>i < length ops. q (snd (ops ! i)) = the (granted (V (xs_hyp s2)) (fst (ops ! i)))"
      "\<forall>p. p \<notin> set ps \<longrightarrow> q p = p2m (V (xs_hyp s2)) p"
    unfolding lm(2) by auto
  have "set ps \<inter> ?D = {}" by (rule vb(3))
  with q(2) v3 res(1) new dis hdls lens nL have "maps_in V ?D hdls ?L s2 s'"
    by (auto simp: maps_in_def)
  from maps_in_append [OF s2 this] have m: "maps_in V ?D (phs @ hdls) (?P @ ?L) s s'" .
  have "length phs = ?parts" using a(1) lenP by (simp add: maps_in_def)
  then have "take ?parts (bs_all_handle bs2) = phs"
    using a(3,5) by (intro nth_equalityI) simp_all
  then have "be_handles bs' = phs @ hdls" by (simp add: be_handles_def res(2) bs2)
  with m show "maps_in V ?D (be_handles bs') (gs_refs x) s s'" by (simp add: gs_refs_def)
  have "map (p2m (V h3)) ps = map (pfn_to_mfn G) (pages ?seg)"
  proof (rule nth_equalityI)
    show "map (p2m (V h3)) ps ! i = map (pfn_to_mfn G) (pages ?seg) ! i" if "i < length (map (p2m (V h3)) ps)" for i
    proof -
      have i: "i < ?n" using that lenps by simp
      then have "ops ! i = (?L ! i, ps ! i)" using ops lenps nL by simp
      with q(1) i lens have "q (ps ! i) = the (granted (V (xs_hyp s)) (?L ! i))"
        using s2 by (auto simp: maps_in_def)
      with i sg nL lenps v3 show ?thesis by (simp add: seg_granted_def)
    qed
  qed (simp add: lenps)
  moreover have "set ps \<subseteq> driver_pages (V h3)"
    using v3 a(1) vb(4) by (auto simp: maps_in_def)
  ultimately show "seg_mapped G (V (xs_hyp s')) ?seg bs'"
    using req a(3,4) by (simp add: seg_mapped_def res bs2 req_for_def)
qed

end
