(* ===== verification/Xen_Sharing.thy ===== *)
theory Xen_Sharing
  imports Xen_Mapping Region_Transfer
begin

text \<open>
  A region of the guest from its creation to its destruction, with both sides: what the backend reads
  through its region is the guest's buffer, and after the destruction no page of the guest is granted
  or mapped any more and every reference is back in its cookie.
\<close>

subsection \<open>A region that is lent\<close>

definition lent ::
  "('h, 'c) xen_ops \<Rightarrow> ('c \<Rightarrow> gref set) \<Rightarrow> ('h \<Rightarrow> hyp_view) \<Rightarrow> ('h, 'c) xen_state \<Rightarrow> granted_seg \<Rightarrow> be_segment \<Rightarrow> bool"
where
  "lent G held V s x bs \<longleftrightarrow>
     is_granted G held V s x \<and> distinct (gs_refs x) \<and> seg_mapped G (V (xs_hyp s)) (gs_seg x) bs
     \<and> length (be_handles bs) = length (gs_refs x) \<and> distinct (be_handles bs)
     \<and> set (be_handles bs) \<subseteq> dom (maptrack (V (xs_hyp s)))
     \<and> ran (maptrack (V (xs_hyp s)) |` (- set (be_handles bs))) \<inter> set (gs_refs x) = {}"

lemma seg_granted_mapping:
  "granted v' = granted v \<Longrightarrow> guest_pages v' = guest_pages v \<Longrightarrow> seg_granted G v' w seg sgr P L \<longleftrightarrow> seg_granted G v w seg sgr P L"
  by (simp only: seg_granted_def)

lemma maps_lent:
  assumes "maps_in V D (be_handles bs) (gs_refs x) s s'" and "is_granted G held V s x" and "xen_ok held V t"
    and "set (gs_refs x) \<inter> dom (granted (V (xs_hyp t))) = {}" and "maptrack (V (xs_hyp s)) = maptrack (V (xs_hyp t))"
    and "distinct (gs_refs x)" and "seg_mapped G (V (xs_hyp s')) (gs_seg x) bs"
  shows "lent G held V s' x bs" "maptrack (V (xs_hyp s')) |` (- set (be_handles bs)) = maptrack (V (xs_hyp t))"
proof -
  have m: "maptrack (V (xs_hyp s')) = maptrack (V (xs_hyp t)) ++ map_of (zip (be_handles bs) (gs_refs x))"
    and len: "length (be_handles bs) = length (gs_refs x)" "distinct (be_handles bs)"
      "set (be_handles bs) \<inter> dom (maptrack (V (xs_hyp t))) = {}"
    using assms(1,5) by (simp_all add: maps_in_def)
  show r: "maptrack (V (xs_hyp s')) |` (- set (be_handles bs)) = maptrack (V (xs_hyp t))"
  proof (rule ext)
    fix hdl
    show "(maptrack (V (xs_hyp s')) |` (- set (be_handles bs))) hdl = maptrack (V (xs_hyp t)) hdl"
    proof (cases "hdl \<in> set (be_handles bs)")
      case True
      then have "hdl \<notin> dom (maptrack (V (xs_hyp t)))" using len(3) by blast
      then show ?thesis using True by (simp add: restrict_map_def domIff)
    next
      case False
      then have "hdl \<notin> dom (map_of (zip (be_handles bs) (gs_refs x)))" using len(1) by simp
      then show ?thesis using False by (simp add: m map_add_dom_app_simps(3))
    qed
  qed
  have same: "granted (V (xs_hyp s')) = granted (V (xs_hyp s))" "guest_pages (V (xs_hyp s')) = guest_pages (V (xs_hyp s))"
      "xs_fe s' = xs_fe s" "xs_words s' = xs_words s"
    using assms(1) by (simp_all add: maps_in_def)
  have "is_granted G held V s' x"
    using assms(2) unfolding is_granted_def seg_granted_mapping [OF same(1,2)] same(3,4) .
  moreover have "ran (maptrack (V (xs_hyp t))) \<inter> set (gs_refs x) = {}"
    using assms(3,4) unfolding xen_ok_def grants_ok_def by blast
  moreover have "set (be_handles bs) \<subseteq> dom (maptrack (V (xs_hyp s')))"
    unfolding m by (simp add: len(1))
  ultimately show "lent G held V s' x bs"
    unfolding lent_def r by (intro conjI assms(6,7) len(1,2))
qed

subsection \<open>Serving the creation\<close>

lemma filled_req_for:
  assumes "seg_granted G v w seg sgr P L"
  shows "req_for (seg, sgr, P, L) (fill_ring_segment rid eid i seg sgr old)"
  using assms by (auto simp: req_for_def fill_ring_segment_def gs_defs seg_granted_def min_def)

lemma ucast_eid: "eid < 256 \<Longrightarrow> unat (ucast (of_nat eid :: u32) :: u8) = eid"
  by (simp add: unsigned_ucast_eq unat_of_nat take_bit_nat_eq_self)

lemma process_create_one:
  assumes run: "process_create_user_region G mem_ok req s be = Some (Some REGISTERED, s', be')"
    and req: "rc_nr_segments req = 1" "rc_id req = of_nat rid" "rc_eid req = of_nat eid" "rc_segs req = reg # rest"
    and reg: "rs_rid reg = of_nat rid" "rs_eid reg = of_nat eid" "rs_sid reg = 0"
    and small: "eid < 256" "rid < OMX_USER_REGION_MAX_ID"
    and be: "be eid = Some endpoint" "endpoint rid = None"
  shows "\<exists>bs. register_segment G mem_ok reg zero_be_segment s = Some (None, bs, s')
    \<and> be' = be(eid \<mapsto> endpoint(rid \<mapsto> \<lparr>br_id = of_nat rid, br_eid = of_nat eid, br_segments = [bs],
        br_total_length = unat (bs_length bs)\<rparr>))"
proof -
  have rid: "unat (of_nat rid :: u32) = rid" "rid < 256"
    using small(2) by (simp_all add: OMX_USER_REGION_MAX_ID_def unat_of_nat take_bit_nat_eq_self)
  have eid: "unat (of_nat eid :: u8) = eid" using small(1) by (simp add: unat_of_nat take_bit_nat_eq_self)
  have look: "xen_regions eid rid be = Some None"
    using be small by (simp add: xen_regions_def)
  show ?thesis
  proof (cases mem_ok)
    case False
    with run req reg look rid eid ucast_eid [OF small(1)] show ?thesis
      by (auto simp: process_create_user_region_def omx_xen_create_user_region_def omx_xen_register_user_segment_def
          bind_eq_Some_conv split: if_splits)
  next
    case True
    let ?r = "\<lparr>br_id = of_nat rid, br_eid = of_nat eid, br_segments = [zero_be_segment], br_total_length = 0\<rparr>"
    let ?be = "be(eid \<mapsto> endpoint(rid \<mapsto> ?r))"
    have created: "omx_xen_create_user_region mem_ok (rc_id req) (rc_nr_segments req) (rc_eid req) be = Some (None, ?be)"
      using True req look rid eid be
      by (simp add: omx_xen_create_user_region_def set_xen_region_def)
    have look': "xen_regions eid rid ?be = Some (Some ?r)"
      using small by (simp add: xen_regions_def)
    from run created req obtain be2 e where
      "omx_xen_register_user_segment G mem_ok reg s ?be = Some (e, s', be2)" "e = None" "be' = be2"
      by (auto simp: process_create_user_region_def bind_eq_Some_conv split: if_splits)
    with reg look' rid ucast_eid [OF small(1)] obtain bs where
      "register_segment G mem_ok reg zero_be_segment s = Some (None, bs, s')"
      "be' = set_xen_region eid rid (Some (?r\<lparr>br_segments := [bs], br_total_length := unat (bs_length bs)\<rparr>)) ?be"
      by (auto simp: omx_xen_register_user_segment_def bind_eq_Some_conv)
    then show ?thesis by (auto simp: set_xen_region_def)
  qed
qed

text \<open>The creation of a region of one segment: the frontend's region, the backend's, and the grants between them.\<close>

lemma create_lends:
  assumes run: "omx_ioctl_xen_user_region_create G (process_create_user_region G be_mem) frame mem_ok pin_ok old rid [useg] ep s be
      = Some (None, ep', s', be')"
    and laws: "xen_laws G held V" and ok: "xen_ok held V s"
    and useg: "seg_len useg \<noteq> 0" and eid: "endpoint_index ep < 256"
    and be: "be (endpoint_index ep) = Some endpoint" "endpoint rid = None"
  shows "\<exists>sgr P L bs. let seg = omx_user_region_add_segment frame useg; x = (seg, sgr, P, L) in
      rid < OMX_USER_REGION_MAX_ID \<and> fe_regions ep rid = None
      \<and> ep' = ep\<lparr>fe_regions := (fe_regions ep)(rid \<mapsto> \<lparr>rgn_segments = [seg], rgn_total_length = seg_len useg\<rparr>),
              fe_grants := (fe_grants ep)(rid := [sgr])\<rparr>
      \<and> be' = be(endpoint_index ep \<mapsto> endpoint(rid \<mapsto> \<lparr>br_id = of_nat rid, br_eid = of_nat (endpoint_index ep), br_segments = [bs],
          br_total_length = unat (bs_length bs)\<rparr>))
      \<and> lent G held V s' x bs \<and> xen_ok held V s'
      \<and> set (gs_refs x) \<inter> dom (granted (V (xs_hyp s))) = {} \<and> gs_lists x \<inter> guest_pages (V (xs_hyp s)) = {}
      \<and> granted (V (xs_hyp s')) |` (- set (gs_refs x)) = granted (V (xs_hyp s))
      \<and> maptrack (V (xs_hyp s')) |` (- set (be_handles bs)) = maptrack (V (xs_hyp s))"
proof -
  let ?seg = "omx_user_region_add_segment frame useg" and ?eid = "endpoint_index ep"
  let ?region = "\<lparr>rgn_segments = [?seg], rgn_total_length = seg_len useg\<rparr>"
  have "sg_length ?seg = seg_len useg" by (simp add: omx_user_region_add_segment_def Let_def)
  have rid: "rid < OMX_USER_REGION_MAX_ID" and free: "fe_regions ep rid = None"
    and cr: "omx_ioctl_user_region_create frame mem_ok pin_ok rid [useg] (fe_regions ep)
        = (None, (fe_regions ep)(rid \<mapsto> ?region))"
    using run useg \<open>sg_length ?seg = seg_len useg\<close>
    by (auto simp: omx_ioctl_xen_user_region_create_def omx_ioctl_user_region_create_def Let_def split: if_splits)
  from run cr obtain sgrs segs s1 where
    segs: "create_segments G rid ?eid 0 (length [?seg]) [?seg] [] (rc_segs old) s = Some (None, sgrs, segs, s1)"
    and serve: "process_create_user_region G be_mem (old\<lparr>rc_nr_segments := 1, rc_id := of_nat rid, rc_eid := of_nat ?eid, rc_segs := segs\<rparr>) s1 be
        = Some (Some REGISTERED, s', be')"
    and ep': "ep' = ep\<lparr>fe_regions := (fe_regions ep)(rid \<mapsto> ?region), fe_grants := (fe_grants ep)(rid := sgrs)\<rparr>"
    by (auto simp: omx_ioctl_xen_user_region_create_def bind_eq_Some_conv Let_def simp del: create_segments.simps split: if_splits)
  have "\<forall>seg \<in> set [?seg]. sg_length seg \<noteq> 0" using useg \<open>sg_length ?seg = seg_len useg\<close> by simp
  from create_segments_ok [OF segs laws ok this] obtain gs where
    gs: "map gs_seg gs = [?seg]" "sgrs = [] @ map gs_grant gs" "region_granted G held V s1 gs" "xen_ok held V s1" "extends G V s s1"
      "\<forall>x \<in> set gs. sgr_cookie (gs_grant x) \<notin> set (gref_cookies_inuse (xs_fe s)) \<and> gs_lists x \<inter> guest_pages (V (xs_hyp s)) = {}"
      "set (all_refs gs) \<inter> dom (granted (V (xs_hyp s))) = {}"
      "dom (granted (V (xs_hyp s1))) = dom (granted (V (xs_hyp s))) \<union> set (all_refs gs)"
      "0 + length [?seg] \<le> max 0 (length (rc_segs old))" "length segs = length (rc_segs old)"
      "\<forall>k < length [?seg]. segs ! (0 + k)
         = fill_ring_segment rid ?eid (0 + k) ([?seg] ! k) (gs_grant (gs ! k)) (rc_segs old ! (0 + k))"
    by (elim exE conjE) (rule that)
  from gs(1) obtain sgr P L where x: "gs = [(?seg, sgr, P, L)]" by (cases gs) (auto simp: gs_seg_def)
  let ?x = "(?seg, sgr, P, L)"
  from gs(10,11) x gs(9) obtain rest where sg: "segs = fill_ring_segment rid ?eid 0 ?seg sgr (rc_segs old ! 0) # rest"
    by (cases segs) (auto simp: gs_grant_def)
  let ?reg = "fill_ring_segment rid ?eid 0 ?seg sgr (rc_segs old ! 0)"
  have gr: "is_granted G held V s1 ?x" "distinct (gs_refs ?x)" using gs(3) x by (simp_all add: region_granted_def)
  have "seg_granted G (V (xs_hyp s1)) (xs_words s1) ?seg sgr P L" using gr(1) by (simp add: is_granted_def gs_defs)
  then have req: "req_for ?x ?reg" by (rule filled_req_for)
  from process_create_one [OF serve _ _ _ _ _ _ _ eid rid be, of ?reg rest] sg obtain bs where
    bs: "register_segment G be_mem ?reg zero_be_segment s1 = Some (None, bs, s')"
      "be' = be(?eid \<mapsto> endpoint(rid \<mapsto> \<lparr>br_id = of_nat rid, br_eid = of_nat ?eid, br_segments = [bs],
          br_total_length = unat (bs_length bs)\<rparr>))"
    by (auto simp: fill_ring_segment_def)
  note m = register_segment_ok [OF bs(1) laws gr(1) req]
  have mt: "maptrack (V (xs_hyp s1)) = maptrack (V (xs_hyp s))" using gs(5) by (simp add: extends_def)
  have new: "set (gs_refs ?x) \<inter> dom (granted (V (xs_hyp s))) = {}" using gs(7) x by simp
  have lists: "gs_lists ?x \<inter> guest_pages (V (xs_hyp s)) = {}" using gs(6) x by simp
  note l = maps_lent [OF m(2) gr(1) ok new mt gr(2) m(1)]
  have "xen_ok held V s'"
  proof -
    have "ran (maptrack (V (xs_hyp s'))) \<subseteq> dom (granted (V (xs_hyp s')))"
    proof
      fix g
      assume "g \<in> ran (maptrack (V (xs_hyp s')))"
      then have "g \<in> ran (maptrack (V (xs_hyp s1))) \<or> g \<in> set (gs_refs ?x)"
        using m(2) by (auto simp: maps_in_def ran_def map_add_Some_iff dest!: map_of_SomeD set_zip_rightD)
      moreover have "granted (V (xs_hyp s')) = granted (V (xs_hyp s1))" using m(2) by (simp add: maps_in_def)
      ultimately show "g \<in> dom (granted (V (xs_hyp s')))"
        using gs(4,8) x unfolding xen_ok_def grants_ok_def by auto
    qed
    with gs(4) m(2) show ?thesis
      by (simp add: xen_ok_def grants_ok_def maps_in_def cookies_idle_def)
  qed
  moreover have "granted (V (xs_hyp s')) |` (- set (gs_refs ?x)) = granted (V (xs_hyp s))"
  proof (rule ext)
    fix g
    have "granted (V (xs_hyp s')) = granted (V (xs_hyp s1))" using m(2) by (simp add: maps_in_def)
    moreover have "granted (V (xs_hyp s)) \<subseteq>\<^sub>m granted (V (xs_hyp s1))" using gs(5) by (simp add: extends_def)
    moreover have "dom (granted (V (xs_hyp s1))) = dom (granted (V (xs_hyp s))) \<union> set (gs_refs ?x)" using gs(8) x by simp
    ultimately show "(granted (V (xs_hyp s')) |` (- set (gs_refs ?x))) g = granted (V (xs_hyp s)) g"
      using new by (cases "g \<in> set (gs_refs ?x)"; cases "granted (V (xs_hyp s)) g") (auto dest: map_le_Some)
  qed
  ultimately show ?thesis
    using rid free ep' gs(2) x bs(2) l new lists unfolding Let_def by (auto simp: gs_grant_def)
qed

subsection \<open>Serving the destruction\<close>

lemma unmap_parts_ok:
  "xen_laws G held V \<Longrightarrow> distinct hdls \<Longrightarrow> set hdls \<subseteq> dom (maptrack (V (xs_hyp s))) \<Longrightarrow>
     \<exists>s' q. unmap_parts G hdls s = Some (0, s') \<and> xs_fe s' = xs_fe s \<and> xs_words s' = xs_words s
       \<and> V (xs_hyp s') = (V (xs_hyp s))\<lparr>maptrack := maptrack (V (xs_hyp s)) |` (- set hdls), p2m := q\<rparr>"
proof (induction hdls arbitrary: s)
  case Nil
  show ?case by (intro exI [of _ s] exI [of _ "p2m (V (xs_hyp s))"]) simp
next
  case (Cons hdl hdls)
  obtain err sts h where u: "unmap_grant_refs G [hdl] (xs_hyp s) = (err, sts, h)" by (metis prod_cases3)
  from law_unmap [OF Cons.prems(1) u] Cons.prems(3) obtain q where
    l: "\<not> err" "sts = [0]" "V h = (V (xs_hyp s))\<lparr>maptrack := maptrack (V (xs_hyp s)) |` (- {hdl}), p2m := q\<rparr>"
    by auto
  let ?s1 = "s\<lparr>xs_hyp := h\<rparr>"
  have "set hdls \<subseteq> dom (maptrack (V (xs_hyp ?s1)))" "distinct hdls" using Cons.prems(2,3) l(3) by auto
  from Cons.IH [OF Cons.prems(1) this(2,1)] obtain s' q' where
    i: "unmap_parts G hdls ?s1 = Some (0, s')" "xs_fe s' = xs_fe s" "xs_words s' = xs_words s"
      "V (xs_hyp s') = (V h)\<lparr>maptrack := maptrack (V h) |` (- set hdls), p2m := q'\<rparr>"
    by auto
  have "V (xs_hyp s') = (V (xs_hyp s))\<lparr>maptrack := maptrack (V (xs_hyp s)) |` (- set (hdl # hdls)), p2m := q'\<rparr>"
  proof -
    have "- {hdl} \<inter> - set hdls = - set (hdl # hdls)" by auto
    with i(4) l(3) show ?thesis by simp
  qed
  with i u l show ?case by (intro exI [of _ s'] exI [of _ q']) (simp add: Let_def)
qed

lemma fold_free_vm_area:
  "xen_laws G held V \<Longrightarrow> \<exists>d. V (fold (free_vm_area G) as h) = (V h)\<lparr>driver_pages := d\<rparr>"
proof (induction as arbitrary: h)
  case Nil
  show ?case by (intro exI [of _ "driver_pages (V h)"]) simp
next
  case (Cons a as)
  from Cons.IH [OF Cons.prems, of "free_vm_area G a h"] law_free_vm_area [OF Cons.prems] show ?case by auto
qed

lemma deregister_ok:
  assumes "lent G held V s x bs" and laws: "xen_laws G held V"
  shows "\<exists>s' q d. deregister_segment G bs s = Some (None, s') \<and> xs_fe s' = xs_fe s \<and> xs_words s' = xs_words s
    \<and> V (xs_hyp s') = (V (xs_hyp s))\<lparr>maptrack := maptrack (V (xs_hyp s)) |` (- set (be_handles bs)), p2m := q, driver_pages := d\<rparr>"
proof -
  let ?parts = "unat (bs_nr_parts bs)"
  let ?phs = "take ?parts (bs_all_handle bs)"
  have l: "?parts \<le> length (bs_all_handle bs)" "?parts \<le> length (bs_vm_gref bs)"
    and "bs_unmap bs \<noteq> None"
    using assms(1) by (simp_all add: lent_def seg_mapped_def)
  then obtain hdls where hdls: "bs_unmap bs = Some hdls" by blast
  then have hs: "be_handles bs = ?phs @ hdls" by (simp add: be_handles_def)
  have d: "distinct ?phs" "distinct hdls" "set ?phs \<inter> set hdls = {}"
    and sub: "set ?phs \<subseteq> dom (maptrack (V (xs_hyp s)))" "set hdls \<subseteq> dom (maptrack (V (xs_hyp s)))"
    using assms(1) by (simp_all add: lent_def hs)
  obtain err sts h where u: "unmap_grant_refs G hdls (xs_hyp s) = (err, sts, h)" by (metis prod_cases3)
  from law_unmap(3) [OF laws u d(2) sub(2)] obtain q where
    q: "V h = (V (xs_hyp s))\<lparr>maptrack := maptrack (V (xs_hyp s)) |` (- set hdls), p2m := q\<rparr>" by blast
  let ?s1 = "s\<lparr>xs_hyp := h\<rparr>"
  have "set ?phs \<subseteq> dom (maptrack (V (xs_hyp ?s1)))" using sub(1) d(3) q by auto
  from unmap_parts_ok [OF laws d(1) this] obtain s2 q2 where
    s2: "unmap_parts G ?phs ?s1 = Some (0, s2)" "xs_fe s2 = xs_fe s" "xs_words s2 = xs_words s"
      "V (xs_hyp s2) = (V h)\<lparr>maptrack := maptrack (V h) |` (- set ?phs), p2m := q2\<rparr>"
    by auto
  have v2: "V (xs_hyp s2) = (V (xs_hyp s))\<lparr>maptrack := maptrack (V (xs_hyp s)) |` (- set (be_handles bs)), p2m := q2\<rparr>"
  proof -
    have "- set hdls \<inter> - set ?phs = - set (be_handles bs)" by (auto simp: hs)
    with s2(4) q show ?thesis by simp
  qed
  from fold_free_vm_area [OF laws, of "take ?parts (bs_vm_gref bs)" "xs_hyp s2"] obtain d where
    d: "V (fold (free_vm_area G) (take ?parts (bs_vm_gref bs)) (xs_hyp s2)) = (V (xs_hyp s2))\<lparr>driver_pages := d\<rparr>" by blast
  let ?s3 = "on_hyp (free_xenballooned_pages G (bs_pages bs)) (on_hyp (fold (free_vm_area G) (take ?parts (bs_vm_gref bs))) s2)"
  have "deregister_segment G bs s = Some (None, ?s3)"
    using l hdls u s2(1) by (simp add: deregister_segment_def Let_def)
  moreover have "V (xs_hyp ?s3) = (V (xs_hyp s))\<lparr>maptrack := maptrack (V (xs_hyp s)) |` (- set (be_handles bs)), p2m := q2,
      driver_pages := d - set (bs_pages bs)\<rparr>"
    using law_free_balloon [OF laws] d v2 by (simp add: on_hyp_def)
  moreover have "xs_fe ?s3 = xs_fe s" "xs_words ?s3 = xs_words s" using s2(2,3) by (simp_all add: on_hyp_def)
  ultimately show ?thesis by blast
qed

lemma process_destroy_one:
  assumes "lent G held V s x bs" and laws: "xen_laws G held V"
    and req: "rx_nr_segments req = 1" "rx_id req = of_nat rid" "rx_eid req = of_nat eid" "rx_segs req = reg # rest"
    and reg: "rd_rid reg = of_nat rid" "rd_eid reg = of_nat eid" "rd_sid reg = 0"
    and small: "eid < 255" "rid < OMX_USER_REGION_MAX_ID"
    and be: "be eid = Some endpoint" "endpoint rid = Some r" "br_segments r = [bs]" "br_id r = of_nat rid"
  shows "\<exists>s' q d. process_destroy_user_region G req s be = Some (Some DEREGISTERED, s', be(eid \<mapsto> endpoint(rid := None)))
    \<and> xs_fe s' = xs_fe s \<and> xs_words s' = xs_words s
    \<and> V (xs_hyp s') = (V (xs_hyp s))\<lparr>maptrack := maptrack (V (xs_hyp s)) |` (- set (be_handles bs)), p2m := q, driver_pages := d\<rparr>"
proof -
  have rid: "unat (of_nat rid :: u32) = rid"
    using small(2) by (simp add: OMX_USER_REGION_MAX_ID_def unat_of_nat take_bit_nat_eq_self)
  have eid: "unat (of_nat eid :: u8) = eid" "eid < 256"
    using small(1) by (simp_all add: unat_of_nat take_bit_nat_eq_self)
  have look: "xen_regions eid rid be = Some (Some r)"
    using be small by (simp add: xen_regions_def)
  from deregister_ok [OF assms(1) laws] obtain s' q d where
    s': "deregister_segment G bs s = Some (None, s')" "xs_fe s' = xs_fe s" "xs_words s' = xs_words s"
      "V (xs_hyp s') = (V (xs_hyp s))\<lparr>maptrack := maptrack (V (xs_hyp s)) |` (- set (be_handles bs)), p2m := q, driver_pages := d\<rparr>"
    by blast
  have "deregister_segments G rid eid [reg] be s = Some (rid, eid, s')"
    using reg look rid ucast_eid [OF eid(2)] s'(1) be(3)
    by (simp add: omx_xen_deregister_user_segment_def Let_def)
  moreover have "omx_xen_destroy_user_region rid eid be = Some (None, be(eid \<mapsto> endpoint(rid := None)))"
    using small look be rid by (simp add: omx_xen_destroy_user_region_def set_xen_region_def)
  ultimately have "process_destroy_user_region G req s be = Some (Some DEREGISTERED, s', be(eid \<mapsto> endpoint(rid := None)))"
    using req rid eid by (simp add: process_destroy_user_region_def)
  with s' show ?thesis by blast
qed

subsection \<open>Taking the grants back\<close>

text \<open>\<open>gave ck R\<close>: the references \<open>R\<close> grant nothing any more and are back in the cookie.\<close>

definition gave ::
  "('c \<Rightarrow> gref set) \<Rightarrow> ('h \<Rightarrow> hyp_view) \<Rightarrow> nat \<Rightarrow> gref set \<Rightarrow> ('h, 'c) xen_state \<Rightarrow> ('h, 'c) xen_state \<Rightarrow> bool"
where
  "gave held V ck R s s' \<longleftrightarrow>
     xs_words s' = xs_words s
     \<and> V (xs_hyp s') = (V (xs_hyp s))\<lparr>granted := granted (V (xs_hyp s)) |` (- R)\<rparr>
     \<and> (\<exists>c c'. fe_cookies (xs_fe s) ck = Some c \<and> ck_count c' = ck_count c
          \<and> held (gref_head c') = held (gref_head c) \<union> R
          \<and> xs_fe s' = (xs_fe s)\<lparr>fe_cookies := (fe_cookies (xs_fe s))(ck \<mapsto> c')\<rparr>)"

lemma gave_empty:
  assumes "fe_cookies (xs_fe s) ck = Some c"
  shows "gave held V ck {} s s"
proof -
  have "(fe_cookies (xs_fe s))(ck \<mapsto> c) = fe_cookies (xs_fe s)" using assms by (rule fun_upd_idem)
  moreover have "granted (V (xs_hyp s)) |` UNIV = granted (V (xs_hyp s))" by (rule ext) (simp add: restrict_map_def)
  ultimately show ?thesis using assms by (auto simp: gave_def intro!: exI [of _ c])
qed

lemma gave_trans:
  assumes "gave held V ck A s t" and "gave held V ck B t u"
  shows "gave held V ck (A \<union> B) s u"
proof -
  from assms(1) obtain c c' where 1: "xs_words t = xs_words s"
      "V (xs_hyp t) = (V (xs_hyp s))\<lparr>granted := granted (V (xs_hyp s)) |` (- A)\<rparr>"
      "fe_cookies (xs_fe s) ck = Some c" "ck_count c' = ck_count c" "held (gref_head c') = held (gref_head c) \<union> A"
      "xs_fe t = (xs_fe s)\<lparr>fe_cookies := (fe_cookies (xs_fe s))(ck \<mapsto> c')\<rparr>"
    unfolding gave_def by blast
  from assms(2) obtain d d' where 2: "xs_words u = xs_words t"
      "V (xs_hyp u) = (V (xs_hyp t))\<lparr>granted := granted (V (xs_hyp t)) |` (- B)\<rparr>"
      "fe_cookies (xs_fe t) ck = Some d" "ck_count d' = ck_count d" "held (gref_head d') = held (gref_head d) \<union> B"
      "xs_fe u = (xs_fe t)\<lparr>fe_cookies := (fe_cookies (xs_fe t))(ck \<mapsto> d')\<rparr>"
    unfolding gave_def by blast
  have "d = c'" using 1(6) 2(3) by simp
  moreover have "- A \<inter> - B = - (A \<union> B)" by auto
  then have "V (xs_hyp u) = (V (xs_hyp s))\<lparr>granted := granted (V (xs_hyp s)) |` (- (A \<union> B))\<rparr>"
    unfolding 2(2) 1(2) by simp
  moreover have "xs_fe u = (xs_fe s)\<lparr>fe_cookies := (fe_cookies (xs_fe s))(ck \<mapsto> d')\<rparr>"
    unfolding 2(6) 1(6) by simp
  ultimately show ?thesis
    unfolding gave_def using 1(1,3-5) 2(1,4,5) by (metis Un_assoc)
qed

lemma release_one:
  assumes laws: "xen_laws G held V" and ok: "xen_ok held V s" and ck: "ck \<in> set (gref_cookies_inuse (xs_fe s))"
    and g: "g \<in> dom (granted (V (xs_hyp s)))" "g \<notin> ran (maptrack (V (xs_hyp s)))"
  shows "release_part G ck g s = release_page G ck g s"
    "\<exists>s'. release_page G ck g s = Some s' \<and> gave held V ck {g} s s' \<and> xen_ok held V s' \<and> ck \<in> set (gref_cookies_inuse (xs_fe s'))"
proof -
  have gok: "grants_ok held (V (xs_hyp s)) (xs_fe s)" using ok by (simp add: xen_ok_def)
  obtain c where c: "fe_cookies (xs_fe s) ck = Some c" using inuse_cookie [OF gok ck] by blast
  obtain b h where e: "gnttab_end_foreign_access_ref G g (xs_hyp s) = (b, h)" by fastforce
  have b: "b" and v: "V h = (V (xs_hyp s))\<lparr>granted := (granted (V (xs_hyp s)))(g := None)\<rparr>"
    using law_end [OF laws e] g(2) by simp_all
  have q: "\<not> gnttab_query_foreign_access G g (xs_hyp s)" using law_query [OF laws] g(2) by simp
  let ?c = "c\<lparr>gref_head := gnttab_release_grant_reference G g (gref_head c)\<rparr>"
  let ?s = "set_cookie ck ?c (s\<lparr>xs_hyp := h\<rparr>)"
  show "release_part G ck g s = release_page G ck g s"
    using e b q by (simp add: release_page_def release_part_def)
  have "release_page G ck g s = Some ?s"
    using e b q c by (simp add: release_page_def omx_gnttab_release_grant_reference_def)
  moreover have h: "held (gref_head ?c) = insert g (held (gref_head c))" by (simp add: law_release [OF laws])
  moreover have "granted (V (xs_hyp s)) |` (- {g}) = (granted (V (xs_hyp s)))(g := None)"
    by (simp add: restrict_complement_singleton_eq)
  ultimately have v': "V (xs_hyp ?s) = (V (xs_hyp s))\<lparr>granted := granted (V (xs_hyp s)) |` (- {g})\<rparr>"
    and r1: "release_page G ck g s = Some ?s"
    using v by (simp_all add: set_cookie_def)
  have "ck_count ?c = ck_count c" "held (gref_head ?c) = held (gref_head c) \<union> {g}"
    "xs_fe ?s = (xs_fe s)\<lparr>fe_cookies := (fe_cookies (xs_fe s))(ck \<mapsto> ?c)\<rparr>" "xs_words ?s = xs_words s"
    using h by (simp_all add: set_cookie_def)
  with v' c have "gave held V ck {g} s ?s" unfolding gave_def by blast
  note r = r1 this
  have un: "grants_ok held (V h) (xs_fe s)" unfolding v by (rule ungrant_kept [OF gok g(2)])
  have "g \<notin> held (gref_head d)" if "fe_cookies (xs_fe s) i = Some d" for i d
    using gok g(1) that unfolding grants_ok_def cookies_idle_def by blast
  moreover have "g \<in> owned (V h)" using gok g(1) v unfolding grants_ok_def by auto
  moreover have "granted (V h) g = None" using v by simp
  ultimately have "xen_ok held V ?s"
    using cookie_grows [OF un c ck h] by (simp add: xen_ok_def set_cookie_def)
  with r ck show "\<exists>s'. release_page G ck g s = Some s' \<and> gave held V ck {g} s s' \<and> xen_ok held V s'
      \<and> ck \<in> set (gref_cookies_inuse (xs_fe s'))"
    by (intro exI [of _ ?s]) (simp add: set_cookie_def)
qed

text \<open>A loop that releases one reference after the other, whichever of the two ways.\<close>

lemma release_loop:
  "xen_laws G held V \<Longrightarrow> xen_ok held V s \<Longrightarrow> ck \<in> set (gref_cookies_inuse (xs_fe s)) \<Longrightarrow>
     (\<And>x t. x \<in> set xs \<Longrightarrow> xs_words t = xs_words s \<Longrightarrow> f x t = release_page G ck (r x) t \<or> f x t = release_part G ck (r x) t) \<Longrightarrow>
     distinct (map r xs) \<Longrightarrow> r ` set xs \<subseteq> dom (granted (V (xs_hyp s))) \<Longrightarrow> r ` set xs \<inter> ran (maptrack (V (xs_hyp s))) = {} \<Longrightarrow>
     \<exists>s'. foreach f xs s = Some s' \<and> gave held V ck (r ` set xs) s s' \<and> xen_ok held V s'
       \<and> ck \<in> set (gref_cookies_inuse (xs_fe s'))"
proof (induction xs arbitrary: s)
  case Nil
  obtain c where c: "fe_cookies (xs_fe s) ck = Some c"
    using inuse_cookie [OF Nil.prems(2) [unfolded xen_ok_def] Nil.prems(3)] by blast
  from gave_empty [OF c, of held V] Nil.prems(2,3) show ?case
    unfolding foreach.simps list.set image_empty by blast
next
  case (Cons x xs)
  have x: "r x \<in> dom (granted (V (xs_hyp s)))" "r x \<notin> ran (maptrack (V (xs_hyp s)))" using Cons.prems(6,7) by auto
  note one = release_one [OF Cons.prems(1-3) x]
  have eq: "f x s = release_page G ck (r x) s" using Cons.prems(4) [of x s] one(1) by auto
  from one(2) obtain s1 where
    s1: "f x s = Some s1" "gave held V ck {r x} s s1" "xen_ok held V s1" "ck \<in> set (gref_cookies_inuse (xs_fe s1))"
    unfolding eq by blast
  have w: "xs_words s1 = xs_words s" and v: "V (xs_hyp s1) = (V (xs_hyp s))\<lparr>granted := granted (V (xs_hyp s)) |` (- {r x})\<rparr>"
    using s1(2) by (simp_all add: gave_def)
  have "\<exists>s'. foreach f xs s1 = Some s' \<and> gave held V ck (r ` set xs) s1 s' \<and> xen_ok held V s'
       \<and> ck \<in> set (gref_cookies_inuse (xs_fe s'))"
  proof (rule Cons.IH [OF Cons.prems(1) s1(3,4)])
    show "f y t = release_page G ck (r y) t \<or> f y t = release_part G ck (r y) t" if "y \<in> set xs" "xs_words t = xs_words s1" for y t
      using Cons.prems(4) [of y t] that w by simp
    show "distinct (map r xs)" using Cons.prems(5) by simp
    show "r ` set xs \<subseteq> dom (granted (V (xs_hyp s1)))" using Cons.prems(5,6) v by auto
    show "r ` set xs \<inter> ran (maptrack (V (xs_hyp s1))) = {}" using Cons.prems(7) v by auto
  qed
  then obtain s' where "foreach f xs s1 = Some s'" "gave held V ck (r ` set xs) s1 s'" "xen_ok held V s'"
      "ck \<in> set (gref_cookies_inuse (xs_fe s'))" by blast
  moreover from this have "gave held V ck (r ` set (x # xs)) s s'"
    using gave_trans [OF s1(2), of "r ` set xs" s'] by simp
  ultimately show ?case using s1(1) by (intro exI [of _ s']) simp
qed

lemma put_cookie_ok:
  assumes "xen_ok held V s" and "ck \<in> set (gref_cookies_inuse (xs_fe s))"
    and "fe_cookies (xs_fe s) ck = Some c" and "card (held (gref_head c)) = unat (ck_count c)"
  shows "xen_ok held V (omx_xen_gnttab_free_grant_references ck s)"
proof -
  let ?fe = "omx_xenfront_gref_put_cookie ck (xs_fe s)"
  have l: "cookie_lists_ok (xs_fe s)" using assms(1) by (simp add: xen_ok_def grants_ok_def)
  then have "ck \<notin> set (gref_cookies_free (xs_fe s))" using assms(2) by (auto simp: cookie_lists_ok_def)
  then have fe: "gref_cookies_free ?fe = gref_cookies_free (xs_fe s) @ [ck]"
      "gref_cookies_inuse ?fe = removeAll ck (gref_cookies_inuse (xs_fe s))"
    and st: "fe_cookies ?fe = fe_cookies (xs_fe s)" "fe_next_cookie ?fe = fe_next_cookie (xs_fe s)"
    by (simp_all add: omx_xenfront_gref_put_cookie_def)
  have "set (gref_cookies_free ?fe @ gref_cookies_inuse ?fe) = set (gref_cookies_free (xs_fe s) @ gref_cookies_inuse (xs_fe s))"
    unfolding fe using assms(2) by auto
  moreover have "distinct (gref_cookies_free ?fe @ gref_cookies_inuse ?fe)"
    unfolding fe using l \<open>ck \<notin> _\<close> by (auto simp: cookie_lists_ok_def distinct_removeAll)
  ultimately have "cookie_lists_ok ?fe" using l unfolding cookie_lists_ok_def st by simp
  moreover have "cookies_full held (fe_cookies ?fe) (gref_cookies_free ?fe)"
    using assms(1,3,4) unfolding fe st by (auto simp: xen_ok_def grants_ok_def cookies_full_def)
  ultimately show ?thesis
    using assms(1) by (simp add: xen_ok_def grants_ok_def omx_xen_gnttab_free_grant_references_def st)
qed

lemma release_segment_ok:
  assumes laws: "xen_laws G held V" and ok: "xen_ok held V s" and x: "is_granted G held V s x" and dis: "distinct (gs_refs x)"
    and unmapped: "set (gs_refs x) \<inter> ran (maptrack (V (xs_hyp s))) = {}"
  shows "\<exists>s' q. release_segment G (gs_seg x) (gs_grant x) s = Some s' \<and> xen_ok held V s'
    \<and> V (xs_hyp s') = (V (xs_hyp s))\<lparr>granted := granted (V (xs_hyp s)) |` (- set (gs_refs x)), guest_pages := q\<rparr>"
proof -
  let ?sgr = "gs_grant x" and ?L = "gs_pages x" and ?P = "gs_parts x"
  let ?ck = "sgr_cookie ?sgr" and ?first = "sgr_gref_list ?sgr" and ?parts = "unat (sgr_nr_parts ?sgr)"
  let ?n = "length (pages (gs_seg x))"
  have sg: "seg_granted G (V (xs_hyp s)) (xs_words s) (gs_seg x) ?sgr ?P ?L"
    and co: "seg_cookie held (xs_fe s) ?sgr (gs_refs x)" using x by (simp_all add: is_granted_def)
  from co obtain c where ck: "?ck \<in> set (gref_cookies_inuse (xs_fe s))" and c: "fe_cookies (xs_fe s) ?ck = Some c"
    "card (held (gref_head c)) + length (gs_refs x) = unat (ck_count c)"
    by (auto simp: seg_cookie_def)
  have nL: "length ?L = ?n" and P: "?P = take ?parts (sgr_all_gref ?sgr)" and parts: "?parts \<le> length (sgr_all_gref ?sgr)"
    using sg unfolding seg_granted_def by (elim conjE; simp; fail)+
  have Lw: "xs_words s (gref_loc G ?first j) = ?L ! j" "granted (V (xs_hyp s)) (?L ! j) \<noteq> None" if "j < ?n" for j
    using sg that nL unfolding seg_granted_def by (metis option.distinct(1))+
  have Pg: "granted (V (xs_hyp s)) (?P ! k) \<noteq> None" if "k < length ?P" for k
    using sg that unfolding seg_granted_def by (metis option.distinct(1))
  have at: "map (gref_at G ?first s) [0..<?n] = ?L"
    using Lw(1) nL by (intro nth_equalityI) (simp_all add: gref_at_def gref_loc_def)
  then have img: "gref_at G ?first s ` set [0..<?n] = set ?L" by (metis image_set)
  have "\<exists>s1. foreach (\<lambda>j s. release_page G ?ck (gref_at G ?first s j) s) [0..<?n] s = Some s1
      \<and> gave held V ?ck (gref_at G ?first s ` set [0..<?n]) s s1 \<and> xen_ok held V s1 \<and> ?ck \<in> set (gref_cookies_inuse (xs_fe s1))"
  proof (rule release_loop [OF laws ok ck])
    show "release_page G ?ck (gref_at G ?first t j) t = release_page G ?ck (gref_at G ?first s j) t
        \<or> release_page G ?ck (gref_at G ?first t j) t = release_part G ?ck (gref_at G ?first s j) t"
      if "j \<in> set [0..<?n]" "xs_words t = xs_words s" for j t
      using that(2) by (simp add: gref_at_def)
    show "distinct (map (gref_at G ?first s) [0..<?n])" using dis unfolding at by (simp add: gs_defs)
    show "gref_at G ?first s ` set [0..<?n] \<subseteq> dom (granted (V (xs_hyp s)))"
      unfolding img using Lw(2) nL by (auto simp: in_set_conv_nth)
    show "gref_at G ?first s ` set [0..<?n] \<inter> ran (maptrack (V (xs_hyp s))) = {}"
      unfolding img using unmapped by (auto simp: gs_refs_def)
  qed
  then obtain s1 where s1: "foreach (\<lambda>j s. release_page G ?ck (gref_at G ?first s j) s) [0..<?n] s = Some s1"
      "gave held V ?ck (set ?L) s s1" "xen_ok held V s1" "?ck \<in> set (gref_cookies_inuse (xs_fe s1))"
    unfolding img by blast
  have v1: "V (xs_hyp s1) = (V (xs_hyp s))\<lparr>granted := granted (V (xs_hyp s)) |` (- set ?L)\<rparr>" using s1(2) by (simp add: gave_def)
  have "\<exists>s2. foreach (release_part G ?ck) ?P s1 = Some s2
      \<and> gave held V ?ck ((\<lambda>g. g) ` set ?P) s1 s2 \<and> xen_ok held V s2 \<and> ?ck \<in> set (gref_cookies_inuse (xs_fe s2))"
  proof (rule release_loop [OF laws s1(3,4)])
    show "distinct (map (\<lambda>g. g) ?P)" using dis by (simp add: gs_refs_def)
    have "set ?P \<subseteq> dom (granted (V (xs_hyp s)))" using Pg by (auto simp: in_set_conv_nth)
    then show "(\<lambda>g. g) ` set ?P \<subseteq> dom (granted (V (xs_hyp s1)))" using dis v1 by (auto simp: gs_refs_def)
    show "(\<lambda>g. g) ` set ?P \<inter> ran (maptrack (V (xs_hyp s1))) = {}" using unmapped v1 by (auto simp: gs_refs_def)
  qed simp
  then obtain s2 where s2: "foreach (release_part G ?ck) ?P s1 = Some s2"
      "gave held V ?ck (set ?P) s1 s2" "xen_ok held V s2" "?ck \<in> set (gref_cookies_inuse (xs_fe s2))"
    by auto
  have g: "gave held V ?ck (set (gs_refs x)) s s2"
    using gave_trans [OF s1(2) s2(2)] by (simp add: gs_refs_def Un_commute)
  then obtain c' where c': "fe_cookies (xs_fe s2) ?ck = Some c'" "ck_count c' = ck_count c"
      "held (gref_head c') = held (gref_head c) \<union> set (gs_refs x)"
    using c(1) by (auto simp: gave_def)
  have "set (gs_refs x) \<subseteq> dom (granted (V (xs_hyp s)))"
    using Lw(2) Pg nL by (auto simp: gs_refs_def in_set_conv_nth)
  then have "held (gref_head c) \<inter> set (gs_refs x) = {}"
    using ok c(1) unfolding xen_ok_def grants_ok_def cookies_idle_def by blast
  then have "card (held (gref_head c')) = unat (ck_count c')"
    using c(2) c' dis by (simp add: card_Un_disjoint law_finite [OF laws] distinct_card)
  from put_cookie_ok [OF s2(3,4) c'(1) this] have put: "xen_ok held V (omx_xen_gnttab_free_grant_references ?ck s2)" .
  let ?s' = "on_hyp (free_pages G ?first ?parts) (omx_xen_gnttab_free_grant_references ?ck s2)"
  have "release_segment G (gs_seg x) ?sgr s = Some ?s'"
    using s1(1) s2(1) parts P by (simp add: release_segment_def Let_def)
  moreover have "V (xs_hyp ?s') = (V (xs_hyp s))\<lparr>granted := granted (V (xs_hyp s)) |` (- set (gs_refs x)),
      guest_pages := guest_pages (V (xs_hyp s)) - {?first..<?first + ?parts}\<rparr>"
    using g law_free_pages [OF laws] by (simp add: on_hyp_def omx_xen_gnttab_free_grant_references_def gave_def)
  moreover have "xen_ok held V ?s'"
    using put law_free_pages [OF laws] by (simp add: xen_ok_def on_hyp_def grants_ok_view)
  ultimately show ?thesis by blast
qed

end
