(* ===== verification/Xen_Sample.thy ===== *)
theory Xen_Sample
  imports Xen_Sharing
begin

text \<open>
  A machine that satisfies the laws of theory \<open>Xen_Grants\<close>, and a guest with one region, on which the
  properties of the user regions are tried out.
\<close>

subsection \<open>The machine\<close>

record machine =
  mc_next_ref :: nat
  mc_granted :: "gref \<Rightarrow> mfn option"
  mc_maps :: "(handle \<times> gref) list"
  mc_next_handle :: nat
  mc_p2m :: "nat \<Rightarrow> mfn"
  mc_next_page :: nat
  mc_freed :: "nat set"
  mc_next_dpage :: nat
  mc_dfreed :: "nat set"

definition mc_view :: "machine \<Rightarrow> hyp_view" where
  "mc_view h = \<lparr>owned = of_nat ` {0..<min (mc_next_ref h) (2 ^ 32)}, granted = mc_granted h, maptrack = map_of (mc_maps h),
     p2m = mc_p2m h, guest_pages = {0..<mc_next_page h} - mc_freed h, driver_pages = {0..<mc_next_dpage h} - mc_dfreed h\<rparr>"

fun mc_map :: "(gref \<times> nat) list \<Rightarrow> machine \<Rightarrow> (int \<times> handle) list \<times> machine" where
  "mc_map [] h = ([], h)"
| "mc_map ((g, page) # ops) h =
     (let n = mc_next_handle h
      in if mc_granted h g \<noteq> None \<and> n < 2 ^ 31 \<and> map_of (mc_maps h) n = None
         then let (rs, h') = mc_map ops (h\<lparr>mc_maps := (n, g) # mc_maps h, mc_next_handle := n + 1,
                                            mc_p2m := (mc_p2m h)(page := the (mc_granted h g))\<rparr>)
              in ((0, n) # rs, h')
         else let (rs, h') = mc_map ops h in ((- 1, 0) # rs, h'))"

definition mc_alloc_refs :: "u32 \<Rightarrow> machine \<Rightarrow> gref list option \<times> machine" where
  "mc_alloc_refs n h =
     (if mc_next_ref h + unat n \<le> 2 ^ 32
      then (Some (map of_nat [mc_next_ref h..<mc_next_ref h + unat n]), h\<lparr>mc_next_ref := mc_next_ref h + unat n\<rparr>)
      else (None, h))"

definition mc_end_access :: "gref \<Rightarrow> machine \<Rightarrow> bool \<times> machine" where
  "mc_end_access g h =
     (if g \<in> ran (map_of (mc_maps h)) then (False, h) else (True, h\<lparr>mc_granted := (mc_granted h)(g := None)\<rparr>))"

definition sample_ops :: "(machine, gref list) xen_ops" where
  "sample_ops = \<lparr>
     kmalloc = \<lambda>h. (True, h),
     gnttab_alloc_grant_references = mc_alloc_refs,
     gnttab_claim_grant_reference = \<lambda>c. (case c of [] \<Rightarrow> None | g # gs \<Rightarrow> Some (g, removeAll g gs)),
     gnttab_release_grant_reference = (#),
     gnttab_grant_foreign_access_ref = \<lambda>g f h. h\<lparr>mc_granted := (mc_granted h)(g \<mapsto> f)\<rparr>,
     gnttab_query_foreign_access = \<lambda>g h. g \<in> ran (map_of (mc_maps h)),
     gnttab_end_foreign_access_ref = mc_end_access,
     get_free_pages = \<lambda>n h. (Some (mc_next_page h), h\<lparr>mc_next_page := mc_next_page h + n, mc_freed := mc_freed h \<inter> {0..<mc_next_page h}\<rparr>),
     free_pages = \<lambda>p n h. h\<lparr>mc_freed := mc_freed h \<union> {p..<p + n}\<rparr>,
     pfn_to_mfn = \<lambda>p. p + 1000,
     map_grant_refs = \<lambda>ops h. (False, mc_map ops h),
     unmap_grant_refs = \<lambda>hdls h. (False, replicate (length hdls) 0, h\<lparr>mc_maps := filter (\<lambda>(k, _). k \<notin> set hdls) (mc_maps h)\<rparr>),
     frame_of = mc_p2m,
     alloc_vm_area = \<lambda>h. (Some (mc_next_dpage h), h\<lparr>mc_next_dpage := mc_next_dpage h + 1, mc_dfreed := mc_dfreed h \<inter> {0..<mc_next_dpage h}\<rparr>),
     free_vm_area = \<lambda>a h. h\<lparr>mc_dfreed := insert a (mc_dfreed h)\<rparr>,
     alloc_xenballooned_pages = \<lambda>n h. (Some [mc_next_dpage h..<mc_next_dpage h + n],
        h\<lparr>mc_next_dpage := mc_next_dpage h + n, mc_dfreed := mc_dfreed h \<inter> {0..<mc_next_dpage h}\<rparr>),
     free_xenballooned_pages = \<lambda>ps h. h\<lparr>mc_dfreed := mc_dfreed h \<union> set ps\<rparr>\<rparr>"

lemma sample_ops_simps:
  "kmalloc sample_ops = (\<lambda>h. (True, h))"
  "gnttab_alloc_grant_references sample_ops = (mc_alloc_refs)"
  "gnttab_claim_grant_reference sample_ops = (\<lambda>c. (case c of [] \<Rightarrow> None | g # gs \<Rightarrow> Some (g, removeAll g gs)))"
  "gnttab_release_grant_reference sample_ops = ((#))"
  "gnttab_grant_foreign_access_ref sample_ops = (\<lambda>g f h. h\<lparr>mc_granted := (mc_granted h)(g \<mapsto> f)\<rparr>)"
  "gnttab_query_foreign_access sample_ops = (\<lambda>g h. g \<in> ran (map_of (mc_maps h)))"
  "gnttab_end_foreign_access_ref sample_ops = (mc_end_access)"
  "get_free_pages sample_ops = (\<lambda>n h. (Some (mc_next_page h), h\<lparr>mc_next_page := mc_next_page h + n, mc_freed := mc_freed h \<inter> {0..<mc_next_page h}\<rparr>))"
  "free_pages sample_ops = (\<lambda>p n h. h\<lparr>mc_freed := mc_freed h \<union> {p..<p + n}\<rparr>)"
  "pfn_to_mfn sample_ops = (\<lambda>p. p + 1000)"
  "map_grant_refs sample_ops = (\<lambda>ops h. (False, mc_map ops h))"
  "unmap_grant_refs sample_ops = (\<lambda>hdls h. (False, replicate (length hdls) 0, h\<lparr>mc_maps := filter (\<lambda>(k, _). k \<notin> set hdls) (mc_maps h)\<rparr>))"
  "frame_of sample_ops = (mc_p2m)"
  "alloc_vm_area sample_ops = (\<lambda>h. (Some (mc_next_dpage h), h\<lparr>mc_next_dpage := mc_next_dpage h + 1, mc_dfreed := mc_dfreed h \<inter> {0..<mc_next_dpage h}\<rparr>))"
  "free_vm_area sample_ops = (\<lambda>a h. h\<lparr>mc_dfreed := insert a (mc_dfreed h)\<rparr>)"
  "alloc_xenballooned_pages sample_ops = (\<lambda>n h. (Some [mc_next_dpage h..<mc_next_dpage h + n], h\<lparr>mc_next_dpage := mc_next_dpage h + n, mc_dfreed := mc_dfreed h \<inter> {0..<mc_next_dpage h}\<rparr>))"
  "free_xenballooned_pages sample_ops = (\<lambda>ps h. h\<lparr>mc_dfreed := mc_dfreed h \<union> set ps\<rparr>)"
  by (simp_all add: sample_ops_def)

lemma of_nat_u32_inj: "inj_on (of_nat :: nat \<Rightarrow> u32) {0..<2 ^ 32}"
proof (rule inj_onI)
  fix x y :: nat
  assume "x \<in> {0..<2 ^ 32}" "y \<in> {0..<2 ^ 32}" "(of_nat x :: u32) = of_nat y"
  then have "unat (of_nat x :: u32) = unat (of_nat y :: u32)" "x < 2 ^ 32" "y < 2 ^ 32" by simp_all
  then show "x = y" by (simp add: unat_of_nat take_bit_nat_eq_self)
qed

lemma mc_map_laws:
  "mc_map ops h = (rs, h') \<Longrightarrow>
     length rs = length ops \<and> mc_view h' = fold map_one (zip ops rs) (mc_view h) \<and> mc_granted h' = mc_granted h
     \<and> distinct (map snd (filter (\<lambda>r. fst r = 0) rs))
     \<and> (\<forall>r \<in> set rs. fst r = 0 \<longrightarrow> mc_next_handle h \<le> snd r \<and> map_of (mc_maps h) (snd r) = None \<and> snd r < 2 ^ 31)
     \<and> (\<forall>i < length ops. fst (rs ! i) = 0 \<longrightarrow> mc_granted h (fst (ops ! i)) \<noteq> None)"
proof (induction ops h arbitrary: rs h' rule: mc_map.induct)
  case (1 h)
  then show ?case by simp
next
  case (2 g page ops h)
  let ?n = "mc_next_handle h"
  let ?h1 = "h\<lparr>mc_maps := (?n, g) # mc_maps h, mc_next_handle := ?n + 1, mc_p2m := (mc_p2m h)(page := the (mc_granted h g))\<rparr>"
  show ?case
  proof (cases "mc_granted h g \<noteq> None \<and> ?n < 2 ^ 31 \<and> map_of (mc_maps h) ?n = None")
    case True
    obtain rs1 where r: "mc_map ops ?h1 = (rs1, h')" "rs = (0, ?n) # rs1"
      using 2(3) True by (auto simp: Let_def split: prod.splits)
    note IH = "2.IH"(1) [OF refl True r(1)]
    have "mc_view ?h1 = map_one ((g, page), (0, ?n)) (mc_view h)"
      by (simp add: mc_view_def map_one_def)
    moreover have "?n \<notin> set (map snd (filter (\<lambda>r. fst r = 0) rs1))" using IH by fastforce
    moreover have "mc_next_handle h \<le> snd r \<and> map_of (mc_maps h) (snd r) = None \<and> snd r < 2 ^ 31"
      if "r \<in> set rs" "fst r = 0" for r
      using IH that True r(2) by (auto split: if_splits)
    moreover have "mc_granted h (fst (((g, page) # ops) ! i)) \<noteq> None" if "i < length ((g, page) # ops)" "fst (rs ! i) = 0" for i
      using IH that True r(2) by (cases i) auto
    ultimately show ?thesis using IH r(2) by simp
  next
    case False
    obtain rs1 where r: "mc_map ops h = (rs1, h')" "rs = (- 1, 0) # rs1"
      using 2(3) False by (auto simp: Let_def split: prod.splits if_splits)
    note IH = "2.IH"(2) [OF refl False r(1)]
    moreover have "map_one ((g, page), (- 1, 0)) v = v" for v by (simp add: map_one_def)
    moreover have "mc_granted h (fst (((g, page) # ops) ! i)) \<noteq> None" if "i < length ((g, page) # ops)" "fst (rs ! i) = 0" for i
      using IH that r(2) by (cases i) auto
    ultimately show ?thesis using r(2) by simp
  qed
qed

lemma sample_chain_laws: "chain_laws sample_ops set"
  by (auto simp: chain_laws_def sample_ops_def split: list.splits)

lemma fresh_refs:
  assumes "a + n \<le> 2 ^ 32"
  shows "card (set (map of_nat [a..<a + n] :: u32 list)) = n"
    "set (map of_nat [a..<a + n]) \<inter> of_nat ` {0..<min a (2 ^ 32)} = ({} :: u32 set)"
proof -
  have sub: "{a..<a + n} \<subseteq> {0..<2 ^ 32}" "{0..<min a (2 ^ 32)} \<subseteq> {0..<2 ^ 32}" using assms by auto
  show "card (set (map of_nat [a..<a + n] :: u32 list)) = n"
    using card_image [OF inj_on_subset [OF of_nat_u32_inj sub(1)]] by simp
  have "{a..<a + n} \<inter> {0..<min a (2 ^ 32)} = {}" by auto
  with inj_on_image_Int [OF of_nat_u32_inj sub] show "set (map of_nat [a..<a + n]) \<inter> of_nat ` {0..<min a (2 ^ 32)} = ({} :: u32 set)"
    by simp
qed

lemma sample_grant_laws: "grant_laws sample_ops set mc_view"
proof -
  have some: "\<forall>n h c h'. gnttab_alloc_grant_references sample_ops n h = (Some c, h') \<longrightarrow>
      card (set c) = unat n \<and> set c \<inter> owned (mc_view h) = {} \<and> mc_view h' = (mc_view h)\<lparr>owned := owned (mc_view h) \<union> set c\<rparr>"
  proof (intro allI impI)
    fix n h c h'
    assume "gnttab_alloc_grant_references sample_ops n h = (Some c, h')"
    then have that: "mc_alloc_refs n h = (Some c, h')" by (simp add: sample_ops_def)
    let ?a = "mc_next_ref h"
    from that have le: "?a + unat n \<le> 2 ^ 32" and c: "c = map of_nat [?a..<?a + unat n]"
      and h': "h' = h\<lparr>mc_next_ref := ?a + unat n\<rparr>"
      by (auto simp: mc_alloc_refs_def split: if_splits)
    have "{0..<min (?a + unat n) (2 ^ 32)} = {0..<min ?a (2 ^ 32)} \<union> {?a..<?a + unat n}" using le by auto
    then have "owned (mc_view h') = owned (mc_view h) \<union> set c"
      by (simp add: mc_view_def h' c image_Un del: atLeastLessThan_iff)
    then show "card (set c) = unat n \<and> set c \<inter> owned (mc_view h) = {} \<and> mc_view h' = (mc_view h)\<lparr>owned := owned (mc_view h) \<union> set c\<rparr>"
      using fresh_refs [OF le] by (simp add: mc_view_def h' c)
  qed
  have none: "\<forall>n h h'. gnttab_alloc_grant_references sample_ops n h = (None, h') \<longrightarrow> mc_view h' = mc_view h"
    by (simp add: sample_ops_def mc_alloc_refs_def)
  have "gnttab_end_foreign_access_ref sample_ops g h = (b, h') \<longrightarrow> b = (g \<notin> ran (maptrack (mc_view h)))
      \<and> mc_view h' = (if b then (mc_view h)\<lparr>granted := (granted (mc_view h))(g := None)\<rparr> else mc_view h)" for g h b h'
    by (cases "g \<in> ran (map_of (mc_maps h))") (auto simp: sample_ops_def mc_end_access_def mc_view_def)
  then show ?thesis
    unfolding grant_laws_def by (intro conjI some none) (simp_all add: sample_ops_def mc_view_def)
qed

lemma sample_page_laws: "page_laws sample_ops mc_view"
  unfolding page_laws_def sample_ops_def
  by (intro conjI; simp; (rule injI; simp)?; auto simp: mc_view_def)

lemma sample_map_laws: "map_laws sample_ops mc_view"
proof -
  have "length rs = length ops \<and> mc_view h' = fold map_one (zip ops rs) (mc_view h)
          \<and> distinct (map snd (filter (\<lambda>r. fst r = 0) rs))
          \<and> (\<forall>i < length ops. fst (rs ! i) = 0 \<longrightarrow>
               granted (mc_view h) (fst (ops ! i)) \<noteq> None \<and> maptrack (mc_view h) (snd (rs ! i)) = None \<and> snd (rs ! i) < 2 ^ 31)"
    if "mc_map ops h = (rs, h')" for ops h rs h'
    using mc_map_laws [OF that] by (auto simp: mc_view_def)
  moreover have "map_of (filter (\<lambda>(k, _). k \<notin> A) xs) = map_of xs |` (- A)" for A :: "handle set" and xs :: "(handle \<times> gref) list"
    by (rule ext, induction xs) (auto simp: restrict_map_def)
  ultimately show ?thesis
    unfolding map_laws_def by (simp add: sample_ops_def) (auto simp: mc_view_def)
qed

lemma sample_laws: "xen_laws sample_ops set mc_view"
  by (simp add: xen_laws_def sample_chain_laws sample_grant_laws sample_page_laws sample_map_laws)

end
