(* ===== verification/Xen_Regions.thy ===== *)
theory Xen_Regions
  imports Xen_Sample
begin

text \<open>
  The properties of the user regions of a guest: what they promise to the backend that reads them, to
  the guest that takes them back, and where they fail.
\<close>

subsection \<open>A guest with one region\<close>

definition sample_machine :: machine where
  "sample_machine = \<lparr>mc_next_ref = 8, mc_granted = Map.empty, mc_maps = [], mc_next_handle = 1, mc_p2m = (\<lambda>_. 0),
     mc_next_page = 100, mc_freed = {}, mc_next_dpage = 500, mc_dfreed = {}\<rparr>"

definition sample_guest :: "(machine, gref list) xen_state" where
  "sample_guest = \<lparr>xs_fe = \<lparr>fe_cookies = Map.empty, fe_next_cookie = 0, gref_cookies_free = [], gref_cookies_inuse = []\<rparr>,
     xs_hyp = sample_machine, xs_words = (\<lambda>_. 0)\<rparr>"

definition sample_buffer :: omx_cmd_user_segment where
  "sample_buffer = \<lparr>vaddr = 8190, seg_len = 5\<rparr>"

definition sample_fe_endpoint :: fe_endpoint where
  "sample_fe_endpoint = \<lparr>endpoint_index = 2, fe_regions = Map.empty, fe_grants = (\<lambda>_. [])\<rparr>"

definition sample_backend :: backend where
  "sample_backend = [2 \<mapsto> Map.empty]"

definition sample_slot_segment :: ring_register_segment where
  "sample_slot_segment = \<lparr>rs_rid = 0, rs_eid = 0, rs_aligned_vaddr = 0, rs_first_page_offset = 0, rs_length = 0, rs_nr_pages = 0,
     rs_nr_grefs = 0, rs_gref = replicate 16 0, rs_sid = 0, rs_gref_offset = 0, rs_nr_parts = 0\<rparr>"

definition sample_slot :: ring_create_region where
  "sample_slot = \<lparr>rc_id = 0, rc_nr_segments = 0, rc_eid = 0, rc_segs = [sample_slot_segment, sample_slot_segment]\<rparr>"

lemma sample_ok: "xen_ok set mc_view sample_guest"
  by (simp add: xen_ok_def grants_ok_def sample_guest_def sample_machine_def cookie_lists_ok_def cookies_apart_def
      cookies_idle_def cookies_full_def mc_view_def)

abbreviation "sample_segment \<equiv> omx_user_region_add_segment (\<lambda>p. p + 50) sample_buffer"

lemma sample_segment: "sample_segment = \<lparr>aligned_vaddr = 4096, first_page_offset = 4094, sg_length = 5, pages = [51, 52]\<rparr>"
  by (simp add: omx_user_region_add_segment_def sample_buffer_def PAGE_SIZE_def Let_def upt_rec)

lemma replicate_16: "replicate 16 x = x # replicate 15 x"
  by (simp add: numeral_eq_Suc)

lemmas sample_run =
  grant_segment_def nr_parts_of_def PAGE_SIZE_def Let_def omx_xen_gnttab_alloc_grant_references_def
  omx_xenfront_gref_get_cookie_def gref_cookie_loop.simps cookie_alloc_loop.simps really_alloc_grant_references_def
  mc_alloc_refs_def cookie_fits_def take_cookie_def omx_gnttab_claim_grant_reference_def set_cookie_def on_hyp_def
  OMX_XEN_GRANT_PAGES_MAX_def NR_GREFS_def set_gref_list_def

lemma sample_grant: "\<exists>sgr s'. grant_segment sample_ops sample_segment sample_guest = Some (None, Some sgr, s')"
  unfolding sample_segment
  by (simp add: sample_run sample_ops_simps sample_guest_def sample_machine_def)

definition sample_granted :: "(machine, gref list) xen_state" where
  "sample_granted = \<lparr>xs_fe = \<lparr>fe_cookies = [0 \<mapsto> \<lparr>gref_head = [], ck_count = 3\<rparr>], fe_next_cookie = 1, gref_cookies_free = [],
       gref_cookies_inuse = [0]\<rparr>,
     xs_hyp = sample_machine\<lparr>mc_next_ref := 11, mc_granted := [8 \<mapsto> 1100, 9 \<mapsto> 1051, 10 \<mapsto> 1052], mc_next_page := 101\<rparr>,
     xs_words = (\<lambda>_. 0)((1100, 0) := 9, (1100, 1) := 10)\<rparr>"

definition sample_seg_grant :: seg_grant where
  "sample_seg_grant = \<lparr>sgr_cookie = 0, sgr_nr_parts = 1, sgr_all_gref = (replicate 16 0)[0 := 8], sgr_gref_list = 100\<rparr>"

lemma sample_grant_result:
  "grant_segment sample_ops sample_segment sample_guest = Some (None, Some sample_seg_grant, sample_granted)"
  unfolding sample_segment
  by (simp add: sample_run sample_ops_simps sample_guest_def sample_machine_def sample_granted_def sample_seg_grant_def)

definition sample_request :: ring_create_region where
  "sample_request = sample_slot\<lparr>rc_nr_segments := 1, rc_id := 7, rc_eid := 2,
     rc_segs := [fill_ring_segment 7 2 0 sample_segment sample_seg_grant sample_slot_segment, sample_slot_segment]\<rparr>"

definition sample_lent_segment :: be_segment where
  "sample_lent_segment = zero_be_segment\<lparr>bs_nr_parts := 1, bs_all_gref := 8 # replicate 15 0, bs_vm_gref := (replicate 16 0)[0 := 502],
     bs_all_handle := (replicate 16 0)[0 := 1], bs_first_page_offset := 4094, bs_unmap := Some [2, 3], bs_pages := [500, 501],
     bs_nr_pages := 2, bs_length := 5\<rparr>"

definition sample_lent :: "(machine, gref list) xen_state" where
  "sample_lent = sample_granted\<lparr>xs_hyp := (xs_hyp sample_granted)\<lparr>mc_maps := [(3, 10), (2, 9), (1, 8)], mc_next_handle := 4,
     mc_p2m := (\<lambda>_. 0)(502 := 1100, 500 := 1051, 501 := 1052), mc_next_dpage := 503\<rparr>\<rparr>"

lemma sample_register:
  "register_segment sample_ops True (rc_segs sample_request ! 0) zero_be_segment sample_granted
     = Some (None, sample_lent_segment, sample_lent)"
  unfolding sample_request_def sample_segment sample_lent_segment_def sample_lent_def
  by (simp add: register_segment_def fill_ring_segment_def sample_slot_segment_def sample_seg_grant_def sample_ops_simps
      omx_xen_accept_gref_list_def map_segment_pages_def gref_list_word_def sample_granted_def sample_machine_def zero_be_segment_def
      OMX_XEN_GRANT_PAGES_MAX_def NR_GREFS_def PAGE_SIZE_def Let_def upt_rec replicate_16)

definition sample_be_region :: be_region where
  "sample_be_region = \<lparr>br_id = 7, br_eid = 2, br_segments = [sample_lent_segment], br_total_length = 5\<rparr>"

definition sample_fe_created :: fe_endpoint where
  "sample_fe_created = sample_fe_endpoint\<lparr>fe_regions := [7 \<mapsto> \<lparr>rgn_segments = [sample_segment], rgn_total_length = 5\<rparr>],
     fe_grants := (\<lambda>_. [])(7 := [sample_seg_grant])\<rparr>"

lemma sample_serve:
  "process_create_user_region sample_ops True sample_request sample_granted sample_backend
     = Some (Some REGISTERED, sample_lent, [2 \<mapsto> [7 \<mapsto> sample_be_region]])"
proof -
  have "bs_length sample_lent_segment = 5" by (simp add: sample_lent_segment_def)
  then show ?thesis
    using sample_register
    by (simp add: process_create_user_region_def sample_request_def sample_slot_def omx_xen_create_user_region_def xen_regions_def
        set_xen_region_def sample_backend_def OMX_USER_REGION_MAX_ID_def omx_xen_register_user_segment_def fill_ring_segment_def
        Let_def sample_be_region_def)
qed

lemma sample_create:
  "omx_ioctl_xen_user_region_create sample_ops (process_create_user_region sample_ops True) (\<lambda>p. p + 50) True True sample_slot
     7 [sample_buffer] sample_fe_endpoint sample_guest sample_backend
   = Some (None, sample_fe_created, sample_lent, [2 \<mapsto> [7 \<mapsto> sample_be_region]])"
proof -
  have len: "sg_length sample_segment = 5" "seg_len sample_buffer = 5" by (simp_all only: sample_segment) (simp_all add: sample_buffer_def)
  then have "omx_ioctl_user_region_create (\<lambda>p. p + 50) True True 7 [sample_buffer] Map.empty
      = (None, [7 \<mapsto> \<lparr>rgn_segments = [sample_segment], rgn_total_length = 5\<rparr>])"
    by (simp add: omx_ioctl_user_region_create_def OMX_USER_REGION_MAX_ID_def Let_def)
  moreover have "create_segments sample_ops 7 2 0 1 [sample_segment] [] (rc_segs sample_slot) sample_guest
      = Some (None, [sample_seg_grant], rc_segs sample_request, sample_granted)"
    using sample_grant_result len by (simp add: sample_request_def sample_slot_def)
  moreover have "sample_slot\<lparr>rc_nr_segments := 1, rc_id := 7, rc_eid := 2, rc_segs := rc_segs sample_request\<rparr> = sample_request"
    by (simp add: sample_request_def sample_slot_def)
  ultimately show ?thesis
    using sample_serve
    by (simp add: omx_ioctl_xen_user_region_create_def sample_fe_endpoint_def sample_fe_created_def del: create_segments.simps)
qed

subsection \<open>What the backend reads\<close>

text \<open>A segment that was granted has at most 16384 pages, so that its length fits the message.\<close>

lemma granted_pages: "seg_granted G v w seg sgr P L \<Longrightarrow> length (pages seg) \<le> 16384"
proof -
  assume sg: "seg_granted G v w seg sgr P L"
  then have "unat (sgr_nr_parts sgr) \<le> 16" "length (pages seg) \<le> unat (sgr_nr_parts sgr) * NR_GREFS"
    by (simp_all add: seg_granted_def OMX_XEN_GRANT_PAGES_MAX_def)
  moreover from this(1) have "unat (sgr_nr_parts sgr) * NR_GREFS \<le> 16 * NR_GREFS" by (rule mult_le_mono1)
  ultimately show ?thesis by (simp add: NR_GREFS_def)
qed

lemma lent_view:
  assumes "lent G held V s (seg, sgr, P, L) bs" and "xen_laws G held V" and "seg_ok seg"
  shows "be_segment_view G (xs_hyp s) bs
    = \<lparr>aligned_vaddr = 0, first_page_offset = first_page_offset seg, sg_length = sg_length seg, pages = map (pfn_to_mfn G) (pages seg)\<rparr>"
    "unat (bs_length bs) = sg_length seg"
proof -
  have sg: "seg_granted G (V (xs_hyp s)) (xs_words s) seg sgr P L" and m: "seg_mapped G (V (xs_hyp s)) seg bs"
    using assms(1) by (simp_all add: lent_def is_granted_def gs_defs)
  have "PAGE_SIZE * length (pages seg) \<le> PAGE_SIZE * 16384" by (rule mult_le_mono2 [OF granted_pages [OF sg]])
  then have "sg_length seg \<le> 4096 * 16384" "first_page_offset seg < 4096"
    using assms(3) by (auto simp: seg_ok_def PAGE_SIZE_def)
  with m show len: "unat (bs_length bs) = sg_length seg"
    and "be_segment_view G (xs_hyp s) bs
      = \<lparr>aligned_vaddr = 0, first_page_offset = first_page_offset seg, sg_length = sg_length seg, pages = map (pfn_to_mfn G) (pages seg)\<rparr>"
    by (simp_all add: seg_mapped_def be_segment_view_def law_frame_of [OF assms(2)] unat_of_nat take_bit_nat_eq_self)
qed

lemma mapped_segment_flat:
  assumes "0 < seg_len useg"
  shows "seg_flat \<lparr>aligned_vaddr = 0, first_page_offset = first_page_offset (omx_user_region_add_segment frame useg),
      sg_length = sg_length (omx_user_region_add_segment frame useg), pages = map f (pages (omx_user_region_add_segment frame useg))\<rparr>
    = map (phys_of (\<lambda>p. f (frame p))) [vaddr useg..<vaddr useg + seg_len useg]"
  using add_segment_flat [OF assms, of "\<lambda>p. f (frame p)"]
  by (simp add: seg_flat_def omx_user_region_add_segment_def Let_def comp_def)

text \<open>
  C2: Once the creation of a region has been answered, whatever the backend copies out of its region, from
  any offset, is the guest's buffer: the bytes at the buffer's virtual addresses, through the page
  table of the process and the machine frames of the guest.
\<close>

theorem guest_buffer_read:
  assumes "xen_laws G held V" and "xen_ok held V s"
    and "omx_ioctl_xen_user_region_create G (process_create_user_region G be_mem) frame mem_ok pin_ok old rid [useg] ep s be
      = Some (None, ep', s', be')"
    and "seg_len useg \<noteq> 0" and "endpoint_index ep < 256"
    and "be (endpoint_index ep) = Some endpoint" and "endpoint rid = None"
    and "0 < n" and "off + n \<le> seg_len useg"
  shows "\<exists>r c c'. be' (endpoint_index ep) = Some (endpoint(rid \<mapsto> r))
    \<and> omx_xen_user_region_offset_cache_init G (xs_hyp s') r off n = Some c
    \<and> copy_pages_to_buf (be_region_view G (xs_hyp s') r) m n c
        = Some (map (user_view (\<lambda>p. pfn_to_mfn G (frame p)) m) [vaddr useg + off..<vaddr useg + off + n], c')"
proof -
  let ?seg = "omx_user_region_add_segment frame useg" and ?f = "\<lambda>p. pfn_to_mfn G (frame p)"
  have pos: "0 < seg_len useg" and len: "sg_length ?seg = seg_len useg"
    using assms(4) by (simp_all add: omx_user_region_add_segment_def Let_def)
  have ok: "seg_ok ?seg" by (rule add_segment_ok [OF pos])
  from create_lends [OF assms(3,1,2,4-7)] obtain sgr P L bs where
    l: "lent G held V s' (?seg, sgr, P, L) bs"
    and be': "be' = be(endpoint_index ep \<mapsto> endpoint(rid \<mapsto> \<lparr>br_id = of_nat rid, br_eid = of_nat (endpoint_index ep), br_segments = [bs],
          br_total_length = unat (bs_length bs)\<rparr>))"
    unfolding Let_def by blast
  note view = lent_view [OF l assms(1) ok]
  let ?r = "\<lparr>br_id = of_nat rid, br_eid = of_nat (endpoint_index ep), br_segments = [bs], br_total_length = unat (bs_length bs)\<rparr>"
  let ?view = "be_region_view G (xs_hyp s') ?r"
  have vok: "user_region_ok ?view"
    using ok by (simp add: user_region_ok_def be_region_view_def view seg_ok_def)
  have flat: "region_flat ?view = map (phys_of ?f) [vaddr useg..<vaddr useg + seg_len useg]"
    using mapped_segment_flat [OF pos, of frame "pfn_to_mfn G"] by (simp add: region_flat_def be_region_view_def view(1))
  have tot: "rgn_total_length ?view = seg_len useg" by (simp add: be_region_view_def view(2) len)
  from cache_init_at [OF vok, of off n] assms(8,9) tot obtain c where
    c: "omx_user_region_offset_cache_init ?view off n = Some (Some c)" "cursor_ok ?view c" "cursor_addrs ?view c = drop off (region_flat ?view)"
    by auto
  have "omx_xen_user_region_offset_cache_init G (xs_hyp s') ?r off n = Some c"
    using c(1) by (auto simp: omx_xen_user_region_offset_cache_init_def omx_user_region_offset_cache_init_def be_region_view_def
        be_segment_view_def Let_def split: if_splits)
  moreover have "n \<le> length (cursor_addrs ?view c)" using c(3) flat assms(9) by simp
  from copy_pages_to_buf_flat [OF c(2) this, of m] obtain c' where
    "copy_pages_to_buf ?view m n c = Some (map m (take n (cursor_addrs ?view c)), c')" by blast
  moreover have "map m (take n (cursor_addrs ?view c)) = map (user_view ?f m) [vaddr useg + off..<vaddr useg + off + n]"
    using assms(9) by (simp add: c(3) flat drop_map take_map user_view_def comp_def)
  ultimately show ?thesis using be' by auto
qed

theorem guest_buffer_read_witness:
  "\<forall>m. \<exists>r c c'. omx_xen_user_region_offset_cache_init sample_ops (xs_hyp sample_lent) r 1 3 = Some c
    \<and> copy_pages_to_buf (be_region_view sample_ops (xs_hyp sample_lent) r) m 3 c = Some ([m (1051, 4095), m (1052, 0), m (1052, 1)], c')"
proof
  fix m
  have v: "vaddr sample_buffer = 8190" "seg_len sample_buffer = 5" by (simp_all add: sample_buffer_def)
  have "[8190 + 1..<8190 + 1 + 3 :: nat] = [8191, 8192, 8193]" by (simp add: upt_rec)
  then have e: "map (user_view (\<lambda>p. pfn_to_mfn sample_ops (p + 50)) m) [8190 + 1..<8190 + 1 + 3] = [m (1051, 4095), m (1052, 0), m (1052, 1)]"
    by (simp add: user_view_def phys_of_def PAGE_SIZE_def sample_ops_simps)
  have "sample_backend (endpoint_index sample_fe_endpoint) = Some Map.empty" "endpoint_index sample_fe_endpoint < 256"
    by (simp_all add: sample_backend_def sample_fe_endpoint_def)
  with guest_buffer_read [OF sample_laws sample_ok sample_create, of Map.empty 3 1 m] v e
  show "\<exists>r c c'. omx_xen_user_region_offset_cache_init sample_ops (xs_hyp sample_lent) r 1 3 = Some c
    \<and> copy_pages_to_buf (be_region_view sample_ops (xs_hyp sample_lent) r) m 3 c = Some ([m (1051, 4095), m (1052, 0), m (1052, 1)], c')"
    by auto
qed

subsection \<open>What the backend can reach\<close>

text \<open>
  C17: The creation of a region grants the driver domain the pages of the buffer, and fresh pages of
  the guest's kernel for the lists, and nothing else; grants that were there stay as they are.
\<close>

theorem region_exposes_only:
  assumes "xen_laws G held V" and "xen_ok held V s"
    and "omx_ioctl_xen_user_region_create G (process_create_user_region G be_mem) frame mem_ok pin_ok old rid [useg] ep s be
      = Some (None, ep', s', be')"
    and "seg_len useg \<noteq> 0" and "endpoint_index ep < 256"
    and "be (endpoint_index ep) = Some endpoint" and "endpoint rid = None"
    and "granted (V (xs_hyp s')) g = Some f"
  shows "granted (V (xs_hyp s)) g = Some f
    \<or> granted (V (xs_hyp s)) g = None \<and> f \<in> pfn_to_mfn G ` set (pages (omx_user_region_add_segment frame useg))
    \<or> granted (V (xs_hyp s)) g = None \<and> f \<in> pfn_to_mfn G ` (- guest_pages (V (xs_hyp s)))"
proof -
  let ?seg = "omx_user_region_add_segment frame useg"
  from create_lends [OF assms(3,1,2,4-7)] obtain sgr P L bs where
    l: "lent G held V s' (?seg, sgr, P, L) bs" and new: "set (P @ L) \<inter> dom (granted (V (xs_hyp s))) = {}"
    and lists: "gs_lists (?seg, sgr, P, L) \<inter> guest_pages (V (xs_hyp s)) = {}"
    and old: "granted (V (xs_hyp s')) |` (- set (P @ L)) = granted (V (xs_hyp s))"
    unfolding Let_def by (auto simp: gs_defs)
  have sg: "seg_granted G (V (xs_hyp s')) (xs_words s') ?seg sgr P L"
    using l by (simp add: lent_def is_granted_def gs_defs)
  show ?thesis
  proof (cases "g \<in> set (P @ L)")
    case False
    then have "granted (V (xs_hyp s)) g = Some f"
      unfolding old [symmetric] using assms(8) by simp
    then show ?thesis by simp
  next
    case True
    then have none: "granted (V (xs_hyp s)) g = None" using new by auto
    from True consider k where "k < length P" "g = P ! k" | j where "j < length L" "g = L ! j"
      by (auto simp: in_set_conv_nth)
    then show ?thesis
    proof cases
      case 1
      moreover have "length P \<le> unat (sgr_nr_parts sgr)" using sg by (simp add: seg_granted_def)
      ultimately have "f = pfn_to_mfn G (sgr_gref_list sgr + k)" "sgr_gref_list sgr + k \<in> gs_lists (?seg, sgr, P, L)"
        using sg assms(8) unfolding seg_granted_def gs_lists_def gs_grant_def by auto
      with lists none show ?thesis by blast
    next
      case 2
      with sg assms(8) have "f = pfn_to_mfn G (pages ?seg ! j)" "j < length (pages ?seg)"
        unfolding seg_granted_def by auto
      with none show ?thesis by auto
    qed
  qed
qed

theorem region_exposes_only_witness:
  "(1052 :: mfn) \<in> (\<lambda>p. p + 1000) ` set (pages sample_segment) \<or> (1052 :: mfn) \<in> (\<lambda>p. p + 1000) ` (- {0..<100})"
proof -
  have "sample_backend (endpoint_index sample_fe_endpoint) = Some Map.empty" "endpoint_index sample_fe_endpoint < 256"
      "seg_len sample_buffer \<noteq> 0"
    by (simp_all add: sample_backend_def sample_fe_endpoint_def sample_buffer_def)
  moreover have "granted (mc_view (xs_hyp sample_lent)) 10 = Some 1052"
    by (simp add: mc_view_def sample_lent_def sample_granted_def)
  ultimately show ?thesis
    using region_exposes_only [OF sample_laws sample_ok sample_create, of Map.empty 10 1052]
    by (simp add: mc_view_def sample_guest_def sample_machine_def sample_ops_simps)
qed

subsection \<open>Destruction\<close>



subsection \<open>Limits and failures\<close>





text \<open>
  C34: When the kernel has no grant references left and no cookie is free, the request for references does
  not fail: the loop that was to give up after a thousand attempts never ends.
\<close>

theorem references_exhausted_hangs:
  assumes "gref_cookies_free (xs_fe s) = []" and "P (xs_hyp s)"
    and "\<And>h b h1. P h \<Longrightarrow> kmalloc G h = (b, h1) \<Longrightarrow> b \<and> fst (gnttab_alloc_grant_references G count h1) = None
           \<and> P (snd (gnttab_alloc_grant_references G count h1))"
  shows "omx_xen_gnttab_alloc_grant_references G count s = None"
proof -
  have "cookie_alloc_loop G count False s = None"
    using cookie_alloc_loop_hangs [of G count False s _ P] assms by (cases "cookie_alloc_loop G count False s") blast+
  then show ?thesis
    by (simp add: omx_xen_gnttab_alloc_grant_references_def omx_xenfront_gref_get_cookie_def gref_cookie_loop.simps)
qed

theorem references_exhausted_hangs_witness:
  "omx_xen_gnttab_alloc_grant_references sample_ops 3
     (sample_guest\<lparr>xs_hyp := sample_machine\<lparr>mc_next_ref := 2 ^ 32\<rparr>\<rparr>) = None"
  by (rule references_exhausted_hangs [where P = "\<lambda>h. mc_next_ref h = 2 ^ 32"])
    (auto simp: sample_guest_def sample_ops_simps mc_alloc_refs_def)

text \<open>
  C35: The answer to the creation of a region of two segments only tells of the second: a failure to create
  the region or to map the first segment is overwritten, and the guest is told that the region is
  registered.
\<close>

theorem first_failure_unreported:
  assumes "omx_xen_create_user_region mem_ok (rc_id req) (rc_nr_segments req) (rc_eid req) be = Some (e0, be1)"
    and "rc_nr_segments req = 2" and "rc_segs req = [reg1, reg2]"
    and "omx_xen_register_user_segment G mem_ok reg1 s be1 = Some (Some e1, s1, be2)"
    and "omx_xen_register_user_segment G mem_ok reg2 s1 be2 = Some (None, s', be')"
  shows "process_create_user_region G mem_ok req s be = Some (Some REGISTERED, s', be')"
  using assms by (simp add: process_create_user_region_def)

definition sample_bad_segment :: ring_register_segment where
  "sample_bad_segment = sample_slot_segment\<lparr>rs_rid := 7, rs_eid := 2, rs_nr_parts := 1, rs_gref := replicate 16 77\<rparr>"

definition sample_second_segment :: ring_register_segment where
  "sample_second_segment = fill_ring_segment 7 2 1 sample_segment sample_seg_grant sample_slot_segment"

definition sample_bad_request :: ring_create_region where
  "sample_bad_request = sample_slot\<lparr>rc_nr_segments := 2, rc_id := 7, rc_eid := 2, rc_segs := [sample_bad_segment, sample_second_segment]\<rparr>"

definition sample_half :: "(machine, gref list) xen_state" where
  "sample_half = sample_granted\<lparr>xs_hyp := (xs_hyp sample_granted)\<lparr>mc_next_dpage := 501\<rparr>\<rparr>"

lemma sample_bad_registers:
  "\<exists>bs. register_segment sample_ops True sample_bad_segment zero_be_segment sample_granted
     = Some (Some (Grant_status (- 1)), bs, sample_half)"
  "\<exists>bs s'. register_segment sample_ops True sample_second_segment zero_be_segment sample_half = Some (None, bs, s')"
  unfolding sample_bad_segment_def sample_second_segment_def sample_segment sample_half_def
  by (simp_all add: register_segment_def fill_ring_segment_def sample_slot_segment_def sample_seg_grant_def sample_ops_simps
      omx_xen_accept_gref_list_def map_segment_pages_def gref_list_word_def sample_granted_def sample_machine_def zero_be_segment_def
      OMX_XEN_GRANT_PAGES_MAX_def NR_GREFS_def PAGE_SIZE_def Let_def upt_rec replicate_16)

text \<open>The first segment of the request names a reference that grants nothing.\<close>

theorem first_failure_unreported_witness:
  "\<exists>s' be'. process_create_user_region sample_ops True sample_bad_request sample_granted sample_backend = Some (Some REGISTERED, s', be')"
proof -
  obtain bs1 where 1: "register_segment sample_ops True sample_bad_segment zero_be_segment sample_granted
      = Some (Some (Grant_status (- 1)), bs1, sample_half)" using sample_bad_registers(1) by blast
  obtain bs2 s' where 2: "register_segment sample_ops True sample_second_segment zero_be_segment sample_half = Some (None, bs2, s')"
    using sample_bad_registers(2) by blast
  let ?r = "\<lparr>br_id = 7, br_eid = 2, br_segments = [zero_be_segment, zero_be_segment], br_total_length = 0\<rparr>"
  let ?r1 = "?r\<lparr>br_segments := [bs1, zero_be_segment]\<rparr>"
  have ids: "rs_eid sample_bad_segment = 2" "rs_rid sample_bad_segment = 7" "rs_sid sample_bad_segment = 0"
      "rs_eid sample_second_segment = 2" "rs_rid sample_second_segment = 7" "rs_sid sample_second_segment = 1"
    by (simp_all add: sample_bad_segment_def sample_second_segment_def sample_slot_segment_def fill_ring_segment_def)
  have two: "replicate 2 zero_be_segment = [zero_be_segment, zero_be_segment]"
    by (simp add: eval_nat_numeral)
  have "omx_xen_create_user_region True 7 2 2 sample_backend = Some (None, [2 \<mapsto> [7 \<mapsto> ?r]])"
    by (simp add: omx_xen_create_user_region_def xen_regions_def set_xen_region_def sample_backend_def OMX_USER_REGION_MAX_ID_def
        two)
  moreover have "omx_xen_register_user_segment sample_ops True sample_bad_segment sample_granted [2 \<mapsto> [7 \<mapsto> ?r]]
      = Some (Some (Grant_status (- 1)), sample_half, [2 \<mapsto> [7 \<mapsto> ?r1]])"
    by (simp add: omx_xen_register_user_segment_def ids 1 xen_regions_def set_xen_region_def OMX_USER_REGION_MAX_ID_def Let_def)
  moreover have "omx_xen_register_user_segment sample_ops True sample_second_segment sample_half [2 \<mapsto> [7 \<mapsto> ?r1]]
      = Some (None, s', [2 \<mapsto> [7 \<mapsto> ?r1\<lparr>br_segments := [bs1, bs2], br_total_length := unat (bs_length bs2)\<rparr>]])"
    by (simp add: omx_xen_register_user_segment_def ids 2 xen_regions_def set_xen_region_def OMX_USER_REGION_MAX_ID_def Let_def)
  ultimately show ?thesis
    using first_failure_unreported [of True sample_bad_request sample_backend None _ sample_bad_segment sample_second_segment
        sample_ops sample_granted]
    by (fastforce simp: sample_bad_request_def sample_slot_def)
qed

end
