(* ===== verification/Wire.thy ===== *)
theory Wire
  imports Pull_Driver
begin

text \<open>
  Packets as bytes (\<open>common/omx_wire.h\<close>, \<open>driver/linux/omx_wire_access.h\<close>, \<open>driver/linux/omx_misc.h\<close>).
  A packet is a memory of bytes from the Ethernet header on, of which the first \<open>sk_headlen\<close> are
  contiguous. The fields of a header are read and written at their offset in the structure, in the
  byte order of the network or of the host as \<open>OMX_ENDIAN_COMPAT\<close> tells. What nothing was written
  to holds what was in the memory before.
\<close>

subsection \<open>Fields\<close>

definition le16 :: "u16 \<Rightarrow> bytes" where
  "le16 w = [ucast w, ucast (drop_bit 8 w)]"

definition le32 :: "u32 \<Rightarrow> bytes" where
  "le32 w = [ucast w, ucast (drop_bit 8 w), ucast (drop_bit 16 w), ucast (drop_bit 24 w)]"

definition OMX__HTON_16 :: "bool \<Rightarrow> u16 \<Rightarrow> bytes" where
  "OMX__HTON_16 endian_compat w = (if endian_compat then rev (le16 w) else le16 w)"

definition OMX__HTON_32 :: "bool \<Rightarrow> u32 \<Rightarrow> bytes" where
  "OMX__HTON_32 endian_compat w = (if endian_compat then rev (le32 w) else le32 w)"

fun of_le :: "bytes \<Rightarrow> 'a::len word" where
  "of_le [] = 0"
| "of_le (b # bs) = ucast b OR push_bit 8 (of_le bs)"

definition OMX__NTOH_16 :: "bool \<Rightarrow> bytes \<Rightarrow> u16" where
  "OMX__NTOH_16 endian_compat bs = of_le (if endian_compat then rev bs else bs)"

definition OMX__NTOH_32 :: "bool \<Rightarrow> bytes \<Rightarrow> u32" where
  "OMX__NTOH_32 endian_compat bs = of_le (if endian_compat then rev bs else bs)"

definition OMX_HTON_8 :: "nat \<Rightarrow> u8 \<Rightarrow> memory \<Rightarrow> memory" where
  "OMX_HTON_8 field w = write_mem field [w]"

definition OMX_HTON_16 :: "bool \<Rightarrow> nat \<Rightarrow> u16 \<Rightarrow> memory \<Rightarrow> memory" where
  "OMX_HTON_16 ec field w = write_mem field (OMX__HTON_16 ec w)"

definition OMX_HTON_32 :: "bool \<Rightarrow> nat \<Rightarrow> u32 \<Rightarrow> memory \<Rightarrow> memory" where
  "OMX_HTON_32 ec field w = write_mem field (OMX__HTON_32 ec w)"

definition OMX_NTOH_8 :: "nat \<Rightarrow> memory \<Rightarrow> u8" where
  "OMX_NTOH_8 field m = m field"

definition OMX_NTOH_16 :: "bool \<Rightarrow> nat \<Rightarrow> memory \<Rightarrow> u16" where
  "OMX_NTOH_16 ec field m = OMX__NTOH_16 ec (read_mem m field 2)"

definition OMX_NTOH_32 :: "bool \<Rightarrow> nat \<Rightarrow> memory \<Rightarrow> u32" where
  "OMX_NTOH_32 ec field m = OMX__NTOH_32 ec (read_mem m field 4)"

text \<open>The match info, as two halves at \<open>match_a\<close> and \<open>match_b\<close>.\<close>

definition OMX_HTON_MATCH_INFO :: "bool \<Rightarrow> nat \<Rightarrow> nat \<Rightarrow> u64 \<Rightarrow> memory \<Rightarrow> memory" where
  "OMX_HTON_MATCH_INFO ec match_a match_b w =
     OMX_HTON_32 ec match_b (ucast (w AND 0xffffffff)) \<circ> OMX_HTON_32 ec match_a (ucast (drop_bit 32 w))"

definition OMX_NTOH_MATCH_INFO :: "bool \<Rightarrow> nat \<Rightarrow> nat \<Rightarrow> memory \<Rightarrow> u64" where
  "OMX_NTOH_MATCH_INFO ec match_a match_b m =
     push_bit 32 (ucast (OMX_NTOH_32 ec match_a m)) OR ucast (OMX_NTOH_32 ec match_b m)"

subsection \<open>Addresses\<close>

definition omx_board_addr_to_ethhdr_dst :: "u64 \<Rightarrow> memory \<Rightarrow> memory" where
  "omx_board_addr_to_ethhdr_dst addr = write_mem 0
     [ucast (drop_bit 40 addr), ucast (drop_bit 32 addr), ucast (drop_bit 24 addr),
      ucast (drop_bit 16 addr), ucast (drop_bit 8 addr), ucast addr]"

definition omx_board_addr_from_ethhdr_src :: "memory \<Rightarrow> u64" where
  "omx_board_addr_from_ethhdr_src m =
     push_bit 40 (ucast (m 6)) + push_bit 32 (ucast (m 7)) + push_bit 24 (ucast (m 8))
     + push_bit 16 (ucast (m 9)) + push_bit 8 (ucast (m 10)) + ucast (m 11)"

text \<open>The address of the interface, which \<open>memcpy (eh->h_source, ifp->dev_addr)\<close> writes.\<close>

definition write_h_source :: "u64 \<Rightarrow> memory \<Rightarrow> memory" where
  "write_h_source addr = write_mem 6
     [ucast (drop_bit 40 addr), ucast (drop_bit 32 addr), ucast (drop_bit 24 addr),
      ucast (drop_bit 16 addr), ucast (drop_bit 8 addr), ucast addr]"

definition ETH_P_OMX :: u16 where "ETH_P_OMX = 0x86DF"

definition write_h_proto :: "memory \<Rightarrow> memory" where
  "write_h_proto = write_mem 12 (rev (le16 ETH_P_OMX))"

subsection \<open>Packets\<close>

record skb =
  sk_len :: nat
  sk_headlen :: nat
  sk_mem :: memory

definition omx_new_skb :: "bool \<Rightarrow> memory \<Rightarrow> nat \<Rightarrow> skb option" where
  "omx_new_skb mem_ok junk len = (if mem_ok then Some \<lparr>sk_len = len, sk_headlen = len, sk_mem = junk\<rparr> else None)"

definition skb_copy_bits :: "skb \<Rightarrow> nat \<Rightarrow> nat \<Rightarrow> bytes option" where
  "skb_copy_bits skb offset len = (if offset + len \<le> sk_len skb then Some (read_mem (sk_mem skb) offset len) else None)"

text \<open>Sizes of the headers: \<open>omx_pkt_head\<close>, and what follows it for each type of packet.\<close>

definition pkt_head_len :: nat where "pkt_head_len = 16"
definition OMX_HDR_PTYPE_OFFSET :: nat where "OMX_HDR_PTYPE_OFFSET = pkt_head_len"
definition DST_SRC_PEER_INDEX :: nat where "DST_SRC_PEER_INDEX = 14"
definition pkt_msg_len :: nat where "pkt_msg_len = 24"
definition pkt_medium_frag_len :: nat where "pkt_medium_frag_len = 32"
definition pkt_rndv_len :: nat where "pkt_rndv_len = 32"
definition pkt_notify_len :: nat where "pkt_notify_len = 24"
definition pkt_truc_len :: nat where "pkt_truc_len = 28"
definition pkt_connect_len :: nat where "pkt_connect_len = 32"
definition pkt_nack_lib_len :: nat where "pkt_nack_lib_len = 16"
definition pkt_nack_mcp_len :: nat where "pkt_nack_mcp_len = 16"
definition pkt_host_query_len :: nat where "pkt_host_query_len = 16"
definition pkt_host_reply_len :: nat where "pkt_host_reply_len = 16"
definition pkt_pull_request_len :: nat where "pkt_pull_request_len = 44"
definition pkt_pull_reply_len :: nat where "pkt_pull_reply_len = 16"
definition OMX_PKT_RNDV_DATA_LENGTH :: nat where "OMX_PKT_RNDV_DATA_LENGTH = pkt_rndv_len - pkt_msg_len"
definition OMX_PKT_CONNECT_REQUEST_DATA_LENGTH :: nat where "OMX_PKT_CONNECT_REQUEST_DATA_LENGTH = 16"
definition OMX_PKT_CONNECT_REPLY_DATA_LENGTH :: nat where "OMX_PKT_CONNECT_REPLY_DATA_LENGTH = 16"
definition OMX_PKT_TRUC_LIBACK_DATA_LENGTH :: nat where "OMX_PKT_TRUC_LIBACK_DATA_LENGTH = 16"
definition OMX_PKT_TRUC_DATA_TYPE_ACK :: u8 where "OMX_PKT_TRUC_DATA_TYPE_ACK = 0x55"

datatype omx_pkt_type =
    OMX_PKT_TYPE_NONE | OMX_PKT_TYPE_RAW | OMX_PKT_TYPE_MFM_NIC_REPLY | OMX_PKT_TYPE_HOST_QUERY | OMX_PKT_TYPE_HOST_REPLY
  | OMX_PKT_TYPE_ETHER_UNICAST | OMX_PKT_TYPE_ETHER_MULTICAST | OMX_PKT_TYPE_ETHER_NATIVE | OMX_PKT_TYPE_TRUC
  | OMX_PKT_TYPE_CONNECT | OMX_PKT_TYPE_TINY | OMX_PKT_TYPE_SMALL | OMX_PKT_TYPE_MEDIUM | OMX_PKT_TYPE_RNDV
  | OMX_PKT_TYPE_PULL | OMX_PKT_TYPE_PULL_REPLY | OMX_PKT_TYPE_NOTIFY | OMX_PKT_TYPE_NACK_LIB | OMX_PKT_TYPE_NACK_MCP

fun pkt_type_code :: "omx_pkt_type \<Rightarrow> u8" where
  "pkt_type_code OMX_PKT_TYPE_NONE = 0"
| "pkt_type_code OMX_PKT_TYPE_RAW = 1"
| "pkt_type_code OMX_PKT_TYPE_MFM_NIC_REPLY = 2"
| "pkt_type_code OMX_PKT_TYPE_HOST_QUERY = 3"
| "pkt_type_code OMX_PKT_TYPE_HOST_REPLY = 4"
| "pkt_type_code OMX_PKT_TYPE_ETHER_UNICAST = 32"
| "pkt_type_code OMX_PKT_TYPE_ETHER_MULTICAST = 33"
| "pkt_type_code OMX_PKT_TYPE_ETHER_NATIVE = 34"
| "pkt_type_code OMX_PKT_TYPE_TRUC = 35"
| "pkt_type_code OMX_PKT_TYPE_CONNECT = 36"
| "pkt_type_code OMX_PKT_TYPE_TINY = 37"
| "pkt_type_code OMX_PKT_TYPE_SMALL = 38"
| "pkt_type_code OMX_PKT_TYPE_MEDIUM = 39"
| "pkt_type_code OMX_PKT_TYPE_RNDV = 40"
| "pkt_type_code OMX_PKT_TYPE_PULL = 41"
| "pkt_type_code OMX_PKT_TYPE_PULL_REPLY = 42"
| "pkt_type_code OMX_PKT_TYPE_NOTIFY = 43"
| "pkt_type_code OMX_PKT_TYPE_NACK_LIB = 44"
| "pkt_type_code OMX_PKT_TYPE_NACK_MCP = 45"

subsection \<open>Reading what was written\<close>

lemma of_le16 [simp]: "of_le (le16 w) = w"
proof (rule bit_word_eqI)
  fix n
  assume "n < LENGTH(16)"
  then show "bit (of_le (le16 w) :: u16) n = bit w n"
    by (cases "n < 8") (auto simp: le16_def bit_simps)
qed

lemma of_le32 [simp]: "of_le (le32 w) = w"
proof (rule bit_word_eqI)
  fix n
  assume n: "n < LENGTH(32)"
  then consider "n < 8" | "8 \<le> n" "n < 16" | "16 \<le> n" "n < 24" | "24 \<le> n" "n < 32" by fastforce
  then show "bit (of_le (le32 w) :: u32) n = bit w n"
    by cases (use n in \<open>auto simp: le32_def bit_simps\<close>)
qed

lemma hton_lengths [simp]: "length (OMX__HTON_16 ec w) = 2" "length (OMX__HTON_32 ec v) = 4"
  by (simp_all add: OMX__HTON_16_def OMX__HTON_32_def le16_def le32_def)

lemma ntoh_hton [simp]:
  "OMX__NTOH_16 ec (OMX__HTON_16 ec w) = w" "OMX__NTOH_32 ec (OMX__HTON_32 ec v) = v"
  by (simp_all add: OMX__HTON_16_def OMX__HTON_32_def OMX__NTOH_16_def OMX__NTOH_32_def)

text \<open>A field keeps its value under a write that does not touch it.\<close>

named_theorems wire_simps "reading fields of headers that were written"

lemma wire_same [wire_simps]:
  "OMX_NTOH_8 a (OMX_HTON_8 a b m) = b" "OMX_NTOH_16 ec a (OMX_HTON_16 ec a w m) = w"
  "OMX_NTOH_32 ec a (OMX_HTON_32 ec a v m) = v"
proof -
  show "OMX_NTOH_8 a (OMX_HTON_8 a b m) = b"
    by (simp add: OMX_NTOH_8_def OMX_HTON_8_def write_mem_def)
  have "read_mem (write_mem a (OMX__HTON_16 ec w) m) a 2 = OMX__HTON_16 ec w"
    using read_write_same [of a "OMX__HTON_16 ec w" m] by simp
  then show "OMX_NTOH_16 ec a (OMX_HTON_16 ec a w m) = w" by (simp add: OMX_NTOH_16_def OMX_HTON_16_def)
  have "read_mem (write_mem a (OMX__HTON_32 ec v) m) a 4 = OMX__HTON_32 ec v"
    using read_write_same [of a "OMX__HTON_32 ec v" m] by simp
  then show "OMX_NTOH_32 ec a (OMX_HTON_32 ec a v m) = v" by (simp add: OMX_NTOH_32_def OMX_HTON_32_def)
qed

lemma wire_other:
  "a < b \<or> b + length bs \<le> a \<Longrightarrow> OMX_NTOH_8 a (write_mem b bs m) = OMX_NTOH_8 a m"
  "a + 2 \<le> b \<or> b + length bs \<le> a \<Longrightarrow> OMX_NTOH_16 ec a (write_mem b bs m) = OMX_NTOH_16 ec a m"
  "a + 4 \<le> b \<or> b + length bs \<le> a \<Longrightarrow> OMX_NTOH_32 ec a (write_mem b bs m) = OMX_NTOH_32 ec a m"
  by (auto simp: OMX_NTOH_8_def OMX_NTOH_16_def OMX_NTOH_32_def read_write_disjoint write_mem_outside)

lemma wire_fields [wire_simps]:
  "a < b \<or> b + 1 \<le> a \<Longrightarrow> OMX_NTOH_8 a (OMX_HTON_8 b x m) = OMX_NTOH_8 a m"
  "a < b \<or> b + 2 \<le> a \<Longrightarrow> OMX_NTOH_8 a (OMX_HTON_16 ec b y m) = OMX_NTOH_8 a m"
  "a < b \<or> b + 4 \<le> a \<Longrightarrow> OMX_NTOH_8 a (OMX_HTON_32 ec b z m) = OMX_NTOH_8 a m"
  "a + 2 \<le> b \<or> b + 1 \<le> a \<Longrightarrow> OMX_NTOH_16 ec a (OMX_HTON_8 b x m) = OMX_NTOH_16 ec a m"
  "a + 2 \<le> b \<or> b + 2 \<le> a \<Longrightarrow> OMX_NTOH_16 ec a (OMX_HTON_16 ec b y m) = OMX_NTOH_16 ec a m"
  "a + 2 \<le> b \<or> b + 4 \<le> a \<Longrightarrow> OMX_NTOH_16 ec a (OMX_HTON_32 ec b z m) = OMX_NTOH_16 ec a m"
  "a + 4 \<le> b \<or> b + 1 \<le> a \<Longrightarrow> OMX_NTOH_32 ec a (OMX_HTON_8 b x m) = OMX_NTOH_32 ec a m"
  "a + 4 \<le> b \<or> b + 2 \<le> a \<Longrightarrow> OMX_NTOH_32 ec a (OMX_HTON_16 ec b y m) = OMX_NTOH_32 ec a m"
  "a + 4 \<le> b \<or> b + 4 \<le> a \<Longrightarrow> OMX_NTOH_32 ec a (OMX_HTON_32 ec b z m) = OMX_NTOH_32 ec a m"
  by (simp_all add: OMX_HTON_8_def OMX_HTON_16_def OMX_HTON_32_def wire_other)

lemma halves:
  fixes w :: u64
  shows "push_bit 32 (ucast (ucast (drop_bit 32 w) :: u32)) OR ucast (ucast (w AND 0xffffffff) :: u32) = w"
proof -
  have mask: "(0xffffffff :: u64) = mask 32" by (simp add: mask_eq_exp_minus_1)
  show ?thesis
  proof (rule bit_word_eqI)
    fix n
    assume "n < LENGTH(64)"
    then show "bit (push_bit 32 (ucast (ucast (drop_bit 32 w) :: u32)) OR ucast (ucast (w AND 0xffffffff) :: u32) :: u64) n = bit w n"
      unfolding mask by (cases "n < 32") (auto simp: bit_simps)
  qed
qed

lemma wire_match_info [wire_simps]:
  "a + 4 \<le> b \<or> b + 4 \<le> a \<Longrightarrow> OMX_NTOH_MATCH_INFO ec a b (OMX_HTON_MATCH_INFO ec a b w m) = w"
  "a + 4 \<le> c \<or> c + 1 \<le> a \<Longrightarrow> b + 4 \<le> c \<or> c + 1 \<le> b \<Longrightarrow>
     OMX_NTOH_MATCH_INFO ec a b (OMX_HTON_8 c x m) = OMX_NTOH_MATCH_INFO ec a b m"
  "a + 4 \<le> c \<or> c + 2 \<le> a \<Longrightarrow> b + 4 \<le> c \<or> c + 2 \<le> b \<Longrightarrow>
     OMX_NTOH_MATCH_INFO ec a b (OMX_HTON_16 ec c y m) = OMX_NTOH_MATCH_INFO ec a b m"
  "a + 4 \<le> c \<or> c + 4 \<le> a \<Longrightarrow> b + 4 \<le> c \<or> c + 4 \<le> b \<Longrightarrow>
     OMX_NTOH_MATCH_INFO ec a b (OMX_HTON_32 ec c z m) = OMX_NTOH_MATCH_INFO ec a b m"
  "c < a \<or> a + 4 \<le> c \<Longrightarrow> c < b \<or> b + 4 \<le> c \<Longrightarrow> OMX_NTOH_8 c (OMX_HTON_MATCH_INFO ec a b w m) = OMX_NTOH_8 c m"
  "c + 2 \<le> a \<or> a + 4 \<le> c \<Longrightarrow> c + 2 \<le> b \<or> b + 4 \<le> c \<Longrightarrow>
     OMX_NTOH_16 ec c (OMX_HTON_MATCH_INFO ec a b w m) = OMX_NTOH_16 ec c m"
  "c + 4 \<le> a \<or> a + 4 \<le> c \<Longrightarrow> c + 4 \<le> b \<or> b + 4 \<le> c \<Longrightarrow>
     OMX_NTOH_32 ec c (OMX_HTON_MATCH_INFO ec a b w m) = OMX_NTOH_32 ec c m"
  by (auto simp: OMX_NTOH_MATCH_INFO_def OMX_HTON_MATCH_INFO_def wire_simps halves)

text \<open>The data behind the headers, and the headers under a write of data.\<close>

lemma wire_data [wire_simps]:
  "a + 1 \<le> d \<Longrightarrow> read_mem (OMX_HTON_8 a x m) d n = read_mem m d n"
  "a + 2 \<le> d \<Longrightarrow> read_mem (OMX_HTON_16 ec a y m) d n = read_mem m d n"
  "a + 4 \<le> d \<Longrightarrow> read_mem (OMX_HTON_32 ec a z m) d n = read_mem m d n"
  "a + 4 \<le> d \<Longrightarrow> b + 4 \<le> d \<Longrightarrow> read_mem (OMX_HTON_MATCH_INFO ec a b w m) d n = read_mem m d n"
  "6 \<le> d \<Longrightarrow> read_mem (omx_board_addr_to_ethhdr_dst addr m) d n = read_mem m d n"
  "12 \<le> d \<Longrightarrow> read_mem (write_h_source addr m) d n = read_mem m d n"
  "14 \<le> d \<Longrightarrow> read_mem (write_h_proto m) d n = read_mem m d n"
  by (simp_all add: OMX_HTON_8_def OMX_HTON_16_def OMX_HTON_32_def OMX_HTON_MATCH_INFO_def read_write_disjoint
      omx_board_addr_to_ethhdr_dst_def write_h_source_def write_h_proto_def le16_def)

lemma wire_under_data [wire_simps]:
  "a + 1 \<le> d \<Longrightarrow> OMX_NTOH_8 a (write_mem d bs m) = OMX_NTOH_8 a m"
  "a + 2 \<le> d \<Longrightarrow> OMX_NTOH_16 ec a (write_mem d bs m) = OMX_NTOH_16 ec a m"
  "a + 4 \<le> d \<Longrightarrow> OMX_NTOH_32 ec a (write_mem d bs m) = OMX_NTOH_32 ec a m"
  "a + 4 \<le> d \<Longrightarrow> b + 4 \<le> d \<Longrightarrow> OMX_NTOH_MATCH_INFO ec a b (write_mem d bs m) = OMX_NTOH_MATCH_INFO ec a b m"
  by (simp_all add: wire_other OMX_NTOH_MATCH_INFO_def)

lemma wire_under_eth [wire_simps]:
  "14 \<le> a \<Longrightarrow> OMX_NTOH_8 a (omx_board_addr_to_ethhdr_dst addr m) = OMX_NTOH_8 a m"
  "14 \<le> a \<Longrightarrow> OMX_NTOH_16 ec a (omx_board_addr_to_ethhdr_dst addr m) = OMX_NTOH_16 ec a m"
  "14 \<le> a \<Longrightarrow> OMX_NTOH_32 ec a (omx_board_addr_to_ethhdr_dst addr m) = OMX_NTOH_32 ec a m"
  "14 \<le> a \<Longrightarrow> OMX_NTOH_8 a (write_h_source addr m) = OMX_NTOH_8 a m"
  "14 \<le> a \<Longrightarrow> OMX_NTOH_16 ec a (write_h_source addr m) = OMX_NTOH_16 ec a m"
  "14 \<le> a \<Longrightarrow> OMX_NTOH_32 ec a (write_h_source addr m) = OMX_NTOH_32 ec a m"
  "14 \<le> a \<Longrightarrow> OMX_NTOH_8 a (write_h_proto m) = OMX_NTOH_8 a m"
  "14 \<le> a \<Longrightarrow> OMX_NTOH_16 ec a (write_h_proto m) = OMX_NTOH_16 ec a m"
  "14 \<le> a \<Longrightarrow> OMX_NTOH_32 ec a (write_h_proto m) = OMX_NTOH_32 ec a m"
  by (simp_all add: omx_board_addr_to_ethhdr_dst_def write_h_source_def write_h_proto_def le16_def wire_other)

text \<open>The addresses of the Ethernet header.\<close>

lemma ucast_byte: "ucast (ucast (a :: u64) :: u8) = take_bit 8 a"
  by (rule bit_word_eqI) (auto simp: bit_simps)

lemma addr_from_source: "omx_board_addr_from_ethhdr_src (write_h_source addr m) = take_bit 48 addr"
  using take_bit_step [of 8 addr] take_bit_step [of 16 addr] take_bit_step [of 24 addr] take_bit_step [of 32 addr]
    take_bit_step [of 40 addr]
  by (simp add: omx_board_addr_from_ethhdr_src_def write_h_source_def write_mem_def ucast_byte add.assoc)

end
