(* ===== verification/Driver_Host.thy ===== *)
theory Driver_Host
  imports Wire
begin

text \<open>
  The state of the driver of a host (\<open>omx_peer.h\<close>, \<open>omx_iface.h\<close> and \<open>omx_endpoint.h\<close>): its table of
  peers, its interfaces and its endpoints, and the reference counts of the last two.

  A peer is an interface of some host by its address. A pointer to a peer is either to an allocated
  one or to the one inside an interface. Interfaces and endpoints are objects of stores; an object
  whose count drops to zero leaves its store. \<^term>\<open>None\<close> is a \<open>BUG_ON\<close>, an access through a pointer
  to no object or outside an array, and the freeing of what was not allocated on its own.

  The kernel's allocator is the sequence \<open>kmem\<close> of its answers: the contents of the memory handed
  out, or a failure. Packets given to a network device are appended to \<open>xmit\<close>.
\<close>

subsection \<open>Structures\<close>

datatype peer_ref = Remote nat | Local nat

text \<open>A host name is its bytes without the final null.\<close>

record omx_peer =
  board_addr :: u64
  peer_hostname :: "bytes option"
  peer_index :: u32
  local_iface :: "nat option"

definition OMX_UNKNOWN_REVERSE_PEER_INDEX :: u32 where "OMX_UNKNOWN_REVERSE_PEER_INDEX = - 1"
definition OMX_PEER_INDEX_MAX :: nat where "OMX_PEER_INDEX_MAX = 65536"
definition OMX_HOSTNAMELEN_MAX :: nat where "OMX_HOSTNAMELEN_MAX = 80"
definition OMX_ENDPOINT_INDEX_MAX :: nat where "OMX_ENDPOINT_INDEX_MAX = 256"

datatype omx_iface_status = IFACE_STATUS_OK | IFACE_STATUS_CLOSING

record omx_iface =
  if_index :: nat
  if_ifp :: nat
  if_peer :: omx_peer
  reverse_peer_indexes :: "nat \<Rightarrow> u32"
  if_endpoints :: "u8 \<Rightarrow> nat option"
  endpoint_nr :: nat
  if_status :: omx_iface_status
  if_refcount :: nat

datatype omx_endpoint_status =
  ENDPOINT_STATUS_FREE | ENDPOINT_STATUS_INITIALIZING | ENDPOINT_STATUS_OK | ENDPOINT_STATUS_CLOSING

record drv_endpoint =
  de_board_index :: u8
  de_endpoint_index :: u8
  de_session_id :: u32
  de_status :: omx_endpoint_status
  de_refcount :: nat
  de_iface :: "nat option"
  de_userdesc :: u64
  de_sendq :: memory
  de_recvq :: memory
  de_exp :: exp_queue
  de_unexp :: unexp_queue
  de_regions :: region_table

record peer_table_state =
  pts_status :: u32
  pts_version :: u32
  pts_size :: u32
  pts_mapper_id :: u64

definition OMX_PEER_TABLE_STATUS_CONFIGURED :: u32 where "OMX_PEER_TABLE_STATUS_CONFIGURED = 1"
definition OMX_PEER_TABLE_STATUS_FULL :: u32 where "OMX_PEER_TABLE_STATUS_FULL = 2"
definition OMX_PEER_TABLE_STATUS_SETMASK :: u32 where "OMX_PEER_TABLE_STATUS_SETMASK = OMX_PEER_TABLE_STATUS_CONFIGURED"

text \<open>What is fixed at the load of the module, and the network devices of the host.\<close>

record host_env =
  omx_peer_max :: nat
  omx_iface_max :: nat
  omx_endpoint_max :: nat
  nodename :: bytes
  dev_addr :: "nat \<Rightarrow> u64"
  dev_loopback :: "nat \<Rightarrow> bool"

record host = host_env +
  omx_peer_array :: "nat \<Rightarrow> peer_ref option"
  omx_peer_addr_hash_array :: "u8 \<Rightarrow> peer_ref list"
  omx_peer_next_nr :: nat
  omx_peer_table_full :: bool
  omx_peer_table_state :: peer_table_state
  omx_host_query_peer_list :: "peer_ref list"
  omx_host_query_timer :: bool
  omx_host_query_work :: bool
  omx_host_query_magic :: u32
  omx_host_query_list :: "(nat \<times> skb) list"
  omx_host_reply_list :: "(nat \<times> skb) list"
  remote_peers :: "nat \<Rightarrow> omx_peer option"
  next_remote :: nat
  iface_store :: "nat \<Rightarrow> omx_iface option"
  next_iface :: nat
  omx_ifaces :: "nat \<Rightarrow> nat option"
  omx_iface_nr :: nat
  endpoint_store :: "nat \<Rightarrow> drv_endpoint option"
  next_endpoint :: nat
  kmem :: "nat \<Rightarrow> memory option"
  xmit :: "(nat \<times> skb) list"

subsection \<open>Memory\<close>

definition kmalloc :: "host \<Rightarrow> memory option \<times> host" where
  "kmalloc h = (kmem h 0, h\<lparr>kmem := \<lambda>n. kmem h (Suc n)\<rparr>)"

text \<open>Several allocations of which the first failure undoes the ones before.\<close>

fun kmallocs :: "nat \<Rightarrow> host \<Rightarrow> bool \<times> host" where
  "kmallocs 0 h = (True, h)"
| "kmallocs (Suc n) h = (case kmalloc h of (None, h1) \<Rightarrow> (False, h1) | (Some m, h1) \<Rightarrow> kmallocs n h1)"

definition kstrdup :: "bytes option \<Rightarrow> host \<Rightarrow> bool \<times> host" where
  "kstrdup s h = (if s = None then (True, h) else kmallocs 1 h)"

definition alloc_skb :: "nat \<Rightarrow> host \<Rightarrow> skb option \<times> host" where
  "alloc_skb len h = (case kmalloc h of
     (None, h1) \<Rightarrow> (omx_new_skb False (\<lambda>_. 0) len, h1)
   | (Some junk, h1) \<Rightarrow> (omx_new_skb True junk len, h1))"

definition dev_queue_xmit :: "nat \<Rightarrow> skb \<Rightarrow> host \<Rightarrow> host" where
  "dev_queue_xmit ifp skb h = h\<lparr>xmit := xmit h @ [(ifp, skb)]\<rparr>"

subsection \<open>Peers\<close>

definition set_iface :: "nat \<Rightarrow> omx_iface option \<Rightarrow> host \<Rightarrow> host" where
  "set_iface f x h = h\<lparr>iface_store := (iface_store h)(f := x)\<rparr>"

definition get_peer :: "peer_ref \<Rightarrow> host \<Rightarrow> omx_peer option" where
  "get_peer r h = (case r of Remote n \<Rightarrow> remote_peers h n | Local f \<Rightarrow> map_option if_peer (iface_store h f))"

definition put_peer :: "peer_ref \<Rightarrow> omx_peer \<Rightarrow> host \<Rightarrow> host option" where
  "put_peer r p h = (case r of
     Remote n \<Rightarrow> do { _ \<leftarrow> remote_peers h n; Some (h\<lparr>remote_peers := (remote_peers h)(n \<mapsto> p)\<rparr>) }
   | Local f \<Rightarrow> do { i \<leftarrow> iface_store h f; Some (set_iface f (Some (i\<lparr>if_peer := p\<rparr>)) h) })"

definition kfree_peer :: "peer_ref \<Rightarrow> host \<Rightarrow> host option" where
  "kfree_peer r h = (case r of
     Remote n \<Rightarrow> do { _ \<leftarrow> remote_peers h n; Some (h\<lparr>remote_peers := (remote_peers h)(n := None)\<rparr>) }
   | Local f \<Rightarrow> None)"

subsection \<open>Interfaces\<close>

definition omx_iface_reacquire :: "nat \<Rightarrow> host \<Rightarrow> host option" where
  "omx_iface_reacquire f h = do {
     i \<leftarrow> iface_store h f;
     Some (set_iface f (Some (i\<lparr>if_refcount := if_refcount i + 1\<rparr>)) h)
   }"

text \<open>The last release frees the interface.\<close>

definition omx_iface_release :: "nat \<Rightarrow> host \<Rightarrow> host option" where
  "omx_iface_release f h = do {
     i \<leftarrow> iface_store h f;
     c_assert (0 < if_refcount i);
     Some (set_iface f (if if_refcount i = 1 then None else Some (i\<lparr>if_refcount := if_refcount i - 1\<rparr>)) h)
   }"

text \<open>The interfaces in the array, in its order.\<close>

definition attached_ifaces :: "host \<Rightarrow> nat list" where
  "attached_ifaces h = List.map_filter (omx_ifaces h) [0..<omx_iface_max h]"

definition omx_ifaces_get_count :: "host \<Rightarrow> nat" where
  "omx_ifaces_get_count h = length (attached_ifaces h)"

definition omx_iface_find_by_addr :: "u64 \<Rightarrow> host \<Rightarrow> (nat option \<times> host) option" where
  "omx_iface_find_by_addr addr h =
     (case find (\<lambda>f. map_option board_addr (get_peer (Local f) h) = Some addr) (attached_ifaces h) of
        None \<Rightarrow> Some (None, h)
      | Some f \<Rightarrow> do { h1 \<leftarrow> omx_iface_reacquire f h; Some (Some f, h1) })"

definition omx_iface_find_by_ifp :: "nat \<Rightarrow> host \<Rightarrow> nat option" where
  "omx_iface_find_by_ifp ifp h = find (\<lambda>f. map_option if_ifp (iface_store h f) = Some ifp) (attached_ifaces h)"

definition omx_iface_set_hostname :: "u32 \<Rightarrow> bytes \<Rightarrow> host \<Rightarrow> ((errno + unit) \<times> host) option" where
  "omx_iface_set_hostname board_index hostname h =
     (case kstrdup (Some hostname) h of
        (False, h1) \<Rightarrow> Some (Inl ENOMEM, h1)
      | (True, h1) \<Rightarrow>
          if unat board_index \<ge> omx_iface_max h1 then Some (Inl EINVAL, h1)
          else case omx_ifaces h1 (unat board_index) of
            None \<Rightarrow> Some (Inl EINVAL, h1)
          | Some f \<Rightarrow> do {
              i \<leftarrow> iface_store h1 f;
              Some (Inr (), set_iface f (Some (i\<lparr>if_peer := (if_peer i)\<lparr>peer_hostname := Some hostname\<rparr>\<rparr>)) h1)
            })"

subsection \<open>Endpoints\<close>

definition set_endpoint :: "nat \<Rightarrow> drv_endpoint option \<Rightarrow> host \<Rightarrow> host" where
  "set_endpoint e x h = h\<lparr>endpoint_store := (endpoint_store h)(e := x)\<rparr>"

definition omx_endpoint_reacquire :: "nat \<Rightarrow> host \<Rightarrow> host option" where
  "omx_endpoint_reacquire e h = do {
     ep \<leftarrow> endpoint_store h e;
     Some (set_endpoint e (Some (ep\<lparr>de_refcount := de_refcount ep + 1\<rparr>)) h)
   }"

text \<open>The last release of an endpoint releases its interface and frees it with all its resources.\<close>

definition omx_endpoint_release :: "nat \<Rightarrow> host \<Rightarrow> host option" where
  "omx_endpoint_release e h = do {
     ep \<leftarrow> endpoint_store h e;
     c_assert (0 < de_refcount ep);
     if de_refcount ep = 1 then do {
       f \<leftarrow> de_iface ep;
       h1 \<leftarrow> omx_iface_release f h;
       Some (set_endpoint e None h1)
     } else Some (set_endpoint e (Some (ep\<lparr>de_refcount := de_refcount ep - 1\<rparr>)) h)
   }"

text \<open>
  An endpoint by its index: a reference is taken first, and given back when the endpoint is not open.
\<close>

definition endpoint_acquire_by_iface_index :: "nat \<Rightarrow> u8 \<Rightarrow> host \<Rightarrow> ((errno + nat) \<times> host) option" where
  "endpoint_acquire_by_iface_index f index h = do {
     i \<leftarrow> iface_store h f;
     if unat index \<ge> omx_endpoint_max h then Some (Inl EINVAL, h)
     else case if_endpoints i index of
       None \<Rightarrow> Some (Inl ENOENT, h)
     | Some e \<Rightarrow> do {
         h1 \<leftarrow> omx_endpoint_reacquire e h;
         ep \<leftarrow> endpoint_store h1 e;
         if de_status ep \<noteq> ENDPOINT_STATUS_OK
         then do { h2 \<leftarrow> omx_endpoint_release e h1; Some (Inl ENOENT, h2) }
         else Some (Inr e, h1)
       }
   }"

end
