(* ===== verification/Peers.thy ===== *)
theory Peers
  imports Driver_Host
begin

text \<open>
  The table of peers (\<open>driver/linux/omx_peer.c\<close>). It gives every peer an index; a hash table on the
  addresses finds a peer, and each interface remembers for each peer the index it has itself in the
  table of that peer's host. Peers whose host name is not known are on a list, and are asked for it
  by packets as long as the list is not empty.
\<close>

subsection \<open>Reverse indexes\<close>

definition set_reverse :: "nat \<Rightarrow> u32 \<Rightarrow> nat \<Rightarrow> host \<Rightarrow> host option" where
  "set_reverse index reverse f h = do {
     i \<leftarrow> iface_store h f;
     c_assert (index < omx_peer_max h);
     Some (set_iface f (Some (i\<lparr>reverse_peer_indexes := (reverse_peer_indexes i)(index := reverse)\<rparr>)) h)
   }"

definition omx_init_peer_reverse_indexes :: "nat \<Rightarrow> bool \<Rightarrow> host \<Rightarrow> host option" where
  "omx_init_peer_reverse_indexes index locl h =
     foreach (set_reverse index (if locl then of_nat index else OMX_UNKNOWN_REVERSE_PEER_INDEX)) (attached_ifaces h) h"

text \<open>The index of an interface is cut to sixteen bits before its use.\<close>

definition omx_init_iface_reverse_indexes :: "nat \<Rightarrow> host \<Rightarrow> host option" where
  "omx_init_iface_reverse_indexes f h = do {
     i \<leftarrow> iface_store h f;
     let h1 = set_iface f (Some (i\<lparr>reverse_peer_indexes := (\<lambda>_. OMX_UNKNOWN_REVERSE_PEER_INDEX)\<rparr>)) h;
     h2 \<leftarrow> foreach (\<lambda>g h. do {
         gi \<leftarrow> iface_store h g;
         let index = (ucast (peer_index (if_peer gi)) :: u16);
         set_reverse (unat index) (ucast index) f h
       }) (attached_ifaces h1) h1;
     h3 \<leftarrow> omx_init_peer_reverse_indexes (unat (ucast (peer_index (if_peer i)) :: u16)) True h2;
     set_reverse (unat (peer_index (if_peer i))) (peer_index (if_peer i)) f h3
   }"

definition omx_peer_set_reverse_index :: "omx_peer \<Rightarrow> nat \<Rightarrow> u16 \<Rightarrow> host \<Rightarrow> host option" where
  "omx_peer_set_reverse_index peer f reverse_index h = do {
     i \<leftarrow> iface_store h f;
     c_assert (unat (peer_index peer) < omx_peer_max h);
     if ucast reverse_index \<noteq> reverse_peer_indexes i (unat (peer_index peer))
     then set_reverse (unat (peer_index peer)) (ucast reverse_index) f h
     else Some h
   }"

subsection \<open>Hashing and lookup\<close>

definition omx_peer_addr_hash :: "u64 \<Rightarrow> u8" where
  "omx_peer_addr_hash addr =
     (let tmp24 = (ucast (addr XOR drop_bit 24 addr) :: u32)
      in ucast (tmp24 XOR drop_bit 8 tmp24 XOR drop_bit 16 tmp24))"

definition set_hash :: "u8 \<Rightarrow> peer_ref list \<Rightarrow> host \<Rightarrow> host" where
  "set_hash b l h = h\<lparr>omx_peer_addr_hash_array := (omx_peer_addr_hash_array h)(b := l)\<rparr>"

definition set_slot :: "nat \<Rightarrow> peer_ref option \<Rightarrow> host \<Rightarrow> host" where
  "set_slot i r h = h\<lparr>omx_peer_array := (omx_peer_array h)(i := r)\<rparr>"

definition omx_peer_lookup_by_addr_locked :: "u64 \<Rightarrow> host \<Rightarrow> peer_ref option" where
  "omx_peer_lookup_by_addr_locked addr h =
     find (\<lambda>r. map_option board_addr (get_peer r h) = Some addr) (omx_peer_addr_hash_array h (omx_peer_addr_hash addr))"

definition omx_peer_lookup_by_addr :: "u64 \<Rightarrow> host \<Rightarrow> (errno + u32 \<times> bytes) option" where
  "omx_peer_lookup_by_addr addr h =
     (case omx_peer_lookup_by_addr_locked addr h of
        None \<Rightarrow> Some (Inl EINVAL)
      | Some r \<Rightarrow> do {
          p \<leftarrow> get_peer r h;
          Some (Inr (peer_index p, case peer_hostname p of None \<Rightarrow> [] | Some n \<Rightarrow> n))
        })"

definition omx_peer_lookup_by_index :: "nat \<Rightarrow> host \<Rightarrow> (errno + u64 \<times> bytes) option" where
  "omx_peer_lookup_by_index index h =
     (if index \<ge> omx_peer_max h then Some (Inl EINVAL)
      else case omx_peer_array h index of
        None \<Rightarrow> Some (Inl EINVAL)
      | Some r \<Rightarrow> do {
          p \<leftarrow> get_peer r h;
          Some (Inr (board_addr p, case peer_hostname p of None \<Rightarrow> [] | Some n \<Rightarrow> n))
        })"

definition peer_at :: "host \<Rightarrow> nat \<Rightarrow> omx_peer option" where
  "peer_at h i = Option.bind (omx_peer_array h i) (\<lambda>r. get_peer r h)"

definition omx_peer_lookup_by_hostname :: "bytes \<Rightarrow> host \<Rightarrow> errno + nat \<times> u64" where
  "omx_peer_lookup_by_hostname hostname h =
     (case find (\<lambda>i. Option.bind (peer_at h i) peer_hostname = Some hostname) [0..<omx_peer_max h] of
        None \<Rightarrow> Inl EINVAL
      | Some i \<Rightarrow> Inr (i, board_addr (the (peer_at h i))))"

text \<open>What a packet to a peer is addressed with: its board address, and our index in its table.\<close>

definition omx_set_target_peer :: "bool \<Rightarrow> memory \<Rightarrow> nat \<Rightarrow> u16 \<Rightarrow> host \<Rightarrow> (errno + memory) option" where
  "omx_set_target_peer ec ph f index h =
     (if unat index \<ge> omx_peer_max h then Some (Inl EINVAL)
      else case omx_peer_array h (unat index) of
        None \<Rightarrow> Some (Inl EINVAL)
      | Some r \<Rightarrow> do {
          peer \<leftarrow> get_peer r h;
          i \<leftarrow> iface_store h f;
          Some (Inr (OMX_HTON_16 ec DST_SRC_PEER_INDEX (ucast (reverse_peer_indexes i (unat index)))
                       (omx_board_addr_to_ethhdr_dst (board_addr peer) ph)))
        })"

definition omx_check_recv_peer_index :: "u16 \<Rightarrow> host \<Rightarrow> errno option" where
  "omx_check_recv_peer_index index h =
     (if unat index \<ge> omx_peer_max h \<or> omx_peer_array h (unat index) = None then Some EINVAL else None)"

text \<open>The endpoint of a local peer: \<^term>\<open>Inr None\<close> when the peer is not local.\<close>

definition omx_local_peer_acquire_endpoint :: "u16 \<Rightarrow> u8 \<Rightarrow> host \<Rightarrow> ((errno + nat option) \<times> host) option" where
  "omx_local_peer_acquire_endpoint index endpoint_index h =
     (if unat index \<ge> omx_peer_max h then Some (Inr None, h)
      else case omx_peer_array h (unat index) of
        None \<Rightarrow> Some (Inr None, h)
      | Some r \<Rightarrow> do {
          peer \<leftarrow> get_peer r h;
          case local_iface peer of
            None \<Rightarrow> Some (Inr None, h)
          | Some f \<Rightarrow> do { (res, h1) \<leftarrow> endpoint_acquire_by_iface_index f endpoint_index h;
                            Some (case res of Inl err \<Rightarrow> Inl err | Inr e \<Rightarrow> Inr (Some e), h1) }
        })"

subsection \<open>Asking for host names\<close>

text \<open>
  The list of the peers to ask, with its timer: it is started when the list gets its first entry, and
  stopped when the list loses its last.
\<close>

definition host_query_add :: "peer_ref \<Rightarrow> host \<Rightarrow> host option" where
  "host_query_add r h = do {
     c_assert (r \<notin> set (omx_host_query_peer_list h));
     Some (h\<lparr>omx_host_query_peer_list := omx_host_query_peer_list h @ [r],
             omx_host_query_timer := omx_host_query_peer_list h = [] \<or> omx_host_query_timer h\<rparr>)
   }"

definition host_query_del :: "peer_ref \<Rightarrow> host \<Rightarrow> host option" where
  "host_query_del r h = do {
     c_assert (r \<in> set (omx_host_query_peer_list h));
     let l = remove1 r (omx_host_query_peer_list h);
     Some (h\<lparr>omx_host_query_peer_list := l, omx_host_query_timer := l \<noteq> [] \<and> omx_host_query_timer h\<rparr>)
   }"

fun omx_peer_host_query_send :: "skb \<Rightarrow> nat list \<Rightarrow> host \<Rightarrow> host option" where
  "omx_peer_host_query_send skb [] h = Some h"
| "omx_peer_host_query_send skb (f # fs) h = do {
     i \<leftarrow> iface_store h f;
     case kmalloc h of
       (None, h1) \<Rightarrow> Some h1
     | (Some _, h1) \<Rightarrow>
         let newskb = skb\<lparr>sk_mem := write_h_source (dev_addr h1 (if_ifp i)) (sk_mem skb)\<rparr>
         in omx_peer_host_query_send skb fs (dev_queue_xmit (if_ifp i) newskb h1)
   }"

definition host_query_packet :: "bool \<Rightarrow> u64 \<Rightarrow> u16 \<Rightarrow> u32 \<Rightarrow> memory \<Rightarrow> memory" where
  "host_query_packet ec addr index magic =
     omx_board_addr_to_ethhdr_dst addr \<circ> write_h_proto
     \<circ> OMX_HTON_32 ec (pkt_head_len + 8) magic \<circ> OMX_HTON_16 ec (pkt_head_len + 2) index
     \<circ> OMX_HTON_8 pkt_head_len (pkt_type_code OMX_PKT_TYPE_HOST_QUERY)"

definition omx_peer_host_query :: "bool \<Rightarrow> peer_ref \<Rightarrow> host \<Rightarrow> host option" where
  "omx_peer_host_query ec r h = do {
     peer \<leftarrow> get_peer r h;
     case alloc_skb ETH_ZLEN h of
       (None, h1) \<Rightarrow> Some h1
     | (Some skb, h1) \<Rightarrow>
         omx_peer_host_query_send
           (skb\<lparr>sk_mem := host_query_packet ec (board_addr peer) (ucast (peer_index peer)) (omx_host_query_magic h1) (sk_mem skb)\<rparr>)
           (attached_ifaces h1) h1
   }"

definition omx_host_query_workfunc :: "bool \<Rightarrow> host \<Rightarrow> host option" where
  "omx_host_query_workfunc ec h =
     (let h0 = h\<lparr>omx_host_query_work := False\<rparr>
      in if omx_host_query_peer_list h0 = [] then Some h0
         else do {
           h1 \<leftarrow> foreach (omx_peer_host_query ec) (omx_host_query_peer_list h0) h0;
           Some (h1\<lparr>omx_host_query_timer := True\<rparr>)
         })"

definition omx_host_query_timer_handler :: "host \<Rightarrow> host" where
  "omx_host_query_timer_handler h = h\<lparr>omx_host_query_timer := False, omx_host_query_work := True\<rparr>"

subsection \<open>The table\<close>

definition set_full :: "bool \<Rightarrow> host \<Rightarrow> host" where
  "set_full b h = h\<lparr>omx_peer_table_full := b,
     omx_peer_table_state := (omx_peer_table_state h)\<lparr>pts_status :=
       (if b then pts_status (omx_peer_table_state h) OR OMX_PEER_TABLE_STATUS_FULL
        else pts_status (omx_peer_table_state h) AND NOT OMX_PEER_TABLE_STATUS_FULL)\<rparr>\<rparr>"

text \<open>A peer off its list of the hash table.\<close>

definition unhash :: "peer_ref \<Rightarrow> u64 \<Rightarrow> host \<Rightarrow> host option" where
  "unhash r addr h =
     (let b = omx_peer_addr_hash addr; l = omx_peer_addr_hash_array h b
      in do { c_assert (r \<in> set l); Some (set_hash b (remove1 r l) h) })"

definition clear_one :: "bool \<Rightarrow> nat \<Rightarrow> host \<Rightarrow> host option" where
  "clear_one locl i h =
     (case omx_peer_array h i of
        None \<Rightarrow> Some h
      | Some r \<Rightarrow> do {
          peer \<leftarrow> get_peer r h;
          if local_iface peer \<noteq> None \<and> \<not> locl then Some h
          else do {
            h1 \<leftarrow> unhash r (board_addr peer) h;
            let h2 = set_slot i None h1;
            case local_iface peer of
              Some f \<Rightarrow> do {
                c_assert (peer_hostname peer \<noteq> None);
                h3 \<leftarrow> put_peer r (peer\<lparr>peer_index := OMX_UNKNOWN_REVERSE_PEER_INDEX, local_iface := None\<rparr>) h2;
                omx_iface_release f h3
              }
            | None \<Rightarrow> do {
                h3 \<leftarrow> (if peer_hostname peer = None then host_query_del r h2 else Some h2);
                kfree_peer r h3
              }
          }
        })"

text \<open>The local interfaces move to the beginning of the table.\<close>

definition compact_one :: "nat \<Rightarrow> host \<Rightarrow> host option" where
  "compact_one i h =
     (case omx_peer_array h i of
        None \<Rightarrow> Some h
      | Some r \<Rightarrow> do {
          h1 \<leftarrow> (if i \<noteq> omx_peer_next_nr h then do {
              peer \<leftarrow> get_peer r h;
              h' \<leftarrow> put_peer r (peer\<lparr>peer_index := of_nat (omx_peer_next_nr h)\<rparr>) h;
              Some (set_slot i None (set_slot (omx_peer_next_nr h) (Some r) h'))
            } else Some h);
          Some (h1\<lparr>omx_peer_next_nr := omx_peer_next_nr h1 + 1\<rparr>)
        })"

definition omx_peers_clear :: "bool \<Rightarrow> host \<Rightarrow> host option" where
  "omx_peers_clear locl h = do {
     h1 \<leftarrow> foreach (clear_one locl) [0..<omx_peer_max h] h;
     let h2 = set_full False (h1\<lparr>omx_peer_next_nr := 0\<rparr>);
     if locl then Some h2
     else do {
       h3 \<leftarrow> foreach compact_one [0..<omx_peer_max h2] h2;
       Some (if omx_peer_next_nr h3 = omx_peer_max h3 then set_full True h3 else h3)
     }
   }"

text \<open>
  Adding a peer. The table may know the address already, and it may be the address of an interface of
  ours, whose reference the table then keeps if it was not in the table.
\<close>

definition add_local :: "nat \<Rightarrow> bytes option \<Rightarrow> host \<Rightarrow> host option" where
  "add_local f hostname h = do {
     peer \<leftarrow> get_peer (Local f) h;
     h1 \<leftarrow> (if peer_index peer \<noteq> OMX_UNKNOWN_REVERSE_PEER_INDEX
            then do { h1 \<leftarrow> omx_iface_release f h; c_assert (local_iface peer = Some f); Some h1 }
            else do { c_assert (local_iface peer = None); put_peer (Local f) (peer\<lparr>local_iface := Some f\<rparr>) h });
     peer1 \<leftarrow> get_peer (Local f) h1;
     case hostname of
       None \<Rightarrow> Some h1
     | Some n \<Rightarrow> do { c_assert (peer_hostname peer1 \<noteq> None); put_peer (Local f) (peer1\<lparr>peer_hostname := Some n\<rparr>) h1 }
   }"

definition rename_peer :: "peer_ref \<Rightarrow> bytes option \<Rightarrow> host \<Rightarrow> (bool \<times> host) option" where
  "rename_peer r hostname h = do {
     peer \<leftarrow> get_peer r h;
     (needs, h1) \<leftarrow>
       (if peer_hostname peer = None \<and> hostname \<noteq> None then do { h1 \<leftarrow> host_query_del r h; Some (False, h1) }
        else if peer_hostname peer \<noteq> None \<and> hostname = None then do { h1 \<leftarrow> host_query_add r h; Some (True, h1) }
        else Some (False, h));
     h2 \<leftarrow> put_peer r (peer\<lparr>peer_hostname := hostname\<rparr>) h1;
     Some (needs, h2)
   }"

definition new_peer :: "u64 \<Rightarrow> bytes option \<Rightarrow> host \<Rightarrow> (peer_ref \<times> bool \<times> host) option" where
  "new_peer addr hostname h =
     (let r = Remote (next_remote h);
          h1 = h\<lparr>next_remote := next_remote h + 1,
                 remote_peers := (remote_peers h)(next_remote h \<mapsto>
                   \<lparr>board_addr = addr, peer_hostname = hostname, peer_index = 0, local_iface = None\<rparr>)\<rparr>
      in if hostname = None then do { h2 \<leftarrow> host_query_add r h1; Some (r, True, h2) } else Some (r, False, h1))"

definition hash_new_peer :: "peer_ref \<Rightarrow> bool \<Rightarrow> host \<Rightarrow> host option" where
  "hash_new_peer r locl h = do {
     peer \<leftarrow> get_peer r h;
     let index = (of_nat (omx_peer_next_nr h) :: u16);
     h1 \<leftarrow> put_peer r (peer\<lparr>peer_index := ucast index\<rparr>) h;
     h2 \<leftarrow> omx_init_peer_reverse_indexes (unat index) locl h1;
     let b = omx_peer_addr_hash (board_addr peer);
     let h3 = set_hash b (omx_peer_addr_hash_array h2 b @ [r]) h2;
     c_assert (omx_peer_next_nr h3 < omx_peer_max h3);
     Some (set_slot (omx_peer_next_nr h3) (Some r) h3\<lparr>omx_peer_next_nr := omx_peer_next_nr h3 + 1\<rparr>)
   }"

text \<open>The peer to use: our own, the one known, or a new one; without memory for it, the state alone.\<close>

definition find_or_make ::
  "u64 \<Rightarrow> bytes option \<Rightarrow> peer_ref option \<Rightarrow> nat option \<Rightarrow> host \<Rightarrow> (host + peer_ref \<times> bool \<times> host) option" where
  "find_or_make addr hostname found iface h =
     (case iface of
        Some f \<Rightarrow> do { h1 \<leftarrow> add_local f hostname h; Some (Inr (Local f, False, h1)) }
      | None \<Rightarrow>
          (case found of
             Some r \<Rightarrow> do { (needs, h1) \<leftarrow> rename_peer r hostname h; Some (Inr (r, needs, h1)) }
           | None \<Rightarrow>
               (case kmalloc h of
                  (None, h1) \<Rightarrow> Some (Inl h1)
                | (Some _, h1) \<Rightarrow> do { (r, needs, h2) \<leftarrow> new_peer addr hostname h1; Some (Inr (r, needs, h2)) })))"

definition omx_peer_add :: "bool \<Rightarrow> u64 \<Rightarrow> bytes option \<Rightarrow> host \<Rightarrow> ((errno + unit) \<times> host) option" where
  "omx_peer_add ec addr hostname h =
     (case kstrdup hostname h of
        (False, h0) \<Rightarrow> Some (Inl ENOMEM, h0)
      | (True, h0) \<Rightarrow>
          let found = omx_peer_lookup_by_addr_locked addr h0
          in if found = None \<and> omx_peer_next_nr h0 = omx_peer_max h0 then Some (Inl ENOMEM, set_full True h0)
             else do {
               (iface, h1) \<leftarrow> omx_iface_find_by_addr addr h0;
               res \<leftarrow> find_or_make addr hostname found iface h1;
               case res of
                 Inl h2 \<Rightarrow> Some (Inl ENOMEM, h2)
               | Inr (r, needs, h2) \<Rightarrow> do {
                   h3 \<leftarrow> (if found = None then hash_new_peer r (iface \<noteq> None) h2 else Some h2);
                   h4 \<leftarrow> (if needs then omx_peer_host_query ec r h3 else Some h3);
                   Some (Inr (), h4)
                 }
             })"

subsection \<open>Interfaces in the table\<close>

definition iface_peer :: "nat \<Rightarrow> (omx_peer \<Rightarrow> omx_peer) \<Rightarrow> host \<Rightarrow> host option" where
  "iface_peer f g h = do { peer \<leftarrow> get_peer (Local f) h; put_peer (Local f) (g peer) h }"

text \<open>A new interface takes the place of the peer of its address, or a new index.\<close>

definition replace_peer :: "nat \<Rightarrow> peer_ref \<Rightarrow> host \<Rightarrow> host option" where
  "replace_peer f old h = do {
     ifacepeer \<leftarrow> get_peer (Local f) h;
     c_assert (local_iface ifacepeer = None);
     oldpeer \<leftarrow> get_peer old h;
     h1 \<leftarrow> omx_iface_reacquire f h;
     h2 \<leftarrow> iface_peer f (\<lambda>p. p\<lparr>peer_index := peer_index oldpeer\<rparr>) h1;
     h3 \<leftarrow> omx_init_iface_reverse_indexes f h2;
     h4 \<leftarrow> iface_peer f (\<lambda>p. p\<lparr>local_iface := Some f\<rparr>) h3;
     h5 \<leftarrow> (case peer_hostname oldpeer of
         Some n \<Rightarrow> iface_peer f (\<lambda>p. p\<lparr>peer_hostname := Some n\<rparr>) h4
       | None \<Rightarrow> host_query_del old h4);
     let b = omx_peer_addr_hash (board_addr oldpeer);
     let h6 = set_hash b (map (\<lambda>r. if r = old then Local f else r) (omx_peer_addr_hash_array h5 b)) h5;
     c_assert (unat (peer_index oldpeer) < omx_peer_max h6);
     kfree_peer old (set_slot (unat (peer_index oldpeer)) (Some (Local f)) h6)
   }"

definition omx_peers_notify_iface_attach :: "nat \<Rightarrow> host \<Rightarrow> ((errno + unit) \<times> host) option" where
  "omx_peers_notify_iface_attach f h = do {
     ifacepeer \<leftarrow> get_peer (Local f) h;
     case omx_peer_lookup_by_addr_locked (board_addr ifacepeer) h of
       Some old \<Rightarrow> do { h1 \<leftarrow> replace_peer f old h; Some (Inr (), h1) }
     | None \<Rightarrow>
         if omx_peer_next_nr h = omx_peer_max h then Some (Inl ENOMEM, set_full True h)
         else do {
           let index = omx_peer_next_nr h;
           h1 \<leftarrow> iface_peer f (\<lambda>p. p\<lparr>local_iface := Some f, peer_index := of_nat index\<rparr>) h;
           h2 \<leftarrow> omx_init_iface_reverse_indexes f h1;
           h3 \<leftarrow> omx_iface_reacquire f h2;
           let b = omx_peer_addr_hash (board_addr ifacepeer);
           let h4 = set_hash b (omx_peer_addr_hash_array h3 b @ [Local f]) h3;
           Some (Inr (), set_slot index (Some (Local f)) h4\<lparr>omx_peer_next_nr := index + 1\<rparr>)
         }
   }"

definition omx_peers_notify_iface_detach :: "nat \<Rightarrow> host \<Rightarrow> host option" where
  "omx_peers_notify_iface_detach f h = do {
     peer \<leftarrow> get_peer (Local f) h;
     if peer_index peer = OMX_UNKNOWN_REVERSE_PEER_INDEX then Some h
     else do {
       h1 \<leftarrow> unhash (Local f) (board_addr peer) h;
       c_assert (unat (peer_index peer) < omx_peer_max h1);
       h2 \<leftarrow> put_peer (Local f) (peer\<lparr>peer_index := OMX_UNKNOWN_REVERSE_PEER_INDEX, local_iface := None\<rparr>)
               (set_slot (unat (peer_index peer)) None h1);
       omx_iface_release f h2
     }
   }"

end
