(* ===== verification/Host_Queries.thy ===== *)
theory Host_Queries
  imports Peers
begin

text \<open>
  Queries and replies about host names, and the initialisation and the state of the table
  (\<open>driver/linux/omx_peer.c\<close> from line 883 on). A packet received is put on a list, with the interface
  it came by, and processed later by a work function.
\<close>

subsection \<open>Packets received\<close>

text \<open>The board address of a device, from the six bytes of its address.\<close>

definition omx_board_addr_from_netdevice :: "u64 \<Rightarrow> u64" where
  "omx_board_addr_from_netdevice addr = omx_board_addr_from_ethhdr_src (write_h_source addr (\<lambda>_. 0))"

definition h_dest_is :: "u64 \<Rightarrow> memory \<Rightarrow> bool" where
  "h_dest_is addr m \<longleftrightarrow> read_mem m 0 6 = read_mem (omx_board_addr_to_ethhdr_dst addr m) 0 6"

definition omx_recv_host_query :: "nat \<Rightarrow> skb \<Rightarrow> host \<Rightarrow> ((errno + unit) \<times> host) option" where
  "omx_recv_host_query f skb h = do {
     i \<leftarrow> iface_store h f;
     if \<not> h_dest_is (dev_addr h (if_ifp i)) (sk_mem skb) then Some (Inl EINVAL, h)
     else Some (Inr (), h\<lparr>omx_host_query_list := omx_host_query_list h @ [(f, skb)]\<rparr>)
   }"

definition omx_recv_host_reply :: "bool \<Rightarrow> nat \<Rightarrow> skb \<Rightarrow> host \<Rightarrow> (errno + unit) \<times> host" where
  "omx_recv_host_reply ec f skb h =
     (if OMX_NTOH_32 ec (pkt_head_len + 8) (sk_mem skb) \<noteq> omx_host_query_magic h then (Inl EINVAL, h)
      else (Inr (), h\<lparr>omx_host_reply_list := omx_host_reply_list h @ [(f, skb)]\<rparr>))"

subsection \<open>Processing them\<close>

text \<open>
  The new name: as many bytes as the packet says, or what the allocated memory held when the packet is
  shorter; the last one is replaced by a null.
\<close>

definition reply_hostname :: "skb \<Rightarrow> nat \<Rightarrow> memory \<Rightarrow> bytes option" where
  "reply_hostname skb len junk = do {
     let name = (case skb_copy_bits skb (pkt_head_len + pkt_host_reply_len) len of
                   Some bs \<Rightarrow> bs | None \<Rightarrow> read_mem junk 0 len);
     c_assert (0 < len);
     Some (takeWhile (\<lambda>c. c \<noteq> 0) (name[len - 1 := 0]))
   }"

definition process_host_reply :: "bool \<Rightarrow> nat \<Rightarrow> skb \<Rightarrow> host \<Rightarrow> host option" where
  "process_host_reply ec f skb h =
     (case omx_peer_lookup_by_addr_locked (omx_board_addr_from_ethhdr_src (sk_mem skb)) h of
        None \<Rightarrow> Some h
      | Some r \<Rightarrow>
          (case kmalloc h of
             (None, h1) \<Rightarrow> Some h1
           | (Some junk, h1) \<Rightarrow> do {
               peer \<leftarrow> get_peer r h1;
               name \<leftarrow> reply_hostname skb (unat (OMX_NTOH_8 (pkt_head_len + 1) (sk_mem skb))) junk;
               h2 \<leftarrow> (if peer_hostname peer = None then host_query_del r h1 else Some h1);
               h3 \<leftarrow> put_peer r (peer\<lparr>peer_hostname := Some name\<rparr>) h2;
               omx_peer_set_reverse_index peer f (OMX_NTOH_16 ec (pkt_head_len + 2) (sk_mem skb)) h3
             }))"

definition host_reply_packet :: "bool \<Rightarrow> u64 \<Rightarrow> u16 \<Rightarrow> bytes \<Rightarrow> skb \<Rightarrow> memory \<Rightarrow> memory" where
  "host_reply_packet ec own index hostname query =
     write_mem 0 (read_mem (sk_mem query) 6 6) \<circ> write_h_source own \<circ> write_h_proto
     \<circ> write_mem (pkt_head_len + pkt_host_reply_len) (hostname @ [0])
     \<circ> write_mem (pkt_head_len + 8) (read_mem (sk_mem query) (pkt_head_len + 8) 4)
     \<circ> OMX_HTON_16 ec (pkt_head_len + 2) index
     \<circ> OMX_HTON_8 (pkt_head_len + 1) (of_nat (length hostname + 1))
     \<circ> OMX_HTON_8 pkt_head_len (pkt_type_code OMX_PKT_TYPE_HOST_REPLY)"

definition process_host_query :: "bool \<Rightarrow> nat \<Rightarrow> skb \<Rightarrow> host \<Rightarrow> host option" where
  "process_host_query ec f skb h = do {
     i \<leftarrow> iface_store h f;
     hostname \<leftarrow> peer_hostname (if_peer i);
     case omx_peer_lookup_by_addr_locked (omx_board_addr_from_ethhdr_src (sk_mem skb)) h of
       None \<Rightarrow> Some h
     | Some r \<Rightarrow> do {
         peer \<leftarrow> get_peer r h;
         h1 \<leftarrow> omx_peer_set_reverse_index peer f (OMX_NTOH_16 ec (pkt_head_len + 2) (sk_mem skb)) h;
         case alloc_skb (ETH_ZLEN + (length hostname + 1)) h1 of
           (None, h2) \<Rightarrow> Some h2
         | (Some out, h2) \<Rightarrow>
             let out1 = out\<lparr>sk_mem := host_reply_packet ec (dev_addr h2 (if_ifp i)) (ucast (peer_index peer)) hostname skb (sk_mem out)\<rparr>
             in Some (dev_queue_xmit (if_ifp i) out1 h2)
       }
   }"

definition omx_process_host_queries_and_replies_workfunc :: "bool \<Rightarrow> host \<Rightarrow> host option" where
  "omx_process_host_queries_and_replies_workfunc ec h = do {
     h1 \<leftarrow> foreach (\<lambda>(f, skb). process_host_reply ec f skb) (omx_host_reply_list h) (h\<lparr>omx_host_reply_list := []\<rparr>);
     foreach (\<lambda>(f, skb). process_host_query ec f skb) (omx_host_query_list h1) (h1\<lparr>omx_host_query_list := []\<rparr>)
   }"

subsection \<open>Forgetting the names\<close>

definition clear_name :: "bool \<Rightarrow> nat \<Rightarrow> host \<Rightarrow> host option" where
  "clear_name ec i h =
     (case omx_peer_array h i of
        None \<Rightarrow> Some h
      | Some r \<Rightarrow> do {
          peer \<leftarrow> get_peer r h;
          if peer_hostname peer = None \<or> local_iface peer \<noteq> None then Some h
          else do {
            h1 \<leftarrow> put_peer r (peer\<lparr>peer_hostname := None\<rparr>) h;
            c_assert (r \<notin> set (omx_host_query_peer_list h1));
            omx_peer_host_query ec r (h1\<lparr>omx_host_query_peer_list := omx_host_query_peer_list h1 @ [r]\<rparr>)
          }
        })"

definition omx_peers_clear_names :: "bool \<Rightarrow> host \<Rightarrow> host option" where
  "omx_peers_clear_names ec h = do {
     let listwasempty = (omx_host_query_peer_list h = []);
     h1 \<leftarrow> foreach (clear_name ec) [0..<omx_peer_max h] h;
     let h2 = h1\<lparr>omx_host_query_timer := listwasempty \<and> omx_host_query_peer_list h1 \<noteq> [] \<or> omx_host_query_timer h1\<rparr>;
     Some (h2\<lparr>omx_host_query_magic := omx_host_query_magic h2 + 1\<rparr>)
   }"

subsection \<open>The state of the table\<close>

definition omx_peer_table_get_state :: "host \<Rightarrow> peer_table_state" where
  "omx_peer_table_get_state h = omx_peer_table_state h"

definition omx_peer_table_set_state :: "bool \<Rightarrow> peer_table_state \<Rightarrow> host \<Rightarrow> (errno + unit) \<times> host" where
  "omx_peer_table_set_state has_right state h =
     (if \<not> has_right then (Inl EPERM, h)
      else (Inr (), h\<lparr>omx_peer_table_state :=
        \<lparr>pts_status = (pts_status (omx_peer_table_state h) AND NOT OMX_PEER_TABLE_STATUS_SETMASK)
            OR (pts_status state AND OMX_PEER_TABLE_STATUS_SETMASK),
         pts_version = pts_version state, pts_size = pts_size state, pts_mapper_id = pts_mapper_id state\<rparr>\<rparr>))"

text \<open>The table of a host whose module was just loaded, and the end of the module.\<close>

definition omx_peers_init :: "host_env \<Rightarrow> (nat \<Rightarrow> memory option) \<Rightarrow> (errno + host)" where
  "omx_peers_init env mem0 =
     (let h = host_env.extend env \<lparr>omx_peer_array = (\<lambda>_. None), omx_peer_addr_hash_array = (\<lambda>_. []),
            omx_peer_next_nr = 0, omx_peer_table_full = False,
            omx_peer_table_state = \<lparr>pts_status = 0, pts_version = 0, pts_size = 0, pts_mapper_id = - 1\<rparr>,
            omx_host_query_peer_list = [], omx_host_query_timer = False, omx_host_query_work = False,
            omx_host_query_magic = 0x13052008, omx_host_query_list = [], omx_host_reply_list = [],
            remote_peers = (\<lambda>_. None), next_remote = 0, iface_store = (\<lambda>_. None), next_iface = 0,
            omx_ifaces = (\<lambda>_. None), omx_iface_nr = 0, endpoint_store = (\<lambda>_. None), next_endpoint = 0,
            kmem = mem0, xmit = []\<rparr>
      in case kmallocs 2 h of (False, _) \<Rightarrow> Inl ENOMEM | (True, h1) \<Rightarrow> Inr h1)"

definition omx_peers_exit :: "host \<Rightarrow> host option" where
  "omx_peers_exit h = do {
     h1 \<leftarrow> omx_peers_clear True h;
     c_assert (omx_host_query_peer_list h1 = []);
     Some (h1\<lparr>omx_host_query_timer := False, omx_host_query_list := [], omx_host_reply_list := []\<rparr>)
   }"

end
