(* ===== verification/Interfaces.thy ===== *)
theory Interfaces
  imports Host_Queries
begin

text \<open>
  Attaching and detaching interfaces (\<open>driver/linux/omx_iface.c\<close>), and opening and closing endpoints
  (\<open>driver/linux/omx_dev.c\<close>). An open file is the number of its endpoint. An endpoint goes from FREE
  over INITIALIZING to OK, and from there to CLOSING; it is freed with its last reference, or when a
  file is closed whose endpoint was never opened.
\<close>

subsection \<open>Endpoints\<close>

definition OMX_ENDPOINT_DESC_STATUS_IFACE_DOWN :: u64 where "OMX_ENDPOINT_DESC_STATUS_IFACE_DOWN = 4"
definition OMX_ENDPOINT_DESC_STATUS_IFACE_BAD_MTU :: u64 where "OMX_ENDPOINT_DESC_STATUS_IFACE_BAD_MTU = 8"
definition OMX_ENDPOINT_DESC_STATUS_IFACE_REMOVED :: u64 where "OMX_ENDPOINT_DESC_STATUS_IFACE_REMOVED = 16"
definition OMX_ENDPOINT_DESC_STATUS_IFACE_HIGH_INTRCOAL :: u64 where "OMX_ENDPOINT_DESC_STATUS_IFACE_HIGH_INTRCOAL = 32"

definition update_endpoint :: "nat \<Rightarrow> (drv_endpoint \<Rightarrow> drv_endpoint) \<Rightarrow> host \<Rightarrow> host option" where
  "update_endpoint e g h = do { ep \<leftarrow> endpoint_store h e; Some (set_endpoint e (Some (g ep)) h) }"

text \<open>\<open>blank\<close> is what the memory of the new endpoint holds.\<close>

definition omx_miscdev_open :: "drv_endpoint \<Rightarrow> host \<Rightarrow> (errno + nat) \<times> host" where
  "omx_miscdev_open blank h =
     (case kmalloc h of
        (None, h1) \<Rightarrow> (Inl ENOMEM, h1)
      | (Some _, h1) \<Rightarrow>
          (Inr (next_endpoint h1),
           set_endpoint (next_endpoint h1) (Some (blank\<lparr>de_refcount := 1, de_status := ENDPOINT_STATUS_FREE\<rparr>))
             (h1\<lparr>next_endpoint := next_endpoint h1 + 1\<rparr>)))"

text \<open>
  The user descriptor, the queues and the arrays of their pages: seven allocations. \<open>session\<close> are the
  random bytes of the session, and \<open>exp0\<close> and \<open>unexp0\<close> the initialised queues.
\<close>

definition omx_endpoint_alloc_resources ::
  "u32 \<Rightarrow> exp_queue \<Rightarrow> unexp_queue \<Rightarrow> region_table \<Rightarrow> nat \<Rightarrow> host \<Rightarrow> ((errno + unit) \<times> host) option" where
  "omx_endpoint_alloc_resources session exp0 unexp0 regions0 e h = do {
     h1 \<leftarrow> update_endpoint e (\<lambda>ep. ep\<lparr>de_session_id := session\<rparr>) h;
     case kmallocs 7 h1 of
       (False, h2) \<Rightarrow> Some (Inl ENOMEM, h2)
     | (True, h2) \<Rightarrow> do {
         h3 \<leftarrow> update_endpoint e (\<lambda>ep. ep\<lparr>de_userdesc := 0, de_sendq := (\<lambda>_. 0), de_recvq := (\<lambda>_. 0),
                 de_exp := exp0, de_unexp := unexp0, de_regions := regions0\<rparr>) h2;
         Some (Inr (), h3)
       }
   }"

definition omx_iface_attach_endpoint :: "nat \<Rightarrow> host \<Rightarrow> ((errno + unit) \<times> host) option" where
  "omx_iface_attach_endpoint e h = do {
     ep \<leftarrow> endpoint_store h e;
     c_assert (de_status ep = ENDPOINT_STATUS_INITIALIZING);
     if unat (de_endpoint_index ep) \<ge> omx_endpoint_max h then Some (Inl EINVAL, h)
     else if unat (de_board_index ep) \<ge> omx_iface_max h then Some (Inl EINVAL, h)
     else case omx_ifaces h (unat (de_board_index ep)) of
       None \<Rightarrow> Some (Inl ENODEV, h)
     | Some f \<Rightarrow> do {
         i \<leftarrow> iface_store h f;
         if if_status i \<noteq> IFACE_STATUS_OK then Some (Inl ENODEV, h)
         else do {
           h1 \<leftarrow> omx_iface_reacquire f h;
           i1 \<leftarrow> iface_store h1 f;
           if if_endpoints i1 (de_endpoint_index ep) \<noteq> None
           then do { h2 \<leftarrow> omx_iface_release f h1; Some (Inl EBUSY, h2) }
           else do {
             let h2 = set_iface f (Some (i1\<lparr>if_endpoints := (if_endpoints i1)(de_endpoint_index ep \<mapsto> e),
                        endpoint_nr := endpoint_nr i1 + 1\<rparr>)) h1;
             h3 \<leftarrow> update_endpoint e (\<lambda>ep. ep\<lparr>de_iface := Some f, de_status := ENDPOINT_STATUS_OK\<rparr>) h2;
             Some (Inr (), h3)
           }
         }
       }
   }"

text \<open>\<open>flags\<close> is what the interface's device adds to the status of the user descriptor.\<close>

definition omx_endpoint_open ::
  "u32 \<Rightarrow> exp_queue \<Rightarrow> unexp_queue \<Rightarrow> region_table \<Rightarrow> u64 \<Rightarrow> (u8 \<times> u8) option \<Rightarrow> nat \<Rightarrow> host
    \<Rightarrow> ((errno + unit) \<times> host) option" where
  "omx_endpoint_open session exp0 unexp0 regions0 flags uparam e h =
     (case uparam of
        None \<Rightarrow> Some (Inl EFAULT, h)
      | Some (board_index, endpoint_index) \<Rightarrow> do {
          ep \<leftarrow> endpoint_store h e;
          if de_status ep \<noteq> ENDPOINT_STATUS_FREE then Some (Inl EBUSY, h)
          else do {
            h1 \<leftarrow> update_endpoint e (\<lambda>ep. ep\<lparr>de_status := ENDPOINT_STATUS_INITIALIZING\<rparr>) h;
            (res, h2) \<leftarrow> omx_endpoint_alloc_resources session exp0 unexp0 regions0 e h1;
            (res1, h3) \<leftarrow> (case res of
                Inl err \<Rightarrow> Some (Inl err, h2)
              | Inr _ \<Rightarrow> do {
                  h3 \<leftarrow> update_endpoint e (\<lambda>ep. ep\<lparr>de_board_index := board_index, de_endpoint_index := endpoint_index\<rparr>) h2;
                  omx_iface_attach_endpoint e h3
                });
            case res1 of
              Inl err \<Rightarrow> do { h4 \<leftarrow> update_endpoint e (\<lambda>ep. ep\<lparr>de_status := ENDPOINT_STATUS_FREE\<rparr>) h3; Some (Inl err, h4) }
            | Inr _ \<Rightarrow> do { h4 \<leftarrow> update_endpoint e (\<lambda>ep. ep\<lparr>de_userdesc := de_userdesc ep OR flags\<rparr>) h3; Some (Inr (), h4) }
          }
        })"

definition omx_iface_detach_endpoint :: "nat \<Rightarrow> host \<Rightarrow> host option" where
  "omx_iface_detach_endpoint e h = do {
     ep \<leftarrow> endpoint_store h e;
     c_assert (de_status ep = ENDPOINT_STATUS_CLOSING);
     f \<leftarrow> de_iface ep;
     i \<leftarrow> iface_store h f;
     c_assert (if_endpoints i (de_endpoint_index ep) = Some e);
     Some (set_iface f (Some (i\<lparr>if_endpoints := (if_endpoints i)(de_endpoint_index ep := None),
             endpoint_nr := endpoint_nr i - 1\<rparr>)) h)
   }"

definition omx_endpoint_close :: "nat \<Rightarrow> host \<Rightarrow> ((errno + unit) \<times> host) option" where
  "omx_endpoint_close e h = do {
     ep \<leftarrow> endpoint_store h e;
     if de_status ep = ENDPOINT_STATUS_FREE then Some (Inr (), set_endpoint e None h)
     else if de_status ep \<noteq> ENDPOINT_STATUS_OK then Some (Inl EINVAL, h)
     else do {
       h1 \<leftarrow> update_endpoint e (\<lambda>ep. ep\<lparr>de_status := ENDPOINT_STATUS_CLOSING\<rparr>) h;
       h2 \<leftarrow> omx_iface_detach_endpoint e h1;
       h3 \<leftarrow> omx_endpoint_release e h2;
       Some (Inr (), h3)
     }
   }"

definition omx_miscdev_release :: "nat \<Rightarrow> host \<Rightarrow> host option" where
  "omx_miscdev_release e h = do { (_, h1) \<leftarrow> omx_endpoint_close e h; Some h1 }"

subsection \<open>Interfaces\<close>

fun decimal :: "nat \<Rightarrow> bytes" where
  "decimal n = (if n < 10 then [of_nat (48 + n)] else decimal (n div 10) @ [of_nat (48 + n mod 10)])"

declare decimal.simps [simp del]

definition iface_hostname :: "host \<Rightarrow> nat \<Rightarrow> nat \<Rightarrow> bytes" where
  "iface_hostname h ifp i =
     (if dev_loopback h ifp then map (\<lambda>c. of_nat (of_char c)) ''localhost''
      else take (OMX_HOSTNAMELEN_MAX - 1) (nodename h @ [58] @ decimal i))"

definition omx_iface_attach :: "nat \<Rightarrow> host \<Rightarrow> ((errno + unit) \<times> host) option" where
  "omx_iface_attach ifp h =
     (if omx_iface_nr h = omx_iface_max h then Some (Inl EBUSY, h)
      else if omx_iface_find_by_ifp ifp h \<noteq> None then Some (Inl EBUSY, h)
      else let i = (case find (\<lambda>i. omx_ifaces h i = None) [0..<omx_iface_max h] of Some i \<Rightarrow> i | None \<Rightarrow> omx_iface_max h)
      in case kmallocs 4 h of
           (False, h1) \<Rightarrow> Some (Inl ENOMEM, h1)
         | (True, h1) \<Rightarrow>
             let f = next_iface h1;
                 iface = \<lparr>if_index = 0, if_ifp = ifp,
                   if_peer = \<lparr>board_addr = omx_board_addr_from_netdevice (dev_addr h1 ifp),
                     peer_hostname = Some (iface_hostname h1 ifp i), peer_index = OMX_UNKNOWN_REVERSE_PEER_INDEX,
                     local_iface = None\<rparr>,
                   reverse_peer_indexes = (\<lambda>_. 0), if_endpoints = (\<lambda>_. None), endpoint_nr = 0,
                   if_status = IFACE_STATUS_OK, if_refcount = 1\<rparr>
             in do {
               (res, h2) \<leftarrow> omx_peers_notify_iface_attach f (set_iface f (Some iface) (h1\<lparr>next_iface := next_iface h1 + 1\<rparr>));
               case res of
                 Inl err \<Rightarrow> Some (Inl err, set_iface f None h2)
               | Inr _ \<Rightarrow> do {
                   iface1 \<leftarrow> iface_store h2 f;
                   c_assert (i < omx_iface_max h2);
                   let h3 = set_iface f (Some (iface1\<lparr>if_index := i\<rparr>)) h2;
                   Some (Inr (), h3\<lparr>omx_ifaces := (omx_ifaces h3)(i \<mapsto> f), omx_iface_nr := omx_iface_nr h3 + 1\<rparr>)
                 }
             })"

text \<open>The endpoints of an interface that goes are told so and closed; that they are being closed already is ignored.\<close>

definition force_close :: "nat \<Rightarrow> u8 \<Rightarrow> host \<Rightarrow> host option" where
  "force_close f index h = do {
     i \<leftarrow> iface_store h f;
     case if_endpoints i index of
       None \<Rightarrow> Some h
     | Some e \<Rightarrow> do {
         h1 \<leftarrow> update_endpoint e (\<lambda>ep. ep\<lparr>de_userdesc := de_userdesc ep OR OMX_ENDPOINT_DESC_STATUS_IFACE_REMOVED\<rparr>) h;
         (_, h2) \<leftarrow> omx_endpoint_close e h1;
         Some h2
       }
   }"

definition omx_iface_detach :: "nat \<Rightarrow> bool \<Rightarrow> host \<Rightarrow> ((errno + unit) \<times> host) option" where
  "omx_iface_detach f force h = do {
     i \<leftarrow> iface_store h f;
     c_assert (omx_ifaces h (if_index i) \<noteq> None);
     if \<not> force \<and> endpoint_nr i \<noteq> 0 then Some (Inl EBUSY, h)
     else do {
       let h1 = set_iface f (Some (i\<lparr>if_status := IFACE_STATUS_CLOSING\<rparr>)) h;
       h2 \<leftarrow> foreach (force_close f) (map of_nat [0..<omx_endpoint_max h1]) h1;
       h3 \<leftarrow> omx_peers_notify_iface_detach f h2;
       i3 \<leftarrow> iface_store h3 f;
       h4 \<leftarrow> omx_iface_release f (h3\<lparr>omx_ifaces := (omx_ifaces h3)(if_index i3 := None), omx_iface_nr := omx_iface_nr h3 - 1\<rparr>);
       Some (Inr (), h4)
     }
   }"

text \<open>A network device that goes away takes its interface with it.\<close>

definition netdev_unregister :: "nat \<Rightarrow> host \<Rightarrow> host option" where
  "netdev_unregister ifp h =
     (case omx_iface_find_by_ifp ifp h of
        None \<Rightarrow> Some h
      | Some f \<Rightarrow> do {
          (res, h1) \<leftarrow> omx_iface_detach f True h;
          c_assert (res = Inr ());
          Some h1
        })"

text \<open>At the end of the module all endpoints are closed, and no interface is busy.\<close>

definition omx_net_exit :: "host \<Rightarrow> host option" where
  "omx_net_exit h = foreach (\<lambda>i h. case omx_ifaces h i of
       None \<Rightarrow> Some h
     | Some f \<Rightarrow> do { (res, h1) \<leftarrow> omx_iface_detach f False h; c_assert (res = Inr ()); Some h1 }) [0..<omx_iface_max h] h"

end
