(* ===== verification/Peer_Table.thy ===== *)
theory Peer_Table
  imports Interfaces
begin

text \<open>
  What holds of the table of peers between two operations, and its preservation: each operation on a
  well-formed table comes back, and leaves a well-formed table. The operations that change the table
  are treated one by one; all others only change what \<open>strip\<close> forgets.
\<close>

subsection \<open>Well-formed tables\<close>

abbreviation tabled :: "host \<Rightarrow> peer_ref set" where
  "tabled h \<equiv> ran (omx_peer_array h)"

abbreviation attached :: "host \<Rightarrow> nat set" where
  "attached h \<equiv> ran (omx_ifaces h)"

text \<open>A peer of the table: a remote one has no interface, a local one has its own and a name.\<close>

fun entry_ok :: "peer_ref \<Rightarrow> omx_peer \<Rightarrow> bool" where
  "entry_ok (Remote n) p \<longleftrightarrow> local_iface p = None"
| "entry_ok (Local f) p \<longleftrightarrow> local_iface p = Some f \<and> peer_hostname p \<noteq> None"

text \<open>
  Each entry lies below the next index to give, and its peer knows its index. While the table is
  compacted this holds of the entries below the position reached.
\<close>

definition array_ok :: "nat \<Rightarrow> host \<Rightarrow> bool" where
  "array_ok k h \<longleftrightarrow> omx_peer_next_nr h \<le> omx_peer_max h \<and> omx_peer_max h \<le> OMX_PEER_INDEX_MAX
     \<and> (\<forall>i r. omx_peer_array h i = Some r \<longrightarrow> (i < omx_peer_next_nr h \<or> k \<le> i) \<and> i < omx_peer_max h
          \<and> (\<exists>p. get_peer r h = Some p \<and> unat (peer_index p) = i \<and> entry_ok r p))"

text \<open>The lists of the hash table hold the peers of the table, each in the list of its address.\<close>

definition hash_ok :: "host \<Rightarrow> bool" where
  "hash_ok h \<longleftrightarrow> (\<forall>b. distinct (omx_peer_addr_hash_array h b) \<and>
     (\<forall>r. r \<in> set (omx_peer_addr_hash_array h b)
        \<longleftrightarrow> r \<in> tabled h \<and> (\<exists>p. get_peer r h = Some p \<and> omx_peer_addr_hash (board_addr p) = b)))"

definition addr_ok :: "host \<Rightarrow> bool" where
  "addr_ok h \<longleftrightarrow> (\<forall>r s p q. r \<in> tabled h \<longrightarrow> s \<in> tabled h \<longrightarrow> get_peer r h = Some p \<longrightarrow> get_peer s h = Some q
     \<longrightarrow> board_addr p = board_addr q \<longrightarrow> r = s)"

text \<open>The allocated peers are those in the table, and the ones to ask those without a name.\<close>

definition remote_ok :: "host \<Rightarrow> bool" where
  "remote_ok h \<longleftrightarrow> (\<forall>n. (remote_peers h n \<noteq> None \<longleftrightarrow> Remote n \<in> tabled h) \<and> (remote_peers h n \<noteq> None \<longrightarrow> n < next_remote h))"

definition query_ok :: "host \<Rightarrow> bool" where
  "query_ok h \<longleftrightarrow> distinct (omx_host_query_peer_list h) \<and>
     (\<forall>r. r \<in> set (omx_host_query_peer_list h)
        \<longleftrightarrow> (\<exists>n p. r = Remote n \<and> remote_peers h n = Some p \<and> peer_hostname p = None))"

definition timer_ok :: "host \<Rightarrow> bool" where
  "timer_ok h \<longleftrightarrow> (omx_host_query_peer_list h \<noteq> [] \<longrightarrow> omx_host_query_timer h \<or> omx_host_query_work h)
     \<and> (omx_host_query_timer h \<longrightarrow> omx_host_query_peer_list h \<noteq> [])"

text \<open>
  The interfaces in the array are those in the table. Each is referenced by the array, the table, and
  its endpoints; one that has left the array lives on while it has endpoints.
\<close>

definition iface_ok :: "host \<Rightarrow> bool" where
  "iface_ok h \<longleftrightarrow> (\<forall>k f. omx_ifaces h k = Some f \<longrightarrow> k < omx_iface_max h \<and> map_option if_index (iface_store h f) = Some k)
     \<and> (\<forall>f i. iface_store h f = Some i \<longrightarrow> f < next_iface h \<and>
          (f \<notin> attached h \<longrightarrow> peer_index (if_peer i) = OMX_UNKNOWN_REVERSE_PEER_INDEX \<and> local_iface (if_peer i) = None))"

definition local_ok :: "host \<Rightarrow> bool" where
  "local_ok h \<longleftrightarrow> (\<forall>f. Local f \<in> tabled h \<longleftrightarrow> f \<in> attached h)"

definition endpoint_refs :: "host \<Rightarrow> nat \<Rightarrow> nat" where
  "endpoint_refs h f = card {e. \<exists>ep. endpoint_store h e = Some ep
     \<and> de_status ep \<in> {ENDPOINT_STATUS_OK, ENDPOINT_STATUS_CLOSING} \<and> de_iface ep = Some f}"

definition iface_refs :: "host \<Rightarrow> nat \<Rightarrow> nat" where
  "iface_refs h f = (if f \<in> attached h then 1 else 0) + (if Local f \<in> tabled h then 1 else 0) + endpoint_refs h f"

definition refs_ok :: "host \<Rightarrow> bool" where
  "refs_ok h \<longleftrightarrow> (\<forall>f i. iface_store h f = Some i \<longrightarrow>
     if_refcount i = iface_refs h f \<and> 0 < iface_refs h f)"

definition parts_ok :: "nat \<Rightarrow> host \<Rightarrow> bool" where
  "parts_ok k h \<longleftrightarrow> array_ok k h \<and> hash_ok h \<and> addr_ok h \<and> remote_ok h \<and> query_ok h \<and> timer_ok h
     \<and> iface_ok h \<and> local_ok h \<and> refs_ok h"

definition table_ok :: "host \<Rightarrow> bool" where
  "table_ok h \<longleftrightarrow> parts_ok (omx_peer_max h) h"

lemma parts_okI:
  "array_ok k h \<Longrightarrow> hash_ok h \<Longrightarrow> addr_ok h \<Longrightarrow> remote_ok h \<Longrightarrow> query_ok h \<Longrightarrow> timer_ok h \<Longrightarrow> iface_ok h
     \<Longrightarrow> local_ok h \<Longrightarrow> refs_ok h \<Longrightarrow> parts_ok k h"
  by (simp add: parts_ok_def)

lemma parts_okD:
  assumes "parts_ok k h"
  shows "array_ok k h" "hash_ok h" "addr_ok h" "remote_ok h" "query_ok h" "timer_ok h" "iface_ok h" "local_ok h" "refs_ok h"
  using assms by (simp_all add: parts_ok_def)

named_theorems ok_defs "the parts of a well-formed table"

lemmas [ok_defs] = array_ok_def hash_ok_def addr_ok_def remote_ok_def query_ok_def timer_ok_def iface_ok_def
  local_ok_def refs_ok_def

subsection \<open>What no part depends on\<close>

definition strip :: "host \<Rightarrow> host" where
  "strip h = h\<lparr>iface_store := (\<lambda>f. map_option (\<lambda>i. i\<lparr>reverse_peer_indexes := (\<lambda>_. 0)\<rparr>) (iface_store h f)),
     kmem := (\<lambda>_. None), xmit := [], omx_peer_table_full := False,
     omx_peer_table_state := \<lparr>pts_status = 0, pts_version = 0, pts_size = 0, pts_mapper_id = 0\<rparr>,
     omx_host_query_magic := 0, omx_host_query_list := [], omx_host_reply_list := []\<rparr>"

lemma strip_strip [simp]: "strip (strip h) = strip h"
  by (simp add: strip_def option.map_comp o_def)

lemma get_peer_strip [simp]: "get_peer r (strip h) = get_peer r h"
  by (cases r) (simp_all add: get_peer_def strip_def option.map_comp o_def)

lemma strip_fields [simp]:
  "omx_peer_array (strip h) = omx_peer_array h" "omx_peer_addr_hash_array (strip h) = omx_peer_addr_hash_array h"
  "omx_peer_next_nr (strip h) = omx_peer_next_nr h" "omx_peer_max (strip h) = omx_peer_max h"
  "omx_iface_max (strip h) = omx_iface_max h" "omx_host_query_peer_list (strip h) = omx_host_query_peer_list h"
  "omx_host_query_timer (strip h) = omx_host_query_timer h" "omx_host_query_work (strip h) = omx_host_query_work h"
  "remote_peers (strip h) = remote_peers h" "next_remote (strip h) = next_remote h" "next_iface (strip h) = next_iface h"
  "omx_ifaces (strip h) = omx_ifaces h" "omx_iface_nr (strip h) = omx_iface_nr h"
  "endpoint_store (strip h) = endpoint_store h"
  "omx_endpoint_max (strip h) = omx_endpoint_max h" "next_endpoint (strip h) = next_endpoint h"
  "dev_addr (strip h) = dev_addr h"
  by (simp_all add: strip_def)

lemma attached_ifaces_strip [simp]: "attached_ifaces (strip h) = attached_ifaces h"
  by (simp add: attached_ifaces_def)

lemma iface_store_strip:
  "iface_store (strip h) f = map_option (\<lambda>i. i\<lparr>reverse_peer_indexes := (\<lambda>_. 0)\<rparr>) (iface_store h f)"
  by (simp add: strip_def)

lemma strip_quantifiers:
  "(\<forall>i. iface_store (strip h) f = Some i \<longrightarrow> P i) \<longleftrightarrow> (\<forall>i. iface_store h f = Some i \<longrightarrow> P (i\<lparr>reverse_peer_indexes := (\<lambda>_. 0)\<rparr>))"
  "(\<exists>i. iface_store (strip h) f = Some i \<and> P i) \<longleftrightarrow> (\<exists>i. iface_store h f = Some i \<and> P (i\<lparr>reverse_peer_indexes := (\<lambda>_. 0)\<rparr>))"
  by (auto simp: iface_store_strip)

lemma strip_index: "map_option if_index (iface_store (strip h) f) = map_option if_index (iface_store h f)"
  by (simp add: iface_store_strip option.map_comp o_def)

lemma strip_ok [simp]:
  "array_ok k (strip h) = array_ok k h" "hash_ok (strip h) = hash_ok h" "addr_ok (strip h) = addr_ok h"
  "remote_ok (strip h) = remote_ok h" "query_ok (strip h) = query_ok h" "timer_ok (strip h) = timer_ok h"
  "iface_ok (strip h) = iface_ok h" "local_ok (strip h) = local_ok h" "refs_ok (strip h) = refs_ok h"
  by (simp_all add: ok_defs iface_refs_def endpoint_refs_def strip_quantifiers strip_index)

lemma parts_ok_strip: "strip h' = strip h \<Longrightarrow> parts_ok k h' \<longleftrightarrow> parts_ok k h"
proof -
  have "parts_ok k (strip h) \<longleftrightarrow> parts_ok k h" for h by (simp add: parts_ok_def)
  then show "strip h' = strip h \<Longrightarrow> ?thesis" by metis
qed

lemma table_ok_strip: "strip h' = strip h \<Longrightarrow> table_ok h' \<longleftrightarrow> table_ok h"
  using parts_ok_strip strip_fields(4) unfolding table_ok_def by metis

lemma iface_store_stripD:
  assumes "strip h' = strip h"
  shows "iface_store h' f = None \<longleftrightarrow> iface_store h f = None"
proof -
  have "iface_store (strip h') f = iface_store (strip h) f" using assms by simp
  then show ?thesis by (cases "iface_store h f"; cases "iface_store h' f") (simp_all add: iface_store_strip)
qed

lemma iface_store_strip_Some:
  assumes "strip h' = strip h" "iface_store h f = Some i"
  obtains i' where "iface_store h' f = Some i'" "if_peer i' = if_peer i" "if_refcount i' = if_refcount i"
    "if_index i' = if_index i" "if_ifp i' = if_ifp i" "if_endpoints i' = if_endpoints i" "endpoint_nr i' = endpoint_nr i"
    "if_status i' = if_status i"
proof -
  have "iface_store (strip h') f = iface_store (strip h) f" using assms(1) by simp
  then have eq: "map_option (\<lambda>i. i\<lparr>reverse_peer_indexes := (\<lambda>_. 0)\<rparr>) (iface_store h' f) = Some (i\<lparr>reverse_peer_indexes := (\<lambda>_. 0)\<rparr>)"
    using assms(2) by (simp add: iface_store_strip)
  then obtain i' where i': "iface_store h' f = Some i'" "i'\<lparr>reverse_peer_indexes := (\<lambda>_. 0)\<rparr> = i\<lparr>reverse_peer_indexes := (\<lambda>_. 0)\<rparr>"
    by auto
  show ?thesis
    by (rule that [OF i'(1)]) (use i'(2) in \<open>cases i; cases i'; simp\<close>)+
qed

lemma get_peer_stripD: "strip h' = strip h \<Longrightarrow> get_peer r h' = get_peer r h"
  by (metis get_peer_strip)

lemma strip_eqD:
  assumes "strip h' = strip h"
  shows "omx_peer_array h' = omx_peer_array h" "omx_peer_addr_hash_array h' = omx_peer_addr_hash_array h"
    "omx_peer_next_nr h' = omx_peer_next_nr h" "omx_peer_max h' = omx_peer_max h" "omx_ifaces h' = omx_ifaces h"
    "omx_host_query_peer_list h' = omx_host_query_peer_list h" "attached_ifaces h' = attached_ifaces h"
    "omx_iface_max h' = omx_iface_max h" "omx_iface_nr h' = omx_iface_nr h" "endpoint_store h' = endpoint_store h"
    "omx_host_query_timer h' = omx_host_query_timer h" "remote_peers h' = remote_peers h" "next_iface h' = next_iface h"
    "omx_endpoint_max h' = omx_endpoint_max h"
  using assms strip_fields attached_ifaces_strip by metis+

subsection \<open>Operations that only change that\<close>

lemma kmalloc_strip: "kmalloc h = (m, h') \<Longrightarrow> strip h' = strip h"
  by (auto simp: kmalloc_def strip_def)

lemma kmallocs_strip: "kmallocs n h = (b, h') \<Longrightarrow> strip h' = strip h"
proof (induction n h rule: kmallocs.induct)
  case (2 n h)
  then show ?case
    by (cases "kmalloc h") (auto split: option.splits dest: kmalloc_strip)
qed simp

lemma kstrdup_strip: "kstrdup s h = (b, h') \<Longrightarrow> strip h' = strip h"
  unfolding kstrdup_def by (metis kmallocs_strip prod.inject)

lemma alloc_skb_strip: "alloc_skb n h = (s, h') \<Longrightarrow> strip h' = strip h"
  by (cases "kmalloc h") (auto simp: alloc_skb_def split: option.splits dest: kmalloc_strip)

lemma set_full_strip [simp]: "strip (set_full b h) = strip h"
  by (simp add: set_full_def strip_def)

lemma xmit_strip [simp]: "strip (dev_queue_xmit ifp s h) = strip h"
  by (simp add: dev_queue_xmit_def strip_def)

lemma set_reverse_quiet:
  assumes "iface_store h f = Some i" "index < omx_peer_max h"
  obtains h' where "set_reverse index reverse f h = Some h'" "strip h' = strip h"
proof (rule that)
  show "set_reverse index reverse f h
      = Some (set_iface f (Some (i\<lparr>reverse_peer_indexes := (reverse_peer_indexes i)(index := reverse)\<rparr>)) h)"
    using assms by (simp add: set_reverse_def)
  show "strip (set_iface f (Some (i\<lparr>reverse_peer_indexes := (reverse_peer_indexes i)(index := reverse)\<rparr>)) h) = strip h"
    using assms by (auto simp: strip_def set_iface_def fun_eq_iff)
qed

text \<open>A loop over what is fixed by \<open>strip\<close> whose steps are quiet.\<close>

lemma foreach_quiet:
  assumes "\<And>x h'. x \<in> set xs \<Longrightarrow> strip h' = strip h \<Longrightarrow> \<exists>h''. f x h' = Some h'' \<and> strip h'' = strip h'"
  shows "\<exists>h'. foreach f xs h = Some h' \<and> strip h' = strip h"
proof -
  have "\<exists>h'. foreach f xs h1 = Some h' \<and> strip h' = strip h" if "strip h1 = strip h" for h1
    using that assms
  proof (induction xs arbitrary: h1)
    case Nil
    then show ?case by simp
  next
    case (Cons x xs)
    obtain h2 where h2: "f x h1 = Some h2" "strip h2 = strip h1"
      using Cons.prems(2) [of x h1] Cons.prems(1) by auto
    have "\<exists>h'. foreach f xs h2 = Some h' \<and> strip h' = strip h"
      by (rule Cons.IH) (use h2(2) Cons.prems in auto)
    then show ?case using h2(1) by auto
  qed
  then show ?thesis by blast
qed

lemma set_attached_ifaces: "iface_ok h \<Longrightarrow> set (attached_ifaces h) = attached h"
  by (auto simp: attached_ifaces_def List.map_filter_def iface_ok_def ran_def image_iff) force

lemma attached_exists: "iface_ok h \<Longrightarrow> f \<in> attached h \<Longrightarrow> \<exists>i. iface_store h f = Some i"
  unfolding iface_ok_def ran_def by blast

lemma attached_ifaces_exist: "iface_ok h \<Longrightarrow> f \<in> set (attached_ifaces h) \<Longrightarrow> \<exists>i. iface_store h f = Some i"
  by (simp add: set_attached_ifaces attached_exists)

lemma init_peer_reverse_quiet:
  assumes "iface_ok h" "index < omx_peer_max h"
  obtains h' where "omx_init_peer_reverse_indexes index locl h = Some h'" "strip h' = strip h"
proof -
  let ?r = "if locl then of_nat index else OMX_UNKNOWN_REVERSE_PEER_INDEX :: u32"
  have "\<exists>h''. set_reverse index ?r f h' = Some h'' \<and> strip h'' = strip h'"
    if f: "f \<in> set (attached_ifaces h)" and s: "strip h' = strip h" for f h'
  proof -
    obtain i where "iface_store h f = Some i" using attached_ifaces_exist [OF assms(1) f] by blast
    then obtain i' where i': "iface_store h' f = Some i'" using iface_store_strip_Some [OF s] by blast
    have "index < omx_peer_max h'" using strip_eqD(4) [OF s] assms(2) by simp
    from set_reverse_quiet [OF i' this] show ?thesis by metis
  qed
  from foreach_quiet [where f = "set_reverse index ?r", OF this] show thesis
    using that unfolding omx_init_peer_reverse_indexes_def by blast
qed

lemma iface_reverse_step_quiet:
  assumes g: "iface_store h g = Some gi" and f: "iface_store h f = Some i"
    and index: "unat (ucast (peer_index (if_peer gi)) :: u16) < omx_peer_max h"
  shows "\<exists>h'. (do { gi \<leftarrow> iface_store h g; let index = (ucast (peer_index (if_peer gi)) :: u16);
      set_reverse (unat index) (ucast index) f h }) = Some h' \<and> strip h' = strip h"
proof -
  obtain h' where "set_reverse (unat (ucast (peer_index (if_peer gi)) :: u16)) (ucast (ucast (peer_index (if_peer gi)) :: u16)) f h = Some h'"
    "strip h' = strip h"
    using set_reverse_quiet [OF f index] by blast
  then show ?thesis using g by (simp add: Let_def)
qed

lemma init_iface_reverse_quiet:
  assumes f: "iface_store h f = Some i" "unat (peer_index (if_peer i)) < omx_peer_max h"
    and ifaces: "\<And>g. g \<in> set (attached_ifaces h) \<Longrightarrow>
      \<exists>gi. iface_store h g = Some gi \<and> unat (peer_index (if_peer gi)) < omx_peer_max h"
    and "omx_peer_max h \<le> OMX_PEER_INDEX_MAX"
  obtains h' where "omx_init_iface_reverse_indexes f h = Some h'" "strip h' = strip h"
proof -
  define h1 where "h1 = set_iface f (Some (i\<lparr>reverse_peer_indexes := (\<lambda>_. OMX_UNKNOWN_REVERSE_PEER_INDEX)\<rparr>)) h"
  have s1: "strip h1 = strip h" using f(1) by (auto simp: h1_def strip_def set_iface_def fun_eq_iff)
  have short: "unat (ucast w :: u16) = unat w" if "unat w < omx_peer_max h" for w :: u32
    using that assms(4) by (simp add: OMX_PEER_INDEX_MAX_def unsigned_ucast_eq take_bit_nat_eq_self unsigned_take_bit_eq)
  let ?step = "\<lambda>g h. do { gi \<leftarrow> iface_store h g; let index = (ucast (peer_index (if_peer gi)) :: u16);
      set_reverse (unat index) (ucast index) f h }"
  have "\<exists>h''. ?step g h' = Some h'' \<and> strip h'' = strip h'"
    if g: "g \<in> set (attached_ifaces h1)" and "strip h' = strip h1" for g h'
  proof -
    have s: "strip h' = strip h" using that(2) s1 by simp
    have "g \<in> set (attached_ifaces h)" using g strip_eqD(7) [OF s1] by simp
    then obtain gi where gi: "iface_store h g = Some gi" "unat (peer_index (if_peer gi)) < omx_peer_max h"
      using ifaces by blast
    obtain gi' where gi': "iface_store h' g = Some gi'" "if_peer gi' = if_peer gi" using iface_store_strip_Some [OF s gi(1)] by blast
    obtain i' where i': "iface_store h' f = Some i'" using iface_store_strip_Some [OF s f(1)] by blast
    show ?thesis
      by (rule iface_reverse_step_quiet [OF gi'(1) i']) (use gi(2) gi'(2) short [OF gi(2)] strip_eqD(4) [OF s] in simp)
  qed
  then have "\<exists>h2. foreach ?step (attached_ifaces h1) h1 = Some h2 \<and> strip h2 = strip h1" by (rule foreach_quiet)
  then obtain h2 where h2: "foreach ?step (attached_ifaces h1) h1 = Some h2" "strip h2 = strip h1" by blast
  have s2: "strip h2 = strip h" using h2(2) s1 by simp
  have "\<exists>h3. omx_init_peer_reverse_indexes (unat (ucast (peer_index (if_peer i)) :: u16)) True h2 = Some h3 \<and> strip h3 = strip h2"
  proof -
    have "\<exists>h''. set_reverse (unat (ucast (peer_index (if_peer i)) :: u16)) (of_nat (unat (ucast (peer_index (if_peer i)) :: u16))) g h' = Some h''
        \<and> strip h'' = strip h'" if g: "g \<in> set (attached_ifaces h2)" and "strip h' = strip h2" for g h'
    proof -
      have s: "strip h' = strip h" using that(2) s2 by simp
      have "g \<in> set (attached_ifaces h)" using g strip_eqD(7) [OF s2] by simp
      then obtain gi where "iface_store h g = Some gi" using ifaces by blast
      then obtain gi' where gi': "iface_store h' g = Some gi'" using iface_store_strip_Some [OF s] by blast
      have "unat (ucast (peer_index (if_peer i)) :: u16) < omx_peer_max h'"
        using short [OF f(2)] f(2) strip_eqD(4) [OF s] by simp
      from set_reverse_quiet [OF gi' this] show ?thesis by metis
    qed
    note step = this
    show ?thesis unfolding omx_init_peer_reverse_indexes_def if_True by (rule foreach_quiet, rule step)
  qed
  then obtain h3 where h3: "omx_init_peer_reverse_indexes (unat (ucast (peer_index (if_peer i)) :: u16)) True h2 = Some h3" "strip h3 = strip h2"
    by blast
  have s3: "strip h3 = strip h" using h3(2) s2 by simp
  obtain i3 where i3: "iface_store h3 f = Some i3" using iface_store_strip_Some [OF s3 f(1)] by blast
  obtain h4 where h4: "set_reverse (unat (peer_index (if_peer i))) (peer_index (if_peer i)) f h3 = Some h4" "strip h4 = strip h3"
    using set_reverse_quiet [OF i3] f(2) strip_eqD(4) [OF s3] by metis
  show thesis
  proof (rule that)
    show "omx_init_iface_reverse_indexes f h = Some h4"
      unfolding omx_init_iface_reverse_indexes_def using f(1) h2(1) h3(1) h4(1) by (simp add: h1_def [symmetric])
    show "strip h4 = strip h" using h4(2) s3 by simp
  qed
qed

lemma peer_set_reverse_quiet:
  assumes "iface_store h f = Some i" "unat (peer_index p) < omx_peer_max h"
  obtains h' where "omx_peer_set_reverse_index p f w h = Some h'" "strip h' = strip h"
proof (cases "ucast w = reverse_peer_indexes i (unat (peer_index p))")
  case True
  then show thesis using assms that by (simp add: omx_peer_set_reverse_index_def)
next
  case False
  obtain h' where "set_reverse (unat (peer_index p)) (ucast w) f h = Some h'" "strip h' = strip h"
    using set_reverse_quiet [OF assms] by blast
  then show thesis using assms False that by (simp add: omx_peer_set_reverse_index_def)
qed

lemma host_query_send_quiet:
  assumes "\<And>f. f \<in> set fs \<Longrightarrow> iface_store h f \<noteq> None"
  shows "\<exists>h'. omx_peer_host_query_send skb fs h = Some h' \<and> strip h' = strip h"
  using assms
proof (induction skb fs h rule: omx_peer_host_query_send.induct)
  case (2 skb f fs h)
  obtain i where i: "iface_store h f = Some i" using 2(2) [of f] by auto
  obtain m h1 where k: "kmalloc h = (m, h1)" by (cases "kmalloc h")
  have s: "strip h1 = strip h" by (rule kmalloc_strip [OF k])
  show ?case
  proof (cases m)
    case None
    then show ?thesis using i k s by simp
  next
    case (Some x)
    let ?h2 = "dev_queue_xmit (if_ifp i) (skb\<lparr>sk_mem := write_h_source (dev_addr h1 (if_ifp i)) (sk_mem skb)\<rparr>) h1"
    have "\<exists>h'. omx_peer_host_query_send skb fs ?h2 = Some h' \<and> strip h' = strip ?h2"
    proof (rule 2(1) [OF i k [symmetric] Some refl])
      show "iface_store ?h2 g \<noteq> None" if "g \<in> set fs" for g
        using that 2(2) [of g] iface_store_stripD [OF s, of g] by (simp add: dev_queue_xmit_def)
    qed
    then show ?thesis using i k s Some by (simp add: Let_def)
  qed
qed simp

lemma host_query_quiet:
  assumes "iface_ok h" "get_peer r h = Some p"
  shows "\<exists>h'. omx_peer_host_query ec r h = Some h' \<and> strip h' = strip h"
proof -
  obtain x h1 where a: "alloc_skb ETH_ZLEN h = (x, h1)" by (cases "alloc_skb ETH_ZLEN h")
  have s: "strip h1 = strip h" by (rule alloc_skb_strip [OF a])
  show ?thesis
  proof (cases x)
    case None
    then show ?thesis using assms(2) a s by (simp add: omx_peer_host_query_def)
  next
    case (Some skb)
    have "iface_store h1 f \<noteq> None" if f: "f \<in> set (attached_ifaces h1)" for f
    proof -
      obtain i where "iface_store h f = Some i" using f attached_ifaces_exist [OF assms(1), of f] strip_eqD(7) [OF s] by auto
      then show ?thesis using iface_store_stripD [OF s, of f] by simp
    qed
    from host_query_send_quiet [OF this] show ?thesis
      using assms(2) a s Some by (fastforce simp: omx_peer_host_query_def)
  qed
qed

end
