(* ===== verification/Peer_Steps.thy ===== *)
theory Peer_Steps
  imports Peer_Table
begin

text \<open>
  The operations that change the table of peers, on a well-formed table.
\<close>

subsection \<open>Writing a peer\<close>

definition upd_peer :: "peer_ref \<Rightarrow> omx_peer \<Rightarrow> host \<Rightarrow> host" where
  "upd_peer r p h = (case r of
     Remote n \<Rightarrow> h\<lparr>remote_peers := (remote_peers h)(n \<mapsto> p)\<rparr>
   | Local f \<Rightarrow> set_iface f (map_option (\<lambda>i. i\<lparr>if_peer := p\<rparr>) (iface_store h f)) h)"

lemma put_peer_eq: "get_peer r h = Some p \<Longrightarrow> put_peer r q h = Some (upd_peer r q h)"
  by (cases r) (auto simp: get_peer_def put_peer_def upd_peer_def)

lemma get_upd_peer: "get_peer r h = Some p \<Longrightarrow> get_peer s (upd_peer r q h) = (if s = r then Some q else get_peer s h)"
  by (cases r; cases s) (auto simp: get_peer_def upd_peer_def set_iface_def)

lemma upd_peer_fields [simp]:
  "omx_peer_array (upd_peer r p h) = omx_peer_array h" "omx_peer_addr_hash_array (upd_peer r p h) = omx_peer_addr_hash_array h"
  "omx_peer_next_nr (upd_peer r p h) = omx_peer_next_nr h" "omx_peer_max (upd_peer r p h) = omx_peer_max h"
  "omx_iface_max (upd_peer r p h) = omx_iface_max h" "omx_host_query_peer_list (upd_peer r p h) = omx_host_query_peer_list h"
  "omx_host_query_timer (upd_peer r p h) = omx_host_query_timer h" "omx_host_query_work (upd_peer r p h) = omx_host_query_work h"
  "next_remote (upd_peer r p h) = next_remote h" "next_iface (upd_peer r p h) = next_iface h"
  "omx_ifaces (upd_peer r p h) = omx_ifaces h" "omx_iface_nr (upd_peer r p h) = omx_iface_nr h"
  "endpoint_store (upd_peer r p h) = endpoint_store h" "next_endpoint (upd_peer r p h) = next_endpoint h"
  "omx_endpoint_max (upd_peer r p h) = omx_endpoint_max h"
  by (cases r; simp add: upd_peer_def set_iface_def)+

lemma remote_upd_peer [simp]:
  "remote_peers (upd_peer (Remote n) p h) = (remote_peers h)(n \<mapsto> p)" "remote_peers (upd_peer (Local f) p h) = remote_peers h"
  by (simp_all add: upd_peer_def set_iface_def)

lemma iface_upd_peer [simp]:
  "iface_store (upd_peer (Remote n) p h) = iface_store h"
  "iface_store (upd_peer (Local f) p h) = (iface_store h)(f := map_option (\<lambda>i. i\<lparr>if_peer := p\<rparr>) (iface_store h f))"
  by (simp_all add: upd_peer_def set_iface_def)

lemma get_peer_fields [simp]:
  "get_peer r (set_hash b l h) = get_peer r h" "get_peer r (set_slot i x h) = get_peer r h"
  "get_peer r (h\<lparr>omx_host_query_peer_list := ql\<rparr>) = get_peer r h" "get_peer r (h\<lparr>omx_host_query_timer := t\<rparr>) = get_peer r h"
  "get_peer r (h\<lparr>omx_peer_next_nr := n\<rparr>) = get_peer r h" "get_peer r (set_full full h) = get_peer r h"
  by (cases r; simp add: get_peer_def set_hash_def set_slot_def set_full_def)+

lemma set_slot_fields [simp]:
  "omx_peer_array (set_slot i x h) = (omx_peer_array h)(i := x)"
  "omx_peer_next_nr (set_slot i x h) = omx_peer_next_nr h" "omx_peer_max (set_slot i x h) = omx_peer_max h"
  "omx_iface_max (set_slot i x h) = omx_iface_max h" "omx_endpoint_max (set_slot i x h) = omx_endpoint_max h"
  "omx_host_query_peer_list (set_slot i x h) = omx_host_query_peer_list h"
  "omx_host_query_timer (set_slot i x h) = omx_host_query_timer h"
  "omx_host_query_work (set_slot i x h) = omx_host_query_work h" "remote_peers (set_slot i x h) = remote_peers h"
  "next_remote (set_slot i x h) = next_remote h" "iface_store (set_slot i x h) = iface_store h"
  "next_iface (set_slot i x h) = next_iface h" "omx_ifaces (set_slot i x h) = omx_ifaces h"
  "omx_iface_nr (set_slot i x h) = omx_iface_nr h" "endpoint_store (set_slot i x h) = endpoint_store h"
  "next_endpoint (set_slot i x h) = next_endpoint h"
  "omx_peer_addr_hash_array (set_slot i x h) = omx_peer_addr_hash_array h"
  by (simp_all add: set_slot_def)

lemma set_hash_fields [simp]:
  "omx_peer_addr_hash_array (set_hash b l h) = (omx_peer_addr_hash_array h)(b := l)"
  "omx_peer_next_nr (set_hash b l h) = omx_peer_next_nr h" "omx_peer_max (set_hash b l h) = omx_peer_max h"
  "omx_iface_max (set_hash b l h) = omx_iface_max h" "omx_endpoint_max (set_hash b l h) = omx_endpoint_max h"
  "omx_host_query_peer_list (set_hash b l h) = omx_host_query_peer_list h"
  "omx_host_query_timer (set_hash b l h) = omx_host_query_timer h"
  "omx_host_query_work (set_hash b l h) = omx_host_query_work h" "remote_peers (set_hash b l h) = remote_peers h"
  "next_remote (set_hash b l h) = next_remote h" "iface_store (set_hash b l h) = iface_store h"
  "next_iface (set_hash b l h) = next_iface h" "omx_ifaces (set_hash b l h) = omx_ifaces h"
  "omx_iface_nr (set_hash b l h) = omx_iface_nr h" "endpoint_store (set_hash b l h) = endpoint_store h"
  "next_endpoint (set_hash b l h) = next_endpoint h" "omx_peer_array (set_hash b l h) = omx_peer_array h"
  by (simp_all add: set_hash_def)

subsection \<open>Entries\<close>

lemma array_entry:
  assumes "array_ok k h" "omx_peer_array h i = Some r"
  obtains p where "get_peer r h = Some p" "unat (peer_index p) = i" "entry_ok r p" "i < omx_peer_max h"
  using assms unfolding array_ok_def by blast

lemma array_inj:
  assumes "array_ok k h" "omx_peer_array h i = Some r" "omx_peer_array h j = Some r"
  shows "i = j"
proof -
  obtain p where "get_peer r h = Some p" "unat (peer_index p) = i" using assms(1,2) by (rule array_entry)
  moreover obtain q where "get_peer r h = Some q" "unat (peer_index q) = j" using assms(1,3) by (rule array_entry)
  ultimately show ?thesis by simp
qed

lemma tabled_remove:
  assumes "array_ok k h" "omx_peer_array h i = Some r"
  shows "ran ((omx_peer_array h)(i := None)) = tabled h - {r}"
proof (rule set_eqI)
  fix s
  have "(\<exists>j. j \<noteq> i \<and> omx_peer_array h j = Some s) \<longleftrightarrow> s \<noteq> r \<and> (\<exists>j. omx_peer_array h j = Some s)"
    using assms(2) array_inj [OF assms] by (metis option.inject)
  then show "s \<in> ran ((omx_peer_array h)(i := None)) \<longleftrightarrow> s \<in> tabled h - {r}" by (auto simp: ran_def)
qed

lemma tabled_add: "omx_peer_array h i = None \<Longrightarrow> ran ((omx_peer_array h)(i \<mapsto> r)) = insert r (tabled h)"
  by (rule ran_map_upd)

lemma tabledI: "omx_peer_array h i = Some r \<Longrightarrow> r \<in> tabled h"
  by (auto simp: ran_def)

lemma tabled_entry:
  assumes "array_ok k h" "r \<in> tabled h"
  obtains p where "get_peer r h = Some p" "omx_peer_array h (unat (peer_index p)) = Some r" "entry_ok r p"
    "unat (peer_index p) < omx_peer_max h"
proof -
  obtain i where i: "omx_peer_array h i = Some r" using assms(2) by (auto simp: ran_def)
  obtain p where "get_peer r h = Some p" "unat (peer_index p) = i" "entry_ok r p" "i < omx_peer_max h"
    using assms(1) i by (rule array_entry)
  then show thesis using that i by simp
qed

lemma hashed:
  assumes "hash_ok h" "r \<in> tabled h" "get_peer r h = Some p"
  shows "r \<in> set (omx_peer_addr_hash_array h (omx_peer_addr_hash (board_addr p)))"
  using assms unfolding hash_ok_def by blast

subsection \<open>A peer that leaves\<close>

text \<open>The table without an allocated peer.\<close>

definition drop_remote :: "nat \<Rightarrow> nat \<Rightarrow> omx_peer \<Rightarrow> host \<Rightarrow> host" where
  "drop_remote i n p h = h\<lparr>omx_peer_array := (omx_peer_array h)(i := None),
     omx_peer_addr_hash_array := (omx_peer_addr_hash_array h)
       (omx_peer_addr_hash (board_addr p) := remove1 (Remote n) (omx_peer_addr_hash_array h (omx_peer_addr_hash (board_addr p)))),
     omx_host_query_peer_list := remove1 (Remote n) (omx_host_query_peer_list h),
     omx_host_query_timer := remove1 (Remote n) (omx_host_query_peer_list h) \<noteq> [] \<and> omx_host_query_timer h,
     remote_peers := (remote_peers h)(n := None)\<rparr>"

lemma drop_remote_ok:
  assumes parts: "parts_ok k h"
    and i: "omx_peer_array h i = Some (Remote n)" and p: "remote_peers h n = Some p"
  shows "parts_ok k (drop_remote i n p h)"
proof (rule parts_okI)
  note ok = parts_okD [OF parts]
  have tab: "tabled (drop_remote i n p h) = tabled h - {Remote n}"
    using tabled_remove [OF ok(1) i] by (simp add: drop_remote_def)
  have get: "get_peer r (drop_remote i n p h) = (if r = Remote n then None else get_peer r h)" for r
    by (cases r) (auto simp: get_peer_def drop_remote_def)
  have getn: "get_peer (Remote n) h = Some p" using p by (simp add: get_peer_def)
  have other: "j \<noteq> i \<Longrightarrow> omx_peer_array h j = Some r \<Longrightarrow> r \<noteq> Remote n" for j r
    using array_inj [OF ok(1) i, of j] by blast
  show "array_ok k (drop_remote i n p h)"
    unfolding array_ok_def
  proof (intro conjI allI impI)
    fix j r
    assume "omx_peer_array (drop_remote i n p h) j = Some r"
    then have j: "omx_peer_array h j = Some r" "j \<noteq> i" by (auto simp: drop_remote_def split: if_splits)
    then have "get_peer r (drop_remote i n p h) = get_peer r h" using other get by simp
    moreover have "(j < omx_peer_next_nr h \<or> k \<le> j) \<and> j < omx_peer_max h
        \<and> (\<exists>p. get_peer r h = Some p \<and> unat (peer_index p) = j \<and> entry_ok r p)"
      using ok(1) j(1) unfolding array_ok_def by blast
    ultimately show "j < omx_peer_next_nr (drop_remote i n p h) \<or> k \<le> j" "j < omx_peer_max (drop_remote i n p h)"
        "\<exists>q. get_peer r (drop_remote i n p h) = Some q \<and> unat (peer_index q) = j \<and> entry_ok r q"
      by (simp_all add: drop_remote_def)
  qed (use ok(1) in \<open>simp_all add: array_ok_def drop_remote_def\<close>)
  show "hash_ok (drop_remote i n p h)"
    unfolding hash_ok_def tab get
  proof (intro allI conjI)
    fix b
    show "distinct (omx_peer_addr_hash_array (drop_remote i n p h) b)"
      using ok(2) by (simp add: drop_remote_def hash_ok_def)
    fix r
    have d: "distinct (omx_peer_addr_hash_array h (omx_peer_addr_hash (board_addr p)))" using ok(2) by (simp add: hash_ok_def)
    have mem: "r \<in> set (omx_peer_addr_hash_array (drop_remote i n p h) b) \<longleftrightarrow> r \<in> set (omx_peer_addr_hash_array h b) \<and> r \<noteq> Remote n"
    proof (cases "b = omx_peer_addr_hash (board_addr p)")
      case True
      then show ?thesis using d by (simp add: drop_remote_def)
    next
      case False
      then have "Remote n \<notin> set (omx_peer_addr_hash_array h b)" using ok(2) getn by (auto simp: hash_ok_def)
      then show ?thesis using False by (auto simp: drop_remote_def)
    qed
    show "r \<in> set (omx_peer_addr_hash_array (drop_remote i n p h) b)
      \<longleftrightarrow> r \<in> tabled h - {Remote n} \<and> (\<exists>q. (if r = Remote n then None else get_peer r h) = Some q \<and> omx_peer_addr_hash (board_addr q) = b)"
      unfolding mem using ok(2) by (auto simp: hash_ok_def)
  qed
  show "addr_ok (drop_remote i n p h)" using ok(3) unfolding addr_ok_def tab get by auto
  show "remote_ok (drop_remote i n p h)" using ok(4) unfolding remote_ok_def tab by (simp add: drop_remote_def)
  show "query_ok (drop_remote i n p h)" using ok(5) by (auto simp: query_ok_def drop_remote_def)
  show "timer_ok (drop_remote i n p h)" using ok(6) by (auto simp: timer_ok_def drop_remote_def)
  show "iface_ok (drop_remote i n p h)" using ok(7) by (simp add: iface_ok_def drop_remote_def)
  show "local_ok (drop_remote i n p h)" using ok(8) unfolding local_ok_def tab by (simp add: drop_remote_def)
  show "refs_ok (drop_remote i n p h)" 
  proof -
    have "iface_refs (drop_remote i n p h) = iface_refs h"
      using tab by (simp add: iface_refs_def endpoint_refs_def fun_eq_iff) (simp add: drop_remote_def)
    then show ?thesis using ok(9) by (simp add: refs_ok_def) (simp add: drop_remote_def)
  qed
qed

lemma clear_one_ok:
  assumes parts: "parts_ok k h"
  shows "\<exists>h'. clear_one False i h = Some h' \<and> parts_ok k h' \<and> omx_peer_max h' = omx_peer_max h"
proof (cases "omx_peer_array h i")
  case None
  then show ?thesis using parts by (simp add: clear_one_def)
next
  case (Some r)
  note ok = parts_okD [OF parts]
  obtain p where p: "get_peer r h = Some p" "entry_ok r p" using ok(1) Some by (rule array_entry)
  show ?thesis
  proof (cases r)
    case (Local f)
    then show ?thesis using parts Some p by (simp add: clear_one_def)
  next
    case (Remote n)
    have rp: "remote_peers h n = Some p" and free: "local_iface p = None" using p Remote by (simp_all add: get_peer_def)
    have hashed: "Remote n \<in> set (omx_peer_addr_hash_array h (omx_peer_addr_hash (board_addr p)))"
      using hashed [OF ok(2) tabledI [OF Some] p(1)] Remote by simp
    have query: "Remote n \<in> set (omx_host_query_peer_list h) \<longleftrightarrow> peer_hostname p = None"
      using ok(5) rp by (simp add: query_ok_def)
    have timer: "omx_host_query_timer h \<Longrightarrow> omx_host_query_peer_list h \<noteq> []" using ok(6) by (simp add: timer_ok_def)
    have "clear_one False i h = Some (drop_remote i n p h)"
    proof (cases "peer_hostname p = None")
      case True
      then show ?thesis using Some Remote p(1) free hashed query rp
        by (simp add: clear_one_def unhash_def host_query_del_def kfree_peer_def Let_def drop_remote_def set_hash_def set_slot_def)
    next
      case False
      then obtain y where y: "peer_hostname p = Some y" by auto
      then have "remove1 (Remote n) (omx_host_query_peer_list h) = omx_host_query_peer_list h"
        using query by (simp add: remove1_idem)
      moreover have "(omx_host_query_peer_list h \<noteq> [] \<and> omx_host_query_timer h) = omx_host_query_timer h" using timer by auto
      ultimately show ?thesis using y Some Remote p(1) free hashed rp
        by (simp add: clear_one_def unhash_def kfree_peer_def Let_def drop_remote_def set_hash_def set_slot_def)
    qed
    then show ?thesis using drop_remote_ok [OF parts _ rp, of i] Some Remote by (simp add: drop_remote_def)
  qed
qed

subsection \<open>A peer that changes\<close>

lemma upd_peer_ok:
  assumes parts: "parts_ok k h" and r: "r \<in> tabled h" "get_peer r h = Some p" and q: "board_addr q = board_addr p"
  shows "hash_ok (upd_peer r q h)" "addr_ok (upd_peer r q h)" "remote_ok (upd_peer r q h)" "timer_ok (upd_peer r q h)"
    "iface_ok (upd_peer r q h)" "local_ok (upd_peer r q h)" "refs_ok (upd_peer r q h)"
proof -
  note ok = parts_okD [OF parts]
  note get = get_upd_peer [OF r(2)]
  show "hash_ok (upd_peer r q h)" using ok(2) r(2) q unfolding hash_ok_def get by auto
  show "addr_ok (upd_peer r q h)" using ok(3) r(2) q unfolding addr_ok_def get by (auto split: if_splits)
  show "remote_ok (upd_peer r q h)"
    using ok(4) r by (cases r) (auto simp: remote_ok_def get_peer_def)
  show "timer_ok (upd_peer r q h)" using ok(6) by (simp add: timer_ok_def)
  show "iface_ok (upd_peer r q h)"
  proof (cases r)
    case (Remote n)
    then show ?thesis using ok(7) by (simp add: iface_ok_def)
  next
    case (Local f)
    then have "f \<in> attached h" using ok(8) r(1) by (simp add: local_ok_def)
    then show ?thesis using ok(7) Local by (auto simp: iface_ok_def option.map_comp o_def simp del: map_option_eq_Some)
  qed
  show "local_ok (upd_peer r q h)" using ok(8) by (simp add: local_ok_def)
  have "iface_refs (upd_peer r q h) = iface_refs h" by (simp add: iface_refs_def endpoint_refs_def fun_eq_iff)
  then show "refs_ok (upd_peer r q h)" using ok(9) by (cases r) (auto simp: refs_ok_def)
qed

lemma upd_peer_query:
  assumes "query_ok h" "get_peer r h = Some p" "peer_hostname q = peer_hostname p"
  shows "query_ok (upd_peer r q h)"
  using assms by (cases r) (auto simp: query_ok_def get_peer_def)

text \<open>The parts but the array, on a state that agrees in what they depend on.\<close>

lemma parts_others:
  assumes same: "omx_peer_addr_hash_array h' = omx_peer_addr_hash_array h" "\<And>r. get_peer r h' = get_peer r h"
    "tabled h' = tabled h" "remote_peers h' = remote_peers h" "next_remote h' = next_remote h"
    "omx_host_query_peer_list h' = omx_host_query_peer_list h" "omx_host_query_timer h' = omx_host_query_timer h"
    "omx_host_query_work h' = omx_host_query_work h" "omx_ifaces h' = omx_ifaces h" "iface_store h' = iface_store h"
    "omx_iface_max h' = omx_iface_max h" "next_iface h' = next_iface h" "endpoint_store h' = endpoint_store h"
    and array: "array_ok j h'"
    and ok: "hash_ok h" "addr_ok h" "remote_ok h" "query_ok h" "timer_ok h" "iface_ok h" "local_ok h" "refs_ok h"
  shows "parts_ok j h'"
proof (rule parts_okI [OF array])
  have "iface_refs h' = iface_refs h" by (rule ext) (simp only: iface_refs_def endpoint_refs_def same)
  then show "refs_ok h'" using ok(8) unfolding refs_ok_def same by simp
  show "hash_ok h'" using ok(1) unfolding hash_ok_def same .
  show "addr_ok h'" using ok(2) unfolding addr_ok_def same .
  show "remote_ok h'" using ok(3) unfolding remote_ok_def same .
  show "query_ok h'" using ok(4) unfolding query_ok_def same .
  show "timer_ok h'" using ok(5) unfolding timer_ok_def same .
  show "iface_ok h'" using ok(6) unfolding iface_ok_def same .
  show "local_ok h'" using ok(7) unfolding local_ok_def same .
qed

subsection \<open>Compaction\<close>

lemma compact_one_ok:
  assumes parts: "parts_ok k h" and k: "omx_peer_next_nr h \<le> k" "k < omx_peer_max h"
  shows "\<exists>h'. compact_one k h = Some h' \<and> parts_ok (Suc k) h' \<and> omx_peer_next_nr h' \<le> Suc k
    \<and> omx_peer_max h' = omx_peer_max h"
proof (cases "omx_peer_array h k")
  case None
  note ok = parts_okD [OF parts]
  have "array_ok (Suc k) h"
    unfolding array_ok_def
  proof (intro conjI allI impI)
    fix i r
    assume i: "omx_peer_array h i = Some r"
    then have "i \<noteq> k" using None by auto
    moreover have "i < omx_peer_next_nr h \<or> k \<le> i" using ok(1) i by (simp add: array_ok_def)
    ultimately show "i < omx_peer_next_nr h \<or> Suc k \<le> i" by auto
    show "i < omx_peer_max h" "\<exists>p. get_peer r h = Some p \<and> unat (peer_index p) = i \<and> entry_ok r p"
      using ok(1) i by (simp_all add: array_ok_def)
  qed (use ok(1) in \<open>simp_all add: array_ok_def\<close>)
  then have "parts_ok (Suc k) h" using parts by (simp add: parts_ok_def)
  then show ?thesis using None k by (simp add: compact_one_def)
next
  case (Some r)
  note ok = parts_okD [OF parts]
  obtain p where p: "get_peer r h = Some p" "unat (peer_index p) = k" "entry_ok r p" using ok(1) Some by (rule array_entry)
  have max: "omx_peer_max h \<le> OMX_PEER_INDEX_MAX" using ok(1) by (simp add: array_ok_def)
  show ?thesis
  proof (cases "k = omx_peer_next_nr h")
    case True
    let ?h = "h\<lparr>omx_peer_next_nr := omx_peer_next_nr h + 1\<rparr>"
    have "array_ok (Suc k) ?h"
      using ok(1) True k(2) by (auto simp: array_ok_def)
    then have "parts_ok (Suc k) ?h" using ok by (intro parts_others [of ?h h]) (simp_all add: parts_ok_def)
    then show ?thesis using Some True by (simp add: compact_one_def)
  next
    case False
    define n where "n = omx_peer_next_nr h"
    have n: "n < k" using False k(1) by (simp add: n_def)
    define q where "q = p\<lparr>peer_index := of_nat n\<rparr>"
    have index: "unat (peer_index q) = n"
      using n k(2) max by (simp add: q_def OMX_PEER_INDEX_MAX_def unsigned_of_nat take_bit_nat_eq_self)
    have empty: "omx_peer_array h n = None"
    proof (rule ccontr)
      assume "omx_peer_array h n \<noteq> None"
      then obtain s where "omx_peer_array h n = Some s" by auto
      then have "n < omx_peer_next_nr h \<or> k \<le> n" using ok(1) by (simp add: array_ok_def)
      then show False using n by (simp add: n_def)
    qed
    define h1 where "h1 = upd_peer r q h"
    define h2 where "h2 = set_slot k None (set_slot n (Some r) h1)\<lparr>omx_peer_next_nr := n + 1\<rparr>"
    have run: "compact_one k h = Some h2"
      using Some False p(1) put_peer_eq [OF p(1)] by (simp add: compact_one_def h1_def h2_def q_def n_def set_slot_def)
    have r: "r \<in> tabled h" using Some by (rule tabledI)
    have parts1: "hash_ok h1" "addr_ok h1" "remote_ok h1" "timer_ok h1" "iface_ok h1" "local_ok h1" "refs_ok h1" "query_ok h1"
      unfolding h1_def using upd_peer_ok [OF parts r p(1), of q] upd_peer_query [OF ok(5) p(1), of q] by (simp_all add: q_def)
    have get: "get_peer s h2 = (if s = r then Some q else get_peer s h)" for s
      using get_upd_peer [OF p(1)] by (simp add: h2_def h1_def)
    have arr: "omx_peer_array h2 = (omx_peer_array h)(n \<mapsto> r, k := None)"
      by (simp add: h2_def h1_def set_slot_def)
    have tab: "tabled h2 = tabled h1"
    proof (rule set_eqI)
      fix s
      have "(\<exists>i. omx_peer_array h2 i = Some s) \<longleftrightarrow> (\<exists>i. omx_peer_array h i = Some s)"
      proof
        assume "\<exists>i. omx_peer_array h2 i = Some s"
        then obtain i where "omx_peer_array h2 i = Some s" by blast
        then show "\<exists>i. omx_peer_array h i = Some s" using Some by (auto simp: arr split: if_splits)
      next
        assume "\<exists>i. omx_peer_array h i = Some s"
        then obtain i where i: "omx_peer_array h i = Some s" by blast
        show "\<exists>i. omx_peer_array h2 i = Some s"
        proof (cases "i = k")
          case True
          then have "omx_peer_array h2 n = Some s" using i Some n by (simp add: arr)
          then show ?thesis by blast
        next
          case False
          then have "omx_peer_array h2 i = Some s" using i empty by (auto simp: arr)
          then show ?thesis by blast
        qed
      qed
      then show "s \<in> tabled h2 \<longleftrightarrow> s \<in> tabled h1" by (simp add: ran_def h1_def)
    qed
    have entry: "entry_ok r q" using p(3) by (cases r) (simp_all add: q_def)
    have "array_ok (Suc k) h2"
      unfolding array_ok_def
    proof (intro conjI allI impI)
      fix i s
      assume "omx_peer_array h2 i = Some s"
      then consider "i = n" "s = r" | "i \<noteq> n" "i \<noteq> k" "omx_peer_array h i = Some s"
        unfolding arr using n by (auto split: if_splits)
      then have "(i < n + 1 \<or> Suc k \<le> i) \<and> i < omx_peer_max h \<and> (\<exists>p. get_peer s h2 = Some p \<and> unat (peer_index p) = i \<and> entry_ok s p)"
      proof cases
        case 1
        then show ?thesis using index entry n k(2) by (simp add: get)
      next
        case 2
        have "s \<noteq> r" using array_inj [OF ok(1) Some, of i] 2 by blast
        moreover have "(i < n \<or> k \<le> i) \<and> i < omx_peer_max h \<and> (\<exists>p. get_peer s h = Some p \<and> unat (peer_index p) = i \<and> entry_ok s p)"
          using ok(1) 2(3) by (simp add: array_ok_def n_def)
        ultimately show ?thesis using 2(2) by (auto simp: get)
      qed
      then show "i < omx_peer_next_nr h2 \<or> Suc k \<le> i" "i < omx_peer_max h2"
          "\<exists>p. get_peer s h2 = Some p \<and> unat (peer_index p) = i \<and> entry_ok s p"
        by (simp_all add: h2_def h1_def set_slot_def)
    qed (use n k(2) max in \<open>simp_all add: h2_def h1_def set_slot_def\<close>)
    moreover have "get_peer s h2 = get_peer s h1" for s by (simp add: h2_def)
    ultimately have "parts_ok (Suc k) h2"
      using parts1 tab by (intro parts_others [of h2 h1]) (simp_all add: h2_def)
    then show ?thesis using run n by (simp add: h2_def h1_def set_slot_def)
  qed
qed

lemma foreach_run:
  assumes "P s" "\<And>x a. x \<in> set xs \<Longrightarrow> P a \<Longrightarrow> \<exists>b. f x a = Some b \<and> P b"
  shows "\<exists>t. foreach f xs s = Some t \<and> P t"
  using assms
proof (induction xs arbitrary: s)
  case (Cons x xs)
  obtain b where b: "f x s = Some b" "P b" using Cons.prems by (metis list.set_intros(1))
  have "\<exists>t. foreach f xs b = Some t \<and> P t" using b(2) Cons.prems(2) by (intro Cons.IH) auto
  then show ?case using b(1) by simp
qed simp

lemma foreach_upt:
  assumes "P 0 s" "\<And>k a. k < n \<Longrightarrow> P k a \<Longrightarrow> \<exists>b. f k a = Some b \<and> P (Suc k) b"
  shows "\<exists>t. foreach f [0..<n] s = Some t \<and> P n t"
  using assms(2)
proof (induction n)
  case 0
  then show ?case using assms(1) by simp
next
  case (Suc n)
  obtain t where t: "foreach f [0..<n] s = Some t" "P n t" using Suc.IH Suc.prems by (metis less_SucI)
  then obtain u where "f n t = Some u" "P (Suc n) u" using Suc.prems by blast
  then show ?case using t by (auto simp: foreach_append)
qed

lemma set_full_parts: "parts_ok k (set_full full h) \<longleftrightarrow> parts_ok k h"
  by (rule parts_ok_strip) simp

lemma set_full_fields [simp]:
  "omx_peer_next_nr (set_full full h) = omx_peer_next_nr h" "omx_peer_max (set_full full h) = omx_peer_max h"
  by (simp_all add: set_full_def)

theorem omx_peers_clear_ok:
  assumes "table_ok h"
  shows "\<exists>h'. omx_peers_clear False h = Some h' \<and> table_ok h'"
proof -
  define n where "n = omx_peer_max h"
  let ?P = "\<lambda>h'. parts_ok n h' \<and> omx_peer_max h' = n"
  have "\<exists>h1. foreach (clear_one False) [0..<n] h = Some h1 \<and> ?P h1"
  proof (rule foreach_run)
    show "?P h" using assms by (simp add: table_ok_def n_def)
    show "\<exists>b. clear_one False x a = Some b \<and> ?P b" if "?P a" for x a using clear_one_ok [of n a x] that by auto
  qed
  then obtain h1 where h1: "foreach (clear_one False) [0..<n] h = Some h1" "parts_ok n h1" "omx_peer_max h1 = n" by blast
  define h2 where "h2 = set_full False (h1\<lparr>omx_peer_next_nr := 0\<rparr>)"
  let ?Q = "\<lambda>k h'. parts_ok k h' \<and> omx_peer_next_nr h' \<le> k \<and> omx_peer_max h' = n"
  have "array_ok 0 (h1\<lparr>omx_peer_next_nr := 0\<rparr>)"
    using parts_okD(1) [OF h1(2)] by (auto simp: array_ok_def)
  then have "parts_ok 0 (h1\<lparr>omx_peer_next_nr := 0\<rparr>)"
    using parts_okD [OF h1(2)] by (intro parts_others [of "h1\<lparr>omx_peer_next_nr := 0\<rparr>" h1]) simp_all
  then have start: "?Q 0 h2" using h1(3) by (simp add: h2_def set_full_parts)
  have "\<exists>h3. foreach compact_one [0..<n] h2 = Some h3 \<and> ?Q n h3"
    by (rule foreach_upt [where P = ?Q, OF start]) (use compact_one_ok in auto)
  then obtain h3 where h3: "foreach compact_one [0..<n] h2 = Some h3" "parts_ok n h3" "omx_peer_max h3 = n" by blast
  have "omx_peer_max h2 = n" using start by simp
  then have "omx_peers_clear False h = Some (if omx_peer_next_nr h3 = omx_peer_max h3 then set_full True h3 else h3)"
    using h1(1) h3(1) by (simp add: omx_peers_clear_def n_def [symmetric] h2_def)
  moreover have "table_ok (if omx_peer_next_nr h3 = omx_peer_max h3 then set_full True h3 else h3)"
    using h3(2,3) by (simp add: table_ok_def set_full_parts)
  ultimately show ?thesis by blast
qed

end
