(* ===== verification/Peer_Changes.thy ===== *)
theory Peer_Changes
  imports Peer_Steps
begin

text \<open>
  Adding and renaming peers, and the queries for their names, on a well-formed table.
\<close>

lemma strip_updates:
  "strip (set_hash b l h) = set_hash b l (strip h)" "strip (set_slot j x h) = set_slot j x (strip h)"
  "strip (h\<lparr>omx_peer_next_nr := n\<rparr>) = (strip h)\<lparr>omx_peer_next_nr := n\<rparr>"
  "strip (h\<lparr>omx_host_query_timer := t\<rparr>) = (strip h)\<lparr>omx_host_query_timer := t\<rparr>"
  "strip (h\<lparr>omx_host_query_work := t\<rparr>) = (strip h)\<lparr>omx_host_query_work := t\<rparr>"
  "strip (h\<lparr>omx_host_query_peer_list := ql\<rparr>) = (strip h)\<lparr>omx_host_query_peer_list := ql\<rparr>"
  "strip (h\<lparr>omx_host_query_magic := magic\<rparr>) = strip h" "strip (h\<lparr>omx_host_query_list := y\<rparr>) = strip h"
  "strip (h\<lparr>omx_host_reply_list := y\<rparr>) = strip h" "strip (h\<lparr>omx_peer_table_state := st\<rparr>) = strip h"
  by (simp_all add: strip_def set_hash_def set_slot_def)

lemma table_okD:
  assumes "table_ok h"
  shows "parts_ok (omx_peer_max h) h" "array_ok (omx_peer_max h) h" "hash_ok h" "addr_ok h" "remote_ok h" "query_ok h"
    "timer_ok h" "iface_ok h" "local_ok h" "refs_ok h"
  using assms by (simp_all add: table_ok_def parts_ok_def)

subsection \<open>Looking up\<close>

lemma lookup_None:
  assumes "hash_ok h"
  shows "omx_peer_lookup_by_addr_locked a h = None
    \<longleftrightarrow> (\<forall>r p. r \<in> tabled h \<longrightarrow> get_peer r h = Some p \<longrightarrow> board_addr p \<noteq> a)"
  using assms unfolding omx_peer_lookup_by_addr_locked_def find_None_iff hash_ok_def by auto

lemma lookup_Some:
  assumes "hash_ok h" "omx_peer_lookup_by_addr_locked a h = Some r"
  obtains p where "r \<in> tabled h" "get_peer r h = Some p" "board_addr p = a"
proof -
  from assms(2) have "r \<in> set (omx_peer_addr_hash_array h (omx_peer_addr_hash a))"
      "map_option board_addr (get_peer r h) = Some a"
    unfolding omx_peer_lookup_by_addr_locked_def find_Some_iff by auto
  then show thesis using assms(1) that unfolding hash_ok_def by auto
qed

lemma lookup_entry:
  assumes "hash_ok h" "addr_ok h" "r \<in> tabled h" "get_peer r h = Some p"
  shows "omx_peer_lookup_by_addr_locked (board_addr p) h = Some r"
proof (cases "omx_peer_lookup_by_addr_locked (board_addr p) h")
  case None
  then show ?thesis using lookup_None [OF assms(1)] assms(3,4) by blast
next
  case (Some s)
  obtain q where "s \<in> tabled h" "get_peer s h = Some q" "board_addr q = board_addr p"
    using lookup_Some [OF assms(1) Some] .
  then have "s = r" using assms(2-4) unfolding addr_ok_def by blast
  then show ?thesis using Some by simp
qed

subsection \<open>The list of peers to ask\<close>

lemma parts_query:
  assumes "array_ok k h" "hash_ok h" "addr_ok h" "remote_ok h" "iface_ok h" "local_ok h" "refs_ok h"
    and "query_ok (h\<lparr>omx_host_query_peer_list := ql, omx_host_query_timer := t\<rparr>)"
    "timer_ok (h\<lparr>omx_host_query_peer_list := ql, omx_host_query_timer := t\<rparr>)"
  shows "parts_ok k (h\<lparr>omx_host_query_peer_list := ql, omx_host_query_timer := t\<rparr>)"
proof (rule parts_okI)
  let ?h = "h\<lparr>omx_host_query_peer_list := ql, omx_host_query_timer := t\<rparr>"
  have refs: "iface_refs ?h = iface_refs h" by (rule ext) (simp add: iface_refs_def endpoint_refs_def)
  show "array_ok k ?h" "hash_ok ?h" "addr_ok ?h" "remote_ok ?h" "iface_ok ?h" "local_ok ?h"
    using assms(1-6) by (simp_all add: array_ok_def hash_ok_def addr_ok_def remote_ok_def iface_ok_def local_ok_def)
  show "refs_ok ?h" using assms(7) unfolding refs_ok_def refs by simp
qed (use assms(8,9) in simp_all)

lemma upd_peer_array:
  assumes "array_ok k h" "get_peer r h = Some p" "peer_index q = peer_index p" "entry_ok r q"
  shows "array_ok k (upd_peer r q h)"
  unfolding array_ok_def
proof (intro conjI allI impI)
  fix i s
  assume "omx_peer_array (upd_peer r q h) i = Some s"
  then have i: "omx_peer_array h i = Some s" by simp
  then show "i < omx_peer_next_nr (upd_peer r q h) \<or> k \<le> i" "i < omx_peer_max (upd_peer r q h)"
    using assms(1) by (simp_all add: array_ok_def)
  obtain x where x: "get_peer s h = Some x" "unat (peer_index x) = i" "entry_ok s x" using assms(1) i by (rule array_entry)
  show "\<exists>p. get_peer s (upd_peer r q h) = Some p \<and> unat (peer_index p) = i \<and> entry_ok s p"
    using x assms(2-4) get_upd_peer [OF assms(2)] by (cases "s = r") auto
qed (use assms(1) in \<open>simp_all add: array_ok_def\<close>)

text \<open>A host name that comes, goes, or changes.\<close>

lemma rename_peer_ok:
  assumes ok: "table_ok h" and r: "Remote n \<in> tabled h"
  shows "\<exists>needs h'. rename_peer (Remote n) hostname h = Some (needs, h') \<and> table_ok h' \<and> (\<exists>p. get_peer (Remote n) h' = Some p)"
proof -
  note parts = table_okD [OF ok]
  obtain p where p: "get_peer (Remote n) h = Some p" "entry_ok (Remote n) p" using parts(2) r by (rule tabled_entry)
  have rp: "remote_peers h n = Some p" using p(1) by (simp add: get_peer_def)
  define q where "q = p\<lparr>peer_hostname := hostname\<rparr>"
  define u where "u = upd_peer (Remote n) q h"
  let ?m = "omx_peer_max h"
  have u: "array_ok ?m u" "hash_ok u" "addr_ok u" "remote_ok u" "timer_ok u" "iface_ok u" "local_ok u" "refs_ok u"
    unfolding u_def using upd_peer_ok [OF parts(1) r p(1), of q] upd_peer_array [OF parts(2) p(1), of q] p(2)
    by (simp_all add: q_def)
  have gu: "get_peer (Remote n) u = Some q" using get_upd_peer [OF p(1)] by (simp add: u_def)
  have query: "distinct (omx_host_query_peer_list h)"
      "r \<in> set (omx_host_query_peer_list h) \<longleftrightarrow> (\<exists>n p. r = Remote n \<and> remote_peers h n = Some p \<and> peer_hostname p = None)" for r
    using parts(6) by (simp_all add: query_ok_def)
  consider "peer_hostname p = None \<and> hostname \<noteq> None" | "peer_hostname p \<noteq> None \<and> hostname = None"
    | "(peer_hostname p = None) = (hostname = None)" by satx
  then show ?thesis
  proof cases
    case 1
    let ?l = "remove1 (Remote n) (omx_host_query_peer_list h)"
    let ?h = "u\<lparr>omx_host_query_peer_list := ?l, omx_host_query_timer := ?l \<noteq> [] \<and> omx_host_query_timer h\<rparr>"
    have "Remote n \<in> set (omx_host_query_peer_list h)" using query(2) rp 1 by simp
    then have "rename_peer (Remote n) hostname h = Some (False, ?h)"
      using p(1) 1 rp by (auto simp: rename_peer_def host_query_del_def Let_def put_peer_def u_def upd_peer_def q_def)
    moreover have "parts_ok ?m ?h"
    proof (rule parts_query [OF u(1-4) u(6-8)])
      show "query_ok ?h" using query 1 by (auto simp: query_ok_def u_def q_def)
      show "timer_ok ?h" using parts(7) by (auto simp: timer_ok_def u_def)
    qed
    ultimately show ?thesis using gu by (fastforce simp: table_ok_def u_def)
  next
    case 2
    let ?l = "omx_host_query_peer_list h @ [Remote n]"
    let ?h = "u\<lparr>omx_host_query_peer_list := ?l, omx_host_query_timer := omx_host_query_peer_list h = [] \<or> omx_host_query_timer h\<rparr>"
    have "Remote n \<notin> set (omx_host_query_peer_list h)" using query(2) rp 2 by simp
    then have "rename_peer (Remote n) hostname h = Some (True, ?h)"
      using p(1) 2 rp by (auto simp: rename_peer_def host_query_add_def Let_def put_peer_def u_def upd_peer_def q_def)
    moreover have "parts_ok ?m ?h"
    proof (rule parts_query [OF u(1-4) u(6-8)])
      show "query_ok ?h" using query 2 rp by (auto simp: query_ok_def u_def q_def)
      show "timer_ok ?h" using parts(7) by (auto simp: timer_ok_def u_def)
    qed
    ultimately show ?thesis using gu by (fastforce simp: table_ok_def u_def)
  next
    case 3
    have "rename_peer (Remote n) hostname h = Some (False, u)"
      using p(1) 3 rp by (auto simp: rename_peer_def put_peer_def u_def upd_peer_def q_def)
    moreover have "query_ok u"
      using query 3 rp by (auto simp: query_ok_def u_def q_def)
    ultimately show ?thesis using u gu by (fastforce simp: table_ok_def parts_ok_def u_def)
  qed
qed

subsection \<open>A new entry\<close>

definition enter :: "peer_ref \<Rightarrow> u64 \<Rightarrow> host \<Rightarrow> host" where
  "enter r addr h = set_slot (omx_peer_next_nr h) (Some r)
     (set_hash (omx_peer_addr_hash addr) (omx_peer_addr_hash_array h (omx_peer_addr_hash addr) @ [r]) h)
       \<lparr>omx_peer_next_nr := omx_peer_next_nr h + 1\<rparr>"

lemma enter_fields [simp]:
  "get_peer s (enter r a h) = get_peer s h" "remote_peers (enter r a h) = remote_peers h"
  "next_remote (enter r a h) = next_remote h" "omx_host_query_peer_list (enter r a h) = omx_host_query_peer_list h"
  "omx_host_query_timer (enter r a h) = omx_host_query_timer h" "omx_host_query_work (enter r a h) = omx_host_query_work h"
  "omx_ifaces (enter r a h) = omx_ifaces h" "iface_store (enter r a h) = iface_store h"
  "omx_iface_max (enter r a h) = omx_iface_max h" "next_iface (enter r a h) = next_iface h"
  "endpoint_store (enter r a h) = endpoint_store h" "omx_peer_max (enter r a h) = omx_peer_max h"
  "omx_endpoint_max (enter r a h) = omx_endpoint_max h" "next_endpoint (enter r a h) = next_endpoint h"
  "omx_iface_nr (enter r a h) = omx_iface_nr h"
  "omx_peer_next_nr (enter r a h) = omx_peer_next_nr h + 1"
  by (simp_all add: enter_def)

lemma next_free: "array_ok (omx_peer_max h) h \<Longrightarrow> omx_peer_array h (omx_peer_next_nr h) = None"
  unfolding array_ok_def by (metis leD less_irrefl option.exhaust)

lemma tabled_enter:
  "array_ok (omx_peer_max h) h \<Longrightarrow> tabled (enter r a h) = insert r (tabled h)"
  using tabled_add [OF next_free] by (simp add: enter_def)

lemma enter_ok:
  assumes ok: "array_ok (omx_peer_max h) h" "hash_ok h" "addr_ok h"
    and r: "r \<notin> tabled h" "get_peer r h = Some p" "unat (peer_index p) = omx_peer_next_nr h" "entry_ok r p"
      "omx_peer_next_nr h < omx_peer_max h"
    and new: "\<And>s q. s \<in> tabled h \<Longrightarrow> get_peer s h = Some q \<Longrightarrow> board_addr q \<noteq> board_addr p"
  shows "array_ok (omx_peer_max h) (enter r (board_addr p) h)" "hash_ok (enter r (board_addr p) h)"
    "addr_ok (enter r (board_addr p) h)"
proof -
  let ?h = "enter r (board_addr p) h"
  note tab = tabled_enter [OF ok(1), of r "board_addr p"]
  show "array_ok (omx_peer_max h) ?h"
    unfolding array_ok_def
  proof (intro conjI allI impI)
    fix i s
    assume i: "omx_peer_array ?h i = Some s"
    have "omx_peer_array ?h i = (if i = omx_peer_next_nr h then Some r else omx_peer_array h i)" by (simp add: enter_def)
    then consider "i = omx_peer_next_nr h" "s = r" | "omx_peer_array h i = Some s"
      using i by (cases "i = omx_peer_next_nr h") simp_all
    then have "(i < omx_peer_next_nr h + 1 \<or> omx_peer_max h \<le> i) \<and> i < omx_peer_max h
        \<and> (\<exists>p. get_peer s h = Some p \<and> unat (peer_index p) = i \<and> entry_ok s p)"
    proof cases
      case 1
      then show ?thesis using r by simp
    next
      case 2
      have "(i < omx_peer_next_nr h \<or> omx_peer_max h \<le> i) \<and> i < omx_peer_max h"
        using ok(1) 2 unfolding array_ok_def by blast
      then have "i < omx_peer_next_nr h" by auto
      moreover obtain x where "get_peer s h = Some x" "unat (peer_index x) = i" "entry_ok s x" "i < omx_peer_max h"
        using ok(1) 2 by (rule array_entry)
      ultimately show ?thesis by auto
    qed
    note c = this
    show "i < omx_peer_next_nr ?h \<or> omx_peer_max h \<le> i" using c [THEN conjunct1] by simp
    show "i < omx_peer_max ?h" using c by simp
    show "\<exists>p. get_peer s ?h = Some p \<and> unat (peer_index p) = i \<and> entry_ok s p" using c by simp
  qed (use ok(1) r(5) in \<open>simp_all add: array_ok_def\<close>)
  have out: "r \<notin> set (omx_peer_addr_hash_array h b)" for b using ok(2) r(1) by (simp add: hash_ok_def)
  show "hash_ok ?h"
    unfolding hash_ok_def tab
  proof (intro allI conjI)
    fix b s
    show "distinct (omx_peer_addr_hash_array ?h b)" using ok(2) out by (simp add: enter_def hash_ok_def)
    have mem: "s \<in> set (omx_peer_addr_hash_array ?h b)
        \<longleftrightarrow> s \<in> set (omx_peer_addr_hash_array h b) \<or> s = r \<and> b = omx_peer_addr_hash (board_addr p)"
      by (auto simp: enter_def)
    show "s \<in> set (omx_peer_addr_hash_array ?h b)
        \<longleftrightarrow> s \<in> insert r (tabled h) \<and> (\<exists>p. get_peer s ?h = Some p \<and> omx_peer_addr_hash (board_addr p) = b)"
    proof (cases "s = r")
      case True
      then show ?thesis using mem out r(2) by auto
    next
      case False
      have "s \<in> set (omx_peer_addr_hash_array h b) \<longleftrightarrow> s \<in> tabled h \<and> (\<exists>p. get_peer s h = Some p \<and> omx_peer_addr_hash (board_addr p) = b)"
        using ok(2) unfolding hash_ok_def by blast
      then show ?thesis using mem False by simp
    qed
  qed
  show "addr_ok ?h"
    unfolding addr_ok_def tab enter_fields
  proof (intro allI impI)
    fix s t x y
    assume a: "s \<in> insert r (tabled h)" "t \<in> insert r (tabled h)" "get_peer s h = Some x" "get_peer t h = Some y"
      "board_addr x = board_addr y"
    have "s = r \<Longrightarrow> t = r" using a r(2) new [of t y] by auto
    moreover have "t = r \<Longrightarrow> s = r" using a r(2) new [of s x] by auto
    moreover have "s \<in> tabled h \<Longrightarrow> t \<in> tabled h \<Longrightarrow> s = t" using ok(3) a(3-5) unfolding addr_ok_def by blast
    ultimately show "s = t" using a(1,2) by blast
  qed
qed

lemma iface_refs_enter: "array_ok (omx_peer_max h) h \<Longrightarrow> iface_refs (enter r a h) f =
    (if f \<in> attached h then 1 else 0) + (if Local f = r \<or> Local f \<in> tabled h then 1 else 0) + endpoint_refs h f"
  unfolding iface_refs_def tabled_enter by (simp add: endpoint_refs_def)

text \<open>An allocated peer that enters the table.\<close>

lemma hash_new_peer_ok:
  assumes parts: "array_ok (omx_peer_max h) h" "hash_ok h" "addr_ok h" "query_ok h" "timer_ok h" "iface_ok h" "local_ok h" "refs_ok h"
    and remote: "\<And>m. (remote_peers h m \<noteq> None \<longleftrightarrow> Remote m \<in> tabled h \<or> m = n) \<and> (remote_peers h m \<noteq> None \<longrightarrow> m < next_remote h)"
    and n: "Remote n \<notin> tabled h" "remote_peers h n = Some p" "local_iface p = None" "omx_peer_next_nr h < omx_peer_max h"
    and new: "\<And>s q. s \<in> tabled h \<Longrightarrow> get_peer s h = Some q \<Longrightarrow> board_addr q \<noteq> board_addr p"
  shows "\<exists>h'. hash_new_peer (Remote n) False h = Some h' \<and> table_ok h' \<and> (\<exists>q. get_peer (Remote n) h' = Some q)"
proof -
  let ?k = "omx_peer_next_nr h"
  let ?r = "Remote n"
  have max: "omx_peer_max h \<le> 65536" using parts(1) by (simp add: array_ok_def OMX_PEER_INDEX_MAX_def)
  have index: "unat (of_nat ?k :: u16) = ?k" "unat (ucast (of_nat ?k :: u16) :: u32) = ?k"
    using n(4) max by (simp_all add: unsigned_of_nat unsigned_ucast_eq take_bit_nat_eq_self unsigned_take_bit_eq)
  define q where "q = p\<lparr>peer_index := ucast (of_nat ?k :: u16)\<rparr>"
  define u where "u = upd_peer ?r q h"
  have p: "get_peer ?r h = Some p" using n(2) by (simp add: get_peer_def)
  have put: "put_peer ?r q h = Some u" using put_peer_eq [OF p] by (simp add: u_def)
  have get: "get_peer s u = (if s = ?r then Some q else get_peer s h)" for s using get_upd_peer [OF p] by (simp add: u_def)
  have same: "s \<in> tabled h \<Longrightarrow> get_peer s u = get_peer s h" for s using n(1) get by auto
  have entry: "\<exists>p. get_peer s u = Some p \<and> unat (peer_index p) = i \<and> entry_ok s p"
    if s: "omx_peer_array h i = Some s" for i s
  proof -
    obtain x where "get_peer s h = Some x" "unat (peer_index x) = i" "entry_ok s x" using parts(1) s by (rule array_entry)
    then show ?thesis using same [OF tabledI [OF s]] by simp
  qed
  have u: "array_ok (omx_peer_max u) u" "hash_ok u" "addr_ok u" "query_ok u" "timer_ok u" "iface_ok u" "local_ok u" "refs_ok u"
  proof -
    show "array_ok (omx_peer_max u) u" using parts(1) entry unfolding array_ok_def by (simp add: u_def)
    show "hash_ok u" using parts(2) same unfolding hash_ok_def by (auto simp: u_def)
    show "addr_ok u" using parts(3) same unfolding addr_ok_def by (auto simp: u_def)
    show "query_ok u" using upd_peer_query [OF parts(4) p] by (simp add: u_def q_def)
    show "timer_ok u" "iface_ok u" "local_ok u" using parts(5-7) by (simp_all add: timer_ok_def iface_ok_def local_ok_def u_def)
    have "iface_refs u = iface_refs h" by (rule ext) (simp add: iface_refs_def endpoint_refs_def u_def)
    then show "refs_ok u" using parts(8) by (simp add: refs_ok_def u_def)
  qed
  obtain v where v: "omx_init_peer_reverse_indexes ?k False u = Some v" "strip v = strip u"
    using init_peer_reverse_quiet [OF u(6), of ?k False] n(4) by (auto simp: u_def)
  have run: "hash_new_peer ?r False h = Some (enter ?r (board_addr q) v)"
    using p put v n(4) index strip_eqD(3,4) [OF v(2)]
    by (simp add: hash_new_peer_def q_def [symmetric] enter_def Let_def u_def) (simp add: q_def)
  define w where "w = enter ?r (board_addr q) u"
  have "strip (enter ?r (board_addr q) v) = strip w"
    using v(2) strip_eqD(2,3) [OF v(2)] by (simp add: w_def enter_def strip_updates)
  then have ok: "table_ok (enter ?r (board_addr q) v) \<longleftrightarrow> table_ok w" by (rule table_ok_strip)
  have gw: "get_peer ?r (enter ?r (board_addr q) v) = Some q" using get_peer_stripD [OF v(2), of ?r] get by simp
  have tab: "tabled w = insert ?r (tabled h)" unfolding w_def tabled_enter [OF u(1)] by (simp add: u_def)
  have "array_ok (omx_peer_max w) w" "hash_ok w" "addr_ok w"
    unfolding w_def
  proof -
    have *: "?r \<notin> tabled u" "get_peer ?r u = Some q" "unat (peer_index q) = omx_peer_next_nr u" "entry_ok ?r q"
        "omx_peer_next_nr u < omx_peer_max u"
      using n index get by (simp_all add: u_def q_def)
    have **: "board_addr x \<noteq> board_addr q" if "s \<in> tabled u" "get_peer s u = Some x" for s x
      using new [of s x] that same by (simp add: u_def q_def)
    show "array_ok (omx_peer_max (enter ?r (board_addr q) u)) (enter ?r (board_addr q) u)" "hash_ok (enter ?r (board_addr q) u)"
        "addr_ok (enter ?r (board_addr q) u)"
      using enter_ok [OF u(1-3) * **] by simp_all
  qed
  moreover have "remote_ok w" unfolding remote_ok_def tab using remote n(2) by (auto simp: w_def u_def)
  moreover have "query_ok w" "timer_ok w" "iface_ok w"
    using u(4-6) by (simp_all add: query_ok_def timer_ok_def iface_ok_def w_def)
  moreover have "local_ok w" unfolding local_ok_def tab using u(7) by (simp add: local_ok_def w_def u_def)
  moreover have "refs_ok w"
  proof -
    have "iface_refs w = iface_refs u"
      by (rule ext) (simp only: w_def iface_refs_enter [OF u(1)], simp add: iface_refs_def)
    then show ?thesis using u(8) by (simp add: refs_ok_def) (simp add: w_def)
  qed
  ultimately have "table_ok w" by (simp add: table_ok_def parts_ok_def)
  then show ?thesis using run ok gw by blast
qed

subsection \<open>Adding a peer\<close>

lemma reacquire_release:
  assumes "iface_store h f = Some i" "0 < if_refcount i"
  obtains h1 where "omx_iface_reacquire f h = Some h1" "omx_iface_release f h1 = Some h"
    "iface_store h1 f = Some (i\<lparr>if_refcount := if_refcount i + 1\<rparr>)" "\<And>r. get_peer r h1 = get_peer r h"
proof (rule that)
  let ?h = "set_iface f (Some (i\<lparr>if_refcount := if_refcount i + 1\<rparr>)) h"
  show "omx_iface_reacquire f h = Some ?h" using assms by (simp add: omx_iface_reacquire_def)
  show "omx_iface_release f ?h = Some h"
    using assms by (auto simp: omx_iface_release_def set_iface_def fun_upd_idem)
  show "iface_store ?h f = Some (i\<lparr>if_refcount := if_refcount i + 1\<rparr>)" by (simp add: set_iface_def)
  show "get_peer r ?h = get_peer r h" for r using assms by (cases r) (auto simp: get_peer_def set_iface_def)
qed

text \<open>The address of an interface in the array: the table has the interface as a peer.\<close>

lemma attached_entry:
  assumes "table_ok h" "f \<in> attached h"
  obtains i p where "iface_store h f = Some i" "if_peer i = p" "get_peer (Local f) h = Some p" "Local f \<in> tabled h"
    "local_iface p = Some f" "peer_hostname p \<noteq> None" "unat (peer_index p) < omx_peer_max h"
    "peer_index p \<noteq> OMX_UNKNOWN_REVERSE_PEER_INDEX" "0 < if_refcount i"
    "omx_peer_array h (unat (peer_index p)) = Some (Local f)"
proof -
  note ok = table_okD [OF assms(1)]
  obtain i where i: "iface_store h f = Some i" using attached_exists [OF ok(8) assms(2)] by blast
  have tab: "Local f \<in> tabled h" using ok(9) assms(2) by (simp add: local_ok_def)
  obtain p where p: "get_peer (Local f) h = Some p" "omx_peer_array h (unat (peer_index p)) = Some (Local f)"
      "entry_ok (Local f) p" "unat (peer_index p) < omx_peer_max h"
    using ok(2) tab by (rule tabled_entry)
  have "peer_index p \<noteq> OMX_UNKNOWN_REVERSE_PEER_INDEX"
  proof
    assume "peer_index p = OMX_UNKNOWN_REVERSE_PEER_INDEX"
    then have "unat (peer_index p) = 2 ^ 32 - 1" by (simp add: OMX_UNKNOWN_REVERSE_PEER_INDEX_def unsigned_minus_1_eq_mask mask_eq_exp_minus_1)
    moreover have "omx_peer_max h \<le> 65536" using ok(2) by (simp add: array_ok_def OMX_PEER_INDEX_MAX_def)
    ultimately show False using p(4) by simp
  qed
  moreover have "0 < if_refcount i" using ok(10) i by (simp add: refs_ok_def)
  moreover have "if_peer i = p" using i p(1) by (simp add: get_peer_def)
  ultimately show thesis using that i p tab by simp
qed

lemma find_by_addr:
  assumes "table_ok h"
  shows "(\<exists>f h1 p. omx_iface_find_by_addr a h = Some (Some f, h1) \<and> omx_iface_release f h1 = Some h
       \<and> f \<in> attached h \<and> get_peer (Local f) h = Some p \<and> board_addr p = a \<and> get_peer (Local f) h1 = Some p)
     \<or> omx_iface_find_by_addr a h = Some (None, h)
       \<and> (\<forall>f p. Local f \<in> tabled h \<longrightarrow> get_peer (Local f) h = Some p \<longrightarrow> board_addr p \<noteq> a)"
proof -
  note ok = table_okD [OF assms]
  let ?P = "\<lambda>f. map_option board_addr (get_peer (Local f) h) = Some a"
  show ?thesis
  proof (cases "find ?P (attached_ifaces h)")
    case None
    then have "\<forall>f\<in>attached h. \<not> ?P f" using set_attached_ifaces [OF ok(8)] by (auto simp: find_None_iff)
    then have "\<forall>f p. Local f \<in> tabled h \<longrightarrow> get_peer (Local f) h = Some p \<longrightarrow> board_addr p \<noteq> a"
      using ok(9) by (auto simp: local_ok_def)
    then show ?thesis using None by (simp add: omx_iface_find_by_addr_def)
  next
    case (Some f)
    then have f: "f \<in> attached h" "?P f"
      using set_attached_ifaces [OF ok(8)] by (auto simp: find_Some_iff)
    obtain i p where ip: "iface_store h f = Some i" "get_peer (Local f) h = Some p" "0 < if_refcount i"
      using attached_entry [OF assms f(1)] by metis
    obtain h1 where "omx_iface_reacquire f h = Some h1" "omx_iface_release f h1 = Some h"
        "\<And>r. get_peer r h1 = get_peer r h"
      using reacquire_release [OF ip(1,3)] by metis
    then show ?thesis using Some f ip by (auto simp: omx_iface_find_by_addr_def)
  qed
qed

text \<open>Our own address: the reference just taken is given back, and the name replaced if there is one.\<close>

lemma add_local_ok:
  assumes ok: "table_ok h" and f: "f \<in> attached h" and h1: "omx_iface_release f h1 = Some h" "get_peer (Local f) h1 = Some p"
    "get_peer (Local f) h = Some p"
  shows "\<exists>h'. add_local f hostname h1 = Some h' \<and> table_ok h'"
proof -
  note parts = table_okD [OF ok]
  obtain q where q: "get_peer (Local f) h = Some q" "Local f \<in> tabled h" "local_iface q = Some f" "peer_hostname q \<noteq> None"
      "peer_index q \<noteq> OMX_UNKNOWN_REVERSE_PEER_INDEX"
    using attached_entry [OF ok f] by metis
  have p: "p = q" using q(1) h1(3) by simp
  show ?thesis
  proof (cases hostname)
    case None
    then show ?thesis using q h1 ok p by (simp add: add_local_def)
  next
    case (Some n)
    define u where "u = upd_peer (Local f) (q\<lparr>peer_hostname := Some n\<rparr>) h"
    have "add_local f hostname h1 = Some u"
      using q h1 p Some put_peer_eq [OF q(1)] by (simp add: add_local_def u_def)
    moreover have "array_ok (omx_peer_max h) u"
      unfolding u_def by (rule upd_peer_array [OF parts(2) q(1)]) (use q in simp_all)
    moreover have "query_ok u" using parts(6) by (simp add: query_ok_def u_def)
    moreover have "hash_ok u" "addr_ok u" "remote_ok u" "timer_ok u" "iface_ok u" "local_ok u" "refs_ok u"
      unfolding u_def using upd_peer_ok [OF parts(1) q(2,1)] by simp_all
    ultimately show ?thesis by (simp add: table_ok_def parts_ok_def u_def)
  qed
qed

lemma new_peer_ok:
  assumes ok: "table_ok h" and room: "omx_peer_next_nr h < omx_peer_max h"
    and new: "\<And>s q. s \<in> tabled h \<Longrightarrow> get_peer s h = Some q \<Longrightarrow> board_addr q \<noteq> addr"
  shows "\<exists>r needs h1 h2 p. new_peer addr hostname h = Some (r, needs, h1) \<and> hash_new_peer r False h1 = Some h2
    \<and> table_ok h2 \<and> get_peer r h2 = Some p"
proof -
  note parts = table_okD [OF ok]
  let ?n = "next_remote h"
  let ?p = "\<lparr>board_addr = addr, peer_hostname = hostname, peer_index = 0, local_iface = None\<rparr>"
  have fresh: "remote_peers h ?n = None" "Remote ?n \<notin> tabled h"
    using parts(5) unfolding remote_ok_def by (metis less_irrefl)+
  let ?h0 = "h\<lparr>next_remote := ?n + 1, remote_peers := (remote_peers h)(?n \<mapsto> ?p)\<rparr>"
  have notin: "Remote ?n \<notin> set (omx_host_query_peer_list h)" using parts(6) fresh(1) by (simp add: query_ok_def)
  define h1 where "h1 = (if hostname = None then ?h0\<lparr>omx_host_query_peer_list := omx_host_query_peer_list h @ [Remote ?n],
      omx_host_query_timer := omx_host_query_peer_list h = [] \<or> omx_host_query_timer h\<rparr> else ?h0)"
  have run: "new_peer addr hostname h = Some (Remote ?n, hostname = None, h1)"
    using notin by (simp add: new_peer_def h1_def host_query_add_def Let_def)
  have fields: "omx_peer_array h1 = omx_peer_array h" "omx_peer_addr_hash_array h1 = omx_peer_addr_hash_array h"
    "omx_peer_next_nr h1 = omx_peer_next_nr h" "omx_peer_max h1 = omx_peer_max h" "omx_ifaces h1 = omx_ifaces h"
    "iface_store h1 = iface_store h" "omx_iface_max h1 = omx_iface_max h" "next_iface h1 = next_iface h"
    "endpoint_store h1 = endpoint_store h" "remote_peers h1 = (remote_peers h)(?n \<mapsto> ?p)" "next_remote h1 = ?n + 1"
    "omx_host_query_work h1 = omx_host_query_work h"
    by (simp_all add: h1_def)
  have get: "s \<in> tabled h \<Longrightarrow> get_peer s h1 = get_peer s h" for s
    using fresh by (cases s) (auto simp: get_peer_def fields)
  have "\<exists>h'. hash_new_peer (Remote ?n) False h1 = Some h' \<and> table_ok h' \<and> (\<exists>q. get_peer (Remote ?n) h' = Some q)"
  proof (rule hash_new_peer_ok)
    show "array_ok (omx_peer_max h1) h1"
      unfolding array_ok_def fields
    proof (intro conjI allI impI)
      fix i r
      assume i: "omx_peer_array h i = Some r"
      show "i < omx_peer_next_nr h \<or> omx_peer_max h \<le> i" "i < omx_peer_max h"
          "\<exists>p. get_peer r h1 = Some p \<and> unat (peer_index p) = i \<and> entry_ok r p"
        unfolding get [OF tabledI [OF i]] using parts(2) i unfolding array_ok_def by blast+
    qed (use parts(2) in \<open>simp_all add: array_ok_def\<close>)
    show "hash_ok h1" using parts(3) get unfolding hash_ok_def fields by auto
    show "addr_ok h1" using parts(4) get unfolding addr_ok_def fields by auto
    have ql: "omx_host_query_peer_list h1 = omx_host_query_peer_list h @ (if hostname = None then [Remote ?n] else [])"
      by (simp add: h1_def)
    show "query_ok h1" using parts(6) notin fresh(1) unfolding query_ok_def fields ql by auto
    have "omx_host_query_timer h1 = (if hostname = None then omx_host_query_peer_list h = [] \<or> omx_host_query_timer h else omx_host_query_timer h)"
      by (simp add: h1_def)
    then show "timer_ok h1" using parts(7) unfolding timer_ok_def fields ql by auto
    show "iface_ok h1" using parts(8) unfolding iface_ok_def fields .
    show "local_ok h1" using parts(9) unfolding local_ok_def fields .
    have "iface_refs h1 = iface_refs h" by (rule ext) (simp add: iface_refs_def endpoint_refs_def fields)
    then show "refs_ok h1" using parts(10) unfolding refs_ok_def fields by simp
    show "(remote_peers h1 m \<noteq> None \<longleftrightarrow> Remote m \<in> tabled h1 \<or> m = ?n) \<and> (remote_peers h1 m \<noteq> None \<longrightarrow> m < next_remote h1)" for m
      using parts(5) unfolding remote_ok_def fields by (auto simp: less_Suc_eq)
    show "remote_peers h1 ?n = Some ?p" by (simp add: fields)
    show "Remote ?n \<notin> tabled h1" using fresh(2) by (simp add: fields)
    show "board_addr q \<noteq> board_addr ?p" if "s \<in> tabled h1" "get_peer s h1 = Some q" for s q
      using new that get by (simp add: fields)
  qed (use room in \<open>simp_all add: fields\<close>)
  then show ?thesis using run by blast
qed

theorem omx_peer_add_ok:
  assumes "table_ok h"
  shows "\<exists>res h'. omx_peer_add ec addr hostname h = Some (res, h') \<and> table_ok h'"
proof -
  obtain b h0 where dup: "kstrdup hostname h = (b, h0)" by (cases "kstrdup hostname h")
  have ok: "table_ok h0" using table_ok_strip [OF kstrdup_strip [OF dup]] assms by simp
  note parts = table_okD [OF ok]
  let ?found = "omx_peer_lookup_by_addr_locked addr h0"
  have ask: "\<exists>h'. omx_peer_host_query ec r h1 = Some h' \<and> table_ok h'" if "table_ok h1" "get_peer r h1 = Some p" for r h1 p
    using host_query_quiet [OF table_okD(8) [OF that(1)] that(2)] table_ok_strip that(1) by blast
  show ?thesis
  proof (cases b)
    case False
    then show ?thesis using dup ok by (simp add: omx_peer_add_def)
  next
    case True
    consider (full) "?found = None" "omx_peer_next_nr h0 = omx_peer_max h0"
      | (go) "\<not> (?found = None \<and> omx_peer_next_nr h0 = omx_peer_max h0)" by satx
    then show ?thesis
    proof cases
      case full
      then show ?thesis using dup True ok by (simp add: omx_peer_add_def find_or_make_def Let_def table_ok_def set_full_parts)
    next
      case go
      from find_by_addr [OF ok, of addr] show ?thesis
      proof
        assume "\<exists>f h1 p. omx_iface_find_by_addr addr h0 = Some (Some f, h1) \<and> omx_iface_release f h1 = Some h0
          \<and> f \<in> attached h0 \<and> get_peer (Local f) h0 = Some p \<and> board_addr p = addr \<and> get_peer (Local f) h1 = Some p"
        then obtain f h1 p where f: "omx_iface_find_by_addr addr h0 = Some (Some f, h1)" "omx_iface_release f h1 = Some h0"
            "f \<in> attached h0" "get_peer (Local f) h0 = Some p" "board_addr p = addr" "get_peer (Local f) h1 = Some p"
          by blast
        have found: "?found = Some (Local f)"
          using lookup_entry [OF parts(3,4) _ f(4)] f(3,5) parts(9) by (simp add: local_ok_def)
        obtain h2 where "add_local f hostname h1 = Some h2" "table_ok h2"
          using add_local_ok [OF ok f(3,2,6,4)] by blast
        then show ?thesis using dup True f(1) found by (simp add: omx_peer_add_def find_or_make_def Let_def)
      next
        assume none: "omx_iface_find_by_addr addr h0 = Some (None, h0)
          \<and> (\<forall>f p. Local f \<in> tabled h0 \<longrightarrow> get_peer (Local f) h0 = Some p \<longrightarrow> board_addr p \<noteq> addr)"
        show ?thesis
        proof (cases ?found)
          case (Some r)
          obtain p where "r \<in> tabled h0" "get_peer r h0 = Some p" "board_addr p = addr" using lookup_Some [OF parts(3) Some] .
          then obtain n where n: "r = Remote n" "Remote n \<in> tabled h0" using none by (cases r) auto
          obtain needs h2 q where h2: "rename_peer (Remote n) hostname h0 = Some (needs, h2)" "table_ok h2" "get_peer (Remote n) h2 = Some q"
            using rename_peer_ok [OF ok n(2)] by blast
          obtain h3 where "omx_peer_host_query ec (Remote n) h2 = Some h3" "table_ok h3" using ask [OF h2(2,3)] by blast
          then show ?thesis using dup True none Some n(1) h2 by (cases needs) (simp_all add: omx_peer_add_def find_or_make_def Let_def)
        next
          case None
          have room: "omx_peer_next_nr h0 < omx_peer_max h0" using go None parts(2) by (simp add: array_ok_def)
          obtain m h1 where k: "kmalloc h0 = (m, h1)" by (cases "kmalloc h0")
          have s1: "strip h1 = strip h0" by (rule kmalloc_strip [OF k])
          have ok1: "table_ok h1" using table_ok_strip [OF s1] ok by simp
          show ?thesis
          proof (cases m)
            case m: None
            then show ?thesis using dup True none None go k ok1 by (auto simp: omx_peer_add_def find_or_make_def Let_def)
          next
            case (Some x)
            have new: "board_addr q \<noteq> addr" if "s \<in> tabled h1" "get_peer s h1 = Some q" for s q
              using None lookup_None [OF parts(3)] that get_peer_stripD [OF s1] strip_eqD(1) [OF s1] by metis
            have "omx_peer_next_nr h1 < omx_peer_max h1" using room strip_eqD(3,4) [OF s1] by simp
            from new_peer_ok [OF ok1 this, of addr hostname] new obtain r needs h2 h3 p where
              h3: "new_peer addr hostname h1 = Some (r, needs, h2)" "hash_new_peer r False h2 = Some h3" "table_ok h3" "get_peer r h3 = Some p"
              by blast
            obtain h4 where "omx_peer_host_query ec r h3 = Some h4" "table_ok h4" using ask [OF h3(3,4)] by blast
            then show ?thesis using dup True none None go k Some h3
              by (cases needs) (auto simp: omx_peer_add_def find_or_make_def Let_def)
          qed
        qed
      qed
    qed
  qed
qed

end
