(* ===== verification/Peer_Names.thy ===== *)
theory Peer_Names
  imports Peer_Changes
begin

text \<open>
  The names of the peers: forgetting them, asking for them, and the packets that bring them, on a
  well-formed table.
\<close>

subsection \<open>Names that arrive\<close>

lemma rename_peer_ifaces:
  assumes "rename_peer r hostname h = Some (needs, h')"
  shows "omx_ifaces h' = omx_ifaces h"
proof -
  have put: "put_peer r p x = Some y \<Longrightarrow> omx_ifaces y = omx_ifaces x" for p x y
    by (cases r) (auto simp: put_peer_def set_iface_def bind_eq_Some_conv)
  show ?thesis
    using assms
    by (auto simp: rename_peer_def host_query_add_def host_query_del_def Let_def bind_eq_Some_conv split: if_splits dest!: put)
qed

lemma name_local_ok:
  assumes "table_ok h" "f \<in> attached h" "get_peer (Local f) h = Some p"
  shows "table_ok (upd_peer (Local f) (p\<lparr>peer_hostname := Some n\<rparr>) h)"
proof -
  note parts = table_okD [OF assms(1)]
  let ?u = "upd_peer (Local f) (p\<lparr>peer_hostname := Some n\<rparr>) h"
  have p: "Local f \<in> tabled h" "local_iface p = Some f"
    using attached_entry [OF assms(1,2)] assms(3) by (metis option.inject)+
  have "array_ok (omx_peer_max h) ?u" by (rule upd_peer_array [OF parts(2) assms(3)]) (use p in simp_all)
  moreover have "query_ok ?u" using parts(6) by (simp add: query_ok_def)
  moreover have "hash_ok ?u" "addr_ok ?u" "remote_ok ?u" "timer_ok ?u" "iface_ok ?u" "local_ok ?u" "refs_ok ?u"
    using upd_peer_ok [OF parts(1) p(1) assms(3)] by simp_all
  ultimately show ?thesis by (simp add: table_ok_def parts_ok_def)
qed

text \<open>A packet of the lists: its interface is in the array, and a reply has a name.\<close>

definition reply_ok :: "host \<Rightarrow> nat \<times> skb \<Rightarrow> bool" where
  "reply_ok h fs \<longleftrightarrow> fst fs \<in> attached h \<and> 0 < unat (OMX_NTOH_8 (pkt_head_len + 1) (sk_mem (snd fs)))"

definition query_packet_ok :: "host \<Rightarrow> nat \<times> skb \<Rightarrow> bool" where
  "query_packet_ok h fs \<longleftrightarrow> fst fs \<in> attached h"

lemma process_host_reply_ok:
  assumes ok: "table_ok h" and pk: "reply_ok h (f, skb)"
  shows "\<exists>h'. process_host_reply ec f skb h = Some h' \<and> table_ok h' \<and> omx_ifaces h' = omx_ifaces h"
proof -
  let ?found = "omx_peer_lookup_by_addr_locked (omx_board_addr_from_ethhdr_src (sk_mem skb)) h"
  let ?len = "unat (OMX_NTOH_8 (pkt_head_len + 1) (sk_mem skb))"
  obtain m h1 where k: "kmalloc h = (m, h1)" by (cases "kmalloc h")
  have s1: "strip h1 = strip h" by (rule kmalloc_strip [OF k])
  have ok1: "table_ok h1" using table_ok_strip [OF s1] ok by simp
  note parts = table_okD [OF ok1]
  show ?thesis
  proof (cases "?found = None \<or> m = None")
    case True
    then show ?thesis using ok ok1 k strip_eqD(5) [OF s1] by (cases ?found) (auto simp: process_host_reply_def)
  next
    case False
    then obtain r junk where r: "?found = Some r" and m: "m = Some junk" by auto
    obtain p0 where "r \<in> tabled h" "get_peer r h = Some p0" using lookup_Some [OF table_okD(3) [OF ok] r] .
    then have tab: "r \<in> tabled h1" using strip_eqD(1) [OF s1] by simp
    then obtain p where p: "get_peer r h1 = Some p" "entry_ok r p" "unat (peer_index p) < omx_peer_max h1"
      using parts(2) by (auto elim: tabled_entry)
    have "\<exists>name. reply_hostname skb ?len junk = Some name"
      using pk by (simp add: reply_hostname_def reply_ok_def Let_def)
    then obtain name where name: "reply_hostname skb ?len junk = Some name" by blast
    let ?body = "do {
        h2 \<leftarrow> (if peer_hostname p = None then host_query_del r h1 else Some h1);
        put_peer r (p\<lparr>peer_hostname := Some name\<rparr>) h2 }"
    have "\<exists>h3. ?body = Some h3 \<and> table_ok h3 \<and> omx_ifaces h3 = omx_ifaces h1 \<and> omx_peer_max h3 = omx_peer_max h1"
    proof (cases r)
      case (Local g)
      have "g \<in> attached h1" using parts(9) tab Local by (simp add: local_ok_def)
      moreover obtain y where "peer_hostname p = Some y" using p(2) Local by auto
      ultimately show ?thesis
        using name_local_ok [OF ok1, of g p name] p(1) Local put_peer_eq [OF p(1)] by simp
    next
      case (Remote n)
      obtain needs h3 where h3: "rename_peer (Remote n) (Some name) h1 = Some (needs, h3)" "table_ok h3"
        using rename_peer_ok [OF ok1] tab Remote by blast
      have body: "?body = Some h3"
        using h3(1) p(1) Remote by (auto simp: rename_peer_def bind_eq_Some_conv split: if_splits)
      have "omx_peer_max h3 = omx_peer_max h1"
        using body Remote
        by (auto simp: put_peer_def host_query_del_def Let_def bind_eq_Some_conv split: if_splits)
      then show ?thesis using body h3(2) rename_peer_ifaces [OF h3(1)] by blast
    qed
    then obtain h3 where h3: "?body = Some h3" "table_ok h3" "omx_ifaces h3 = omx_ifaces h1" "omx_peer_max h3 = omx_peer_max h1"
      by blast
    have "f \<in> attached h3" using pk h3(3) strip_eqD(5) [OF s1] by (simp add: reply_ok_def)
    then obtain i where i: "iface_store h3 f = Some i" using attached_exists [OF table_okD(8) [OF h3(2)]] by blast
    obtain h4 where h4: "omx_peer_set_reverse_index p f (OMX_NTOH_16 ec (pkt_head_len + 2) (sk_mem skb)) h3 = Some h4"
        "strip h4 = strip h3"
      using peer_set_reverse_quiet [OF i] p(3) h3(4) by metis
    have "process_host_reply ec f skb h = Some h4"
      using r k m p(1) name h3(1) h4(1) by (simp add: process_host_reply_def bind_eq_Some_conv) auto
    moreover have "table_ok h4" using table_ok_strip [OF h4(2)] h3(2) by simp
    moreover have "omx_ifaces h4 = omx_ifaces h" using strip_eqD(5) [OF h4(2)] h3(3) strip_eqD(5) [OF s1] by simp
    ultimately show ?thesis by blast
  qed
qed

lemma process_host_query_ok:
  assumes ok: "table_ok h" and pk: "query_packet_ok h (f, skb)"
  shows "\<exists>h'. process_host_query ec f skb h = Some h' \<and> table_ok h' \<and> omx_ifaces h' = omx_ifaces h"
proof -
  let ?found = "omx_peer_lookup_by_addr_locked (omx_board_addr_from_ethhdr_src (sk_mem skb)) h"
  note parts = table_okD [OF ok]
  have "f \<in> attached h" using pk by (simp add: query_packet_ok_def)
  then obtain i where i: "iface_store h f = Some i" "peer_hostname (if_peer i) \<noteq> None" using attached_entry [OF ok] by metis
  then obtain name where name: "peer_hostname (if_peer i) = Some name" by auto
  show ?thesis
  proof (cases ?found)
    case None
    then show ?thesis using ok i(1) name by (simp add: process_host_query_def)
  next
    case (Some r)
    obtain p0 where "r \<in> tabled h" "get_peer r h = Some p0" using lookup_Some [OF parts(3) Some] .
    then obtain p where p: "get_peer r h = Some p" "unat (peer_index p) < omx_peer_max h"
      using parts(2) by (auto elim: tabled_entry)
    obtain h1 where h1: "omx_peer_set_reverse_index p f (OMX_NTOH_16 ec (pkt_head_len + 2) (sk_mem skb)) h = Some h1"
        "strip h1 = strip h"
      using peer_set_reverse_quiet [OF i(1) p(2)] by metis
    obtain out h2 where a: "alloc_skb (ETH_ZLEN + (length name + 1)) h1 = (out, h2)" by (cases "alloc_skb (ETH_ZLEN + (length name + 1)) h1")
    have s2: "strip h2 = strip h" using alloc_skb_strip [OF a] h1(2) by simp
    have "\<exists>h'. process_host_query ec f skb h = Some h' \<and> strip h' = strip h"
      using Some i(1) name p(1) h1(1) a s2 by (cases out) (simp_all add: process_host_query_def Let_def)
    then show ?thesis using table_ok_strip ok strip_eqD(5) by metis
  qed
qed

text \<open>The replies leave the queries alone.\<close>

lemma query_list_frame:
  "kmalloc a = (m, b) \<Longrightarrow> omx_host_query_list b = omx_host_query_list a"
  "host_query_del r a = Some b \<Longrightarrow> omx_host_query_list b = omx_host_query_list a"
  "put_peer r p a = Some b \<Longrightarrow> omx_host_query_list b = omx_host_query_list a"
  "omx_peer_set_reverse_index p f w a = Some b \<Longrightarrow> omx_host_query_list b = omx_host_query_list a"
proof -
  show "kmalloc a = (m, b) \<Longrightarrow> omx_host_query_list b = omx_host_query_list a" by (auto simp: kmalloc_def)
  show "host_query_del r a = Some b \<Longrightarrow> omx_host_query_list b = omx_host_query_list a"
    by (auto simp: host_query_del_def Let_def bind_eq_Some_conv)
  show "put_peer r p a = Some b \<Longrightarrow> omx_host_query_list b = omx_host_query_list a"
    by (cases r) (auto simp: put_peer_def set_iface_def bind_eq_Some_conv)
  have "set_reverse i w f a = Some b \<Longrightarrow> omx_host_query_list b = omx_host_query_list a" for i w
    by (auto simp: set_reverse_def set_iface_def bind_eq_Some_conv)
  then show "omx_peer_set_reverse_index p f w a = Some b \<Longrightarrow> omx_host_query_list b = omx_host_query_list a"
    by (auto simp: omx_peer_set_reverse_index_def bind_eq_Some_conv split: if_splits)
qed

lemma process_host_reply_list:
  assumes "process_host_reply ec f skb a = Some b"
  shows "omx_host_query_list b = omx_host_query_list a"
proof (cases "omx_peer_lookup_by_addr_locked (omx_board_addr_from_ethhdr_src (sk_mem skb)) a")
  case None
  then show ?thesis using assms by (simp add: process_host_reply_def)
next
  case (Some r)
  obtain m a1 where k: "kmalloc a = (m, a1)" by (cases "kmalloc a")
  show ?thesis
  proof (cases m)
    case None
    then show ?thesis using assms Some k query_list_frame(1) [OF k] by (simp add: process_host_reply_def)
  next
    case m: (Some junk)
    from assms Some k m obtain peer name a2 a3 where
        "(if peer_hostname peer = None then host_query_del r a1 else Some a1) = Some a2"
        "put_peer r (peer\<lparr>peer_hostname := Some name\<rparr>) a2 = Some a3"
        "omx_peer_set_reverse_index peer f (OMX_NTOH_16 ec (pkt_head_len + 2) (sk_mem skb)) a3 = Some b"
      by (simp add: process_host_reply_def bind_eq_Some_conv) blast
    then show ?thesis
      using query_list_frame(1) [OF k] query_list_frame(2) [of r a1 a2] query_list_frame(3) query_list_frame(4)
      by (metis option.inject)
  qed
qed

theorem omx_process_host_queries_and_replies_ok:
  assumes "table_ok h" "\<And>x. x \<in> set (omx_host_reply_list h) \<Longrightarrow> reply_ok h x"
    "\<And>x. x \<in> set (omx_host_query_list h) \<Longrightarrow> query_packet_ok h x"
  shows "\<exists>h'. omx_process_host_queries_and_replies_workfunc ec h = Some h' \<and> table_ok h'"
proof -
  let ?P = "\<lambda>h'. table_ok h' \<and> omx_ifaces h' = omx_ifaces h"
  let ?h0 = "h\<lparr>omx_host_reply_list := []\<rparr>"
  have ok0: "table_ok ?h0" using table_ok_strip [of ?h0 h] assms(1) by (simp add: strip_updates)
  have "\<exists>h1. foreach (\<lambda>(f, skb). process_host_reply ec f skb) (omx_host_reply_list h) ?h0 = Some h1 \<and> ?P h1"
  proof (rule foreach_run)
    fix x a
    assume x: "x \<in> set (omx_host_reply_list h)" and a: "?P a"
    have "reply_ok a (fst x, snd x)" using assms(2) [OF x] a by (simp add: reply_ok_def)
    from process_host_reply_ok [OF _ this] a show "\<exists>b. (\<lambda>(f, skb). process_host_reply ec f skb) x a = Some b \<and> ?P b"
      by (auto simp: split_beta)
  qed (use ok0 in simp)
  then obtain h1 where h1: "foreach (\<lambda>(f, skb). process_host_reply ec f skb) (omx_host_reply_list h) ?h0 = Some h1" "?P h1"
    by blast
  have list: "omx_host_query_list h1 = omx_host_query_list h"
    using foreach_frame [OF h1(1), of omx_host_query_list] process_host_reply_list by (auto simp: split_beta)
  let ?h1 = "h1\<lparr>omx_host_query_list := []\<rparr>"
  have "table_ok ?h1" using table_ok_strip [of ?h1 h1] h1(2) by (simp add: strip_updates)
  then have start: "?P ?h1" using h1(2) by simp
  have "\<exists>h2. foreach (\<lambda>(f, skb). process_host_query ec f skb) (omx_host_query_list h1) ?h1 = Some h2 \<and> ?P h2"
  proof (rule foreach_run [where P = ?P, OF start])
    fix x a
    assume x: "x \<in> set (omx_host_query_list h1)" and a: "?P a"
    have "query_packet_ok a (fst x, snd x)" using assms(3) [of x] x list a by (simp add: query_packet_ok_def)
    from process_host_query_ok [OF _ this] a show "\<exists>b. (\<lambda>(f, skb). process_host_query ec f skb) x a = Some b \<and> ?P b"
      by (auto simp: split_beta)
  qed
  then show ?thesis using h1(1) by (auto simp: omx_process_host_queries_and_replies_workfunc_def)
qed

subsection \<open>Names that are forgotten\<close>

text \<open>While names are forgotten the timer may not run yet; the parts hold as if it did.\<close>

definition timed :: "host \<Rightarrow> host" where
  "timed h = h\<lparr>omx_host_query_timer := (omx_host_query_peer_list h \<noteq> [])\<rparr>"

lemma timed_fields [simp]:
  "get_peer r (timed h) = get_peer r h" "omx_peer_array (timed h) = omx_peer_array h" "omx_peer_max (timed h) = omx_peer_max h"
  "omx_host_query_peer_list (timed h) = omx_host_query_peer_list h" "iface_ok (timed h) = iface_ok h"
  by (cases r; simp add: timed_def get_peer_def iface_ok_def)+

lemma table_ok_timed: "table_ok h \<Longrightarrow> table_ok (timed h)"
  using parts_query [where k = "omx_peer_max h" and h = h and ql = "omx_host_query_peer_list h" and t = "omx_host_query_peer_list h \<noteq> []"] table_okD [of h]
  by (simp add: table_ok_def timed_def query_ok_def timer_ok_def)

lemma table_ok_untimed:
  assumes "table_ok (timed h)" "timer_ok h"
  shows "table_ok h"
proof -
  note ok = table_okD [OF assms(1)]
  have "parts_ok (omx_peer_max h) (timed h\<lparr>omx_host_query_peer_list := omx_host_query_peer_list h, omx_host_query_timer := omx_host_query_timer h\<rparr>)"
    using ok assms(2)
    by (intro parts_query) (simp_all add: query_ok_def timer_ok_def, simp_all add: timed_def)
  then show ?thesis by (simp add: table_ok_def timed_def)
qed

lemma clear_name_ok:
  assumes ok: "table_ok (timed h)"
  shows "\<exists>h'. clear_name ec i h = Some h' \<and> table_ok (timed h') \<and> omx_peer_max h' = omx_peer_max h
    \<and> omx_host_query_timer h' = omx_host_query_timer h \<and> omx_host_query_work h' = omx_host_query_work h
    \<and> (omx_host_query_peer_list h \<noteq> [] \<longrightarrow> omx_host_query_peer_list h' \<noteq> [])"
proof (cases "omx_peer_array h i")
  case None
  then show ?thesis using ok by (simp add: clear_name_def)
next
  case (Some r)
  note parts = table_okD [OF ok]
  have arr: "omx_peer_array (timed h) i = Some r" using Some by simp
  obtain p where p: "get_peer r h = Some p" "entry_ok r p" using parts(2) arr by (rule array_entry) simp
  show ?thesis
  proof (cases "peer_hostname p = None \<or> local_iface p \<noteq> None")
    case True
    then show ?thesis using ok Some p(1) by (simp add: clear_name_def)
  next
    case False
    then obtain n where r: "r = Remote n" using p(2) by (cases r) auto
    have tab: "Remote n \<in> tabled (timed h)" using tabledI [OF arr] r by simp
    obtain needs h2 where h2: "rename_peer (Remote n) None (timed h) = Some (needs, h2)" "table_ok h2"
      using rename_peer_ok [OF ok tab] by blast
    have rp: "remote_peers h n = Some p" using p(1) r by (simp add: get_peer_def)
    have notin: "Remote n \<notin> set (omx_host_query_peer_list h)"
      using parts(6) rp False by (simp add: query_ok_def) (simp add: timed_def)
    define u where "u = upd_peer r (p\<lparr>peer_hostname := None\<rparr>) h"
    define v where "v = u\<lparr>omx_host_query_peer_list := omx_host_query_peer_list h @ [r]\<rparr>"
    have "h2 = timed v"
      using h2(1) p(1) False notin r rp
      by (auto simp: rename_peer_def host_query_add_def put_peer_def timed_def v_def u_def upd_peer_def Let_def)
    then have okv: "table_ok (timed v)" using h2(2) by simp
    have "iface_ok v" using table_okD(8) [OF okv] by simp
    moreover have "get_peer r v = Some (p\<lparr>peer_hostname := None\<rparr>)" using get_upd_peer [OF p(1)] by (simp add: v_def u_def)
    ultimately obtain h3 where h3: "omx_peer_host_query ec r v = Some h3" "strip h3 = strip v"
      using host_query_quiet by blast
    obtain y where "peer_hostname p = Some y" "local_iface p = None" using False by auto
    then have "clear_name ec i h = Some h3"
      using Some p(1) put_peer_eq [OF p(1)] notin r h3(1) by (simp add: clear_name_def v_def u_def)
    moreover have "strip (timed h3) = strip (timed v)"
      using h3(2) strip_eqD(6) [OF h3(2)] by (simp add: timed_def strip_updates)
    then have "table_ok (timed h3)" using table_ok_strip okv by blast
    moreover have "omx_host_query_work h3 = omx_host_query_work v" using h3(2) strip_fields(8) by metis
    ultimately show ?thesis
      using strip_eqD(4) [OF h3(2)] strip_eqD(6) [OF h3(2)] strip_eqD(11) [OF h3(2)] by (simp add: v_def u_def)
  qed
qed

theorem omx_peers_clear_names_ok:
  assumes "table_ok h"
  shows "\<exists>h'. omx_peers_clear_names ec h = Some h' \<and> table_ok h'"
proof -
  note parts = table_okD [OF assms]
  let ?P = "\<lambda>h'. table_ok (timed h') \<and> omx_peer_max h' = omx_peer_max h
    \<and> omx_host_query_timer h' = omx_host_query_timer h \<and> omx_host_query_work h' = omx_host_query_work h
    \<and> (omx_host_query_peer_list h \<noteq> [] \<longrightarrow> omx_host_query_peer_list h' \<noteq> [])"
  have start: "?P h" using table_ok_timed [OF assms] by simp
  have "\<exists>h1. foreach (clear_name ec) [0..<omx_peer_max h] h = Some h1 \<and> ?P h1"
  proof (rule foreach_run [where P = ?P, OF start])
    fix x a
    assume a: "?P a"
    obtain b where b: "clear_name ec x a = Some b" "table_ok (timed b)" "omx_peer_max b = omx_peer_max a"
        "omx_host_query_timer b = omx_host_query_timer a" "omx_host_query_work b = omx_host_query_work a"
        "omx_host_query_peer_list a \<noteq> [] \<longrightarrow> omx_host_query_peer_list b \<noteq> []"
      using clear_name_ok [of a ec x] a by blast
    have "?P b" using b(2-6) a by simp
    then show "\<exists>b. clear_name ec x a = Some b \<and> ?P b" using b(1) by blast
  qed
  then obtain h1 where h1: "foreach (clear_name ec) [0..<omx_peer_max h] h = Some h1" "?P h1" by blast
  let ?h2 = "h1\<lparr>omx_host_query_timer := omx_host_query_peer_list h = [] \<and> omx_host_query_peer_list h1 \<noteq> [] \<or> omx_host_query_timer h1\<rparr>"
  let ?h3 = "?h2\<lparr>omx_host_query_magic := omx_host_query_magic ?h2 + 1\<rparr>"
  have run: "omx_peers_clear_names ec h = Some ?h3"
    using h1(1) by (simp add: omx_peers_clear_names_def Let_def)
  have "timer_ok ?h2" using parts(7) h1(2) by (auto simp: timer_ok_def)
  moreover have "table_ok (timed ?h2)" using h1(2) by (simp add: timed_def)
  ultimately have "table_ok ?h2" by (rule table_ok_untimed [rotated])
  then have "table_ok ?h3" using table_ok_strip [of ?h3 ?h2] by (simp add: strip_updates)
  then show ?thesis using run by blast
qed

subsection \<open>The timer\<close>

theorem omx_host_query_timer_handler_ok:
  assumes "table_ok h"
  shows "table_ok (omx_host_query_timer_handler h)"
proof -
  note parts = table_okD [OF assms]
  let ?h = "omx_host_query_timer_handler h"
  have get: "get_peer r ?h = get_peer r h" for r by (cases r) (simp_all add: get_peer_def omx_host_query_timer_handler_def)
  have refs: "iface_refs ?h = iface_refs h"
    by (rule ext) (simp add: iface_refs_def endpoint_refs_def omx_host_query_timer_handler_def)
  have "array_ok (omx_peer_max h) ?h" "hash_ok ?h" "addr_ok ?h" "refs_ok ?h"
    using parts unfolding array_ok_def hash_ok_def addr_ok_def refs_ok_def get refs
    by (simp_all add: omx_host_query_timer_handler_def)
  moreover have "remote_ok ?h" "query_ok ?h" "timer_ok ?h" "iface_ok ?h" "local_ok ?h"
    using parts unfolding remote_ok_def query_ok_def timer_ok_def iface_ok_def local_ok_def
    by (simp_all add: omx_host_query_timer_handler_def)
  ultimately show ?thesis by (simp add: table_ok_def parts_ok_def) (simp add: omx_host_query_timer_handler_def)
qed

text \<open>The work function restarts the timer before anyone relies on the work.\<close>

theorem omx_host_query_workfunc_ok:
  assumes "table_ok h"
  shows "\<exists>h'. omx_host_query_workfunc ec h = Some h' \<and> table_ok h'"
proof -
  note parts = table_okD [OF assms]
  let ?h0 = "h\<lparr>omx_host_query_work := False\<rparr>"
  let ?t = "\<lambda>h. h\<lparr>omx_host_query_work := False, omx_host_query_timer := (omx_host_query_peer_list h \<noteq> [])\<rparr>"
  have get: "get_peer r (?t h) = get_peer r h" "get_peer r ?h0 = get_peer r h" for r
    by (cases r; simp add: get_peer_def)+
  have refs: "iface_refs (?t h) = iface_refs h" by (rule ext) (simp add: iface_refs_def endpoint_refs_def)
  have "array_ok (omx_peer_max h) (?t h)" "hash_ok (?t h)" "addr_ok (?t h)" "refs_ok (?t h)"
    using parts unfolding array_ok_def hash_ok_def addr_ok_def refs_ok_def get refs by simp_all
  moreover have "remote_ok (?t h)" "query_ok (?t h)" "timer_ok (?t h)" "iface_ok (?t h)" "local_ok (?t h)"
    using parts unfolding remote_ok_def query_ok_def timer_ok_def iface_ok_def local_ok_def by simp_all
  ultimately have ok: "table_ok (?t h)" by (simp add: table_ok_def parts_ok_def)
  show ?thesis
  proof (cases "omx_host_query_peer_list h = []")
    case True
    then have "?t h = ?h0" using parts(7) by (simp add: timer_ok_def)
    then show ?thesis using True ok by (simp add: omx_host_query_workfunc_def Let_def)
  next
    case False
    have "\<exists>h''. omx_peer_host_query ec r h' = Some h'' \<and> strip h'' = strip h'"
      if r: "r \<in> set (omx_host_query_peer_list ?h0)" and s: "strip h' = strip ?h0" for r h'
    proof -
      have "iface_ok ?h0" using parts(8) by (simp add: iface_ok_def)
      then have i: "iface_ok h'" using s strip_ok(7) by metis
      obtain n p where np: "r = Remote n" "remote_peers h n = Some p" using r parts(6) by (auto simp: query_ok_def)
      then have "get_peer r h = Some p" by (simp add: get_peer_def)
      then have "get_peer r h' = Some p" using get_peer_stripD [OF s, of r] get(2) by simp
      then show ?thesis using host_query_quiet [OF i] by blast
    qed
    from foreach_quiet [of "omx_host_query_peer_list ?h0" ?h0 "omx_peer_host_query ec", OF this]
    obtain h1 where h1: "foreach (omx_peer_host_query ec) (omx_host_query_peer_list ?h0) ?h0 = Some h1" "strip h1 = strip ?h0"
      by blast
    have "strip (h1\<lparr>omx_host_query_timer := True\<rparr>) = strip (?t h)"
      using h1(2) False by (simp add: strip_updates)
    then have "table_ok (h1\<lparr>omx_host_query_timer := True\<rparr>)" using table_ok_strip ok by blast
    then show ?thesis using False h1(1) by (simp add: omx_host_query_workfunc_def Let_def)
  qed
qed

end
