(* ===== verification/Endpoint_Frames.thy ===== *)
theory Endpoint_Frames
  imports Peer_Names
begin

text \<open>
  What holds of the endpoints of a host between two operations, and that the operations on the table
  of peers leave it alone.
\<close>

subsection \<open>Well-formed endpoints\<close>

text \<open>
  An open endpoint is in its interface at its index; one that is being closed is in none, but keeps its
  interface. The interface counts the endpoints in it, and only those in the array have any.
\<close>

definition endpoint_ok :: "host \<Rightarrow> nat \<Rightarrow> drv_endpoint \<Rightarrow> bool" where
  "endpoint_ok h e ep \<longleftrightarrow> e < next_endpoint h \<and> 0 < de_refcount ep \<and>
     (case de_status ep of
        ENDPOINT_STATUS_FREE \<Rightarrow> de_refcount ep = 1
      | ENDPOINT_STATUS_INITIALIZING \<Rightarrow> False
      | ENDPOINT_STATUS_OK \<Rightarrow> \<exists>f i. de_iface ep = Some f \<and> iface_store h f = Some i
          \<and> if_endpoints i (de_endpoint_index ep) = Some e
      | ENDPOINT_STATUS_CLOSING \<Rightarrow> \<exists>f i. de_iface ep = Some f \<and> iface_store h f = Some i)"

definition slot_ok :: "host \<Rightarrow> nat \<Rightarrow> u8 \<Rightarrow> nat \<Rightarrow> bool" where
  "slot_ok h f index e \<longleftrightarrow> f \<in> attached h \<and> unat index < omx_endpoint_max h
     \<and> (\<exists>ep. endpoint_store h e = Some ep \<and> de_status ep = ENDPOINT_STATUS_OK \<and> de_iface ep = Some f
          \<and> de_endpoint_index ep = index)"

definition endpoints_ok :: "host \<Rightarrow> bool" where
  "endpoints_ok h \<longleftrightarrow> (\<forall>e ep. endpoint_store h e = Some ep \<longrightarrow> endpoint_ok h e ep)
     \<and> (\<forall>f i. iface_store h f = Some i \<longrightarrow> endpoint_nr i = card (dom (if_endpoints i))
          \<and> (\<forall>index e. if_endpoints i index = Some e \<longrightarrow> slot_ok h f index e))"

definition count_ok :: "host \<Rightarrow> bool" where
  "count_ok h \<longleftrightarrow> omx_iface_nr h = card (dom (omx_ifaces h))"

definition driver_ok :: "host \<Rightarrow> bool" where
  "driver_ok h \<longleftrightarrow> table_ok h \<and> endpoints_ok h \<and> count_ok h"

subsection \<open>What they depend on\<close>

definition ends :: "host \<Rightarrow> (nat \<Rightarrow> drv_endpoint option) \<times> nat \<times> nat \<times> (nat \<Rightarrow> nat option) \<times> nat
    \<times> (nat \<Rightarrow> ((u8 \<Rightarrow> nat option) \<times> nat) option)" where
  "ends h = (endpoint_store h, next_endpoint h, omx_endpoint_max h, omx_ifaces h, omx_iface_nr h,
     \<lambda>f. map_option (\<lambda>i. (if_endpoints i, endpoint_nr i)) (iface_store h f))"

lemma endsD:
  assumes "ends h' = ends h"
  shows "endpoint_store h' = endpoint_store h" "next_endpoint h' = next_endpoint h" "omx_endpoint_max h' = omx_endpoint_max h"
    "omx_ifaces h' = omx_ifaces h" "omx_iface_nr h' = omx_iface_nr h"
    "map_option (\<lambda>i. (if_endpoints i, endpoint_nr i)) (iface_store h' f) = map_option (\<lambda>i. (if_endpoints i, endpoint_nr i)) (iface_store h f)"
  using assms by (auto simp: ends_def dest: fun_cong)

lemma ends_iface:
  assumes "ends h' = ends h" "iface_store h' f = Some i'"
  obtains i where "iface_store h f = Some i" "if_endpoints i = if_endpoints i'" "endpoint_nr i = endpoint_nr i'"
  using endsD(6) [OF assms(1), of f] assms(2) by (cases "iface_store h f") auto

lemma endpoint_ok_ends:
  assumes "ends h' = ends h" "endpoint_ok h e ep"
  shows "endpoint_ok h' e ep"
proof -
  have "\<exists>i'. iface_store h' f = Some i' \<and> if_endpoints i' = if_endpoints i" if "iface_store h f = Some i" for f i
    using ends_iface [OF assms(1) [symmetric] that] by metis
  then show ?thesis using assms(2) endsD(2) [OF assms(1)]
    unfolding endpoint_ok_def by (cases "de_status ep"; simp) (metis+)
qed

lemma endpoints_ok_ends:
  assumes "ends h' = ends h"
  shows "endpoints_ok h' \<longleftrightarrow> endpoints_ok h"
proof -
  have "endpoints_ok b" if s: "ends b = ends a" and ok: "endpoints_ok a" for a b
    unfolding endpoints_ok_def
  proof (intro conjI allI impI)
    fix e ep
    assume "endpoint_store b e = Some ep"
    then show "endpoint_ok b e ep" using ok endsD(1) [OF s] endpoint_ok_ends [OF s] by (simp add: endpoints_ok_def)
  next
    fix f i
    assume "iface_store b f = Some i"
    then obtain j where j: "iface_store a f = Some j" "if_endpoints j = if_endpoints i" "endpoint_nr j = endpoint_nr i"
      using ends_iface [OF s] by metis
    show "endpoint_nr i = card (dom (if_endpoints i))" using ok j by (auto simp: endpoints_ok_def)
    show "slot_ok b f index e" if "if_endpoints i index = Some e" for index e
      using ok j that endsD(1,3,4) [OF s] by (simp add: endpoints_ok_def slot_ok_def)
  qed
  from this [OF assms] this [OF assms [symmetric]] show ?thesis by blast
qed

lemma driver_ok_ends:
  assumes "ends h' = ends h" "table_ok h'" "driver_ok h"
  shows "driver_ok h'"
proof -
  have "endpoints_ok h'" using endpoints_ok_ends [OF assms(1)] assms(3) by (simp add: driver_ok_def)
  moreover have "count_ok h'" using endsD(4,5) [OF assms(1)] assms(3) by (simp add: driver_ok_def count_ok_def)
  ultimately show ?thesis using assms(2) by (simp add: driver_ok_def)
qed

lemma ends_strip [simp]: "ends (strip h) = ends h"
  by (simp add: ends_def iface_store_strip option.map_comp o_def)

lemma strip_ends: "strip h' = strip h \<Longrightarrow> ends h' = ends h"
  by (metis ends_strip)

lemma ends_upd_peer [simp]: "ends (upd_peer r p h) = ends h"
  by (cases r) (auto simp: ends_def upd_peer_def set_iface_def option.map_comp o_def fun_eq_iff)

lemma ends_fields [simp]:
  "ends (set_hash b l h) = ends h" "ends (set_slot j x h) = ends h" "ends (h\<lparr>omx_host_query_peer_list := ql\<rparr>) = ends h"
  "ends (h\<lparr>omx_host_query_timer := t\<rparr>) = ends h" "ends (h\<lparr>omx_host_query_work := t\<rparr>) = ends h"
  "ends (h\<lparr>omx_peer_next_nr := n\<rparr>) = ends h" "ends (set_full t h) = ends h" "ends (h\<lparr>remote_peers := rp\<rparr>) = ends h"
  "ends (h\<lparr>next_remote := n\<rparr>) = ends h" "ends (h\<lparr>omx_host_query_magic := magic\<rparr>) = ends h"
  "ends (h\<lparr>omx_host_query_list := sl\<rparr>) = ends h" "ends (h\<lparr>omx_host_reply_list := sl\<rparr>) = ends h"
  "ends (h\<lparr>omx_peer_table_state := st\<rparr>) = ends h"
  by (simp_all add: ends_def set_hash_def set_slot_def set_full_def)

subsection \<open>The operations on peers\<close>

named_theorems ends_simps "operations that leave the endpoints alone"

lemma ends_quiet [ends_simps]:
  "kmalloc h = (m, h') \<Longrightarrow> ends h' = ends h" "kmallocs n h = (ok, h') \<Longrightarrow> ends h' = ends h"
  "kstrdup s h = (ok, h') \<Longrightarrow> ends h' = ends h" "alloc_skb n h = (x, h') \<Longrightarrow> ends h' = ends h"
  by (auto intro: strip_ends dest: kmalloc_strip kmallocs_strip kstrdup_strip alloc_skb_strip)

lemma ends_put_peer [ends_simps]: "put_peer r p h = Some h' \<Longrightarrow> ends h' = ends h"
  by (cases r) (auto simp: put_peer_def ends_def set_iface_def bind_eq_Some_conv fun_eq_iff)

lemma ends_kfree_peer [ends_simps]: "kfree_peer r h = Some h' \<Longrightarrow> ends h' = ends h"
  by (cases r) (auto simp: kfree_peer_def bind_eq_Some_conv)

lemma ends_reacquire [ends_simps]: "omx_iface_reacquire f h = Some h' \<Longrightarrow> ends h' = ends h"
  by (auto simp: omx_iface_reacquire_def ends_def set_iface_def bind_eq_Some_conv fun_eq_iff)

lemma ends_query [ends_simps]:
  "host_query_add r h = Some h' \<Longrightarrow> ends h' = ends h" "host_query_del r h = Some h' \<Longrightarrow> ends h' = ends h"
  by (auto simp: host_query_add_def host_query_del_def Let_def bind_eq_Some_conv)

lemma ends_set_reverse [ends_simps]: "set_reverse j w f h = Some h' \<Longrightarrow> ends h' = ends h"
  by (auto simp: set_reverse_def ends_def set_iface_def bind_eq_Some_conv fun_eq_iff)

lemma ends_peer_set_reverse [ends_simps]: "omx_peer_set_reverse_index p f w h = Some h' \<Longrightarrow> ends h' = ends h"
  by (auto simp: omx_peer_set_reverse_index_def bind_eq_Some_conv ends_simps split: if_splits)

lemma ends_init_peer_reverse [ends_simps]:
  assumes "omx_init_peer_reverse_indexes j b h = Some h'"
  shows "ends h' = ends h"
  by (rule foreach_frame [OF assms [unfolded omx_init_peer_reverse_indexes_def]]) (rule ends_set_reverse)

lemma ends_unhash [ends_simps]: "unhash r a h = Some h' \<Longrightarrow> ends h' = ends h"
  by (auto simp: unhash_def Let_def bind_eq_Some_conv)

lemma ends_host_query_send: "omx_peer_host_query_send skb fs h = Some h' \<Longrightarrow> ends h' = ends h"
proof (induction skb fs h rule: omx_peer_host_query_send.induct)
  case (2 skb f fs h)
  obtain m h1 where k: "kmalloc h = (m, h1)" by (cases "kmalloc h")
  obtain i where i: "iface_store h f = Some i" using 2(2) by (auto simp: bind_eq_Some_conv)
  show ?case
  proof (cases m)
    case None
    then show ?thesis using 2(2) i k ends_quiet(1) [OF k] by simp
  next
    case (Some x)
    have "ends h' = ends (dev_queue_xmit (if_ifp i) (skb\<lparr>sk_mem := write_h_source (dev_addr h1 (if_ifp i)) (sk_mem skb)\<rparr>) h1)"
      by (rule 2(1) [OF i k [symmetric] Some refl]) (use 2(2) i k Some in \<open>simp add: Let_def\<close>)
    also have "\<dots> = ends h1" by (simp add: dev_queue_xmit_def ends_def)
    finally show ?thesis using ends_quiet(1) [OF k] by simp
  qed
qed simp

lemma ends_host_query [ends_simps]:
  assumes "omx_peer_host_query ec r h = Some h'"
  shows "ends h' = ends h"
proof -
  obtain x h1 where a: "alloc_skb ETH_ZLEN h = (x, h1)" by (cases "alloc_skb ETH_ZLEN h")
  obtain p where "get_peer r h = Some p" using assms by (auto simp: omx_peer_host_query_def bind_eq_Some_conv)
  then have "ends h' = ends h1"
    using assms a by (cases x) (auto simp: omx_peer_host_query_def dest: ends_host_query_send)
  then show ?thesis using ends_quiet(4) [OF a] by simp
qed

lemma ends_rename [ends_simps]:
  assumes "rename_peer r hostname h = Some (needs, h')"
  shows "ends h' = ends h"
  using assms by (auto simp: rename_peer_def bind_eq_Some_conv ends_simps split: if_splits)

lemma ends_hash_new_peer [ends_simps]:
  assumes "hash_new_peer r b h = Some h'"
  shows "ends h' = ends h"
proof -
  from assms obtain p h1 h2 where "put_peer r p h = Some h1"
      "omx_init_peer_reverse_indexes (unat (of_nat (omx_peer_next_nr h) :: u16)) b h1 = Some h2" "ends h' = ends h2"
    by (auto simp: hash_new_peer_def Let_def bind_eq_Some_conv)
  then show ?thesis by (simp add: ends_simps)
qed

lemma ends_new_peer [ends_simps]: "new_peer a hostname h = Some (r, needs, h') \<Longrightarrow> ends h' = ends h"
  by (auto simp: new_peer_def Let_def bind_eq_Some_conv split: if_splits dest: ends_query)

lemma ends_clear_one: "clear_one False i h = Some h' \<Longrightarrow> ends h' = ends h"
  by (auto simp: clear_one_def Let_def bind_eq_Some_conv ends_simps split: option.splits if_splits)

lemma ends_compact_one: "compact_one i h = Some h' \<Longrightarrow> ends h' = ends h"
  by (auto simp: compact_one_def bind_eq_Some_conv ends_simps split: option.splits if_splits)

lemma ends_peers_clear:
  assumes "omx_peers_clear False h = Some h'"
  shows "ends h' = ends h"
proof -
  from assms obtain h1 h3 where
      1: "foreach (clear_one False) [0..<omx_peer_max h] h = Some h1"
         "foreach compact_one [0..<omx_peer_max h1] (set_full False (h1\<lparr>omx_peer_next_nr := 0\<rparr>)) = Some h3"
         "ends h' = ends h3"
    by (auto simp: omx_peers_clear_def Let_def bind_eq_Some_conv)
  have "ends h3 = ends (set_full False (h1\<lparr>omx_peer_next_nr := 0\<rparr>))"
    by (rule foreach_frame [OF 1(2)]) (rule ends_compact_one)
  moreover have "ends h1 = ends h" by (rule foreach_frame [OF 1(1)]) (rule ends_clear_one)
  ultimately show ?thesis using 1(3) by simp
qed

lemma ends_clear_names:
  assumes "omx_peers_clear_names ec h = Some h'"
  shows "ends h' = ends h"
proof -
  have step: "clear_name ec i a = Some b \<Longrightarrow> ends b = ends a" for i a b
    by (auto simp: clear_name_def bind_eq_Some_conv ends_simps split: option.splits if_splits)
  from assms obtain h1 where h1: "foreach (clear_name ec) [0..<omx_peer_max h] h = Some h1" "ends h' = ends h1"
    by (auto simp: omx_peers_clear_names_def Let_def bind_eq_Some_conv)
  have "ends h1 = ends h" by (rule foreach_frame [OF h1(1)]) (rule step)
  then show ?thesis using h1(2) by simp
qed

lemma ends_query_workfunc:
  assumes "omx_host_query_workfunc ec h = Some h'"
  shows "ends h' = ends h"
proof (cases "omx_host_query_peer_list h = []")
  case True
  then show ?thesis using assms by (auto simp: omx_host_query_workfunc_def Let_def)
next
  case False
  then obtain h1 where h1: "foreach (omx_peer_host_query ec) (omx_host_query_peer_list h) (h\<lparr>omx_host_query_work := False\<rparr>) = Some h1"
      "ends h' = ends h1"
    using assms by (auto simp: omx_host_query_workfunc_def Let_def bind_eq_Some_conv)
  have "ends h1 = ends (h\<lparr>omx_host_query_work := False\<rparr>)" by (rule foreach_frame [OF h1(1)]) (rule ends_host_query)
  then show ?thesis using h1(2) by simp
qed

lemma ends_process_reply:
  assumes "process_host_reply ec f skb h = Some h'"
  shows "ends h' = ends h"
proof (cases "omx_peer_lookup_by_addr_locked (omx_board_addr_from_ethhdr_src (sk_mem skb)) h")
  case None
  then show ?thesis using assms by (simp add: process_host_reply_def)
next
  case (Some r)
  obtain m h1 where k: "kmalloc h = (m, h1)" by (cases "kmalloc h")
  have "ends h' = ends h1"
    using assms Some k
    by (cases m) (auto simp: process_host_reply_def bind_eq_Some_conv ends_simps split: if_splits)
  then show ?thesis using ends_quiet(1) [OF k] by simp
qed

lemma ends_process_query:
  assumes "process_host_query ec f skb h = Some h'"
  shows "ends h' = ends h"
proof (cases "omx_peer_lookup_by_addr_locked (omx_board_addr_from_ethhdr_src (sk_mem skb)) h")
  case None
  then show ?thesis using assms by (auto simp: process_host_query_def bind_eq_Some_conv)
next
  case (Some r)
  then obtain i name p h1 where h1: "iface_store h f = Some i"
      "omx_peer_set_reverse_index p f (OMX_NTOH_16 ec (pkt_head_len + 2) (sk_mem skb)) h = Some h1"
      "(case alloc_skb (ETH_ZLEN + (length name + 1)) h1 of (None, h2) \<Rightarrow> Some h2
        | (Some out, h2) \<Rightarrow> let out1 = out\<lparr>sk_mem := host_reply_packet ec (dev_addr h2 (if_ifp i))
            (ucast (peer_index p)) name skb (sk_mem out)\<rparr> in Some (dev_queue_xmit (if_ifp i) out1 h2)) = Some h'"
    using assms by (auto simp: process_host_query_def bind_eq_Some_conv)
  obtain out h2 where a: "alloc_skb (ETH_ZLEN + (length name + 1)) h1 = (out, h2)"
    by (cases "alloc_skb (ETH_ZLEN + (length name + 1)) h1")
  have "ends h' = ends h2" using h1(3) a by (cases out) (auto simp: dev_queue_xmit_def ends_def Let_def)
  then show ?thesis using ends_quiet(4) [OF a] ends_peer_set_reverse [OF h1(2)] by simp
qed

lemma ends_process_workfunc:
  assumes "omx_process_host_queries_and_replies_workfunc ec h = Some h'"
  shows "ends h' = ends h"
proof -
  from assms obtain h1 where
      h1: "foreach (\<lambda>(f, skb). process_host_reply ec f skb) (omx_host_reply_list h) (h\<lparr>omx_host_reply_list := []\<rparr>) = Some h1"
      "foreach (\<lambda>(f, skb). process_host_query ec f skb) (omx_host_query_list h1) (h1\<lparr>omx_host_query_list := []\<rparr>) = Some h'"
    by (auto simp: omx_process_host_queries_and_replies_workfunc_def bind_eq_Some_conv)
  have "ends h1 = ends (h\<lparr>omx_host_reply_list := []\<rparr>)"
    by (rule foreach_frame [OF h1(1)]) (auto dest: ends_process_reply)
  moreover have "ends h' = ends (h1\<lparr>omx_host_query_list := []\<rparr>)"
    by (rule foreach_frame [OF h1(2)]) (auto dest: ends_process_query)
  ultimately show ?thesis by simp
qed

lemma ends_add_local:
  assumes "table_ok h" "f \<in> attached h" "omx_iface_release f h1 = Some h" "get_peer (Local f) h1 = Some p"
    "get_peer (Local f) h = Some p" "add_local f hostname h1 = Some h'"
  shows "ends h' = ends h"
proof -
  have "peer_index p \<noteq> OMX_UNKNOWN_REVERSE_PEER_INDEX" using attached_entry [OF assms(1,2)] assms(5) by (metis option.inject)
  then show ?thesis
    using assms(3-6) by (auto simp: add_local_def bind_eq_Some_conv ends_simps split: option.splits)
qed

lemma ends_peer_add:
  assumes ok: "table_ok h" and run: "omx_peer_add ec addr hostname h = Some (res, h')"
  shows "ends h' = ends h"
proof -
  obtain b h0 where dup: "kstrdup hostname h = (b, h0)" by (cases "kstrdup hostname h")
  have e0: "ends h0 = ends h" by (rule ends_quiet(3) [OF dup])
  have ok0: "table_ok h0" using table_ok_strip [OF kstrdup_strip [OF dup]] ok by simp
  let ?found = "omx_peer_lookup_by_addr_locked addr h0"
  show ?thesis
  proof (cases "b \<and> \<not> (?found = None \<and> omx_peer_next_nr h0 = omx_peer_max h0)")
    case False
    then show ?thesis using run dup e0 by (cases b) (auto simp: omx_peer_add_def Let_def)
  next
    case True
    obtain iface h1 where find: "omx_iface_find_by_addr addr h0 = Some (iface, h1)"
      using run dup True by (auto simp: omx_peer_add_def Let_def bind_eq_Some_conv)
    let ?make = "find_or_make addr hostname ?found iface h1"
    have go: "\<not> (?found = None \<and> omx_peer_next_nr h0 = omx_peer_max h0)" using True by blast
    have body: "omx_peer_add ec addr hostname h = do {
        res \<leftarrow> ?make;
        case res of
          Inl h2 \<Rightarrow> Some (Inl ENOMEM, h2)
        | Inr (r, needs, h2) \<Rightarrow> do {
            h3 \<leftarrow> (if ?found = None then hash_new_peer r (iface \<noteq> None) h2 else Some h2);
            h4 \<leftarrow> (if needs then omx_peer_host_query ec r h3 else Some h3);
            Some (Inr (), h4) } }"
      unfolding omx_peer_add_def Let_def dup using True find by (simp only: prod.case bool.case if_not_P [OF go] if_False bind.bind_lunit)
    obtain x where x: "?make = Some x" and rest: "(case x of
          Inl h2 \<Rightarrow> Some (Inl ENOMEM, h2)
        | Inr (r, needs, h2) \<Rightarrow> do {
            h3 \<leftarrow> (if ?found = None then hash_new_peer r (iface \<noteq> None) h2 else Some h2);
            h4 \<leftarrow> (if needs then omx_peer_host_query ec r h3 else Some h3);
            Some (Inr (), h4) }) = Some (res, h')"
      using run unfolding body bind_eq_Some_conv by blast
    have main: "?make = Some (Inl h') \<or> (\<exists>r needs h2. ?make = Some (Inr (r, needs, h2)) \<and> ends h' = ends h2)"
    proof (cases x)
      case (Inl h2)
      then show ?thesis using x rest by simp
    next
      case (Inr y)
      obtain r needs h2 where y: "y = (r, needs, h2)" by (cases y)
      obtain h3 where h3: "(if ?found = None then hash_new_peer r (iface \<noteq> None) h2 else Some h2) = Some h3"
          "(if needs then omx_peer_host_query ec r h3 else Some h3) = Some h'"
        using rest Inr y by (auto simp: bind_eq_Some_conv)
      have "ends h3 = ends h2" using h3(1) by (cases "?found = None") (auto dest: ends_hash_new_peer)
      moreover have "ends h' = ends h3" using h3(2) by (cases needs) (auto dest: ends_host_query)
      ultimately show ?thesis using x Inr y by auto
    qed
    show ?thesis
    proof (cases iface)
      case (Some f)
      from find_by_addr [OF ok0, of addr] find Some obtain p where f: "omx_iface_release f h1 = Some h0" "f \<in> attached h0"
          "get_peer (Local f) h0 = Some p" "get_peer (Local f) h1 = Some p"
        by auto
      have "ends h2 = ends h0" if "add_local f hostname h1 = Some h2" for h2
        using ends_add_local [OF ok0 f(2,1,4,3) that] .
      then show ?thesis using main Some e0 by (auto simp: find_or_make_def bind_eq_Some_conv)
    next
      case None
      have h1: "h1 = h0" using find_by_addr [OF ok0, of addr] find None by auto
      show ?thesis
      proof (cases ?found)
        case (Some x)
        then show ?thesis
          using main None h1 e0 by (auto simp: find_or_make_def bind_eq_Some_conv dest!: ends_rename)
      next
        case found: None
        obtain m h4 where k: "kmalloc h1 = (m, h4)" by (cases "kmalloc h1")
        have e4: "ends h4 = ends h" using ends_quiet(1) [OF k] h1 e0 by simp
        show ?thesis
          using main None found k e4
          by (cases m) (auto simp: find_or_make_def bind_eq_Some_conv dest!: ends_new_peer)
      qed
    qed
  qed
qed

end
