(* ===== verification/Endpoint_Steps.thy ===== *)
theory Endpoint_Steps
  imports Endpoint_Frames
begin

text \<open>
  Opening, closing, acquiring and releasing endpoints, on well-formed endpoints. The count of an
  interface follows the endpoints that refer to it: the interface is freed with the last of its
  references, and no earlier.
\<close>

subsection \<open>References\<close>

definition referring :: "host \<Rightarrow> nat \<Rightarrow> nat set" where
  "referring h f = {e. \<exists>ep. endpoint_store h e = Some ep
     \<and> de_status ep \<in> {ENDPOINT_STATUS_OK, ENDPOINT_STATUS_CLOSING} \<and> de_iface ep = Some f}"

lemma endpoint_refs_card: "endpoint_refs h f = card (referring h f)"
  by (simp add: endpoint_refs_def referring_def)

lemma finite_referring: "endpoints_ok h \<Longrightarrow> finite (referring h f)"
  by (rule finite_subset [of _ "{..<next_endpoint h}"]) (auto simp: referring_def endpoints_ok_def endpoint_ok_def)

text \<open>A table under other references, where the interfaces in the array are still there.\<close>

lemma table_ok_refs:
  assumes ok: "table_ok h"
    and same: "omx_peer_array h' = omx_peer_array h" "omx_peer_addr_hash_array h' = omx_peer_addr_hash_array h"
    "omx_peer_next_nr h' = omx_peer_next_nr h" "omx_peer_max h' = omx_peer_max h" "remote_peers h' = remote_peers h"
    "next_remote h' = next_remote h" "omx_host_query_peer_list h' = omx_host_query_peer_list h"
    "omx_host_query_timer h' = omx_host_query_timer h" "omx_host_query_work h' = omx_host_query_work h"
    "omx_ifaces h' = omx_ifaces h" "omx_iface_max h' = omx_iface_max h" "next_iface h' = next_iface h"
    and ifaces: "\<And>f i'. iface_store h' f = Some i' \<Longrightarrow>
      \<exists>i. iface_store h f = Some i \<and> if_peer i' = if_peer i \<and> if_index i' = if_index i"
    and there: "\<And>f. f \<in> attached h \<Longrightarrow> iface_store h' f \<noteq> None"
    and refs: "refs_ok h'"
  shows "table_ok h'"
proof -
  note parts = table_okD [OF ok]
  have get: "get_peer r h' = get_peer r h" if r: "r \<in> tabled h" for r
  proof (cases r)
    case (Remote n)
    then show ?thesis by (simp add: get_peer_def same)
  next
    case (Local f)
    then have "f \<in> attached h" using parts(9) r by (simp add: local_ok_def)
    then obtain i' where i': "iface_store h' f = Some i'" using there by blast
    obtain i where "iface_store h f = Some i" "if_peer i' = if_peer i" using ifaces [OF i'] by blast
    then show ?thesis using i' Local by (simp add: get_peer_def)
  qed
  have "array_ok (omx_peer_max h) h'"
    unfolding array_ok_def same
  proof (intro conjI allI impI)
    fix i r
    assume i: "omx_peer_array h i = Some r"
    show "i < omx_peer_next_nr h \<or> omx_peer_max h \<le> i" "i < omx_peer_max h"
        "\<exists>p. get_peer r h' = Some p \<and> unat (peer_index p) = i \<and> entry_ok r p"
      unfolding get [OF tabledI [OF i]] using parts(2) i unfolding array_ok_def by blast+
  qed (use parts(2) in \<open>simp_all add: array_ok_def\<close>)
  moreover have "hash_ok h'" using parts(3) get unfolding hash_ok_def same by auto
  moreover have "addr_ok h'" using parts(4) get unfolding addr_ok_def same by auto
  moreover have "remote_ok h'" using parts(5) unfolding remote_ok_def same .
  moreover have "query_ok h'" using parts(6) unfolding query_ok_def same .
  moreover have "timer_ok h'" using parts(7) unfolding timer_ok_def same .
  moreover have "iface_ok h'"
    unfolding iface_ok_def same
  proof (intro conjI allI impI)
    fix k f
    assume k: "omx_ifaces h k = Some f"
    have base: "k < omx_iface_max h \<and> map_option if_index (iface_store h f) = Some k" using parts(8) k by (simp add: iface_ok_def)
    then show "k < omx_iface_max h" by simp
    have "f \<in> attached h" using k by (auto simp: ran_def)
    then obtain i' where i': "iface_store h' f = Some i'" using there by blast
    then show "map_option if_index (iface_store h' f) = Some k" using ifaces [OF i'] base by auto
  next
    fix f i'
    assume i': "iface_store h' f = Some i'"
    obtain i where i: "iface_store h f = Some i" "if_peer i' = if_peer i" using ifaces [OF i'] by blast
    show "f < next_iface h" using parts(8) i(1) by (simp add: iface_ok_def)
    show "peer_index (if_peer i') = OMX_UNKNOWN_REVERSE_PEER_INDEX" "local_iface (if_peer i') = None" if "f \<notin> attached h"
      using parts(8) i that by (simp_all add: iface_ok_def)
  qed
  moreover have "local_ok h'" using parts(9) unfolding local_ok_def same .
  ultimately show ?thesis using refs by (simp add: table_ok_def parts_ok_def same)
qed

text \<open>Only an endpoint changes, and refers to what it referred to.\<close>

lemma set_endpoint_fields [simp]:
  "omx_peer_array (set_endpoint e x h) = omx_peer_array h" "omx_peer_addr_hash_array (set_endpoint e x h) = omx_peer_addr_hash_array h"
  "omx_peer_next_nr (set_endpoint e x h) = omx_peer_next_nr h" "omx_peer_max (set_endpoint e x h) = omx_peer_max h"
  "remote_peers (set_endpoint e x h) = remote_peers h" "next_remote (set_endpoint e x h) = next_remote h"
  "omx_host_query_peer_list (set_endpoint e x h) = omx_host_query_peer_list h"
  "omx_host_query_timer (set_endpoint e x h) = omx_host_query_timer h"
  "omx_host_query_work (set_endpoint e x h) = omx_host_query_work h" "omx_ifaces (set_endpoint e x h) = omx_ifaces h"
  "omx_iface_max (set_endpoint e x h) = omx_iface_max h" "next_iface (set_endpoint e x h) = next_iface h"
  "iface_store (set_endpoint e x h) = iface_store h" "next_endpoint (set_endpoint e x h) = next_endpoint h"
  "omx_endpoint_max (set_endpoint e x h) = omx_endpoint_max h" "omx_iface_nr (set_endpoint e x h) = omx_iface_nr h"
  "endpoint_store (set_endpoint e x h) = (endpoint_store h)(e := x)"
  by (simp_all add: set_endpoint_def)

lemma set_iface_fields [simp]:
  "omx_peer_array (set_iface f x h) = omx_peer_array h" "omx_peer_addr_hash_array (set_iface f x h) = omx_peer_addr_hash_array h"
  "omx_peer_next_nr (set_iface f x h) = omx_peer_next_nr h" "omx_peer_max (set_iface f x h) = omx_peer_max h"
  "remote_peers (set_iface f x h) = remote_peers h" "next_remote (set_iface f x h) = next_remote h"
  "omx_host_query_peer_list (set_iface f x h) = omx_host_query_peer_list h"
  "omx_host_query_timer (set_iface f x h) = omx_host_query_timer h"
  "omx_host_query_work (set_iface f x h) = omx_host_query_work h" "omx_ifaces (set_iface f x h) = omx_ifaces h"
  "omx_iface_max (set_iface f x h) = omx_iface_max h" "next_iface (set_iface f x h) = next_iface h"
  "endpoint_store (set_iface f x h) = endpoint_store h" "next_endpoint (set_iface f x h) = next_endpoint h"
  "omx_endpoint_max (set_iface f x h) = omx_endpoint_max h" "omx_iface_nr (set_iface f x h) = omx_iface_nr h"
  "iface_store (set_iface f x h) = (iface_store h)(f := x)"
  by (simp_all add: set_iface_def)

lemma refs_same:
  assumes "refs_ok h" "iface_store h' = iface_store h" "omx_ifaces h' = omx_ifaces h" "omx_peer_array h' = omx_peer_array h"
    "referring h' = referring h"
  shows "refs_ok h'"
proof -
  have "iface_refs h' = iface_refs h" using assms(3-5) by (intro ext) (simp add: iface_refs_def endpoint_refs_card)
  then show ?thesis using assms(1,2) by (simp add: refs_ok_def)
qed

lemma set_endpoint_table:
  assumes "table_ok h" "referring (set_endpoint e x h) = referring h"
  shows "table_ok (set_endpoint e x h)"
  by (rule table_ok_refs [OF assms(1)])
    (use attached_exists [OF table_okD(8) [OF assms(1)]] refs_same [OF table_okD(10) [OF assms(1)] _ _ _ assms(2)] in auto)

lemma endpoint_ok_same:
  assumes "endpoint_ok h e ep" "iface_store h' = iface_store h" "next_endpoint h \<le> next_endpoint h'"
  shows "endpoint_ok h' e ep"
  using assms(1,3) unfolding endpoint_ok_def assms(2) by auto

lemma endpoint_ok_move:
  assumes ok: "endpoint_ok h e ep" and next_same: "next_endpoint h' = next_endpoint h"
    and iface: "\<And>f i. de_iface ep = Some f \<Longrightarrow> iface_store h f = Some i \<Longrightarrow>
      de_status ep \<in> {ENDPOINT_STATUS_OK, ENDPOINT_STATUS_CLOSING} \<Longrightarrow>
      \<exists>i'. iface_store h' f = Some i'
        \<and> (if_endpoints i (de_endpoint_index ep) = Some e \<longrightarrow> if_endpoints i' (de_endpoint_index ep) = Some e)"
  shows "endpoint_ok h' e ep"
proof (cases "de_status ep")
  case ENDPOINT_STATUS_OK
  then obtain f i where "de_iface ep = Some f" "iface_store h f = Some i" "if_endpoints i (de_endpoint_index ep) = Some e"
    using ok by (auto simp: endpoint_ok_def)
  then show ?thesis using iface ok next_same ENDPOINT_STATUS_OK by (fastforce simp: endpoint_ok_def)
next
  case ENDPOINT_STATUS_CLOSING
  then obtain f i where "de_iface ep = Some f" "iface_store h f = Some i" using ok by (auto simp: endpoint_ok_def)
  then show ?thesis using iface ok next_same ENDPOINT_STATUS_CLOSING by (fastforce simp: endpoint_ok_def)
qed (use ok next_same in \<open>auto simp: endpoint_ok_def\<close>)

subsection \<open>An endpoint that changes\<close>

text \<open>The change of an endpoint outside the lists of the interfaces, or under the same status in one.\<close>

lemma set_endpoint_ok:
  assumes ok: "driver_ok h" and e: "endpoint_store h e = Some ep"
    and ep': "endpoint_ok h e ep'"
    and same: "de_status ep' = de_status ep" "de_status ep \<in> {ENDPOINT_STATUS_OK, ENDPOINT_STATUS_CLOSING} \<Longrightarrow> de_iface ep' = de_iface ep"
      "de_status ep = ENDPOINT_STATUS_OK \<Longrightarrow> de_endpoint_index ep' = de_endpoint_index ep"
  shows "driver_ok (set_endpoint e (Some ep') h)"
proof -
  let ?h = "set_endpoint e (Some ep') h"
  have tab: "table_ok h" and ends: "endpoints_ok h" and count: "count_ok h" using ok by (simp_all add: driver_ok_def)
  have "referring ?h = referring h" using e same(1,2) by (auto simp: referring_def fun_eq_iff split: if_splits)
  then have "table_ok ?h" by (rule set_endpoint_table [OF tab])
  moreover have "endpoints_ok ?h"
    unfolding endpoints_ok_def
  proof (intro conjI allI impI)
    fix x y
    assume "endpoint_store ?h x = Some y"
    then have "endpoint_ok h x y" using ep' ends by (auto simp: endpoints_ok_def split: if_splits)
    then show "endpoint_ok ?h x y" by (rule endpoint_ok_same) simp_all
  next
    fix f i
    assume i: "iface_store ?h f = Some i"
    then show "endpoint_nr i = card (dom (if_endpoints i))" using ends by (simp add: endpoints_ok_def)
    show "slot_ok ?h f index x" if "if_endpoints i index = Some x" for index x
    proof -
      have "slot_ok h f index x" using ends i that by (simp add: endpoints_ok_def)
      then show ?thesis using e same by (auto simp: slot_ok_def)
    qed
  qed
  moreover have "count_ok ?h" using count by (simp add: count_ok_def)
  ultimately show ?thesis by (simp add: driver_ok_def)
qed

text \<open>A closed endpoint may change as it likes, or go; and a new one may come.\<close>

lemma set_free_ok:
  assumes ok: "driver_ok h" and e: "\<And>ep. endpoint_store h e = Some ep \<Longrightarrow> de_status ep = ENDPOINT_STATUS_FREE"
    and x: "\<And>ep. x = Some ep \<Longrightarrow> e < next_endpoint h \<and> de_status ep = ENDPOINT_STATUS_FREE \<and> de_refcount ep = 1"
  shows "driver_ok (set_endpoint e x h)"
proof -
  let ?h = "set_endpoint e x h"
  have tab: "table_ok h" and ends: "endpoints_ok h" and count: "count_ok h" using ok by (simp_all add: driver_ok_def)
  have "referring ?h = referring h" using e x by (auto simp: referring_def fun_eq_iff split: if_splits)
  then have "table_ok ?h" by (rule set_endpoint_table [OF tab])
  moreover have "endpoints_ok ?h"
    unfolding endpoints_ok_def
  proof (intro conjI allI impI)
    fix y ep
    assume "endpoint_store ?h y = Some ep"
    then consider "y = e" "x = Some ep" | "endpoint_store h y = Some ep" by (auto split: if_splits)
    then have "endpoint_ok h y ep"
      by cases (use x ends in \<open>auto simp: endpoints_ok_def endpoint_ok_def\<close>)
    then show "endpoint_ok ?h y ep" by (rule endpoint_ok_same) simp_all
  next
    fix f i
    assume i: "iface_store ?h f = Some i"
    then show "endpoint_nr i = card (dom (if_endpoints i))" using ends by (simp add: endpoints_ok_def)
    show "slot_ok ?h f index y" if "if_endpoints i index = Some y" for index y
    proof -
      have "slot_ok h f index y" using ends i that by (simp add: endpoints_ok_def)
      then show ?thesis using e by (auto simp: slot_ok_def)
    qed
  qed
  moreover have "count_ok ?h" using count by (simp add: count_ok_def)
  ultimately show ?thesis by (simp add: driver_ok_def)
qed

lemma driver_ok_strip:
  assumes "strip h' = strip h" "driver_ok h"
  shows "driver_ok h'"
proof (rule driver_ok_ends [OF strip_ends [OF assms(1)] _ assms(2)])
  show "table_ok h'" using table_ok_strip [OF assms(1)] assms(2) by (simp add: driver_ok_def)
qed

lemma next_endpoint_strip: "strip h' = strip h \<Longrightarrow> next_endpoint h' = next_endpoint h"
  using strip_ends endsD(2) by blast

theorem omx_miscdev_open_ok:
  assumes "driver_ok h"
  shows "driver_ok (snd (omx_miscdev_open blank h))"
proof -
  obtain m h1 where k: "kmalloc h = (m, h1)" by (cases "kmalloc h")
  have ok1: "driver_ok h1" using driver_ok_strip [OF kmalloc_strip [OF k] assms] .
  show ?thesis
  proof (cases m)
    case None
    then show ?thesis using k ok1 by (simp add: omx_miscdev_open_def)
  next
    case (Some x)
    let ?e = "next_endpoint h1"
    let ?h2 = "h1\<lparr>next_endpoint := ?e + 1\<rparr>"
    have none: "endpoint_store h1 ?e = None"
      using ok1 by (cases "endpoint_store h1 ?e") (auto simp: driver_ok_def endpoints_ok_def endpoint_ok_def)
    have "referring ?h2 = referring h1" by (simp add: referring_def fun_eq_iff)
    then have refs: "refs_ok ?h2"
      using refs_same [of h1 ?h2] table_okD(10) [of h1] ok1 by (simp add: driver_ok_def)
    have "table_ok ?h2"
      by (rule table_ok_refs [of h1]) (use ok1 refs attached_exists table_okD(8) in \<open>auto simp: driver_ok_def\<close>)
    moreover have "endpoints_ok ?h2"
    proof -
      have "endpoint_ok ?h2 e ep" if "endpoint_store h1 e = Some ep" for e ep
      proof -
        have "endpoint_ok h1 e ep" using ok1 that by (simp add: driver_ok_def endpoints_ok_def)
        then show ?thesis by (rule endpoint_ok_same) simp_all
      qed
      then show ?thesis using ok1 by (simp add: driver_ok_def endpoints_ok_def slot_ok_def)
    qed
    ultimately have ok2: "driver_ok ?h2" using ok1 by (simp add: driver_ok_def count_ok_def)
    have "driver_ok (set_endpoint ?e (Some (blank\<lparr>de_refcount := 1, de_status := ENDPOINT_STATUS_FREE\<rparr>)) ?h2)"
      by (rule set_free_ok [OF ok2]) (use none in auto)
    then show ?thesis using k Some by (simp add: omx_miscdev_open_def)
  qed
qed

subsection \<open>Opening\<close>

lemma card_insert_slot:
  fixes m :: "u8 \<Rightarrow> nat option"
  shows "m k = None \<Longrightarrow> card (dom (m(k \<mapsto> e))) = card (dom m) + 1"
  by (simp add: card_insert_if domIff)

lemma card_remove_slot:
  fixes m :: "u8 \<Rightarrow> nat option"
  assumes "m k = Some e"
  shows "card (dom (m(k := None))) = card (dom m) - 1"
proof -
  have "k \<in> dom m" using assms by auto
  then show ?thesis by (simp add: card_Diff_singleton)
qed

lemma endpoint_enters:
  assumes ok: "driver_ok h" and e: "endpoint_store h e = Some ep" "de_status ep = ENDPOINT_STATUS_FREE"
    and f: "f \<in> attached h" "iface_store h f = Some i" "if_endpoints i index = None" "unat index < omx_endpoint_max h"
    and ep': "de_status ep' = ENDPOINT_STATUS_OK" "de_iface ep' = Some f" "de_endpoint_index ep' = index" "0 < de_refcount ep'"
  shows "driver_ok (set_endpoint e (Some ep') (set_iface f
    (Some (i\<lparr>if_refcount := if_refcount i + 1, if_endpoints := (if_endpoints i)(index \<mapsto> e), endpoint_nr := endpoint_nr i + 1\<rparr>)) h))"
    (is "driver_ok ?h")
proof -
  have tab: "table_ok h" and ends: "endpoints_ok h" and count: "count_ok h" using ok by (simp_all add: driver_ok_def)
  note parts = table_okD [OF tab]
  have e_next: "e < next_endpoint h" using ends e(1) by (auto simp: endpoints_ok_def endpoint_ok_def)
  have notin: "e \<notin> referring h g" for g using e by (simp add: referring_def)
  have ref: "referring ?h g = (if g = f then insert e (referring h g) else referring h g)" for g
    using ep' e by (auto simp: referring_def split: if_splits)
  have refs: "iface_refs ?h g = iface_refs h g + (if g = f then 1 else 0)" for g
    using finite_referring [OF ends, of g] notin
    by (cases "g = f") (simp_all only: iface_refs_def endpoint_refs_card ref, simp_all)
  have "refs_ok ?h"
    using parts(10) f(2) unfolding refs_ok_def refs by auto
  then have "table_ok ?h"
    by (intro table_ok_refs [OF tab]) (use f(2) attached_exists [OF parts(8)] in \<open>auto split: if_splits\<close>)
  moreover have "endpoints_ok ?h"
    unfolding endpoints_ok_def
  proof (intro conjI allI impI)
    fix x y
    assume y: "endpoint_store ?h x = Some y"
    show "endpoint_ok ?h x y"
    proof (cases "x = e")
      case True
      then show ?thesis using y ep' e_next by (simp add: endpoint_ok_def)
    next
      case False
      then have "endpoint_ok h x y" using y ends by (simp add: endpoints_ok_def)
      then show ?thesis by (rule endpoint_ok_move) (use f(2,3) in auto)
    qed
  next
    fix g j
    assume j: "iface_store ?h g = Some j"
    show "endpoint_nr j = card (dom (if_endpoints j))"
      using j ends f(2) card_insert_slot [where m = "if_endpoints i" and k = index, OF f(3)] by (auto simp: endpoints_ok_def split: if_splits)
    show "slot_ok ?h g k x" if k: "if_endpoints j k = Some x" for k x
    proof (cases "g = f \<and> k = index")
      case True
      then have "x = e" using j k by auto
      then show ?thesis using True f ep' by (simp add: slot_ok_def)
    next
      case False
      have "slot_ok h g k x" using ends f(2) j k False by (auto simp: endpoints_ok_def split: if_splits)
      then show ?thesis using e by (auto simp: slot_ok_def)
    qed
  qed
  moreover have "count_ok ?h" using count by (simp add: count_ok_def)
  ultimately show ?thesis by (simp add: driver_ok_def)
qed

lemma set_endpoint_twice [simp]: "set_endpoint e y (set_endpoint e x h) = set_endpoint e y h"
  by (simp add: set_endpoint_def)

lemma kmallocs_set_endpoint: "kmallocs n (set_endpoint e x h) = (fst (kmallocs n h), set_endpoint e x (snd (kmallocs n h)))"
proof (induction n arbitrary: h)
  case (Suc n)
  have "kmalloc (set_endpoint e x h) = (kmem h 0, set_endpoint e x (snd (kmalloc h)))"
    by (simp add: kmalloc_def set_endpoint_def)
  then show ?case using Suc by (cases "kmem h 0") (simp_all add: kmalloc_def)
qed simp

lemma set_endpoint_same_iface:
  "set_iface f y (set_endpoint e x h) = set_endpoint e x (set_iface f y h)"
  by (simp add: set_endpoint_def set_iface_def)

text \<open>The endpoint on its interface, or the state as it was.\<close>

lemma attach_endpoint_run:
  assumes ok: "driver_ok h" and ep: "endpoint_store h e = Some ep0" "de_status ep = ENDPOINT_STATUS_INITIALIZING"
  shows "(\<exists>err. omx_iface_attach_endpoint e (set_endpoint e (Some ep) h) = Some (Inl err, set_endpoint e (Some ep) h))
    \<or> (\<exists>f i. f \<in> attached h \<and> iface_store h f = Some i \<and> if_endpoints i (de_endpoint_index ep) = None
         \<and> unat (de_endpoint_index ep) < omx_endpoint_max h
         \<and> omx_iface_attach_endpoint e (set_endpoint e (Some ep) h)
           = Some (Inr (), set_endpoint e (Some (ep\<lparr>de_iface := Some f, de_status := ENDPOINT_STATUS_OK\<rparr>))
               (set_iface f (Some (i\<lparr>if_refcount := if_refcount i + 1,
                  if_endpoints := (if_endpoints i)(de_endpoint_index ep \<mapsto> e), endpoint_nr := endpoint_nr i + 1\<rparr>)) h)))"
proof -
  let ?h = "set_endpoint e (Some ep) h"
    show ?thesis
  proof (cases "unat (de_endpoint_index ep) \<ge> omx_endpoint_max h \<or> unat (de_board_index ep) \<ge> omx_iface_max h
      \<or> omx_ifaces h (unat (de_board_index ep)) = None")
    case True
    then show ?thesis using ep by (auto simp: omx_iface_attach_endpoint_def)
  next
    case False
    then obtain f where f: "omx_ifaces h (unat (de_board_index ep)) = Some f" by auto
    then have att: "f \<in> attached h" by (auto simp: ran_def)
    have "iface_ok h" using ok by (simp add: driver_ok_def table_ok_def parts_ok_def)
    then obtain i where i: "iface_store h f = Some i" using attached_exists att by blast
    have pos: "0 < if_refcount i" using ok i by (simp add: driver_ok_def table_ok_def parts_ok_def refs_ok_def)
    show ?thesis
    proof (cases "if_status i \<noteq> IFACE_STATUS_OK \<or> if_endpoints i (de_endpoint_index ep) \<noteq> None")
      case True
      have released: "omx_iface_release f (set_iface f (Some (i\<lparr>if_refcount := if_refcount i + 1\<rparr>)) ?h) = Some ?h"
        using pos i by (auto simp: omx_iface_release_def set_iface_def set_endpoint_def fun_upd_idem)
      then show ?thesis using True False f i ep by (auto simp: omx_iface_attach_endpoint_def omx_iface_reacquire_def)
    next
      case idle: False
      then show ?thesis using False f i ep att
        by (intro disjI2 exI [of _ f] exI [of _ i])
          (simp add: omx_iface_attach_endpoint_def omx_iface_reacquire_def update_endpoint_def set_endpoint_same_iface
            set_iface_def set_endpoint_def)
    qed
  qed
qed

theorem omx_endpoint_open_ok:
  assumes ok: "driver_ok h" and e: "endpoint_store h e = Some ep"
  shows "\<exists>res h'. omx_endpoint_open session exp0 unexp0 regions0 flags uparam e h = Some (res, h') \<and> driver_ok h'"
proof (cases "uparam = None \<or> de_status ep \<noteq> ENDPOINT_STATUS_FREE")
  case True
  then show ?thesis using ok e by (cases uparam) (auto simp: omx_endpoint_open_def)
next
  case False
  then obtain b x where up: "uparam = Some (b, x)" and free: "de_status ep = ENDPOINT_STATUS_FREE" by auto
  have one: "de_refcount ep = 1" and e_next: "e < next_endpoint h"
  proof -
    have "endpoint_ok h e ep" using ok e by (simp add: driver_ok_def endpoints_ok_def)
    then show "de_refcount ep = 1" "e < next_endpoint h" using free by (simp_all add: endpoint_ok_def)
  qed
  obtain m h1 where k: "kmallocs 7 h = (m, h1)" by (cases "kmallocs 7 h")
  have s1: "strip h1 = strip h" by (rule kmallocs_strip [OF k])
  have ok1: "driver_ok h1" by (rule driver_ok_strip [OF s1 ok])
  have e1: "endpoint_store h1 e = Some ep" using strip_eqD(10) [OF s1] e by simp
  have freed: "driver_ok (set_endpoint e (Some y) h1)" if "de_status y = ENDPOINT_STATUS_FREE" "de_refcount y = 1" for y
    by (rule set_free_ok [OF ok1]) (use e1 free that e_next next_endpoint_strip [OF s1] in auto)
  define ep1 where "ep1 = ep\<lparr>de_status := ENDPOINT_STATUS_INITIALIZING, de_session_id := session\<rparr>"
  define ep2 where "ep2 = ep1\<lparr>de_userdesc := 0, de_sendq := (\<lambda>_. 0), de_recvq := (\<lambda>_. 0), de_exp := exp0, de_unexp := unexp0,
      de_regions := regions0\<rparr>"
  define ep3 where "ep3 = ep2\<lparr>de_board_index := b, de_endpoint_index := x\<rparr>"
  have alloc: "omx_endpoint_alloc_resources session exp0 unexp0 regions0 e (set_endpoint e (Some (ep\<lparr>de_status := ENDPOINT_STATUS_INITIALIZING\<rparr>)) h)
      = Some (if m then (Inr (), set_endpoint e (Some ep2) h1) else (Inl ENOMEM, set_endpoint e (Some ep1) h1))"
    using k by (cases m)
      (simp_all add: omx_endpoint_alloc_resources_def update_endpoint_def kmallocs_set_endpoint ep1_def ep2_def)
  show ?thesis
  proof (cases m)
    case False
    then show ?thesis using up e free alloc freed [of "ep1\<lparr>de_status := ENDPOINT_STATUS_FREE\<rparr>"] one
      by (simp add: omx_endpoint_open_def update_endpoint_def) (simp add: ep1_def)
  next
    case True
    have init: "de_status ep3 = ENDPOINT_STATUS_INITIALIZING" by (simp add: ep3_def ep2_def ep1_def)
    from attach_endpoint_run [OF ok1 e1 init] show ?thesis
    proof
      assume "\<exists>err. omx_iface_attach_endpoint e (set_endpoint e (Some ep3) h1) = Some (Inl err, set_endpoint e (Some ep3) h1)"
      then obtain err where err: "omx_iface_attach_endpoint e (set_endpoint e (Some ep3) h1) = Some (Inl err, set_endpoint e (Some ep3) h1)"
        by blast
      then show ?thesis using up e free alloc True freed [of "ep3\<lparr>de_status := ENDPOINT_STATUS_FREE\<rparr>"] one
        by (simp add: omx_endpoint_open_def update_endpoint_def ep3_def [symmetric]) (simp add: ep3_def ep2_def ep1_def)
    next
      assume "\<exists>f i. f \<in> attached h1 \<and> iface_store h1 f = Some i \<and> if_endpoints i (de_endpoint_index ep3) = None
         \<and> unat (de_endpoint_index ep3) < omx_endpoint_max h1
         \<and> omx_iface_attach_endpoint e (set_endpoint e (Some ep3) h1)
           = Some (Inr (), set_endpoint e (Some (ep3\<lparr>de_iface := Some f, de_status := ENDPOINT_STATUS_OK\<rparr>))
               (set_iface f (Some (i\<lparr>if_refcount := if_refcount i + 1,
                  if_endpoints := (if_endpoints i)(de_endpoint_index ep3 \<mapsto> e), endpoint_nr := endpoint_nr i + 1\<rparr>)) h1))"
      then obtain f i where f: "f \<in> attached h1" "iface_store h1 f = Some i" "if_endpoints i (de_endpoint_index ep3) = None"
         "unat (de_endpoint_index ep3) < omx_endpoint_max h1"
         "omx_iface_attach_endpoint e (set_endpoint e (Some ep3) h1)
           = Some (Inr (), set_endpoint e (Some (ep3\<lparr>de_iface := Some f, de_status := ENDPOINT_STATUS_OK\<rparr>))
               (set_iface f (Some (i\<lparr>if_refcount := if_refcount i + 1,
                  if_endpoints := (if_endpoints i)(de_endpoint_index ep3 \<mapsto> e), endpoint_nr := endpoint_nr i + 1\<rparr>)) h1))"
        by blast
      let ?ep = "ep3\<lparr>de_iface := Some f, de_status := ENDPOINT_STATUS_OK, de_userdesc := de_userdesc ep3 OR flags\<rparr>"
      have "driver_ok (set_endpoint e (Some ?ep) (set_iface f (Some (i\<lparr>if_refcount := if_refcount i + 1,
          if_endpoints := (if_endpoints i)(de_endpoint_index ep3 \<mapsto> e), endpoint_nr := endpoint_nr i + 1\<rparr>)) h1))"
        by (rule endpoint_enters [OF ok1 e1 free f(1-4)]) (use one in \<open>simp_all add: ep3_def ep2_def ep1_def\<close>)
      then show ?thesis using up e free alloc True f(5)
        by (simp add: omx_endpoint_open_def update_endpoint_def ep3_def [symmetric])
    qed
  qed
qed

subsection \<open>Closing\<close>

text \<open>An open endpoint that leaves its interface, and keeps its reference.\<close>

lemma endpoint_closing:
  assumes ok: "driver_ok h" and e: "endpoint_store h e = Some ep" "de_status ep = ENDPOINT_STATUS_OK"
    and f: "de_iface ep = Some f" "iface_store h f = Some i"
  shows "driver_ok (set_endpoint e (Some (ep\<lparr>de_status := ENDPOINT_STATUS_CLOSING\<rparr>)) (set_iface f
    (Some (i\<lparr>if_endpoints := (if_endpoints i)(de_endpoint_index ep := None), endpoint_nr := endpoint_nr i - 1\<rparr>)) h))"
    (is "driver_ok ?h")
proof -
  have tab: "table_ok h" and ends: "endpoints_ok h" and count: "count_ok h" using ok by (simp_all add: driver_ok_def)
  note parts = table_okD [OF tab]
  have eok: "endpoint_ok h e ep" using ends e(1) by (simp add: endpoints_ok_def)
  have slot: "if_endpoints i (de_endpoint_index ep) = Some e" using eok e(2) f by (simp add: endpoint_ok_def)
  have ref: "referring ?h = referring h" using e by (auto simp: referring_def fun_eq_iff split: if_splits)
  have "iface_refs ?h = iface_refs h" by (rule ext) (simp only: iface_refs_def endpoint_refs_card ref, simp)
  then have "refs_ok ?h" using parts(10) f(2) unfolding refs_ok_def by auto
  then have "table_ok ?h"
    by (intro table_ok_refs [OF tab]) (use f(2) attached_exists [OF parts(8)] in \<open>auto split: if_splits\<close>)
  moreover have "endpoints_ok ?h"
    unfolding endpoints_ok_def
  proof (intro conjI allI impI)
    fix x y
    assume y: "endpoint_store ?h x = Some y"
    show "endpoint_ok ?h x y"
    proof (cases "x = e")
      case True
      then show ?thesis using y eok f by (auto simp: endpoint_ok_def)
    next
      case False
      then have "endpoint_ok h x y" using y ends by (simp add: endpoints_ok_def)
      then show ?thesis by (rule endpoint_ok_move) (use f(2) slot False in auto)
    qed
  next
    fix g j
    assume j: "iface_store ?h g = Some j"
    show "endpoint_nr j = card (dom (if_endpoints j))"
      using j ends f(2) card_remove_slot [where m = "if_endpoints i" and k = "de_endpoint_index ep", OF slot]
      by (auto simp: endpoints_ok_def split: if_splits)
    show "slot_ok ?h g k x" if k: "if_endpoints j k = Some x" for k x
    proof -
      have old: "slot_ok h g k x" using ends f(2) j k by (auto simp: endpoints_ok_def split: if_splits)
      have "x \<noteq> e"
      proof
        assume "x = e"
        then have "g = f" "k = de_endpoint_index ep" using old e(1) f(1) by (auto simp: slot_ok_def)
        then show False using j k by auto
      qed
      then show ?thesis using old by (auto simp: slot_ok_def)
    qed
  qed
  moreover have "count_ok ?h" using count by (simp add: count_ok_def)
  ultimately show ?thesis by (simp add: driver_ok_def)
qed

text \<open>The last reference of an endpoint that is being closed.\<close>

lemma endpoint_freed:
  assumes ok: "driver_ok h" and e: "endpoint_store h e = Some ep" "de_status ep = ENDPOINT_STATUS_CLOSING"
    and f: "de_iface ep = Some f" "iface_store h f = Some i"
  shows "\<exists>h1. omx_iface_release f h = Some h1 \<and> driver_ok (set_endpoint e None h1)"
proof -
  have tab: "table_ok h" and ends: "endpoints_ok h" and count: "count_ok h" using ok by (simp_all add: driver_ok_def)
  note parts = table_okD [OF tab]
  have pos: "if_refcount i = iface_refs h f" "0 < iface_refs h f" using parts(10) f(2) by (simp_all add: refs_ok_def)
  let ?x = "if if_refcount i = 1 then None else Some (i\<lparr>if_refcount := if_refcount i - 1\<rparr>)"
  let ?h = "set_endpoint e None (set_iface f ?x h)"
  have run: "omx_iface_release f h = Some (set_iface f ?x h)" using f(2) pos by (simp add: omx_iface_release_def)
  have mem: "e \<in> referring h f" using e f(1) by (simp add: referring_def)
  have ref: "referring ?h g = (if g = f then referring h g - {e} else referring h g)" for g
    using e f(1) by (auto simp: referring_def split: if_splits)
  have cardf: "card (referring h f - {e}) + 1 = card (referring h f)"
    using mem finite_referring [OF ends, of f] by (simp add: card_Diff_singleton card_gt_0_iff) (metis Suc_pred card_gt_0_iff empty_iff)
  have refs: "iface_refs ?h g + (if g = f then 1 else 0) = iface_refs h g" for g
    using cardf by (cases "g = f") (simp_all only: iface_refs_def endpoint_refs_card ref, simp_all)
  have other: "iface_store ?h g = (if g = f then ?x else iface_store h g)" for g by simp
  have "refs_ok ?h"
    unfolding refs_ok_def
  proof (intro allI impI)
    fix g j
    assume j: "iface_store ?h g = Some j"
    show "if_refcount j = iface_refs ?h g \<and> 0 < iface_refs ?h g"
    proof (cases "g = f")
      case True
      then have "if_refcount i \<noteq> 1" "if_refcount j = if_refcount i - 1" using j by (auto split: if_splits)
      then show ?thesis using refs [of f] pos True by simp
    next
      case False
      then have "iface_store h g = Some j" using j by simp
      then show ?thesis using parts(10) refs [of g] False by (simp add: refs_ok_def)
    qed
  qed
  moreover have there: "?x \<noteq> None" if "f \<in> attached h"
  proof -
    have "Local f \<in> tabled h" using parts(9) that by (simp add: local_ok_def)
    then have "2 \<le> iface_refs h f" using that by (simp add: iface_refs_def)
    then show ?thesis using pos by simp
  qed
  ultimately have "table_ok ?h"
    by (intro table_ok_refs [OF tab]) (use f(2) attached_exists [OF parts(8)] in \<open>auto split: if_splits\<close>)
  moreover have "endpoints_ok ?h"
    unfolding endpoints_ok_def
  proof (intro conjI allI impI)
    fix x y
    assume y: "endpoint_store ?h x = Some y"
    then have xy: "x \<noteq> e" "endpoint_store h x = Some y" by (auto split: if_splits)
    then have old: "endpoint_ok h x y" using ends by (simp add: endpoints_ok_def)
    have "iface_store ?h f \<noteq> None" if "x \<in> referring h f"
    proof -
      have "x \<in> referring ?h f" using that xy ref by simp
      then have "0 < card (referring ?h f)" using finite_referring [OF ends, of f] ref [of f] by (auto simp: card_gt_0_iff)
      then have "0 < iface_refs ?h f" by (simp add: iface_refs_def endpoint_refs_card)
      then show ?thesis using refs [of f] pos other [of f] by simp
    qed
    note alive = this
    show "endpoint_ok ?h x y"
    proof (rule endpoint_ok_move [OF old])
      fix g j
      assume g: "de_iface y = Some g" "iface_store h g = Some j" "de_status y \<in> {ENDPOINT_STATUS_OK, ENDPOINT_STATUS_CLOSING}"
      show "\<exists>i'. iface_store ?h g = Some i'
          \<and> (if_endpoints j (de_endpoint_index y) = Some x \<longrightarrow> if_endpoints i' (de_endpoint_index y) = Some x)"
      proof (cases "g = f")
        case True
        then have "x \<in> referring h f" using g xy(2) by (auto simp: referring_def)
        then show ?thesis using alive g(2) f(2) True by (auto split: if_splits)
      next
        case False
        then show ?thesis using g(2) by simp
      qed
    qed simp
  next
    fix g j
    assume j: "iface_store ?h g = Some j"
    then obtain j' where j': "iface_store h g = Some j'" "if_endpoints j' = if_endpoints j" "endpoint_nr j' = endpoint_nr j"
      using f(2) by (auto split: if_splits)
    show "endpoint_nr j = card (dom (if_endpoints j))" using ends j' by (auto simp: endpoints_ok_def)
    show "slot_ok ?h g k x" if k: "if_endpoints j k = Some x" for k x
    proof -
      have "slot_ok h g k x" using ends j' k by (auto simp: endpoints_ok_def)
      then show ?thesis using e by (auto simp: slot_ok_def)
    qed
  qed
  moreover have "count_ok ?h" using count by (simp add: count_ok_def)
  ultimately show ?thesis using run by (auto simp: driver_ok_def)
qed

text \<open>A reference may be given back by who holds one besides that of the open file.\<close>

theorem omx_endpoint_release_ok:
  assumes ok: "driver_ok h" and e: "endpoint_store h e = Some ep"
    and held: "de_status ep = ENDPOINT_STATUS_CLOSING \<or> 1 < de_refcount ep"
  shows "\<exists>h'. omx_endpoint_release e h = Some h' \<and> driver_ok h'"
proof (cases "de_refcount ep = 1")
  case True
  then have closing: "de_status ep = ENDPOINT_STATUS_CLOSING" using held by simp
  have "endpoint_ok h e ep" using ok e by (simp add: driver_ok_def endpoints_ok_def)
  then obtain f i where f: "de_iface ep = Some f" "iface_store h f = Some i" using closing by (auto simp: endpoint_ok_def)
  obtain h1 where "omx_iface_release f h = Some h1" "driver_ok (set_endpoint e None h1)"
    using endpoint_freed [OF ok e closing f] by blast
  then show ?thesis using e f(1) True by (simp add: omx_endpoint_release_def)
next
  case False
  have eok: "endpoint_ok h e ep" using ok e by (simp add: driver_ok_def endpoints_ok_def)
  then have pos: "1 < de_refcount ep" using False by (simp add: endpoint_ok_def)
  let ?ep = "ep\<lparr>de_refcount := de_refcount ep - 1\<rparr>"
  have "endpoint_ok h e ?ep" using eok pos by (cases "de_status ep") (auto simp: endpoint_ok_def)
  then have "driver_ok (set_endpoint e (Some ?ep) h)" by (intro set_endpoint_ok [OF ok e]) simp_all
  then show ?thesis using e pos by (simp add: omx_endpoint_release_def)
qed

lemma close_open_endpoint:
  assumes ok: "driver_ok h" and e: "endpoint_store h e = Some ep" "de_status ep = ENDPOINT_STATUS_OK"
    and f: "de_iface ep = Some f" "iface_store h f = Some i"
  shows "\<exists>h'. omx_endpoint_close e h = Some (Inr (), h') \<and> driver_ok h' \<and> omx_ifaces h' = omx_ifaces h
    \<and> omx_endpoint_max h' = omx_endpoint_max h
    \<and> (\<forall>i'. iface_store h' f = Some i' \<longrightarrow> if_endpoints i' = (if_endpoints i)(de_endpoint_index ep := None))"
proof -
  have "endpoint_ok h e ep" using ok e by (simp add: driver_ok_def endpoints_ok_def)
  then have slot: "if_endpoints i (de_endpoint_index ep) = Some e" using e(2) f by (simp add: endpoint_ok_def)
  let ?i = "i\<lparr>if_endpoints := (if_endpoints i)(de_endpoint_index ep := None), endpoint_nr := endpoint_nr i - 1\<rparr>"
  let ?h2 = "set_endpoint e (Some (ep\<lparr>de_status := ENDPOINT_STATUS_CLOSING\<rparr>)) (set_iface f (Some ?i) h)"
  have ok2: "driver_ok ?h2" by (rule endpoint_closing [OF ok e f])
  obtain h3 where h3: "omx_endpoint_release e ?h2 = Some h3" "driver_ok h3"
    using omx_endpoint_release_ok [OF ok2, of e "ep\<lparr>de_status := ENDPOINT_STATUS_CLOSING\<rparr>"] by auto
  have frame: "omx_ifaces h3 = omx_ifaces h" "omx_endpoint_max h3 = omx_endpoint_max h"
    using h3(1) by (auto simp: omx_endpoint_release_def omx_iface_release_def bind_eq_Some_conv split: if_splits)
  have "if_endpoints i' = (if_endpoints i)(de_endpoint_index ep := None)" if "iface_store h3 f = Some i'" for i'
    using h3(1) f(1) that by (auto simp: omx_endpoint_release_def omx_iface_release_def bind_eq_Some_conv split: if_splits)
  then show ?thesis using e f slot h3 frame
    by (simp add: omx_endpoint_close_def update_endpoint_def omx_iface_detach_endpoint_def set_endpoint_same_iface)
qed

theorem omx_endpoint_close_ok:
  assumes ok: "driver_ok h" and e: "endpoint_store h e = Some ep"
  shows "\<exists>res h'. omx_endpoint_close e h = Some (res, h') \<and> driver_ok h'"
proof (cases "de_status ep")
  case ENDPOINT_STATUS_FREE
  then show ?thesis using e set_free_ok [OF ok, of e None] by (simp add: omx_endpoint_close_def)
next
  case ENDPOINT_STATUS_OK
  have "endpoint_ok h e ep" using ok e by (simp add: driver_ok_def endpoints_ok_def)
  then obtain f i where "de_iface ep = Some f" "iface_store h f = Some i"
    using ENDPOINT_STATUS_OK by (auto simp: endpoint_ok_def)
  then show ?thesis using close_open_endpoint [OF ok e ENDPOINT_STATUS_OK] by blast
qed (use e ok in \<open>auto simp: omx_endpoint_close_def\<close>)

lemma omx_endpoint_reacquire_ok:
  assumes ok: "driver_ok h" and e: "endpoint_store h e = Some ep" "de_status ep \<noteq> ENDPOINT_STATUS_FREE"
  shows "\<exists>h'. omx_endpoint_reacquire e h = Some h' \<and> driver_ok h'"
proof -
  let ?ep = "ep\<lparr>de_refcount := de_refcount ep + 1\<rparr>"
  have "endpoint_ok h e ep" using ok e by (simp add: driver_ok_def endpoints_ok_def)
  then have "endpoint_ok h e ?ep" using e(2) by (cases "de_status ep") (auto simp: endpoint_ok_def)
  then have "driver_ok (set_endpoint e (Some ?ep) h)" by (intro set_endpoint_ok [OF ok e(1)]) simp_all
  then show ?thesis using e by (simp add: omx_endpoint_reacquire_def)
qed

end
