(* ===== verification/Interface_Steps.thy ===== *)
theory Interface_Steps
  imports Endpoint_Steps
begin

text \<open>
  Attaching and detaching interfaces, on a well-formed driver.
\<close>

subsection \<open>An interface that enters\<close>

text \<open>
  The state \<open>w\<close> is \<open>h\<close> with a new interface in the array and in the table, there in a new entry or in
  that of a remote peer of the same address: \<open>R\<close> is the set of peers that leave.
\<close>

definition enters :: "host \<Rightarrow> host \<Rightarrow> nat \<Rightarrow> nat \<Rightarrow> nat \<Rightarrow> omx_peer \<Rightarrow> omx_iface \<Rightarrow> peer_ref set \<Rightarrow> bool" where
  "enters h w f j k q iw R \<longleftrightarrow> driver_ok h
    \<and> (iface_store h f = None \<and> f = next_iface h \<and> next_iface w = next_iface h + 1)
    \<and> (\<forall>i r. omx_peer_array w i = Some r \<longleftrightarrow> i = j \<and> r = Local f \<or> i \<noteq> j \<and> omx_peer_array h i = Some r)
    \<and> (\<forall>r. omx_peer_array h j = Some r \<longleftrightarrow> r \<in> R) \<and> (\<forall>r. r \<in> R \<longrightarrow> (\<exists>n. r = Remote n))
    \<and> (j < omx_peer_next_nr w \<and> omx_peer_next_nr h \<le> omx_peer_next_nr w \<and> omx_peer_next_nr w \<le> omx_peer_max h)
    \<and> (omx_peer_max w = omx_peer_max h \<and> omx_iface_max w = omx_iface_max h \<and> next_remote w = next_remote h
      \<and> omx_host_query_work w = omx_host_query_work h \<and> endpoint_store w = endpoint_store h
      \<and> next_endpoint w = next_endpoint h \<and> omx_endpoint_max w = omx_endpoint_max h)
    \<and> (unat (peer_index q) = j \<and> local_iface q = Some f \<and> peer_hostname q \<noteq> None)
    \<and> (\<forall>s x. s \<in> tabled h \<longrightarrow> s \<notin> R \<longrightarrow> get_peer s h = Some x \<longrightarrow> board_addr x \<noteq> board_addr q)
    \<and> (\<forall>b. distinct (omx_peer_addr_hash_array w b)) \<and> (\<forall>b r. r \<in> set (omx_peer_addr_hash_array w b) \<longleftrightarrow>
        r = Local f \<and> b = omx_peer_addr_hash (board_addr q) \<or> r \<notin> R \<and> r \<in> set (omx_peer_addr_hash_array h b))
    \<and> (\<forall>n. remote_peers w n = (if Remote n \<in> R then None else remote_peers h n))
    \<and> omx_host_query_peer_list w = filter (\<lambda>r. r \<notin> R) (omx_host_query_peer_list h)
    \<and> (omx_host_query_timer w \<longleftrightarrow> omx_host_query_peer_list w \<noteq> [] \<and> omx_host_query_timer h)
    \<and> (omx_ifaces w = (omx_ifaces h)(k \<mapsto> f) \<and> omx_ifaces h k = None \<and> k < omx_iface_max h
      \<and> omx_iface_nr w = omx_iface_nr h + 1)
    \<and> (\<forall>g. iface_store w g = (if g = f then Some iw else iface_store h g))
    \<and> (if_peer iw = q \<and> if_index iw = k \<and> if_refcount iw = 2 \<and> if_endpoints iw = (\<lambda>_. None) \<and> endpoint_nr iw = 0)"

lemma entersD:
  assumes "enters h w f j k q iw R"
  shows enters_ok: "driver_ok h"
    and enters_fresh: "iface_store h f = None" "f = next_iface h" "next_iface w = next_iface h + 1"
    and enters_array: "\<And>i r. omx_peer_array w i = Some r \<longleftrightarrow> i = j \<and> r = Local f \<or> i \<noteq> j \<and> omx_peer_array h i = Some r"
    and enters_slot: "\<And>r. omx_peer_array h j = Some r \<longleftrightarrow> r \<in> R"
    and enters_remote: "\<And>r. r \<in> R \<Longrightarrow> \<exists>n. r = Remote n"
    and enters_nr: "j < omx_peer_next_nr w" "omx_peer_next_nr h \<le> omx_peer_next_nr w" "omx_peer_next_nr w \<le> omx_peer_max h"
    and enters_same: "omx_peer_max w = omx_peer_max h" "omx_iface_max w = omx_iface_max h" "next_remote w = next_remote h"
      "omx_host_query_work w = omx_host_query_work h" "endpoint_store w = endpoint_store h"
      "next_endpoint w = next_endpoint h" "omx_endpoint_max w = omx_endpoint_max h"
    and enters_q: "unat (peer_index q) = j" "local_iface q = Some f" "peer_hostname q \<noteq> None"
    and enters_new: "\<And>s x. s \<in> tabled h \<Longrightarrow> s \<notin> R \<Longrightarrow> get_peer s h = Some x \<Longrightarrow> board_addr x \<noteq> board_addr q"
    and enters_hash: "\<And>b. distinct (omx_peer_addr_hash_array w b)"
      "\<And>b r. r \<in> set (omx_peer_addr_hash_array w b) \<longleftrightarrow>
        r = Local f \<and> b = omx_peer_addr_hash (board_addr q) \<or> r \<notin> R \<and> r \<in> set (omx_peer_addr_hash_array h b)"
    and enters_peers: "\<And>n. remote_peers w n = (if Remote n \<in> R then None else remote_peers h n)"
    and enters_query: "omx_host_query_peer_list w = filter (\<lambda>r. r \<notin> R) (omx_host_query_peer_list h)"
      "omx_host_query_timer w \<longleftrightarrow> omx_host_query_peer_list w \<noteq> [] \<and> omx_host_query_timer h"
    and enters_ifaces: "omx_ifaces w = (omx_ifaces h)(k \<mapsto> f)" "omx_ifaces h k = None" "k < omx_iface_max h"
      "omx_iface_nr w = omx_iface_nr h + 1"
      "\<And>g. iface_store w g = (if g = f then Some iw else iface_store h g)"
    and enters_iw: "if_peer iw = q" "if_index iw = k" "if_refcount iw = 2" "if_endpoints iw = (\<lambda>_. None)" "endpoint_nr iw = 0"
  using assms unfolding enters_def by blast+

lemma enters_f_out:
  assumes E: "enters h w f j k q iw R"
  shows "Local f \<notin> tabled h" "f \<notin> attached h"
  supply ok = enters_ok [OF E] and fresh = enters_fresh [OF E]
proof -
  note parts = table_okD [of h]
  have "iface_ok h" "local_ok h" using ok by (simp_all add: driver_ok_def table_ok_def parts_ok_def)
  then show "f \<notin> attached h" using fresh(1) attached_exists by force
  then show "Local f \<notin> tabled h" using \<open>local_ok h\<close> by (simp add: local_ok_def)
qed

lemma enters_parts:
  assumes E: "enters h w f j k q iw R"
  shows "array_ok (omx_peer_max h) h" "hash_ok h" "addr_ok h" "remote_ok h" "query_ok h" "timer_ok h" "iface_ok h"
    "local_ok h" "refs_ok h" "endpoints_ok h" "count_ok h"
  supply ok = enters_ok [OF E]
  using ok by (simp_all add: driver_ok_def table_ok_def parts_ok_def)

lemma enters_R_tabled:
  assumes E: "enters h w f j k q iw R"
  shows "r \<in> R \<Longrightarrow> r \<in> tabled h"
  supply slot = enters_slot [OF E]
  using slot by (auto simp: ran_def)

lemma enters_R_slot:
  assumes E: "enters h w f j k q iw R"
  shows "omx_peer_array h i = Some r \<Longrightarrow> r \<in> R \<Longrightarrow> i = j"
  supply slot = enters_slot [OF E] and parts = enters_parts [OF E]
  using array_inj [OF parts(1)] slot by blast

lemma enters_tabled_w:
  assumes E: "enters h w f j k q iw R"
  shows "tabled w = insert (Local f) (tabled h - R)"
  supply array = enters_array [OF E] and slot = enters_slot [OF E] and R_slot = enters_R_slot [OF E]
proof (rule set_eqI)
  fix r
  have "(\<exists>i. omx_peer_array w i = Some r) \<longleftrightarrow> r = Local f \<or> (\<exists>i. i \<noteq> j \<and> omx_peer_array h i = Some r)"
    using array by blast
  also have "\<dots> \<longleftrightarrow> r = Local f \<or> r \<notin> R \<and> (\<exists>i. omx_peer_array h i = Some r)"
  proof -
    have "(\<exists>i. i \<noteq> j \<and> omx_peer_array h i = Some r) \<longleftrightarrow> r \<notin> R \<and> (\<exists>i. omx_peer_array h i = Some r)"
    proof
      assume "\<exists>i. i \<noteq> j \<and> omx_peer_array h i = Some r"
      then obtain i where "i \<noteq> j" "omx_peer_array h i = Some r" by (elim exE conjE)
      then show "r \<notin> R \<and> (\<exists>i. omx_peer_array h i = Some r)" using R_slot by metis
    next
      assume a: "r \<notin> R \<and> (\<exists>i. omx_peer_array h i = Some r)"
      then obtain i where "omx_peer_array h i = Some r" by (elim exE conjE)
      moreover have "i \<noteq> j" using calculation a slot by metis
      ultimately show "\<exists>i. i \<noteq> j \<and> omx_peer_array h i = Some r" by (intro exI conjI)
    qed
    then show ?thesis by simp
  qed
  finally show "r \<in> tabled w \<longleftrightarrow> r \<in> insert (Local f) (tabled h - R)" by (auto simp: ran_def)
qed

lemma enters_get_w:
  assumes E: "enters h w f j k q iw R"
  shows "get_peer r w = (if r = Local f then Some q else if r \<in> R then None else get_peer r h)"
  supply remote = enters_remote [OF E] and peers = enters_peers [OF E] and ifaces = enters_ifaces [OF E] and iw = enters_iw [OF E]
proof (cases r)
  case (Remote n)
  then show ?thesis using peers by (simp add: get_peer_def)
next
  case (Local g)
  moreover have "Local g \<notin> R" using remote by blast
  ultimately show ?thesis using ifaces(5) iw(1) by (simp add: get_peer_def)
qed

lemma enters_attached_w:
  assumes E: "enters h w f j k q iw R"
  shows "attached w = insert f (attached h)"
  supply ifaces = enters_ifaces [OF E]
  unfolding ifaces(1) by (rule ran_map_upd) (rule ifaces(2))

lemma enters_array_w:
  assumes E: "enters h w f j k q iw R"
  shows "array_ok (omx_peer_max w) w"
  supply array = enters_array [OF E] and nr = enters_nr [OF E] and same = enters_same [OF E] and q = enters_q [OF E] and f_out = enters_f_out [OF E] and parts = enters_parts [OF E] and R_slot = enters_R_slot [OF E] and get_w = enters_get_w [OF E]
  unfolding array_ok_def same
proof (intro conjI allI impI)
  fix i r
  assume "omx_peer_array w i = Some r"
  then consider "i = j" "r = Local f" | "i \<noteq> j" "omx_peer_array h i = Some r" using array by blast
  then have "i < omx_peer_next_nr w \<and> i < omx_peer_max h \<and> (\<exists>p. get_peer r w = Some p \<and> unat (peer_index p) = i \<and> entry_ok r p)"
  proof cases
    case 1
    then show ?thesis using nr q by (simp add: get_w)
  next
    case 2
    obtain p where p: "get_peer r h = Some p" "unat (peer_index p) = i" "entry_ok r p" "i < omx_peer_max h"
      using parts(1) 2(2) by (rule array_entry)
    have "(i < omx_peer_next_nr h \<or> omx_peer_max h \<le> i)" using parts(1) 2(2) unfolding array_ok_def by blast
    then have "i < omx_peer_next_nr w" using p(4) nr(2) by linarith
    moreover have "r \<noteq> Local f" using f_out(1) tabledI [OF 2(2)] by blast
    moreover have "r \<notin> R" using R_slot 2 by blast
    ultimately show ?thesis using p by (simp add: get_w)
  qed
  then show "i < omx_peer_next_nr w \<or> omx_peer_max h \<le> i" "i < omx_peer_max h"
      "\<exists>p. get_peer r w = Some p \<and> unat (peer_index p) = i \<and> entry_ok r p"
    by blast+
qed (use parts(1) nr(3) in \<open>simp_all add: array_ok_def\<close>)

lemma enters_hash_w:
  assumes E: "enters h w f j k q iw R"
  shows "hash_ok w"
  supply hash = enters_hash [OF E] and f_out = enters_f_out [OF E] and parts = enters_parts [OF E] and tabled_w = enters_tabled_w [OF E] and get_w = enters_get_w [OF E]
  unfolding hash_ok_def tabled_w
proof (intro allI conjI)
  fix b r
  show "distinct (omx_peer_addr_hash_array w b)" by (rule hash(1))
  have old: "r \<in> set (omx_peer_addr_hash_array h b) \<longleftrightarrow> r \<in> tabled h \<and> (\<exists>p. get_peer r h = Some p \<and> omx_peer_addr_hash (board_addr p) = b)"
    using parts(2) unfolding hash_ok_def by blast
  show "r \<in> set (omx_peer_addr_hash_array w b) \<longleftrightarrow>
      r \<in> insert (Local f) (tabled h - R) \<and> (\<exists>p. get_peer r w = Some p \<and> omx_peer_addr_hash (board_addr p) = b)"
  proof (cases "r = Local f")
    case True
    have "Local f \<notin> set (omx_peer_addr_hash_array h b)" using parts(2) f_out(1) by (simp add: hash_ok_def)
    then show ?thesis unfolding hash(2) get_w using True by auto
  next
    case False
    then show ?thesis unfolding hash(2) get_w old by (cases "r \<in> R") simp_all
  qed
qed

lemma enters_addr_w:
  assumes E: "enters h w f j k q iw R"
  shows "addr_ok w"
  supply new = enters_new [OF E] and parts = enters_parts [OF E] and tabled_w = enters_tabled_w [OF E] and get_w = enters_get_w [OF E]
  unfolding addr_ok_def tabled_w
proof (intro allI impI)
  fix s t x y
  assume a: "s \<in> insert (Local f) (tabled h - R)" "t \<in> insert (Local f) (tabled h - R)" "get_peer s w = Some x"
    "get_peer t w = Some y" "board_addr x = board_addr y"
  have old: "s \<noteq> Local f \<Longrightarrow> s \<in> tabled h \<and> s \<notin> R \<and> get_peer s h = Some x" using a(1,3) by (simp add: get_w)
  have old': "t \<noteq> Local f \<Longrightarrow> t \<in> tabled h \<and> t \<notin> R \<and> get_peer t h = Some y" using a(2,4) by (simp add: get_w)
  show "s = t"
  proof (cases "s = Local f"; cases "t = Local f")
    assume "s = Local f" "t \<noteq> Local f"
    then show ?thesis using a(3,5) old' new [of t y] by (auto simp: get_w)
  next
    assume "s \<noteq> Local f" "t = Local f"
    then show ?thesis using a(4,5) old new [of s x] by (auto simp: get_w)
  next
    assume "s \<noteq> Local f" "t \<noteq> Local f"
    then show ?thesis using old old' a(5) parts(3) unfolding addr_ok_def by blast
  qed simp
qed

lemma enters_query_w:
  assumes E: "enters h w f j k q iw R"
  shows "remote_ok w" "query_ok w" "timer_ok w"
  supply same = enters_same [OF E] and peers = enters_peers [OF E] and query = enters_query [OF E] and parts = enters_parts [OF E] and tabled_w = enters_tabled_w [OF E]
proof -
  show "remote_ok w"
    unfolding remote_ok_def tabled_w
  proof (intro allI)
    fix n
    have "(remote_peers h n \<noteq> None \<longleftrightarrow> Remote n \<in> tabled h) \<and> (remote_peers h n \<noteq> None \<longrightarrow> n < next_remote h)"
      using parts(4) unfolding remote_ok_def by blast
    then show "(remote_peers w n \<noteq> None \<longleftrightarrow> Remote n \<in> insert (Local f) (tabled h - R)) \<and> (remote_peers w n \<noteq> None \<longrightarrow> n < next_remote w)"
      unfolding peers same by (cases "Remote n \<in> R") simp_all
  qed
  show "query_ok w"
    unfolding query_ok_def query(1) peers using parts(5) by (auto simp: query_ok_def split: if_splits)
  have "omx_host_query_peer_list w \<noteq> [] \<Longrightarrow> omx_host_query_peer_list h \<noteq> []" unfolding query(1) by auto
  then show "timer_ok w" using parts(6) query(2) same by (auto simp: timer_ok_def)
qed

lemma enters_no_refs:
  assumes E: "enters h w f j k q iw R"
  shows "referring w f = {}" "referring w = referring h"
  supply fresh = enters_fresh [OF E] and same = enters_same [OF E] and parts = enters_parts [OF E]
proof -
  show eq: "referring w = referring h" by (simp add: referring_def same fun_eq_iff)
  have "endpoint_ok h e ep" if "endpoint_store h e = Some ep" for e ep using parts(10) that by (simp add: endpoints_ok_def)
  then show "referring w f = {}" unfolding eq using fresh(1) by (fastforce simp: referring_def endpoint_ok_def)
qed

lemma enters_refs_w:
  assumes E: "enters h w f j k q iw R"
  shows "refs_ok w"
  supply remote = enters_remote [OF E] and ifaces = enters_ifaces [OF E] and iw = enters_iw [OF E] and parts = enters_parts [OF E] and tabled_w = enters_tabled_w [OF E] and attached_w = enters_attached_w [OF E] and no_refs = enters_no_refs [OF E]
  unfolding refs_ok_def
proof (intro allI impI)
  fix g i
  assume i: "iface_store w g = Some i"
  show "if_refcount i = iface_refs w g \<and> 0 < iface_refs w g"
  proof (cases "g = f")
    case True
    have "i = iw" using i ifaces(5) True by simp
    then show ?thesis using no_refs(1) iw(3) True by (simp add: iface_refs_def endpoint_refs_card attached_w tabled_w)
  next
    case False
    have "Local g \<notin> R" using remote by blast
    then have "iface_refs w g = iface_refs h g"
      using False no_refs(2) by (simp add: iface_refs_def endpoint_refs_card attached_w tabled_w)
    moreover have "iface_store h g = Some i" using i ifaces(5) False by simp
    ultimately show ?thesis using parts(9) by (simp add: refs_ok_def)
  qed
qed

lemma enters_iface_w:
  assumes E: "enters h w f j k q iw R"
  shows "iface_ok w" "local_ok w"
  supply fresh = enters_fresh [OF E] and remote = enters_remote [OF E] and same = enters_same [OF E] and ifaces = enters_ifaces [OF E] and iw = enters_iw [OF E] and f_out = enters_f_out [OF E] and parts = enters_parts [OF E] and tabled_w = enters_tabled_w [OF E] and attached_w = enters_attached_w [OF E]
proof -
  show "local_ok w" using parts(8) remote by (auto simp: local_ok_def attached_w tabled_w)
  show "iface_ok w"
    unfolding iface_ok_def
  proof (intro conjI allI impI)
    fix l g
    assume l: "omx_ifaces w l = Some g"
    show "l < omx_iface_max w"
      using l ifaces(1,3) parts(7) same(2) by (cases "l = k") (simp_all add: iface_ok_def)
    show "map_option if_index (iface_store w g) = Some l"
    proof (cases "l = k")
      case True
      then show ?thesis using l ifaces(1,5) iw(2) by simp
    next
      case False
      then have "omx_ifaces h l = Some g" using l ifaces(1) by simp
      moreover have "g \<noteq> f" using calculation f_out(2) by (auto simp: ran_def)
      ultimately show ?thesis using parts(7) ifaces(5) by (simp add: iface_ok_def)
    qed
  next
    fix g i
    assume i: "iface_store w g = Some i"
    have old: "g \<noteq> f \<Longrightarrow> iface_store h g = Some i" using i ifaces(5) by simp
    show "g < next_iface w" using old parts(7) fresh by (cases "g = f") (auto simp: iface_ok_def less_Suc_eq)
    show "peer_index (if_peer i) = OMX_UNKNOWN_REVERSE_PEER_INDEX" "local_iface (if_peer i) = None" if "g \<notin> attached w"
      using that old parts(7) by (simp_all add: iface_ok_def attached_w)
  qed
qed

lemma enters_endpoints_w:
  assumes E: "enters h w f j k q iw R"
  shows "endpoints_ok w" "count_ok w"
  supply fresh = enters_fresh [OF E] and same = enters_same [OF E] and ifaces = enters_ifaces [OF E] and iw = enters_iw [OF E] and parts = enters_parts [OF E] and attached_w = enters_attached_w [OF E]
proof -
  show "endpoints_ok w"
    unfolding endpoints_ok_def same
  proof (intro conjI allI impI)
    fix e ep
    assume "endpoint_store h e = Some ep"
    then have "endpoint_ok h e ep" using parts(10) by (simp add: endpoints_ok_def)
    then show "endpoint_ok w e ep"
    proof (rule endpoint_ok_move)
      fix g i
      assume g: "iface_store h g = Some i"
      then have "g \<noteq> f" using fresh(1) by auto
      then show "\<exists>i'. iface_store w g = Some i'
          \<and> (if_endpoints i (de_endpoint_index ep) = Some e \<longrightarrow> if_endpoints i' (de_endpoint_index ep) = Some e)"
        using g ifaces(5) by simp
    qed (simp add: same)
  next
    fix g i
    assume i: "iface_store w g = Some i"
    have old: "g \<noteq> f \<Longrightarrow> iface_store h g = Some i" using i ifaces(5) by simp
    have fi: "g = f \<Longrightarrow> i = iw" using i ifaces(5) by simp
    show "endpoint_nr i = card (dom (if_endpoints i))"
      using old fi parts(10) iw(4,5) by (cases "g = f") (simp_all add: endpoints_ok_def)
    show "slot_ok w g index e" if e: "if_endpoints i index = Some e" for index e
    proof -
      have "g \<noteq> f" using fi e iw(4) by auto
      then have "slot_ok h g index e" using old parts(10) e by (simp add: endpoints_ok_def)
      then show ?thesis by (simp add: slot_ok_def same attached_w)
    qed
  qed
  have fin: "finite (dom (omx_ifaces h))"
    by (rule finite_subset [of _ "{..<omx_iface_max h}"]) (use parts(7) in \<open>auto simp: iface_ok_def\<close>)
  have "k \<notin> dom (omx_ifaces h)" using ifaces(2) by auto
  then show "count_ok w" using parts(11) fin by (simp add: count_ok_def ifaces(1,4))
qed

lemma enters_entered:
  assumes E: "enters h w f j k q iw R"
  shows "driver_ok w"
  supply array_w = enters_array_w [OF E] and hash_w = enters_hash_w [OF E] and addr_w = enters_addr_w [OF E] and query_w = enters_query_w [OF E] and refs_w = enters_refs_w [OF E] and iface_w = enters_iface_w [OF E] and endpoints_w = enters_endpoints_w [OF E]
  using array_w hash_w addr_w query_w iface_w refs_w endpoints_w by (simp add: driver_ok_def table_ok_def parts_ok_def)

end
