(* ===== verification/Interface_Attach.thy ===== *)
theory Interface_Attach
  imports Interface_Steps
begin

text \<open>
  Attaching an interface: whatever memory the kernel has, the call comes back and leaves a well-formed
  driver, the new interface being in the array and the table or nowhere.
\<close>

subsection \<open>The state with the interface in it\<close>

definition placed :: "nat \<Rightarrow> omx_iface \<Rightarrow> (nat \<Rightarrow> nat option) \<Rightarrow> nat \<Rightarrow> (u8 \<Rightarrow> peer_ref list) \<Rightarrow> (nat \<Rightarrow> peer_ref option)
    \<Rightarrow> nat \<Rightarrow> peer_ref list \<Rightarrow> bool \<Rightarrow> (nat \<Rightarrow> omx_peer option) \<Rightarrow> host \<Rightarrow> host" where
  "placed f x M c H A n Q t P h = h\<lparr>iface_store := (iface_store h)(f \<mapsto> x), omx_ifaces := M, omx_iface_nr := c,
     omx_peer_addr_hash_array := H, omx_peer_array := A, omx_peer_next_nr := n, omx_host_query_peer_list := Q,
     omx_host_query_timer := t, remote_peers := P\<rparr>"

lemma placed_fields [simp]:
  "iface_store (placed f x M c H A n Q t P h) = (iface_store h)(f \<mapsto> x)" "omx_ifaces (placed f x M c H A n Q t P h) = M"
  "omx_iface_nr (placed f x M c H A n Q t P h) = c" "omx_peer_addr_hash_array (placed f x M c H A n Q t P h) = H"
  "omx_peer_array (placed f x M c H A n Q t P h) = A" "omx_peer_next_nr (placed f x M c H A n Q t P h) = n"
  "omx_host_query_peer_list (placed f x M c H A n Q t P h) = Q" "omx_host_query_timer (placed f x M c H A n Q t P h) = t"
  "remote_peers (placed f x M c H A n Q t P h) = P" "omx_peer_max (placed f x M c H A n Q t P h) = omx_peer_max h"
  "omx_iface_max (placed f x M c H A n Q t P h) = omx_iface_max h" "next_remote (placed f x M c H A n Q t P h) = next_remote h"
  "omx_host_query_work (placed f x M c H A n Q t P h) = omx_host_query_work h"
  "endpoint_store (placed f x M c H A n Q t P h) = endpoint_store h"
  "next_endpoint (placed f x M c H A n Q t P h) = next_endpoint h"
  "omx_endpoint_max (placed f x M c H A n Q t P h) = omx_endpoint_max h"
  "next_iface (placed f x M c H A n Q t P h) = next_iface h"
  by (simp_all add: placed_def)

lemma placed_set_iface [simp]: "placed f x M c H A n Q t P (set_iface f y h) = placed f x M c H A n Q t P h"
  by (simp add: placed_def set_iface_def)

abbreviation same_iface :: "omx_iface \<Rightarrow> omx_iface \<Rightarrow> bool" where
  "same_iface x y \<equiv> x\<lparr>reverse_peer_indexes := (\<lambda>_. 0)\<rparr> = y\<lparr>reverse_peer_indexes := (\<lambda>_. 0)\<rparr>"

lemma placed_strip:
  assumes "strip g = strip h" "same_iface x y"
  shows "strip (placed f x M c H A n Q t P g) = strip (placed f y M c H A n Q t P h)"
proof -
  have "strip (placed f z M c H A n Q t P k) = placed f (z\<lparr>reverse_peer_indexes := (\<lambda>_. 0)\<rparr>) M c H A n Q t P (strip k)" for z k
    by (simp add: strip_def placed_def fun_eq_iff)
  then show ?thesis using assms by simp
qed

lemma same_iface_fields:
  assumes "same_iface x y"
  shows "if_peer x = if_peer y" "if_index x = if_index y" "if_refcount x = if_refcount y"
    "if_endpoints x = if_endpoints y" "endpoint_nr x = endpoint_nr y" "if_ifp x = if_ifp y" "if_status x = if_status y"
  using assms by (cases x; cases y; simp)+

lemma strip_iface:
  assumes "strip g = strip h" "iface_store h f = Some y"
  obtains x where "iface_store g f = Some x" "same_iface x y"
proof -
  have "iface_store (strip g) f = iface_store (strip h) f" using assms(1) by simp
  then show thesis using assms(2) that by (auto simp: iface_store_strip)
qed

lemma same_iface_upd:
  assumes "same_iface x y"
  shows "same_iface (x\<lparr>if_refcount := k\<rparr>) (y\<lparr>if_refcount := k\<rparr>)" "same_iface (x\<lparr>if_peer := p\<rparr>) (y\<lparr>if_peer := p\<rparr>)"
    "same_iface (x\<lparr>if_index := k\<rparr>) (y\<lparr>if_index := k\<rparr>)"
  using assms by (cases x; cases y; simp)+

subsection \<open>The table of peers\<close>

lemma attach_new:
  assumes f: "iface_store h f = Some x" "if_peer x = p" and none: "omx_peer_lookup_by_addr_locked (board_addr p) h = None"
    and room: "omx_peer_next_nr h < omx_peer_max h" "omx_peer_max h \<le> OMX_PEER_INDEX_MAX"
    and ifaces: "\<forall>g\<in>set (attached_ifaces h).
      g \<noteq> f \<and> (\<exists>gi. iface_store h g = Some gi \<and> unat (peer_index (if_peer gi)) < omx_peer_max h)"
  shows "\<exists>g y z. omx_peers_notify_iface_attach f h = Some (Inr (), placed f y (omx_ifaces h) (omx_iface_nr h)
      ((omx_peer_addr_hash_array h)(omx_peer_addr_hash (board_addr p) :=
          omx_peer_addr_hash_array h (omx_peer_addr_hash (board_addr p)) @ [Local f]))
      ((omx_peer_array h)(omx_peer_next_nr h \<mapsto> Local f)) (omx_peer_next_nr h + 1) (omx_host_query_peer_list h)
      (omx_host_query_timer h) (remote_peers h) g)
    \<and> strip g = strip (set_iface f z h)
    \<and> same_iface y (x\<lparr>if_peer := p\<lparr>local_iface := Some f, peer_index := of_nat (omx_peer_next_nr h)\<rparr>, if_refcount := if_refcount x + 1\<rparr>)"
proof -
  let ?n = "omx_peer_next_nr h" and ?b = "omx_peer_addr_hash (board_addr p)"
  define y1 where "y1 = x\<lparr>if_peer := p\<lparr>local_iface := Some f, peer_index := of_nat (omx_peer_next_nr h)\<rparr>\<rparr>"
  define h1 where "h1 = set_iface f (Some y1) h"
  have small: "unat (of_nat ?n :: u32) = ?n"
    using room by (simp add: OMX_PEER_INDEX_MAX_def unsigned_of_nat take_bit_nat_eq_self)
  have r1: "iface_peer f (\<lambda>p. p\<lparr>local_iface := Some f, peer_index := of_nat ?n\<rparr>) h = Some h1"
    using f by (simp add: iface_peer_def get_peer_def put_peer_def h1_def y1_def)
  have f1: "iface_store h1 f = Some y1" by (simp add: h1_def)
  obtain h2 where h2: "omx_init_iface_reverse_indexes f h1 = Some h2" "strip h2 = strip h1"
  proof (rule init_iface_reverse_quiet [OF f1])
    show "unat (peer_index (if_peer y1)) < omx_peer_max h1" using small room by (simp add: y1_def h1_def)
    show "omx_peer_max h1 \<le> OMX_PEER_INDEX_MAX" using room by (simp add: h1_def)
    have "attached_ifaces h1 = attached_ifaces h" by (simp add: attached_ifaces_def h1_def)
    then show "\<exists>gi. iface_store h1 g = Some gi \<and> unat (peer_index (if_peer gi)) < omx_peer_max h1"
      if "g \<in> set (attached_ifaces h1)" for g
      using bspec [OF ifaces, of g] that by (simp add: h1_def)
  qed
  obtain y2 where y2: "iface_store h2 f = Some y2" "same_iface y2 y1" using strip_iface [OF h2(2) f1] by blast
  define y where "y = y2\<lparr>if_refcount := if_refcount y2 + 1\<rparr>"
  have r3: "omx_iface_reacquire f h2 = Some (set_iface f (Some y) h2)" by (simp add: omx_iface_reacquire_def y2 y_def)
  have eq: "omx_ifaces h2 = omx_ifaces h" "omx_iface_nr h2 = omx_iface_nr h" "omx_peer_addr_hash_array h2 = omx_peer_addr_hash_array h"
    "omx_peer_array h2 = omx_peer_array h" "omx_host_query_peer_list h2 = omx_host_query_peer_list h"
    "omx_host_query_timer h2 = omx_host_query_timer h" "remote_peers h2 = remote_peers h"
    using strip_eqD [OF h2(2)] by (simp_all add: h1_def)
  have final: "set_slot ?n (Some (Local f)) (set_hash ?b (omx_peer_addr_hash_array (set_iface f (Some y) h2) ?b @ [Local f])
        (set_iface f (Some y) h2))\<lparr>omx_peer_next_nr := ?n + 1\<rparr>
      = placed f y (omx_ifaces h) (omx_iface_nr h)
          ((omx_peer_addr_hash_array h)(?b := omx_peer_addr_hash_array h ?b @ [Local f]))
          ((omx_peer_array h)(?n \<mapsto> Local f)) (?n + 1) (omx_host_query_peer_list h) (omx_host_query_timer h) (remote_peers h) h2"
    by (rule host.equality) (simp_all add: placed_def set_slot_def set_hash_def set_iface_def eq)
  have "omx_peers_notify_iface_attach f h = Some (Inr (), set_slot ?n (Some (Local f)) (set_hash ?b
      (omx_peer_addr_hash_array (set_iface f (Some y) h2) ?b @ [Local f]) (set_iface f (Some y) h2))\<lparr>omx_peer_next_nr := ?n + 1\<rparr>)"
    using none room f r1 h2(1) r3 by (simp add: omx_peers_notify_iface_attach_def get_peer_def Let_def)
  moreover have "if_refcount y2 = if_refcount x" using same_iface_fields(3) [OF y2(2)] by (simp add: y1_def)
  then have "same_iface y (x\<lparr>if_peer := p\<lparr>local_iface := Some f, peer_index := of_nat ?n\<rparr>, if_refcount := if_refcount x + 1\<rparr>)"
    using same_iface_upd(1) [OF y2(2)] by (simp add: y_def y1_def)
  ultimately show ?thesis using h2(2) unfolding final h1_def by blast
qed

lemma attach_replace:
  assumes f: "iface_store h f = Some x" "if_peer x = p" "local_iface p = None"
    and some: "omx_peer_lookup_by_addr_locked (board_addr p) h = Some (Remote n)"
    and old: "remote_peers h n = Some q" "unat (peer_index q) < omx_peer_max h" "omx_peer_max h \<le> OMX_PEER_INDEX_MAX"
      "board_addr q = board_addr p" "peer_hostname q = None \<Longrightarrow> Remote n \<in> set (omx_host_query_peer_list h)"
    and ifaces: "\<forall>g\<in>set (attached_ifaces h).
      g \<noteq> f \<and> (\<exists>gi. iface_store h g = Some gi \<and> unat (peer_index (if_peer gi)) < omx_peer_max h)"
  defines "Q \<equiv> if peer_hostname q = None then remove1 (Remote n) (omx_host_query_peer_list h) else omx_host_query_peer_list h"
  shows "\<exists>g y z. omx_peers_notify_iface_attach f h = Some (Inr (), placed f y (omx_ifaces h) (omx_iface_nr h)
      ((omx_peer_addr_hash_array h)(omx_peer_addr_hash (board_addr p) := map (\<lambda>r. if r = Remote n then Local f else r)
          (omx_peer_addr_hash_array h (omx_peer_addr_hash (board_addr p)))))
      ((omx_peer_array h)(unat (peer_index q) \<mapsto> Local f)) (omx_peer_next_nr h) Q
      (if peer_hostname q = None then Q \<noteq> [] \<and> omx_host_query_timer h else omx_host_query_timer h)
      ((remote_peers h)(n := None)) g)
    \<and> strip g = strip (set_iface f z h)
    \<and> same_iface y (x\<lparr>if_peer := p\<lparr>local_iface := Some f, peer_index := peer_index q,
          peer_hostname := (if peer_hostname q = None then peer_hostname p else peer_hostname q)\<rparr>, if_refcount := if_refcount x + 1\<rparr>)"
proof -
  let ?b = "omx_peer_addr_hash (board_addr p)" and ?j = "unat (peer_index q)"
  define y1 where "y1 = x\<lparr>if_refcount := if_refcount x + 1, if_peer := p\<lparr>peer_index := peer_index q\<rparr>\<rparr>"
  define h1 where "h1 = set_iface f (Some y1) h"
  have f1: "iface_store h1 f = Some y1" by (simp add: h1_def)
  obtain h2 where h2: "omx_init_iface_reverse_indexes f h1 = Some h2" "strip h2 = strip h1"
  proof (rule init_iface_reverse_quiet [OF f1])
    show "unat (peer_index (if_peer y1)) < omx_peer_max h1" using old by (simp add: y1_def h1_def)
    show "omx_peer_max h1 \<le> OMX_PEER_INDEX_MAX" using old by (simp add: h1_def)
    have "attached_ifaces h1 = attached_ifaces h" by (simp add: attached_ifaces_def h1_def)
    then show "\<exists>gi. iface_store h1 g = Some gi \<and> unat (peer_index (if_peer gi)) < omx_peer_max h1"
      if "g \<in> set (attached_ifaces h1)" for g
      using bspec [OF ifaces, of g] that by (simp add: h1_def)
  qed
  obtain y2 where y2: "iface_store h2 f = Some y2" "same_iface y2 y1" using strip_iface [OF h2(2) f1] by blast
  have py: "if_peer y2 = p\<lparr>peer_index := peer_index q\<rparr>" "if_refcount y2 = if_refcount x + 1"
    using same_iface_fields(1,3) [OF y2(2)] by (simp_all add: y1_def)
  define y where "y = y2\<lparr>if_peer := p\<lparr>local_iface := Some f, peer_index := peer_index q,
      peer_hostname := (if peer_hostname q = None then peer_hostname p else peer_hostname q)\<rparr>\<rparr>"
  have eq: "omx_ifaces h2 = omx_ifaces h" "omx_iface_nr h2 = omx_iface_nr h" "omx_peer_addr_hash_array h2 = omx_peer_addr_hash_array h"
    "omx_peer_array h2 = omx_peer_array h" "omx_host_query_peer_list h2 = omx_host_query_peer_list h"
    "omx_host_query_timer h2 = omx_host_query_timer h" "remote_peers h2 = remote_peers h"
    "omx_peer_next_nr h2 = omx_peer_next_nr h" "omx_peer_max h2 = omx_peer_max h"
    using strip_eqD [OF h2(2)] by (simp_all add: h1_def)
  define w where "w = placed f y (omx_ifaces h) (omx_iface_nr h)
      ((omx_peer_addr_hash_array h)(?b := map (\<lambda>r. if r = Remote n then Local f else r) (omx_peer_addr_hash_array h ?b)))
      ((omx_peer_array h)(?j \<mapsto> Local f)) (omx_peer_next_nr h) Q
      (if peer_hostname q = None then Q \<noteq> [] \<and> omx_host_query_timer h else omx_host_query_timer h)
      ((remote_peers h)(n := None)) h2"
  have reacquire: "omx_iface_reacquire f h = Some (set_iface f (Some (x\<lparr>if_refcount := if_refcount x + 1\<rparr>)) h)"
    using f by (simp add: omx_iface_reacquire_def)
  have indexed: "iface_peer f (\<lambda>p. p\<lparr>peer_index := peer_index q\<rparr>) (set_iface f (Some (x\<lparr>if_refcount := if_refcount x + 1\<rparr>)) h) = Some h1"
    using f by (simp add: iface_peer_def get_peer_def put_peer_def h1_def y1_def set_iface_def)
  define h4 where "h4 = set_iface f (Some (y2\<lparr>if_peer := p\<lparr>peer_index := peer_index q, local_iface := Some f\<rparr>\<rparr>)) h2"
  have localized: "iface_peer f (\<lambda>p. p\<lparr>local_iface := Some f\<rparr>) h2 = Some h4"
    using y2(1) py by (simp add: iface_peer_def get_peer_def put_peer_def h4_def)
  have swap: "p\<lparr>peer_index := i, local_iface := l, peer_hostname := s\<rparr> = p\<lparr>local_iface := l, peer_index := i, peer_hostname := s\<rparr>"
      "p\<lparr>peer_index := i, local_iface := l\<rparr> = p\<lparr>local_iface := l, peer_index := i\<rparr>" for i l s
    by (cases p; simp)+
  have run: "omx_peers_notify_iface_attach f h = Some (Inr (), w)"
  proof (cases "peer_hostname q")
    case None
    have w: "w = set_slot ?j (Some (Local f)) (set_hash ?b (map (\<lambda>r. if r = Remote n then Local f else r) (omx_peer_addr_hash_array h ?b))
        (h4\<lparr>omx_host_query_peer_list := Q, omx_host_query_timer := Q \<noteq> [] \<and> omx_host_query_timer h\<rparr>))\<lparr>remote_peers := (remote_peers h)(n := None)\<rparr>"
      by (rule host.equality) (use None py in \<open>simp_all add: w_def placed_def set_slot_def set_hash_def h4_def set_iface_def eq y_def swap\<close>)
    have del: "host_query_del (Remote n) h4 = Some (h4\<lparr>omx_host_query_peer_list := Q, omx_host_query_timer := Q \<noteq> [] \<and> omx_host_query_timer h\<rparr>)"
      using old(5) None by (simp add: host_query_del_def h4_def eq Q_def Let_def)
    have "replace_peer f (Remote n) h = Some w"
      unfolding replace_peer_def w using f old(1-4) reacquire indexed h2(1) localized del None
      by (simp add: get_peer_def kfree_peer_def Let_def eq h4_def)
    then show ?thesis using f some by (simp add: omx_peers_notify_iface_attach_def get_peer_def)
  next
    case (Some name)
    let ?h5 = "set_iface f (Some y) h2"
    have w: "w = set_slot ?j (Some (Local f)) (set_hash ?b (map (\<lambda>r. if r = Remote n then Local f else r) (omx_peer_addr_hash_array h ?b))
        ?h5)\<lparr>remote_peers := (remote_peers h)(n := None)\<rparr>"
      by (rule host.equality) (use Some py in \<open>simp_all add: w_def placed_def set_slot_def set_hash_def set_iface_def eq Q_def\<close>)
    have named: "iface_peer f (\<lambda>p. p\<lparr>peer_hostname := Some name\<rparr>) h4 = Some ?h5"
      using Some by (simp add: iface_peer_def get_peer_def put_peer_def h4_def y_def set_iface_def swap)
    have "replace_peer f (Remote n) h = Some w"
      unfolding replace_peer_def w using f old(1-4) reacquire indexed h2(1) localized named Some
      by (simp add: get_peer_def kfree_peer_def Let_def eq)
    then show ?thesis using f some by (simp add: omx_peers_notify_iface_attach_def get_peer_def)
  qed
  moreover have "same_iface y (x\<lparr>if_peer := p\<lparr>local_iface := Some f, peer_index := peer_index q,
      peer_hostname := (if peer_hostname q = None then peer_hostname p else peer_hostname q)\<rparr>, if_refcount := if_refcount x + 1\<rparr>)"
    using same_iface_upd(2) [OF y2(2)] by (simp add: y_def y1_def)
  ultimately show ?thesis using h2(2) unfolding w_def h1_def by blast
qed

subsection \<open>Attaching\<close>

text \<open>A new interface is in no array; the lookup and the interfaces of the array are those without it.\<close>

lemma lookup_set_iface:
  assumes ok: "hash_ok h" "Local f \<notin> tabled h"
  shows "omx_peer_lookup_by_addr_locked a (set_iface f x (h\<lparr>next_iface := n\<rparr>)) = omx_peer_lookup_by_addr_locked a h"
proof -
  have "get_peer r (set_iface f x (h\<lparr>next_iface := n\<rparr>)) = get_peer r h"
    if "r \<in> set (omx_peer_addr_hash_array h b)" for r b
  proof -
    have "r \<in> tabled h" using that ok(1) by (simp add: hash_ok_def)
    then have "r \<noteq> Local f" using ok(2) by auto
    then show ?thesis by (auto simp: get_peer_def set_iface_def split: peer_ref.splits)
  qed
  then show ?thesis by (auto simp: omx_peer_lookup_by_addr_locked_def intro!: find_cong)
qed

lemma next_iface_ok:
  assumes "driver_ok h" "next_iface h \<le> n"
  shows "driver_ok (h\<lparr>next_iface := n\<rparr>)"
proof -
  let ?h = "h\<lparr>next_iface := n\<rparr>"
  have parts: "parts_ok (omx_peer_max h) h" using assms(1) by (simp add: driver_ok_def table_ok_def)
  have get: "get_peer r ?h = get_peer r h" for r by (simp add: get_peer_def split: peer_ref.splits)
  have refs: "iface_refs ?h = iface_refs h" by (simp add: iface_refs_def endpoint_refs_def fun_eq_iff)
  have "array_ok k ?h = array_ok k h" "hash_ok ?h = hash_ok h" "addr_ok ?h = addr_ok h" "remote_ok ?h = remote_ok h"
      "query_ok ?h = query_ok h" "timer_ok ?h = timer_ok h" "local_ok ?h = local_ok h" "refs_ok ?h = refs_ok h" for k
    by (simp_all add: array_ok_def hash_ok_def addr_ok_def remote_ok_def query_ok_def timer_ok_def local_ok_def refs_ok_def get refs)
  moreover have "iface_ok ?h"
    using parts_okD(7) [OF parts] assms(2) by (simp add: iface_ok_def) (meson less_le_trans)
  ultimately have "parts_ok (omx_peer_max ?h) ?h" using parts by (simp add: parts_ok_def)
  moreover have "endpoints_ok ?h"
    using assms(1) by (auto simp: driver_ok_def endpoints_ok_def endpoint_ok_def slot_ok_def split: omx_endpoint_status.splits)
  ultimately show ?thesis using assms(1) by (simp add: driver_ok_def table_ok_def count_ok_def)
qed

lemma free_slot:
  assumes "driver_ok h" "omx_iface_nr h \<noteq> omx_iface_max h"
  obtains k where "find (\<lambda>i. omx_ifaces h i = None) [0..<omx_iface_max h] = Some k" "k < omx_iface_max h" "omx_ifaces h k = None"
proof (cases "find (\<lambda>i. omx_ifaces h i = None) [0..<omx_iface_max h]")
  case None
  have "iface_ok h" using assms(1) by (simp add: driver_ok_def table_ok_def parts_ok_def)
  then have "dom (omx_ifaces h) = {..<omx_iface_max h}"
    using None by (auto simp: find_None_iff iface_ok_def)
  then show ?thesis using assms by (simp add: driver_ok_def count_ok_def)
next
  case (Some k)
  show ?thesis by (rule that [OF Some]) (use Some in \<open>auto simp: find_Some_iff\<close>)
qed

text \<open>Both ways into the table.\<close>

lemma not_yet:
  assumes "driver_ok h"
  shows "iface_store h (next_iface h) = None" "next_iface h \<notin> attached h" "Local (next_iface h) \<notin> tabled h"
proof -
  have "iface_ok h" "local_ok h" using assms by (simp_all add: driver_ok_def table_ok_def parts_ok_def)
  then show "iface_store h (next_iface h) = None"
    by (cases "iface_store h (next_iface h)") (auto simp: iface_ok_def)
  then show "next_iface h \<notin> attached h" using attached_exists [OF \<open>iface_ok h\<close>] by force
  then show "Local (next_iface h) \<notin> tabled h" using \<open>local_ok h\<close> by (simp add: local_ok_def)
qed

lemma enters_new:
  fixes h :: host
  defines "f \<equiv> next_iface h" and "n \<equiv> omx_peer_next_nr h"
  assumes ok: "driver_ok h" and k: "omx_ifaces h k = None" "k < omx_iface_max h"
    and none: "omx_peer_lookup_by_addr_locked (board_addr q) h = None" and room: "n < omx_peer_max h"
    and q: "unat (peer_index q) = n" "local_iface q = Some f" "peer_hostname q \<noteq> None"
    and y: "if_peer y = q" "if_index y = k" "if_refcount y = 2" "if_endpoints y = (\<lambda>_. None)" "endpoint_nr y = 0"
  shows "enters h (placed f y ((omx_ifaces h)(k \<mapsto> f)) (omx_iface_nr h + 1)
      ((omx_peer_addr_hash_array h)(omx_peer_addr_hash (board_addr q) :=
          omx_peer_addr_hash_array h (omx_peer_addr_hash (board_addr q)) @ [Local f]))
      ((omx_peer_array h)(n \<mapsto> Local f)) (n + 1) (omx_host_query_peer_list h) (omx_host_query_timer h) (remote_peers h)
      (h\<lparr>next_iface := f + 1\<rparr>)) f n k q y {}" (is "enters h ?w f n k q y {}")
proof -
  have parts: "array_ok (omx_peer_max h) h" "hash_ok h" "timer_ok h"
    using ok by (simp_all add: driver_ok_def table_ok_def parts_ok_def)
  note out = not_yet [OF ok, folded f_def]
  have slot: "omx_peer_array h n = None"
  proof (cases "omx_peer_array h n")
    case (Some r)
    then have "n < omx_peer_next_nr h \<or> omx_peer_max h \<le> n" using parts(1) unfolding array_ok_def by blast
    then show ?thesis using room by (simp add: n_def)
  qed
  have notin: "Local f \<notin> set (omx_peer_addr_hash_array h b)" for b using parts(2) out(3) by (simp add: hash_ok_def)
  have dist: "distinct (omx_peer_addr_hash_array h b)" for b using parts(2) by (simp add: hash_ok_def)
  have new: "board_addr x \<noteq> board_addr q" if "s \<in> tabled h" "get_peer s h = Some x" for s x
    using none that unfolding lookup_None [OF parts(2)] by blast
  show ?thesis
    unfolding enters_def
    using ok out slot notin dist new room q k y parts(3) by (simp add: f_def n_def timer_ok_def) auto
qed

lemma enters_replace:
  fixes h :: host
  defines "f \<equiv> next_iface h"
  assumes ok: "driver_ok h" and k: "omx_ifaces h k = None" "k < omx_iface_max h"
    and some: "omx_peer_lookup_by_addr_locked (board_addr q) h = Some (Remote n)" "remote_peers h n = Some p"
    and q: "peer_index q = peer_index p" "local_iface q = Some f" "peer_hostname q \<noteq> None"
    and y: "if_peer y = q" "if_index y = k" "if_refcount y = 2" "if_endpoints y = (\<lambda>_. None)" "endpoint_nr y = 0"
  defines "Q \<equiv> if peer_hostname p = None then remove1 (Remote n) (omx_host_query_peer_list h) else omx_host_query_peer_list h"
  shows "enters h (placed f y ((omx_ifaces h)(k \<mapsto> f)) (omx_iface_nr h + 1)
      ((omx_peer_addr_hash_array h)(omx_peer_addr_hash (board_addr q) := map (\<lambda>r. if r = Remote n then Local f else r)
          (omx_peer_addr_hash_array h (omx_peer_addr_hash (board_addr q)))))
      ((omx_peer_array h)(unat (peer_index p) \<mapsto> Local f)) (omx_peer_next_nr h) Q
      (if peer_hostname p = None then Q \<noteq> [] \<and> omx_host_query_timer h else omx_host_query_timer h)
      ((remote_peers h)(n := None)) (h\<lparr>next_iface := f + 1\<rparr>)) f (unat (peer_index p)) k q y {Remote n}"
    (is "enters h ?w f ?j k q y _")
proof -
  have parts: "array_ok (omx_peer_max h) h" "hash_ok h" "addr_ok h" "query_ok h" "timer_ok h"
    using ok by (simp_all add: driver_ok_def table_ok_def parts_ok_def)
  note out = not_yet [OF ok, folded f_def]
  obtain p' where "Remote n \<in> tabled h" "get_peer (Remote n) h = Some p'" "board_addr p' = board_addr q"
    using lookup_Some [OF parts(2) some(1)] by blast
  then have r: "Remote n \<in> tabled h" "get_peer (Remote n) h = Some p" "board_addr p = board_addr q"
    using some(2) by (simp_all add: get_peer_def)
  have slot: "omx_peer_array h ?j = Some (Remote n)" "?j < omx_peer_max h"
    using tabled_entry [OF parts(1) r(1)] r(2) by auto
  have "?j < omx_peer_next_nr h \<or> omx_peer_max h \<le> ?j" using parts(1) slot(1) unfolding array_ok_def by blast
  then have below: "?j < omx_peer_next_nr h" using slot(2) by simp
  have notin: "Local f \<notin> set (omx_peer_addr_hash_array h b)" for b using parts(2) out(3) by (simp add: hash_ok_def)
  have dist: "distinct (omx_peer_addr_hash_array h b)" for b using parts(2) by (simp add: hash_ok_def)
  have hashed: "Remote n \<in> set (omx_peer_addr_hash_array h b) \<longleftrightarrow> b = omx_peer_addr_hash (board_addr q)" for b
    using parts(2) r by (auto simp: hash_ok_def)
  have new: "board_addr x \<noteq> board_addr q" if "s \<in> tabled h" "s \<noteq> Remote n" "get_peer s h = Some x" for s x
    using parts(3) that r unfolding addr_ok_def by metis
  have query: "Q = filter (\<lambda>r. r \<notin> {Remote n}) (omx_host_query_peer_list h)"
  proof (cases "peer_hostname p")
    case None
    then show ?thesis using parts(4) by (simp add: Q_def query_ok_def distinct_remove1_removeAll removeAll_filter_not_eq)
        (simp add: eq_commute)
  next
    case (Some a)
    then have "Remote n \<notin> set (omx_host_query_peer_list h)" using parts(4) some(2) by (simp add: query_ok_def)
    then show ?thesis using Some by (auto simp: Q_def intro!: filter_True [symmetric])
  qed
  have timer: "(if peer_hostname p = None then Q \<noteq> [] \<and> omx_host_query_timer h else omx_host_query_timer h)
      = (Q \<noteq> [] \<and> omx_host_query_timer h)"
    using parts(5) by (auto simp: Q_def timer_ok_def)
  let ?new = "map (\<lambda>r. if r = Remote n then Local f else r) (omx_peer_addr_hash_array h (omx_peer_addr_hash (board_addr q)))"
  have mapped: "distinct ?new"
    using dist notin by (auto simp: distinct_map inj_on_def)
  have mem: "r \<in> set ?new \<longleftrightarrow> r = Local f \<or> r \<noteq> Remote n \<and> r \<in> set (omx_peer_addr_hash_array h (omx_peer_addr_hash (board_addr q)))" for r
    using hashed [of "omx_peer_addr_hash (board_addr q)"] by auto
  have array: "((omx_peer_array h)(?j \<mapsto> Local f)) i = Some r \<longleftrightarrow> i = ?j \<and> r = Local f \<or> i \<noteq> ?j \<and> omx_peer_array h i = Some r" for i r
    by auto
  have max: "omx_peer_next_nr h \<le> omx_peer_max h" using parts(1) by (simp add: array_ok_def)
  have hash: "r \<in> set (((omx_peer_addr_hash_array h)(omx_peer_addr_hash (board_addr q) := ?new)) b) \<longleftrightarrow>
      r = Local f \<and> b = omx_peer_addr_hash (board_addr q) \<or> r \<notin> {Remote n} \<and> r \<in> set (omx_peer_addr_hash_array h b)" for b r
    using mem notin hashed by (cases "b = omx_peer_addr_hash (board_addr q)") auto
  have hash_distinct: "distinct (((omx_peer_addr_hash_array h)(omx_peer_addr_hash (board_addr q) := ?new)) b)" for b
    using mapped dist by simp
  show ?thesis
    unfolding enters_def placed_fields timer
  proof (intro conjI allI impI)
    show "omx_peer_array h ?j = Some r \<longleftrightarrow> r \<in> {Remote n}" for r using slot(1) by auto
    show "distinct (((omx_peer_addr_hash_array h)(omx_peer_addr_hash (board_addr q) := ?new)) b)" for b by (rule hash_distinct)
    show "r \<in> set (((omx_peer_addr_hash_array h)(omx_peer_addr_hash (board_addr q) := ?new)) b) \<longleftrightarrow>
      r = Local f \<and> b = omx_peer_addr_hash (board_addr q) \<or> r \<notin> {Remote n} \<and> r \<in> set (omx_peer_addr_hash_array h b)" for b r
      by (rule hash)
    show "((omx_peer_array h)(?j \<mapsto> Local f)) i = Some r \<longleftrightarrow> i = ?j \<and> r = Local f \<or> i \<noteq> ?j \<and> omx_peer_array h i = Some r" for i r
      by (rule array)
    show "Q = filter (\<lambda>r. r \<notin> {Remote n}) (omx_host_query_peer_list h)" by (rule query)
    show "board_addr x \<noteq> board_addr q" if "s \<in> tabled h" "s \<notin> {Remote n}" "get_peer s h = Some x" for s x
      using new that by simp
  qed (use ok out below max q k y in \<open>auto simp: f_def\<close>)
qed

lemma driver_ok_attach:
  assumes "enters h w f j k q y R" "strip w' = strip w"
  shows "driver_ok w'"
  using driver_ok_strip [OF assms(2) enters_entered [OF assms(1)]] .

text \<open>The index, the array and the count, once the interface is in the table.\<close>

definition indexed :: "nat \<Rightarrow> nat \<Rightarrow> host \<Rightarrow> host option" where
  "indexed f k h = do {
     iface1 \<leftarrow> iface_store h f;
     c_assert (k < omx_iface_max h);
     let h3 = set_iface f (Some (iface1\<lparr>if_index := k\<rparr>)) h;
     Some (h3\<lparr>omx_ifaces := (omx_ifaces h3)(k \<mapsto> f), omx_iface_nr := omx_iface_nr h3 + 1\<rparr>)
   }"

lemma indexed_ok:
  assumes g: "strip g = strip (set_iface f z (set_iface f x (h\<lparr>next_iface := f + 1\<rparr>)))" and y: "same_iface y y0"
    and enters: "enters h (placed f (y0\<lparr>if_index := k\<rparr>) (M(k \<mapsto> f)) (c + 1) H A n Q t P (h\<lparr>next_iface := f + 1\<rparr>)) f j k q
      (y0\<lparr>if_index := k\<rparr>) R"
  shows "\<exists>w. indexed f k (placed f y M c H A n Q t P g) = Some w \<and> driver_ok w"
proof (intro exI conjI)
  have "omx_iface_max g = omx_iface_max h" using strip_eqD(8) [OF g] by (simp add: set_iface_def)
  then have "k < omx_iface_max g" using enters_ifaces(3) [OF enters] by simp
  then show "indexed f k (placed f y M c H A n Q t P g)
      = Some (placed f (y\<lparr>if_index := k\<rparr>) (M(k \<mapsto> f)) (c + 1) H A n Q t P g)"
    by (simp add: indexed_def Let_def) (simp add: placed_def set_iface_def)
  have "strip (placed f (y\<lparr>if_index := k\<rparr>) (M(k \<mapsto> f)) (c + 1) H A n Q t P g)
      = strip (placed f (y0\<lparr>if_index := k\<rparr>) (M(k \<mapsto> f)) (c + 1) H A n Q t P (h\<lparr>next_iface := f + 1\<rparr>))"
    using placed_strip [OF g same_iface_upd(3) [OF y]] by simp
  then show "driver_ok (placed f (y\<lparr>if_index := k\<rparr>) (M(k \<mapsto> f)) (c + 1) H A n Q t P g)"
    by (rule driver_ok_attach [OF enters])
qed

definition new_iface :: "host \<Rightarrow> nat \<Rightarrow> nat \<Rightarrow> omx_iface" where
  "new_iface h ifp i = \<lparr>if_index = 0, if_ifp = ifp,
     if_peer = \<lparr>board_addr = omx_board_addr_from_netdevice (dev_addr h ifp), peer_hostname = Some (iface_hostname h ifp i),
       peer_index = OMX_UNKNOWN_REVERSE_PEER_INDEX, local_iface = None\<rparr>,
     reverse_peer_indexes = (\<lambda>_. 0), if_endpoints = (\<lambda>_. None), endpoint_nr = 0,
     if_status = IFACE_STATUS_OK, if_refcount = 1\<rparr>"

text \<open>The attachment once the memory is there.\<close>

lemma attach_placed:
  fixes h :: host
  defines "f \<equiv> next_iface h"
  assumes ok: "driver_ok h" and k: "omx_ifaces h k = None" "k < omx_iface_max h"
    and alone: "\<forall>g p. g \<in> attached h \<longrightarrow> get_peer (Local g) h = Some p \<longrightarrow> board_addr p \<noteq> board_addr (if_peer (new_iface h ifp k))"
  defines "u \<equiv> set_iface f (Some (new_iface h ifp k)) (h\<lparr>next_iface := f + 1\<rparr>)"
  shows "omx_peers_notify_iface_attach f u = Some (Inl ENOMEM, set_full True u)
    \<or> (\<exists>v w. omx_peers_notify_iface_attach f u = Some (Inr (), v) \<and> indexed f k v = Some w \<and> driver_ok w)"
proof -
  let ?x = "new_iface h ifp k"
  let ?p = "if_peer ?x"
  have parts: "array_ok (omx_peer_max h) h" "hash_ok h" "iface_ok h" "query_ok h" "table_ok h" "local_ok h"
    using ok by (simp_all add: driver_ok_def table_ok_def parts_ok_def)
  note out = not_yet [OF ok, folded f_def]
  have max: "omx_peer_next_nr h \<le> omx_peer_max h" "omx_peer_max h \<le> OMX_PEER_INDEX_MAX" using parts(1) by (simp_all add: array_ok_def)
  have small: "unat (of_nat (omx_peer_next_nr h) :: u32) = omx_peer_next_nr h"
    using max by (simp add: OMX_PEER_INDEX_MAX_def unsigned_of_nat take_bit_nat_eq_self)
  have u: "iface_store u f = Some ?x" "omx_peer_max u = omx_peer_max h" "omx_peer_next_nr u = omx_peer_next_nr h"
    "omx_ifaces u = omx_ifaces h" "omx_iface_nr u = omx_iface_nr h" "omx_peer_addr_hash_array u = omx_peer_addr_hash_array h"
    "omx_peer_array u = omx_peer_array h" "omx_host_query_peer_list u = omx_host_query_peer_list h"
    "omx_host_query_timer u = omx_host_query_timer h" "remote_peers u = remote_peers h"
    by (simp_all add: u_def)
  have p: "local_iface ?p = None" "peer_hostname ?p \<noteq> None" "if_refcount ?x = 1" "if_endpoints ?x = (\<lambda>_. None)" "endpoint_nr ?x = 0"
    by (simp_all add: new_iface_def)
  have look: "omx_peer_lookup_by_addr_locked (board_addr ?p) u = omx_peer_lookup_by_addr_locked (board_addr ?p) h"
    unfolding u_def by (rule lookup_set_iface) (rule parts(2), rule out(3))
  have "attached_ifaces u = attached_ifaces h" by (simp add: attached_ifaces_def u_def)
  then have ifaces: "\<forall>g\<in>set (attached_ifaces u). g \<noteq> f
      \<and> (\<exists>gi. iface_store u g = Some gi \<and> unat (peer_index (if_peer gi)) < omx_peer_max u)"
  proof (intro ballI)
    fix g
    assume that: "g \<in> set (attached_ifaces u)"
    have g: "g \<in> attached h" using that \<open>attached_ifaces u = _\<close> set_attached_ifaces [OF parts(3)] by simp
    then have "g \<noteq> f" using out(2) by blast
    moreover obtain i where "iface_store h g = Some i" "unat (peer_index (if_peer i)) < omx_peer_max h"
      using attached_entry [OF parts(5) g] by metis
    ultimately show "g \<noteq> f \<and> (\<exists>gi. iface_store u g = Some gi \<and> unat (peer_index (if_peer gi)) < omx_peer_max u)"
      by (simp add: u_def)
  qed
  show ?thesis
  proof (cases "omx_peer_lookup_by_addr_locked (board_addr ?p) h")
    case None
    show ?thesis
    proof (cases "omx_peer_next_nr h = omx_peer_max h")
      case True
      then show ?thesis using None look u(1-3) by (simp add: omx_peers_notify_iface_attach_def get_peer_def)
    next
      case False
      then have room: "omx_peer_next_nr u < omx_peer_max u" "omx_peer_max u \<le> OMX_PEER_INDEX_MAX" using max u by simp_all
      let ?y = "?x\<lparr>if_peer := ?p\<lparr>local_iface := Some f, peer_index := of_nat (omx_peer_next_nr h)\<rparr>, if_refcount := if_refcount ?x + 1\<rparr>"
      obtain g y z where run: "omx_peers_notify_iface_attach f u = Some (Inr (), placed f y (omx_ifaces h) (omx_iface_nr h)
          ((omx_peer_addr_hash_array h)(omx_peer_addr_hash (board_addr ?p) :=
            omx_peer_addr_hash_array h (omx_peer_addr_hash (board_addr ?p)) @ [Local f]))
          ((omx_peer_array h)(omx_peer_next_nr h \<mapsto> Local f)) (omx_peer_next_nr h + 1) (omx_host_query_peer_list h)
          (omx_host_query_timer h) (remote_peers h) g)" "strip g = strip (set_iface f z u)" "same_iface y ?y"
        using attach_new [OF u(1) refl _ room ifaces] trans [OF look None] unfolding u(3-) by blast
      have enters: "enters h (placed f (?y\<lparr>if_index := k\<rparr>) ((omx_ifaces h)(k \<mapsto> f)) (omx_iface_nr h + 1)
          ((omx_peer_addr_hash_array h)(omx_peer_addr_hash (board_addr ?p) :=
            omx_peer_addr_hash_array h (omx_peer_addr_hash (board_addr ?p)) @ [Local f]))
          ((omx_peer_array h)(omx_peer_next_nr h \<mapsto> Local f)) (omx_peer_next_nr h + 1) (omx_host_query_peer_list h)
          (omx_host_query_timer h) (remote_peers h) (h\<lparr>next_iface := f + 1\<rparr>)) f (omx_peer_next_nr h) k (if_peer ?y) (?y\<lparr>if_index := k\<rparr>) {}"
        using enters_new [where q = "if_peer ?y" and y = "?y\<lparr>if_index := k\<rparr>", OF ok k] None p small room u(2,3)
        unfolding f_def by simp
      show ?thesis using run(1) indexed_ok [OF run(2) [unfolded u_def] run(3) enters] by blast
    qed
  next
    case (Some r)
    obtain q where r: "r \<in> tabled h" "get_peer r h = Some q" "board_addr q = board_addr ?p"
      using lookup_Some [OF parts(2) Some] by blast
    obtain n where n: "r = Remote n"
      using r alone parts(6) by (cases r) (auto simp: local_ok_def)
    have rp: "remote_peers h n = Some q" using r(2) n by (simp add: get_peer_def)
    have index: "unat (peer_index q) < omx_peer_max u"
      using tabled_entry [OF parts(1) r(1)] r(2) u(2) by auto
    have query: "peer_hostname q = None \<Longrightarrow> Remote n \<in> set (omx_host_query_peer_list u)"
      using parts(4) rp u(8) by (simp add: query_ok_def)
    let ?q = "?p\<lparr>local_iface := Some f, peer_index := peer_index q,
          peer_hostname := (if peer_hostname q = None then peer_hostname ?p else peer_hostname q)\<rparr>"
    let ?y = "?x\<lparr>if_peer := ?q, if_refcount := if_refcount ?x + 1\<rparr>"
    let ?Q = "if peer_hostname q = None then remove1 (Remote n) (omx_host_query_peer_list h) else omx_host_query_peer_list h"
    let ?H = "(omx_peer_addr_hash_array h)(omx_peer_addr_hash (board_addr ?p) := map (\<lambda>r. if r = Remote n then Local f else r)
            (omx_peer_addr_hash_array h (omx_peer_addr_hash (board_addr ?p))))"
    let ?t = "if peer_hostname q = None then ?Q \<noteq> [] \<and> omx_host_query_timer h else omx_host_query_timer h"
    obtain g y z where run: "omx_peers_notify_iface_attach f u = Some (Inr (), placed f y (omx_ifaces h) (omx_iface_nr h)
        ?H ((omx_peer_array h)(unat (peer_index q) \<mapsto> Local f)) (omx_peer_next_nr h) ?Q ?t ((remote_peers h)(n := None)) g)"
        "strip g = strip (set_iface f z u)" "same_iface y ?y"
      using attach_replace [OF u(1) refl p(1) trans [OF look Some [unfolded n]] _ index _ r(3) query ifaces] rp max(2) unfolding u(2-) by blast
    have enters: "enters h (placed f (?y\<lparr>if_index := k\<rparr>) ((omx_ifaces h)(k \<mapsto> f)) (omx_iface_nr h + 1)
        ?H ((omx_peer_array h)(unat (peer_index q) \<mapsto> Local f)) (omx_peer_next_nr h) ?Q ?t ((remote_peers h)(n := None))
        (h\<lparr>next_iface := f + 1\<rparr>)) f (unat (peer_index q)) k ?q (?y\<lparr>if_index := k\<rparr>) {Remote n}"
      using enters_replace [where q = ?q and y = "?y\<lparr>if_index := k\<rparr>", OF ok k _ rp] Some n p
      unfolding f_def by simp
    show ?thesis using run(1) indexed_ok [OF run(2) [unfolded u_def] run(3) enters] by blast
  qed
qed

theorem omx_iface_attach_ok:
  assumes ok: "driver_ok h"
    and alone: "\<And>g p. g \<in> attached h \<Longrightarrow> get_peer (Local g) h = Some p \<Longrightarrow>
      board_addr p \<noteq> omx_board_addr_from_netdevice (dev_addr h ifp)"
  shows "\<exists>res h'. omx_iface_attach ifp h = Some (res, h') \<and> driver_ok h'"
proof (cases "omx_iface_nr h = omx_iface_max h \<or> omx_iface_find_by_ifp ifp h \<noteq> None")
  case True
  then show ?thesis using ok by (auto simp: omx_iface_attach_def)
next
  case False
  obtain k where k: "find (\<lambda>i. omx_ifaces h i = None) [0..<omx_iface_max h] = Some k" "k < omx_iface_max h" "omx_ifaces h k = None"
    using free_slot [OF ok] False by blast
  obtain b h1 where mem: "kmallocs 4 h = (b, h1)" by (cases "kmallocs 4 h")
  have s1: "strip h1 = strip h" using kmallocs_strip [OF mem] .
  have ok1: "driver_ok h1" using driver_ok_strip [OF s1 ok] .
  show ?thesis
  proof (cases b)
    case False
    then show ?thesis using ok1 mem k \<open>\<not> (_ \<or> _)\<close> by (simp add: omx_iface_attach_def)
  next
    case True
    let ?u = "set_iface (next_iface h1) (Some (new_iface h1 ifp k)) (h1\<lparr>next_iface := next_iface h1 + 1\<rparr>)"
    have dev: "dev_addr h1 = dev_addr h" using s1 strip_fields(17) by metis
    have eq: "omx_ifaces h1 = omx_ifaces h" "omx_iface_max h1 = omx_iface_max h" using strip_eqD [OF s1] by simp_all
    have other: "\<forall>g p. g \<in> attached h1 \<longrightarrow> get_peer (Local g) h1 = Some p \<longrightarrow> board_addr p \<noteq> board_addr (if_peer (new_iface h1 ifp k))"
      using alone get_peer_stripD [OF s1] by (simp add: new_iface_def dev eq)
    have run: "omx_iface_attach ifp h = do {
        (res, h2) \<leftarrow> omx_peers_notify_iface_attach (next_iface h1) ?u;
        case res of Inl err \<Rightarrow> Some (Inl err, set_iface (next_iface h1) None h2)
        | Inr _ \<Rightarrow> do { h3 \<leftarrow> indexed (next_iface h1) k h2; Some (Inr (), h3) } }"
      using False k mem True by (simp add: omx_iface_attach_def new_iface_def indexed_def Let_def cong: sum.case_cong)
    consider "omx_peers_notify_iface_attach (next_iface h1) ?u = Some (Inl ENOMEM, set_full True ?u)"
      | v w where "omx_peers_notify_iface_attach (next_iface h1) ?u = Some (Inr (), v)" "indexed (next_iface h1) k v = Some w" "driver_ok w"
      using attach_placed [OF ok1 _ _ other] k(2,3) eq by auto
    then show ?thesis
    proof cases
      case 1
      have "set_iface (next_iface h1) None (set_full True ?u) = set_full True (h1\<lparr>next_iface := next_iface h1 + 1\<rparr>)"
        using not_yet(1) [OF ok1] by (simp add: set_iface_def set_full_def fun_upd_idem)
      then have "driver_ok (set_iface (next_iface h1) None (set_full True ?u))"
        using driver_ok_strip [OF set_full_strip next_iface_ok [OF ok1]] by simp
      then show ?thesis unfolding run 1 by simp
    next
      case 2
      then show ?thesis unfolding run by simp
    qed
  qed
qed

end
