(* ===== verification/Interface_Detach.thy ===== *)
theory Interface_Detach
  imports Interface_Attach
begin

text \<open>
  Detaching an interface: its endpoints are closed, it leaves the table and the array, and lives on
  for the endpoints that are still referenced.
\<close>

subsection \<open>An interface that leaves\<close>

text \<open>The state without the interface \<open>f\<close> of index \<open>j\<close> in the table and \<open>k\<close> in the array.\<close>

definition without :: "nat \<Rightarrow> omx_iface \<Rightarrow> nat \<Rightarrow> nat \<Rightarrow> u8 \<Rightarrow> host \<Rightarrow> host" where
  "without f x j k b h = h\<lparr>
     iface_store := (iface_store h)(f := if if_refcount x = 2 then None else Some (x\<lparr>
       if_peer := (if_peer x)\<lparr>peer_index := OMX_UNKNOWN_REVERSE_PEER_INDEX, local_iface := None\<rparr>,
       if_refcount := if_refcount x - 2\<rparr>)),
     omx_peer_array := (omx_peer_array h)(j := None),
     omx_peer_addr_hash_array := (omx_peer_addr_hash_array h)(b := remove1 (Local f) (omx_peer_addr_hash_array h b)),
     omx_ifaces := (omx_ifaces h)(k := None), omx_iface_nr := omx_iface_nr h - 1\<rparr>"

lemma without_fields [simp]:
  "omx_peer_array (without f x j k b h) = (omx_peer_array h)(j := None)"
  "omx_ifaces (without f x j k b h) = (omx_ifaces h)(k := None)"
  "omx_iface_nr (without f x j k b h) = omx_iface_nr h - 1"
  "omx_peer_addr_hash_array (without f x j k b h) = (omx_peer_addr_hash_array h)(b := remove1 (Local f) (omx_peer_addr_hash_array h b))"
  "omx_peer_next_nr (without f x j k b h) = omx_peer_next_nr h" "omx_peer_max (without f x j k b h) = omx_peer_max h"
  "omx_host_query_peer_list (without f x j k b h) = omx_host_query_peer_list h"
  "omx_host_query_timer (without f x j k b h) = omx_host_query_timer h"
  "omx_host_query_work (without f x j k b h) = omx_host_query_work h" "remote_peers (without f x j k b h) = remote_peers h"
  "next_remote (without f x j k b h) = next_remote h" "omx_iface_max (without f x j k b h) = omx_iface_max h"
  "endpoint_store (without f x j k b h) = endpoint_store h" "next_endpoint (without f x j k b h) = next_endpoint h"
  "omx_endpoint_max (without f x j k b h) = omx_endpoint_max h" "next_iface (without f x j k b h) = next_iface h"
  "g \<noteq> f \<Longrightarrow> iface_store (without f x j k b h) g = iface_store h g"
  by (simp_all add: without_def)

lemma attached_remove:
  assumes "iface_ok h" "omx_ifaces h k = Some f"
  shows "ran ((omx_ifaces h)(k := None)) = attached h - {f}"
proof -
  have "l = k" if "omx_ifaces h l = Some f" for l
  proof -
    have "map_option if_index (iface_store h f) = Some l" "map_option if_index (iface_store h f) = Some k"
      using assms that unfolding iface_ok_def by blast+
    then show ?thesis by simp
  qed
  then have iff: "(\<exists>l. l \<noteq> k \<and> omx_ifaces h l = Some g) \<longleftrightarrow> g \<noteq> f \<and> (\<exists>l. omx_ifaces h l = Some g)" for g
    using assms(2) by (metis option.inject)
  show ?thesis
  proof (rule set_eqI)
    fix g
    show "g \<in> ran ((omx_ifaces h)(k := None)) \<longleftrightarrow> g \<in> attached h - {f}" using iff [of g] by (auto simp: ran_def)
  qed
qed

lemma iface_index:
  assumes "driver_ok h" "f \<in> attached h" "iface_store h f = Some x"
  shows "omx_ifaces h (if_index x) = Some f" "if_index x < omx_iface_max h"
proof -
  have "iface_ok h" using assms(1) by (simp add: driver_ok_def table_ok_def parts_ok_def)
  moreover obtain l where "omx_ifaces h l = Some f" using assms(2) by (auto simp: ran_def)
  ultimately have "l < omx_iface_max h \<and> map_option if_index (iface_store h f) = Some l" unfolding iface_ok_def by blast
  then show "omx_ifaces h (if_index x) = Some f" "if_index x < omx_iface_max h"
    using assms(3) \<open>omx_ifaces h l = Some f\<close> by simp_all
qed

text \<open>The interface has no endpoint of its own left, and is referenced by what is being closed.\<close>

lemma without_ok:
  assumes ok: "driver_ok h" and f: "f \<in> attached h" "iface_store h f = Some x"
    and empty: "if_endpoints x = (\<lambda>_. None)"
  defines "w \<equiv> without f x (unat (peer_index (if_peer x))) (if_index x) (omx_peer_addr_hash (board_addr (if_peer x))) h"
  shows "driver_ok w"
proof -
  let ?j = "unat (peer_index (if_peer x))" and ?k = "if_index x" and ?b = "omx_peer_addr_hash (board_addr (if_peer x))"
  have parts: "array_ok (omx_peer_max h) h" "hash_ok h" "addr_ok h" "remote_ok h" "query_ok h" "timer_ok h" "iface_ok h"
    "local_ok h" "refs_ok h" "endpoints_ok h" "count_ok h" "table_ok h"
    using ok by (simp_all add: driver_ok_def table_ok_def parts_ok_def)
  have slot: "omx_peer_array h ?j = Some (Local f)" "Local f \<in> tabled h"
    using attached_entry [OF parts(12) f(1)] f(2) by auto
  note k = iface_index [OF ok f]
  have tab: "tabled w = tabled h - {Local f}" unfolding w_def without_fields by (rule tabled_remove [OF parts(1) slot(1)])
  have att: "attached w = attached h - {f}" unfolding w_def without_fields by (rule attached_remove [OF parts(7) k(1)])
  have store: "iface_store w g = (if g = f then (if if_refcount x = 2 then None else Some (x\<lparr>
       if_peer := (if_peer x)\<lparr>peer_index := OMX_UNKNOWN_REVERSE_PEER_INDEX, local_iface := None\<rparr>,
       if_refcount := if_refcount x - 2\<rparr>)) else iface_store h g)" for g
    by (simp add: w_def without_def)
  have remote: "remote_peers w = remote_peers h" by (simp add: w_def)
  have get: "get_peer r w = get_peer r h" if "r \<noteq> Local f" for r
    using that by (cases r) (simp_all add: get_peer_def store remote)
  have ref: "referring w = referring h" by (simp add: referring_def fun_eq_iff w_def)
  have refs: "iface_refs w g = (if g = f then iface_refs h f - 2 else iface_refs h g)" "2 \<le> iface_refs h f" for g
    using f(1) slot(2) by (simp_all add: iface_refs_def endpoint_refs_card ref att tab)
  have count: "if_refcount x = iface_refs h f" using parts(9) f(2) by (simp add: refs_ok_def)
  have "array_ok (omx_peer_max w) w"
    unfolding array_ok_def
  proof (intro conjI allI impI)
    fix i r
    assume "omx_peer_array w i = Some r"
    then have i: "i \<noteq> ?j" "omx_peer_array h i = Some r" by (auto simp: w_def split: if_splits)
    then have r: "r \<noteq> Local f" using array_inj [OF parts(1) slot(1)] by blast
    show "i < omx_peer_next_nr w \<or> omx_peer_max w \<le> i" "i < omx_peer_max w"
        "\<exists>p. get_peer r w = Some p \<and> unat (peer_index p) = i \<and> entry_ok r p"
      using parts(1) i(2) unfolding get [OF r] by (auto simp: array_ok_def w_def)
  qed (use parts(1) in \<open>simp_all add: array_ok_def w_def\<close>)
  moreover have "hash_ok w"
    unfolding hash_ok_def tab
  proof (intro allI conjI)
    fix b r
    have dist: "distinct (omx_peer_addr_hash_array h b)" using parts(2) by (simp add: hash_ok_def)
    then show "distinct (omx_peer_addr_hash_array w b)" by (auto simp: w_def)
    have out: "Local f \<in> set (omx_peer_addr_hash_array h b) \<longleftrightarrow> b = ?b"
      using parts(2) slot(2) f(2) by (auto simp: hash_ok_def get_peer_def)
    have "r \<in> set (omx_peer_addr_hash_array w b) \<longleftrightarrow> r \<noteq> Local f \<and> r \<in> set (omx_peer_addr_hash_array h b)"
      using dist out by (auto simp: w_def)
    then show "r \<in> set (omx_peer_addr_hash_array w b) \<longleftrightarrow>
        r \<in> tabled h - {Local f} \<and> (\<exists>p. get_peer r w = Some p \<and> omx_peer_addr_hash (board_addr p) = b)"
      using parts(2) get [of r] by (cases "r = Local f") (simp_all add: hash_ok_def)
  qed
  moreover have "addr_ok w" using parts(3) unfolding addr_ok_def tab by (simp add: get)
  moreover have "remote_ok w" "query_ok w" "timer_ok w"
    using parts(4-6) by (simp_all add: remote_ok_def tab query_ok_def timer_ok_def) (simp_all add: w_def)
  moreover have "iface_ok w"
    unfolding iface_ok_def
  proof (intro conjI allI impI)
    fix l g
    assume "omx_ifaces w l = Some g"
    then have l: "l \<noteq> ?k" "omx_ifaces h l = Some g" by (auto simp: w_def split: if_splits)
    moreover have "l < omx_iface_max h \<and> map_option if_index (iface_store h g) = Some l"
      using parts(7) l(2) by (simp add: iface_ok_def)
    moreover have "g \<noteq> f" using calculation f(2) by auto
    ultimately show "l < omx_iface_max w" "map_option if_index (iface_store w g) = Some l"
      by (simp_all add: store) (simp add: w_def)
  next
    fix g i
    assume i: "iface_store w g = Some i"
    show "g < next_iface w" using i parts(7) f(2) by (cases "g = f") (simp_all add: store iface_ok_def, simp_all add: w_def)
    show "peer_index (if_peer i) = OMX_UNKNOWN_REVERSE_PEER_INDEX" "local_iface (if_peer i) = None" if "g \<notin> attached w"
      using i that parts(7) by (cases "g = f"; auto simp: store att iface_ok_def split: if_splits)+
  qed
  moreover have "local_ok w" using parts(8) by (auto simp: local_ok_def tab att)
  moreover have "refs_ok w"
    using parts(9) refs count unfolding refs_ok_def by (auto simp: store split: if_splits)
  moreover have "endpoints_ok w"
    unfolding endpoints_ok_def
  proof (intro conjI allI impI)
    fix e ep
    assume "endpoint_store w e = Some ep"
    then have e: "endpoint_store h e = Some ep" by (simp add: w_def)
    then have old: "endpoint_ok h e ep" using parts(10) by (simp add: endpoints_ok_def)
    show "endpoint_ok w e ep"
    proof (rule endpoint_ok_move [OF old])
      show "next_endpoint w = next_endpoint h" by (simp add: w_def)
      fix g i
      assume g: "de_iface ep = Some g" "iface_store h g = Some i" "de_status ep \<in> {ENDPOINT_STATUS_OK, ENDPOINT_STATUS_CLOSING}"
      show "\<exists>i'. iface_store w g = Some i'
          \<and> (if_endpoints i (de_endpoint_index ep) = Some e \<longrightarrow> if_endpoints i' (de_endpoint_index ep) = Some e)"
      proof (cases "g = f")
        case True
        then have "e \<in> referring h f" using g e by (auto simp: referring_def)
        then have "0 < endpoint_refs h f"
          using finite_referring [OF parts(10), of f] by (auto simp: endpoint_refs_card card_gt_0_iff)
        then have "if_refcount x \<noteq> 2" using count f(1) slot(2) by (simp add: iface_refs_def)
        then show ?thesis using True g(2) f(2) empty by (simp add: store)
      next
        case False
        then show ?thesis using g(2) by (simp add: store)
      qed
    qed
  next
    fix g i
    assume i: "iface_store w g = Some i"
    show "endpoint_nr i = card (dom (if_endpoints i))"
      using i parts(10) f(2) by (cases "g = f") (auto simp: store endpoints_ok_def split: if_splits)
    show "slot_ok w g index e" if e: "if_endpoints i index = Some e" for index e
    proof -
      have g: "g \<noteq> f" "iface_store h g = Some i" using i e empty by (auto simp: store split: if_splits)
      then have "slot_ok h g index e" using parts(10) e by (simp add: endpoints_ok_def)
      then show ?thesis using g(1) by (simp add: slot_ok_def att) (simp add: w_def)
    qed
  qed
  moreover have "count_ok w"
  proof -
    have "finite (dom (omx_ifaces h))"
      by (rule finite_subset [of _ "{..<omx_iface_max h}"]) (use parts(7) in \<open>auto simp: iface_ok_def\<close>)
    then show ?thesis using parts(11) k(1) by (simp add: count_ok_def w_def card_Diff_singleton domI)
  qed
  ultimately show ?thesis by (simp add: driver_ok_def table_ok_def parts_ok_def)
qed

subsection \<open>Closing its endpoints\<close>

lemma foreach_map: "foreach f (map g xs) = foreach (f \<circ> g) xs"
proof
  show "foreach f (map g xs) s = foreach (f \<circ> g) xs s" for s
  proof (induction xs arbitrary: s)
    case (Cons x xs)
    then show ?case by (cases "f (g x) s") simp_all
  qed simp
qed

lemma force_close_ok:
  assumes ok: "driver_ok h" and f: "f \<in> attached h" "iface_store h f = Some x"
  shows "\<exists>h' x'. force_close f index h = Some h' \<and> driver_ok h' \<and> omx_ifaces h' = omx_ifaces h
    \<and> omx_endpoint_max h' = omx_endpoint_max h \<and> iface_store h' f = Some x'
    \<and> if_endpoints x' = (if_endpoints x)(index := None)"
proof (cases "if_endpoints x index")
  case None
  then show ?thesis using ok f by (auto simp: force_close_def)
next
  case (Some e)
  have ends: "endpoints_ok h" using ok by (simp add: driver_ok_def)
  then have "slot_ok h f index e" using f(2) Some by (simp add: endpoints_ok_def)
  then obtain ep where ep: "endpoint_store h e = Some ep" "de_status ep = ENDPOINT_STATUS_OK" "de_iface ep = Some f"
    "de_endpoint_index ep = index" by (auto simp: slot_ok_def)
  let ?ep = "ep\<lparr>de_userdesc := de_userdesc ep OR OMX_ENDPOINT_DESC_STATUS_IFACE_REMOVED\<rparr>"
  let ?h1 = "set_endpoint e (Some ?ep) h"
  have "endpoint_ok h e ep" using ends ep(1) by (simp add: endpoints_ok_def)
  then have "endpoint_ok h e ?ep" using ep(2) by (simp add: endpoint_ok_def)
  then have ok1: "driver_ok ?h1" by (rule set_endpoint_ok [OF ok ep(1)]) simp_all
  obtain h2 where h2: "omx_endpoint_close e ?h1 = Some (Inr (), h2)" "driver_ok h2" "omx_ifaces h2 = omx_ifaces h"
    "omx_endpoint_max h2 = omx_endpoint_max h"
    "\<And>x'. iface_store h2 f = Some x' \<Longrightarrow> if_endpoints x' = (if_endpoints x)(index := None)"
    using close_open_endpoint [OF ok1, of e ?ep f x] ep f(2) by auto
  have "iface_ok h2" using h2(2) by (simp add: driver_ok_def table_ok_def parts_ok_def)
  moreover have "f \<in> attached h2" using f(1) h2(3) by simp
  ultimately obtain x' where x': "iface_store h2 f = Some x'" using attached_exists by blast
  have "force_close f index h = Some h2"
    using f(2) Some ep(1) h2(1) by (simp add: force_close_def update_endpoint_def)
  then show ?thesis using h2 x' by blast
qed

lemma close_all_ok:
  assumes ok: "driver_ok h" and f: "f \<in> attached h" "iface_store h f = Some x"
  shows "\<exists>h' x'. foreach (force_close f) (map of_nat [0..<omx_endpoint_max h]) h = Some h' \<and> driver_ok h'
    \<and> omx_ifaces h' = omx_ifaces h \<and> iface_store h' f = Some x' \<and> if_endpoints x' = (\<lambda>_. None)"
proof -
  define P where "P n h' \<longleftrightarrow> driver_ok h' \<and> omx_ifaces h' = omx_ifaces h \<and> omx_endpoint_max h' = omx_endpoint_max h
    \<and> (\<exists>x'. iface_store h' f = Some x' \<and> (\<forall>index. unat index < n \<longrightarrow> if_endpoints x' index = None))" for n h'
  have "\<exists>h'. foreach (force_close f \<circ> of_nat) [0..<omx_endpoint_max h] h = Some h' \<and> P (omx_endpoint_max h) h'"
  proof (rule foreach_upt)
    show "P 0 h" using ok f by (simp add: P_def)
    fix n a
    assume "P n a"
    then obtain y where y: "driver_ok a" "omx_ifaces a = omx_ifaces h" "omx_endpoint_max a = omx_endpoint_max h"
      "iface_store a f = Some y" "\<And>index. unat index < n \<Longrightarrow> if_endpoints y index = None" by (auto simp: P_def)
    have "f \<in> attached a" using f(1) y(2) by simp
    then obtain b z where b: "force_close f (of_nat n) a = Some b" "driver_ok b" "omx_ifaces b = omx_ifaces a"
      "omx_endpoint_max b = omx_endpoint_max a" "iface_store b f = Some z" "if_endpoints z = (if_endpoints y)(of_nat n := None)"
      using force_close_ok [OF y(1) _ y(4)] by blast
    have "if_endpoints z index = None" if "unat index < Suc n" for index
      using y(5) [of index] that by (cases "unat index = n") (auto simp: b(6))
    then show "\<exists>b. (force_close f \<circ> of_nat) n a = Some b \<and> P (Suc n) b" using b y by (auto simp: P_def)
  qed
  then obtain h' x' where h': "foreach (force_close f \<circ> of_nat) [0..<omx_endpoint_max h] h = Some h'" "driver_ok h'"
    "omx_ifaces h' = omx_ifaces h" "omx_endpoint_max h' = omx_endpoint_max h" "iface_store h' f = Some x'"
    "\<And>index. unat index < omx_endpoint_max h \<Longrightarrow> if_endpoints x' index = None" by (auto simp: P_def)
  have "if_endpoints x' index = None" for index
  proof (cases "if_endpoints x' index")
    case (Some e)
    then have "slot_ok h' f index e" using h'(2,5) by (simp add: driver_ok_def endpoints_ok_def)
    then show ?thesis using h'(4,6) by (simp add: slot_ok_def)
  qed simp
  then have "if_endpoints x' = (\<lambda>_. None)" by (rule ext)
  then show ?thesis using h' by (simp add: foreach_map)
qed

subsection \<open>Detaching\<close>

lemma set_status_ok:
  assumes ok: "driver_ok h" and f: "iface_store h f = Some x"
  shows "driver_ok (set_iface f (Some (x\<lparr>if_status := s\<rparr>)) h)" (is "driver_ok ?h")
proof -
  have tab: "table_ok h" and ends: "endpoints_ok h" and count: "count_ok h" using ok by (simp_all add: driver_ok_def)
  note parts = table_okD [OF tab]
  have "referring ?h = referring h" by (simp add: referring_def fun_eq_iff)
  then have "iface_refs ?h = iface_refs h" by (simp add: iface_refs_def endpoint_refs_card fun_eq_iff)
  then have "refs_ok ?h" using parts(10) f unfolding refs_ok_def by auto
  then have "table_ok ?h"
    by (intro table_ok_refs [OF tab]) (use f attached_exists [OF parts(8)] in \<open>auto split: if_splits\<close>)
  moreover have "endpoints_ok ?h"
    unfolding endpoints_ok_def
  proof (intro conjI allI impI)
    fix e ep
    assume "endpoint_store ?h e = Some ep"
    then have "endpoint_ok h e ep" using ends by (simp add: endpoints_ok_def)
    then show "endpoint_ok ?h e ep" by (rule endpoint_ok_move) (use f in auto)
  next
    fix g i
    assume i: "iface_store ?h g = Some i"
    show "endpoint_nr i = card (dom (if_endpoints i))" using i ends f by (auto simp: endpoints_ok_def split: if_splits)
    show "slot_ok ?h g index e" if "if_endpoints i index = Some e" for index e
    proof -
      have "slot_ok h g index e" using that i ends f by (auto simp: endpoints_ok_def split: if_splits)
      then show ?thesis by (simp add: slot_ok_def)
    qed
  qed
  moreover have "count_ok ?h" using count by (simp add: count_ok_def)
  ultimately show ?thesis by (simp add: driver_ok_def)
qed

text \<open>Off the table, off the array, and the reference of each given back.\<close>

lemma leave_run:
  assumes ok: "driver_ok h" and f: "f \<in> attached h" "iface_store h f = Some x"
  defines "w \<equiv> without f x (unat (peer_index (if_peer x))) (if_index x) (omx_peer_addr_hash (board_addr (if_peer x))) h"
  obtains h3 y where "omx_peers_notify_iface_detach f h = Some h3" "iface_store h3 f = Some y"
    "omx_iface_release f (h3\<lparr>omx_ifaces := (omx_ifaces h3)(if_index y := None), omx_iface_nr := omx_iface_nr h3 - 1\<rparr>) = Some w"
proof -
  let ?p = "(if_peer x)\<lparr>peer_index := OMX_UNKNOWN_REVERSE_PEER_INDEX, local_iface := None\<rparr>"
    and ?j = "unat (peer_index (if_peer x))" and ?b = "omx_peer_addr_hash (board_addr (if_peer x))"
  have tab: "table_ok h" using ok by (simp add: driver_ok_def)
  have entry: "Local f \<in> tabled h" "?j < omx_peer_max h" "peer_index (if_peer x) \<noteq> OMX_UNKNOWN_REVERSE_PEER_INDEX"
    using attached_entry [OF tab f(1)] f(2) by auto
  have peer: "get_peer (Local f) h = Some (if_peer x)" using f(2) by (simp add: get_peer_def)
  have hash: "Local f \<in> set (omx_peer_addr_hash_array h ?b)" by (rule hashed [OF table_okD(3) [OF tab] entry(1) peer])
  have "if_refcount x = iface_refs h f" using table_okD(10) [OF tab] f(2) by (simp add: refs_ok_def)
  then have refs: "2 \<le> if_refcount x" using f(1) entry(1) by (simp add: iface_refs_def)
  define y where "y = x\<lparr>if_peer := ?p, if_refcount := if_refcount x - 1\<rparr>"
  define h3 where "h3 = set_iface f (Some y) (set_slot ?j None (set_hash ?b (remove1 (Local f) (omx_peer_addr_hash_array h ?b)) h))"
  have notify: "omx_peers_notify_iface_detach f h = Some h3"
    using peer entry hash f(2) refs
    by (simp add: omx_peers_notify_iface_detach_def unhash_def Let_def put_peer_def omx_iface_release_def h3_def y_def set_iface_def)
  have store: "iface_store h3 f = Some y" by (simp add: h3_def)
  let ?h4 = "h3\<lparr>omx_ifaces := (omx_ifaces h3)(if_index y := None), omx_iface_nr := omx_iface_nr h3 - 1\<rparr>"
  define X where "X = (if if_refcount x = 2 then None else Some (x\<lparr>if_peer := ?p, if_refcount := if_refcount x - 2\<rparr>))"
  have "(if if_refcount y = 1 then None else Some (y\<lparr>if_refcount := if_refcount y - 1\<rparr>)) = X"
  proof -
    have "if_refcount y = if_refcount x - 1" by (simp add: y_def)
    then have "if_refcount y = 1 \<longleftrightarrow> if_refcount x = 2" "if_refcount y - 1 = if_refcount x - 2" using refs by arith+
    then show ?thesis by (simp only: X_def) (simp add: y_def)
  qed
  then have release: "omx_iface_release f ?h4 = Some (set_iface f X ?h4)"
    using store refs by (simp add: omx_iface_release_def) (simp add: y_def)
  have "set_iface f X ?h4 = w"
    by (rule host.equality) (simp_all add: w_def without_def X_def h3_def set_iface_def set_slot_def set_hash_def y_def)
  then show thesis using that notify store release by simp
qed

theorem omx_iface_detach_ok:
  assumes ok: "driver_ok h" and f: "f \<in> attached h"
  shows "\<exists>res h'. omx_iface_detach f force h = Some (res, h') \<and> driver_ok h'
    \<and> (force \<longrightarrow> res = Inr ()) \<and> (res = Inr () \<longrightarrow> attached h' = attached h - {f})"
proof -
  have "iface_ok h" using ok by (simp add: driver_ok_def table_ok_def parts_ok_def)
  then obtain x where x: "iface_store h f = Some x" using attached_exists f by blast
  note k = iface_index [OF ok f x]
  show ?thesis
  proof (cases "\<not> force \<and> endpoint_nr x \<noteq> 0")
    case True
    then show ?thesis using ok x k by (simp add: omx_iface_detach_def)
  next
    case False
    let ?h1 = "set_iface f (Some (x\<lparr>if_status := IFACE_STATUS_CLOSING\<rparr>)) h"
    have ok1: "driver_ok ?h1" by (rule set_status_ok [OF ok x])
    obtain h2 y where h2: "foreach (force_close f) (map of_nat [0..<omx_endpoint_max ?h1]) ?h1 = Some h2" "driver_ok h2"
      "omx_ifaces h2 = omx_ifaces h" "iface_store h2 f = Some y" "if_endpoints y = (\<lambda>_. None)"
      using close_all_ok [OF ok1, of f] f by auto
    have f2: "f \<in> attached h2" using f h2(3) by simp
    let ?w = "without f y (unat (peer_index (if_peer y))) (if_index y) (omx_peer_addr_hash (board_addr (if_peer y))) h2"
    have "driver_ok ?w" by (rule without_ok [OF h2(2) f2 h2(4,5)])
    moreover have "attached ?w = attached h - {f}"
      using attached_remove [OF _ iface_index(1) [OF h2(2) f2 h2(4)]] h2(2,3)
      by (simp add: driver_ok_def table_ok_def parts_ok_def)
    moreover obtain h3 z where "omx_peers_notify_iface_detach f h2 = Some h3" "iface_store h3 f = Some z"
      "omx_iface_release f (h3\<lparr>omx_ifaces := (omx_ifaces h3)(if_index z := None), omx_iface_nr := omx_iface_nr h3 - 1\<rparr>) = Some ?w"
      using leave_run [OF h2(2) f2 h2(4)] .
    then have "omx_iface_detach f force h = Some (Inr (), ?w)"
      using False x k h2(1) by (simp add: omx_iface_detach_def)
    ultimately show ?thesis by auto
  qed
qed

end
