(* ===== verification/Driver_Run.thy ===== *)
theory Driver_Run
  imports Interface_Detach
begin

text \<open>
  Runs of the driver: any sequence of its operations on peers, interfaces and endpoints, under the
  conditions the driver relies on without checking them. The tables stay well formed, every operation
  comes back, and no freed memory is touched.
\<close>

subsection \<open>The operations\<close>

datatype driver_op =
    Miscdev_open drv_endpoint
  | Endpoint_open u32 exp_queue unexp_queue region_table u64 "(u8 \<times> u8) option" nat
  | Endpoint_close nat
  | Miscdev_release nat
  | Acquire_endpoint u16 u8
  | Release_endpoint nat
  | Iface_attach nat
  | Iface_detach nat bool
  | Netdev_unregister nat
  | Iface_set_hostname u32 bytes
  | Peer_add u64 "bytes option"
  | Peers_clear
  | Peers_clear_names
  | Peer_table_set_state bool peer_table_state
  | Query_timer
  | Query_work
  | Recv_host_query nat skb
  | Recv_host_reply nat skb
  | Process_work

definition drop_res :: "('a \<times> host) option \<Rightarrow> host option" where
  "drop_res x = map_option snd x"

fun driver_step :: "bool \<Rightarrow> driver_op \<Rightarrow> host \<Rightarrow> host option" where
  "driver_step ec (Miscdev_open blank) h = Some (snd (omx_miscdev_open blank h))"
| "driver_step ec (Endpoint_open session exp0 unexp0 regions0 flags uparam e) h =
     drop_res (omx_endpoint_open session exp0 unexp0 regions0 flags uparam e h)"
| "driver_step ec (Endpoint_close e) h = drop_res (omx_endpoint_close e h)"
| "driver_step ec (Miscdev_release e) h = omx_miscdev_release e h"
| "driver_step ec (Acquire_endpoint index endpoint) h = drop_res (omx_local_peer_acquire_endpoint index endpoint h)"
| "driver_step ec (Release_endpoint e) h = omx_endpoint_release e h"
| "driver_step ec (Iface_attach ifp) h = drop_res (omx_iface_attach ifp h)"
| "driver_step ec (Iface_detach f force) h = drop_res (omx_iface_detach f force h)"
| "driver_step ec (Netdev_unregister ifp) h = netdev_unregister ifp h"
| "driver_step ec (Iface_set_hostname board hostname) h = drop_res (omx_iface_set_hostname board hostname h)"
| "driver_step ec (Peer_add addr hostname) h = drop_res (omx_peer_add ec addr hostname h)"
| "driver_step ec Peers_clear h = omx_peers_clear False h"
| "driver_step ec Peers_clear_names h = omx_peers_clear_names ec h"
| "driver_step ec (Peer_table_set_state right st) h = Some (snd (omx_peer_table_set_state right st h))"
| "driver_step ec Query_timer h = Some (omx_host_query_timer_handler h)"
| "driver_step ec Query_work h = omx_host_query_workfunc ec h"
| "driver_step ec (Recv_host_query f skb) h = drop_res (omx_recv_host_query f skb h)"
| "driver_step ec (Recv_host_reply f skb) h = Some (snd (omx_recv_host_reply ec f skb h))"
| "driver_step ec Process_work h = omx_process_host_queries_and_replies_workfunc ec h"

text \<open>
  What the driver relies on. The endpoint of an open file is there: a forced detach breaks this, as it
  frees the endpoint behind the file. A reference is given back by who holds one. No two devices have
  one address. A packet comes in on an attached interface, and when the queued ones are processed, each
  still is of an attached interface, and a reply has a name of at least its final null.
\<close>

fun relied_on :: "driver_op \<Rightarrow> host \<Rightarrow> bool" where
  "relied_on (Endpoint_open _ _ _ _ _ _ e) h \<longleftrightarrow> endpoint_store h e \<noteq> None"
| "relied_on (Endpoint_close e) h \<longleftrightarrow> endpoint_store h e \<noteq> None"
| "relied_on (Miscdev_release e) h \<longleftrightarrow> endpoint_store h e \<noteq> None"
| "relied_on (Release_endpoint e) h \<longleftrightarrow> (case endpoint_store h e of None \<Rightarrow> False
     | Some ep \<Rightarrow> de_status ep = ENDPOINT_STATUS_CLOSING \<or> 1 < de_refcount ep)"
| "relied_on (Iface_attach ifp) h \<longleftrightarrow> (\<forall>g\<in>set (attached_ifaces h).
     map_option board_addr (get_peer (Local g) h) \<noteq> Some (omx_board_addr_from_netdevice (dev_addr h ifp)))"
| "relied_on (Iface_detach f _) h \<longleftrightarrow> f \<in> set (attached_ifaces h)"
| "relied_on (Recv_host_query f _) h \<longleftrightarrow> f \<in> set (attached_ifaces h)"
| "relied_on (Recv_host_reply f _) h \<longleftrightarrow> f \<in> set (attached_ifaces h)"
| "relied_on Process_work h \<longleftrightarrow>
     (\<forall>(f, skb)\<in>set (omx_host_reply_list h). f \<in> set (attached_ifaces h)
        \<and> 0 < unat (OMX_NTOH_8 (pkt_head_len + 1) (sk_mem skb)))
     \<and> (\<forall>(f, skb)\<in>set (omx_host_query_list h). f \<in> set (attached_ifaces h))"
| "relied_on _ h \<longleftrightarrow> True"

fun driver_run :: "bool \<Rightarrow> driver_op list \<Rightarrow> host \<Rightarrow> host option" where
  "driver_run ec [] h = Some h"
| "driver_run ec (op # ops) h = Option.bind (driver_step ec op h) (driver_run ec ops)"

fun run_relied_on :: "bool \<Rightarrow> driver_op list \<Rightarrow> host \<Rightarrow> bool" where
  "run_relied_on ec [] h \<longleftrightarrow> True"
| "run_relied_on ec (op # ops) h \<longleftrightarrow> relied_on op h
     \<and> (case driver_step ec op h of None \<Rightarrow> True | Some h1 \<Rightarrow> run_relied_on ec ops h1)"

subsection \<open>Each of them\<close>

lemma driver_okD:
  assumes "driver_ok h"
  shows "table_ok h" "endpoints_ok h" "count_ok h" "iface_ok h"
  using assms by (simp_all add: driver_ok_def table_ok_def parts_ok_def)

lemma attached_list: "driver_ok h \<Longrightarrow> set (attached_ifaces h) = attached h"
  by (intro set_attached_ifaces driver_okD)

lemma omx_iface_set_hostname_ok:
  assumes ok: "driver_ok h"
  shows "\<exists>res h'. omx_iface_set_hostname board hostname h = Some (res, h') \<and> driver_ok h'"
proof -
  obtain b h1 where mem: "kstrdup (Some hostname) h = (b, h1)" by (cases "kstrdup (Some hostname) h")
  have ok1: "driver_ok h1" using driver_ok_strip [OF kstrdup_strip [OF mem] ok] .
  show ?thesis
  proof (cases "b \<and> unat board < omx_iface_max h1 \<and> omx_ifaces h1 (unat board) \<noteq> None")
    case False
    then show ?thesis using mem ok1 by (cases b) (auto simp: omx_iface_set_hostname_def split: option.splits)
  next
    case True
    then obtain f where f: "omx_ifaces h1 (unat board) = Some f" by blast
    then have att: "f \<in> attached h1" by (auto simp: ran_def)
    then obtain i where i: "iface_store h1 f = Some i" using attached_exists [OF driver_okD(4) [OF ok1]] by blast
    let ?p = "(if_peer i)\<lparr>peer_hostname := Some hostname\<rparr>"
    have "table_ok (upd_peer (Local f) ?p h1)"
      by (rule name_local_ok [OF driver_okD(1) [OF ok1] att]) (simp add: get_peer_def i)
    then have "driver_ok (upd_peer (Local f) ?p h1)" by (rule driver_ok_ends [OF ends_upd_peer _ ok1])
    moreover have "omx_iface_set_hostname board hostname h = Some (Inr (), upd_peer (Local f) ?p h1)"
      using mem True f i by (simp add: omx_iface_set_hostname_def upd_peer_def)
    ultimately show ?thesis by blast
  qed
qed

lemma endpoint_acquire_ok:
  assumes ok: "driver_ok h" and f: "f \<in> attached h"
  shows "\<exists>res h'. endpoint_acquire_by_iface_index f index h = Some (res, h') \<and> driver_ok h'"
proof -
  obtain i where i: "iface_store h f = Some i" using attached_exists [OF driver_okD(4) [OF ok] f] by blast
  show ?thesis
  proof (cases "unat index < omx_endpoint_max h \<and> if_endpoints i index \<noteq> None")
    case False
    then show ?thesis using ok i by (auto simp: endpoint_acquire_by_iface_index_def)
  next
    case True
    then obtain e where e: "if_endpoints i index = Some e" by blast
    then have "slot_ok h f index e" using driver_okD(2) [OF ok] i by (simp add: endpoints_ok_def)
    then obtain ep where ep: "endpoint_store h e = Some ep" "de_status ep = ENDPOINT_STATUS_OK" by (auto simp: slot_ok_def)
    obtain h1 where "omx_endpoint_reacquire e h = Some h1" "driver_ok h1"
      using omx_endpoint_reacquire_ok [OF ok ep(1)] ep(2) by auto
    then show ?thesis using True i e ep by (auto simp: endpoint_acquire_by_iface_index_def omx_endpoint_reacquire_def)
  qed
qed

lemma omx_local_peer_acquire_endpoint_ok:
  assumes ok: "driver_ok h"
  shows "\<exists>res h'. omx_local_peer_acquire_endpoint index endpoint h = Some (res, h') \<and> driver_ok h'"
proof (cases "unat index < omx_peer_max h \<and> omx_peer_array h (unat index) \<noteq> None")
  case False
  then show ?thesis using ok by (auto simp: omx_local_peer_acquire_endpoint_def)
next
  case True
  then obtain r where r: "omx_peer_array h (unat index) = Some r" by blast
  obtain p where p: "get_peer r h = Some p" "entry_ok r p"
    using array_entry [OF table_okD(2) [OF driver_okD(1) [OF ok]] r] by blast
  show ?thesis
  proof (cases r)
    case (Remote n)
    then show ?thesis using True r p ok by (simp add: omx_local_peer_acquire_endpoint_def)
  next
    case (Local f)
    then have "f \<in> attached h" using table_okD(9) [OF driver_okD(1) [OF ok]] tabledI [OF r] by (simp add: local_ok_def)
    then obtain res h1 where "endpoint_acquire_by_iface_index f endpoint h = Some (res, h1)" "driver_ok h1"
      using endpoint_acquire_ok [OF ok] by blast
    then show ?thesis using True r p Local by (simp add: omx_local_peer_acquire_endpoint_def)
  qed
qed

lemma netdev_unregister_ok:
  assumes ok: "driver_ok h"
  shows "\<exists>h'. netdev_unregister ifp h = Some h' \<and> driver_ok h'"
proof (cases "omx_iface_find_by_ifp ifp h")
  case None
  then show ?thesis using ok by (simp add: netdev_unregister_def)
next
  case (Some f)
  then have "f \<in> set (attached_ifaces h)" by (auto simp: omx_iface_find_by_ifp_def find_Some_iff)
  then have "f \<in> attached h" using attached_list [OF ok] by simp
  then obtain h1 where "omx_iface_detach f True h = Some (Inr (), h1)" "driver_ok h1"
    using omx_iface_detach_ok [OF ok, of f True] by auto
  then show ?thesis using Some by (simp add: netdev_unregister_def)
qed

text \<open>What only changes the state of the table, the queues of packets, or the timer.\<close>

lemma driver_ok_table:
  assumes "driver_ok h" "ends h' = ends h" "table_ok h'"
  shows "driver_ok h'"
  by (rule driver_ok_ends [OF assms(2,3,1)])

lemma recv_ok:
  assumes ok: "driver_ok h"
  shows "driver_ok (snd (omx_recv_host_reply ec f skb h))"
    "f \<in> attached h \<Longrightarrow> \<exists>res h'. omx_recv_host_query f skb h = Some (res, h') \<and> driver_ok h'"
    "driver_ok (snd (omx_peer_table_set_state right st h))"
proof -
  have strip: "strip (h\<lparr>omx_host_reply_list := l\<rparr>) = strip h" "strip (h\<lparr>omx_host_query_list := l\<rparr>) = strip h"
    "strip (h\<lparr>omx_peer_table_state := ts\<rparr>) = strip h" for l ts
    by (simp_all add: strip_def)
  show "driver_ok (snd (omx_recv_host_reply ec f skb h))"
    using ok driver_ok_strip [OF strip(1) ok] by (simp add: omx_recv_host_reply_def)
  show "driver_ok (snd (omx_peer_table_set_state right st h))"
    using ok driver_ok_strip [OF strip(3) ok] by (simp add: omx_peer_table_set_state_def)
  assume "f \<in> attached h"
  then obtain i where "iface_store h f = Some i" using attached_exists [OF driver_okD(4) [OF ok]] by blast
  then show "\<exists>res h'. omx_recv_host_query f skb h = Some (res, h') \<and> driver_ok h'"
    using ok driver_ok_strip [OF strip(2) ok] by (simp add: omx_recv_host_query_def)
qed

lemma timer_ok_run:
  assumes ok: "driver_ok h"
  shows "driver_ok (omx_host_query_timer_handler h)"
  using omx_host_query_timer_handler_ok [OF driver_okD(1) [OF ok]] ok
  by (intro driver_ok_table [OF ok]) (simp_all add: omx_host_query_timer_handler_def)

lemma driver_step_ok:
  assumes ok: "driver_ok h" and relied: "relied_on op h"
  shows "\<exists>h'. driver_step ec op h = Some h' \<and> driver_ok h'"
proof (cases op)
  case (Release_endpoint e)
  then obtain ep where "endpoint_store h e = Some ep" "de_status ep = ENDPOINT_STATUS_CLOSING \<or> 1 < de_refcount ep"
    using relied by (auto split: option.splits)
  then show ?thesis using omx_endpoint_release_ok [OF ok] Release_endpoint by simp
next
  case (Iface_attach ifp)
  have "\<exists>res h'. omx_iface_attach ifp h = Some (res, h') \<and> driver_ok h'"
    by (rule omx_iface_attach_ok [OF ok]) (use relied Iface_attach attached_list [OF ok] in auto)
  then show ?thesis using Iface_attach by (auto simp: drop_res_def)
next
  case (Iface_detach f force)
  then have "f \<in> attached h" using relied attached_list [OF ok] by simp
  then show ?thesis using omx_iface_detach_ok [OF ok, of f force] Iface_detach by (auto simp: drop_res_def)
next
  case (Peer_add addr hostname)
  obtain res h' where r: "omx_peer_add ec addr hostname h = Some (res, h')" "table_ok h'"
    using omx_peer_add_ok [OF driver_okD(1) [OF ok]] by blast
  have "driver_ok h'" by (rule driver_ok_table [OF ok ends_peer_add [OF driver_okD(1) [OF ok] r(1)] r(2)])
  then show ?thesis using r Peer_add by (simp add: drop_res_def)
next
  case Process_work
  obtain h' where r: "omx_process_host_queries_and_replies_workfunc ec h = Some h'" "table_ok h'"
    using omx_process_host_queries_and_replies_ok [OF driver_okD(1) [OF ok], of ec] relied Process_work
    by (fastforce simp: reply_ok_def query_packet_ok_def attached_list [OF ok])
  then show ?thesis using driver_ok_table [OF ok ends_process_workfunc] Process_work by simp
next
  case Peers_clear
  then show ?thesis
    using omx_peers_clear_ok [OF driver_okD(1) [OF ok]] driver_ok_table [OF ok ends_peers_clear] by auto
next
  case Peers_clear_names
  then show ?thesis
    using omx_peers_clear_names_ok [OF driver_okD(1) [OF ok], of ec] driver_ok_table [OF ok ends_clear_names] by auto
next
  case Query_work
  then show ?thesis
    using omx_host_query_workfunc_ok [OF driver_okD(1) [OF ok], of ec] driver_ok_table [OF ok ends_query_workfunc] by auto
next
  case (Endpoint_open session exp0 unexp0 regions0 flags uparam e)
  then obtain ep where "endpoint_store h e = Some ep" using relied by auto
  then show ?thesis
    using omx_endpoint_open_ok [OF ok, of e ep session exp0 unexp0 regions0 flags uparam] Endpoint_open by (auto simp: drop_res_def)
next
  case (Endpoint_close e)
  then obtain ep where "endpoint_store h e = Some ep" using relied by auto
  then show ?thesis using omx_endpoint_close_ok [OF ok] Endpoint_close by (fastforce simp: drop_res_def)
next
  case (Miscdev_release e)
  then obtain ep where "endpoint_store h e = Some ep" using relied by auto
  then show ?thesis using omx_endpoint_close_ok [OF ok] Miscdev_release by (fastforce simp: omx_miscdev_release_def)
next
  case (Acquire_endpoint index endpoint)
  then show ?thesis using omx_local_peer_acquire_endpoint_ok [OF ok, of index endpoint] by (auto simp: drop_res_def)
next
  case (Recv_host_query f skb)
  then show ?thesis using recv_ok(2) [OF ok, of f skb] relied attached_list [OF ok] by (auto simp: drop_res_def)
next
  case (Iface_set_hostname board hostname)
  then show ?thesis using omx_iface_set_hostname_ok [OF ok, of board hostname] by (auto simp: drop_res_def)
qed (simp_all add: omx_miscdev_open_ok [OF ok] netdev_unregister_ok [OF ok] recv_ok [OF ok] timer_ok_run [OF ok])

lemma init_ok:
  assumes "omx_peers_init env mem0 = Inr h" "omx_peer_max env \<le> OMX_PEER_INDEX_MAX"
  shows "driver_ok h"
proof -
  obtain h0 where h0: "kmallocs 2 h0 = (True, h)" "omx_peer_array h0 = (\<lambda>_. None)" "omx_peer_addr_hash_array h0 = (\<lambda>_. [])"
    "omx_peer_next_nr h0 = 0" "omx_peer_max h0 \<le> OMX_PEER_INDEX_MAX" "omx_host_query_peer_list h0 = []" "\<not> omx_host_query_timer h0"
    "remote_peers h0 = (\<lambda>_. None)" "iface_store h0 = (\<lambda>_. None)" "omx_ifaces h0 = (\<lambda>_. None)" "omx_iface_nr h0 = 0"
    "endpoint_store h0 = (\<lambda>_. None)"
    using assms by (auto simp: omx_peers_init_def Let_def host_env.defs split: prod.splits if_splits bool.splits)
  have "driver_ok h0"
    using h0 by (simp add: driver_ok_def table_ok_def parts_ok_def ok_defs endpoints_ok_def count_ok_def)
  then show ?thesis by (rule driver_ok_strip [OF kmallocs_strip [OF h0(1)]])
qed

lemma driver_run_ok:
  assumes "driver_ok h" "run_relied_on ec ops h"
  shows "\<exists>h'. driver_run ec ops h = Some h' \<and> driver_ok h'"
  using assms
proof (induction ops arbitrary: h)
  case (Cons op ops)
  then obtain h1 where h1: "driver_step ec op h = Some h1" "driver_ok h1" using driver_step_ok by force
  then show ?case using Cons by simp
qed simp

subsection \<open>Runs\<close>


text \<open>
  C5: The two lookups of the table are inverse to each other in every reachable state: an address has an
  index exactly when the peer at that index has the address, and both give the same name.
\<close>

theorem peer_lookups_agree:
  assumes "omx_peers_init env mem0 = Inr h" "omx_peer_max env \<le> OMX_PEER_INDEX_MAX" "run_relied_on ec ops h"
    and run: "driver_run ec ops h = Some h'"
  shows "omx_peer_lookup_by_addr a h' = Some (Inr (index, name))
    \<longleftrightarrow> omx_peer_lookup_by_index (unat index) h' = Some (Inr (a, name))"
proof -
  have ok: "table_ok h'"
    using driver_run_ok [OF init_ok [OF assms(1,2)] assms(3)] run by (simp add: driver_okD)
  note parts = table_okD [OF ok]
  show ?thesis
  proof
    assume l: "omx_peer_lookup_by_addr a h' = Some (Inr (index, name))"
    then obtain r where r1: "omx_peer_lookup_by_addr_locked a h' = Some r"
      by (cases "omx_peer_lookup_by_addr_locked a h'") (simp_all add: omx_peer_lookup_by_addr_def)
    with l obtain p where r: "omx_peer_lookup_by_addr_locked a h' = Some r" "get_peer r h' = Some p" "peer_index p = index"
      "name = (case peer_hostname p of None \<Rightarrow> [] | Some n \<Rightarrow> n)"
      by (cases "get_peer r h'") (simp_all add: omx_peer_lookup_by_addr_def)
    have "r \<in> tabled h'" "board_addr p = a" using lookup_Some [OF parts(3) r(1)] r(2) by auto
    moreover have "omx_peer_array h' (unat index) = Some r" "unat index < omx_peer_max h'"
      using tabled_entry [OF parts(2) calculation(1)] r(2,3) by auto
    ultimately show "omx_peer_lookup_by_index (unat index) h' = Some (Inr (a, name))"
      using r by (simp add: omx_peer_lookup_by_index_def)
  next
    assume l: "omx_peer_lookup_by_index (unat index) h' = Some (Inr (a, name))"
    then have "unat index < omx_peer_max h'" by (simp add: omx_peer_lookup_by_index_def split: if_splits)
    with l obtain r where r1: "omx_peer_array h' (unat index) = Some r"
      by (cases "omx_peer_array h' (unat index)") (simp_all add: omx_peer_lookup_by_index_def)
    with l \<open>unat index < _\<close> obtain p where r: "omx_peer_array h' (unat index) = Some r" "get_peer r h' = Some p" "board_addr p = a"
      "name = (case peer_hostname p of None \<Rightarrow> [] | Some n \<Rightarrow> n)"
      by (cases "get_peer r h'") (simp_all add: omx_peer_lookup_by_index_def)
    have "unat (peer_index p) = unat index" using array_entry [OF parts(2) r(1)] r(2) by auto
    then have "peer_index p = index" by (rule injD [OF inj_unsigned])
    moreover have "omx_peer_lookup_by_addr_locked a h' = Some r"
      using lookup_entry [OF parts(3,4) tabledI [OF r(1)] r(2)] r(3) by simp
    ultimately show "omx_peer_lookup_by_addr a h' = Some (Inr (index, name))"
      using r by (simp add: omx_peer_lookup_by_addr_def)
  qed
qed

text \<open>A host with room for four peers and two interfaces, and a short life with an endpoint in it.\<close>

definition small_env :: host_env where
  "small_env = \<lparr>omx_peer_max = 4, omx_iface_max = 2, omx_endpoint_max = 2, nodename = [104],
     dev_addr = (\<lambda>ifp. of_nat (ifp + 5)), dev_loopback = (\<lambda>_. False)\<rparr>"

definition small_host :: host where
  "small_host = projr (omx_peers_init small_env (\<lambda>_. Some (\<lambda>_. 0)))"

definition blank_endpoint :: drv_endpoint where
  "blank_endpoint = \<lparr>de_board_index = 0, de_endpoint_index = 0, de_session_id = 0, de_status = ENDPOINT_STATUS_FREE,
     de_refcount = 0, de_iface = None, de_userdesc = 0, de_sendq = (\<lambda>_. 0), de_recvq = (\<lambda>_. 0), de_exp = exp_queue_init,
     de_unexp = unexp_queue_init, de_regions = (\<lambda>_. None)\<rparr>"

definition small_life :: "driver_op list" where
  "small_life = [Iface_attach 0, Miscdev_open blank_endpoint,
     Endpoint_open 1 exp_queue_init unexp_queue_init (\<lambda>_. None) 0 (Some (0, 1)) 0, Acquire_endpoint 0 1,
     Peer_add 9 (Some [65]), Iface_detach 0 True, Release_endpoint 0]"

definition small_table :: "driver_op list" where
  "small_table = [Iface_attach 0, Peer_add 7 None, Peer_add 9 (Some [65])]"

lemma small_host_init: "omx_peers_init small_env (\<lambda>_. Some (\<lambda>_. 0)) = Inr small_host"
  by (simp add: small_host_def omx_peers_init_def Let_def numeral_2_eq_2 kmalloc_def host_env.defs)

lemma small_env_max: "omx_peer_max small_env \<le> OMX_PEER_INDEX_MAX"
  by (simp add: small_env_def OMX_PEER_INDEX_MAX_def)

lemma small_life_relied: "run_relied_on False small_life small_host"
  by code_simp


theorem peer_lookups_agree_witness:
  "\<exists>h'. driver_run False small_table small_host = Some h'
    \<and> omx_peer_lookup_by_addr 9 h' = Some (Inr (2, [65])) \<and> omx_peer_lookup_by_index 2 h' = Some (Inr (9, [65]))"
proof -
  have relied: "run_relied_on False small_table small_host" by code_simp
  have "map_option (omx_peer_lookup_by_addr 9) (driver_run False small_table small_host) = Some (Some (Inr (2, [65])))"
    by code_simp
  then obtain h' where h': "driver_run False small_table small_host = Some h'"
    "omx_peer_lookup_by_addr 9 h' = Some (Inr (2, [65]))" by auto
  then show ?thesis
    using peer_lookups_agree [OF small_host_init small_env_max relied h'(1), of 9 2 "[65]"] by simp
qed

end
