(* ===== verification/Name_Resolution.thy ===== *)
theory Name_Resolution
  imports Driver_Run
begin

text \<open>
  The name of a peer is found out: a host asks, on every interface and again at each round of its timer,
  for the names it does not have; the host that is asked answers with its name and the index it has for
  the asking one; and the answer ends the questions.
\<close>

subsection \<open>Asking\<close>

definition memory_ok :: "host \<Rightarrow> bool" where
  "memory_ok h \<longleftrightarrow> (\<forall>n. kmem h n \<noteq> None)"

definition sends :: "(nat \<times> skb) list \<Rightarrow> (nat \<Rightarrow> memory option) \<Rightarrow> host \<Rightarrow> host" where
  "sends l m h = h\<lparr>kmem := m, xmit := xmit h @ l\<rparr>"

lemma sends_fields [simp]:
  "iface_store (sends l m h) = iface_store h" "remote_peers (sends l m h) = remote_peers h" "kmem (sends l m h) = m"
  "xmit (sends l m h) = xmit h @ l" "dev_addr (sends l m h) = dev_addr h" "get_peer r (sends l m h) = get_peer r h"
  "attached_ifaces (sends l m h) = attached_ifaces h" "omx_host_query_magic (sends l m h) = omx_host_query_magic h"
  "strip (sends l m h) = strip h" "sends k m' (sends l m h) = sends (l @ k) m' h"
  by (simp_all add: sends_def get_peer_def attached_ifaces_def strip_def split: peer_ref.splits)

lemma iface_ok_sends [simp]: "iface_ok (sends l m h) \<longleftrightarrow> iface_ok h"
  using strip_ok(7) sends_fields(9) by metis

abbreviation ifp_of :: "host \<Rightarrow> nat \<Rightarrow> nat" where
  "ifp_of h f \<equiv> if_ifp (the (iface_store h f))"

lemma query_send_all:
  assumes "memory_ok h" "\<And>f. f \<in> set fs \<Longrightarrow> iface_store h f \<noteq> None"
  shows "\<exists>m. omx_peer_host_query_send skb fs h = Some (sends
      (map (\<lambda>f. (ifp_of h f, skb\<lparr>sk_mem := write_h_source (dev_addr h (ifp_of h f)) (sk_mem skb)\<rparr>)) fs) m h) \<and> (\<forall>n. m n \<noteq> None)"
  using assms
proof (induction fs arbitrary: h)
  case Nil
  have "sends [] (kmem h) h = h" by (simp add: sends_def)
  then show ?case using Nil(1) by (auto simp: memory_ok_def intro!: exI [of _ "kmem h"])
next
  case (Cons f fs)
  obtain i where i: "iface_store h f = Some i" using Cons.prems(2) [of f] by auto
  obtain x where x: "kmem h 0 = Some x" using Cons.prems(1) by (auto simp: memory_ok_def)
  let ?p = "(if_ifp i, skb\<lparr>sk_mem := write_h_source (dev_addr h (if_ifp i)) (sk_mem skb)\<rparr>)"
  let ?h = "sends [?p] (\<lambda>n. kmem h (Suc n)) h"
  have "memory_ok ?h" using Cons.prems(1) by (simp add: memory_ok_def)
  then obtain m where m: "omx_peer_host_query_send skb fs ?h = Some (sends
      (map (\<lambda>f. (ifp_of h f, skb\<lparr>sk_mem := write_h_source (dev_addr h (ifp_of h f)) (sk_mem skb)\<rparr>)) fs) m ?h)" "\<forall>n. m n \<noteq> None"
    using Cons.IH [of ?h] Cons.prems(2) by auto
  have "omx_peer_host_query_send skb (f # fs) h = omx_peer_host_query_send skb fs ?h"
    using i x by (simp add: kmalloc_def dev_queue_xmit_def sends_def Let_def)
  then show ?case using m i by auto
qed

definition query_skb :: "bool \<Rightarrow> u64 \<Rightarrow> u64 \<Rightarrow> u16 \<Rightarrow> u32 \<Rightarrow> memory \<Rightarrow> skb" where
  "query_skb ec own addr index magic junk = \<lparr>sk_len = ETH_ZLEN, sk_headlen = ETH_ZLEN,
     sk_mem = write_h_source own (host_query_packet ec addr index magic junk)\<rparr>"

lemma query_all:
  assumes mem: "memory_ok h" and ok: "iface_ok h" and p: "get_peer r h = Some p"
  shows "\<exists>m junk. omx_peer_host_query ec r h = Some (sends (map (\<lambda>f. (ifp_of h f, query_skb ec (dev_addr h (ifp_of h f))
      (board_addr p) (ucast (peer_index p)) (omx_host_query_magic h) junk)) (attached_ifaces h)) m h) \<and> (\<forall>n. m n \<noteq> None)"
proof -
  obtain junk where x: "kmem h 0 = Some junk" using mem by (auto simp: memory_ok_def)
  let ?h = "sends [] (\<lambda>n. kmem h (Suc n)) h"
  let ?s = "\<lparr>sk_len = ETH_ZLEN, sk_headlen = ETH_ZLEN,
      sk_mem = host_query_packet ec (board_addr p) (ucast (peer_index p)) (omx_host_query_magic h) junk\<rparr>"
  have "memory_ok ?h" using mem by (simp add: memory_ok_def)
  moreover have "iface_store ?h f \<noteq> None" if "f \<in> set (attached_ifaces h)" for f
    using attached_ifaces_exist [OF ok that] by auto
  ultimately obtain m where m: "omx_peer_host_query_send ?s (attached_ifaces h) ?h = Some (sends
      (map (\<lambda>f. (ifp_of h f, ?s\<lparr>sk_mem := write_h_source (dev_addr h (ifp_of h f)) (sk_mem ?s)\<rparr>)) (attached_ifaces h)) m ?h)"
    "\<forall>n. m n \<noteq> None"
    using query_send_all [of ?h "attached_ifaces h" ?s] by auto
  have h1: "?h = h\<lparr>kmem := \<lambda>n. kmem h (Suc n)\<rparr>" by (simp add: sends_def)
  have "omx_peer_host_query ec r h = omx_peer_host_query_send ?s (attached_ifaces h) ?h"
    using p x by (simp add: omx_peer_host_query_def alloc_skb_def kmalloc_def omx_new_skb_def h1 attached_ifaces_def)
  then show ?thesis using m by (auto simp: query_skb_def)
qed

lemma queries_all:
  assumes "memory_ok h" "iface_ok h" "\<And>r. r \<in> set rs \<Longrightarrow> get_peer r h \<noteq> None"
  shows "\<exists>m l. foreach (omx_peer_host_query ec) rs h = Some (sends l m h)
    \<and> (\<forall>r p f. r \<in> set rs \<longrightarrow> get_peer r h = Some p \<longrightarrow> f \<in> set (attached_ifaces h) \<longrightarrow>
        (\<exists>junk. (ifp_of h f, query_skb ec (dev_addr h (ifp_of h f)) (board_addr p) (ucast (peer_index p)) (omx_host_query_magic h) junk) \<in> set l))"
  using assms
proof (induction rs arbitrary: h)
  case Nil
  have "sends [] (kmem h) h = h" by (simp add: sends_def)
  then show ?case by (auto intro!: exI [of _ "kmem h"] exI [of _ "[]"])
next
  case (Cons r rs)
  obtain p where p: "get_peer r h = Some p" using Cons.prems(3) [of r] by auto
  obtain m junk where m: "omx_peer_host_query ec r h = Some (sends (map (\<lambda>f. (ifp_of h f, query_skb ec (dev_addr h (ifp_of h f))
      (board_addr p) (ucast (peer_index p)) (omx_host_query_magic h) junk)) (attached_ifaces h)) m h)" "\<forall>n. m n \<noteq> None"
    using query_all [OF Cons.prems(1,2) p] by blast
  let ?k = "map (\<lambda>f. (ifp_of h f, query_skb ec (dev_addr h (ifp_of h f))
      (board_addr p) (ucast (peer_index p)) (omx_host_query_magic h) junk)) (attached_ifaces h)"
  let ?h = "sends ?k m h"
  have "memory_ok ?h" using m(2) by (simp add: memory_ok_def)
  moreover have "iface_ok ?h" using Cons.prems(2) by simp
  moreover have "get_peer s ?h \<noteq> None" if "s \<in> set rs" for s using Cons.prems(3) [of s] that by simp
  ultimately obtain m' l where l: "foreach (omx_peer_host_query ec) rs ?h = Some (sends l m' ?h)"
    "\<And>s q f. s \<in> set rs \<Longrightarrow> get_peer s h = Some q \<Longrightarrow> f \<in> set (attached_ifaces h) \<Longrightarrow>
        \<exists>junk. (ifp_of h f, query_skb ec (dev_addr h (ifp_of h f)) (board_addr q) (ucast (peer_index q)) (omx_host_query_magic h) junk) \<in> set l"
    using Cons.IH [of ?h] by auto
  show ?case
  proof (rule exI [of _ m'], rule exI [of _ "?k @ l"], intro conjI allI impI)
    show "foreach (omx_peer_host_query ec) (r # rs) h = Some (sends (?k @ l) m' h)"
      using m(1) l(1) by simp
    fix s q f
    assume s: "s \<in> set (r # rs)" "get_peer s h = Some q" "f \<in> set (attached_ifaces h)"
    show "\<exists>k. (ifp_of h f, query_skb ec (dev_addr h (ifp_of h f)) (board_addr q) (ucast (peer_index q)) (omx_host_query_magic h) k)
      \<in> set (?k @ l)"
    proof (cases "s = r")
      case True
      then show ?thesis using s p by (auto intro!: exI [of _ junk])
    next
      case False
      then show ?thesis using l(2) [of s q f] s by auto
    qed
  qed
qed

text \<open>One round of the timer asks for every missing name, and starts the timer again.\<close>

lemma round_asks:
  assumes ok: "driver_ok a" and mem: "memory_ok a" and n: "remote_peers a n = Some p" "peer_hostname p = None"
    and f: "f \<in> attached a" "iface_store a f = Some i"
  shows "\<exists>a1 junk. omx_host_query_workfunc ec (omx_host_query_timer_handler a) = Some a1 \<and> omx_host_query_timer a1
    \<and> (if_ifp i, query_skb ec (dev_addr a (if_ifp i)) (board_addr p) (ucast (peer_index p)) (omx_host_query_magic a) junk)
      \<in> set (xmit a1)"
proof -
  let ?h = "(omx_host_query_timer_handler a)\<lparr>omx_host_query_work := False\<rparr>"
  have parts: "query_ok a" "iface_ok a" using ok by (simp_all add: driver_ok_def table_ok_def parts_ok_def)
  have get: "get_peer r ?h = get_peer r a" for r by (simp add: get_peer_def omx_host_query_timer_handler_def split: peer_ref.splits)
  have same: "attached_ifaces ?h = attached_ifaces a" "iface_store ?h = iface_store a" "dev_addr ?h = dev_addr a"
    "omx_host_query_magic ?h = omx_host_query_magic a" "omx_host_query_peer_list ?h = omx_host_query_peer_list a"
    by (simp_all add: omx_host_query_timer_handler_def attached_ifaces_def)
  have listed: "Remote n \<in> set (omx_host_query_peer_list a)" using parts(1) n by (simp add: query_ok_def)
  have "memory_ok ?h" using mem by (simp add: memory_ok_def omx_host_query_timer_handler_def)
  moreover have "iface_ok ?h" using parts(2) by (simp add: iface_ok_def omx_host_query_timer_handler_def)
  moreover have "get_peer r ?h \<noteq> None" if "r \<in> set (omx_host_query_peer_list a)" for r
    using parts(1) that get by (auto simp: query_ok_def get_peer_def)
  ultimately obtain m l where l: "foreach (omx_peer_host_query ec) (omx_host_query_peer_list a) ?h = Some (sends l m ?h)"
    "\<And>r q g. r \<in> set (omx_host_query_peer_list a) \<Longrightarrow> get_peer r a = Some q \<Longrightarrow> g \<in> set (attached_ifaces a) \<Longrightarrow>
        \<exists>junk. (ifp_of a g, query_skb ec (dev_addr a (ifp_of a g)) (board_addr q) (ucast (peer_index q)) (omx_host_query_magic a) junk) \<in> set l"
    using queries_all [of ?h "omx_host_query_peer_list a" ec] unfolding get same by blast
  have "omx_host_query_peer_list a \<noteq> []" using listed by auto
  then have "omx_host_query_workfunc ec (omx_host_query_timer_handler a) = Some ((sends l m ?h)\<lparr>omx_host_query_timer := True\<rparr>)"
    using l(1) same(5) by (simp add: omx_host_query_workfunc_def Let_def)
  moreover have "f \<in> set (attached_ifaces a)" using f(1) set_attached_ifaces [OF parts(2)] by simp
  then obtain junk where "(if_ifp i, query_skb ec (dev_addr a (if_ifp i)) (board_addr p) (ucast (peer_index p)) (omx_host_query_magic a) junk) \<in> set l"
    using l(2) [OF listed, of p f] n(1) f(2) by (auto simp: get_peer_def)
  ultimately show ?thesis by auto
qed

subsection \<open>Answering\<close>

lemma from_netdevice: "omx_board_addr_from_netdevice x = take_bit 48 x"
  by (simp add: omx_board_addr_from_netdevice_def addr_from_source)

lemma dst_bytes:
  assumes "take_bit 48 x = take_bit 48 (y :: u64)"
  shows "read_mem (omx_board_addr_to_ethhdr_dst x m) 0 6 = read_mem (omx_board_addr_to_ethhdr_dst y m') 0 6"
proof -
  have bits: "bit x n = bit y n" if "n < 48" for n
    using assms that by (metis bit_take_bit_iff)
  have byte: "(ucast (drop_bit k x) :: u8) = ucast (drop_bit k y)" if "k \<le> 40" for k
    by (rule bit_word_eqI) (use that in \<open>auto simp: bit_simps intro!: bits\<close>)
  have "[ucast (drop_bit 40 x) :: u8, ucast (drop_bit 32 x), ucast (drop_bit 24 x), ucast (drop_bit 16 x), ucast (drop_bit 8 x), ucast x]
      = [ucast (drop_bit 40 y), ucast (drop_bit 32 y), ucast (drop_bit 24 y), ucast (drop_bit 16 y), ucast (drop_bit 8 y), ucast y]"
    using byte [of 40] byte [of 32] byte [of 24] byte [of 16] byte [of 8] byte [of 0] by simp
  moreover have "read_mem (write_mem 0 [a, b, c, d, e, f] m) 0 6 = [a, b, c, d, e, f]" for a b c d e f m
    using read_write_same [of 0 "[a, b, c, d, e, f]" m] by (simp add: eval_nat_numeral)
  ultimately show ?thesis unfolding omx_board_addr_to_ethhdr_dst_def by simp
qed

lemma query_for_us:
  assumes "take_bit 48 own = take_bit 48 addr"
  shows "h_dest_is own (sk_mem (query_skb ec src addr index magic junk))"
proof -
  have "read_mem (sk_mem (query_skb ec src addr index magic junk)) 0 6
      = read_mem (omx_board_addr_to_ethhdr_dst addr m') 0 6" for m'
    unfolding query_skb_def host_query_packet_def write_h_source_def
    by (simp add: read_write_disjoint) (rule dst_bytes, simp)
  then show ?thesis unfolding h_dest_is_def using dst_bytes [OF assms] by metis
qed

lemma query_fields:
  "omx_board_addr_from_ethhdr_src (sk_mem (query_skb ec src addr index magic junk)) = take_bit 48 src"
  "OMX_NTOH_16 ec (pkt_head_len + 2) (sk_mem (query_skb ec src addr index magic junk)) = index"
  "OMX_NTOH_32 ec (pkt_head_len + 8) (sk_mem (query_skb ec src addr index magic junk)) = magic"
proof -
  show "omx_board_addr_from_ethhdr_src (sk_mem (query_skb ec src addr index magic junk)) = take_bit 48 src"
    by (simp add: query_skb_def addr_from_source)
  show "OMX_NTOH_16 ec (pkt_head_len + 2) (sk_mem (query_skb ec src addr index magic junk)) = index"
    unfolding query_skb_def host_query_packet_def by (simp add: pkt_head_len_def wire_simps)
  show "OMX_NTOH_32 ec (pkt_head_len + 8) (sk_mem (query_skb ec src addr index magic junk)) = magic"
    unfolding query_skb_def host_query_packet_def by (simp add: pkt_head_len_def wire_simps)
qed

definition reply_skb :: "bool \<Rightarrow> u64 \<Rightarrow> u16 \<Rightarrow> bytes \<Rightarrow> skb \<Rightarrow> memory \<Rightarrow> skb" where
  "reply_skb ec own index name query junk = \<lparr>sk_len = ETH_ZLEN + (length name + 1), sk_headlen = ETH_ZLEN + (length name + 1),
     sk_mem = host_reply_packet ec own index name query junk\<rparr>"

lemma set_reverse_frame:
  assumes run: "omx_peer_set_reverse_index p f w h = Some h'"
  shows "kmem h' = kmem h" "xmit h' = xmit h" "dev_addr h' = dev_addr h" "remote_peers h' = remote_peers h"
    "\<exists>i'. iface_store h' f = Some i' \<and> reverse_peer_indexes i' (unat (peer_index p)) = ucast w"
proof -
  obtain i where i: "iface_store h f = Some i"
    using run by (cases "iface_store h f") (simp_all add: omx_peer_set_reverse_index_def)
  let ?i = "i\<lparr>reverse_peer_indexes := (reverse_peer_indexes i)(unat (peer_index p) := ucast w)\<rparr>"
  have "h' = (if ucast w = reverse_peer_indexes i (unat (peer_index p)) then h else set_iface f (Some ?i) h)"
    using run i by (simp add: omx_peer_set_reverse_index_def set_reverse_def bind_eq_Some_conv split: if_splits)
  then show "kmem h' = kmem h" "xmit h' = xmit h" "dev_addr h' = dev_addr h" "remote_peers h' = remote_peers h"
      "\<exists>i'. iface_store h' f = Some i' \<and> reverse_peer_indexes i' (unat (peer_index p)) = ucast w"
    using i by (simp_all add: set_iface_def)
qed

lemma query_answered:
  assumes ok: "driver_ok b" and mem: "memory_ok b" and g: "g \<in> attached b" "iface_store b g = Some j"
    and name: "peer_hostname (if_peer j) = Some name"
    and known: "omx_peer_lookup_by_addr_locked (take_bit 48 src) b = Some r" "get_peer r b = Some q"
  shows "\<exists>b2 junk2. process_host_query ec g (query_skb ec src addr index magic junk) b = Some b2 \<and> table_ok b2
    \<and> xmit b2 = xmit b @ [(if_ifp j, reply_skb ec (dev_addr b (if_ifp j)) (ucast (peer_index q)) name
        (query_skb ec src addr index magic junk) junk2)]"
proof -
  let ?s = "query_skb ec src addr index magic junk"
  have tab: "table_ok b" using ok by (simp add: driver_ok_def)
  have "r \<in> tabled b" using lookup_Some [OF table_okD(3) [OF tab] known(1)] by blast
  then have "unat (peer_index q) < omx_peer_max b" using tabled_entry [OF table_okD(2) [OF tab]] known(2) by (metis option.inject)
  then obtain b1 where b1: "omx_peer_set_reverse_index q g index b = Some b1" "strip b1 = strip b"
    using peer_set_reverse_quiet [OF g(2)] by metis
  obtain junk2 where k: "kmem b 0 = Some junk2" using mem by (auto simp: memory_ok_def)
  note frame = set_reverse_frame [OF b1(1)]
  let ?b2 = "dev_queue_xmit (if_ifp j) (reply_skb ec (dev_addr b (if_ifp j)) (ucast (peer_index q)) name ?s junk2)
      (b1\<lparr>kmem := \<lambda>n. kmem b (Suc n)\<rparr>)"
  have "process_host_query ec g ?s b = Some ?b2"
    using g(2) name known b1(1) k frame query_fields(1,2) [of ec src addr index magic junk]
    by (simp add: process_host_query_def alloc_skb_def kmalloc_def omx_new_skb_def reply_skb_def Let_def)
  moreover have "xmit ?b2 = xmit b @ [(if_ifp j, reply_skb ec (dev_addr b (if_ifp j)) (ucast (peer_index q)) name ?s junk2)]"
    using frame(2) by (simp add: dev_queue_xmit_def)
  moreover have "strip ?b2 = strip b" using b1(2) by (simp add: strip_def dev_queue_xmit_def)
  then have "table_ok ?b2" using table_ok_strip tab by blast
  ultimately show ?thesis by blast
qed

subsection \<open>The answer\<close>

lemma reply_fields:
  fixes ec own index query junk
  assumes "length name < 255" "0 \<notin> set name"
  defines "t \<equiv> reply_skb ec own index name query junk"
  shows "omx_board_addr_from_ethhdr_src (sk_mem t) = take_bit 48 own"
    "OMX_NTOH_16 ec (pkt_head_len + 2) (sk_mem t) = index"
    "OMX_NTOH_32 ec (pkt_head_len + 8) (sk_mem t) = OMX_NTOH_32 ec (pkt_head_len + 8) (sk_mem query)"
    "unat (OMX_NTOH_8 (pkt_head_len + 1) (sk_mem t)) = length name + 1"
    "reply_hostname t (length name + 1) x = Some name"
proof -
  have len: "length (read_mem (sk_mem query) 6 6) = 6" "length (read_mem (sk_mem query) 24 4) = 4" by simp_all
  show "omx_board_addr_from_ethhdr_src (sk_mem t) = take_bit 48 own"
  proof -
    have "omx_board_addr_from_ethhdr_src (write_mem 0 bs m) = omx_board_addr_from_ethhdr_src m" if "length bs = 6" for bs m
      using that by (simp add: omx_board_addr_from_ethhdr_src_def write_mem_outside)
    then show ?thesis unfolding t_def reply_skb_def host_reply_packet_def by (simp add: addr_from_source)
  qed
  have under: "OMX_NTOH_8 k (write_mem 0 bs m) = OMX_NTOH_8 k m" "OMX_NTOH_16 ec k (write_mem 0 bs m) = OMX_NTOH_16 ec k m"
    "OMX_NTOH_32 ec k (write_mem 0 bs m) = OMX_NTOH_32 ec k m" if "length bs \<le> k" for bs k m
    using that by (simp_all add: wire_other)
  show "OMX_NTOH_16 ec (pkt_head_len + 2) (sk_mem t) = index"
    unfolding t_def reply_skb_def host_reply_packet_def
    by (simp add: pkt_head_len_def pkt_host_reply_len_def under wire_simps)
  show "unat (OMX_NTOH_8 (pkt_head_len + 1) (sk_mem t)) = length name + 1"
    unfolding t_def reply_skb_def host_reply_packet_def using assms(1)
    by (simp add: pkt_head_len_def pkt_host_reply_len_def under wire_simps unsigned_of_nat take_bit_nat_eq_self del: of_nat_Suc of_nat_add)
  have "OMX_NTOH_32 ec 24 (write_mem 24 (read_mem (sk_mem query) 24 4) m) = OMX_NTOH_32 ec 24 (sk_mem query)" for m
    using read_write_same [of 24 "read_mem (sk_mem query) 24 4" m] by (simp add: OMX_NTOH_32_def)
  then show "OMX_NTOH_32 ec (pkt_head_len + 8) (sk_mem t) = OMX_NTOH_32 ec (pkt_head_len + 8) (sk_mem query)"
    unfolding t_def reply_skb_def host_reply_packet_def
    by (simp add: pkt_head_len_def pkt_host_reply_len_def under wire_simps)
  have "read_mem (sk_mem t) 32 (length name + 1) = name @ [0]"
  proof -
    have "read_mem (write_mem 0 bs m) 32 n = read_mem m 32 n" if "length bs = 6" for bs m n
      using that by (simp add: read_write_disjoint)
    moreover have "read_mem (write_mem 32 (name @ [0]) m) 32 (length name + 1) = name @ [0]" for m
      using read_write_same [of 32 "name @ [0]" m] by simp
    ultimately show ?thesis
      unfolding t_def reply_skb_def host_reply_packet_def
      by (simp add: pkt_head_len_def pkt_host_reply_len_def wire_simps)
  qed
  then have "skb_copy_bits t (pkt_head_len + pkt_host_reply_len) (length name + 1) = Some (name @ [0])"
    by (simp add: skb_copy_bits_def pkt_head_len_def pkt_host_reply_len_def) (simp add: t_def reply_skb_def ETH_ZLEN_def)
  moreover have "takeWhile (\<lambda>c. c \<noteq> 0) (name @ [0]) = name"
    using assms(2) by (simp add: takeWhile_append2 takeWhile_tail) (metis takeWhile_eq_all_conv)
  ultimately show "reply_hostname t (length name + 1) x = Some name"
    by (simp add: reply_hostname_def Let_def)
qed

text \<open>What the answer does to a host that still has no name for the peer.\<close>

lemma answer_taken:
  assumes ok: "driver_ok a" and mem: "memory_ok a" and n: "remote_peers a n = Some p" "board_addr p = take_bit 48 own"
    and f: "f \<in> attached a" "iface_store a f = Some i" and name: "length name < 255" "0 \<notin> set name"
  shows "\<exists>a'. process_host_reply ec f (reply_skb ec own index name query junk) a = Some a' \<and> table_ok a'
    \<and> remote_peers a' n = Some (p\<lparr>peer_hostname := Some name\<rparr>) \<and> Remote n \<notin> set (omx_host_query_peer_list a')
    \<and> (\<exists>i'. iface_store a' f = Some i' \<and> reverse_peer_indexes i' (unat (peer_index p)) = ucast index)"
proof -
  let ?t = "reply_skb ec own index name query junk"
  have tab: "table_ok a" using ok by (simp add: driver_ok_def)
  note parts = table_okD [OF tab] and fields = reply_fields [OF name]
  have "reply_ok a (f, ?t)" using f(1) fields(4) by (simp add: reply_ok_def)
  then obtain a' where a': "process_host_reply ec f ?t a = Some a'" "table_ok a'"
    using process_host_reply_ok [OF tab] by blast
  have "remote_peers a n \<noteq> None \<longleftrightarrow> Remote n \<in> tabled a" using parts(5) unfolding remote_ok_def by blast
  then have r: "Remote n \<in> tabled a" using n(1) by simp
  have get: "get_peer (Remote n) a = Some p" using n(1) by (simp add: get_peer_def)
  have look: "omx_peer_lookup_by_addr_locked (take_bit 48 own) a = Some (Remote n)"
    using lookup_entry [OF parts(3,4) r get] n(2) by simp
  obtain x where x: "kmem a 0 = Some x" using mem by (auto simp: memory_ok_def)
  let ?a1 = "a\<lparr>kmem := \<lambda>n. kmem a (Suc n)\<rparr>"
  have "(if peer_hostname p = None then host_query_del (Remote n) ?a1 else Some ?a1) \<bind>
      (\<lambda>h2. put_peer (Remote n) (p\<lparr>peer_hostname := Some name\<rparr>) h2 \<bind> omx_peer_set_reverse_index p f index) = Some a'"
    using a'(1) look x n(1) fields by (simp add: process_host_reply_def kmalloc_def get_peer_def)
  then obtain h2 h3 where h: "(if peer_hostname p = None then host_query_del (Remote n) ?a1 else Some ?a1) = Some h2"
    "put_peer (Remote n) (p\<lparr>peer_hostname := Some name\<rparr>) h2 = Some h3" "omx_peer_set_reverse_index p f index h3 = Some a'"
    unfolding bind_eq_Some_conv by blast
  have "remote_peers h2 = remote_peers a"
    using h(1) by (cases "peer_hostname p") (auto simp: host_query_del_def Let_def bind_eq_Some_conv)
  then have "remote_peers h3 n = Some (p\<lparr>peer_hostname := Some name\<rparr>)" using h(2) n(1) by (auto simp: put_peer_def)
  then have named: "remote_peers a' n = Some (p\<lparr>peer_hostname := Some name\<rparr>)" using set_reverse_frame(4) [OF h(3)] by simp
  then have "Remote n \<notin> set (omx_host_query_peer_list a')" using table_okD(6) [OF a'(2)] by (simp add: query_ok_def)
  then show ?thesis using a' named set_reverse_frame(5) [OF h(3)] by blast
qed

text \<open>
  C6: Names are found out. In a round of its timer a host asks on each of its interfaces for the name of
  a peer it has none of, and starts the timer again. The host that owns the address takes the packet,
  and, if it knows the asking interface, answers with its name. The asking host, whatever it did in the
  meantime, takes the answer: the peer has the name, is asked no more, and the interface knows under
  which index the peer has it.
\<close>

theorem name_resolved:
  assumes a: "driver_ok a" "memory_ok a" "remote_peers a n = Some p" "peer_hostname p = None"
      "f \<in> attached a" "iface_store a f = Some i"
    and b: "driver_ok b" "memory_ok b" "g \<in> attached b" "iface_store b g = Some j"
      "board_addr p = omx_board_addr_from_netdevice (dev_addr b (if_ifp j))"
    and name: "peer_hostname (if_peer j) = Some name" "length name < 255" "0 \<notin> set name"
    and known: "omx_peer_lookup_by_addr_locked (omx_board_addr_from_netdevice (dev_addr a (if_ifp i))) b = Some r"
      "get_peer r b = Some q"
    and later: "driver_ok a2" "memory_ok a2" "remote_peers a2 n = Some p2" "board_addr p2 = board_addr p"
      "f \<in> attached a2" "omx_host_query_magic a2 = omx_host_query_magic a"
  shows "\<exists>a1 s b2 t a3 i3. omx_host_query_workfunc ec (omx_host_query_timer_handler a) = Some a1
    \<and> omx_host_query_timer a1 \<and> (if_ifp i, s) \<in> set (xmit a1)
    \<and> map_option fst (omx_recv_host_query g s b) = Some (Inr ())
    \<and> process_host_query ec g s b = Some b2 \<and> (if_ifp j, t) \<in> set (xmit b2)
    \<and> fst (omx_recv_host_reply ec f t a2) = Inr ()
    \<and> process_host_reply ec f t a2 = Some a3 \<and> remote_peers a3 n = Some (p2\<lparr>peer_hostname := Some name\<rparr>)
    \<and> Remote n \<notin> set (omx_host_query_peer_list a3)
    \<and> iface_store a3 f = Some i3 \<and> reverse_peer_indexes i3 (unat (peer_index p2)) = ucast (ucast (peer_index q) :: u16)"
proof -
  obtain a1 junk where a1: "omx_host_query_workfunc ec (omx_host_query_timer_handler a) = Some a1" "omx_host_query_timer a1"
    "(if_ifp i, query_skb ec (dev_addr a (if_ifp i)) (board_addr p) (ucast (peer_index p)) (omx_host_query_magic a) junk) \<in> set (xmit a1)"
    using round_asks [OF a] by blast
  let ?s = "query_skb ec (dev_addr a (if_ifp i)) (board_addr p) (ucast (peer_index p)) (omx_host_query_magic a) junk"
  have "h_dest_is (dev_addr b (if_ifp j)) (sk_mem ?s)"
    by (rule query_for_us) (simp add: b(5) from_netdevice)
  then have recv: "map_option fst (omx_recv_host_query g ?s b) = Some (Inr ())" using b(4) by (simp add: omx_recv_host_query_def)
  obtain b2 junk2 where b2: "process_host_query ec g ?s b = Some b2"
    "xmit b2 = xmit b @ [(if_ifp j, reply_skb ec (dev_addr b (if_ifp j)) (ucast (peer_index q)) name ?s junk2)]"
    using query_answered [OF b(1-4) name(1) known [unfolded from_netdevice]] by blast
  let ?t = "reply_skb ec (dev_addr b (if_ifp j)) (ucast (peer_index q)) name ?s junk2"
  have magic: "fst (omx_recv_host_reply ec f ?t a2) = Inr ()"
    using later(6) by (simp add: omx_recv_host_reply_def reply_fields(3) [OF name(2,3)] query_fields(3))
  obtain i2 where i2: "iface_store a2 f = Some i2" using attached_exists [OF driver_okD(4) [OF later(1)] later(5)] by blast
  have "board_addr p2 = take_bit 48 (dev_addr b (if_ifp j))" using later(4) b(5) by (simp add: from_netdevice)
  then obtain a3 i3 where a3: "process_host_reply ec f ?t a2 = Some a3" "remote_peers a3 n = Some (p2\<lparr>peer_hostname := Some name\<rparr>)"
    "Remote n \<notin> set (omx_host_query_peer_list a3)" "iface_store a3 f = Some i3"
    "reverse_peer_indexes i3 (unat (peer_index p2)) = ucast (ucast (peer_index q) :: u16)"
    using answer_taken [OF later(1-3) _ later(5) i2 name(2,3)] by blast
  have "(if_ifp j, ?t) \<in> set (xmit b2)" using b2(2) by simp
  then show ?thesis using a1 recv b2(1) magic a3 by blast
qed

text \<open>Two small hosts with one interface each that know each other's address.\<close>

definition asking_host :: host where
  "asking_host = (the (driver_run False [Iface_attach 0, Peer_add 6 None] small_host))\<lparr>kmem := (\<lambda>_. Some (\<lambda>_. 0))\<rparr>"

definition asked_host :: host where
  "asked_host = (the (driver_run False [Iface_attach 1, Peer_add 5 (Some [65])] small_host))\<lparr>kmem := (\<lambda>_. Some (\<lambda>_. 0))\<rparr>"

lemma small_run_ok:
  assumes "run_relied_on False ops small_host"
  shows "driver_ok ((the (driver_run False ops small_host))\<lparr>kmem := m\<rparr>)"
proof -
  obtain h where h: "driver_run False ops small_host = Some h" "driver_ok h"
    using driver_run_ok [OF init_ok [OF small_host_init small_env_max] assms] by blast
  have "strip (h\<lparr>kmem := m\<rparr>) = strip h" by (simp add: strip_def)
  then show ?thesis using driver_ok_strip h by simp
qed

lemma asking_host_facts:
  "driver_ok asking_host" "memory_ok asking_host"
  "case remote_peers asking_host 0 of None \<Rightarrow> False | Some p \<Rightarrow> peer_hostname p = None \<and> board_addr p = 6"
  "omx_ifaces asking_host 0 = Some 0" "case iface_store asking_host 0 of None \<Rightarrow> False | Some i \<Rightarrow> if_ifp i = 0"
  "dev_addr asking_host 0 = 5"
proof -
  show "driver_ok asking_host" unfolding asking_host_def by (rule small_run_ok) code_simp
  show "memory_ok asking_host" by (simp add: memory_ok_def asking_host_def)
qed code_simp+

lemma asked_host_facts:
  "driver_ok asked_host" "memory_ok asked_host"
  "omx_peer_lookup_by_addr_locked 5 asked_host = Some (Remote 0)" "get_peer (Remote 0) asked_host \<noteq> None"
  "omx_ifaces asked_host 0 = Some 0"
  "case iface_store asked_host 0 of None \<Rightarrow> False | Some i \<Rightarrow> if_ifp i = 1 \<and> peer_hostname (if_peer i) = Some [104, 58, 48]"
  "dev_addr asked_host 1 = 6"
proof -
  show "driver_ok asked_host" unfolding asked_host_def by (rule small_run_ok) code_simp
  show "memory_ok asked_host" by (simp add: memory_ok_def asked_host_def)
qed code_simp+

theorem name_resolved_witness:
  "\<exists>s t a3 p. process_host_query False 0 s asked_host \<noteq> None \<and> process_host_reply False 0 t asking_host = Some a3
    \<and> remote_peers a3 0 = Some p \<and> peer_hostname p = Some [104, 58, 48]"
proof -
  obtain p where p: "remote_peers asking_host 0 = Some p" "peer_hostname p = None" "board_addr p = 6"
    using asking_host_facts(3) by (auto split: option.splits)
  obtain i where i: "iface_store asking_host 0 = Some i" "if_ifp i = 0" using asking_host_facts(5) by (auto split: option.splits)
  obtain j where j: "iface_store asked_host 0 = Some j" "if_ifp j = 1" "peer_hostname (if_peer j) = Some [104, 58, 48]"
    using asked_host_facts(6) by (auto split: option.splits)
  obtain q where q: "get_peer (Remote 0) asked_host = Some q" using asked_host_facts(4) by blast
  have att: "0 \<in> attached asking_host" "0 \<in> attached asked_host"
    using asking_host_facts(4) asked_host_facts(5) by (auto simp: ran_def)
  have from5: "omx_board_addr_from_netdevice 5 = 5" "omx_board_addr_from_netdevice 6 = 6" by code_simp+
  have addr: "board_addr p = omx_board_addr_from_netdevice (dev_addr asked_host (if_ifp j))"
    using p(3) j(2) asked_host_facts(7) from5 by simp
  have known: "omx_peer_lookup_by_addr_locked (omx_board_addr_from_netdevice (dev_addr asking_host (if_ifp i))) asked_host = Some (Remote 0)"
    using i(2) asking_host_facts(6) asked_host_facts(3) from5 by simp
  show ?thesis
    using name_resolved [where ec = False, OF asking_host_facts(1,2) p(1,2) att(1) i(1) asked_host_facts(1,2) att(2) j(1) addr j(3) _ _
      known q asking_host_facts(1,2) p(1) refl att(1) refl] by fastforce
qed

end
