(* ===== verification/Spec2Isabelle.thy ===== *)
theory Spec2Isabelle
  imports API Send_Window Event_Delivery Pull_Delivery Xen_Regions Name_Resolution
begin

text \<open>
  A verification library of Open-MX over Xen (Xen2MX): message passing between endpoints over raw
  Ethernet, from applications that may run in a Xen guest. Source files are named relative to \<open>src/\<close>.

  \<^bold>\<open>The program.\<close> An application links the library (\<open>libxen2mx/\<close>; \<open>libopen-mx/\<close> is its twin for hosts
  without Xen). The library keeps an endpoint: its partners, its requests and the queues they wait in.
  It sends by ioctls to a driver and receives by polling two rings of events that the driver fills.
  Small messages are copied through slots of a send queue and a receive queue; of large messages only
  a \<open>rndv\<close> is sent, and the receiver's driver pulls the data out of a region that the sender's library
  registered. The network loses, repeats and reorders packets; the library numbers its messages,
  acknowledges them and sends them again, and the drivers do the same for the frames of a pull. The
  plain driver is \<open>driver/linux/\<close>. Under Xen it is split: a frontend in the guest (\<open>driver/frontend/\<close>)
  forwards the ioctls over a shared ring to a backend in the driver domain (\<open>driver/backend/\<close>), which
  reaches the memory of the guest through grant references.

  \<^bold>\<open>Conventions.\<close> Definitions have the names of the C functions they translate. A result of type
  \<open>'a option\<close> is \<open>None\<close> where the code aborts, hits a \<open>BUG_ON\<close>, reads or writes outside an array, or
  does not return; error codes are values. A C list is a list, a pointer to an object of a store is its
  number, a structure is a record, an integer whose wrap-around matters has its width (\<open>u8\<close>, \<open>u16\<close>,
  \<open>u32\<close>, \<open>u64\<close>); the others are \<open>nat\<close>. Memory is a function from addresses to bytes.

  \<^bold>\<open>The library.\<close>
    \<^item> \<open>Prelude\<close>: words, \<open>c_assert\<close>, \<open>foreach\<close>, lists as queues, byte memory. \<open>Free_List\<close>: free entries of
      an array linked by index, and the locale \<open>slot_pool\<close> of allocators, which \<open>Sendq_Map\<close> and
      \<open>Region_Map\<close> interpret.
    \<^item> \<open>Sendq_Map\<close> (\<open>omx_lib.h\<close>, \<open>omx_endpoint.c\<close>): slots of the send queue. \<open>Segments\<close> (\<open>omx_segments.h\<close>):
      vectorial buffers, copies in both directions, partial copies, checksums. \<open>Seqnum\<close> (\<open>omx_types.h\<close>):
      sequence numbers of 14 bits within sessions of 2.
    \<^item> \<open>Driver_Interface\<close>: return codes and parameters of the ioctls. \<open>Region_Map\<close> (\<open>omx_large.c\<close>):
      registered regions and their cache. \<open>Types\<close>: requests, partners, endpoint, events.
    \<^item> \<open>Request_Queues\<close>, \<open>Partner_Acks\<close>, \<open>Send\<close>, \<open>Large_Messages\<close>, \<open>Ack\<close>, \<open>Connect\<close>, \<open>Recv\<close>, \<open>Resend\<close>, \<open>Progress\<close>,
      \<open>API\<close>: the operations on an endpoint, in the order in which the code calls them, from
      \<open>omx_request.h\<close>, \<open>omx_lib.h\<close>, \<open>omx_send.c\<close>, \<open>omx_large.c\<close>, \<open>omx_ack.c\<close>, \<open>omx_partner.c\<close>, \<open>omx_recv.c\<close>,
      \<open>omx_lib.c\<close> and \<open>omx_test.c\<close>. Their state is the record \<open>omx_endpoint\<close>.
    \<^item> \<open>Send_Window\<close>: the window protocol of the sender in the abstract, and the proof that every kind of
      send and every acknowledgement implements it (locale \<open>sender\<close>, one interpretation for each kind).
      \<open>Sample_Endpoint\<close> is the endpoint of the concrete runs.

  \<^bold>\<open>The driver.\<close>
    \<^item> \<open>Driver_Events\<close> (\<open>omx_event.c\<close>) and \<open>Event_Delivery\<close>: the two rings of events, the waiting, and the
      contract of both sides (locale \<open>event_queue\<close>, interpreted for both rings): events are delivered
      once and in order. Where the code can be interrupted inside an operation its parts are steps of
      their own, and the races that follow are theorems.
    \<^item> \<open>Driver_Regions\<close> (\<open>omx_reg.c\<close>) and \<open>Region_Transfer\<close>: regions as lists of segments of pages, filling,
      copying and appending from any offset (locale \<open>region_cursor\<close> for the two kinds of cursors) and
      the copy between two processes of a host.
    \<^item> \<open>Pull\<close>, \<open>Pull_Driver\<close> (\<open>omx_pull.c\<close>): the handle of a pull with its window of blocks, the ioctl, the
      answer of the sender, replies, timers, nacks, and the end. \<open>Pull_Window\<close>, \<open>Pull_Answer\<close>, \<open>Pull_Run\<close>
      and \<open>Pull_Delivery\<close>: the invariant of the window, what is answered, all runs (relation \<open>pull_step\<close>:
      the network may lose, repeat and reorder, the copies of replies overlap), and the theorem that a
      reported success means that the bytes are there.
    \<^item> \<open>Wire\<close> (\<open>omx_wire.h\<close>, \<open>omx_wire_access.h\<close>, \<open>omx_misc.h\<close>): the headers of packets as bytes. \<open>Driver_Host\<close>
      (\<open>omx_peer.h\<close>, \<open>omx_iface.h\<close>, \<open>omx_endpoint.h\<close>): the state of a host as one record, peers, interfaces and
      endpoints in stores, where using a freed object is \<open>None\<close>; the allocator is an oracle in the state,
      so that every allocation may fail. \<open>Peers\<close> and \<open>Host_Queries\<close> (\<open>omx_peer.c\<close>): the table of peers, its
      hash, the reverse indexes, the queries for host names and their answers. \<open>Interfaces\<close> (\<open>omx_iface.c\<close>,
      \<open>omx_dev.c\<close>): attaching and detaching, opening and closing of endpoints.
    \<^item> \<open>Peer_Table\<close> states what a well-formed table is; \<open>Peer_Steps\<close>, \<open>Peer_Changes\<close> and \<open>Peer_Names\<close> show
      that the operations on peers come back and keep it, \<open>Endpoint_Frames\<close> that they leave the endpoints
      alone. \<open>Endpoint_Steps\<close>, \<open>Interface_Steps\<close>, \<open>Interface_Attach\<close> and \<open>Interface_Detach\<close> do the same for
      the operations on endpoints and interfaces, with the counts of references. \<open>Driver_Run\<close>: all runs
      of these operations, and what the driver relies on without checking it (\<open>relied_on\<close>).
      \<open>Name_Resolution\<close>: two hosts, the one finding out the name of the other.

  \<^bold>\<open>Xen.\<close>
    \<^item> \<open>Xen_Grants\<close>, \<open>Xen_Front_Regions\<close> (\<open>frontend/omx_xenfront_reg.c\<close>) and \<open>Xen_Back_Regions\<close>
      (\<open>backend/omx_xenback_reg.c\<close>, two cases of \<open>process_message\<close> in \<open>omx_xenback.c\<close>): a region of a guest is
      granted page by page, the references are written to pages that are granted too, and the backend
      maps both. The hypervisor and the allocators of the kernel are the parameter \<open>xen_ops\<close>; the laws
      \<open>xen_laws\<close> state what their documentation says, on a view of grants, mappings and pages in use.
    \<^item> \<open>Xen_Cookies\<close>, \<open>Xen_Granting\<close>, \<open>Xen_Mapping\<close>, \<open>Xen_Sharing\<close>: the invariant of the cookies (disjoint sets
      of references that grant nothing), what granting, mapping, unmapping and releasing a segment do.
      \<open>Xen_Sample\<close> is a machine that satisfies the laws, \<open>Xen_Regions\<close> has the properties.

  \<^bold>\<open>Bounds.\<close> Loops whose end follows from their data are structural recursions. The event loop of the
  library has fuel \<open>OMX_EVENTQ_ENTRY_NR + 1\<close>, and \<open>exp_loop_delivers\<close> shows that it suffices. The end of
  all pulls of an endpoint has the length of its list as fuel. \<open>resend_loop\<close>, \<open>reconnect_loop\<close> and
  \<open>cookie_alloc_loop\<close> are partial functions whose value is \<open>None\<close> when they do not end; the last one indeed
  does not when the kernel has no references left (\<open>references_exhausted_hangs\<close>).

  \<^bold>\<open>Not modelled.\<close> Threads and locks: a call of the library runs alone, and the steps of the driver are its
  critical sections; readers of the table of peers under RCU see it between two of them, and what is freed
  after a grace period is freed at once. The clock stands still during a call. Calls that sleep (\<open>omx_wait\<close>, \<open>omx_peek\<close>,
  \<open>omx_connect\<close>) and the wake-up of waiters. Pinning on demand, the copies by a DMA engine, the mode
  compatible with the wire format of MX, counters, debugging code. The senders and receivers of small
  messages in the driver (\<open>omx_send.c\<close>, \<open>omx_recv.c\<close>, \<open>omx_shared.c\<close>), the raw endpoints, the attributes of
  sysfs and the dispatch of the ioctls. The twins of the files modelled
  (\<open>libopen-mx/\<close>, and the files of \<open>driver/frontend/\<close> and \<open>driver/backend/\<close> with the names of those of
  \<open>driver/linux/\<close>). The rings between frontend and backend, where a call of the backend whose answer may
  not arrive stands for them; their endpoints and the sends they forward. \<open>dlmalloc.c\<close> is third-party
  code. Tools and tests.
\<close>

end
